(* ===== verification/G7_Prelude.thy ===== *)
theory G7_Prelude
  imports Main "HOL-Library.Word" "HOL-Library.Char_ord" "HOL-Library.List_Lexorder"
begin

text \<open>
  Shared vocabulary of the development: C strings as \<open>char list\<close> (the bytes before
  the terminating zero), the byte classification of \<open>ctype.h\<close>, the string functions of
  the C library that the daemon calls, decimal printing and reading, the wrap-around of the
  fixed-width integer types, and the linear search loop
  \<^verbatim>\<open>while (i < n && !P(a[i])) i++\<close> that most tables of the daemon are searched with.
\<close>

named_theorems strlib "facts on the C string library functions"
named_theorems search "facts on the linear search loop"

section \<open>Characters and C strings\<close>

abbreviation NUL :: char where "NUL \<equiv> CHR 0x00"
abbreviation TAB :: char where "TAB \<equiv> CHR 0x09"
abbreviation LF :: char where "LF \<equiv> CHR 0x0A"
abbreviation CR :: char where "CR \<equiv> CHR 0x0D"
abbreviation DQ :: char where "DQ \<equiv> CHR 0x22"
abbreviation BSLASH :: char where "BSLASH \<equiv> CHR 0x5C"

abbreviation quoted_text :: "string \<Rightarrow> string" where
  "quoted_text s \<equiv> [DQ] @ s @ [DQ]"

text \<open>A byte as the number \<open>unsigned char\<close> reads.\<close>

abbreviation byte :: "char \<Rightarrow> nat" where "byte c \<equiv> of_char c"

lemma byte_less_256 [simp]: "byte c < 256"
  using range_nat_of_char by (metis atLeastLessThan_iff rangeI)

lemma byte_inject [simp]: "byte c = byte d \<longleftrightarrow> c = d"
  by (rule of_char_eq_iff)

lemma byte_char_of [simp]: "byte (char_of n) = n mod 256"
  by (simp add: of_char_of)

text \<open>The contents of a zero-terminated buffer: no byte of it is zero.\<close>

definition cstr :: "string \<Rightarrow> bool" where
  "cstr s \<longleftrightarrow> NUL \<notin> set s"

text \<open>
  Reading \<open>s[i]\<close>: the terminator is readable at index \<open>strlen(s)\<close>; a read beyond it is
  undefined behaviour, the value \<open>None\<close>.
\<close>

definition c_at :: "string \<Rightarrow> nat \<Rightarrow> char option" where
  "c_at s i = (if i < length s then Some (s ! i) else if i = length s then Some NUL else None)"

text \<open>What a buffer holds as a C string: the bytes before the first zero.\<close>

definition c_string :: "char list \<Rightarrow> string" where
  "c_string b = takeWhile (\<lambda>c. c \<noteq> NUL) b"

lemma c_string_id [simp]: "cstr s \<Longrightarrow> c_string s = s"
  by (auto simp: c_string_def cstr_def takeWhile_eq_all_conv)

lemma cstr_c_string [simp]: "cstr (c_string b)"
  by (auto simp: c_string_def cstr_def dest: set_takeWhileD)

lemma cstr_Nil [simp]: "cstr []"
  by (simp add: cstr_def)

lemma cstr_Cons [simp]: "cstr (c # s) \<longleftrightarrow> c \<noteq> NUL \<and> cstr s"
  by (auto simp: cstr_def)

lemma cstr_append [simp]: "cstr (s @ t) \<longleftrightarrow> cstr s \<and> cstr t"
  by (auto simp: cstr_def)

lemma cstr_take [simp]: "cstr s \<Longrightarrow> cstr (take n s)"
  by (auto simp: cstr_def dest: in_set_takeD)

lemma cstr_drop [simp]: "cstr s \<Longrightarrow> cstr (drop n s)"
  by (auto simp: cstr_def dest: in_set_dropD)

section \<open>The C library: \<open>ctype.h\<close> and \<open>string.h\<close>\<close>

definition is_digit :: "char \<Rightarrow> bool" where
  "is_digit c \<longleftrightarrow> 48 \<le> byte c \<and> byte c \<le> 57"

definition tolower :: "char \<Rightarrow> char" where
  "tolower c = (if 65 \<le> byte c \<and> byte c \<le> 90 then char_of (byte c + 32) else c)"

definition is_space :: "char \<Rightarrow> bool" where
  "is_space c \<longleftrightarrow> c = CHR '' '' \<or> (9 \<le> byte c \<and> byte c \<le> 13)"

definition strnlen :: "string \<Rightarrow> nat \<Rightarrow> nat" where
  "strnlen s n = min (length s) n"

text \<open>
  \<open>strcmp\<close> compares the bytes as \<open>unsigned char\<close>; only the sign of its result is
  specified by the C standard, so the model returns the sign.
\<close>

definition strcmp :: "string \<Rightarrow> string \<Rightarrow> int" where
  "strcmp s t = (if s < t then -1 else if s = t then 0 else 1)"

definition strcasecmp :: "string \<Rightarrow> string \<Rightarrow> int" where
  "strcasecmp s t = strcmp (map tolower s) (map tolower t)"

lemma strcmp_eq_0 [simp]: "strcmp s t = 0 \<longleftrightarrow> s = t"
  by (auto simp: strcmp_def)

lemma strcmp_le_0: "strcmp s t \<le> 0 \<longleftrightarrow> s \<le> t"
  by (auto simp: strcmp_def)

lemma strcmp_antisym: "strcmp t s = - strcmp s t"
  by (auto simp: strcmp_def)

lemma strcasecmp_eq_0 [simp]: "strcasecmp s t = 0 \<longleftrightarrow> map tolower s = map tolower t"
  by (simp add: strcasecmp_def)

lemma tolower_idem [simp]: "tolower (tolower c) = tolower c"
  by (auto simp: tolower_def)

text \<open>The letters, for the evaluation on literals.\<close>

lemma tolower_upper:
  "tolower (CHR ''A'') = CHR ''a''" "tolower (CHR ''B'') = CHR ''b''"
  "tolower (CHR ''C'') = CHR ''c''" "tolower (CHR ''D'') = CHR ''d''"
  "tolower (CHR ''E'') = CHR ''e''" "tolower (CHR ''F'') = CHR ''f''"
  "tolower (CHR ''G'') = CHR ''g''" "tolower (CHR ''H'') = CHR ''h''"
  "tolower (CHR ''I'') = CHR ''i''" "tolower (CHR ''J'') = CHR ''j''"
  "tolower (CHR ''K'') = CHR ''k''" "tolower (CHR ''L'') = CHR ''l''"
  "tolower (CHR ''M'') = CHR ''m''" "tolower (CHR ''N'') = CHR ''n''"
  "tolower (CHR ''O'') = CHR ''o''" "tolower (CHR ''P'') = CHR ''p''"
  "tolower (CHR ''Q'') = CHR ''q''" "tolower (CHR ''R'') = CHR ''r''"
  "tolower (CHR ''S'') = CHR ''s''" "tolower (CHR ''T'') = CHR ''t''"
  "tolower (CHR ''U'') = CHR ''u''" "tolower (CHR ''V'') = CHR ''v''"
  "tolower (CHR ''W'') = CHR ''w''" "tolower (CHR ''X'') = CHR ''x''"
  "tolower (CHR ''Y'') = CHR ''y''" "tolower (CHR ''Z'') = CHR ''z''"
  by (simp_all add: tolower_def char_of_def bit_0)

lemma tolower_other: "byte c < 65 \<or> 90 < byte c \<Longrightarrow> tolower c = c"
  by (auto simp: tolower_def)

lemmas tolower_eval = tolower_upper tolower_other

lemma tolower_NUL [simp]: "tolower NUL = NUL"
  by (simp add: tolower_def)

lemma tolower_eq_NUL [simp]: "tolower c = NUL \<longleftrightarrow> c = NUL"
proof
  assume eq: "tolower c = NUL"
  show "c = NUL"
  proof (rule ccontr)
    assume "c \<noteq> NUL"
    then have "byte c \<noteq> 0" using byte_inject [of c NUL] by auto
    moreover have "byte (tolower c) = 0" using eq by simp
    ultimately show False by (auto simp: tolower_def split: if_splits)
  qed
qed simp

section \<open>The linear search loop\<close>

text \<open>
  The index at which \<^verbatim>\<open>i = 0; while (i < n && !P(a[i])) i++;\<close> stops: the first element
  that satisfies \<open>P\<close>, or the length when there is none.
\<close>

fun find_idx :: "('a \<Rightarrow> bool) \<Rightarrow> 'a list \<Rightarrow> nat" where
  "find_idx P [] = 0"
| "find_idx P (x # xs) = (if P x then 0 else Suc (find_idx P xs))"

lemma find_idx_le [search, simp]: "find_idx P xs \<le> length xs"
  by (induction xs) auto

lemma find_idx_sat [search]: "find_idx P xs < length xs \<Longrightarrow> P (xs ! find_idx P xs)"
  by (induction xs) auto

lemma find_idx_before [search]: "i < find_idx P xs \<Longrightarrow> \<not> P (xs ! i)"
  by (induction xs arbitrary: i) (auto simp: nth_Cons split: nat.splits if_splits)

lemma find_idx_less_iff [search]: "find_idx P xs < length xs \<longleftrightarrow> (\<exists>x\<in>set xs. P x)"
  by (induction xs) auto

lemma find_idx_ge_iff [search]: "length xs \<le> find_idx P xs \<longleftrightarrow> (\<forall>x\<in>set xs. \<not> P x)"
  using find_idx_less_iff [of P xs] by auto

lemma find_idx_eqI:
  assumes "i < length xs" and "P (xs ! i)" and "\<And>j. j < i \<Longrightarrow> \<not> P (xs ! j)"
  shows "find_idx P xs = i"
proof (rule antisym)
  show "find_idx P xs \<le> i"
    using find_idx_before [of i P xs] assms(2) by (meson linorder_not_less)
  have "find_idx P xs < length xs"
    using assms(1,2) by (auto simp: find_idx_less_iff)
  then show "i \<le> find_idx P xs"
    using find_idx_sat [of P xs] assms(3) by (meson linorder_not_less)
qed

lemma find_idx_append [search]:
  "find_idx P (xs @ ys) =
     (if find_idx P xs < length xs then find_idx P xs else length xs + find_idx P ys)"
  by (induction xs) auto

lemma find_idx_cong:
  "(\<And>x. x \<in> set xs \<Longrightarrow> P x = Q x) \<Longrightarrow> find_idx P xs = find_idx Q xs"
  by (induction xs) auto

text \<open>On a list of pairs the search by name is the lookup in the association list.\<close>

lemma map_of_find_idx:
  "map_of xs k =
     (let i = find_idx (\<lambda>p. fst p = k) xs in if i < length xs then Some (snd (xs ! i)) else None)"
  by (induction xs) (auto simp: Let_def)

text \<open>The element found, as the library's \<open>find\<close>.\<close>

lemma find_of_find_idx:
  "(let i = find_idx P xs in if i < length xs then Some (f (xs ! i)) else None) = map_option f (find P xs)"
  by (induction xs) (auto simp: Let_def)

lemma find_append: "find P (xs @ ys) = (case find P xs of Some x \<Rightarrow> Some x | None \<Rightarrow> find P ys)"
  by (induction xs) auto

section \<open>Decimal numbers\<close>

definition digit_char :: "nat \<Rightarrow> char" where
  "digit_char d = char_of (48 + d)"

text \<open>The text of \<^verbatim>\<open>%u\<close> and, for a minimal width filled with zeros, of \<^verbatim>\<open>%0wu\<close>.\<close>

fun dec :: "nat \<Rightarrow> string" where
  "dec n = (if n < 10 then [digit_char n] else dec (n div 10) @ [digit_char (n mod 10)])"

declare dec.simps [simp del]

definition dec_pad :: "nat \<Rightarrow> nat \<Rightarrow> string" where
  "dec_pad w n = replicate (w - length (dec n)) (CHR ''0'') @ dec n"

text \<open>The text of \<^verbatim>\<open>%d\<close>, and of \<^verbatim>\<open>%ws\<close> for a width \<open>w\<close>.\<close>

definition dec_int :: "int \<Rightarrow> string" where
  "dec_int v = (if v < 0 then CHR ''-'' # dec (nat (- v)) else dec (nat v))"

definition pad_left :: "nat \<Rightarrow> string \<Rightarrow> string" where
  "pad_left w s = replicate (w - length s) (CHR '' '') @ s"

definition dec_value :: "string \<Rightarrow> nat" where
  "dec_value s = foldl (\<lambda>v c. 10 * v + (byte c - 48)) 0 s"

lemma byte_digit_char: "d < 10 \<Longrightarrow> byte (digit_char d) = 48 + d"
  by (simp add: digit_char_def)

lemma is_digit_digit_char: "d < 10 \<Longrightarrow> is_digit (digit_char d)"
  by (simp add: is_digit_def byte_digit_char)

lemma dec_value_snoc [simp]: "dec_value (s @ [c]) = 10 * dec_value s + (byte c - 48)"
  by (simp add: dec_value_def)

lemma dec_value_Nil [simp]: "dec_value [] = 0"
  by (simp add: dec_value_def)

lemma dec_value_zeros [simp]: "dec_value (replicate n (CHR ''0'') @ s) = dec_value s"
  by (induction n) (simp_all add: dec_value_def)

lemma dec_value_dec [simp]: "dec_value (dec n) = n"
proof (induction n rule: dec.induct)
  case (1 n)
  then show ?case
    by (subst dec.simps) (auto simp: byte_digit_char dec_value_snoc [of "[]", simplified])
qed

lemma dec_digits [simp]: "list_all is_digit (dec n)"
proof (induction n rule: dec.induct)
  case (1 n)
  then show ?case by (subst dec.simps) (auto simp: is_digit_digit_char)
qed

lemma dec_nonempty [simp]: "dec n \<noteq> []"
  by (subst dec.simps) simp

lemma dec_pad_digits [simp]: "list_all is_digit (dec_pad w n)"
  by (simp add: dec_pad_def list_all_iff is_digit_def)
    (use dec_digits [of n] in \<open>auto simp: list_all_iff is_digit_def\<close>)

lemma dec_value_dec_pad [simp]: "dec_value (dec_pad w n) = n"
  by (simp add: dec_pad_def)

lemma dec_inject [simp]: "dec m = dec n \<longleftrightarrow> m = n"
  by (metis dec_value_dec)

lemma length_dec_less: "0 < k \<Longrightarrow> n < 10 ^ k \<Longrightarrow> length (dec n) \<le> k"
proof (induction n arbitrary: k rule: dec.induct)
  case (1 n)
  show ?case
  proof (cases "n < 10")
    case True
    with "1.prems" show ?thesis by (subst dec.simps) simp
  next
    case False
    with "1.prems" obtain k' where k: "k = Suc k'" "0 < k'"
      by (cases k; cases "k - 1") auto
    with "1.prems" have "n div 10 < 10 ^ k'" by (simp add: less_mult_imp_div_less mult.commute)
    with "1.IH" [OF False, of k'] k have "length (dec (n div 10)) \<le> k'" by simp
    with False k show ?thesis by (subst dec.simps) simp
  qed
qed

lemma length_dec_pad: "0 < k \<Longrightarrow> n < 10 ^ k \<Longrightarrow> length (dec_pad k n) = k"
  using length_dec_less [of k n] by (simp add: dec_pad_def)

text \<open>
  What \<open>snprintf\<close> leaves in a buffer of \<open>sz\<close> bytes, and what \<open>strncpy(buf, s, n)\<close> leaves
  in a zeroed one that is longer than \<open>n\<close>.
\<close>

abbreviation snprintf :: "nat \<Rightarrow> string \<Rightarrow> string" where
  "snprintf sz txt \<equiv> take (sz - 1) txt"

abbreviation strncpy0 :: "string \<Rightarrow> nat \<Rightarrow> string" where
  "strncpy0 s n \<equiv> take n s"

section \<open>Fixed-width integers\<close>

type_synonym u32 = "32 word"

text \<open>Conversion to \<open>int\<close> and to \<open>unsigned\<close> (32 bits) of a wider value.\<close>

definition to_int32 :: "int \<Rightarrow> int" where
  "to_int32 v = sint (word_of_int v :: 32 word)"

definition to_uint32 :: "int \<Rightarrow> nat" where
  "to_uint32 v = unat (word_of_int v :: 32 word)"

lemma to_int32_id: "- (2 ^ 31) \<le> v \<Longrightarrow> v < 2 ^ 31 \<Longrightarrow> to_int32 v = v"
  by (simp add: to_int32_def signed_of_int signed_take_bit_int_eq_self)

lemma to_int32_bounds: "- (2 ^ 31) \<le> to_int32 v \<and> to_int32 v < 2 ^ 31"
  using sint_greater_eq [of "word_of_int v :: 32 word"] sint_less [of "word_of_int v :: 32 word"]
  by (simp add: to_int32_def)

lemma to_uint32_id: "v < 2 ^ 32 \<Longrightarrow> to_uint32 (int v) = v"
  by (simp add: to_uint32_def unsigned_of_nat take_bit_nat_eq_self)

definition LONG_MAX :: int where "LONG_MAX = 2 ^ 63 - 1"
definition LONG_MIN :: int where "LONG_MIN = - (2 ^ 63)"

text \<open>The number of values of \<open>size_t\<close>; \<open>(size_t)-1\<close> is the largest of them.\<close>

definition SIZE_MOD :: nat where "SIZE_MOD = 2 ^ 64"

text \<open>
  \<open>strtol(s, &end, 10)\<close>: leading white space, an optional sign and the digits that follow;
  \<open>None\<close> when no digit is found (\<open>end\<close> is then \<open>s\<close>). The value is the mathematical one;
  the callers saturate it.
\<close>

definition strtol_digits :: "string \<Rightarrow> bool \<times> string" where
  "strtol_digits s =
     (let t = dropWhile is_space s in
      case t of [] \<Rightarrow> (False, [])
      | c # u \<Rightarrow> if c = CHR ''-'' then (True, takeWhile is_digit u)
                 else if c = CHR ''+'' then (False, takeWhile is_digit u)
                 else (False, takeWhile is_digit t))"

definition strtol :: "string \<Rightarrow> int option" where
  "strtol s =
     (let (neg, ds) = strtol_digits s
      in if ds = [] then None else Some (if neg then - int (dec_value ds) else int (dec_value ds)))"

lemma is_digit_not_space: "is_digit c \<Longrightarrow> \<not> is_space c"
  by (auto simp: is_digit_def is_space_def)

lemma strtol_all_digits: "list_all is_digit s \<Longrightarrow> s \<noteq> [] \<Longrightarrow> strtol s = Some (int (dec_value s))"
proof (cases s)
  case (Cons c u)
  moreover assume "list_all is_digit s"
  ultimately have "is_digit c" and all: "takeWhile is_digit s = s"
    by (auto simp: list_all_iff takeWhile_eq_all_conv)
  then have "c \<noteq> CHR ''-''" "c \<noteq> CHR ''+''" "\<not> is_space c"
    by (auto simp: is_digit_not_space) (auto simp: is_digit_def)
  with Cons all show ?thesis by (simp add: strtol_def strtol_digits_def)
qed simp

lemma strtol_Nil: "strtol [] = None"
  by (simp add: strtol_def strtol_digits_def)

end
