(* ===== verification/Xstr.thy ===== *)
theory Xstr
  imports G7_Prelude
begin

unbundle bit_operations_syntax

text \<open>
  The string library \<^verbatim>\<open>src/src/libxstr/xstr.c\<close>: bounded copy and concatenation, trimming,
  the checked number conversions, case-insensitive comparison, substrings, file names, the
  byte-index arithmetic on UTF-8 strings and the splitting of a line into fields. An
  out-parameter of the C function is a component of the result; a buffer that is read before
  it is written is an argument. Pointers are assumed to be valid and memory allocation to
  succeed; a read outside a string is the value \<open>None\<close>.
\<close>

section \<open>Bounded copy and concatenation\<close>

definition xstrlcpy :: "string \<Rightarrow> nat \<Rightarrow> string \<times> nat" where
  "xstrlcpy src sz =
     (if sz = 0 then ([], 0)
      else let size2 = strnlen src sz + 1 in
        if size2 = 1 then ([], 0)
        else let dst = take ((if sz < size2 then sz else size2) - 1) src
             in (dst, strnlen dst sz))"

definition xstrlcat :: "string \<Rightarrow> string \<Rightarrow> nat \<Rightarrow> string \<times> nat" where
  "xstrlcat dst src sz =
     (if sz = 0 then (dst, 0)
      else if strnlen dst (sz - 1) = sz - 1 then (dst, sz - 1)
      else let dst' = (if length src + length dst < sz
                       then dst @ take (sz - 1 - length dst) src else dst)
           in (dst', strnlen dst' sz))"

text \<open>\<open>txt\<close> is what the format and its arguments print.\<close>

definition xvstrncat :: "string \<Rightarrow> nat \<Rightarrow> string \<Rightarrow> string \<times> nat" where
  "xvstrncat dst sz txt = (let blen = 1024 * 50 in xstrlcat dst (take (blen - 1) txt) sz)"

section \<open>Trimming\<close>

text \<open>The loop that moves \<open>endptr\<close> back: \<open>n\<close> bytes are left.\<close>

fun trim_back :: "(char \<Rightarrow> bool) \<Rightarrow> string \<Rightarrow> nat \<Rightarrow> nat" where
  "trim_back P s 0 = 0"
| "trim_back P s (Suc n) = (if P (s ! n) then trim_back P s n else Suc n)"

definition xstrtrim :: "string \<Rightarrow> string" where
  "xstrtrim str =
     (let start = find_idx (\<lambda>c. c \<noteq> CHR '' '') str;
          n = trim_back (\<lambda>c. c = CHR '' '') str (length str)
      in drop start (take n str))"

definition xstrtrim_crnl :: "string \<Rightarrow> string" where
  "xstrtrim_crnl str =
     (let start = find_idx (\<lambda>c. c \<noteq> CHR '' '') str;
          n = trim_back (\<lambda>c. c = CHR '' '' \<or> c = LF \<or> c = CR) str (length str)
      in drop start (take n str))"

section \<open>Numbers\<close>

definition xatol :: "string \<Rightarrow> int" where
  "xatol str =
     (case strtol str of
        None \<Rightarrow> 0
      | Some val \<Rightarrow> if LONG_MAX < val \<or> val < LONG_MIN then 0 else val)"

definition xatoi :: "string \<Rightarrow> int" where
  "xatoi str =
     (if \<not> list_all is_digit str then 0
      else case strtol str of
        None \<Rightarrow> 0
      | Some val \<Rightarrow> to_int32 (if LONG_MAX < val \<or> val < LONG_MIN then 0 else val))"

section \<open>Case folding, comparison, file names, substrings\<close>

fun xstrtolower_loop :: "nat \<Rightarrow> string \<Rightarrow> string \<times> nat" where
  "xstrtolower_loop safetylimit [] = ([], safetylimit - 1)"
| "xstrtolower_loop safetylimit (c # s) =
     (if 0 < safetylimit - 1
      then let (r, l) = xstrtolower_loop (safetylimit - 1) s in (tolower c # r, l)
      else (c # s, safetylimit - 1))"

definition xstrtolower :: "string \<Rightarrow> string \<times> int" where
  "xstrtolower s =
     (let (r, safetylimit) = xstrtolower_loop 4096 s in (r, if safetylimit \<le> 0 then -1 else 0))"

definition xstricmp :: "string \<Rightarrow> string \<Rightarrow> int" where
  "xstricmp s1 s2 =
     (let safetylimit = 4096; len1 = strnlen s1 safetylimit; len2 = strnlen s2 safetylimit in
      if safetylimit \<le> len1 \<or> safetylimit \<le> len2 then -1
      else strcmp (fst (xstrtolower s1)) (fst (xstrtolower s2)))"

definition not_filename_safe :: "char \<Rightarrow> bool" where
  "not_filename_safe c \<longleftrightarrow>
     c = CHR '' '' \<or> c = CHR ''&'' \<or> c = CHR '':'' \<or> c = CHR ''!'' \<or> c = CHR ''#'' \<or>
     c = CHR ''?'' \<or> c = CHR ''/'' \<or> c = BSLASH \<or> c = CHR ''@'' \<or> c = CHR '',''"

definition xstrfilify :: "string \<Rightarrow> char \<Rightarrow> string" where
  "xstrfilify str replace = map (\<lambda>c. if not_filename_safe c then replace else c) str"

fun read_range :: "string \<Rightarrow> nat \<Rightarrow> nat \<Rightarrow> char list option" where
  "read_range from s 0 = Some []"
| "read_range from s (Suc n) =
     (case c_at from s of
        None \<Rightarrow> None
      | Some c \<Rightarrow> map_option ((#) c) (read_range from (Suc s) n))"

definition xsubstr :: "nat \<Rightarrow> string \<Rightarrow> nat \<Rightarrow> nat \<Rightarrow> (int \<times> string) option" where
  "xsubstr maxlen from s e =
     (let e' = (if e = SIZE_MOD - 1 then (length from + SIZE_MOD - 1) mod SIZE_MOD else e) in
      if e' < s then Some (-1, [])
      else let len = (e' - s + 1) mod SIZE_MOD in
        if maxlen \<le> len then Some (-1, [])
        else map_option (\<lambda>b. (0, c_string b)) (read_range from s len))"

fun xstrfext_loop :: "string \<Rightarrow> bool \<Rightarrow> string \<Rightarrow> (int \<times> string)" where
  "xstrfext_loop [] foundDot ext = (if 2 < length ext then 0 else -1, ext)"
| "xstrfext_loop (c # s) foundDot ext =
     (if c = CHR ''.'' then
        if foundDot then (-1, ext) else xstrfext_loop s True ext
      else if foundDot then
        let ext' = ext @ [c] in
        if 4 < length ext' then (-1, ext') else xstrfext_loop s foundDot ext'
      else xstrfext_loop s foundDot ext)"

definition xstrfext :: "string \<Rightarrow> int \<times> string" where
  "xstrfext fileName = xstrfext_loop fileName False []"

section \<open>Byte indices of UTF-8 strings\<close>

definition isutf :: "char \<Rightarrow> bool" where
  "isutf c \<longleftrightarrow> byte c AND 0xC0 \<noteq> 0x80"

text \<open>\<open>isutf(s[i])\<close>, with the read of \<open>s[i]\<close> checked.\<close>

definition isutf_at :: "string \<Rightarrow> nat \<Rightarrow> bool option" where
  "isutf_at s i = map_option isutf (c_at s i)"

definition xmb_inc :: "string \<Rightarrow> nat \<Rightarrow> nat option" where
  "xmb_inc s i =
     (case isutf_at s (i + 1) of None \<Rightarrow> None | Some True \<Rightarrow> Some (i + 1) | Some False \<Rightarrow>
     (case isutf_at s (i + 2) of None \<Rightarrow> None | Some True \<Rightarrow> Some (i + 2) | Some False \<Rightarrow>
     (case isutf_at s (i + 3) of None \<Rightarrow> None | Some True \<Rightarrow> Some (i + 3) | Some False \<Rightarrow>
        Some (i + 4))))"

text \<open>Going below index 0 reads before the string.\<close>

definition xmb_dec :: "string \<Rightarrow> nat \<Rightarrow> nat option" where
  "xmb_dec s i =
     (if i < 1 then None else
      case isutf_at s (i - 1) of None \<Rightarrow> None | Some True \<Rightarrow> Some (i - 1) | Some False \<Rightarrow>
     (if i < 2 then None else
      case isutf_at s (i - 2) of None \<Rightarrow> None | Some True \<Rightarrow> Some (i - 2) | Some False \<Rightarrow>
     (if i < 3 then None else
      case isutf_at s (i - 3) of None \<Rightarrow> None | Some True \<Rightarrow> Some (i - 3) | Some False \<Rightarrow>
     (if i < 4 then None else Some (i - 4)))))"

fun xmb_offset_loop :: "string \<Rightarrow> nat \<Rightarrow> nat \<Rightarrow> nat option" where
  "xmb_offset_loop s 0 offs = Some offs"
| "xmb_offset_loop s (Suc charnum) offs =
     (case c_at s offs of
        None \<Rightarrow> None
      | Some c \<Rightarrow> if c = NUL then Some offs
                 else case xmb_inc s offs of
                        None \<Rightarrow> None
                      | Some offs' \<Rightarrow> xmb_offset_loop s charnum offs')"

definition xmb_offset :: "string \<Rightarrow> int \<Rightarrow> nat option" where
  "xmb_offset s charnum = xmb_offset_loop s (nat charnum) 0"

lemma xmb_inc_gt: "xmb_inc s i = Some j \<Longrightarrow> i < j"
  by (auto simp: xmb_inc_def split: option.splits bool.splits)

function xmb_charnum_loop :: "string \<Rightarrow> nat \<Rightarrow> nat \<Rightarrow> nat \<Rightarrow> nat option" where
  "xmb_charnum_loop s offset offs charnum =
     (if offset \<le> offs then Some charnum
      else case c_at s offs of
        None \<Rightarrow> None
      | Some c \<Rightarrow> if c = NUL then Some charnum
                 else case xmb_inc s offs of
                        None \<Rightarrow> None
                      | Some offs' \<Rightarrow> xmb_charnum_loop s offset offs' (Suc charnum))"
  by pat_completeness auto
termination
  by (relation "measure (\<lambda>(s, offset, offs, charnum). offset - offs)")
    (auto dest: xmb_inc_gt)

declare xmb_charnum_loop.simps [simp del]

definition xmb_charnum :: "string \<Rightarrow> nat \<Rightarrow> nat option" where
  "xmb_charnum s offset = xmb_charnum_loop s offset 0 0"

definition xmb_strncpy :: "string \<Rightarrow> nat \<Rightarrow> string option" where
  "xmb_strncpy s2 maxbuff =
     (case xmb_charnum s2 maxbuff of None \<Rightarrow> None | Some charnum \<Rightarrow>
     (case xmb_offset s2 (int charnum) of None \<Rightarrow> None | Some byteidx \<Rightarrow>
     (case (if maxbuff \<le> byteidx then xmb_dec s2 byteidx else Some byteidx) of
        None \<Rightarrow> None
      | Some byteidx' \<Rightarrow> Some (take byteidx' s2))))"

text \<open>The destination afterwards and the string the returned pointer points to.\<close>

definition xmb_strncat :: "string \<Rightarrow> string \<Rightarrow> nat \<Rightarrow> (string \<times> string) option" where
  "xmb_strncat dest src maxlen =
     (let dlen = length dest in
      if maxlen = 0 \<or> maxlen - 1 \<le> dlen then Some (dest, dest)
      else map_option (\<lambda>c. (dest @ c, c)) (xmb_strncpy src (maxlen - dlen - 1)))"

text \<open>
  Padding to a width in characters. \<open>mbs\<close> is the character count of the C library for the
  locale of the process, \<open>None\<close> where \<open>mbsrtowcs\<close> reports an invalid sequence.
\<close>

definition xmb_rpad :: "(string \<Rightarrow> nat option) \<Rightarrow> string \<Rightarrow> nat \<Rightarrow> nat \<Rightarrow> char \<Rightarrow> int \<times> string" where
  "xmb_rpad mbs s pad maxlen padc =
     (case mbs s of
        None \<Rightarrow> (-1, s)
      | Some mbn \<Rightarrow>
          if maxlen \<le> length s + pad \<or> pad < mbn then (-1, s)
          else (0, s @ replicate (pad - mbn) padc))"

text \<open>The left padding works in place on the buffer \<open>b\<close>, so the loops are kept as updates of it.\<close>

definition xmb_lpad :: "(string \<Rightarrow> nat option) \<Rightarrow> char list \<Rightarrow> nat \<Rightarrow> nat \<Rightarrow> char \<Rightarrow> int \<times> char list" where
  "xmb_lpad mbs b pad maxlen padc =
     (let s = c_string b; n = length s in
      case mbs s of
        None \<Rightarrow> (-1, b)
      | Some mbn \<Rightarrow>
          if maxlen \<le> n + pad \<or> pad < mbn then (-1, b)
          else let b1 = b[pad := NUL];
                   b2 = fold (\<lambda>i b. b[pad - mbn + i := b ! i]) [0..<n] b1;
                   b3 = fold (\<lambda>i b. b[i := padc]) [0..<pad - mbn] b2
               in (0, b3))"

section \<open>Splitting a line into fields\<close>

definition MAX_SPLIT_FIELDS :: nat where "MAX_SPLIT_FIELDS = 64"
definition MAX_FIELD_SIZE :: nat where "MAX_FIELD_SIZE = 256"

text \<open>\<open>nf\<close> of \<open>struct splitfields\<close> is the length of the list.\<close>

type_synonym splitfields = "string list"

text \<open>The inner loop: the field copied, the rest of the input, the free bytes left.\<close>

fun split_copy :: "char \<Rightarrow> string \<Rightarrow> nat \<Rightarrow> string \<times> string \<times> nat" where
  "split_copy delim [] flen = ([], [], flen)"
| "split_copy delim (c # b) flen =
     (if c = delim \<or> flen = 0 then ([], c # b, flen)
      else let (f, r, l) = split_copy delim b (flen - 1) in (c # f, r, l))"

lemma split_copy_length: "split_copy d b n = (f, r, l) \<Longrightarrow> length f + length r = length b"
  by (induction d b n arbitrary: f r l rule: split_copy.induct)
    (auto split: prod.splits if_splits)

lemma split_copy_flen: "split_copy d b n = (f, r, l) \<Longrightarrow> length f + l = n"
  by (induction d b n arbitrary: f r l rule: split_copy.induct)
    (auto split: prod.splits if_splits)

function split_loop :: "char \<Rightarrow> string \<Rightarrow> splitfields \<Rightarrow> int \<times> splitfields" where
  "split_loop delim b flds =
     (if b = [] then (0, flds)
      else let (f, r, flen) = split_copy delim b MAX_FIELD_SIZE in
        if flen = 0 then (-1, flds)
        else let r' = (case r of [] \<Rightarrow> [] | c # r'' \<Rightarrow> if c = delim then r'' else r);
                 flds' = flds @ [f]
             in if MAX_SPLIT_FIELDS \<le> length flds' then (-1, flds')
                else split_loop delim r' flds')"
  by pat_completeness auto

lemma split_copy_rest:
  assumes "b \<noteq> []" and "split_copy d b MAX_FIELD_SIZE = (f, r, l)"
  shows "length (case r of [] \<Rightarrow> [] | c # r'' \<Rightarrow> if c = d then r'' else r) < length b"
proof (cases b)
  case (Cons c b')
  show ?thesis
  proof (cases "c = d")
    case True
    with Cons assms(2) show ?thesis by auto
  next
    case False
    with Cons assms(2) have "0 < length f"
      by (auto simp: MAX_FIELD_SIZE_def split: prod.splits)
    then have "length r < length b"
      using split_copy_length [OF assms(2)] by linarith
    then show ?thesis by (auto split: list.splits)
  qed
qed (use assms in simp)

termination split_loop
  by (relation "measure (\<lambda>(d, b, flds). length b)") (auto dest: split_copy_rest [OF _ sym])

declare split_loop.simps [simp del]

definition xstrsplitfields :: "string \<Rightarrow> char \<Rightarrow> int \<times> splitfields" where
  "xstrsplitfields buffer delim =
     (if 1024 \<le> length buffer \<or> length buffer = 0 then (-1, [])
      else case split_loop delim buffer [] of
        (rc, flds) \<Rightarrow>
          if rc \<noteq> 0 then (rc, flds)
          else if delim = last buffer then (0, flds @ [[]])
          else (0, flds))"

section \<open>Copy, concatenation, trimming\<close>

lemma xstrlcpy_eq: "xstrlcpy src sz = (take (sz - 1) src, min (length src) (sz - 1))"
  by (cases src) (auto simp: xstrlcpy_def strnlen_def Let_def min_def)

lemma fst_xstrlcpy [simp]: "fst (xstrlcpy src sz) = take (sz - 1) src"
  by (simp add: xstrlcpy_eq)

lemma xstrlcat_eq:
  "length dst < sz \<Longrightarrow>
   xstrlcat dst src sz =
     (if length dst + length src < sz then (dst @ src, length dst + length src)
      else (dst, length dst))"
  by (cases src) (auto simp: xstrlcat_def strnlen_def Let_def min_def)

lemma xstrlcat_fits:
  "length dst + length src < sz \<Longrightarrow> xstrlcat dst src sz = (dst @ src, length dst + length src)"
  by (simp add: xstrlcat_eq)

definition rtrim :: "(char \<Rightarrow> bool) \<Rightarrow> string \<Rightarrow> string" where
  "rtrim P s = rev (dropWhile P (rev s))"

lemma rtrim_snoc: "rtrim P (s @ [c]) = (if P c then rtrim P s else s @ [c])"
  by (simp add: rtrim_def)

lemma rtrim_append: "rtrim P (u @ v) = (if list_all P v then rtrim P u else u @ rtrim P v)"
  by (auto simp: rtrim_def dropWhile_append list_all_iff dropWhile_eq_Nil_conv)

lemma take_trim_back: "n \<le> length s \<Longrightarrow> take (trim_back P s n) s = rtrim P (take n s)"
  by (induction n) (auto simp: take_Suc_conv_app_nth rtrim_snoc rtrim_def)

lemma drop_find_idx: "drop (find_idx (\<lambda>c. \<not> F c) s) s = dropWhile F s"
  by (induction s) auto

lemma rtrim_all: "list_all P s \<Longrightarrow> rtrim P s = []"
  by (simp add: rtrim_def list_all_iff dropWhile_eq_Nil_conv)

text \<open>Both trimming loops: skip \<open>F\<close> at the front, \<open>P\<close> at the back, where \<open>F\<close> is part of \<open>P\<close>.\<close>

lemma trim_loops:
  assumes "\<And>c. F c \<Longrightarrow> P c"
  shows "drop (find_idx (\<lambda>c. \<not> F c) s) (take (trim_back P s (length s)) s)
           = rtrim P (dropWhile F s)"
proof -
  let ?u = "takeWhile F s" and ?v = "dropWhile F s"
  have len: "find_idx (\<lambda>c. \<not> F c) s = length ?u"
    by (induction s) auto
  have "list_all P ?u"
    using assms by (auto simp: list_all_iff dest: set_takeWhileD)
  have "take (trim_back P s (length s)) s = rtrim P (?u @ ?v)"
    by (simp add: take_trim_back)
  also have "drop (length ?u) \<dots> = rtrim P ?v"
    using \<open>list_all P ?u\<close> by (simp only: rtrim_append) (simp add: rtrim_all)
  finally show ?thesis by (simp add: len)
qed

lemma rtrim_last: "rtrim P s = [] \<or> \<not> P (last (rtrim P s))"
  unfolding rtrim_def by (metis hd_dropWhile last_rev rev_is_Nil_conv)

lemma rtrim_decomp: "\<exists>v. s = rtrim P s @ v \<and> list_all P v"
proof -
  have "s = rev (dropWhile P (rev s)) @ rev (takeWhile P (rev s))"
    by (metis rev_append rev_rev_ident takeWhile_dropWhile_id)
  moreover have "list_all P (rev (takeWhile P (rev s)))"
    by (auto simp: list_all_iff dest: set_takeWhileD)
  ultimately show ?thesis by (auto simp: rtrim_def)
qed

abbreviation is_sp :: "char \<Rightarrow> bool" where "is_sp c \<equiv> c = CHR '' ''"
abbreviation is_sp_crnl :: "char \<Rightarrow> bool" where
  "is_sp_crnl c \<equiv> c = CHR '' '' \<or> c = LF \<or> c = CR"

lemma xstrtrim_eq: "xstrtrim s = rtrim is_sp (dropWhile is_sp s)"
  unfolding xstrtrim_def Let_def by (rule trim_loops)

lemma xstrtrim_crnl_eq: "xstrtrim_crnl s = rtrim is_sp_crnl (dropWhile is_sp s)"
  unfolding xstrtrim_crnl_def Let_def by (rule trim_loops) simp

lemma xstrtrim_crnl_spec_lemma:
  "\<exists>pre post. str = pre @ xstrtrim_crnl str @ post
     \<and> list_all (\<lambda>c. c = CHR '' '') pre
     \<and> list_all (\<lambda>c. c = CHR '' '' \<or> c = LF \<or> c = CR) post
     \<and> (xstrtrim_crnl str = [] \<or>
         hd (xstrtrim_crnl str) \<noteq> CHR '' '' \<and>
         last (xstrtrim_crnl str) \<notin> {CHR '' '', LF, CR})"
proof -
  let ?v = "dropWhile is_sp str" and ?r = "xstrtrim_crnl str"
  obtain w where w: "?v = ?r @ w" "list_all is_sp_crnl w"
    using rtrim_decomp [of ?v is_sp_crnl] by (auto simp: xstrtrim_crnl_eq)
  have "str = takeWhile is_sp str @ ?r @ w"
    using w(1) takeWhile_dropWhile_id [of is_sp str] by metis
  moreover have "list_all is_sp (takeWhile is_sp str)"
    by (auto simp: list_all_iff dest: set_takeWhileD)
  moreover have "?r = [] \<or> hd ?r \<noteq> CHR '' ''"
    using w(1) hd_dropWhile [of is_sp str] by (cases ?r) auto
  moreover have "?r = [] \<or> last ?r \<notin> {CHR '' '', LF, CR}"
    using rtrim_last [of is_sp_crnl ?v] by (auto simp: xstrtrim_crnl_eq)
  ultimately show ?thesis using w(2) by blast
qed

section \<open>Numbers, case folding\<close>

lemma xatoi_digits:
  assumes "list_all is_digit s" and "int (dec_value s) \<le> LONG_MAX"
  shows "xatoi s = to_int32 (int (dec_value s))"
proof (cases "s = []")
  case True
  then show ?thesis by (simp add: xatoi_def strtol_Nil to_int32_id)
next
  case False
  with assms show ?thesis
    by (simp add: xatoi_def strtol_all_digits) (auto simp: LONG_MIN_def)
qed

lemma xatoi_dec [simp]: "n < 2 ^ 31 \<Longrightarrow> xatoi (dec n) = int n"
  by (simp add: xatoi_digits LONG_MAX_def to_int32_id)

lemma xatoi_range: "- (2 ^ 31) \<le> xatoi s \<and> xatoi s < 2 ^ 31"
  using to_int32_bounds by (auto simp: xatoi_def split: option.splits)

lemma xatol_dec: "int n \<le> LONG_MAX \<Longrightarrow> xatol (dec n) = int n"
  by (simp add: xatol_def strtol_all_digits) (auto simp: LONG_MIN_def)

lemma xstrtolower_loop_eq:
  "0 < lim \<Longrightarrow> xstrtolower_loop lim s =
     (map tolower (take (lim - 1) s) @ drop (lim - 1) s, lim - 1 - length s)"
proof (induction lim s rule: xstrtolower_loop.induct)
  case (2 lim c s)
  then show ?case by (cases lim; cases "lim - 1") auto
qed auto

lemma xstrtolower_eq:
  "xstrtolower s = (map tolower (take 4095 s) @ drop 4095 s, if length s < 4095 then 0 else -1)"
  by (simp add: xstrtolower_def xstrtolower_loop_eq)

lemma xstricmp_small:
  "length s1 < 4096 \<Longrightarrow> length s2 < 4096 \<Longrightarrow> xstricmp s1 s2 = strcasecmp s1 s2"
  by (auto simp: xstricmp_def xstrtolower_eq strcasecmp_def strnlen_def Let_def min_def)

lemma xstricmp_eq_0:
  "xstricmp s1 s2 = 0 \<longleftrightarrow>
     length s1 < 4096 \<and> length s2 < 4096 \<and> map tolower s1 = map tolower s2"
proof (cases "length s1 < 4096 \<and> length s2 < 4096")
  case True
  then show ?thesis by (simp add: xstricmp_small)
next
  case False
  then show ?thesis by (auto simp: xstricmp_def strnlen_def Let_def)
qed

section \<open>Splitting into fields\<close>

text \<open>The specification: the fields between the delimiters, and its inverse.\<close>

fun split_on :: "char \<Rightarrow> string \<Rightarrow> string list" where
  "split_on d [] = [[]]"
| "split_on d (c # s) =
     (if c = d then [] # split_on d s
      else case split_on d s of [] \<Rightarrow> [[c]] | f # fs \<Rightarrow> (c # f) # fs)"

fun join_with :: "char \<Rightarrow> string list \<Rightarrow> string" where
  "join_with d [] = []"
| "join_with d [f] = f"
| "join_with d (f # g # fs) = f @ d # join_with d (g # fs)"

lemma split_on_nonempty [simp]: "split_on d s \<noteq> []"
  by (induction s) (auto split: list.splits)

lemma join_split_on [simp]: "join_with d (split_on d s) = s"
proof (induction s)
  case (Cons c s)
  obtain f fs where ffs: "split_on d s = f # fs"
    by (cases "split_on d s") auto
  then show ?case using Cons by (cases fs) auto
qed simp

lemma split_on_no_delim: "f \<in> set (split_on d s) \<Longrightarrow> d \<notin> set f"
  by (induction s arbitrary: f) (auto split: list.splits if_splits)

lemma split_on_no_occ: "d \<notin> set s \<Longrightarrow> split_on d s = [s]"
  by (induction s) auto

lemma split_on_append_delim: "d \<notin> set f \<Longrightarrow> split_on d (f @ d # s) = f # split_on d s"
  by (induction f) auto

lemma split_on_join:
  "fs \<noteq> [] \<Longrightarrow> list_all (\<lambda>f. d \<notin> set f) fs \<Longrightarrow> split_on d (join_with d fs) = fs"
  by (induction d fs rule: join_with.induct) (auto simp: split_on_no_occ split_on_append_delim)

text \<open>The fields the loop of the code counts: a trailing delimiter opens no further field.\<close>

definition loop_fields :: "char \<Rightarrow> string \<Rightarrow> string list" where
  "loop_fields d b = (if b = [] then [] else if last b = d then butlast (split_on d b) else split_on d b)"

lemma loop_fields_Nil [simp]: "loop_fields d [] = []"
  by (simp add: loop_fields_def)

lemma loop_fields_no_delim: "b \<noteq> [] \<Longrightarrow> d \<notin> set b \<Longrightarrow> loop_fields d b = [b]"
  by (auto simp: loop_fields_def split_on_no_occ)

lemma loop_fields_delim: "d \<notin> set f \<Longrightarrow> loop_fields d (f @ d # r) = f # loop_fields d r"
  by (auto simp: loop_fields_def split_on_append_delim)

lemma split_on_snoc_delim: "split_on d (s @ [d]) = split_on d s @ [[]]"
proof (induction s)
  case (Cons c s)
  then show ?case by (cases "split_on d s") auto
qed simp

lemma split_on_loop_fields:
  assumes "b \<noteq> []"
  shows "split_on d b = loop_fields d b @ (if last b = d then [[]] else [])"
proof (cases "last b = d")
  case True
  with assms have "b = butlast b @ [d]" by (metis append_butlast_last_id)
  then have "split_on d b = split_on d (butlast b) @ [[]]"
    by (metis split_on_snoc_delim)
  with True assms show ?thesis by (simp add: loop_fields_def)
qed (use assms in \<open>simp add: loop_fields_def\<close>)

lemma split_copy_short:
  "length (takeWhile (\<lambda>c. c \<noteq> d) b) < n \<Longrightarrow>
   split_copy d b n = (takeWhile (\<lambda>c. c \<noteq> d) b, dropWhile (\<lambda>c. c \<noteq> d) b,
                       n - length (takeWhile (\<lambda>c. c \<noteq> d) b))"
  by (induction d b n rule: split_copy.induct) auto

lemma split_copy_long:
  "n \<le> length (takeWhile (\<lambda>c. c \<noteq> d) b) \<Longrightarrow> snd (snd (split_copy d b n)) = 0"
  by (induction d b n rule: split_copy.induct) (auto split: if_splits prod.splits)

text \<open>The loop accepts exactly the lines whose fields fit, and then returns them all.\<close>

lemma split_loop_eq:
  "split_loop d b flds =
     (if list_all (\<lambda>f. length f < MAX_FIELD_SIZE) (loop_fields d b)
         \<and> (b = [] \<or> length flds + length (loop_fields d b) < MAX_SPLIT_FIELDS)
      then (0, flds @ loop_fields d b) else (-1, snd (split_loop d b flds)))"
proof (induction d b flds rule: split_loop.induct)
  case (1 d b flds)
  define f where "f = takeWhile (\<lambda>c. c \<noteq> d) b"
  define r where "r = dropWhile (\<lambda>c. c \<noteq> d) b"
  have b: "b = f @ r" and nof: "d \<notin> set f"
    by (auto simp: f_def r_def dest: set_takeWhileD)
  have r: "r = [] \<or> (\<exists>r''. r = d # r'')"
    by (cases r) (auto simp: r_def dropWhile_eq_Cons_conv)
  consider "b = []" | "b \<noteq> []" "MAX_FIELD_SIZE \<le> length f" | "b \<noteq> []" "length f < MAX_FIELD_SIZE"
    by linarith
  then show ?case
  proof cases
    case 1
    then show ?thesis by (simp add: split_loop.simps)
  next
    case 2
    then have "snd (snd (split_copy d b MAX_FIELD_SIZE)) = 0"
      by (intro split_copy_long) (simp add: f_def)
    moreover have "f \<in> set (loop_fields d b)"
      using r 2(1) nof by (auto simp: b loop_fields_delim loop_fields_no_delim)
    then have "\<not> list_all (\<lambda>f. length f < MAX_FIELD_SIZE) (loop_fields d b)"
      using 2(2) by (meson leD list_all_iff)
    ultimately show ?thesis
      using 2(1) by (auto simp: split_loop.simps [of d b flds] split: prod.splits)
  next
    case 3
    define r' where "r' = (case r of [] \<Rightarrow> [] | c # r'' \<Rightarrow> if c = d then r'' else r)"
    have sc: "split_copy d b MAX_FIELD_SIZE = (f, r, MAX_FIELD_SIZE - length f)"
      using 3(2) by (simp add: split_copy_short f_def r_def)
    have lf: "loop_fields d b = f # loop_fields d r'"
      using r 3(1) nof by (auto simp: b r'_def loop_fields_delim loop_fields_no_delim)
    have IH: "length flds + 1 < MAX_SPLIT_FIELDS \<Longrightarrow>
      split_loop d r' (flds @ [f]) =
        (if list_all (\<lambda>f. length f < MAX_FIELD_SIZE) (loop_fields d r')
           \<and> (r' = [] \<or> length (flds @ [f]) + length (loop_fields d r') < MAX_SPLIT_FIELDS)
         then (0, (flds @ [f]) @ loop_fields d r') else (-1, snd (split_loop d r' (flds @ [f]))))"
      using "1.IH" [OF 3(1) sc [symmetric] refl refl _ r'_def refl] 3(2) by simp
    have step: "split_loop d b flds =
      (if MAX_SPLIT_FIELDS \<le> length flds + 1 then (-1, flds @ [f]) else split_loop d r' (flds @ [f]))"
      using 3 sc by (simp add: split_loop.simps [of d b flds] r'_def)
    have last0: "r' = [] \<Longrightarrow> loop_fields d r' = []" by simp
    show ?thesis
    proof (cases "MAX_SPLIT_FIELDS \<le> length flds + 1")
      case True
      with 3(1) show ?thesis by (auto simp: step lf)
    next
      case False
      then have fl: "length flds + 1 < MAX_SPLIT_FIELDS" by simp
      show ?thesis
        using False 3 last0 unfolding step lf by (subst IH [OF fl]) auto
    qed
  qed
qed

lemma xstrsplitfields_iff:
  "xstrsplitfields buffer d = (0, flds) \<longleftrightarrow>
     0 < length buffer \<and> length buffer < 1024 \<and> flds = split_on d buffer
     \<and> list_all (\<lambda>f. length f < MAX_FIELD_SIZE) flds
     \<and> length flds \<le> (if last buffer = d then MAX_SPLIT_FIELDS else MAX_SPLIT_FIELDS - 1)"
proof (cases "0 < length buffer \<and> length buffer < 1024")
  case True
  then have "buffer \<noteq> []" by auto
  note so = split_on_loop_fields [OF this, of d]
  let ?ok = "list_all (\<lambda>f. length f < MAX_FIELD_SIZE) (loop_fields d buffer)
         \<and> (buffer = [] \<or> length ([]::string list) + length (loop_fields d buffer) < MAX_SPLIT_FIELDS)"
  have len0: "(0::nat) < MAX_FIELD_SIZE" by (simp add: MAX_FIELD_SIZE_def)
  show ?thesis
  proof (cases ?ok)
    case ok: True
    then have "split_loop d buffer [] = (0, loop_fields d buffer)"
      by (subst split_loop_eq) simp
    with True ok so len0 show ?thesis by (auto simp: xstrsplitfields_def MAX_SPLIT_FIELDS_def)
  next
    case False
    then have "split_loop d buffer [] = (-1, snd (split_loop d buffer []))"
      by (subst split_loop_eq) (simp only: if_False)
    then have "fst (split_loop d buffer []) = -1"
      by (metis fst_conv)
    with True False so \<open>buffer \<noteq> []\<close> show ?thesis
      by (auto simp: xstrsplitfields_def MAX_SPLIT_FIELDS_def split: prod.splits if_splits)
  qed
qed (auto simp: xstrsplitfields_def)

section \<open>UTF-8 indices\<close>

text \<open>
  The byte positions at which a character starts (the end of the string among them), and the
  strings in which every character is a start byte and at most three continuation bytes.
\<close>

definition boundary :: "string \<Rightarrow> nat \<Rightarrow> bool" where
  "boundary s k \<longleftrightarrow> k = length s \<or> (k < length s \<and> isutf (s ! k))"

definition mb_wf :: "string \<Rightarrow> bool" where
  "mb_wf s \<longleftrightarrow> cstr s \<and> boundary s 0 \<and>
     list_all (\<lambda>i. boundary s i \<longrightarrow> list_ex (\<lambda>k. boundary s (i + k)) [1, 2, 3, 4]) [0..<length s]"

lemma and_C0: "n AND 0xC0 = 64 * (n div 64 mod 4)" for n :: nat
proof -
  have "n AND push_bit 6 (mask 2) = push_bit 6 (take_bit 2 (drop_bit 6 n))"
    by (rule bit_eqI) (auto simp: bit_simps)
  then show ?thesis
    by (simp add: push_bit_eq_mult take_bit_eq_mod drop_bit_eq_div mask_eq_exp_minus_1)
qed

lemma isutf_iff: "isutf c \<longleftrightarrow> byte c < 128 \<or> 192 \<le> byte c"
proof -
  have "byte c div 64 < 4" using byte_less_256 [of c] by linarith
  then have m: "byte c div 64 mod 4 = byte c div 64" by simp
  show ?thesis
    using byte_less_256 [of c] unfolding isutf_def and_C0 m by auto
qed

lemma isutf_NUL [simp]: "isutf NUL"
  by (simp add: isutf_iff)

lemma boundary_le: "boundary s k \<Longrightarrow> k \<le> length s"
  by (auto simp: boundary_def)

lemma isutf_at_eq: "k \<le> length s \<Longrightarrow> isutf_at s k = Some (boundary s k)"
  by (auto simp: isutf_at_def c_at_def boundary_def)

lemma mb_wf_next:
  assumes "mb_wf s" and "boundary s i" and "i < length s"
  shows "boundary s (i + 1) \<or> boundary s (i + 2) \<or> boundary s (i + 3) \<or> boundary s (i + 4)"
  using assms by (auto simp: mb_wf_def list_all_iff)

text \<open>A step forward goes to the next boundary, and the step back returns.\<close>

lemma xmb_inc_dec:
  assumes "mb_wf s" and "boundary s i" and "i < length s"
  obtains j where "xmb_inc s i = Some j" and "xmb_dec s j = Some i" and "i < j"
    and "boundary s j" and "\<And>k. i < k \<Longrightarrow> k < j \<Longrightarrow> \<not> boundary s k"
proof -
  let ?b = "boundary s"
  have at: "\<And>k. k \<le> length s \<Longrightarrow> isutf_at s k = Some (?b k)" by (rule isutf_at_eq)
  consider (1) "?b (i + 1)" | (2) "\<not> ?b (i + 1)" "?b (i + 2)"
    | (3) "\<not> ?b (i + 1)" "\<not> ?b (i + 2)" "?b (i + 3)"
    | (4) "\<not> ?b (i + 1)" "\<not> ?b (i + 2)" "\<not> ?b (i + 3)" "?b (i + 4)"
    using mb_wf_next [OF assms] by blast
  then show ?thesis
  proof cases
    case 1
    with assms(2,3) show ?thesis
      by (intro that [of "i + 1"]) (auto simp: xmb_inc_def xmb_dec_def at)
  next
    case 2
    note le = boundary_le [OF 2(2)]
    show ?thesis
    proof (rule that [of "i + 2"])
      fix k assume "i < k" "k < i + 2"
      then have "k = i + 1" by simp
      with 2 show "\<not> ?b k" by simp
    qed (use 2 le assms(2,3) in \<open>auto simp: xmb_inc_def xmb_dec_def at\<close>)
  next
    case 3
    note le = boundary_le [OF 3(3)]
    show ?thesis
    proof (rule that [of "i + 3"])
      fix k assume "i < k" "k < i + 3"
      then have "k = i + 1 \<or> k = i + 2" by linarith
      with 3 show "\<not> ?b k" by auto
    qed (use 3 le assms(2,3) in \<open>auto simp: xmb_inc_def xmb_dec_def at eval_nat_numeral\<close>)
  next
    case 4
    note le = boundary_le [OF 4(4)]
    show ?thesis
    proof (rule that [of "i + 4"])
      fix k assume "i < k" "k < i + 4"
      then have "k = i + 1 \<or> k = i + 2 \<or> k = i + 3" by linarith
      with 4 show "\<not> ?b k" by auto
    qed (use 4 le assms(2,3) in \<open>auto simp: xmb_inc_def xmb_dec_def at eval_nat_numeral\<close>)
  qed
qed

text \<open>Both counting loops stop at the same index: the first boundary from \<open>offset\<close> on.\<close>

lemma xmb_loops:
  assumes "mb_wf s" and "boundary s offs"
  shows "\<exists>n e. xmb_charnum_loop s m offs c = Some (c + n) \<and> xmb_offset_loop s n offs = Some e
     \<and> boundary s e \<and> (m \<le> e \<or> e = length s)
     \<and> (e = offs \<or> (\<exists>p. boundary s p \<and> p < m \<and> p < e \<and> xmb_dec s e = Some p
          \<and> (\<forall>k. p < k \<and> k < e \<longrightarrow> \<not> boundary s k)))"
  using assms
proof (induction s m offs c rule: xmb_charnum_loop.induct)
  case (1 s m offs c)
  note unf = xmb_charnum_loop.simps [of s m offs c]
  show ?case
  proof (cases "m \<le> offs \<or> offs = length s")
    case True
    with "1.prems" show ?thesis
      by (intro exI [of _ 0] exI [of _ offs]) (auto simp: unf c_at_def)
  next
    case False
    then have offs: "offs < length s" "offs < m"
      using boundary_le [OF "1.prems"(2)] by auto
    have at: "c_at s offs = Some (s ! offs)" "s ! offs \<noteq> NUL"
      using offs "1.prems"(1) by (auto simp: c_at_def mb_wf_def cstr_def dest: nth_mem)
    obtain j where j: "xmb_inc s offs = Some j" "xmb_dec s j = Some offs" "offs < j" "boundary s j"
      "\<And>k. offs < k \<Longrightarrow> k < j \<Longrightarrow> \<not> boundary s k"
      using xmb_inc_dec [OF "1.prems" offs(1)] by metis
    obtain n e where ne: "xmb_charnum_loop s m j (Suc c) = Some (Suc c + n)"
      "xmb_offset_loop s n j = Some e" "boundary s e" "m \<le> e \<or> e = length s"
      "e = j \<or> (\<exists>p. boundary s p \<and> p < m \<and> p < e \<and> xmb_dec s e = Some p
          \<and> (\<forall>k. p < k \<and> k < e \<longrightarrow> \<not> boundary s k))"
      using "1.IH" [OF _ at j(1) "1.prems"(1) j(4)] offs(2) by auto
    have "xmb_charnum_loop s m offs c = Some (c + Suc n)"
      using offs at j(1) ne(1) by (simp add: unf)
    moreover have "xmb_offset_loop s (Suc n) offs = Some e"
      using at j(1) ne(2) by simp
    moreover have "\<exists>p. boundary s p \<and> p < m \<and> p < e \<and> xmb_dec s e = Some p
          \<and> (\<forall>k. p < k \<and> k < e \<longrightarrow> \<not> boundary s k)"
      using ne(5) j(2-5) offs(2) "1.prems"(2) by blast
    ultimately show ?thesis using ne(3,4) by blast
  qed
qed

lemma xmb_strncpy_cut:
  assumes "mb_wf s" and "0 < maxbuff"
  shows "\<exists>k. xmb_strncpy s maxbuff = Some (take k s) \<and> k < maxbuff \<and> boundary s k
           \<and> (\<forall>j. boundary s j \<and> j < maxbuff \<longrightarrow> j \<le> k)"
proof -
  have "boundary s 0" using assms(1) by (simp add: mb_wf_def)
  from xmb_loops [OF assms(1) this, of maxbuff 0]
  obtain n e where ne: "xmb_charnum s maxbuff = Some n" "xmb_offset s (int n) = Some e"
      "boundary s e" "maxbuff \<le> e \<or> e = length s"
      "e = 0 \<or> (\<exists>p. boundary s p \<and> p < maxbuff \<and> p < e \<and> xmb_dec s e = Some p
          \<and> (\<forall>k. p < k \<and> k < e \<longrightarrow> \<not> boundary s k))"
    by (auto simp: xmb_charnum_def xmb_offset_def)
  show ?thesis
  proof (cases "maxbuff \<le> e")
    case True
    with ne(5) assms(2) obtain p where p: "boundary s p" "p < maxbuff" "xmb_dec s e = Some p"
      "\<forall>k. p < k \<and> k < e \<longrightarrow> \<not> boundary s k"
      by auto
    have "xmb_strncpy s maxbuff = Some (take p s)"
      using ne(1,2) True p(3) by (simp add: xmb_strncpy_def)
    moreover have "\<forall>j. boundary s j \<and> j < maxbuff \<longrightarrow> j \<le> p"
      using p(4) True by (meson linorder_not_less order_less_le_trans)
    ultimately show ?thesis using p(1,2) by blast
  next
    case False
    with ne(4) have e: "e = length s" by simp
    from ne(1,2) False have "xmb_strncpy s maxbuff = Some (take e s)"
      by (simp add: xmb_strncpy_def)
    moreover have "e < maxbuff" using False by simp
    ultimately show ?thesis using ne(3) e boundary_le by blast
  qed
qed

lemma xstrsplitfields_join:
  assumes "fs \<noteq> []" and "list_all (\<lambda>f. d \<notin> set f \<and> length f < MAX_FIELD_SIZE) fs"
    and "0 < length (join_with d fs)" and "length (join_with d fs) < 1024"
    and "length fs < MAX_SPLIT_FIELDS"
  shows "xstrsplitfields (join_with d fs) d = (0, fs)"
  using assms split_on_join [of fs d]
  by (auto simp: xstrsplitfields_iff list_all_iff)

lemma xstrsplitfields_ret_error: "fst (xstrsplitfields b d) \<noteq> 0 \<Longrightarrow> fst (xstrsplitfields b d) = -1"
proof -
  assume ne: "fst (xstrsplitfields b d) \<noteq> 0"
  have "fst (split_loop d b []) \<in> {0, -1}"
    by (subst split_loop_eq) auto
  with ne show ?thesis
    by (auto simp: xstrsplitfields_def split: prod.splits if_splits)
qed

lemma fold_fill_len [simp]: "length (fold (\<lambda>i b. b[i := c]) is b) = length b"
  by (induction "is" arbitrary: b) auto

lemma fold_fill:
  "k \<le> length b \<Longrightarrow> fold (\<lambda>i b. b[i := c]) [0..<k] b = replicate k c @ drop k b"
proof (induction k)
  case (Suc k)
  then have IH: "fold (\<lambda>i b. b[i := c]) [0..<k] b = replicate k c @ drop k b" by simp
  have "drop k b = b ! k # drop (Suc k) b" using Suc.prems by (simp add: Cons_nth_drop_Suc)
  then show ?case
    by (simp add: IH list_update_append replicate_append_same [symmetric])
qed simp

lemma fold_shift_up:
  assumes "n \<le> k" and "k + n \<le> length b"
  shows "fold (\<lambda>i b. b[k + i := b ! i]) [0..<n] b = take k b @ take n b @ drop (k + n) b"
  using assms
proof (induction n)
  case (Suc n)
  then have IH: "fold (\<lambda>i b. b[k + i := b ! i]) [0..<n] b = take k b @ take n b @ drop (k + n) b"
    by simp
  have "drop (k + n) b = b ! (k + n) # drop (Suc (k + n)) b"
    using Suc.prems by (simp add: Cons_nth_drop_Suc)
  then show ?case
    using Suc.prems by (simp add: IH list_update_append nth_append take_Suc_conv_app_nth min_def)
qed simp

lemma xmb_lpad_no_overlap:
  assumes "cstr s" and "mbs s = Some (length s)" and "2 * length s \<le> pad"
    and "length s + pad < maxlen" and "length b = maxlen" and "c_string b = s"
    and "padc \<noteq> NUL"
  shows "c_string (snd (xmb_lpad mbs b pad maxlen padc)) = replicate (pad - length s) padc @ s"
proof -
  let ?n = "length s" and ?k = "pad - length s" and ?b1 = "b[pad := NUL]"
  have tb: "take ?n b = s"
    using assms(6) unfolding c_string_def by (metis takeWhile_eq_take)
  have b1: "take ?n ?b1 = s" "?b1 ! pad = NUL"
    using assms(3-5) tb by (auto simp: take_update_cancel)
  have sh: "fold (\<lambda>i b. b[?k + i := b ! i]) [0..<?n] ?b1 = take ?k ?b1 @ s @ drop pad ?b1"
    using assms(3-5) by (subst fold_shift_up) (auto simp: b1)
  have fill: "fold (\<lambda>i b. b[i := padc]) [0..<?k] (take ?k ?b1 @ s @ drop pad ?b1)
      = replicate ?k padc @ s @ drop pad ?b1"
    using assms(3-5) by (subst fold_fill) auto
  have dp: "drop pad ?b1 = NUL # drop (Suc pad) ?b1"
    using assms(4,5) b1(2) by (simp add: Cons_nth_drop_Suc [symmetric])
  have "xmb_lpad mbs b pad maxlen padc = (0, fold (\<lambda>i b. b[i := padc]) [0..<?k]
      (fold (\<lambda>i b. b[?k + i := b ! i]) [0..<?n] ?b1))"
    using assms(2-6) by (simp add: xmb_lpad_def Let_def)
  also have "\<dots> = (0, replicate ?k padc @ s @ NUL # drop (Suc pad) ?b1)"
    by (simp only: sh fill) (simp only: dp)
  finally show ?thesis
    using assms(1,7) by (auto simp: c_string_def takeWhile_append cstr_def)
qed

lemma xmb_strncat_bound:
  assumes "mb_wf src" and "length dest + 1 < maxlen"
  shows "\<exists>k. xmb_strncat dest src maxlen = Some (dest @ take k src, take k src)
     \<and> length dest + k < maxlen - 1"
proof -
  have "0 < maxlen - length dest - 1" using assms(2) by simp
  from xmb_strncpy_cut [OF assms(1) this] obtain k
    where "xmb_strncpy src (maxlen - length dest - 1) = Some (take k src)"
      "k < maxlen - length dest - 1"
    by auto
  then show ?thesis using assms(2) by (auto simp: xmb_strncat_def Let_def)
qed

lemma read_range_in:
  "s + n \<le> length from \<Longrightarrow> read_range from s n = Some (take n (drop s from))"
proof (induction n arbitrary: s)
  case (Suc n)
  then have "drop s from = from ! s # drop (Suc s) from" by (simp add: Cons_nth_drop_Suc)
  with Suc show ?case by (simp add: c_at_def)
qed simp

lemma xsubstr_in:
  assumes "s \<le> e" and "e < length from" and "e - s + 1 < maxlen" and "length from < SIZE_MOD"
    and "cstr from"
  shows "xsubstr maxlen from s e = Some (0, take (e - s + 1) (drop s from))"
proof -
  have "e \<noteq> SIZE_MOD - 1" and "(e - s + 1) mod SIZE_MOD = e - s + 1"
    using assms(1,2,4) by auto
  moreover have "read_range from s (e - s + 1) = Some (take (e - s + 1) (drop s from))"
    using assms(1,2) by (intro read_range_in) simp
  ultimately show ?thesis
    using assms by (simp add: xsubstr_def Let_def del: read_range.simps)
qed

lemma xstrfilify_safe:
  "\<not> not_filename_safe r \<Longrightarrow> list_all (\<lambda>c. \<not> not_filename_safe c) (xstrfilify s r)"
  by (auto simp: xstrfilify_def list_all_iff)

lemma xstrfilify_idem:
  "\<not> not_filename_safe r \<Longrightarrow> xstrfilify (xstrfilify s r) r = xstrfilify s r"
  by (auto simp: xstrfilify_def)

section \<open>ASCII text\<close>

definition ascii :: "string \<Rightarrow> bool" where
  "ascii s \<longleftrightarrow> list_all (\<lambda>c. c \<noteq> NUL \<and> byte c < 128) s"

lemma mb_wf_ascii: "ascii s \<Longrightarrow> mb_wf s"
proof -
  assume a: "ascii s"
  then have b: "boundary s k" if "k \<le> length s" for k
    using that by (cases "k = length s") (auto simp: boundary_def isutf_iff ascii_def list_all_length)
  have "list_ex (\<lambda>k. boundary s (i + k)) [1, 2, 3, 4]" if "i < length s" for i
    using b [of "i + 1"] that by simp
  with a b [of 0] show ?thesis
    unfolding mb_wf_def by (auto simp: ascii_def cstr_def list_all_iff)
qed

text \<open>On ASCII text \<open>xmb_strncpy\<close> is the plain bounded copy.\<close>

lemma xmb_strncpy_ascii:
  assumes "ascii s" and "0 < maxbuff"
  shows "xmb_strncpy s maxbuff = Some (take (maxbuff - 1) s)"
proof -
  have b: "boundary s k" if "k \<le> length s" for k
    using that assms(1) by (cases "k = length s") (auto simp: boundary_def isutf_iff ascii_def list_all_length)
  obtain k where k: "xmb_strncpy s maxbuff = Some (take k s)" "k < maxbuff" "boundary s k"
    "\<And>j. boundary s j \<Longrightarrow> j < maxbuff \<Longrightarrow> j \<le> k"
    using xmb_strncpy_cut [OF mb_wf_ascii [OF assms(1)] assms(2)] by blast
  define j where "j = min (length s) (maxbuff - 1)"
  have j: "j \<le> length s" "j < maxbuff" using assms(2) by (auto simp: j_def)
  have "k \<le> j" using k(2) boundary_le [OF k(3)] by (simp add: j_def)
  with k(4) [OF b [OF j(1)] j(2)] have "k = j" by simp
  then show ?thesis using k(1) by (simp add: j_def min_def)
qed

lemma ascii_digits: "list_all is_digit s \<Longrightarrow> ascii s"
  by (auto simp: ascii_def list_all_iff is_digit_def)

section \<open>Properties\<close>

text \<open>
  C35: \<open>xstrsplitfields\<close> returns 0 exactly on the non-empty lines of less than 1024 bytes whose
  fields between the delimiters all fit in a field buffer and are not more than the field table
  holds, and the fields it stores are then the fields of the line, in order (an empty last field after
  a trailing delimiter included).
\<close>

theorem xstrsplitfields_fields:
  "xstrsplitfields buffer d = (0, flds) \<longleftrightarrow>
     0 < length buffer \<and> length buffer < 1024 \<and> flds = split_on d buffer
     \<and> list_all (\<lambda>f. length f < MAX_FIELD_SIZE) flds
     \<and> length flds \<le> (if last buffer = d then MAX_SPLIT_FIELDS else MAX_SPLIT_FIELDS - 1)"
  by (rule xstrsplitfields_iff)

text \<open>
  C35: \<open>xmb_strncpy\<close> never cuts a multi-byte character: on a string of characters of at most
  four bytes it always returns, and what it copies is the longest prefix that ends at a character
  boundary and leaves room for the terminator.
\<close>

theorem xmb_strncpy_whole_chars:
  assumes "mb_wf s" and "0 < maxbuff"
  shows "\<exists>k. xmb_strncpy s maxbuff = Some (take k s) \<and> k < maxbuff \<and> boundary s k
           \<and> (\<forall>j. boundary s j \<and> j < maxbuff \<longrightarrow> j \<le> k)"
  by (rule xmb_strncpy_cut [OF assms])

text \<open>The witness cuts inside the two-byte character of \<^verbatim>\<open>aX\<close>, with \<^verbatim>\<open>X\<close> the bytes C3 A5.\<close>

theorem xmb_strncpy_whole_chars_witness:
  "mb_wf [CHR ''a'', CHR 0xC3, CHR 0xA5, CHR ''b''] \<and>
   (\<exists>k. xmb_strncpy [CHR ''a'', CHR 0xC3, CHR 0xA5, CHR ''b''] 3
          = Some (take k [CHR ''a'', CHR 0xC3, CHR 0xA5, CHR ''b'']) \<and> k < 3)"
proof -
  have "mb_wf [CHR ''a'', CHR 0xC3, CHR 0xA5, CHR ''b'']"
    by (simp add: mb_wf_def cstr_def boundary_def isutf_iff upt_rec [of _ "Suc n" for n] eval_nat_numeral)
  then show ?thesis
    using xmb_strncpy_whole_chars [of "[CHR ''a'', CHR 0xC3, CHR 0xA5, CHR ''b'']" 3] by auto
qed

text \<open>
  \<open>xstrtrim_crnl\<close> keeps the string except for leading spaces and trailing spaces, line feeds
  and carriage returns, and none of those is left at either end.
\<close>

theorem xstrtrim_crnl_spec:
  "\<exists>pre post. str = pre @ xstrtrim_crnl str @ post
     \<and> list_all (\<lambda>c. c = CHR '' '') pre
     \<and> list_all (\<lambda>c. c = CHR '' '' \<or> c = LF \<or> c = CR) post
     \<and> (xstrtrim_crnl str = [] \<or>
         hd (xstrtrim_crnl str) \<noteq> CHR '' '' \<and>
         last (xstrtrim_crnl str) \<notin> {CHR '' '', LF, CR})"
  by (rule xstrtrim_crnl_spec_lemma)

text \<open>
  On the decimal text of any number that fits in a \<^verbatim>\<open>long\<close>, \<open>xatoi\<close> returns the number reduced
  to 32 bits, so a number outside the range of \<^verbatim>\<open>int\<close> wraps around silently instead of giving the
  documented 0.
\<close>

theorem xatoi_dec_wraps:
  assumes "int n \<le> LONG_MAX"
  shows "xatoi (dec n) = to_int32 (int n)"
  using assms by (simp add: xatoi_digits)

theorem xatoi_dec_wraps_witness: "xatoi (dec (2 ^ 32 + 1)) = 1"
  using xatoi_dec_wraps [of "2 ^ 32 + 1"] by (simp add: LONG_MAX_def to_int32_def)

text \<open>
  \<open>xmb_lpad\<close> moves the string up inside its own buffer from low to high indices, so it
  overwrites what it has not yet moved when the padding is shorter than the string: padding
  \<^verbatim>\<open>abc\<close> to four characters gives \<^verbatim>\<open>aaa\<close> after one blank, not \<^verbatim>\<open>abc\<close>.
\<close>

theorem xmb_lpad_overlap:
  "xmb_lpad (\<lambda>s. Some (length s)) (''abc'' @ replicate 10 NUL) 4 13 (CHR '' '')
     = (0, '' aaa'' @ replicate 9 NUL)"
  by (simp add: xmb_lpad_def c_string_def eval_nat_numeral)

end
