(* ===== verification/Name_Store.thy ===== *)
theory Name_Store
  imports G7_Prelude
begin

text \<open>
  The interface of the two name/value stores of the daemon, the associative array of
  \<^verbatim>\<open>libxstr/assocarray.c\<close> and the template dictionary of \<^verbatim>\<open>dict.c\<close>: a lookup by name and an
  insertion that refuses a name already present. What the clients rely on, that a series of
  insertions keeps the first value given for a name, is proved once from the laws.
\<close>

locale name_store =
  fixes lookup :: "'s \<Rightarrow> string \<Rightarrow> string option"
    and insert_new :: "'s \<Rightarrow> string \<Rightarrow> string \<Rightarrow> 's"
    and invar :: "'s \<Rightarrow> bool"
    and good :: "string \<Rightarrow> bool"
  assumes lookup_insert:
      "invar s \<Longrightarrow> good k \<Longrightarrow> lookup s k = None \<Longrightarrow> lookup (insert_new s k v) = (lookup s)(k \<mapsto> v)"
    and insert_present: "invar s \<Longrightarrow> lookup s k \<noteq> None \<Longrightarrow> insert_new s k v = s"
    and invar_insert: "invar s \<Longrightarrow> invar (insert_new s k v)"
begin

definition insert_all :: "'s \<Rightarrow> (string \<times> string) list \<Rightarrow> 's" where
  "insert_all s kvs = fold (\<lambda>(k, v) s. insert_new s k v) kvs s"

lemma invar_insert_all: "invar s \<Longrightarrow> invar (insert_all s kvs)"
  unfolding insert_all_def by (induction kvs arbitrary: s) (auto simp: invar_insert)

lemma lookup_insert_first:
  assumes "invar s" and "good k"
  shows "lookup (insert_new s k v) = [k \<mapsto> v] ++ lookup s"
proof (cases "lookup s k")
  case None
  with assms show ?thesis by (auto simp: lookup_insert map_add_def fun_eq_iff split: option.splits)
next
  case (Some w)
  with assms have "insert_new s k v = s" by (simp add: insert_present)
  with Some show ?thesis by (auto simp: map_add_def fun_eq_iff split: option.splits)
qed

text \<open>Of several values for one name the first one stays.\<close>

lemma lookup_insert_all:
  "invar s \<Longrightarrow> list_all (\<lambda>p. good (fst p)) kvs \<Longrightarrow>
   lookup (insert_all s kvs) = map_of kvs ++ lookup s"
proof (induction kvs arbitrary: s)
  case (Cons p kvs)
  obtain k v where p: "p = (k, v)" by (cases p)
  have "lookup (insert_all s (p # kvs)) = lookup (insert_all (insert_new s k v) kvs)"
    by (simp add: insert_all_def p)
  also have "\<dots> = map_of kvs ++ lookup (insert_new s k v)"
    using Cons.prems by (intro Cons.IH) (auto simp: invar_insert)
  also have "\<dots> = map_of kvs ++ ([k \<mapsto> v] ++ lookup s)"
    using Cons.prems p by (simp add: lookup_insert_first)
  also have "\<dots> = map_of (p # kvs) ++ lookup s"
    by (auto simp: p map_add_def fun_eq_iff split: option.splits)
  finally show ?case .
qed (simp add: insert_all_def)

lemma insert_all_present: "invar s \<Longrightarrow> lookup s k = Some v \<Longrightarrow> list_all (\<lambda>p. good (fst p)) kvs \<Longrightarrow>
   lookup (insert_all s kvs) k = Some v"
  by (simp add: lookup_insert_all map_add_def)

end

text \<open>A store from which a name can be removed as well.\<close>

locale name_store_del = name_store +
  fixes delete :: "'a \<Rightarrow> string \<Rightarrow> 'a"
  assumes lookup_delete: "invar s \<Longrightarrow> lookup (delete s k) = (lookup s)(k := None)"
    and invar_delete: "invar s \<Longrightarrow> invar (delete s k)"
begin

lemma delete_insert:
  "invar s \<Longrightarrow> good k \<Longrightarrow> lookup (insert_new (delete s k) k v) = (lookup s)(k \<mapsto> v)"
  by (simp add: lookup_insert lookup_delete invar_delete)

lemma delete_other: "invar s \<Longrightarrow> j \<noteq> k \<Longrightarrow> lookup (delete s k) j = lookup s j"
  by (simp add: lookup_delete)

end

end
