(* ===== verification/Assocarray.thy ===== *)
theory Assocarray
  imports Xstr Name_Store
begin

text \<open>
  The associative array of \<^verbatim>\<open>src/src/libxstr/assocarray.c\<close>: names and values in insertion
  order in an array that doubles when it is full, and its export to and import from JSON.
  \<open>aa_pairs\<close> are the \<open>num_values\<close> entries in use, so \<open>num_values\<close> is their number;
  \<open>aa_max\<close> is \<open>max_values\<close>. Every operation that changes the array returns it with the
  return code of the function.
\<close>

section \<open>State and elementary operations\<close>

record assoc_array =
  aa_pairs :: "(string \<times> string) list"
  aa_max :: nat

abbreviation num_values :: "assoc_array \<Rightarrow> nat" where
  "num_values a \<equiv> length (aa_pairs a)"

definition assoc_new :: "nat \<Rightarrow> assoc_array option" where
  "assoc_new initial_size =
     (if initial_size < 4 then None else Some \<lparr>aa_pairs = [], aa_max = initial_size\<rparr>)"

definition assoc_get :: "assoc_array \<Rightarrow> string \<Rightarrow> string option" where
  "assoc_get a name =
     (if name = [] \<or> num_values a = 0 then None
      else let i = find_idx (\<lambda>p. strcmp name (fst p) = 0) (aa_pairs a) in
        if num_values a \<le> i then None else Some (snd (aa_pairs a ! i)))"

definition assoc_get2 :: "assoc_array \<Rightarrow> string \<Rightarrow> string \<Rightarrow> string" where
  "assoc_get2 a name notfound = (case assoc_get a name of None \<Rightarrow> notfound | Some v \<Rightarrow> v)"

definition assoc_clear :: "assoc_array \<Rightarrow> assoc_array" where
  "assoc_clear a = a\<lparr>aa_pairs := []\<rparr>"

definition assoc_len :: "assoc_array \<Rightarrow> nat" where
  "assoc_len a = num_values a"

section \<open>Insertion\<close>

text \<open>
  \<open>assoc_put\<close> grows a full array by copying it with \<open>assoc_copy\<close> into a new one of twice
  the size, and \<open>assoc_copy\<close> calls \<open>assoc_put\<close> for every pair. The recursion is cut at a
  depth \<open>d\<close>; \<open>None\<close> is an exhausted depth. Depth 1 is always enough
  (\<open>assoc_put_wf\<close> below): the array copied into has room for every pair.
\<close>

type_synonym put_fun = "assoc_array \<Rightarrow> string \<Rightarrow> string \<Rightarrow> (assoc_array \<times> int) option"

fun assoc_add_with :: "put_fun \<Rightarrow> assoc_array \<Rightarrow> (string \<times> string) list \<Rightarrow> (assoc_array \<times> int) option" where
  "assoc_add_with put dest [] = Some (dest, 0)"
| "assoc_add_with put dest ((n, v) # ps) =
     (case put dest n v of
        None \<Rightarrow> None
      | Some (dest', rc) \<Rightarrow> if rc = -1 then Some (dest', -1) else assoc_add_with put dest' ps)"

definition assoc_copy_with :: "put_fun \<Rightarrow> assoc_array \<Rightarrow> assoc_array \<Rightarrow> (assoc_array \<times> int) option" where
  "assoc_copy_with put dest src = assoc_add_with put (assoc_clear dest) (aa_pairs src)"

text \<open>The growth step: \<open>Some None\<close> is the failure of \<open>assoc_new\<close>.\<close>

definition assoc_grow :: "put_fun \<Rightarrow> assoc_array \<Rightarrow> assoc_array option option" where
  "assoc_grow put a =
     (if num_values a < aa_max a then Some (Some a)
      else case assoc_new (aa_max a * 2) of
        None \<Rightarrow> Some None
      | Some tmp \<Rightarrow>
          (case assoc_copy_with put tmp a of
             None \<Rightarrow> None
           | Some (tmp', _) \<Rightarrow> Some (Some (a\<lparr>aa_pairs := aa_pairs tmp', aa_max := aa_max tmp'\<rparr>))))"

definition assoc_put_body :: "put_fun \<Rightarrow> put_fun" where
  "assoc_put_body put a name val =
     (if name = [] then Some (a, -1)
      else if assoc_get a name \<noteq> None then Some (a, -2)
      else case assoc_grow put a of
        None \<Rightarrow> None
      | Some None \<Rightarrow> Some (a, -1)
      | Some (Some a') \<Rightarrow> Some (a'\<lparr>aa_pairs := aa_pairs a' @ [(name, val)]\<rparr>, 0))"

primrec assoc_put_d :: "nat \<Rightarrow> put_fun" where
  "assoc_put_d 0 = assoc_put_body (\<lambda>_ _ _. None)"
| "assoc_put_d (Suc d) = assoc_put_body (assoc_put_d d)"

definition assoc_put :: put_fun where
  "assoc_put = assoc_put_d 1"

definition assoc_add :: "assoc_array \<Rightarrow> assoc_array \<Rightarrow> (assoc_array \<times> int) option" where
  "assoc_add dest src = assoc_add_with assoc_put dest (aa_pairs src)"

definition assoc_copy :: "assoc_array \<Rightarrow> assoc_array \<Rightarrow> (assoc_array \<times> int) option" where
  "assoc_copy dest src = assoc_copy_with assoc_put dest src"

fun intersect_loop :: "assoc_array \<Rightarrow> assoc_array \<Rightarrow> (string \<times> string) list \<Rightarrow> (assoc_array \<times> int) option" where
  "intersect_loop dest tmp2 [] = Some (dest, 0)"
| "intersect_loop dest tmp2 ((n, v) # ps) =
     (if assoc_get tmp2 n \<noteq> None then
        (case assoc_put dest n v of
           None \<Rightarrow> None
         | Some (dest', rc) \<Rightarrow> if rc = -1 then Some (dest', -1) else intersect_loop dest' tmp2 ps)
      else intersect_loop dest tmp2 ps)"

definition assoc_intersection ::
  "assoc_array \<Rightarrow> assoc_array \<Rightarrow> assoc_array \<Rightarrow> (assoc_array \<times> int) option" where
  "assoc_intersection dest a1 a2 =
     (let tmp1 = (if num_values a1 < num_values a2 then a1 else a2);
          tmp2 = (if num_values a1 < num_values a2 then a2 else a1)
      in intersect_loop (assoc_clear dest) tmp2 (aa_pairs tmp1))"

section \<open>Update, deletion, sorting\<close>

definition assoc_update :: "assoc_array \<Rightarrow> string \<Rightarrow> string \<Rightarrow> assoc_array \<times> int" where
  "assoc_update a name val =
     (let i = find_idx (\<lambda>p. strcmp (fst p) name = 0) (aa_pairs a) in
      if num_values a \<le> i then (a, -1)
      else (a\<lparr>aa_pairs := (aa_pairs a)[i := (fst (aa_pairs a ! i), val)]\<rparr>, 0))"

text \<open>The loop that copies the later entries down by one place, then drops the last one.\<close>

definition copy_down :: "nat \<Rightarrow> 'a list \<Rightarrow> 'a list" where
  "copy_down i xs = butlast (fold (\<lambda>j ys. ys[j := ys ! Suc j]) [i..<length xs - 1] xs)"

definition assoc_del :: "assoc_array \<Rightarrow> string \<Rightarrow> assoc_array \<times> int" where
  "assoc_del a name =
     (if name = [] then (a, -1)
      else if num_values a = 0 then (a, -2)
      else let i = find_idx (\<lambda>p. strcmp (fst p) name = 0) (aa_pairs a) in
        if num_values a \<le> i then (a, -2)
        else (a\<lparr>aa_pairs := copy_down i (aa_pairs a)\<rparr>, 0))"

text \<open>
  \<open>qsort\<close> with \<open>qsort_compare\<close>: the names are distinct, so the sorted order by name is
  unique.
\<close>

definition assoc_sort :: "assoc_array \<Rightarrow> assoc_array \<times> int" where
  "assoc_sort a =
     (if num_values a = 0 then (a, -1) else (a\<lparr>aa_pairs := sort_key fst (aa_pairs a)\<rparr>, 0))"

section \<open>Export to JSON\<close>

definition EXPORT_ID_NAME :: string where "EXPORT_ID_NAME = ''_id''"
definition EXPORT_ID_NAME_VAL :: string where "EXPORT_ID_NAME_VAL = ''assoc_array''"
definition EXPORT_PAIRS_KEY :: string where "EXPORT_PAIRS_KEY = ''pairs''"

definition json_header :: "assoc_array \<Rightarrow> string" where
  "json_header a =
     ''{'' @ [LF] @ ''  '' @ quoted_text EXPORT_ID_NAME @ '':'' @ quoted_text EXPORT_ID_NAME_VAL @ '','' @
     quoted_text ''num_values'' @ '':'' @ dec (num_values a) @ '','' @
     quoted_text ''max_values'' @ '':'' @ dec (aa_max a) @ '','' @ [LF] @
     ''   '' @ quoted_text EXPORT_PAIRS_KEY @ '':['' @ [LF]"

definition json_pair :: "string \<times> string \<Rightarrow> string" where
  "json_pair p = ''    { '' @ quoted_text (fst p) @ '' : '' @ quoted_text (snd p) @ '' }''"

definition json_line :: "string \<times> string \<Rightarrow> string" where
  "json_line p = json_pair p @ '','' @ [LF]"

definition json_last_line :: "string \<times> string \<Rightarrow> string" where
  "json_last_line p = json_pair p @ [LF]"

definition json_tail :: string where
  "json_tail = ''  ]'' @ [LF] @ ''}'' @ [LF]"

text \<open>The text written piece by piece into the buffer of \<open>maxlen\<close> bytes.\<close>

definition cat_all :: "nat \<Rightarrow> string list \<Rightarrow> string \<Rightarrow> string" where
  "cat_all maxlen ts buff = fold (\<lambda>t b. fst (xvstrncat b maxlen t)) ts buff"

definition assoc_export_to_json :: "assoc_array \<Rightarrow> nat \<Rightarrow> string" where
  "assoc_export_to_json a maxlen =
     (let buff = take (maxlen - 1) (json_header a);
          lines = (if 0 < num_values a
                   then map json_line (butlast (aa_pairs a)) @ [json_last_line (last (aa_pairs a))]
                   else [])
      in cat_all maxlen (lines @ [json_tail]) buff)"

section \<open>Import from JSON\<close>

text \<open>
  The parse position \<open>*cptr\<close> is the rest of the input. Every parser returns the rest it has
  reached, also when it fails, since \<open>assoc_import_from_json\<close> goes on after a failed
  \<open>_parse_vector\<close>.
\<close>

definition is_json_space :: "char \<Rightarrow> bool" where
  "is_json_space c \<longleftrightarrow> c = CHR '' '' \<or> c = TAB \<or> c = LF"

definition parse_ss :: "string \<Rightarrow> string" where
  "parse_ss s = dropWhile is_json_space s"

text \<open>Success, the bytes written to \<open>val\<close>, the rest.\<close>

function parse_str_loop :: "string \<Rightarrow> nat \<Rightarrow> string \<Rightarrow> bool \<times> string \<times> string" where
  "parse_str_loop [] maxlen val = (True, val, [])"
| "parse_str_loop (c # s) maxlen val =
     (if maxlen \<le> 1 then (maxlen \<noteq> 0, val, c # s)
      else if c = BSLASH \<and> s \<noteq> [] \<and> hd s = DQ then
        (if maxlen < 3 then (False, val, c # s)
         else parse_str_loop (tl s) (maxlen - 2) (val @ [c, hd s]))
      else if c = DQ then (True, val, s)
      else parse_str_loop s (maxlen - 1) (val @ [c]))"
  by pat_completeness auto
termination
  by (relation "measure (\<lambda>(s, maxlen, val). length s)") auto

definition parse_str :: "string \<Rightarrow> nat \<Rightarrow> bool \<times> string \<times> string" where
  "parse_str s maxlen =
     (let t = parse_ss s in
      case t of [] \<Rightarrow> (False, [], t)
      | c # u \<Rightarrow> if c \<noteq> DQ then (False, [], t) else parse_str_loop u maxlen [])"

fun parse_number_loop :: "string \<Rightarrow> nat \<Rightarrow> string \<Rightarrow> string \<times> string" where
  "parse_number_loop [] maxlen val = (val, [])"
| "parse_number_loop (c # s) maxlen val =
     (if 1 < maxlen \<and> (is_digit c \<or> c = CHR ''.'')
      then parse_number_loop s (maxlen - 1) (val @ [c]) else (val, c # s))"

definition parse_number :: "string \<Rightarrow> nat \<Rightarrow> bool \<times> string \<times> string" where
  "parse_number s maxlen =
     (let t = parse_ss s in
      case t of [] \<Rightarrow> (False, [], t)
      | c # u \<Rightarrow> if \<not> is_digit c then (False, [], t)
                 else (case parse_number_loop t maxlen [] of (v, r) \<Rightarrow> (True, v, r)))"

definition parse_chk :: "string \<Rightarrow> char \<Rightarrow> bool \<times> string" where
  "parse_chk s c =
     (let t = parse_ss s in
      case t of [] \<Rightarrow> (False, t) | d # u \<Rightarrow> if d = c then (True, u) else (False, t))"

definition parse_peek :: "string \<Rightarrow> char \<times> string" where
  "parse_peek s = (let t = parse_ss s in (case t of [] \<Rightarrow> NUL | d # _ \<Rightarrow> d, t))"

text \<open>Success, name, value, rest.\<close>

type_synonym pair_result = "bool \<times> string \<times> string \<times> string"

definition parse_pair_with ::
  "(string \<Rightarrow> nat \<Rightarrow> bool \<times> string \<times> string) \<Rightarrow> string \<Rightarrow> nat \<Rightarrow> pair_result" where
  "parse_pair_with pv s maxlen =
     (case parse_str s maxlen of (ok, name, r) \<Rightarrow>
        if \<not> ok then (False, name, [], r)
        else case parse_chk r (CHR '':'') of (ok, r) \<Rightarrow>
          if \<not> ok then (False, name, [], r)
          else case pv r maxlen of (ok, val, r) \<Rightarrow> (ok, name, val, r))"

definition parse_pair_number :: "string \<Rightarrow> nat \<Rightarrow> pair_result" where
  "parse_pair_number = parse_pair_with parse_number"

definition parse_pair_str :: "string \<Rightarrow> nat \<Rightarrow> pair_result" where
  "parse_pair_str = parse_pair_with parse_str"

definition parse_pair :: "string \<Rightarrow> nat \<Rightarrow> pair_result" where
  "parse_pair =
     parse_pair_with (\<lambda>r maxlen.
       case parse_peek r of (c, r') \<Rightarrow> if c = DQ then parse_str r' maxlen else parse_number r' maxlen)"

abbreviation BUFSIZE :: nat where "BUFSIZE \<equiv> 10 * 1024"

lemma parse_ss_le [simp]: "length (parse_ss s) \<le> length s"
  by (simp add: parse_ss_def length_dropWhile_le)

lemma parse_chk_le: "parse_chk s c = (ok, r) \<Longrightarrow> length r + (if ok then 1 else 0) \<le> length s"
  using parse_ss_le [of s]
  by (cases "parse_ss s") (auto simp: parse_chk_def Let_def split: if_splits)

lemma parse_str_loop_le: "parse_str_loop s m v = (ok, w, r) \<Longrightarrow> length r \<le> length s"
proof (induction s m v arbitrary: ok w r rule: parse_str_loop.induct)
  case (2 c s m v)
  then show ?case by (fastforce split: if_splits)
qed simp

lemma parse_str_le: "parse_str s m = (ok, w, r) \<Longrightarrow> length r \<le> length s"
  using parse_ss_le [of s]
  by (cases "parse_ss s") (auto simp: parse_str_def Let_def split: if_splits dest: parse_str_loop_le)

lemma parse_number_loop_le: "parse_number_loop s m v = (w, r) \<Longrightarrow> length r \<le> length s"
  by (induction s m v arbitrary: w r rule: parse_number_loop.induct)
    (auto split: if_splits intro: le_SucI)

lemma parse_number_le: "parse_number s m = (ok, w, r) \<Longrightarrow> length r \<le> length s"
proof -
  assume p: "parse_number s m = (ok, w, r)"
  have "length r \<le> length (parse_ss s)"
  proof (cases "parse_ss s")
    case (Cons c u)
    with p have "r = c # u \<or> (w, r) = parse_number_loop (c # u) m []"
      by (auto simp: parse_number_def Let_def split: if_splits prod.splits
          simp del: parse_number_loop.simps)
    then show ?thesis
      unfolding Cons by (metis order_refl parse_number_loop_le)
  qed (use p in \<open>simp add: parse_number_def\<close>)
  then show ?thesis using parse_ss_le [of s] by linarith
qed

lemma parse_pair_with_le:
  assumes "\<And>s m ok w r. pv s m = (ok, w, r) \<Longrightarrow> length r \<le> length s"
    and "parse_pair_with pv s m = (ok, n, v, r)"
  shows "length r \<le> length s"
  using assms(2)
  by (auto simp: parse_pair_with_def split: prod.splits if_splits
      dest!: parse_str_le parse_chk_le assms(1))

lemma parse_pair_le: "parse_pair s m = (ok, n, v, r) \<Longrightarrow> length r \<le> length s"
  unfolding parse_pair_def
  by (erule parse_pair_with_le [rotated])
    (auto simp: parse_peek_def Let_def split: if_splits
      dest!: parse_str_le parse_number_le intro: order_trans parse_ss_le)

text \<open>
  \<open>_parse_vector\<close> reads names into \<open>buf_name[1024]\<close> but passes the size of the value buffer to
  \<open>_parse_pair\<close>: a name of 1024 bytes or more is written past the end of \<open>buf_name\<close>, which is
  the value \<open>None\<close> (undefined behaviour).
\<close>

abbreviation NAMESIZE :: nat where "NAMESIZE \<equiv> 1024"

function parse_vector_loop :: "string \<Rightarrow> assoc_array \<Rightarrow> (bool \<times> string \<times> assoc_array) option" where
  "parse_vector_loop s a =
     (if s = [] then Some (True, s, a)
      else case parse_chk s (CHR ''{'') of (ok, r1) \<Rightarrow>
        if \<not> ok then Some (False, r1, a)
        else case parse_pair r1 BUFSIZE of (ok, name, val, r2) \<Rightarrow>
          if NAMESIZE \<le> length name then None
          else if \<not> ok then Some (False, r2, a)
          else case parse_chk r2 (CHR ''}'') of (ok, r3) \<Rightarrow>
            if \<not> ok then Some (False, r3, a)
            else case assoc_put a name val of
              None \<Rightarrow> None
            | Some (a', _) \<Rightarrow>
                (case parse_chk r3 (CHR '','') of (ok, r4) \<Rightarrow>
                   if \<not> ok then Some (True, r4, a') else parse_vector_loop r4 a'))"
  by pat_completeness auto
termination
  by (relation "measure (\<lambda>(s, a). length s)")
    (auto dest!: parse_chk_le [OF sym] parse_pair_le [OF sym])

declare parse_vector_loop.simps [simp del]

definition parse_vector :: "string \<Rightarrow> assoc_array \<Rightarrow> (bool \<times> string \<times> assoc_array) option" where
  "parse_vector s a =
     (case parse_chk s (CHR ''['') of (ok, r) \<Rightarrow>
        if \<not> ok then Some (False, r, a)
        else case parse_vector_loop r a of
          None \<Rightarrow> None
        | Some (ok, r, a') \<Rightarrow>
            if \<not> ok then Some (False, r, a')
            else (case parse_chk r (CHR '']'') of (ok, r) \<Rightarrow> Some (ok, r, a')))"

definition assoc_import_from_json :: "assoc_array \<Rightarrow> string \<Rightarrow> (assoc_array \<times> int) option" where
  "assoc_import_from_json a buf =
     (case parse_chk buf (CHR ''{'') of (ok, r) \<Rightarrow> if \<not> ok then Some (a, -1) else
      case parse_pair_str r BUFSIZE of (ok, id_name, id_value, r) \<Rightarrow> if \<not> ok then Some (a, -1) else
      if strcmp id_name EXPORT_ID_NAME \<noteq> 0 \<or> strcmp id_value EXPORT_ID_NAME_VAL \<noteq> 0
      then Some (a, -1) else
      case parse_chk r (CHR '','') of (ok, r) \<Rightarrow> if \<not> ok then Some (a, -1) else
      case parse_pair_number r BUFSIZE of (ok, _, _, r) \<Rightarrow> if \<not> ok then Some (a, -1) else
      case parse_chk r (CHR '','') of (ok, r) \<Rightarrow> if \<not> ok then Some (a, -1) else
      case parse_pair_number r BUFSIZE of (ok, _, _, r) \<Rightarrow> if \<not> ok then Some (a, -1) else
      case parse_chk r (CHR '','') of (ok, r) \<Rightarrow> if \<not> ok then Some (a, -1) else
      case parse_str r 64 of (ok, pairs_key, r) \<Rightarrow>
      if \<not> ok \<or> strcmp EXPORT_PAIRS_KEY pairs_key \<noteq> 0 then Some (a, -1) else
      case parse_chk r (CHR '':'') of (ok, r) \<Rightarrow> if \<not> ok then Some (a, -1) else
      case parse_vector r a of
        None \<Rightarrow> None
      | Some (_, r, a') \<Rightarrow>
          (case parse_chk r (CHR ''}'') of (ok, _) \<Rightarrow> Some (a', if ok then 0 else -1)))"

section \<open>The array refines a map\<close>

text \<open>Well-formed arrays: no more entries than room, distinct names, none of them empty.\<close>

definition assoc_wf :: "assoc_array \<Rightarrow> bool" where
  "assoc_wf a \<longleftrightarrow> 4 \<le> aa_max a \<and> num_values a \<le> aa_max a \<and> distinct (map fst (aa_pairs a))
     \<and> [] \<notin> fst ` set (aa_pairs a)"

lemma assoc_wf_new: "assoc_new n = Some a \<Longrightarrow> assoc_wf a \<and> aa_pairs a = []"
  by (auto simp: assoc_new_def assoc_wf_def split: if_splits)

lemma assoc_get_map_of: "name \<noteq> [] \<Longrightarrow> assoc_get a name = map_of (aa_pairs a) name"
  by (auto simp: assoc_get_def map_of_find_idx Let_def eq_commute [of name])

lemma assoc_get_Nil [simp]: "assoc_get a [] = None"
  by (simp add: assoc_get_def)

lemma assoc_get_eq_map_of: "assoc_wf a \<Longrightarrow> assoc_get a = map_of (aa_pairs a)"
  by (rule ext) (metis assoc_get_Nil assoc_get_map_of assoc_wf_def map_of_eq_None_iff)

text \<open>Inserting without growth, and copying into an array with enough room.\<close>

lemma assoc_put_d_room:
  assumes "name \<noteq> []" and "name \<notin> fst ` set (aa_pairs a)" and "num_values a < aa_max a"
  shows "assoc_put_d d a name val = Some (a\<lparr>aa_pairs := aa_pairs a @ [(name, val)]\<rparr>, 0)"
  using assms
  by (cases d) (auto simp: assoc_put_body_def assoc_grow_def assoc_get_map_of map_of_eq_None_iff)

lemma assoc_add_with_room:
  assumes "distinct (map fst (aa_pairs a @ ps))" and "[] \<notin> fst ` set ps"
    and "num_values a + length ps \<le> aa_max a"
  shows "assoc_add_with (assoc_put_d d) a ps = Some (a\<lparr>aa_pairs := aa_pairs a @ ps\<rparr>, 0)"
  using assms
proof (induction ps arbitrary: a)
  case (Cons p ps)
  obtain n v where p: "p = (n, v)" by (cases p)
  let ?a = "a\<lparr>aa_pairs := aa_pairs a @ [(n, v)]\<rparr>"
  have "assoc_put_d d a n v = Some (?a, 0)"
    using Cons.prems p by (intro assoc_put_d_room) (auto simp: image_iff)
  moreover have "assoc_add_with (assoc_put_d d) ?a ps = Some (?a\<lparr>aa_pairs := aa_pairs ?a @ ps\<rparr>, 0)"
    using Cons.prems p by (intro Cons.IH) auto
  ultimately show ?case by (simp add: p)
qed simp

lemma assoc_grow_wf:
  assumes "assoc_wf a"
  shows "assoc_grow (assoc_put_d d) a =
     Some (Some (if num_values a < aa_max a then a else a\<lparr>aa_max := 2 * aa_max a\<rparr>))"
proof (cases "num_values a < aa_max a")
  case False
  let ?t = "\<lparr>aa_pairs = [], aa_max = aa_max a * 2\<rparr>"
  have "assoc_copy_with (assoc_put_d d) ?t a = Some (?t\<lparr>aa_pairs := aa_pairs a\<rparr>, 0)"
    unfolding assoc_copy_with_def assoc_clear_def
    using assms by (subst assoc_add_with_room) (auto simp: assoc_wf_def)
  with False assms show ?thesis
    by (simp add: assoc_grow_def assoc_new_def assoc_wf_def)
qed (simp add: assoc_grow_def)

text \<open>The result of an insertion at any depth from 1 on.\<close>

lemma assoc_put_d_wf:
  assumes "assoc_wf a"
  shows "assoc_put_d (Suc d) a name val =
     Some (if name = [] then (a, -1)
           else if name \<in> fst ` set (aa_pairs a) then (a, -2)
           else (\<lparr>aa_pairs = aa_pairs a @ [(name, val)],
                  aa_max = (if num_values a < aa_max a then aa_max a else 2 * aa_max a)\<rparr>, 0))"
  using assms
  by (cases a) (auto simp: assoc_put_body_def assoc_grow_wf assoc_get_map_of map_of_eq_None_iff
      split: option.splits)

lemma assoc_put_wf:
  assumes "assoc_wf a"
  shows "assoc_put a name val =
     Some (if name = [] then (a, -1)
           else if name \<in> fst ` set (aa_pairs a) then (a, -2)
           else (\<lparr>aa_pairs = aa_pairs a @ [(name, val)],
                  aa_max = (if num_values a < aa_max a then aa_max a else 2 * aa_max a)\<rparr>, 0))"
  using assoc_put_d_wf [OF assms, of 0] by (simp add: assoc_put_def)

lemma assoc_put_keeps_wf: "assoc_wf a \<Longrightarrow> assoc_put a name val = Some (a', rc) \<Longrightarrow> assoc_wf a'"
  by (auto simp: assoc_put_wf assoc_wf_def split: if_splits)

lemma copy_down_step:
  "i + k < length xs \<Longrightarrow>
   fold (\<lambda>j ys. ys[j := ys ! Suc j]) [i..<i + k] xs
     = take i xs @ take k (drop (Suc i) xs) @ drop (i + k) xs"
proof (induction k)
  case (Suc k)
  let ?p = "take i xs @ take k (drop (Suc i) xs)"
  have IH: "fold (\<lambda>j ys. ys[j := ys ! Suc j]) [i..<i + k] xs = ?p @ drop (i + k) xs"
    using Suc by simp
  have d: "drop (i + k) xs = xs ! (i + k) # xs ! (i + k + 1) # drop (i + k + 2) xs"
    "drop (i + Suc k) xs = xs ! (i + k + 1) # drop (i + k + 2) xs"
    using Suc.prems by (auto simp: Cons_nth_drop_Suc)
  have t: "take (Suc k) (drop (Suc i) xs) = take k (drop (Suc i) xs) @ [xs ! (i + k + 1)]"
    using Suc.prems by (simp add: take_Suc_conv_app_nth)
  have len: "length ?p = i + k"
    using Suc.prems by simp
  have "fold (\<lambda>j ys. ys[j := ys ! Suc j]) [i..<i + Suc k] xs
      = (?p @ drop (i + k) xs)[i + k := (?p @ drop (i + k) xs) ! Suc (i + k)]"
    by (simp add: IH del: append_assoc)
  also have "\<dots> = ?p @ [xs ! (i + k + 1)] @ drop (i + Suc k) xs"
    unfolding d list_update_append nth_append len by simp
  finally show ?case by (simp add: t)
qed simp

lemma copy_down_eq:
  assumes "i < length xs"
  shows "copy_down i xs = take i xs @ drop (Suc i) xs"
proof -
  define k where "k = length xs - Suc i"
  have k: "length xs - 1 = i + k" "i + k < length xs" using assms by (auto simp: k_def)
  have "drop (i + k) xs = [xs ! (i + k)]"
    using k assms by (simp add: Cons_nth_drop_Suc [symmetric])
  moreover have "take k (drop (Suc i) xs) = drop (Suc i) xs" using k by (simp add: k_def)
  ultimately show ?thesis
    unfolding copy_down_def k(1) copy_down_step [OF k(2)] by (simp add: butlast_append)
qed

lemma filter_out_at:
  assumes "distinct (map fst (u @ p # v))"
  shows "filter (\<lambda>q. fst q \<noteq> fst p) (u @ p # v) = u @ v"
proof -
  have "\<forall>q \<in> set u. fst q \<noteq> fst p" and "\<forall>q \<in> set v. fst q \<noteq> fst p"
    using assms by (auto simp: image_iff)
  then show ?thesis by (simp add: filter_id_conv)
qed

lemma assoc_del_wf:
  assumes "assoc_wf a"
  shows "aa_pairs (fst (assoc_del a name)) = filter (\<lambda>p. fst p \<noteq> name) (aa_pairs a)"
proof -
  let ?xs = "aa_pairs a" and ?i = "find_idx (\<lambda>p. fst p = name) (aa_pairs a)"
  show ?thesis
  proof (cases "?i < length ?xs")
    case True
    have nth: "fst (?xs ! ?i) = name" using find_idx_sat [OF True] .
    then have "name \<noteq> []"
      using assms nth_mem [OF True] by (metis assoc_wf_def imageI)
    have "filter (\<lambda>q. fst q \<noteq> fst (?xs ! ?i)) (take ?i ?xs @ ?xs ! ?i # drop (Suc ?i) ?xs)
        = take ?i ?xs @ drop (Suc ?i) ?xs"
      using assms id_take_nth_drop [OF True] by (intro filter_out_at) (metis assoc_wf_def)
    then have "filter (\<lambda>p. fst p \<noteq> name) ?xs = take ?i ?xs @ drop (Suc ?i) ?xs"
      unfolding id_take_nth_drop [OF True, symmetric] nth .
    with True \<open>name \<noteq> []\<close> show ?thesis
      by (auto simp: assoc_del_def Let_def copy_down_eq)
  next
    case False
    then have "\<forall>p\<in>set ?xs. fst p \<noteq> name" by (simp add: find_idx_ge_iff [symmetric])
    with False show ?thesis
      by (auto simp: assoc_del_def Let_def filter_id_conv)
  qed
qed

lemma assoc_del_max [simp]: "aa_max (fst (assoc_del a name)) = aa_max a"
  by (simp add: assoc_del_def Let_def)

lemma assoc_del_keeps_wf: "assoc_wf a \<Longrightarrow> assoc_wf (fst (assoc_del a name))"
  by (auto simp: assoc_wf_def assoc_del_wf distinct_map_filter
      intro: order_trans [OF length_filter_le])

lemma map_of_filter_neq: "map_of (filter (\<lambda>p. fst p \<noteq> k) xs) = (map_of xs)(k := None)"
  by (induction xs) (auto simp: fun_eq_iff)

lemma assoc_del_get:
  "assoc_wf a \<Longrightarrow> assoc_get (fst (assoc_del a name)) = (assoc_get a)(name := None)"
  by (simp add: assoc_get_eq_map_of assoc_del_keeps_wf assoc_del_wf map_of_filter_neq)

lemma map_of_update_at:
  "i < length xs \<Longrightarrow> distinct (map fst xs) \<Longrightarrow> fst (xs ! i) = k \<Longrightarrow>
   map_of (xs[i := (k, v)]) = (map_of xs)(k \<mapsto> v)"
proof (induction xs arbitrary: i)
  case (Cons p xs)
  show ?case
  proof (cases i)
    case (Suc n)
    with Cons.prems have "k \<in> fst ` set xs" by (metis Suc_less_eq imageI length_Cons nth_Cons_Suc nth_mem)
    moreover have "fst p \<notin> fst ` set xs" using Cons.prems by simp
    ultimately have "fst p \<noteq> k" by metis
    with Cons Suc show ?thesis by (auto simp: fun_eq_iff)
  qed (use Cons in \<open>auto simp: fun_eq_iff\<close>)
qed simp

lemma assoc_update_get:
  assumes "assoc_wf a" and "assoc_get a name \<noteq> None"
  shows "assoc_get (fst (assoc_update a name val)) = (assoc_get a)(name \<mapsto> val)"
    and "assoc_wf (fst (assoc_update a name val))"
proof -
  let ?xs = "aa_pairs a" and ?i = "find_idx (\<lambda>p. fst p = name) (aa_pairs a)"
  have i: "?i < length ?xs"
    using assms by (auto simp: assoc_get_eq_map_of map_of_find_idx Let_def split: if_splits)
  have nth: "fst (?xs ! ?i) = name" using find_idx_sat [OF i] .
  have eq: "fst (assoc_update a name val) = a\<lparr>aa_pairs := ?xs[?i := (name, val)]\<rparr>"
    using i nth by (simp add: assoc_update_def Let_def)
  have keys: "map fst (?xs[?i := (name, val)]) = map fst ?xs"
    using i nth by (simp add: map_update list_update_id [of "map fst ?xs" ?i, simplified])
      (metis list_update_id nth_map)
  show wf: "assoc_wf (fst (assoc_update a name val))"
    using assms(1) keys unfolding eq assoc_wf_def by (auto simp flip: set_map)
  have d: "distinct (map fst ?xs)" using assms(1) by (simp add: assoc_wf_def)
  have "map_of (?xs[?i := (name, val)]) = (map_of ?xs)(name \<mapsto> val)"
    by (rule map_of_update_at [OF i d nth])
  then show "assoc_get (fst (assoc_update a name val)) = (assoc_get a)(name \<mapsto> val)"
    using wf assms(1) by (simp add: assoc_get_eq_map_of eq)
qed

section \<open>The array as a name store\<close>

definition assoc_ins :: "assoc_array \<Rightarrow> string \<Rightarrow> string \<Rightarrow> assoc_array" where
  "assoc_ins a k v = (case assoc_put a k v of None \<Rightarrow> a | Some (a', _) \<Rightarrow> a')"

interpretation aa: name_store_del assoc_get assoc_ins assoc_wf "\<lambda>k. k \<noteq> []"
  "\<lambda>a k. fst (assoc_del a k)"
proof
  fix a k v
  assume wf: "assoc_wf a"
  show wf': "assoc_wf (assoc_ins a k v)"
    using wf assoc_put_keeps_wf [OF wf, of k v]
    by (auto simp: assoc_ins_def split: option.splits)
  show "assoc_get a k \<noteq> None \<Longrightarrow> assoc_ins a k v = a"
    using wf by (auto simp: assoc_ins_def assoc_put_wf assoc_get_eq_map_of map_of_eq_None_iff
        dest: map_of_SomeD intro: rev_image_eqI)
  show "k \<noteq> [] \<Longrightarrow> assoc_get a k = None \<Longrightarrow>
      assoc_get (assoc_ins a k v) = (assoc_get a)(k \<mapsto> v)"
  proof -
    assume "k \<noteq> []" "assoc_get a k = None"
    then have k: "k \<notin> dom (map_of (aa_pairs a))"
      and "aa_pairs (assoc_ins a k v) = aa_pairs a @ [(k, v)]"
      using wf by (auto simp: assoc_ins_def assoc_put_wf assoc_get_eq_map_of map_of_eq_None_iff
          simp flip: dom_map_of_conv_image_fst)
    then have "assoc_get (assoc_ins a k v) = [k \<mapsto> v] ++ map_of (aa_pairs a)"
      using wf' by (simp add: assoc_get_eq_map_of)
    also have "\<dots> = (map_of (aa_pairs a))(k \<mapsto> v)"
      using k by (simp add: map_add_comm [of "[k \<mapsto> v]"])
    finally show ?thesis using wf by (simp add: assoc_get_eq_map_of)
  qed
  show "assoc_get (fst (assoc_del a k)) = (assoc_get a)(k := None)"
    by (rule assoc_del_get [OF wf])
  show "assoc_wf (fst (assoc_del a k))" by (rule assoc_del_keeps_wf [OF wf])
qed

lemma assoc_put_ins: "assoc_wf a \<Longrightarrow> \<exists>rc. assoc_put a k v = Some (assoc_ins a k v, rc)"
  by (auto simp: assoc_ins_def assoc_put_wf)

lemma assoc_add_with_ins_all:
  "assoc_wf a \<Longrightarrow> [] \<notin> fst ` set ps \<Longrightarrow>
   assoc_add_with assoc_put a ps = Some (aa.insert_all a ps, 0)"
proof (induction ps arbitrary: a)
  case (Cons p ps)
  obtain n v where p: "p = (n, v)" by (cases p)
  have "n \<noteq> []" using Cons.prems p by (auto simp: image_iff)
  then have "\<exists>rc. assoc_put a n v = Some (assoc_ins a n v, rc) \<and> rc \<noteq> -1"
    using Cons.prems(1) by (simp add: assoc_ins_def assoc_put_wf)
  then show ?case
    using Cons.IH [of "assoc_ins a n v"] Cons.prems
    by (auto simp: p aa.insert_all_def aa.invar_insert)
qed (simp add: aa.insert_all_def)

lemma assoc_add_spec:
  assumes "assoc_wf dest" and "assoc_wf src"
  shows "\<exists>dest'. assoc_add dest src = Some (dest', 0) \<and> assoc_wf dest' \<and>
           assoc_get dest' = assoc_get src ++ assoc_get dest"
proof -
  have n: "[] \<notin> fst ` set (aa_pairs src)" using assms(2) by (simp add: assoc_wf_def)
  then have "list_all (\<lambda>p. fst p \<noteq> []) (aa_pairs src)"
    by (metis (mono_tags) imageI list_all_iff)
  then show ?thesis
    using assms n by (simp add: assoc_add_def assoc_add_with_ins_all aa.invar_insert_all
        aa.lookup_insert_all assoc_get_eq_map_of [of src])
qed

lemma insert_all_room:
  "assoc_wf a \<Longrightarrow> distinct (map fst (aa_pairs a @ ps)) \<Longrightarrow> [] \<notin> fst ` set ps \<Longrightarrow>
   aa_pairs (aa.insert_all a ps) = aa_pairs a @ ps"
proof (induction ps arbitrary: a)
  case (Cons p ps)
  obtain n v where p: "p = (n, v)" by (cases p)
  have "aa_pairs (assoc_ins a n v) = aa_pairs a @ [(n, v)]"
    using Cons.prems p by (auto simp: assoc_ins_def assoc_put_wf image_iff)
  then show ?case
    using Cons.IH [of "assoc_ins a n v"] Cons.prems p
    by (simp add: aa.insert_all_def aa.invar_insert)
qed (simp add: aa.insert_all_def)

section \<open>Sorting\<close>

lemma assoc_sort_get: "assoc_wf a \<Longrightarrow> assoc_get (fst (assoc_sort a)) = assoc_get a
   \<and> assoc_wf (fst (assoc_sort a)) \<and> sorted (map fst (aa_pairs (fst (assoc_sort a))))"
proof -
  assume wf: "assoc_wf a"
  let ?ys = "sort_key fst (aa_pairs a)"
  have d: "distinct (map fst ?ys)"
    using wf by (simp add: assoc_wf_def distinct_map)
  then have wf': "assoc_wf (a\<lparr>aa_pairs := ?ys\<rparr>)" using wf by (simp add: assoc_wf_def)
  have "map_of ?ys = map_of (aa_pairs a)"
    using wf d by (intro map_of_inject_set [THEN iffD2]) (auto simp: assoc_wf_def)
  with wf wf' show ?thesis by (simp add: assoc_sort_def assoc_get_eq_map_of)
qed

section \<open>Export followed by import\<close>

text \<open>
  What the export format can carry: no quote inside the text, and no backslash right before the
  closing quote.
\<close>

definition json_safe :: "string \<Rightarrow> bool" where
  "json_safe s \<longleftrightarrow> DQ \<notin> set s \<and> (s = [] \<or> last s \<noteq> BSLASH)"

lemma parse_ss_Cons [simp]: "parse_ss (c # s) = (if is_json_space c then parse_ss s else c # s)"
  by (simp add: parse_ss_def)

lemma parse_ss_Nil [simp]: "parse_ss [] = []"
  by (simp add: parse_ss_def)

lemma parse_str_loop_safe:
  "json_safe s \<Longrightarrow> length s + 2 \<le> m \<Longrightarrow> parse_str_loop (s @ DQ # r) m v = (True, v @ s, r)"
proof (induction s arbitrary: m v)
  case (Cons c s)
  then have "json_safe s" "c \<noteq> DQ" "c = BSLASH \<Longrightarrow> s \<noteq> []" "s \<noteq> [] \<Longrightarrow> hd s \<noteq> DQ"
    using hd_in_set [of s] by (auto simp: json_safe_def split: if_splits simp del: hd_in_set)
  moreover from this have "hd (s @ DQ # r) = DQ \<Longrightarrow> c \<noteq> BSLASH" by (auto simp: hd_append)
  ultimately show ?case using Cons.IH [of "m - 1" "v @ [c]"] Cons.prems(2) by auto
qed simp

lemma parse_str_safe:
  "json_safe s \<Longrightarrow> length s + 2 \<le> m \<Longrightarrow> parse_str (DQ # s @ DQ # r) m = (True, s, r)"
  by (simp add: parse_str_def is_json_space_def parse_str_loop_safe)

lemma parse_str_space [simp]: "is_json_space c \<Longrightarrow> parse_str (c # s) m = parse_str s m"
  by (simp add: parse_str_def)

lemma parse_number_space [simp]: "is_json_space c \<Longrightarrow> parse_number (c # s) m = parse_number s m"
  by (simp add: parse_number_def)

lemma parse_chk_Cons [simp]:
  "parse_chk (d # s) c =
     (if is_json_space d then parse_chk s c else if d = c then (True, s) else (False, d # s))"
  by (simp add: parse_chk_def)

lemma parse_number_loop_digits:
  "list_all is_digit s \<Longrightarrow> length s + 1 \<le> m \<Longrightarrow> \<not> is_digit c \<Longrightarrow> c \<noteq> CHR ''.'' \<Longrightarrow>
   parse_number_loop (s @ c # r) m v = (v @ s, c # r)"
  by (induction s arbitrary: m v) auto

lemma digit_not_space [simp]: "is_digit c \<Longrightarrow> \<not> is_json_space c"
  by (auto simp: is_digit_def is_json_space_def)

lemma parse_number_digits:
  assumes "list_all is_digit s" "s \<noteq> []" "length s + 1 \<le> m" "\<not> is_digit c" "c \<noteq> CHR ''.''"
  shows "parse_number (s @ c # r) m = (True, s, c # r)"
proof -
  obtain d t where s: "s = d # t" using assms(2) by (cases s) auto
  have "parse_ss (s @ c # r) = s @ c # r" using assms(1) by (simp add: s)
  then show ?thesis
    using assms parse_number_loop_digits [OF assms(1,3-5), of r "[]"]
    by (simp add: parse_number_def s del: parse_number_loop.simps)
qed

text \<open>The text of the pairs, line by line.\<close>

fun json_lines :: "(string \<times> string) list \<Rightarrow> string" where
  "json_lines [] = []"
| "json_lines [p] = json_last_line p"
| "json_lines (p # q # ps) = json_line p @ json_lines (q # ps)"

lemma json_lines_concat:
  "ps \<noteq> [] \<Longrightarrow> concat (map json_line (butlast ps) @ [json_last_line (last ps)]) = json_lines ps"
  by (induction ps rule: json_lines.induct) auto

definition pair_ok :: "string \<times> string \<Rightarrow> bool" where
  "pair_ok p \<longleftrightarrow> json_safe (fst p) \<and> length (fst p) < NAMESIZE \<and> json_safe (snd p)
     \<and> length (snd p) + 2 \<le> BUFSIZE"

lemma is_json_space_simps [simp]:
  "is_json_space (CHR '' '')" "is_json_space LF" "\<not> is_json_space DQ" "\<not> is_json_space (CHR '':'')"
  "\<not> is_json_space (CHR ''{'')" "\<not> is_json_space (CHR ''}'')" "\<not> is_json_space (CHR ''['')"
  "\<not> is_json_space (CHR '']'')" "\<not> is_json_space (CHR '','')"
  by (simp_all add: is_json_space_def)

lemma parse_pair_json:
  assumes "json_safe n" "json_safe v" "length n + 2 \<le> BUFSIZE" "length v + 2 \<le> BUFSIZE"
  shows "parse_pair ('' '' @ quoted_text n @ '' : '' @ quoted_text v @ r) BUFSIZE = (True, n, v, r)"
  using assms by (simp add: parse_pair_def parse_pair_with_def parse_str_safe parse_peek_def)

lemma parse_vector_loop_pair:
  assumes "pair_ok p" and wf: "assoc_wf a"
  shows "parse_vector_loop (json_pair p @ r) a =
     (let a' = assoc_ins a (fst p) (snd p) in
      case parse_chk r (CHR '','') of (ok, r4) \<Rightarrow>
        if \<not> ok then Some (True, r4, a') else parse_vector_loop r4 a')"
proof -
  obtain rc where rc: "assoc_put a (fst p) (snd p) = Some (assoc_ins a (fst p) (snd p), rc)"
    using assoc_put_ins [OF wf] by blast
  have "parse_pair ('' '' @ quoted_text (fst p) @ '' : '' @ quoted_text (snd p) @ '' }'' @ r) BUFSIZE
      = (True, fst p, snd p, '' }'' @ r)"
    using assms(1) by (intro parse_pair_json) (simp_all add: pair_ok_def)
  then show ?thesis
    using assms(1) rc
    by (subst parse_vector_loop.simps) (simp add: json_pair_def pair_ok_def Let_def)
qed

lemma parse_vector_loop_LF [simp]:
  "s \<noteq> [] \<Longrightarrow> parse_vector_loop (LF # s) a = parse_vector_loop s a"
  by (subst (1 2) parse_vector_loop.simps) simp

lemma parse_vector_loop_lines:
  "ps \<noteq> [] \<Longrightarrow> list_all pair_ok ps \<Longrightarrow> assoc_wf a \<Longrightarrow>
   parse_vector_loop (json_lines ps @ ''  ]'' @ r) a = Some (True, '']'' @ r, aa.insert_all a ps)"
proof (induction ps arbitrary: a rule: json_lines.induct)
  case (2 p)
  then show ?case
    by (cases p) (simp add: json_last_line_def parse_vector_loop_pair aa.insert_all_def Let_def)
next
  case (3 p q ps)
  have ne: "json_lines (q # ps) \<noteq> []"
    by (cases ps) (simp_all add: json_line_def json_last_line_def)
  show ?case
    using 3 ne by (cases p)
      (simp add: json_line_def parse_vector_loop_pair aa.insert_all_def Let_def aa.invar_insert)
qed simp

lemma cat_all_fits:
  "length (buff @ concat ts) < maxlen \<Longrightarrow> list_all (\<lambda>t. length t < 1024 * 50) ts \<Longrightarrow>
   cat_all maxlen ts buff = buff @ concat ts"
proof (induction ts arbitrary: buff)
  case (Cons t ts)
  then have "fst (xvstrncat buff maxlen t) = buff @ t"
    by (simp add: xvstrncat_def xstrlcat_eq)
  with Cons show ?case by (simp add: cat_all_def)
qed (simp add: cat_all_def)

definition json_text :: "assoc_array \<Rightarrow> string" where
  "json_text a = json_header a @ json_lines (aa_pairs a) @ json_tail"

lemma pair_ok_line_short:
  "pair_ok p \<Longrightarrow> length (json_line p) < 51200" "pair_ok p \<Longrightarrow> length (json_last_line p) < 51200"
  by (simp_all add: pair_ok_def json_line_def json_last_line_def json_pair_def)

lemma export_json_text:
  assumes "list_all pair_ok (aa_pairs a)" and "length (json_text a) < maxlen"
  shows "assoc_export_to_json a maxlen = json_text a"
proof -
  let ?ls = "if 0 < num_values a
             then map json_line (butlast (aa_pairs a)) @ [json_last_line (last (aa_pairs a))] else []"
  have c: "concat ?ls = json_lines (aa_pairs a)"
    using json_lines_concat [of "aa_pairs a"] by simp
  have s: "list_all (\<lambda>t. length t < 1024 * 50) (?ls @ [json_tail])"
    using assms(1)
    by (auto simp: list_all_iff json_tail_def pair_ok_line_short dest!: in_set_butlastD)
  have h: "take (maxlen - 1) (json_header a) = json_header a"
    using assms(2) by (simp add: json_text_def)
  have "cat_all maxlen (?ls @ [json_tail]) (json_header a) = json_header a @ concat (?ls @ [json_tail])"
    using assms(2) c by (intro cat_all_fits s) (simp add: json_text_def)
  then show ?thesis
    unfolding assoc_export_to_json_def Let_def h json_text_def using c by simp
qed

lemma parse_pair_str_json:
  assumes "json_safe n" "json_safe v" "length n + 2 \<le> m" "length v + 2 \<le> m"
  shows "parse_pair_str (quoted_text n @ '':'' @ quoted_text v @ r) m = (True, n, v, r)"
  using assms by (simp add: parse_pair_str_def parse_pair_with_def parse_str_safe)

lemma parse_pair_number_json:
  assumes "json_safe n" "length n + 2 \<le> m" "length (dec k) + 1 \<le> m"
  shows "parse_pair_number (quoted_text n @ '':'' @ dec k @ '','' @ r) m = (True, n, dec k, '','' @ r)"
  using assms
  by (simp add: parse_pair_number_def parse_pair_with_def parse_str_safe parse_number_digits is_digit_def)

lemma json_safe_keys [simp]:
  "json_safe EXPORT_ID_NAME" "json_safe EXPORT_ID_NAME_VAL" "json_safe EXPORT_PAIRS_KEY"
  "json_safe ''num_values''" "json_safe ''max_values''"
  by (simp_all add: json_safe_def EXPORT_ID_NAME_def EXPORT_ID_NAME_VAL_def EXPORT_PAIRS_KEY_def)

lemma length_keys:
  "length EXPORT_ID_NAME + 2 \<le> BUFSIZE" "length EXPORT_ID_NAME_VAL + 2 \<le> BUFSIZE"
  "length EXPORT_PAIRS_KEY + 2 \<le> 64"
  by (simp_all add: EXPORT_ID_NAME_def EXPORT_ID_NAME_VAL_def EXPORT_PAIRS_KEY_def)

lemma parse_pair_with_space [simp]:
  "is_json_space c \<Longrightarrow> parse_pair_with pv (c # s) m = parse_pair_with pv s m"
  by (simp add: parse_pair_with_def)

lemma import_header:
  assumes "num_values b < SIZE_MOD" "aa_max b < SIZE_MOD"
  shows "assoc_import_from_json a (json_header b @ r) =
     (case parse_vector (''['' @ [LF] @ r) a of
        None \<Rightarrow> None
      | Some (_, r, a') \<Rightarrow>
          (case parse_chk r (CHR ''}'') of (ok, _) \<Rightarrow> Some (a', if ok then 0 else -1)))"
proof -
  have l: "length (dec n) + 1 \<le> BUFSIZE" if "n < SIZE_MOD" for n
    using length_dec_less [of 20 n] that by (simp add: SIZE_MOD_def)
  define k where "k = LF # ''   '' @ quoted_text EXPORT_PAIRS_KEY @ '':['' @ [LF] @ r"
  define m where "m = quoted_text ''max_values'' @ '':'' @ dec (aa_max b) @ '','' @ k"
  define n where "n = quoted_text ''num_values'' @ '':'' @ dec (num_values b) @ '','' @ m"
  have t: "json_header b @ r =
      ''{'' @ [LF] @ ''  '' @ quoted_text EXPORT_ID_NAME @ '':'' @ quoted_text EXPORT_ID_NAME_VAL @ '','' @ n"
    by (simp add: json_header_def n_def m_def k_def)
  have 1: "parse_pair_str (LF # ''  '' @ quoted_text EXPORT_ID_NAME @ '':'' @ quoted_text EXPORT_ID_NAME_VAL @ '','' @ n) BUFSIZE
      = (True, EXPORT_ID_NAME, EXPORT_ID_NAME_VAL, '','' @ n)"
    using parse_pair_str_json [OF json_safe_keys(1,2) length_keys(1,2), of "'','' @ n"]
    by (simp add: parse_pair_str_def)
  have 2: "parse_pair_number n BUFSIZE = (True, ''num_values'', dec (num_values b), '','' @ m)"
    unfolding n_def using l [OF assms(1)] by (intro parse_pair_number_json) simp_all
  have 3: "parse_pair_number m BUFSIZE = (True, ''max_values'', dec (aa_max b), '','' @ k)"
    unfolding m_def using l [OF assms(2)] by (intro parse_pair_number_json) simp_all
  have 4: "parse_str k 64 = (True, EXPORT_PAIRS_KEY, '':['' @ [LF] @ r)"
    using parse_str_safe [OF json_safe_keys(3) length_keys(3), of "'':['' @ [LF] @ r"]
    by (simp add: k_def)
  show ?thesis
    unfolding assoc_import_from_json_def t using 1 2 3 4 by simp
qed

lemma import_json_text:
  assumes wf: "assoc_wf a" and "aa_pairs b \<noteq> []" and "list_all pair_ok (aa_pairs b)"
    and "assoc_wf b" and "aa_max b < SIZE_MOD"
  shows "assoc_import_from_json a (json_text b) = Some (aa.insert_all a (aa_pairs b), 0)"
proof -
  have "parse_vector_loop (LF # json_lines (aa_pairs b) @ json_tail) a
      = Some (True, '']'' @ LF # ''}'' @ [LF], aa.insert_all a (aa_pairs b))"
    using parse_vector_loop_lines [OF assms(2,3) wf, of "LF # ''}'' @ [LF]"]
    by (simp add: json_tail_def)
  then have "parse_vector (''['' @ [LF] @ json_lines (aa_pairs b) @ json_tail) a
      = Some (True, LF # ''}'' @ [LF], aa.insert_all a (aa_pairs b))"
    by (simp add: parse_vector_def)
  moreover have "num_values b < SIZE_MOD" using assms(4,5) by (simp add: assoc_wf_def)
  ultimately show ?thesis
    unfolding json_text_def using assms(5) by (simp add: import_header)
qed

section \<open>Properties\<close>

text \<open>A well-formed array used by the witnesses below: full, with four entries.\<close>

definition sample_array :: assoc_array where
  "sample_array = \<lparr>aa_pairs = [(''LAT'', ''59.1''), (''LON'', ''18.0''), (''TAG'', ''0007''), (''VOLT'', ''4.1'')],
                   aa_max = 4\<rparr>"

lemma sample_array_wf [simp]: "assoc_wf sample_array"
  by (simp add: sample_array_def assoc_wf_def)

text \<open>
  C29: on a well-formed array \<open>assoc_put\<close> always returns, keeps the array well-formed and refines
  the map update: an empty name is refused with -1, a name that is present is refused with -2, both
  leaving the array as it was; any other name is bound to the value with return code 0, also when
  the array is full and has to be grown and copied first.
\<close>

theorem assoc_put_refines_map:
  assumes "assoc_wf a"
  shows "\<exists>a' rc. assoc_put a name val = Some (a', rc) \<and> assoc_wf a' \<and>
     rc = (if name = [] then -1 else if assoc_get a name \<noteq> None then -2 else 0) \<and>
     (if rc = 0 then assoc_get a' = (assoc_get a)(name \<mapsto> val) else a' = a)"
proof -
  obtain a' rc where p: "assoc_put a name val = Some (a', rc)" using assoc_put_ins [OF assms] by blast
  then have ins: "assoc_ins a name val = a'" by (simp add: assoc_ins_def)
  have rc: "rc = (if name = [] then -1 else if assoc_get a name \<noteq> None then -2 else 0)"
    and same: "rc \<noteq> 0 \<Longrightarrow> a' = a"
    using p assms assoc_get_map_of [of name a]
    by (auto simp: assoc_put_wf map_of_eq_None_iff split: if_splits)
  have "rc = 0 \<Longrightarrow> assoc_get a' = (assoc_get a)(name \<mapsto> val)"
    using rc aa.lookup_insert [OF assms, of name val] ins by (auto split: if_splits)
  with p rc same assoc_put_keeps_wf [OF assms p] show ?thesis by auto
qed

theorem assoc_put_refines_map_witness:
  "\<exists>a' rc. assoc_put sample_array ''SPEED'' ''12'' = Some (a', rc) \<and> assoc_wf a' \<and> rc = 0 \<and>
     assoc_get a' = (assoc_get sample_array)(''SPEED'' \<mapsto> ''12'')"
  using assoc_put_refines_map [OF sample_array_wf, of "''SPEED''" "''12''"]
  by (auto simp: sample_array_def assoc_get_map_of)

text \<open>
  C33: \<open>assoc_del\<close> removes exactly the named entry and keeps the order of the others: it returns 0
  if the name was present and afterwards a lookup of it finds nothing while every other lookup is
  unchanged; otherwise it returns -1 (empty name) or -2 and changes nothing.
\<close>

theorem assoc_del_spec:
  assumes "assoc_wf a"
  shows "let (a', rc) = assoc_del a name in
     assoc_wf a' \<and> aa_pairs a' = filter (\<lambda>p. fst p \<noteq> name) (aa_pairs a) \<and>
     assoc_get a' = (assoc_get a)(name := None) \<and>
     rc = (if name = [] then -1 else if assoc_get a name = None then -2 else 0)"
proof -
  have rc: "snd (assoc_del a name) = (if name = [] then -1 else if assoc_get a name = None then -2 else 0)"
    by (auto simp: assoc_del_def Let_def assoc_get_def eq_commute [of name])
  show ?thesis
    using rc assoc_del_get [OF assms, of name] assoc_del_wf [OF assms, of name]
      assoc_del_keeps_wf [OF assms, of name]
    by (cases "assoc_del a name") simp
qed

theorem assoc_del_spec_witness:
  "let (a', rc) = assoc_del sample_array ''LON'' in
     aa_pairs a' = [(''LAT'', ''59.1''), (''TAG'', ''0007''), (''VOLT'', ''4.1'')] \<and> rc = 0"
  using assoc_del_spec [OF sample_array_wf, of "''LON''"]
  by (auto simp: sample_array_def assoc_get_map_of)

text \<open>
  \<open>assoc_add\<close> merges the second array into the first: it succeeds, and a lookup in the result
  finds the value of the destination where it has one and that of the source otherwise.
\<close>

theorem assoc_add_keeps_first:
  assumes "assoc_wf dest" and "assoc_wf src"
  shows "\<exists>dest'. assoc_add dest src = Some (dest', 0) \<and> assoc_wf dest' \<and>
           assoc_get dest' = assoc_get src ++ assoc_get dest"
  by (rule assoc_add_spec [OF assms])

theorem assoc_add_keeps_first_witness:
  "\<exists>dest'. assoc_add \<lparr>aa_pairs = [(''TAG'', ''1'')], aa_max = 4\<rparr> sample_array = Some (dest', 0) \<and>
     assoc_get dest' ''TAG'' = Some ''1'' \<and> assoc_get dest' ''LAT'' = Some ''59.1''"
proof -
  let ?d = "\<lparr>aa_pairs = [(''TAG'', ''1'')], aa_max = 4\<rparr>"
  have "assoc_wf ?d" by (simp add: assoc_wf_def)
  then obtain dest' where d: "assoc_add ?d sample_array = Some (dest', 0)"
    and "assoc_get dest' = assoc_get sample_array ++ assoc_get ?d"
    using assoc_add_keeps_first [OF _ sample_array_wf] by blast
  then have "assoc_get dest' ''TAG'' = Some ''1'' \<and> assoc_get dest' ''LAT'' = Some ''59.1''"
    unfolding sample_array_def map_add_def by (simp add: assoc_get_map_of [of _ "\<lparr>aa_pairs = x, aa_max = y\<rparr>" for x y])
  with d show ?thesis by blast
qed

text \<open>
  What \<open>assoc_export_to_json\<close> writes \<open>assoc_import_from_json\<close> reads back. A well-formed
  array with at least one pair, whose names and values the format can carry (\<open>pair_ok\<close>), exported
  into a buffer that holds the text and imported into an empty array gives return code 0 and the
  same pairs in the same order.
\<close>

theorem assoc_json_roundtrip:
  assumes "assoc_wf b" and "aa_pairs b \<noteq> []" and "list_all pair_ok (aa_pairs b)"
    and "aa_max b < SIZE_MOD" and "length (json_text b) < maxlen"
    and "assoc_wf a" and "aa_pairs a = []"
  shows "\<exists>a'. assoc_import_from_json a (assoc_export_to_json b maxlen) = Some (a', 0) \<and>
           aa_pairs a' = aa_pairs b"
  using assms insert_all_room [of a "aa_pairs b"]
  by (simp add: export_json_text import_json_text assoc_wf_def [of b])

theorem assoc_json_roundtrip_witness:
  "\<exists>a'. assoc_import_from_json \<lparr>aa_pairs = [], aa_max = 4\<rparr> (assoc_export_to_json sample_array 500)
     = Some (a', 0) \<and> aa_pairs a' = aa_pairs sample_array"
proof (rule assoc_json_roundtrip)
  have "length (dec 4) \<le> 1" "length (dec (Suc (Suc (Suc (Suc 0))))) \<le> 1"
    by (rule length_dec_less; simp)+
  then show "length (json_text sample_array) < 500"
    by (simp add: json_text_def json_header_def json_tail_def json_line_def json_last_line_def
        json_pair_def sample_array_def EXPORT_ID_NAME_def EXPORT_ID_NAME_VAL_def EXPORT_PAIRS_KEY_def)
qed (simp_all add: sample_array_def assoc_wf_def pair_ok_def json_safe_def SIZE_MOD_def)

text \<open>
  The export of an array without entries is text that the import refuses: the vector parser
  expects an opening brace after the bracket, so an empty array does not survive an export and
  import, although the export reports success.
\<close>

theorem assoc_export_empty_refused:
  assumes "aa_pairs b = []" and "aa_max b < SIZE_MOD" and "length (json_text b) < maxlen"
  shows "assoc_import_from_json a (assoc_export_to_json b maxlen) = Some (a, -1)"
proof -
  have "parse_vector (''['' @ [LF] @ json_tail) a = Some (False, '']'' @ LF # ''}'' @ [LF], a)"
    by (simp add: parse_vector_def json_tail_def) (subst parse_vector_loop.simps, simp)
  then have "assoc_import_from_json a (json_header b @ json_tail) = Some (a, -1)"
    using assms by (simp add: import_header SIZE_MOD_def)
  then show ?thesis
    using assms by (simp add: export_json_text json_text_def)
qed

theorem assoc_export_empty_refused_witness:
  "assoc_import_from_json sample_array (assoc_export_to_json \<lparr>aa_pairs = [], aa_max = 4\<rparr> 500)
     = Some (sample_array, -1)"
proof (rule assoc_export_empty_refused)
  have "length (dec 4) \<le> 1" "length (dec 0) \<le> 1" by (rule length_dec_less; simp)+
  then show "length (json_text \<lparr>aa_pairs = [], aa_max = 4\<rparr>) < 500"
    by (simp add: json_text_def json_header_def json_tail_def
        EXPORT_ID_NAME_def EXPORT_ID_NAME_VAL_def EXPORT_PAIRS_KEY_def)
qed (simp_all add: SIZE_MOD_def)

end
