(* ===== verification/Slot_Table.thy ===== *)
theory Slot_Table
  imports G7_Prelude
begin

text \<open>
  Fixed tables of slots, as the command queue of \<^verbatim>\<open>g7sendcmd.c\<close> and the client list of
  \<^verbatim>\<open>socklistener.c\<close>: a slot is free or in use, a new entry goes to the first free slot, and a slot
  is given back by zeroing it. The lemmas on the table are proved once from the only law needed,
  that the zeroed slot is free.
\<close>

locale slot_table =
  fixes free :: "'e \<Rightarrow> bool"
    and zero :: 'e
  assumes free_zero: "free zero"
begin

text \<open>Fill the first free slot with \<open>f\<close> of what it holds.\<close>

definition alloc :: "('e \<Rightarrow> 'e) \<Rightarrow> 'e list \<Rightarrow> (nat \<times> 'e list) option" where
  "alloc f xs = (let i = find_idx free xs in
     if i < length xs then Some (i, xs[i := f (xs ! i)]) else None)"

definition release :: "nat \<Rightarrow> 'e list \<Rightarrow> 'e list" where
  "release i xs = xs[i := zero]"

definition used :: "'e list \<Rightarrow> nat" where
  "used xs = length (filter (\<lambda>e. \<not> free e) xs)"

lemma alloc_Some:
  assumes "alloc f xs = Some (i, ys)"
  shows "i < length xs" "free (xs ! i)" "ys = xs[i := f (xs ! i)]" "\<And>j. j < i \<Longrightarrow> \<not> free (xs ! j)"
  using assms by (auto simp: alloc_def Let_def find_idx_sat find_idx_before split: if_splits)

lemma alloc_None_iff: "alloc f xs = None \<longleftrightarrow> used xs = length xs"
proof -
  have "alloc f xs = None \<longleftrightarrow> (\<forall>e\<in>set xs. \<not> free e)"
    by (auto simp: alloc_def Let_def find_idx_less_iff)
  also have "\<dots> \<longleftrightarrow> filter (\<lambda>e. \<not> free e) xs = xs" by (simp add: filter_id_conv)
  also have "\<dots> \<longleftrightarrow> used xs = length xs"
    unfolding used_def by (metis filter_True length_filter_less less_irrefl)
  finally show ?thesis .
qed

text \<open>A new entry never lands on a slot in use, and the other slots stay as they are.\<close>

lemma alloc_keeps: "alloc f xs = Some (i, ys) \<Longrightarrow> j \<noteq> i \<Longrightarrow> ys ! j = xs ! j"
  by (auto dest: alloc_Some)

lemma alloc_keeps_used: "alloc f xs = Some (i, ys) \<Longrightarrow> \<not> free (xs ! j) \<Longrightarrow> ys ! j = xs ! j"
  by (metis alloc_Some(2) alloc_keeps)

lemma used_update:
  "i < length xs \<Longrightarrow>
   used (xs[i := e]) + (if free (xs ! i) then 0 else 1) = used xs + (if free e then 0 else 1)"
proof -
  assume i: "i < length xs"
  have "used xs = used (take i xs) + (if free (xs ! i) then 0 else 1) + used (drop (Suc i) xs)"
    by (subst id_take_nth_drop [OF i]) (simp add: used_def)
  then show ?thesis
    using i by (simp add: upd_conv_take_nth_drop) (simp add: used_def)
qed

lemma alloc_used:
  "alloc f xs = Some (i, ys) \<Longrightarrow> \<not> free (f (xs ! i)) \<Longrightarrow> used ys = Suc (used xs)"
  using alloc_Some [of f xs i ys] used_update [of i xs "f (xs ! i)"] by auto

lemma release_used:
  "i < length xs \<Longrightarrow> \<not> free (xs ! i) \<Longrightarrow> Suc (used (release i xs)) = used xs"
  using used_update [of i xs zero] free_zero by (simp add: release_def)

lemma release_then_alloc: "i < length xs \<Longrightarrow> alloc f (release i xs) \<noteq> None"
proof -
  assume "i < length xs"
  then have "zero \<in> set (release i xs)" by (simp add: release_def set_update_memI)
  with free_zero have "find_idx free (release i xs) < length (release i xs)"
    unfolding find_idx_less_iff by blast
  then show ?thesis by (simp add: alloc_def Let_def)
qed

end

end
