(* ===== verification/Cmdqueue.thy ===== *)
theory Cmdqueue
  imports Xstr Slot_Table
begin

text \<open>
  The queue of commands that wait for a reply of a device connected over GPRS
  (\<^verbatim>\<open>src/src/g7sendcmd.c\<close>, \<open>struct cmdqueue_t\<close> of \<^verbatim>\<open>g7sendcmd.h\<close>), the device error texts, the
  PIN and the running command tag. A command thread inserts an entry and polls it; a tracker thread
  looks the entry up by device and tag and stores the reply in it.
\<close>

section \<open>State\<close>

record cmdqueue_t =
  q_user_sockd :: int
  q_devid :: u32
  q_ts :: int
  q_tag :: string
  q_cmd :: string
  q_reply :: string
  q_validreply :: bool

record cmdq_state =
  cmdq :: "cmdqueue_t list"
  cmdq_len :: nat

definition MAX_CMDQUEUE_LEN :: nat where "MAX_CMDQUEUE_LEN = 128"
definition CMDQUEUE_TIMEOUT :: int where "CMDQUEUE_TIMEOUT = 30"

text \<open>An entry of zero bytes, as \<open>calloc\<close> and \<open>memset\<close> leave it.\<close>

definition zero_entry :: cmdqueue_t where
  "zero_entry = \<lparr>q_user_sockd = 0, q_devid = 0, q_ts = 0, q_tag = [], q_cmd = [], q_reply = [],
                 q_validreply = False\<rparr>"

definition cmdqueue_init :: cmdq_state where
  "cmdqueue_init = \<lparr>cmdq = replicate MAX_CMDQUEUE_LEN zero_entry, cmdq_len = 0\<rparr>"

section \<open>Operations\<close>

definition entry_free :: "cmdqueue_t \<Rightarrow> bool" where
  "entry_free e \<longleftrightarrow> q_devid e = 0 \<and> q_ts e = 0"

text \<open>\<open>now\<close> is what \<open>time(NULL)\<close> returns.\<close>

definition cmdqueue_insert ::
  "int \<Rightarrow> int \<Rightarrow> u32 \<Rightarrow> string \<Rightarrow> string \<Rightarrow> cmdq_state \<Rightarrow> cmdq_state \<times> int" where
  "cmdqueue_insert now user_sockd devid tag cmdstr s =
     (if MAX_CMDQUEUE_LEN \<le> cmdq_len s then (s, -1)
      else if 5 < length tag \<or> 255 < length cmdstr then (s, -1)
      else let i = find_idx entry_free (cmdq s) in
        if i < length (cmdq s)
        then (s\<lparr>cmdq := (cmdq s)[i := (cmdq s ! i)\<lparr>q_ts := now, q_devid := devid,
                 q_user_sockd := user_sockd, q_tag := fst (xstrlcpy tag 6),
                 q_cmd := fst (xstrlcpy cmdstr 256)\<rparr>]\<rparr>, int i)
        else (s, -1))"

definition cmdqueue_clridx :: "nat \<Rightarrow> cmdq_state \<Rightarrow> cmdq_state \<times> int" where
  "cmdqueue_clridx idx s =
     (if idx < MAX_CMDQUEUE_LEN then (s\<lparr>cmdq := (cmdq s)[idx := zero_entry]\<rparr>, 0) else (s, -1))"

text \<open>The index of the entry that \<open>entry\<close> is set to; \<open>None\<close> is the return code -1.\<close>

definition entry_matches :: "u32 \<Rightarrow> string \<Rightarrow> cmdqueue_t \<Rightarrow> bool" where
  "entry_matches devid tag e \<longleftrightarrow>
     q_devid e \<noteq> 0 \<and> q_devid e = devid \<and> (tag = [] \<or> strcmp tag (q_tag e) = 0)"

definition cmdqueue_match :: "u32 \<Rightarrow> string \<Rightarrow> cmdq_state \<Rightarrow> nat option" where
  "cmdqueue_match devid tag s =
     (let i = find_idx (entry_matches devid tag) (cmdq s) in
      if i < length (cmdq s) then Some i else None)"

text \<open>
  The polling loop. Each round reads \<open>validreply\<close>, then the clock, then sleeps; the list holds for
  each round the time read and what the other threads do to the queue during the sleep. An exhausted
  list is the value \<open>None\<close>: the loop has not ended yet.
\<close>

type_synonym round = "int \<times> (cmdq_state \<Rightarrow> cmdq_state)"

fun check_reply_loop ::
  "u32 \<Rightarrow> nat \<Rightarrow> nat \<Rightarrow> round list \<Rightarrow> cmdq_state \<Rightarrow> (cmdq_state \<times> int \<times> string) option" where
  "check_reply_loop ts idx maxreply [] s = None"
| "check_reply_loop ts idx maxreply ((now, others) # rs) s =
     (if q_validreply (cmdq s ! idx) then
        (case xmb_strncpy (q_reply (cmdq s ! idx)) maxreply of
           None \<Rightarrow> None
         | Some r \<Rightarrow> Some (fst (cmdqueue_clridx idx s), 0, r))
      else if now - uint ts > CMDQUEUE_TIMEOUT then
        Some (fst (cmdqueue_clridx idx (others s)), -1, [])
      else check_reply_loop ts idx maxreply rs (others s))"

definition cmdqueue_check_reply ::
  "nat \<Rightarrow> nat \<Rightarrow> round list \<Rightarrow> cmdq_state \<Rightarrow> (cmdq_state \<times> int \<times> string) option" where
  "cmdqueue_check_reply idx maxreply rs s =
     (if MAX_CMDQUEUE_LEN \<le> idx then Some (s, -1, [])
      else check_reply_loop (word_of_int (q_ts (cmdq s ! idx))) idx maxreply rs s)"

section \<open>Device errors, PIN and tag\<close>

definition g7error_list :: "(int \<times> string) list" where
  "g7error_list =
     [(0, ''Unknown error''),
      (1, ''Incorrect password''),
      (2, ''Incorrect command parameters''),
      (3, ''GSM SMS base phone number or GPRS Server IP adress not set''),
      (4, ''Unable to detect GSM signal''),
      (5, ''GSM failed''),
      (6, ''Unable to establish the GPRS connection''),
      (8, ''Voice busy tone''),
      (9, ''Incorrect PIN code setting'')]"

definition device_strerr :: "int \<Rightarrow> int \<times> string" where
  "device_strerr errcode =
     (let i = find_idx (\<lambda>e. fst e = errcode) g7error_list in
      if i < length g7error_list then (0, snd (g7error_list ! i))
      else (-1, snprintf 64 (''Internal error: Device error code '' @ [DQ] @ dec_int errcode @ [DQ]
                              @ '' unknown!'')))"

definition get_device_pin :: "nat \<Rightarrow> int \<times> string option" where
  "get_device_pin maxlen = (if maxlen < 5 then (-1, Some []) else (0, xmb_strncpy ''0000'' maxlen))"

text \<open>\<open>tagnbr\<close> is an \<open>unsigned short\<close>.\<close>

definition get_device_tag :: "nat \<Rightarrow> 16 word \<Rightarrow> 16 word \<times> int \<times> string" where
  "get_device_tag maxlen tagnbr =
     (if maxlen < 6 then (tagnbr, -1, [])
      else let t = tagnbr + 1; t = (if t > 9999 then 0 else t)
           in (t, 0, snprintf maxlen (dec_pad 4 (unat t))))"

section \<open>The queue as a slot table\<close>

interpretation qt: slot_table entry_free zero_entry
  by unfold_locales (simp add: entry_free_def zero_entry_def)

text \<open>
  Well-formed queues: all 128 entries are there, the unused counter is zero, the texts fit in
  their buffers.
\<close>

definition entry_wf :: "cmdqueue_t \<Rightarrow> bool" where
  "entry_wf e \<longleftrightarrow> length (q_tag e) \<le> 5 \<and> length (q_cmd e) \<le> 255"

definition cmdq_wf :: "cmdq_state \<Rightarrow> bool" where
  "cmdq_wf s \<longleftrightarrow> length (cmdq s) = MAX_CMDQUEUE_LEN \<and> cmdq_len s = 0 \<and> list_all entry_wf (cmdq s)"

lemma cmdq_wf_init: "cmdq_wf cmdqueue_init"
  by (simp add: cmdq_wf_def cmdqueue_init_def list_all_iff zero_entry_def entry_wf_def)

definition new_entry :: "int \<Rightarrow> int \<Rightarrow> u32 \<Rightarrow> string \<Rightarrow> string \<Rightarrow> cmdqueue_t \<Rightarrow> cmdqueue_t" where
  "new_entry now sockd devid tag cmd e =
     e\<lparr>q_ts := now, q_devid := devid, q_user_sockd := sockd, q_tag := tag, q_cmd := cmd\<rparr>"

lemma cmdqueue_insert_alloc:
  assumes "cmdq_wf s"
  shows "cmdqueue_insert now sockd devid tag cmd s =
     (if 5 < length tag \<or> 255 < length cmd then (s, -1)
      else case qt.alloc (new_entry now sockd devid tag cmd) (cmdq s) of
        None \<Rightarrow> (s, -1) | Some (i, q) \<Rightarrow> (s\<lparr>cmdq := q\<rparr>, int i))"
  using assms
  by (simp add: cmdqueue_insert_def qt.alloc_def cmdq_wf_def MAX_CMDQUEUE_LEN_def new_entry_def Let_def)

lemma cmdqueue_insert_wf: "cmdq_wf s \<Longrightarrow> cmdq_wf (fst (cmdqueue_insert now sockd devid tag cmd s))"
  by (auto simp: cmdqueue_insert_alloc cmdq_wf_def qt.alloc_def new_entry_def entry_wf_def Let_def
      list_all_iff split: option.splits if_splits dest!: set_update_subset_insert [THEN subsetD])

lemma cmdqueue_clridx_wf: "cmdq_wf s \<Longrightarrow> cmdq_wf (fst (cmdqueue_clridx idx s))"
  by (auto simp: cmdqueue_clridx_def cmdq_wf_def entry_wf_def zero_entry_def list_all_iff
      dest!: set_update_subset_insert [THEN subsetD])

lemma cmdqueue_match_Some:
  "cmdqueue_match devid tag s = Some i \<Longrightarrow>
   i < length (cmdq s) \<and> entry_matches devid tag (cmdq s ! i) \<and>
   (\<forall>j < i. \<not> entry_matches devid tag (cmdq s ! j))"
  by (auto simp: cmdqueue_match_def Let_def find_idx_sat find_idx_before split: if_splits)

lemma cmdqueue_match_None:
  "cmdqueue_match devid tag s = None \<longleftrightarrow> (\<forall>e \<in> set (cmdq s). \<not> entry_matches devid tag e)"
  by (auto simp: cmdqueue_match_def Let_def find_idx_less_iff)

lemma cmdqueue_matchI:
  assumes "i < length (cmdq s)" "entry_matches devid tag (cmdq s ! i)"
    and "\<And>j. j < length (cmdq s) \<Longrightarrow> j \<noteq> i \<Longrightarrow> \<not> entry_matches devid tag (cmdq s ! j)"
  shows "cmdqueue_match devid tag s = Some i"
proof -
  have "find_idx (entry_matches devid tag) (cmdq s) = i"
    using assms by (intro find_idx_eqI) auto
  then show ?thesis using assms(1) by (simp add: cmdqueue_match_def)
qed

section \<open>Waiting for a reply\<close>

text \<open>What the other threads may do while a thread sleeps: the replies stay text that can be copied.\<close>

definition replies_ok :: "cmdq_state \<Rightarrow> bool" where
  "replies_ok s \<longleftrightarrow> length (cmdq s) = MAX_CMDQUEUE_LEN \<and>
     list_all (\<lambda>e. q_validreply e \<longrightarrow> mb_wf (q_reply e)) (cmdq s)"

lemma clridx_nth:
  "idx < MAX_CMDQUEUE_LEN \<Longrightarrow> length (cmdq s) = MAX_CMDQUEUE_LEN \<Longrightarrow>
   cmdq (fst (cmdqueue_clridx idx s)) ! idx = zero_entry"
  by (simp add: cmdqueue_clridx_def)

lemma check_reply_loop_ends:
  assumes "idx < MAX_CMDQUEUE_LEN" and "0 < maxreply"
    and "list_ex (\<lambda>(now, _). now - uint ts > CMDQUEUE_TIMEOUT) rs"
    and "list_all (\<lambda>(_, f). \<forall>s. replies_ok s \<longrightarrow> replies_ok (f s)) rs" and "replies_ok s"
  shows "\<exists>s' rc r. check_reply_loop ts idx maxreply rs s = Some (s', rc, r) \<and>
           cmdq s' ! idx = zero_entry \<and> (rc = 0 \<or> rc = -1)"
  using assms(3-5)
proof (induction rs arbitrary: s)
  case (Cons p rs)
  obtain now f where p: "p = (now, f)" by (cases p)
  have len: "replies_ok t \<Longrightarrow> length (cmdq t) = MAX_CMDQUEUE_LEN" for t
    by (simp add: replies_ok_def)
  have fs: "replies_ok (f s)" using Cons.prems p by simp
  show ?case
  proof (cases "q_validreply (cmdq s ! idx)")
    case True
    then have "mb_wf (q_reply (cmdq s ! idx))"
      using Cons.prems(3) assms(1) by (auto simp: replies_ok_def list_all_length)
    then obtain k where "xmb_strncpy (q_reply (cmdq s ! idx)) maxreply = Some (take k (q_reply (cmdq s ! idx)))"
      using xmb_strncpy_cut assms(2) by blast
    then show ?thesis
      using True p clridx_nth [OF assms(1) len [OF Cons.prems(3)]] by simp
  next
    case False
    then show ?thesis
      using p clridx_nth [OF assms(1) len [OF fs]] Cons.IH [OF _ _ fs] Cons.prems by auto
  qed
qed simp

section \<open>Tags\<close>

definition tag_after :: "nat \<Rightarrow> 16 word \<Rightarrow> 16 word" where
  "tag_after n t = ((\<lambda>t. fst (get_device_tag 16 t)) ^^ n) t"

lemma get_device_tag_next:
  assumes "unat t \<le> 9999" and "6 \<le> maxlen"
  shows "get_device_tag maxlen t =
    (word_of_nat ((unat t + 1) mod 10000), 0, dec_pad 4 ((unat t + 1) mod 10000))"
proof -
  have u: "unat (t + 1) = unat t + 1"
    using assms(1) by (simp add: unat_word_ariths)
  have g: "t + 1 > 9999 \<longleftrightarrow> 9999 < unat t + 1"
    by (simp add: word_less_nat_alt u)
  have w: "word_of_nat (unat t + 1) = t + 1" by (simp add: u [symmetric])
  have "length (dec_pad 4 n) = 4" if "n < 10000" for n
    using length_dec_pad [of 4 n] that by simp
  with assms show ?thesis
    by (cases "unat t = 9999") (simp_all add: get_device_tag_def Let_def g u w [simplified])
qed

lemma tag_after_unat:
  assumes "unat t \<le> 9999"
  shows "unat (tag_after n t) = (unat t + n) mod 10000"
proof (induction n)
  case (Suc n)
  let ?u = "tag_after n t"
  have "unat ?u \<le> 9999" using Suc pos_mod_bound by simp
  then have "fst (get_device_tag 16 ?u) = word_of_nat ((unat ?u + 1) mod 10000)"
    by (simp add: get_device_tag_next)
  moreover have "((unat t + n) mod 10000 + 1) mod 10000 = (unat t + Suc n) mod 10000"
    by (simp add: mod_Suc_eq)
  ultimately show ?case
    using Suc by (simp add: tag_after_def unsigned_of_nat take_bit_nat_eq_self)
qed (use assms in \<open>simp add: tag_after_def\<close>)

lemma mod_shift_neq: "i < j \<Longrightarrow> j < i + n \<Longrightarrow> (a + i) mod n \<noteq> (a + j) mod n" for n :: nat
proof
  assume ij: "i < j" "j < i + n" and "(a + i) mod n = (a + j) mod n"
  then have "n dvd j - i" by (metis add_diff_cancel_left less_imp_le_nat mod_eq_dvd_iff_nat nat_add_left_cancel_le)
  with ij show False using nat_dvd_not_less [of "j - i" n] by auto
qed

section \<open>Properties\<close>

text \<open>
  C12: an accepted command can be found by the reply. Inserting a command for a known device in a
  well-formed queue returns the index of a slot that was free, leaves every other slot alone and keeps
  the queue well-formed; if no other outstanding command has the same device and tag, a reply with that
  device and tag is matched to exactly this slot. The command is refused, without any change, only for a
  tag or command that is too long or when all slots are in use.
\<close>

theorem cmdqueue_insert_then_match:
  assumes "cmdq_wf s" and "devid \<noteq> 0" and "tag \<noteq> []"
    and "cmdqueue_insert now sockd devid tag cmd s = (s', rc)"
  shows "cmdq_wf s' \<and>
     (if 5 < length tag \<or> 255 < length cmd \<or> qt.used (cmdq s) = MAX_CMDQUEUE_LEN
      then rc = -1 \<and> s' = s
      else \<exists>i < MAX_CMDQUEUE_LEN. rc = int i \<and> entry_free (cmdq s ! i) \<and>
             (\<forall>j. j \<noteq> i \<longrightarrow> cmdq s' ! j = cmdq s ! j) \<and>
             qt.used (cmdq s') = Suc (qt.used (cmdq s)) \<and>
             (cmdqueue_match devid tag s = None \<longrightarrow> cmdqueue_match devid tag s' = Some i))"
proof (cases "5 < length tag \<or> 255 < length cmd \<or> qt.used (cmdq s) = MAX_CMDQUEUE_LEN")
  case True
  have "length (cmdq s) = MAX_CMDQUEUE_LEN" using assms(1) by (simp add: cmdq_wf_def)
  with True assms show ?thesis
    using qt.alloc_None_iff [of "new_entry now sockd devid tag cmd" "cmdq s"]
    by (auto simp: cmdqueue_insert_alloc split: if_splits option.splits)
next
  case False
  let ?e = "new_entry now sockd devid tag cmd"
  have len: "length (cmdq s) = MAX_CMDQUEUE_LEN" using assms(1) by (simp add: cmdq_wf_def)
  with False obtain i q where al: "qt.alloc ?e (cmdq s) = Some (i, q)"
    using qt.alloc_None_iff [of ?e "cmdq s"] by (cases "qt.alloc ?e (cmdq s)") auto
  note ai = qt.alloc_Some [OF al]
  have s': "s' = s\<lparr>cmdq := q\<rparr>" "rc = int i"
    using False assms(1,4) al by (auto simp: cmdqueue_insert_alloc)
  have "\<not> entry_free (?e (cmdq s ! i))"
    using assms(2) by (simp add: new_entry_def entry_free_def)
  then have u: "qt.used q = Suc (qt.used (cmdq s))" by (rule qt.alloc_used [OF al])
  have m: "cmdqueue_match devid tag s' = Some i" if n: "cmdqueue_match devid tag s = None"
  proof (rule cmdqueue_matchI)
    show "entry_matches devid tag (cmdq s' ! i)"
      using ai assms(2) by (simp add: s' entry_matches_def new_entry_def)
    show "\<not> entry_matches devid tag (cmdq s' ! j)" if "j < length (cmdq s')" "j \<noteq> i" for j
      using that n qt.alloc_keeps [OF al, of j] ai by (simp add: s' cmdqueue_match_None)
  qed (use ai s' in simp)
  have "cmdq_wf s'" using cmdqueue_insert_wf [OF assms(1), of now sockd devid tag cmd] assms(4) by simp
  with False ai u m len qt.alloc_keeps [OF al] show ?thesis
    unfolding s' by auto
qed

theorem cmdqueue_insert_then_match_witness:
  "\<exists>s'. cmdqueue_insert 1400000000 7 3000000001 ''0001'' ''$WP+GETLOCATION+0001=0000,?'' cmdqueue_init
          = (s', 0) \<and> cmdqueue_match 3000000001 ''0001'' s' = Some 0"
proof -
  let ?s = cmdqueue_init and ?c = "''$WP+GETLOCATION+0001=0000,?''"
  obtain s' rc where i: "cmdqueue_insert 1400000000 7 3000000001 ''0001'' ?c ?s = (s', rc)"
    by fastforce
  have "rc = 0" using i
    by (auto simp: cmdqueue_insert_def cmdqueue_init_def MAX_CMDQUEUE_LEN_def entry_free_def
        zero_entry_def replicate_Suc [of 127, simplified] Let_def)
  moreover have "qt.used (cmdq ?s) = 0" "cmdqueue_match 3000000001 ''0001'' ?s = None"
    by (auto simp: cmdqueue_init_def qt.used_def zero_entry_def entry_free_def cmdqueue_match_None
        entry_matches_def)
  ultimately show ?thesis
    using cmdqueue_insert_then_match [OF cmdq_wf_init _ _ i] i
    by (auto simp: MAX_CMDQUEUE_LEN_def)
qed

text \<open>
  C13: waiting for a reply always ends. Whatever the other threads do to the queue, as long as the
  stored replies are text, once the clock has passed the time-out in some round the polling returns
  0 or -1, and in both cases the slot of the command has been cleared.
\<close>

theorem cmdqueue_check_reply_ends:
  assumes "idx < MAX_CMDQUEUE_LEN" and "0 < maxreply" and "replies_ok s"
    and "list_ex (\<lambda>(now, _). now - q_ts (cmdq s ! idx) > CMDQUEUE_TIMEOUT) rs"
    and "0 \<le> q_ts (cmdq s ! idx)" and "q_ts (cmdq s ! idx) < 2 ^ 32"
    and "list_all (\<lambda>(_, others). \<forall>s. replies_ok s \<longrightarrow> replies_ok (others s)) rs"
  shows "\<exists>s' rc r. cmdqueue_check_reply idx maxreply rs s = Some (s', rc, r) \<and>
           cmdq s' ! idx = zero_entry \<and> (rc = 0 \<or> rc = -1)"
proof -
  have "uint (word_of_int (q_ts (cmdq s ! idx)) :: u32) = q_ts (cmdq s ! idx)"
    using assms(5,6) by (simp add: unsigned_of_int take_bit_int_eq_self)
  then show ?thesis
    using assms check_reply_loop_ends [OF assms(1,2) _ assms(7,3)]
    by (simp add: cmdqueue_check_reply_def)
qed

theorem cmdqueue_check_reply_ends_witness:
  "\<exists>s' rc r. cmdqueue_check_reply 5 1024 [(10, \<lambda>s. s), (31, \<lambda>s. s)] cmdqueue_init = Some (s', rc, r) \<and>
     cmdq s' ! 5 = zero_entry \<and> (rc = 0 \<or> rc = -1)"
  by (rule cmdqueue_check_reply_ends)
    (simp_all add: cmdqueue_init_def MAX_CMDQUEUE_LEN_def CMDQUEUE_TIMEOUT_def replies_ok_def
      zero_entry_def list_all_iff)

text \<open>
  The running tag counts modulo 10000 in its 16-bit counter without ever wrapping: starting from
  a valid counter, the tags of any two of ten thousand consecutive calls differ, and every tag has
  four digits.
\<close>

theorem device_tags_distinct:
  assumes "unat t \<le> 9999" and "i < j" and "j < i + 10000"
  shows "tag_after i t \<noteq> tag_after j t \<and>
     snd (snd (get_device_tag 16 (tag_after i t))) \<noteq> snd (snd (get_device_tag 16 (tag_after j t))) \<and>
     length (snd (snd (get_device_tag 16 (tag_after i t)))) = 4"
proof -
  let ?m = "\<lambda>k. (unat t + k) mod 10000"
  have b: "unat (tag_after k t) \<le> 9999" for k
    using tag_after_unat [OF assms(1), of k] by simp
  have t: "snd (snd (get_device_tag 16 (tag_after k t))) = dec_pad 4 (?m (Suc k))" for k
    by (simp add: get_device_tag_next [OF b] tag_after_unat [OF assms(1)] mod_Suc_eq)
  have ne: "?m i \<noteq> ?m j" "?m (Suc i) \<noteq> ?m (Suc j)"
    using assms(2,3) mod_shift_neq [of i j 10000 "unat t"] mod_shift_neq [of "Suc i" "Suc j" 10000 "unat t"]
    by auto
  then have "dec_pad 4 (?m (Suc i)) \<noteq> dec_pad 4 (?m (Suc j))"
    by (metis dec_value_dec_pad)
  moreover have "tag_after i t \<noteq> tag_after j t"
    using ne(1) tag_after_unat [OF assms(1)] by metis
  ultimately show ?thesis by (simp add: t length_dec_pad)
qed

theorem device_tags_distinct_witness:
  "snd (snd (get_device_tag 16 (tag_after 3 9998))) \<noteq> snd (snd (get_device_tag 16 (tag_after 9000 9998)))"
  using device_tags_distinct [of 9998 3 9000] by simp

end
