(* ===== verification/Cmdtable.thy ===== *)
theory Cmdtable
  imports Xstr
begin

text \<open>
  The command tables of the daemon and the functions that search them (\<^verbatim>\<open>src/src/g7cmd.c\<close>): the
  device events, the commands with their handlers and modes, the arguments every command takes, the
  translation between the names of the user and those of the device, and the translation of the fields
  of a device reply into readable text.
\<close>

section \<open>Constants of \<^verbatim>\<open>g7cmd.h\<close>\<close>

abbreviation CMD_MODE_R :: nat where "CMD_MODE_R \<equiv> 1"
abbreviation CMD_MODE_W :: nat where "CMD_MODE_W \<equiv> 2"
abbreviation CMD_MODE_RW :: nat where "CMD_MODE_RW \<equiv> 3"

abbreviation CMD_TYPE_GET :: nat where "CMD_TYPE_GET \<equiv> 1"
abbreviation CMD_TYPE_SET :: nat where "CMD_TYPE_SET \<equiv> 2"
abbreviation CMD_TYPE_GETSET_BINARY :: nat where "CMD_TYPE_GETSET_BINARY \<equiv> 4"
abbreviation CMD_TYPE_GETSET :: nat where "CMD_TYPE_GETSET \<equiv> 8"
abbreviation CMD_TYPE_DO :: nat where "CMD_TYPE_DO \<equiv> 16"

abbreviation ARGT_BOOL :: nat where "ARGT_BOOL \<equiv> 0"
abbreviation ARGT_INT :: nat where "ARGT_INT \<equiv> 1"
abbreviation ARGT_FLOAT :: nat where "ARGT_FLOAT \<equiv> 2"
abbreviation ARGT_SELECT :: nat where "ARGT_SELECT \<equiv> 3"
abbreviation ARGT_STRING :: nat where "ARGT_STRING \<equiv> 4"

section \<open>The events\<close>

text \<open>Event id, description, command.\<close>

definition g7event_list :: "(int \<times> string \<times> string) list" where
  "g7event_list =
     [(0, ''Position data'', ''GETLOCATION''),
      (1, ''Logging data'', ''REC''),
      (2, ''Position update'', ''TRACK''),
      (4, ''Timer report'', ''PSMT-TIMER''),
      (34, ''Wake Up Report'', ''PSMT-WAKE''),
      (37, ''Enter Sleeping Report'', ''PSMT-SLEEP''),
      (40, ''Internal Battery Low Alert'', ''LOWBATT''),
      (48, ''Virtual fence crossing'', ''GFEN''),
      (100, ''Unit Detaching Report'', ''SETRA'')]"

text \<open>Command and description; \<open>None\<close> is the return code -1.\<close>

definition get_event_cmd :: "int \<Rightarrow> (string \<times> string) option" where
  "get_event_cmd eventid =
     (let i = find_idx (\<lambda>e. fst e = eventid) g7event_list in
      if i < length g7event_list
      then Some (strncpy0 (snd (snd (g7event_list ! i))) 15, strncpy0 (fst (snd (g7event_list ! i))) 127)
      else None)"

section \<open>The commands\<close>

text \<open>The functions the table points to.\<close>

datatype handler = H_binary | H_set | H_get | H_do | H_batt | H_dlrec | H_address | H_null

datatype g7command =
  G7command (srvcmd: string) (cmdstr: string) (cmdhandler: handler) (cmd_type: nat) (modes: nat)
    (descrshort: string) (descrlong: string)

definition g7command_list :: "g7command list" where
  "g7command_list =
     [G7command ''roam'' ''ROAMING'' H_binary CMD_TYPE_GETSET_BINARY CMD_MODE_RW
        ''Enable/Disable GPRS roaming function''
        [],
      G7command ''phone'' ''VLOCATION'' H_binary CMD_TYPE_GETSET CMD_MODE_RW
        (''Enable the function '' @ [DQ] @ ''Get the current location by making a phone call'' @ [DQ])
        [],
      G7command ''led'' ''ELED'' H_binary CMD_TYPE_GETSET_BINARY CMD_MODE_RW
        ''Enable/Disable the LED indicator on/off''
        [],
      G7command ''gfen'' ''GFEN'' H_set CMD_TYPE_GETSET CMD_MODE_RW
        ''Enable/Disabling virtual fence''
        [],
      G7command ''sleep'' ''SLEEP'' H_binary CMD_TYPE_GETSET_BINARY CMD_MODE_RW
        (''Enable/Disable '' @ [DQ] @ ''Sleeping Report'' @ [DQ])
        [],
      G7command ''loc'' ''GETLOCATION'' H_get CMD_TYPE_GET CMD_MODE_R
        ''Get latest location''
        ''Get latest location'',
      G7command ''locg'' ''GETLOCATION'' H_null CMD_TYPE_GET CMD_MODE_R
        ''Get latest location as a Google map string''
        [],
      G7command ''imei'' ''IMEI'' H_get CMD_TYPE_GET CMD_MODE_R
        ''Query the IMEI number of the internal GSM module''
        [],
      G7command ''sim'' ''SIMID'' H_get CMD_TYPE_GET CMD_MODE_R
        ''Query the identification of the SIM card''
        [],
      G7command ''ver'' ''VER'' H_get CMD_TYPE_GET CMD_MODE_R
        ''Get current firmware version''
        ''Get SW version'',
      G7command ''nrec'' ''DLREC'' H_get CMD_TYPE_GET CMD_MODE_R
        ''Get number of locations in device memory''
        ''Get number of locations and date range for locations stored in device memory, see also dlrec and clreac'',
      G7command ''batt'' ''XXXX'' H_batt CMD_TYPE_GET CMD_MODE_R
        ''Read the battery voltage from device''
        [],
      G7command ''track'' ''TRACK'' H_set CMD_TYPE_GETSET CMD_MODE_RW
        ''Control device tracking set up''
        [],
      G7command ''mswitch'' ''SETRA'' H_set CMD_TYPE_GETSET CMD_MODE_RW
        ''Set handling of detach event''
        [],
      G7command ''tz'' ''SETTZ'' H_set CMD_TYPE_GETSET CMD_MODE_RW
        ''Set the time zone information for the device''
        [],
      G7command ''sms'' ''SMSM'' H_set CMD_TYPE_GETSET CMD_MODE_RW
        ''Switch the SMS format (Text of PDU mode)''
        [],
      G7command ''comm'' ''COMMTYPE'' H_set CMD_TYPE_GETSET CMD_MODE_RW
        ''Set/Read device communication type and its parameters''
        [],
      G7command ''vip'' ''SETVIP'' H_set CMD_TYPE_GETSET CMD_MODE_RW
        ''Preset up to 5 SMS phone numbers for receiving different alerts''
        [],
      G7command ''ps'' ''PSMT'' H_set CMD_TYPE_GETSET CMD_MODE_RW
        ''Enable/Disable power saving mode''
        [],
      G7command ''config'' ''UNCFG'' H_set CMD_TYPE_GETSET CMD_MODE_RW
        ''Set/Read device ID, Password, and PIN Code of the SIM card''
        [],
      G7command ''gfevt'' ''SETEVT'' H_set CMD_TYPE_GETSET CMD_MODE_RW
        ''Enable/Disable/Set/Read GEO-Fencing event''
        [],
      G7command ''rec'' ''REC'' H_set CMD_TYPE_GETSET CMD_MODE_RW
        ''Enable/Disable/read logging function to the device''
        [],
      G7command ''lowbatt'' ''LOWBATT'' H_set CMD_TYPE_GETSET CMD_MODE_RW
        ''Set/Read the internal battery low level alert''
        [],
      G7command ''sens'' ''GSS'' H_set CMD_TYPE_GETSET CMD_MODE_RW
        ''Get/Set sensitivity for movement detection''
        [],
      G7command ''clrec'' ''CLREC'' H_do CMD_TYPE_DO CMD_MODE_W
        ''Erase all stored locations from the device memory''
        [],
      G7command ''dlrec'' ''DLREC'' H_dlrec CMD_TYPE_DO CMD_MODE_W
        ''Download all stored locations in device memory to DB''
        [],
      G7command ''reboot'' ''REBOOT'' H_do CMD_TYPE_DO CMD_MODE_W
        ''Restart-up the device''
        [],
      G7command ''reset'' ''RESET'' H_do CMD_TYPE_DO CMD_MODE_W
        ''Reset all parameters to the manufactory default settings''
        [],
      G7command ''test'' ''TEST'' H_do CMD_TYPE_DO CMD_MODE_W
        ''Device diagnostic function''
        [],
      G7command ''address'' ''GETADDRESS'' H_address CMD_TYPE_GET CMD_MODE_R
        ''Get latest location as a street address''
        []]"

definition CMDIDX_SETEVT :: nat where "CMDIDX_SETEVT = 20"

section \<open>The arguments of the commands\<close>

text \<open>
  \<open>argselect\<close> are the alternatives the table lists, \<open>nsel\<close> the number the code reads of them.
  An argument entry that is all zero (commands without arguments) is left out.
\<close>

record cmdarg =
  arglabel :: string
  argdesc :: string
  argtype :: nat
  nsel :: nat
  argselect :: "(string \<times> string) list"

record cmdargs =
  a_srvcmd :: string
  numargs :: nat
  argl :: "cmdarg list"

definition args_sleep :: cmdargs where
  "args_sleep = \<lparr>a_srvcmd = ''sleep'', numargs = 1, argl =
     [\<lparr>arglabel = ''Message mode'', argdesc = ''Set how to handle message at when device enters sleep'',
       argtype = ARGT_SELECT, nsel = 3, argselect =
         [(''1'', ''Log message to device''),
          (''2'', ''Send back message''),
          (''3'', ''Both log and send back'')]\<rparr>]\<rparr>"

definition args_roam :: cmdargs where
  "args_roam = \<lparr>a_srvcmd = ''roam'', numargs = 0, argl =
     []\<rparr>"

definition args_phone :: cmdargs where
  "args_phone = \<lparr>a_srvcmd = ''phone'', numargs = 2, argl =
     [\<lparr>arglabel = ''Status'', argdesc = ''Enable disable location by phone'',
       argtype = ARGT_SELECT, nsel = 2, argselect =
         [(''0'', ''Disabled''),
          (''1'', ''Enabled'')]\<rparr>,
      \<lparr>arglabel = ''VIP mask'', argdesc = ''Bitmask for allowed VIP numbers'',
       argtype = ARGT_INT, nsel = 0, argselect = []\<rparr>]\<rparr>"

definition args_led :: cmdargs where
  "args_led = \<lparr>a_srvcmd = ''led'', numargs = 0, argl =
     []\<rparr>"

definition args_mswitch :: cmdargs where
  "args_mswitch = \<lparr>a_srvcmd = ''mswitch'', numargs = 2, argl =
     [\<lparr>arglabel = ''Report action'', argdesc = ''Action to perform when device is detached'',
       argtype = ARGT_SELECT, nsel = 4, argselect =
         [(''0'', ''Disable''),
          (''1'', ''Log on device''),
          (''2'', ''Send back to server''),
          (''3'', ''Both log and send back'')]\<rparr>,
      \<lparr>arglabel = ''VIP mask'', argdesc = ''Bitmask of VIP numbers to alert'',
       argtype = ARGT_INT, nsel = 0, argselect = []\<rparr>]\<rparr>"

definition args_lowbatt :: cmdargs where
  "args_lowbatt = \<lparr>a_srvcmd = ''lowbatt'', numargs = 2, argl =
     [\<lparr>arglabel = ''Report action'', argdesc = ''Action to perform at low battery voltage'',
       argtype = ARGT_SELECT, nsel = 4, argselect =
         [(''0'', ''Disabled''),
          (''1'', ''Log on device''),
          (''2'', ''Send back to server''),
          (''3'', ''Both log and send back'')]\<rparr>,
      \<lparr>arglabel = ''VIP mask'', argdesc = ''Bit mask of VIP numbers to alert'',
       argtype = ARGT_INT, nsel = 0, argselect = []\<rparr>]\<rparr>"

definition args_sms :: cmdargs where
  "args_sms = \<lparr>a_srvcmd = ''sms'', numargs = 1, argl =
     [\<lparr>arglabel = ''Mode'', argdesc = ''Set format for SMS sent back'',
       argtype = ARGT_SELECT, nsel = 2, argselect =
         [(''0'', ''PDU mode''),
          (''1'', ''Text mode'')]\<rparr>]\<rparr>"

definition args_sens :: cmdargs where
  "args_sens = \<lparr>a_srvcmd = ''sens'', numargs = 1, argl =
     [\<lparr>arglabel = ''Sensitivity'', argdesc = ''Set sensitivity for accelerometer'',
       argtype = ARGT_SELECT, nsel = 5, argselect =
         [(''1'', ''[1] Highest sensitivity''),
          (''2'', ''[2]''),
          (''3'', ''[3]''),
          (''4'', ''[4]''),
          (''5'', ''[5] Lowest sensitivity'')]\<rparr>]\<rparr>"

definition args_tz :: cmdargs where
  "args_tz = \<lparr>a_srvcmd = ''tz'', numargs = 3, argl =
     [\<lparr>arglabel = ''Sign'', argdesc = ''Ahead or before GMT zone'',
       argtype = ARGT_SELECT, nsel = 2, argselect =
         [(''+'', ''Ahead of GMT''),
          (''-'', ''Before GMT'')]\<rparr>,
      \<lparr>arglabel = ''Hour'', argdesc = ''Number of hours to adjust (0-9)'',
       argtype = ARGT_INT, nsel = 0, argselect = []\<rparr>,
      \<lparr>arglabel = ''Min'', argdesc = ''Minutes to adjust'',
       argtype = ARGT_SELECT, nsel = 4, argselect =
         [(''00'', ''0 min''),
          (''15'', ''15 min''),
          (''30'', ''30 min''),
          (''45'', ''45 min'')]\<rparr>]\<rparr>"

definition args_gfen :: cmdargs where
  "args_gfen = \<lparr>a_srvcmd = ''gfen'', numargs = 5, argl =
     [\<lparr>arglabel = ''Status'', argdesc = ''Turn option on/off'',
       argtype = ARGT_SELECT, nsel = 2, argselect =
         [(''0'', ''Disabled''),
          (''1'', ''Enabled'')]\<rparr>,
      \<lparr>arglabel = ''Radius'', argdesc = ''Radius in meter for fence. Radius is counted from the center where M7 sleeps (last recorded pos)'',
       argtype = ARGT_INT, nsel = 0, argselect = []\<rparr>,
      \<lparr>arglabel = ''Zone trigger'', argdesc = ''Trigger when leaving or entering zone'',
       argtype = ARGT_SELECT, nsel = 3, argselect =
         [(''0'', ''Undefined''),
          (''1'', ''Trigger on enter''),
          (''2'', ''Trigger on leave'')]\<rparr>,
      \<lparr>arglabel = ''Report action'', argdesc = ''What to do on event'',
       argtype = ARGT_SELECT, nsel = 4, argselect =
         [(''0'', ''Disabled''),
          (''1'', ''Log to device''),
          (''2'', ''Send back to server''),
          (''3'', ''Both log and send back'')]\<rparr>,
      \<lparr>arglabel = ''VIP mask'', argdesc = ''Bitmask of VIP numbers to alert (0 to disable)'',
       argtype = ARGT_INT, nsel = 0, argselect = []\<rparr>]\<rparr>"

definition args_track :: cmdargs where
  "args_track = \<lparr>a_srvcmd = ''track'', numargs = 7, argl =
     [\<lparr>arglabel = ''Tracking mode'', argdesc = ''Condition when tracking is started'',
       argtype = ARGT_SELECT, nsel = 10, argselect =
         [(''0'', ''Disabled''),
          (''1'', ''Time interval''),
          (''2'', ''Distance interval''),
          (''3'', ''Time AND Distance interval''),
          (''4'', ''Time OR distance interval''),
          (''5'', ''Heading mode''),
          (''6'', ''Heading OR time''),
          (''7'', ''Heading OR distance''),
          (''8'', ''Heading OR (Time AND Distance''),
          (''9'', ''Heading OR Time OR Distance'')]\<rparr>,
      \<lparr>arglabel = ''Timer interval'', argdesc = ''Used for mode 1'',
       argtype = ARGT_INT, nsel = 0, argselect = []\<rparr>,
      \<lparr>arglabel = ''Dist. interval'', argdesc = ''Used for mode 2-9'',
       argtype = ARGT_INT, nsel = 0, argselect = []\<rparr>,
      \<lparr>arglabel = ''Nbr of times'', argdesc = ''Number of times to track (0=unlimited)'',
       argtype = ARGT_INT, nsel = 0, argselect = []\<rparr>,
      \<lparr>arglabel = ''Track basis'', argdesc = ''Wait for GPS fix or not'',
       argtype = ARGT_SELECT, nsel = 2, argselect =
         [(''0'', ''Send report if GPS fix''),
          (''1'', ''Send report always'')]\<rparr>,
      \<lparr>arglabel = ''Comm select'', argdesc = ''Set type of report'',
       argtype = ARGT_SELECT, nsel = 5, argselect =
         [(''0'', ''Over USB''),
          (''1'', ''Over GSM''),
          (''2'', ''Over Reserved (not used)''),
          (''3'', ''UDP over GPRS''),
          (''4'', ''TCP/IP over GPRS'')]\<rparr>,
      \<lparr>arglabel = ''Heading'', argdesc = ''Used for modes 5-9'',
       argtype = ARGT_INT, nsel = 0, argselect = []\<rparr>]\<rparr>"

definition args_comm :: cmdargs where
  "args_comm = \<lparr>a_srvcmd = ''comm'', numargs = 10, argl =
     [\<lparr>arglabel = ''CommSelect'', argdesc = ''Select primary type of communication'',
       argtype = ARGT_SELECT, nsel = 5, argselect =
         [(''0'', ''Use USB''),
          (''1'', ''Use SMS over GSM''),
          (''2'', ''CSD <reserved>''),
          (''3'', ''UDP over GPRS''),
          (''4'', ''TCP/IP over GPRS'')]\<rparr>,
      \<lparr>arglabel = ''SMS Base Phone'', argdesc = ''SMS base number to call'',
       argtype = ARGT_STRING, nsel = 0, argselect = []\<rparr>,
      \<lparr>arglabel = ''CSD Base Phone'', argdesc = ''CSD base number <reserved and not used>'',
       argtype = ARGT_INT, nsel = 0, argselect = []\<rparr>,
      \<lparr>arglabel = ''GPRS APN'', argdesc = ''The operators APN'',
       argtype = ARGT_STRING, nsel = 0, argselect = []\<rparr>,
      \<lparr>arglabel = ''GPRS User'', argdesc = ''User name if required'',
       argtype = ARGT_STRING, nsel = 0, argselect = []\<rparr>,
      \<lparr>arglabel = ''GPRS Passwd'', argdesc = ''Password if required'',
       argtype = ARGT_STRING, nsel = 0, argselect = []\<rparr>,
      \<lparr>arglabel = ''GPRS Server'', argdesc = ''Server IP address where the device reports back to'',
       argtype = ARGT_STRING, nsel = 0, argselect = []\<rparr>,
      \<lparr>arglabel = ''GPRS Server Port'', argdesc = ''TCP/IP Port to use on server'',
       argtype = ARGT_INT, nsel = 0, argselect = []\<rparr>,
      \<lparr>arglabel = ''GPRS Keep Alive'', argdesc = ''Interval in sec between Keep Alive Packets'',
       argtype = ARGT_INT, nsel = 0, argselect = []\<rparr>,
      \<lparr>arglabel = ''GPRS DNS'', argdesc = ''Optional DNS server for device to use.'',
       argtype = ARGT_STRING, nsel = 0, argselect = []\<rparr>]\<rparr>"

definition args_ps :: cmdargs where
  "args_ps = \<lparr>a_srvcmd = ''ps'', numargs = 7, argl =
     [\<lparr>arglabel = ''Mode'', argdesc = ''When to enable sleep mode'',
       argtype = ARGT_SELECT, nsel = 4, argselect =
         [(''0'', ''Auto sleep. Wake on movement. GSM=Stdby,GPRS=GPS=Off,G=On''),
          (''1'', ''Auto sleep. Wake every n min. GSM=GPRS=GPS=G=Off''),
          (''2'', ''Auto sleep. Wake on timer. GSM=GPRS=GPS=G=Off''),
          (''3'', ''Auto sleep. Wake on movement. GSM=GPRS=GPS=Off,G=On'')]\<rparr>,
      \<lparr>arglabel = ''Sleep interval'', argdesc = ''Used with mode 1, Interval in min between wake ups'',
       argtype = ARGT_INT, nsel = 0, argselect = []\<rparr>,
      \<lparr>arglabel = ''Wake up report'', argdesc = ''Action when awaken'',
       argtype = ARGT_SELECT, nsel = 4, argselect =
         [(''0'', ''Disabled''),
          (''1'', ''Log on device''),
          (''2'', ''Send back to server''),
          (''3'', ''Both log and send back'')]\<rparr>,
      \<lparr>arglabel = ''VIP mask'', argdesc = ''Bitmask of VIP numbers to alert (0 disables)'',
       argtype = ARGT_INT, nsel = 0, argselect = []\<rparr>,
      \<lparr>arglabel = ''Timer 1'', argdesc = ''Used with mode=2. 00-23 hr'',
       argtype = ARGT_INT, nsel = 0, argselect = []\<rparr>,
      \<lparr>arglabel = ''Timer 2'', argdesc = ''Used with mode=2. 00-23 hr'',
       argtype = ARGT_INT, nsel = 0, argselect = []\<rparr>,
      \<lparr>arglabel = ''Timer 3'', argdesc = ''Used with mode=2. 00-23 hr'',
       argtype = ARGT_INT, nsel = 0, argselect = []\<rparr>]\<rparr>"

definition args_config :: cmdargs where
  "args_config = \<lparr>a_srvcmd = ''config'', numargs = 3, argl =
     [\<lparr>arglabel = ''Device ID'', argdesc = ''Set device ID (leftmost digit must always be 3)'',
       argtype = ARGT_INT, nsel = 0, argselect = []\<rparr>,
      \<lparr>arglabel = ''Device Password'', argdesc = ''Set device Password (numeric)'',
       argtype = ARGT_INT, nsel = 0, argselect = []\<rparr>,
      \<lparr>arglabel = ''SIM Card PIN'', argdesc = ''The SIM cards PIN code to use'',
       argtype = ARGT_INT, nsel = 0, argselect = []\<rparr>]\<rparr>"

definition args_vip :: cmdargs where
  "args_vip = \<lparr>a_srvcmd = ''vip'', numargs = 5, argl =
     [\<lparr>arglabel = ''VIP 1'', argdesc = ''Mobile number 1 (incl country prefix '+')'',
       argtype = ARGT_STRING, nsel = 0, argselect = []\<rparr>,
      \<lparr>arglabel = ''VIP 2'', argdesc = ''Mobile number 2 (incl country prefix '+')'',
       argtype = ARGT_STRING, nsel = 0, argselect = []\<rparr>,
      \<lparr>arglabel = ''VIP 3'', argdesc = ''Mobile number 3 (incl country prefix '+')'',
       argtype = ARGT_STRING, nsel = 0, argselect = []\<rparr>,
      \<lparr>arglabel = ''VIP 4'', argdesc = ''Mobile number 4 (incl country prefix '+')'',
       argtype = ARGT_STRING, nsel = 0, argselect = []\<rparr>,
      \<lparr>arglabel = ''VIP 5'', argdesc = ''Mobile number 5 (incl country prefix '+')'',
       argtype = ARGT_STRING, nsel = 0, argselect = []\<rparr>]\<rparr>"

definition args_gfevt :: cmdargs where
  "args_gfevt = \<lparr>a_srvcmd = ''gfevt'', numargs = 8, argl =
     [\<lparr>arglabel = ''Event ID'', argdesc = ''Event ID. Maximum of 50 events. In range 50-99'',
       argtype = ARGT_INT, nsel = 0, argselect = []\<rparr>,
      \<lparr>arglabel = ''Status'', argdesc = ''Enable/Disable event'',
       argtype = ARGT_SELECT, nsel = 2, argselect =
         [(''0'', ''Disabled''),
          (''1'', ''Enabled'')]\<rparr>,
      \<lparr>arglabel = ''Longitude'', argdesc = ''Longitude for center of event zone'',
       argtype = ARGT_FLOAT, nsel = 0, argselect = []\<rparr>,
      \<lparr>arglabel = ''Latitude'', argdesc = ''Latitude for center of event zone'',
       argtype = ARGT_FLOAT, nsel = 0, argselect = []\<rparr>,
      \<lparr>arglabel = ''Radius'', argdesc = ''Radius of event zone in meters (0-65535)'',
       argtype = ARGT_INT, nsel = 0, argselect = []\<rparr>,
      \<lparr>arglabel = ''Zone Control'', argdesc = ''How to trigger event'',
       argtype = ARGT_SELECT, nsel = 2, argselect =
         [(''0'', ''Disabled''),
          (''1'', ''Entering zone''),
          (''2'', ''Leaving zone'')]\<rparr>,
      \<lparr>arglabel = ''Action'', argdesc = ''What to do on event'',
       argtype = ARGT_SELECT, nsel = 4, argselect =
         [(''0'', ''Disabled''),
          (''1'', ''Log to device''),
          (''2'', ''Send to server''),
          (''3'', ''Both log and send'')]\<rparr>,
      \<lparr>arglabel = ''VIP Phone mask'', argdesc = ''Bit combination to enable/disable the five VIP numbers'',
       argtype = ARGT_INT, nsel = 0, argselect = []\<rparr>]\<rparr>"

definition args_rec :: cmdargs where
  "args_rec = \<lparr>a_srvcmd = ''rec'', numargs = 6, argl =
     [\<lparr>arglabel = ''Mode'', argdesc = ''When should logging be done'',
       argtype = ARGT_SELECT, nsel = 10, argselect =
         [(''0'', ''Disabled''),
          (''1'', ''Time mode, log every n seconds''),
          (''2'', ''Distance mode, log every n meters''),
          (''3'', ''Time AND Distance mode''),
          (''4'', ''Time OR Distance mode''),
          (''5'', ''Heading mode, logging starts when heading > set value''),
          (''6'', ''Heading OR Time mode''),
          (''7'', ''Heading OR Distance''),
          (''8'', ''Heading OR (Time AND Distance)''),
          (''9'', ''Heading OR Time OR Distance'')]\<rparr>,
      \<lparr>arglabel = ''Time interval'', argdesc = ''Time interval (in sec) used in mode setting'',
       argtype = ARGT_INT, nsel = 0, argselect = []\<rparr>,
      \<lparr>arglabel = ''Distance interval'', argdesc = ''Distance interval (in meters) used in mode setting'',
       argtype = ARGT_INT, nsel = 0, argselect = []\<rparr>,
      \<lparr>arglabel = ''Number of reports'', argdesc = ''The number of reports to send bakc on event (0=continously logging)'',
       argtype = ARGT_INT, nsel = 0, argselect = []\<rparr>,
      \<lparr>arglabel = ''Record basis'', argdesc = ''Logging mode'',
       argtype = ARGT_SELECT, nsel = 2, argselect =
         [(''0'', ''Wait for GPS fix before sending back report''),
          (''1'', ''Don't wait for GPS fix before sending back report'')]\<rparr>,
      \<lparr>arglabel = ''Heading'', argdesc = ''Heading value used in mode (10-90)'',
       argtype = ARGT_INT, nsel = 0, argselect = []\<rparr>]\<rparr>"

definition cmdargs_list :: "cmdargs list" where
  "cmdargs_list =
     [args_sleep, args_roam, args_phone, args_led, args_mswitch, args_lowbatt, args_sms, args_sens, args_tz, args_gfen, args_track, args_comm, args_ps, args_config, args_vip, args_gfevt, args_rec]"

section \<open>Searching the tables\<close>

text \<open>\<open>None\<close> is the return code -1 of the search functions.\<close>

definition get_cmdidx_from_srvcmd :: "string \<Rightarrow> nat option" where
  "get_cmdidx_from_srvcmd cmdname =
     (let i = find_idx (\<lambda>c. xstricmp cmdname (srvcmd c) = 0) g7command_list in
      if i < length g7command_list then Some i else None)"

definition get_argidx_for_cmdidx :: "nat \<Rightarrow> nat option" where
  "get_argidx_for_cmdidx cmdidx =
     (let i = find_idx (\<lambda>a. xstricmp (srvcmd (g7command_list ! cmdidx)) (a_srvcmd a) = 0) cmdargs_list in
      if length cmdargs_list \<le> i then None else Some i)"

definition get_argidx_for_srvcmd :: "string \<Rightarrow> nat option" where
  "get_argidx_for_srvcmd cmdname =
     (case get_cmdidx_from_srvcmd cmdname of None \<Rightarrow> None | Some i \<Rightarrow> get_argidx_for_cmdidx i)"

definition get_srvcmd_from_devcmd :: "string \<Rightarrow> nat \<Rightarrow> string option" where
  "get_srvcmd_from_devcmd devcmd maxlen =
     (let i = find_idx (\<lambda>c. xstricmp devcmd (cmdstr c) = 0) g7command_list in
      if length g7command_list \<le> i then None
      else Some (strncpy0 (srvcmd (g7command_list ! i)) (maxlen - 1)))"

definition get_devcmd_from_srvcmd :: "string \<Rightarrow> nat \<Rightarrow> string option" where
  "get_devcmd_from_srvcmd cmd maxlen =
     (case get_cmdidx_from_srvcmd cmd of
        None \<Rightarrow> None
      | Some i \<Rightarrow> Some (strncpy0 (cmdstr (g7command_list ! i)) (maxlen - 1)))"

definition get_devcmd :: "nat \<Rightarrow> nat \<Rightarrow> string option" where
  "get_devcmd idx maxlen =
     (if idx < length g7command_list
      then Some (strncpy0 (cmdstr (g7command_list ! idx)) (maxlen - 1)) else None)"

section \<open>Readable text of a reply\<close>

text \<open>The return code and the text.\<close>

definition translate_cmd_argval_to_string ::
  "string \<Rightarrow> nat \<Rightarrow> string \<Rightarrow> nat \<Rightarrow> int \<times> string" where
  "translate_cmd_argval_to_string cmdname argnum val maxlen =
     (case get_argidx_for_srvcmd cmdname of
        None \<Rightarrow> (0, fst (xstrlcpy val maxlen))
      | Some argidx \<Rightarrow>
          let args = cmdargs_list ! argidx in
          if numargs args \<le> argnum then (-1, [])
          else let arg = argl args ! argnum in
            if argtype arg = ARGT_SELECT then
              (let i = find_idx (\<lambda>s. strcmp val (fst s) = 0) (take (nsel arg) (argselect arg)) in
               if i = nsel arg then (-1, fst (xstrlcpy val maxlen))
               else (0, fst (xstrlcpy (snd (argselect arg ! i)) maxlen)))
            else (0, fst (xstrlcpy val maxlen)))"

definition cmd_test_reply_to_text :: "string \<Rightarrow> nat \<Rightarrow> (int \<times> string) option" where
  "cmd_test_reply_to_text strval maxlen =
     (case c_at strval 0 of
        None \<Rightarrow> None
      | Some c \<Rightarrow>
          let val = (if byte c < 128 then int (byte c) else int (byte c) - 256) - 48 in
          Some (if val < 0 \<or> 3 < val then (-1, [])
                else (0, snprintf maxlen
                  (if val = 0 then ''PASS'' else if val = 1 then ''GSM Failure''
                   else if val = 2 then ''GPS Failure'' else ''GSM and GPS failure''))))"

text \<open>One line of the table of arguments, \<^verbatim>\<open>"%16s: %s\n"\<close>.\<close>

definition arg_line :: "string \<Rightarrow> string \<Rightarrow> string" where
  "arg_line label txt = pad_left 16 label @ '': '' @ txt @ [LF]"

text \<open>The text of one field, \<open>None\<close> if the argument type or the selected value is unknown.\<close>

definition arg_text :: "cmdarg \<Rightarrow> string \<Rightarrow> string option" where
  "arg_text arg fld =
     (if argtype arg \<in> {ARGT_BOOL, ARGT_INT, ARGT_FLOAT, ARGT_STRING} then Some fld
      else if argtype arg = ARGT_SELECT then
        (let j = find_idx (\<lambda>s. strcmp (fst s) fld = 0) (take (nsel arg) (argselect arg)) in
         if nsel arg \<le> j then None else Some (snd (argselect arg ! j)))
      else None)"

text \<open>The loop over the arguments: return code and the text so far.\<close>

fun args_to_text :: "nat \<Rightarrow> cmdarg list \<Rightarrow> string list \<Rightarrow> string \<Rightarrow> int \<times> string" where
  "args_to_text maxlen (a # as) (f # fs) str =
     (case arg_text a f of
        None \<Rightarrow> (-1, str)
      | Some t \<Rightarrow> args_to_text maxlen as fs (fst (xvstrncat str maxlen (arg_line (arglabel a) t))))"
| "args_to_text maxlen _ _ str = (0, str)"

definition cmdarg_to_text_string :: "nat \<Rightarrow> string \<Rightarrow> string list \<Rightarrow> int \<times> string" where
  "cmdarg_to_text_string maxlen devcmd flds =
     (case get_srvcmd_from_devcmd devcmd 15 of
        None \<Rightarrow> (-1, [])
      | Some srv \<Rightarrow>
          let idx = find_idx (\<lambda>a. strcmp srv (a_srvcmd a) = 0) cmdargs_list in
          if length cmdargs_list \<le> idx then (0, [])
          else let cmdidx = find_idx (\<lambda>c. strcmp srv (srvcmd c) = 0) g7command_list in
            if length g7command_list \<le> cmdidx then (0, [])
            else if cmd_type (g7command_list ! cmdidx) = CMD_TYPE_GETSET_BINARY then
              (if length flds = 1
               then (0, snprintf maxlen
                      (LF # arg_line ''Status''
                        (if flds ! 0 \<noteq> [] \<and> hd (flds ! 0) = CHR ''1'' then ''On'' else ''Off'')))
               else (-1, []))
            else if length flds \<noteq> numargs (cmdargs_list ! idx) then (-1, [])
            else args_to_text maxlen (take (numargs (cmdargs_list ! idx)) (argl (cmdargs_list ! idx)))
                   flds (snprintf maxlen [LF]))"

text \<open>The text written to the client and the return code.\<close>

definition cmdarg_to_text :: "string \<Rightarrow> string list \<Rightarrow> string \<times> int" where
  "cmdarg_to_text devcmd flds =
     (case cmdarg_to_text_string 1025 devcmd flds of (rc, str) \<Rightarrow> (str, rc))"

lemma srvcmds: "map srvcmd g7command_list =
  [''roam'', ''phone'', ''led'', ''gfen'', ''sleep'', ''loc'', ''locg'', ''imei'', ''sim'', ''ver'',
   ''nrec'', ''batt'', ''track'', ''mswitch'', ''tz'', ''sms'', ''comm'', ''vip'', ''ps'', ''config'',
   ''gfevt'', ''rec'', ''lowbatt'', ''sens'', ''clrec'', ''dlrec'', ''reboot'', ''reset'', ''test'',
   ''address'']"
  by (simp add: g7command_list_def)

lemma cmdstrs: "map cmdstr g7command_list =
  [''ROAMING'', ''VLOCATION'', ''ELED'', ''GFEN'', ''SLEEP'', ''GETLOCATION'', ''GETLOCATION'',
   ''IMEI'', ''SIMID'', ''VER'', ''DLREC'', ''XXXX'', ''TRACK'', ''SETRA'', ''SETTZ'', ''SMSM'',
   ''COMMTYPE'', ''SETVIP'', ''PSMT'', ''UNCFG'', ''SETEVT'', ''REC'', ''LOWBATT'', ''GSS'',
   ''CLREC'', ''DLREC'', ''REBOOT'', ''RESET'', ''TEST'', ''GETADDRESS'']"
  by (simp add: g7command_list_def)

lemma length_g7command_list [simp]: "length g7command_list = 30"
  by (simp add: g7command_list_def)

lemma length_cmdargs_list [simp]: "length cmdargs_list = 17"
  by (simp add: cmdargs_list_def)

lemmas args_defs = args_sleep_def args_roam_def args_phone_def args_led_def args_mswitch_def
  args_lowbatt_def args_sms_def args_sens_def args_tz_def args_gfen_def args_track_def args_comm_def
  args_ps_def args_config_def args_vip_def args_gfevt_def args_rec_def

lemma a_srvcmds: "map a_srvcmd cmdargs_list =
  [''sleep'', ''roam'', ''phone'', ''led'', ''mswitch'', ''lowbatt'', ''sms'', ''sens'', ''tz'',
   ''gfen'', ''track'', ''comm'', ''ps'', ''config'', ''vip'', ''gfevt'', ''rec'']"
  by (simp add: cmdargs_list_def args_defs)

lemma lower_names: "list_all (\<lambda>s. map tolower s = s) (map srvcmd g7command_list)"
  "list_all (\<lambda>s. map tolower s = s) (map a_srvcmd cmdargs_list)"
  unfolding srvcmds a_srvcmds by (simp_all add: tolower_eval)

definition is_lower :: "char \<Rightarrow> bool" where
  "is_lower c \<longleftrightarrow> 97 \<le> byte c \<and> byte c \<le> 122"

lemma upper_names: "list_all (list_all (\<lambda>c. \<not> is_lower c)) (map cmdstr g7command_list)"
  unfolding cmdstrs by (simp add: is_lower_def)

lemma distinct_srvcmds: "distinct (map srvcmd g7command_list)"
  unfolding srvcmds by simp

lemma short_names: "list_all (\<lambda>s. length s < 15) (map srvcmd g7command_list)"
  "list_all (\<lambda>s. length s < 15) (map cmdstr g7command_list)"
  "list_all (\<lambda>s. length s < 15) (map a_srvcmd cmdargs_list)"
  unfolding srvcmds cmdstrs a_srvcmds by simp_all

lemma tolower_inj_not_lower:
  assumes "\<not> is_lower c" "\<not> is_lower d" "tolower c = tolower d"
  shows "c = d"
proof -
  have b: "byte (tolower c) = (if 65 \<le> byte c \<and> byte c \<le> 90 then byte c + 32 else byte c)" for c
    by (auto simp: tolower_def)
  have "byte (tolower c) = byte (tolower d)" using assms(3) by simp
  with assms(1,2) have "byte c = byte d"
    unfolding b is_lower_def by (simp split: if_splits)
  then show ?thesis by simp
qed

lemma map_tolower_inj_not_lower:
  "list_all (\<lambda>c. \<not> is_lower c) s \<Longrightarrow> list_all (\<lambda>c. \<not> is_lower c) t \<Longrightarrow>
   map tolower s = map tolower t \<Longrightarrow> s = t"
proof (induction s arbitrary: t)
  case (Cons c s)
  from Cons.prems(3) obtain d u where t: "t = d # u" by (cases t) auto
  have "c = d" by (rule tolower_inj_not_lower) (use Cons.prems t in simp_all)
  moreover have "s = u" using Cons.prems unfolding t by (intro Cons.IH) simp_all
  ultimately show ?case by (simp add: t)
qed simp

lemma nth_all: "list_all P (map f xs) \<Longrightarrow> i < length xs \<Longrightarrow> P (f (xs ! i))"
  by (simp add: list_all_length)

lemmas srvcmd_lower = nth_all [OF lower_names(1), simplified]
lemmas srvcmd_short = nth_all [OF short_names(1), simplified]
lemmas cmdstr_short = nth_all [OF short_names(2), simplified]
lemmas cmdstr_upper = nth_all [OF upper_names, simplified]

lemma srvcmd_inj: "i < 30 \<Longrightarrow> j < 30 \<Longrightarrow> srvcmd (g7command_list ! i) = srvcmd (g7command_list ! j) \<Longrightarrow> i = j"
  using distinct_srvcmds nth_eq_iff_index_eq [of "map srvcmd g7command_list" i j] by simp

lemma get_cmdidx_from_srvcmd_Some:
  assumes "map tolower cmdname = srvcmd (g7command_list ! i)" and "i < 30"
  shows "get_cmdidx_from_srvcmd cmdname = Some i"
proof -
  have len: "length cmdname < 15"
    using assms srvcmd_short [of i] by (metis length_map)
  have "find_idx (\<lambda>c. xstricmp cmdname (srvcmd c) = 0) g7command_list = i"
  proof (rule find_idx_eqI)
    show "xstricmp cmdname (srvcmd (g7command_list ! i)) = 0"
      using assms len srvcmd_lower [of i] srvcmd_short [of i] by (simp add: xstricmp_eq_0)
    show "\<not> xstricmp cmdname (srvcmd (g7command_list ! j)) = 0" if "j < i" for j
      using that assms srvcmd_lower [of j] srvcmd_inj [of i j] by (auto simp: xstricmp_eq_0)
  qed (use assms in simp)
  then show ?thesis using assms(2) by (simp add: get_cmdidx_from_srvcmd_def)
qed

lemma get_srvcmd_from_devcmd_same:
  assumes "i < 30"
  shows "\<exists>j < 30. get_srvcmd_from_devcmd (cmdstr (g7command_list ! i)) 15 = Some (srvcmd (g7command_list ! j))
     \<and> cmdstr (g7command_list ! j) = cmdstr (g7command_list ! i)"
proof -
  let ?P = "\<lambda>c. xstricmp (cmdstr (g7command_list ! i)) (cmdstr c) = 0" and ?l = g7command_list
  have "?P (?l ! i)" using assms cmdstr_short [of i] by (simp add: xstricmp_eq_0)
  then have lt: "find_idx ?P ?l < length ?l"
    unfolding find_idx_less_iff using assms nth_mem [of i ?l] by auto
  have "map tolower (cmdstr (?l ! i)) = map tolower (cmdstr (?l ! find_idx ?P ?l))"
    using xstricmp_eq_0 [THEN iffD1, OF find_idx_sat [OF lt]] by blast
  then have "cmdstr (?l ! i) = cmdstr (?l ! find_idx ?P ?l)"
    using map_tolower_inj_not_lower [OF cmdstr_upper cmdstr_upper] assms lt by simp
  moreover have "get_srvcmd_from_devcmd (cmdstr (?l ! i)) 15 = Some (srvcmd (?l ! find_idx ?P ?l))"
    using lt srvcmd_short [of "find_idx ?P ?l"] by (simp add: get_srvcmd_from_devcmd_def Let_def)
  ultimately show ?thesis using lt by auto
qed

text \<open>The argument table: what its readers rely on.\<close>

definition arg_wf :: "cmdarg \<Rightarrow> bool" where
  "arg_wf a \<longleftrightarrow> argtype a \<le> ARGT_STRING \<and> nsel a \<le> length (argselect a)
     \<and> distinct (map fst (argselect a)) \<and> (argtype a = ARGT_SELECT \<longleftrightarrow> 0 < nsel a)"

definition cmdargs_wf :: "cmdargs \<Rightarrow> bool" where
  "cmdargs_wf as \<longleftrightarrow> numargs as = length (argl as) \<and> numargs as \<le> 15 \<and> list_all arg_wf (argl as)"

lemma cmdargs_list_wf: "list_all cmdargs_wf cmdargs_list"
  by (simp add: cmdargs_list_def args_defs cmdargs_wf_def arg_wf_def)

lemma settable_names: "map srvcmd (filter (\<lambda>c. cmdhandler c = H_set \<or> cmdhandler c = H_binary) g7command_list) =
  [''roam'', ''phone'', ''led'', ''gfen'', ''sleep'', ''track'', ''mswitch'', ''tz'', ''sms'', ''comm'',
   ''vip'', ''ps'', ''config'', ''gfevt'', ''rec'', ''lowbatt'', ''sens'']"
  by (simp add: g7command_list_def)

lemma settable_have_args:
  assumes "c \<in> set g7command_list" "cmdhandler c = H_set \<or> cmdhandler c = H_binary"
  shows "srvcmd c \<in> set (map a_srvcmd cmdargs_list)"
proof -
  have "srvcmd c \<in> set (map srvcmd (filter (\<lambda>c. cmdhandler c = H_set \<or> cmdhandler c = H_binary) g7command_list))"
    using assms by auto
  then show ?thesis unfolding settable_names a_srvcmds by auto
qed

lemma args_to_text_rc:
  "length as = length fs \<Longrightarrow>
   fst (args_to_text m as fs str) = (if list_all2 (\<lambda>a f. arg_text a f \<noteq> None) as fs then 0 else -1)"
  by (induction m as fs str rule: args_to_text.induct) (auto split: option.splits)

lemma arg_text_None:
  "arg_wf a \<Longrightarrow> arg_text a f = None \<longleftrightarrow>
     argtype a = ARGT_SELECT \<and> f \<notin> fst ` set (take (nsel a) (argselect a))"
proof -
  assume "arg_wf a"
  then have "argtype a \<in> {0, 1, 2, 3, 4}" "length (take (nsel a) (argselect a)) = nsel a"
    by (auto simp: arg_wf_def)
  moreover have "nsel a \<le> find_idx (\<lambda>s. strcmp (fst s) f = 0) (take (nsel a) (argselect a)) \<longleftrightarrow>
      f \<notin> fst ` set (take (nsel a) (argselect a))"
    using find_idx_ge_iff [of "take (nsel a) (argselect a)" "\<lambda>s. strcmp (fst s) f = 0"] calculation(2)
    by (auto simp: image_iff)
  ultimately show ?thesis by (auto simp: arg_text_def Let_def)
qed

lemma get_argidx_settable:
  assumes "i < 30" "cmdhandler (g7command_list ! i) = H_set \<or> cmdhandler (g7command_list ! i) = H_binary"
  shows "\<exists>k < 17. get_argidx_for_cmdidx i = Some k \<and> a_srvcmd (cmdargs_list ! k) = srvcmd (g7command_list ! i)"
proof -
  let ?n = "srvcmd (g7command_list ! i)"
  let ?P = "\<lambda>a. xstricmp ?n (a_srvcmd a) = 0" and ?l = cmdargs_list
  have "?n \<in> set (map a_srvcmd ?l)" using assms by (intro settable_have_args) auto
  then obtain a where a: "a \<in> set ?l" "a_srvcmd a = ?n" by auto
  then have "?P a" using srvcmd_short [of i] assms(1) by (simp add: xstricmp_eq_0)
  with a(1) have lt: "find_idx ?P ?l < length ?l" unfolding find_idx_less_iff by blast
  have "map tolower ?n = map tolower (a_srvcmd (?l ! find_idx ?P ?l))"
    using xstricmp_eq_0 [THEN iffD1, OF find_idx_sat [OF lt]] by blast
  then have "?n = a_srvcmd (?l ! find_idx ?P ?l)"
    using srvcmd_lower [of i] assms(1) nth_all [OF lower_names(2) lt] by simp
  with lt show ?thesis by (simp add: get_argidx_for_cmdidx_def Let_def)
qed

lemma distinct_a_srvcmds: "distinct (map a_srvcmd cmdargs_list)"
  unfolding a_srvcmds by simp

lemma find_idx_key:
  assumes "i < length xs" "distinct (map f xs)"
  shows "find_idx (\<lambda>x. strcmp (f (xs ! i)) (f x) = 0) xs = i"
proof (rule find_idx_eqI)
  show "\<not> strcmp (f (xs ! i)) (f (xs ! j)) = 0" if "j < i" for j
    using assms that nth_eq_iff_index_eq [of "map f xs" i j] by auto
qed (use assms in auto)

text \<open>The return code of the translation, for a command with arguments that is not binary.\<close>

lemma cmdarg_to_text_string_rc:
  assumes srv: "get_srvcmd_from_devcmd devcmd 15 = Some (srvcmd (g7command_list ! i))" and "i < 30"
    and k: "k < 17" "a_srvcmd (cmdargs_list ! k) = srvcmd (g7command_list ! i)"
    and "cmd_type (g7command_list ! i) \<noteq> CMD_TYPE_GETSET_BINARY"
  shows "fst (cmdarg_to_text_string maxlen devcmd flds) =
     (if list_all2 (\<lambda>a f. arg_text a f \<noteq> None) (argl (cmdargs_list ! k)) flds then 0 else -1)"
proof -
  have ki: "find_idx (\<lambda>a. strcmp (srvcmd (g7command_list ! i)) (a_srvcmd a) = 0) cmdargs_list = k"
    using find_idx_key [of k cmdargs_list a_srvcmd] k distinct_a_srvcmds by simp
  have ii: "find_idx (\<lambda>c. strcmp (srvcmd (g7command_list ! i)) (srvcmd c) = 0) g7command_list = i"
    using find_idx_key [of i g7command_list srvcmd] assms(2) distinct_srvcmds by simp
  have "cmdargs_wf (cmdargs_list ! k)"
    using cmdargs_list_wf k(1) by (simp add: list_all_length)
  then have na: "numargs (cmdargs_list ! k) = length (argl (cmdargs_list ! k))"
    by (simp add: cmdargs_wf_def)
  show ?thesis
    unfolding cmdarg_to_text_string_def srv using assms(2,5) k(1) args_to_text_rc [of "argl (cmdargs_list ! k)" flds]
    by (auto simp: ki ii na dest: list_all2_lengthD simp del: strcmp_eq_0)
qed

section \<open>Properties\<close>

text \<open>
  A command name typed by the user, in any mixture of upper and lower case, is resolved to its
  own row of the command table, and the row's device command is the one the name is translated to;
  the arguments of every command that can be set are found under the same name.
\<close>

theorem cmd_name_lookup:
  assumes "i < length g7command_list" and "map tolower name = srvcmd (g7command_list ! i)"
  shows "get_cmdidx_from_srvcmd name = Some i \<and>
     get_devcmd_from_srvcmd name 16 = Some (cmdstr (g7command_list ! i)) \<and>
     (cmdhandler (g7command_list ! i) \<in> {H_set, H_binary} \<longrightarrow>
        (\<exists>k. get_argidx_for_srvcmd name = Some k \<and>
             a_srvcmd (cmdargs_list ! k) = srvcmd (g7command_list ! i)))"
proof -
  have i: "i < 30" using assms(1) by simp
  note c = get_cmdidx_from_srvcmd_Some [OF assms(2) i]
  have "strncpy0 (cmdstr (g7command_list ! i)) 15 = cmdstr (g7command_list ! i)"
    using cmdstr_short [of i] i by simp
  with c get_argidx_settable [OF i] show ?thesis
    by (auto simp: get_devcmd_from_srvcmd_def get_argidx_for_srvcmd_def)
qed

theorem cmd_name_lookup_witness:
  "get_cmdidx_from_srvcmd ''GfEvt'' = Some 20 \<and> get_devcmd_from_srvcmd ''GfEvt'' 16 = Some ''SETEVT''"
  using cmd_name_lookup [of 20 "''GfEvt''"] by (simp add: g7command_list_def tolower_eval)

text \<open>
  C36: translating a device command to the user's name and back gives the same device command, for
  every row of the table, also for the device commands that several rows share.
\<close>

theorem devcmd_srvcmd_roundtrip:
  assumes "i < length g7command_list"
  shows "\<exists>srv. get_srvcmd_from_devcmd (cmdstr (g7command_list ! i)) 15 = Some srv \<and>
           get_devcmd_from_srvcmd srv 16 = Some (cmdstr (g7command_list ! i))"
proof -
  obtain j where j: "j < 30"
    "get_srvcmd_from_devcmd (cmdstr (g7command_list ! i)) 15 = Some (srvcmd (g7command_list ! j))"
    "cmdstr (g7command_list ! j) = cmdstr (g7command_list ! i)"
    using get_srvcmd_from_devcmd_same [of i] assms by auto
  have "get_cmdidx_from_srvcmd (srvcmd (g7command_list ! j)) = Some j"
    using j(1) srvcmd_lower [of j] by (intro get_cmdidx_from_srvcmd_Some) auto
  then have "get_devcmd_from_srvcmd (srvcmd (g7command_list ! j)) 16 = Some (cmdstr (g7command_list ! j))"
    using cmdstr_short [of j] j(1) by (simp add: get_devcmd_from_srvcmd_def)
  with j show ?thesis by simp
qed

theorem devcmd_srvcmd_roundtrip_witness:
  "\<exists>srv. get_srvcmd_from_devcmd ''DLREC'' 15 = Some srv \<and> get_devcmd_from_srvcmd srv 16 = Some ''DLREC''"
  using devcmd_srvcmd_roundtrip [of 25] by (simp add: g7command_list_def)

text \<open>
  The fields of a device reply are translated exactly when they fit the command. For a row of the
  argument table whose command is not a binary one, the translation of a reply of the device command
  succeeds if and only if there are as many fields as arguments and each field of a selection is one
  of the values the code looks at.
\<close>

theorem reply_translation_iff:
  assumes "i < length g7command_list" and "k < length cmdargs_list"
    and "a_srvcmd (cmdargs_list ! k) = srvcmd (g7command_list ! i)"
    and "get_srvcmd_from_devcmd devcmd 15 = Some (srvcmd (g7command_list ! i))"
    and "cmd_type (g7command_list ! i) \<noteq> CMD_TYPE_GETSET_BINARY"
  shows "snd (cmdarg_to_text devcmd flds) = 0 \<longleftrightarrow>
     list_all2 (\<lambda>a f. argtype a = ARGT_SELECT \<longrightarrow> f \<in> fst ` set (take (nsel a) (argselect a)))
       (argl (cmdargs_list ! k)) flds"
proof -
  have wf: "list_all arg_wf (argl (cmdargs_list ! k))"
    using cmdargs_list_wf assms(2) by (simp add: list_all_length [of cmdargs_wf] cmdargs_wf_def)
  have "list_all2 (\<lambda>a f. arg_text a f \<noteq> None) (argl (cmdargs_list ! k)) flds \<longleftrightarrow>
      list_all2 (\<lambda>a f. argtype a = ARGT_SELECT \<longrightarrow> f \<in> fst ` set (take (nsel a) (argselect a)))
       (argl (cmdargs_list ! k)) flds"
    using wf by (auto simp: list_all2_conv_all_nth list_all_length arg_text_None simp del: not_None_eq)
  moreover have "snd (cmdarg_to_text devcmd flds) = fst (cmdarg_to_text_string 1025 devcmd flds)"
    by (simp add: cmdarg_to_text_def split: prod.splits)
  ultimately show ?thesis
    using cmdarg_to_text_string_rc [OF assms(4) _ _ assms(3,5), of 1025 flds] assms(1,2) by simp
qed

theorem reply_translation_iff_witness:
  "snd (cmdarg_to_text ''SMSM'' [''1'']) = 0 \<and> snd (cmdarg_to_text ''SMSM'' [''2'']) \<noteq> 0"
proof -
  have "get_srvcmd_from_devcmd ''SMSM'' 15 = Some ''sms''"
    by (simp add: get_srvcmd_from_devcmd_def g7command_list_def xstricmp_eq_0 tolower_eval)
  then show ?thesis
    using reply_translation_iff [of 15 6 "''SMSM''" "[''1'']"] reply_translation_iff [of 15 6 "''SMSM''" "[''2'']"]
    by (simp add: g7command_list_def cmdargs_list_def args_sms_def)
qed

text \<open>
  The zone control of a GEO-fence event has three values in the table, but the code looks only at
  the first two: a reply with the value for \<^verbatim>\<open>Leaving zone\<close> is not translated.
\<close>

theorem gfevt_leaving_zone_unknown:
  "fst (cmdarg_to_text_string 1025 ''SETEVT''
     [''50'', ''1'', ''17.9'', ''59.3'', ''100'', ''2'', ''1'', ''0'']) = -1"
proof -
  have "get_srvcmd_from_devcmd ''SETEVT'' 15 = Some (srvcmd (g7command_list ! 20))"
    by (simp add: get_srvcmd_from_devcmd_def g7command_list_def xstricmp_eq_0 tolower_eval)
  moreover have "a_srvcmd (cmdargs_list ! 15) = srvcmd (g7command_list ! 20)"
    "cmd_type (g7command_list ! 20) \<noteq> CMD_TYPE_GETSET_BINARY"
    by (simp_all add: cmdargs_list_def args_gfevt_def g7command_list_def)
  ultimately show ?thesis
    by (simp add: cmdarg_to_text_string_rc [of _ 20 15])
      (simp add: cmdargs_list_def args_gfevt_def arg_text_def)
qed

text \<open>
  The command \<^verbatim>\<open>sleep\<close> is listed as binary although it has three message modes; a device that
  reports mode 2, \<^verbatim>\<open>Send back message\<close>, is shown as switched off.
\<close>

theorem sleep_mode_shown_as_off:
  "cmdarg_to_text_string 1025 ''SLEEP'' [''2''] = (0, LF # arg_line ''Status'' ''Off'') \<and>
   snd (translate_cmd_argval_to_string ''sleep'' 0 ''2'' 100) = ''Send back message''"
proof -
  have "get_srvcmd_from_devcmd ''SLEEP'' 15 = Some ''sleep''"
    by (simp add: get_srvcmd_from_devcmd_def g7command_list_def xstricmp_eq_0 tolower_eval)
  then have "cmdarg_to_text_string 1025 ''SLEEP'' [''2''] = (0, LF # arg_line ''Status'' ''Off'')"
    by (simp add: cmdarg_to_text_string_def cmdargs_list_def args_sleep_def g7command_list_def
        arg_line_def pad_left_def)
  moreover have "get_argidx_for_srvcmd ''sleep'' = Some 0"
    by (simp add: get_argidx_for_srvcmd_def get_cmdidx_from_srvcmd_def get_argidx_for_cmdidx_def
        g7command_list_def cmdargs_list_def args_sleep_def xstricmp_eq_0 tolower_eval)
  then have "snd (translate_cmd_argval_to_string ''sleep'' 0 ''2'' 100) = ''Send back message''"
    by (simp add: translate_cmd_argval_to_string_def cmdargs_list_def args_sleep_def)
  ultimately show ?thesis by simp
qed

text \<open>
  The command table and the argument table fit together. Every command whose handler asks for arguments
  is of a type that can be set and read, has both modes, and has an entry of the argument table whose number of
  arguments is right and whose arguments have a known type and complete lists of values; a command that can only be
  read has no write mode, and one that can only be executed has the write mode.
\<close>

theorem command_tables_typed:
  assumes "i < length g7command_list"
  shows "(cmdhandler (g7command_list ! i) \<in> {H_set, H_binary} \<longleftrightarrow>
      cmd_type (g7command_list ! i) \<in> {CMD_TYPE_GETSET, CMD_TYPE_GETSET_BINARY}) \<and>
    (cmdhandler (g7command_list ! i) \<in> {H_set, H_binary} \<longrightarrow>
      modes (g7command_list ! i) = CMD_MODE_RW \<and>
      (\<exists>k. get_argidx_for_cmdidx i = Some k \<and> k < length cmdargs_list \<and> cmdargs_wf (cmdargs_list ! k))) \<and>
    (cmd_type (g7command_list ! i) = CMD_TYPE_GET \<longrightarrow> modes (g7command_list ! i) = CMD_MODE_R) \<and>
    (cmd_type (g7command_list ! i) = CMD_TYPE_DO \<longrightarrow> modes (g7command_list ! i) = CMD_MODE_W)"
proof -
  have "list_all (\<lambda>c. (cmdhandler c \<in> {H_set, H_binary} \<longleftrightarrow> cmd_type c \<in> {CMD_TYPE_GETSET, CMD_TYPE_GETSET_BINARY}) \<and>
      (cmdhandler c \<in> {H_set, H_binary} \<longrightarrow> modes c = CMD_MODE_RW) \<and> (cmd_type c = CMD_TYPE_GET \<longrightarrow> modes c = CMD_MODE_R) \<and>
      (cmd_type c = CMD_TYPE_DO \<longrightarrow> modes c = CMD_MODE_W)) g7command_list"
    by (simp add: g7command_list_def)
  moreover have "\<exists>k. get_argidx_for_cmdidx i = Some k \<and> k < length cmdargs_list \<and> cmdargs_wf (cmdargs_list ! k)"
    if "cmdhandler (g7command_list ! i) = H_set \<or> cmdhandler (g7command_list ! i) = H_binary"
  proof -
    note set = that
    have i: "i < 30" using assms by simp
    obtain k where k: "k < 17" "get_argidx_for_cmdidx i = Some k" using get_argidx_settable [OF i set] by blast
    have len: "length cmdargs_list = 17" by (simp add: cmdargs_list_def)
    with k have "cmdargs_wf (cmdargs_list ! k)" using cmdargs_list_wf by (simp add: list_all_length)
    with k len show ?thesis by auto
  qed
  ultimately show ?thesis using assms by (auto simp: list_all_length)
qed

theorem command_tables_typed_witness:
  "\<exists>k. get_argidx_for_cmdidx 4 = Some k \<and> k < length cmdargs_list \<and> cmdargs_wf (cmdargs_list ! k)"
  using command_tables_typed [of 4] by (simp add: g7command_list_def)

end
