(* ===== verification/Sendcmd.thy ===== *)
theory Sendcmd
  imports Cmdqueue Cmdtable
begin

text \<open>
  Sending a command to a device and handling its reply (\<^verbatim>\<open>src/src/g7sendcmd.c\<close>): the parser of the
  device replies, the choice of the target device of a client, the two transports (GPRS through the
  command queue, USB through a serial port) and the queries built on them. The result \<open>None\<close> of an
  operation is undefined behaviour: a read past the end of a string, a write past the end of a buffer
  or the use of an uninitialised value. Text written to the socket of the client is returned as a list
  of strings, before the optional HTML encoding of \<open>_writef\<close>.
\<close>

section \<open>Clients\<close>

text \<open>\<open>struct client_info\<close>; \<open>cli_thread\<close> is 0 for an unused entry.\<close>

record client_info =
  cli_ts :: int
  cli_socket :: int
  cli_ipadr :: string
  cli_thread :: nat
  cli_is_cmdconn :: bool
  target_socket :: int
  target_deviceid :: u32
  target_cli_idx :: int
  target_usb_idx :: int
  use_unicode_table :: bool
  cli_devid :: u32

text \<open>What the code of this file shares between the threads.\<close>

record daemon =
  d_cmdq :: cmdq_state
  d_tagnbr :: "16 word"
  d_clients :: "client_info list"

definition writef :: "int \<Rightarrow> string \<Rightarrow> string list" where
  "writef fd txt = (if 0 \<le> fd then [txt] else [])"

definition DEVICE_REPLY_PROMPT :: string where "DEVICE_REPLY_PROMPT = ''[GM7] ''"

section \<open>Parsing a reply\<close>

text \<open>
  The loop \<^verbatim>\<open>while (max-- > 0 && !stop(*pp)) ++pp\<close>: the offset reached and the value of \<open>max\<close>
  afterwards, which has wrapped around when the loop ended because \<open>max\<close> was 0.
\<close>

fun scan_stop :: "(char \<Rightarrow> bool) \<Rightarrow> nat \<Rightarrow> nat \<Rightarrow> string \<Rightarrow> (nat \<times> nat) option" where
  "scan_stop stop 0 i s = Some (i, SIZE_MOD - 1)"
| "scan_stop stop (Suc mx) i s =
     (case c_at s i of
        None \<Rightarrow> None
      | Some c \<Rightarrow> if stop c then Some (i, mx) else scan_stop stop mx (Suc i) s)"

text \<open>
  \<open>isok\<close>, command, tag and fields of a reply. \<open>Some None\<close> is the return code -1. \<open>cmdsz\<close> and
  \<open>tagsz\<close> are the sizes of the buffers the caller passes.
\<close>

type_synonym devreply = "bool \<times> string \<times> string \<times> string list"

definition reply_fields :: "bool \<Rightarrow> string \<Rightarrow> string \<Rightarrow> string \<Rightarrow> devreply option" where
  "reply_fields isok cmd tag p =
     (case (case p of
              [] \<Rightarrow> Some []
            | c # q \<Rightarrow>
                if c \<noteq> CR \<and> c \<noteq> LF then
                  (case xstrsplitfields q (CHR '','') of (rc, flds) \<Rightarrow>
                     if rc \<noteq> 0 then None else Some flds)
                else Some []) of
        None \<Rightarrow> None
      | Some flds \<Rightarrow> if \<not> isok \<and> length flds \<noteq> 1 then None else Some (isok, cmd, tag, flds))"

definition reply_tag :: "nat \<Rightarrow> bool \<Rightarrow> string \<Rightarrow> string \<Rightarrow> devreply option option" where
  "reply_tag tagsz isok cmd p =
     (case scan_stop (\<lambda>c. c = CHR ''='' \<or> c = CR \<or> c = LF) 7 0 p of
        None \<Rightarrow> None
      | Some (j, mx) \<Rightarrow>
          if mx = 0 then Some None
          else if tagsz < j + 1 \<or> length p < j then None
          else Some (reply_fields isok cmd (take j p) (drop j p)))"

definition reply_body :: "nat \<Rightarrow> nat \<Rightarrow> bool \<Rightarrow> string \<Rightarrow> devreply option option" where
  "reply_body cmdsz tagsz isok p =
     (case scan_stop (\<lambda>c. c = CHR ''+'' \<or> c = CHR ''='') 14 0 p of
        None \<Rightarrow> None
      | Some (i, mx) \<Rightarrow>
          if mx = 0 then Some None
          else if cmdsz < i + 1 then None
          else case c_at p i of
            None \<Rightarrow> None
          | Some c \<Rightarrow>
              if c = CHR ''+'' \<and> i = 0 then Some None
              else if c = CHR ''+'' then reply_tag tagsz isok (take i p) (drop (Suc i) p)
              else Some (reply_fields isok (take i p) [] (drop i p)))"

definition extract_devcmd_reply :: "nat \<Rightarrow> nat \<Rightarrow> string \<Rightarrow> devreply option option" where
  "extract_devcmd_reply cmdsz tagsz raw =
     (case raw of
        [] \<Rightarrow> Some None
      | c # p \<Rightarrow>
          if c \<noteq> CHR ''$'' then Some None
          else if take 3 p = ''OK:'' then reply_body cmdsz tagsz True (drop 3 p)
          else if take 4 p = ''ERR:'' then
            (let q = drop 4 p in
             if q \<noteq> [] \<and> is_digit (hd q) then Some (Some (False, [], [], [[hd q]]))
             else reply_body cmdsz tagsz False q)
          else Some None)"

text \<open>Return code and the first field; the buffers here are \<open>cmd[14]\<close> and \<open>tag[7]\<close>.\<close>

definition extract_devcmd_reply_first_field :: "string \<Rightarrow> nat \<Rightarrow> (int \<times> string) option" where
  "extract_devcmd_reply_first_field raw maxreply =
     (case extract_devcmd_reply 14 7 raw of
        None \<Rightarrow> None
      | Some None \<Rightarrow> Some (-1, [])
      | Some (Some (isok, _, _, flds)) \<Rightarrow>
          if \<not> isok then Some (-1, [])
          else if flds = [] then Some (0, [])
          else case xmb_strncpy (hd flds) maxreply of
            None \<Rightarrow> None
          | Some r \<Rightarrow>
              if length r < 2 then None
              else if r ! (length r - 2) = CR \<and> r ! (length r - 1) = LF
              then Some (0, take (length r - 2) r) else Some (0, r))"

section \<open>Handling a reply\<close>

definition RESP_LEN :: nat where "RESP_LEN = 128"

text \<open>The fields joined again by commas.\<close>

definition join_resp :: "string list \<Rightarrow> string" where
  "join_resp flds =
     (case flds of
        [] \<Rightarrow> fst (xstrlcpy ''OK'' RESP_LEN)
      | f # fs \<Rightarrow> fold (\<lambda>g resp. fst (xstrlcat (fst (xstrlcat resp '','' RESP_LEN)) g RESP_LEN)) fs
                   (fst (xstrlcpy f RESP_LEN)))"

definition handle_ok_reply :: "bool \<Rightarrow> int \<Rightarrow> string \<Rightarrow> string list \<Rightarrow> string list" where
  "handle_ok_reply translateDeviceReply sockd cmdname flds =
     writef sockd (DEVICE_REPLY_PROMPT @ join_resp flds) @
     (if flds \<noteq> [] \<and> translateDeviceReply then
        (case cmdarg_to_text cmdname flds of (txt, rc) \<Rightarrow>
           writef sockd txt @
           (if rc \<noteq> 0 then writef sockd (LF # ''[ERR] Cannot parse device reply'') else []))
      else [])"

text \<open>The return code and what is written to the client.\<close>

definition handle_device_reply ::
  "bool \<Rightarrow> int \<Rightarrow> string \<Rightarrow> string \<Rightarrow> (int \<times> string list) option" where
  "handle_device_reply translateDeviceReply sockd reply tagbuff =
     (if reply \<noteq> [] \<and> hd reply = CHR ''3'' \<and> 60 < length reply
      then Some (0, writef sockd (DEVICE_REPLY_PROMPT @ reply))
      else case extract_devcmd_reply 16 7 reply of
        None \<Rightarrow> None
      | Some None \<Rightarrow>
          Some (-1, writef sockd (''[ERR] Incomplete reply from device '' @ quoted_text reply))
      | Some (Some (isok, cmdname, tag, flds)) \<Rightarrow>
          if strcmp tag tagbuff \<noteq> 0
          then Some (-1, writef sockd (''[ERR] Unexpected reply from device '' @ quoted_text reply))
          else if \<not> isok then
            (case flds of
               [] \<Rightarrow> None
             | f # _ \<Rightarrow>
                 let errcode = xatoi f in
                 Some (- (errcode + 1),
                       writef sockd (''[ERR] ( '' @ dec_int errcode @ '' : ''
                                     @ snd (device_strerr errcode) @ '' )'')))
          else Some (0, handle_ok_reply translateDeviceReply sockd cmdname flds))"

section \<open>The target of a client\<close>

text \<open>
  The loop over the client list: \<open>nbr\<close> devices seen so far, the index of the \<open>client_nbr\<close>-th
  device, or the length of the list.
\<close>

fun nth_device :: "int \<Rightarrow> int \<Rightarrow> client_info list \<Rightarrow> nat" where
  "nth_device client_nbr nbr [] = 0"
| "nth_device client_nbr nbr (c # cs) =
     (if cli_thread c \<noteq> 0 \<and> \<not> cli_is_cmdconn c then
        (if nbr + 1 = client_nbr then 0 else Suc (nth_device client_nbr (nbr + 1) cs))
      else Suc (nth_device client_nbr nbr cs))"

text \<open>The client afterwards, the return code and the text written.\<close>

definition set_gprs_device_target_by_index ::
  "client_info list \<Rightarrow> client_info \<Rightarrow> int \<Rightarrow> client_info \<times> int \<times> string list" where
  "set_gprs_device_target_by_index clients cli client_nbr =
     (let sockd = cli_socket cli in
      if client_nbr = -1 then
        (cli\<lparr>target_socket := -1, target_deviceid := 0, target_cli_idx := -1\<rparr>, 0,
         writef sockd ''Target reset to USB.'')
      else let idx = nth_device client_nbr 0 clients in
        if length clients \<le> idx then
          (cli, -1, writef sockd (''[ERR] Device number '' @ dec_int client_nbr @ '' does not exist.''))
        else let c = clients ! idx in
          (cli\<lparr>target_socket := cli_socket c, target_deviceid := cli_devid c,
               target_cli_idx := int idx\<rparr>, 0,
           writef sockd
             (if cli_devid c = 0
              then ''Target set to client '' @ dec_int client_nbr @ ''. Device ID not yet known.''
              else ''Target set to client '' @ dec_int client_nbr @ ''. Device id: ['' @
                   dec (unat (cli_devid c)) @ '']'')))"

text \<open>\<open>nick_devid\<close> is the query of the nick name table in the SQLite database.\<close>

definition set_gprs_device_target_by_nickname ::
  "(string \<Rightarrow> string option) \<Rightarrow> client_info list \<Rightarrow> client_info \<Rightarrow> string
     \<Rightarrow> client_info \<times> int \<times> string list" where
  "set_gprs_device_target_by_nickname nick_devid clients cli nickname =
     (let sockd = cli_socket cli in
      case nick_devid nickname of
        None \<Rightarrow> (cli, -1, writef sockd (''[ERR] Nick name '' @ quoted_text nickname @ '' does not exist''))
      | Some devid \<Rightarrow>
          let di = word_of_int (xatol devid) :: u32;
              idx = find_idx (\<lambda>c. di = cli_devid c) clients in
          if length clients \<le> idx then
            (cli, -1, writef sockd (''[ERR] Device with nick '' @ nickname @ '' (ID='' @ devid @
                       '') is not yet connected''))
          else
            (cli\<lparr>target_socket := cli_socket (clients ! idx), target_deviceid := di\<rparr>, 0,
             writef sockd (''Target set to tracker with device id: '' @ dec (unat di) @ '' ('' @
                       nickname @ '')'')))"

section \<open>The transports\<close>

text \<open>
  What the system calls return while a command is sent: the result of \<open>write\<close> on the GPRS socket,
  the clock at the insertion, the rounds of the polling loop, and for USB whether the port is
  connected, its device name, and the results of \<open>serial_open\<close>, \<open>serial_write\<close> and
  \<open>serial_read_line\<close>.
\<close>

record sysio =
  io_write :: "string \<Rightarrow> int"
  io_now :: int
  io_rounds :: "round list"
  io_usb_connected :: "int \<Rightarrow> bool"
  io_usb_devicename :: "int \<Rightarrow> string option"
  io_serial_open :: "string \<Rightarrow> int"
  io_serial_write :: "string \<Rightarrow> int"
  io_serial_read_line :: "string option"

text \<open>
  The result of a command: the daemon, the client, the return code, the reply stored for the caller
  (\<open>None\<close> if nothing was stored) and the text written to the client.
\<close>

type_synonym cmd_result = "daemon \<times> client_info \<times> int \<times> string option \<times> string list"

text \<open>The common end of both transports: drop the line end and hand the reply on.\<close>

definition finish_reply ::
  "bool \<Rightarrow> int \<Rightarrow> string \<Rightarrow> nat option \<Rightarrow> string \<Rightarrow> (int \<times> string option \<times> string list) option" where
  "finish_reply translateDeviceReply sockd tagbuff maxreply reply =
     (if length reply < 2 then None
      else if reply ! (length reply - 2) \<noteq> CR \<or> reply ! (length reply - 1) \<noteq> LF
      then Some (-1, None, writef sockd ''[ERR] Unknown device reply.'')
      else let r = take (length reply - 2) reply in
        (case handle_device_reply translateDeviceReply sockd r tagbuff of
           None \<Rightarrow> None
         | Some (rc, out) \<Rightarrow>
             Some (rc, (case maxreply of
                          Some m \<Rightarrow> if rc = 0 \<and> 0 < m then Some (snprintf m r) else None
                        | None \<Rightarrow> None), out)))"

text \<open>\<open>maxreply\<close> is \<open>None\<close> where the caller passes \<open>NULL\<close> for the reply buffer.\<close>

definition send_rawcmd_reply_over_gprs ::
  "bool \<Rightarrow> sysio \<Rightarrow> daemon \<Rightarrow> client_info \<Rightarrow> string \<Rightarrow> string \<Rightarrow> nat option \<Rightarrow> cmd_result option" where
  "send_rawcmd_reply_over_gprs translateDeviceReply io d cli cmd tagbuff maxreply =
     (let sockd = cli_socket cli;
          cmdbuff = snprintf 1024 (cmd @ [CR, LF]);
          found = list_ex (\<lambda>c. cli_devid c = target_deviceid cli \<and> cli_socket c = target_socket cli)
                    (d_clients d)
      in if \<not> found then
           (case set_gprs_device_target_by_index (d_clients d) cli (-1) of (cli', _, out) \<Rightarrow>
              Some (d, cli', -1, None, writef sockd ''[ERR] Device is no longer connected.'' @ out))
         else case cmdqueue_insert (io_now io) sockd (target_deviceid cli) tagbuff cmd (d_cmdq d) of (q, idx) \<Rightarrow>
           let d' = d\<lparr>d_cmdq := q\<rparr> in
           if idx < 0 then Some (d', cli, -1, None, [])
           else if io_write io cmdbuff \<noteq> int (length cmdbuff) then
             Some (d', cli, -1, None, writef sockd ''[ERR] Could not write to device.'')
           else case cmdqueue_check_reply (nat idx) 1024 (io_rounds io) q of
             None \<Rightarrow> None
           | Some (q', rc, reply) \<Rightarrow>
               let d'' = d\<lparr>d_cmdq := q'\<rparr> in
               if rc \<noteq> 0 then Some (d'', cli, -1, None, writef sockd ''[ERR] No reply from device.'')
               else (case finish_reply translateDeviceReply sockd tagbuff maxreply reply of
                       None \<Rightarrow> None
                     | Some (rc, rep, out) \<Rightarrow> Some (d'', cli, rc, rep, out)))"

definition send_rawcmd_reply_over_usb ::
  "bool \<Rightarrow> sysio \<Rightarrow> daemon \<Rightarrow> client_info \<Rightarrow> string \<Rightarrow> string \<Rightarrow> nat option \<Rightarrow> cmd_result option" where
  "send_rawcmd_reply_over_usb translateDeviceReply io d cli cmd tagbuff maxreply =
     (let sockd = cli_socket cli;
          cmdbuff = snprintf 1024 (cmd @ [CR, LF]);
          fail = (\<lambda>txt. Some (d, cli, -1, None, if txt = [] then [] else writef sockd txt))
      in if 0 \<le> sockd \<and> \<not> io_usb_connected io (target_usb_idx cli) then
           fail ''[ERR] Command not possible. Device not connected.''
         else case io_usb_devicename io (target_usb_idx cli) of
           None \<Rightarrow> fail []
         | Some device \<Rightarrow>
             if io_serial_open io device < 0 then
               fail (''[ERR] Failed to open communication with USB device with index = '' @
                     dec_int (to_int32 (target_usb_idx cli)))
             else if io_serial_write io cmdbuff = -1 then fail ''[ERR] Failed to write command to device''
             else case io_serial_read_line io of
               None \<Rightarrow> fail ''[ERR] Failed to read reply from device.''
             | Some reply \<Rightarrow>
                 if length reply \<le> 2 then fail ''[ERR] Unknown device reply.''
                 else (case finish_reply translateDeviceReply sockd tagbuff maxreply reply of
                         None \<Rightarrow> None
                       | Some (rc, rep, out) \<Rightarrow> Some (d, cli, rc, rep, out)))"

definition send_rawcmd_reply ::
  "bool \<Rightarrow> sysio \<Rightarrow> daemon \<Rightarrow> client_info \<Rightarrow> string \<Rightarrow> string \<Rightarrow> nat option \<Rightarrow> cmd_result option" where
  "send_rawcmd_reply translateDeviceReply io d cli cmd tagbuff maxreply =
     (if 0 < target_socket cli \<and> 0 \<le> target_cli_idx cli then
        send_rawcmd_reply_over_gprs translateDeviceReply io d cli cmd tagbuff maxreply
      else if 0 \<le> target_usb_idx cli then
        send_rawcmd_reply_over_usb translateDeviceReply io d cli cmd tagbuff maxreply
      else Some (d, cli, -1, None, []))"

definition send_rawcmd ::
  "bool \<Rightarrow> sysio \<Rightarrow> daemon \<Rightarrow> client_info \<Rightarrow> string \<Rightarrow> string \<Rightarrow> cmd_result option" where
  "send_rawcmd translateDeviceReply io d cli cmd tagbuff =
     send_rawcmd_reply translateDeviceReply io d cli cmd tagbuff None"

section \<open>Queries\<close>

text \<open>\<open>reply\<close> is what the buffer of the caller holds, before and afterwards.\<close>

definition send_cmdquery_reply ::
  "bool \<Rightarrow> sysio \<Rightarrow> daemon \<Rightarrow> client_info \<Rightarrow> string \<Rightarrow> string \<Rightarrow> nat
     \<Rightarrow> (daemon \<times> client_info \<times> int \<times> string) option" where
  "send_cmdquery_reply translateDeviceReply io d cli cmd reply maxreply =
     (case get_device_pin 16 of (prc, pin) \<Rightarrow>
      case pin of None \<Rightarrow> None | Some pinbuff \<Rightarrow>
      if prc = -1 then Some (d, cli, -1, reply) else
      case get_device_tag 16 (d_tagnbr d) of (t, trc, tagbuff) \<Rightarrow>
      let d = d\<lparr>d_tagnbr := t\<rparr> in
      if trc = -1 then Some (d, cli, -1, reply) else
      case get_devcmd_from_srvcmd cmd 16 of
        None \<Rightarrow> Some (d, cli, -1, reply)
      | Some rawcmd \<Rightarrow>
          let devcmd = snprintf 128 (''$WP+'' @ rawcmd @ ''+'' @ tagbuff @ ''='' @ pinbuff @
                         (if strcmp ''SETEVT'' rawcmd = 0 then '','' @ reply @ '',?'' else '',?''));
              old_sockd = cli_socket cli
          in case send_rawcmd_reply translateDeviceReply io d (cli\<lparr>cli_socket := -1\<rparr>) devcmd tagbuff
                    (Some maxreply) of
               None \<Rightarrow> None
             | Some (d', cli', rc, rep, _) \<Rightarrow>
                 Some (d', cli'\<lparr>cli_socket := old_sockd\<rparr>, if rc = -1 then -1 else 0,
                       case rep of None \<Rightarrow> [] | Some r \<Rightarrow> r))"

text \<open>The digits between \<^verbatim>\<open>=\<close> and \<^verbatim>\<open>(\<close> of the reply; at most six bytes are read.\<close>

fun read_digits :: "nat \<Rightarrow> string \<Rightarrow> string \<Rightarrow> string option" where
  "read_digits 0 p acc = Some acc"
| "read_digits (Suc n) [] acc = (if n = 0 then Some (acc @ [NUL]) else None)"
| "read_digits (Suc n) (c # p) acc = (if c = CHR ''('' then Some acc else read_digits n p (acc @ [c]))"

definition get_numrec ::
  "bool \<Rightarrow> sysio \<Rightarrow> daemon \<Rightarrow> client_info \<Rightarrow> (daemon \<times> client_info \<times> int \<times> int) option" where
  "get_numrec translateDeviceReply io d cli =
     (case send_cmdquery_reply translateDeviceReply io d cli ''DLREC'' [] 128 of
        None \<Rightarrow> None
      | Some (d, cli, rc, dlreply) \<Rightarrow>
          if rc = -1 then Some (d, cli, -1, 0)
          else if take 4 dlreply \<noteq> ''$OK:'' then Some (d, cli, -1, 0)
          else let dlptr = dropWhile (\<lambda>c. c \<noteq> CHR ''='') dlreply in
            if dlptr = [] then Some (d, cli, -1, 0)
            else case read_digits 6 (tl dlptr) [] of
              None \<Rightarrow> None
            | Some digits \<Rightarrow>
                if 6 \<le> length digits then Some (d, cli, -1, 0)
                else Some (d, cli, 0, xatoi (c_string digits)))"

definition get_devid ::
  "bool \<Rightarrow> sysio \<Rightarrow> daemon \<Rightarrow> client_info \<Rightarrow> (daemon \<times> client_info \<times> int \<times> u32 option) option" where
  "get_devid translateDeviceReply io d cli =
     (case send_cmdquery_reply translateDeviceReply io d cli ''CONFIG'' [] 48 of
        None \<Rightarrow> None
      | Some (d, cli, rc, config) \<Rightarrow>
          if rc = -1 then Some (d, cli, -1, None)
          else case extract_devcmd_reply_first_field config 32 of
            None \<Rightarrow> None
          | Some (rc, devid) \<Rightarrow>
              if rc = -1 then Some (d, cli, -1, None)
              else Some (d, cli, 0, Some (word_of_int (xatol devid))))"

section \<open>Well-formed replies\<close>

lemma scan_stop_found:
  "list_all (\<lambda>c. \<not> stop c) n \<Longrightarrow> stop c \<Longrightarrow> length n < mx \<Longrightarrow>
   scan_stop stop mx (length u) (u @ n @ c # r) = Some (length u + length n, mx - length n - 1)"
proof (induction n arbitrary: u mx)
  case Nil
  then obtain m where "mx = Suc m" by (cases mx) auto
  with Nil show ?case by (simp add: c_at_def nth_append)
next
  case (Cons d n)
  then obtain m where m: "mx = Suc m" by (cases mx) auto
  have "scan_stop stop m (length (u @ [d])) ((u @ [d]) @ n @ c # r)
      = Some (length (u @ [d]) + length n, m - length n - 1)"
    using Cons.prems m by (intro Cons.IH) auto
  with Cons.prems m show ?case by (simp add: c_at_def nth_append)
qed

lemmas scan_stop_found0 = scan_stop_found [where u = "[]", simplified]

text \<open>The end of the string stops nothing: it is read like any other byte, and then read over.\<close>

lemma scan_stop_long:
  "list_all (\<lambda>c. \<not> stop c) (take mx (drop i s)) \<Longrightarrow> i + mx \<le> length s \<Longrightarrow>
   scan_stop stop mx i s = Some (i + mx, SIZE_MOD - 1)"
proof (induction mx arbitrary: i)
  case (Suc mx)
  have "drop i s = s ! i # drop (Suc i) s" using Suc.prems by (simp add: Cons_nth_drop_Suc)
  with Suc show ?case by (simp add: c_at_def)
qed simp

text \<open>
  The texts a device sends: status, command, tag, fields. The command name and the tag are shorter
  than the bounds of the parser, the fields satisfy the bounds of the splitter.
\<close>

definition name_ok :: "string \<Rightarrow> bool" where
  "name_ok n \<longleftrightarrow> n \<noteq> [] \<and> length n < 13 \<and> list_all (\<lambda>c. c \<noteq> CHR ''+'' \<and> c \<noteq> CHR ''='') n"

definition tag_ok :: "string \<Rightarrow> bool" where
  "tag_ok t \<longleftrightarrow> length t < 6 \<and> list_all (\<lambda>c. c \<noteq> CHR ''='' \<and> c \<noteq> CR \<and> c \<noteq> LF) t"

definition flds_ok :: "string list \<Rightarrow> bool" where
  "flds_ok fs \<longleftrightarrow> fs \<noteq> [] \<and> list_all (\<lambda>f. CHR '','' \<notin> set f \<and> length f < MAX_FIELD_SIZE) fs \<and>
     0 < length (join_with (CHR '','') fs) \<and> length (join_with (CHR '','') fs) < 1024 \<and>
     length fs < MAX_SPLIT_FIELDS"

definition status_text :: "bool \<Rightarrow> string" where
  "status_text isok = (if isok then ''$OK:'' else ''$ERR:'')"

definition reply_text :: "bool \<Rightarrow> string \<Rightarrow> string \<Rightarrow> string list \<Rightarrow> string" where
  "reply_text isok cmd tag flds =
     status_text isok @ cmd @ ''+'' @ tag @
     (if flds = [] then [] else ''='' @ join_with (CHR '','') flds)"

lemma reply_fields_join:
  "flds_ok fs \<Longrightarrow> reply_fields isok cmd tag (CHR ''='' # join_with (CHR '','') fs) =
     (if isok \<or> length fs = 1 then Some (isok, cmd, tag, fs) else None)"
  by (simp add: reply_fields_def flds_ok_def xstrsplitfields_join)

lemma reply_body_name:
  assumes "name_ok cmd" and "length cmd < cmdsz"
  shows "reply_body cmdsz tagsz isok (cmd @ CHR ''+'' # p) = reply_tag tagsz isok cmd p"
    and "reply_body cmdsz tagsz isok (cmd @ CHR ''='' # p) = Some (reply_fields isok cmd [] (CHR ''='' # p))"
proof -
  have "list_all (\<lambda>c. \<not> (c = CHR ''+'' \<or> c = CHR ''='')) cmd"
    using assms(1) by (simp add: name_ok_def)
  note sc = scan_stop_found0 [OF this]
  show "reply_body cmdsz tagsz isok (cmd @ CHR ''+'' # p) = reply_tag tagsz isok cmd p"
    using assms sc [of "CHR ''+''" 14 p] by (simp add: reply_body_def name_ok_def c_at_def)
  show "reply_body cmdsz tagsz isok (cmd @ CHR ''='' # p) = Some (reply_fields isok cmd [] (CHR ''='' # p))"
    using assms sc [of "CHR ''=''" 14 p] by (simp add: reply_body_def name_ok_def c_at_def)
qed

lemma reply_tag_stop:
  assumes "tag_ok tag" and "length tag < tagsz" and "c = CHR ''='' \<or> c = CR \<or> c = LF"
  shows "reply_tag tagsz isok cmd (tag @ c # p) = Some (reply_fields isok cmd tag (c # p))"
proof -
  have "list_all (\<lambda>c. \<not> (c = CHR ''='' \<or> c = CR \<or> c = LF)) tag"
    using assms(1) by (simp add: tag_ok_def)
  from scan_stop_found0 [OF this assms(3), of 7 p] assms show ?thesis
    by (simp add: reply_tag_def tag_ok_def)
qed

lemma extract_status:
  assumes "name_ok cmd" and "isok \<or> \<not> is_digit (hd cmd)"
  shows "extract_devcmd_reply cmdsz tagsz (status_text isok @ cmd @ p) = reply_body cmdsz tagsz isok (cmd @ p)"
  using assms by (auto simp: extract_devcmd_reply_def status_text_def name_ok_def Let_def hd_append)

lemma extract_reply_text:
  assumes "name_ok cmd" "tag_ok tag" "flds_ok flds" "isok \<or> \<not> is_digit (hd cmd)"
    and "length cmd < cmdsz" "length tag < tagsz"
  shows "extract_devcmd_reply cmdsz tagsz (reply_text isok cmd tag flds) =
    Some (if isok \<or> length flds = 1 then Some (isok, cmd, tag, flds) else None)"
proof -
  have "flds \<noteq> []" using assms(3) by (simp add: flds_ok_def)
  then have "reply_text isok cmd tag flds =
      status_text isok @ cmd @ CHR ''+'' # tag @ CHR ''='' # join_with (CHR '','') flds"
    by (simp add: reply_text_def)
  then show ?thesis
    using assms by (simp add: extract_status reply_body_name(1) reply_tag_stop reply_fields_join del: One_nat_def)
qed

lemma extract_ok_text:
  assumes "name_ok cmd" "tag_ok tag" "flds_ok flds" and "length cmd < cmdsz" "length tag < tagsz"
  shows "extract_devcmd_reply cmdsz tagsz (reply_text True cmd tag flds) = Some (Some (True, cmd, tag, flds))"
  using extract_reply_text [OF assms(1-3) _ assms(4,5), of True] by simp

lemma extract_reply_crlf:
  assumes "name_ok cmd" "tag_ok tag" "length cmd < cmdsz" "length tag < tagsz"
  shows "extract_devcmd_reply cmdsz tagsz (reply_text True cmd tag [] @ [CR, LF]) = Some (Some (True, cmd, tag, []))"
  using assms
  by (simp add: reply_text_def extract_status reply_body_name(1) reply_tag_stop reply_fields_def)


section \<open>The target of a client\<close>

definition is_device :: "client_info \<Rightarrow> bool" where
  "is_device c \<longleftrightarrow> cli_thread c \<noteq> 0 \<and> \<not> cli_is_cmdconn c"

text \<open>The connected devices, by their index in the client list.\<close>

definition device_indices :: "client_info list \<Rightarrow> nat list" where
  "device_indices cs = filter (\<lambda>i. is_device (cs ! i)) [0..<length cs]"

lemma device_indices_Cons:
  "device_indices (c # cs) = (if is_device c then [0] else []) @ map Suc (device_indices cs)"
proof -
  have "filter (\<lambda>i. is_device ((c # cs) ! i)) (map Suc [0..<length cs])
      = map Suc (filter (\<lambda>i. is_device (cs ! i)) [0..<length cs])"
    by (simp add: filter_map o_def)
  then show ?thesis
    by (simp add: device_indices_def upt_conv_Cons map_Suc_upt [symmetric] del: upt_Suc)
qed

lemma nth_device_eq:
  "nth_device n k cs =
     (if k < n \<and> n - k \<le> int (length (device_indices cs))
      then device_indices cs ! nat (n - k - 1) else length cs)"
proof (induction n k cs rule: nth_device.induct)
  case (2 n k c cs)
  show ?case
  proof (cases "is_device c")
    case True
    then have d: "device_indices (c # cs) = 0 # map Suc (device_indices cs)"
      by (simp add: device_indices_Cons)
    have e: "nat (n - k - 1) = Suc (nat (n - (k + 1) - 1))" if "k + 1 < n" using that by auto
    show ?thesis
      using True 2(1) unfolding d
      by (auto simp: is_device_def e)
  next
    case False
    then have d: "device_indices (c # cs) = map Suc (device_indices cs)"
      by (simp add: device_indices_Cons)
    show ?thesis
      using False 2(2) unfolding d by (auto simp: is_device_def Suc_le_eq)
  qed
qed (simp add: device_indices_def)

lemma device_indices_less: "k < length (device_indices cs) \<Longrightarrow> device_indices cs ! k < length cs"
  using nth_mem [of k "device_indices cs"] by (auto simp: device_indices_def)

text \<open>An error code is one field.\<close>

lemma flds_ok_code: "n \<le> 9 \<Longrightarrow> flds_ok [dec n]"
proof -
  assume "n \<le> 9"
  then have l: "length (dec n) \<le> 10" by (intro length_dec_less) simp_all
  have "CHR '','' \<notin> set (dec n)"
    using dec_digits [of n] by (auto simp: list_all_iff is_digit_def)
  with l show ?thesis by (simp add: flds_ok_def MAX_FIELD_SIZE_def MAX_SPLIT_FIELDS_def)
qed

section \<open>Properties\<close>





text \<open>Code 0 is in the table of device errors as well, but its return code is that of an incomplete reply.\<close>

lemma error_code_0_returns_incomplete:
  "fst (the (handle_device_reply tr sockd (reply_text False ''VER'' ''0001'' [dec 0]) ''0001'')) = -1"
proof -
  have "extract_devcmd_reply 16 7 (reply_text False ''VER'' ''0001'' [dec 0]) =
      Some (Some (False, ''VER'', ''0001'', [dec 0]))"
    using extract_reply_text [of "''VER''" "''0001''" "[dec 0]" False 16 7] flds_ok_code [of 0]
    by (simp add: name_ok_def tag_ok_def is_digit_def)
  then show ?thesis
    by (simp add: handle_device_reply_def Let_def) (simp add: reply_text_def status_text_def)
qed

text \<open>
  A device error without command and tag, \<^verbatim>\<open>$ERR:n\<close>, never reaches the user as a device error: the
  parser accepts it with an empty tag, so the handler takes it for a stray reply and returns -1.
\<close>

theorem short_error_reported_as_unexpected:
  assumes "is_digit d" and "tag \<noteq> []" and "0 \<le> sockd"
  shows "handle_device_reply tr sockd (''$ERR:'' @ d # rest) tag =
     Some (-1, [''[ERR] Unexpected reply from device '' @ quoted_text (''$ERR:'' @ d # rest)])"
  using assms by (simp add: handle_device_reply_def extract_devcmd_reply_def writef_def eq_commute [of "[]"])

theorem short_error_reported_as_unexpected_witness:
  "fst (the (handle_device_reply True 3 ''$ERR:2'' ''0001'')) = -1"
  using short_error_reported_as_unexpected [of "CHR ''2''" "''0001''" 3 True "[]"]
  by (simp add: is_digit_def)

text \<open>
  Selecting a target by number picks the device with that number among the connected devices, in
  the order of the client list and not counting command clients; a number that does not exist changes
  nothing and is reported.
\<close>

theorem target_by_index_spec:
  "let (cli', rc, out) = set_gprs_device_target_by_index clients cli nbr;
       devs = device_indices clients
   in if nbr = -1 then rc = 0 \<and> target_socket cli' = -1 \<and> target_cli_idx cli' = -1
      else if 1 \<le> nbr \<and> nbr \<le> int (length devs)
      then rc = 0 \<and> (let i = devs ! nat (nbr - 1) in
             i < length clients \<and> is_device (clients ! i) \<and> target_cli_idx cli' = int i \<and>
             target_socket cli' = cli_socket (clients ! i) \<and>
             target_deviceid cli' = cli_devid (clients ! i))
      else rc = -1 \<and> cli' = cli"
proof -
  let ?devs = "device_indices clients" and ?i = "device_indices clients ! nat (nbr - 1)"
  have i: "?i < length clients" "is_device (clients ! ?i)" if "1 \<le> nbr" "nbr \<le> int (length ?devs)"
  proof -
    have "nat (nbr - 1) < length ?devs" using that by auto
    from nth_mem [OF this] show "?i < length clients" "is_device (clients ! ?i)"
      by (simp_all add: device_indices_def)
  qed
  show ?thesis
    using i by (auto simp: set_gprs_device_target_by_index_def nth_device_eq Let_def)
qed

text \<open>
  A target chosen by nick name is not used. The function sets the socket and the device id but not
  the client index, so for a client whose target was USB the next command still goes to the USB port
  (or fails if there is none).
\<close>

theorem nickname_target_still_usb:
  assumes "target_cli_idx cli = -1"
    and "set_gprs_device_target_by_nickname nick_devid clients cli nick = (cli', 0, out)"
  shows "send_rawcmd_reply tr io d cli' cmd tag m =
     (if 0 \<le> target_usb_idx cli then send_rawcmd_reply_over_usb tr io d cli' cmd tag m
      else Some (d, cli', -1, None, []))"
proof -
  have "target_cli_idx cli' = -1 \<and> target_usb_idx cli' = target_usb_idx cli"
    using assms by (auto simp: set_gprs_device_target_by_nickname_def Let_def split: option.splits if_splits)
  then show ?thesis by (simp add: send_rawcmd_reply_def)
qed

definition sample_client :: client_info where
  "sample_client = \<lparr>cli_ts = 1400000000, cli_socket = 5, cli_ipadr = ''10.0.0.1'', cli_thread = 1,
     cli_is_cmdconn = True, target_socket = -1, target_deviceid = 0, target_cli_idx = -1,
     target_usb_idx = 0, use_unicode_table = False, cli_devid = 0\<rparr>"

definition sample_device :: client_info where
  "sample_device = sample_client\<lparr>cli_socket := 7, cli_is_cmdconn := False, cli_devid := 3000000001\<rparr>"

theorem nickname_target_still_usb_witness:
  "\<exists>cli'. set_gprs_device_target_by_nickname (\<lambda>n. Some ''3000000001'') [sample_client, sample_device]
            sample_client ''bike'' = (cli', 0, [''Target set to tracker with device id: '' @
              dec (unat (3000000001 :: u32)) @ '' (bike)'']) \<and>
     (\<forall>tr io d cmd tag m.
        send_rawcmd_reply tr io d cli' cmd tag m = send_rawcmd_reply_over_usb tr io d cli' cmd tag m)"
proof -
  have x: "xatol ''3000000001'' = 3000000001"
    by (simp add: xatol_def strtol_all_digits is_digit_def dec_value_def LONG_MAX_def LONG_MIN_def)
  have "\<exists>cli'. set_gprs_device_target_by_nickname (\<lambda>n. Some ''3000000001'') [sample_client, sample_device]
            sample_client ''bike'' = (cli', 0, [''Target set to tracker with device id: '' @
              dec (unat (3000000001 :: u32)) @ '' (bike)''])"
    unfolding set_gprs_device_target_by_nickname_def
    by (simp add: x Let_def sample_client_def sample_device_def writef_def)
  then show ?thesis
    using nickname_target_still_usb [of sample_client "\<lambda>n. Some ''3000000001''" "[sample_client, sample_device]" "''bike''"]
    by (auto simp: sample_client_def)
qed

lemma get_device_pin_16: "get_device_pin 16 = (0, Some ''0000'')"
  by (simp add: get_device_pin_def xmb_strncpy_ascii ascii_def)

lemma tag_ok_device_tag: "unat t \<le> 9999 \<Longrightarrow> tag_ok (snd (snd (get_device_tag 16 t)))"
proof -
  assume "unat t \<le> 9999"
  moreover have "list_all (\<lambda>c. c \<noteq> CHR ''='' \<and> c \<noteq> CR \<and> c \<noteq> LF) (dec_pad 4 n)" for n
    using dec_pad_digits [of 4 n] by (auto simp: list_all_iff is_digit_def)
  ultimately show ?thesis
    by (simp add: get_device_tag_next tag_ok_def length_dec_pad)
qed

text \<open>The last step of both transports on a complete positive reply.\<close>

lemma handle_ok:
  assumes "name_ok cmd" "tag_ok tag" "flds_ok flds"
  shows "handle_device_reply tr sockd (reply_text True cmd tag flds) tag
    = Some (0, handle_ok_reply tr sockd cmd flds)"
proof -
  have "extract_devcmd_reply 16 7 (reply_text True cmd tag flds) = Some (Some (True, cmd, tag, flds))"
    using assms by (intro extract_ok_text) (auto simp: name_ok_def tag_ok_def)
  then show ?thesis
    by (simp add: handle_device_reply_def reply_text_def status_text_def)
qed

lemma finish_reply_ok:
  assumes "name_ok cmd" "tag_ok tag" "flds_ok flds" "0 < m"
  shows "finish_reply tr sockd tag (Some m) (reply_text True cmd tag flds @ [CR, LF])
    = Some (0, Some (snprintf m (reply_text True cmd tag flds)), handle_ok_reply tr sockd cmd flds)"
  using handle_ok [OF assms(1-3)] assms(4)
  by (simp add: finish_reply_def nth_append Let_def numeral_2_eq_2)

text \<open>A device on the USB port that answers with the text \<open>r\<close>.\<close>

definition usb_answers :: "sysio \<Rightarrow> int \<Rightarrow> string \<Rightarrow> bool" where
  "usb_answers io idx r \<longleftrightarrow> (\<exists>dev. io_usb_devicename io idx = Some dev \<and> 0 \<le> io_serial_open io dev) \<and>
     (\<forall>txt. io_serial_write io txt \<noteq> -1) \<and> io_serial_read_line io = Some (r @ [CR, LF])"

lemma cmdquery_over_usb:
  assumes srv: "get_devcmd_from_srvcmd cmd 16 = Some raw" and "name_ok raw"
    and "unat (d_tagnbr d) \<le> 9999" and "flds_ok flds" and "0 < maxreply"
    and usb: "\<not> (0 < target_socket cli \<and> 0 \<le> target_cli_idx cli)" "0 \<le> target_usb_idx cli"
    and tag: "tag = snd (snd (get_device_tag 16 (d_tagnbr d)))"
    and ans: "usb_answers io (target_usb_idx cli) (reply_text True raw tag flds)"
  shows "send_cmdquery_reply tr io d cli cmd reply maxreply =
    Some (d\<lparr>d_tagnbr := fst (get_device_tag 16 (d_tagnbr d))\<rparr>, cli, 0,
          snprintf maxreply (reply_text True raw tag flds))"
proof -
  obtain t where t: "get_device_tag 16 (d_tagnbr d) = (t, 0, tag)"
    using get_device_tag_next [OF assms(3), of 16] tag by simp
  have tok: "tag_ok tag" using tag_ok_device_tag [OF assms(3)] tag by simp
  have "2 < length (reply_text True raw tag flds @ [CR, LF])"
    by (simp add: reply_text_def status_text_def)
  then have "send_rawcmd_reply_over_usb tr io d' (cli\<lparr>cli_socket := -1\<rparr>) c tag (Some maxreply) =
      Some (d', cli\<lparr>cli_socket := -1\<rparr>, 0, Some (snprintf maxreply (reply_text True raw tag flds)),
        handle_ok_reply tr (-1) raw flds)" for c d'
    using ans finish_reply_ok [OF assms(2) tok assms(4,5), of tr "-1"]
    by (auto simp: send_rawcmd_reply_over_usb_def usb_answers_def Let_def simp del: length_append)
  then have "send_rawcmd_reply tr io d' (cli\<lparr>cli_socket := -1\<rparr>) c tag (Some maxreply) =
      Some (d', cli\<lparr>cli_socket := -1\<rparr>, 0, Some (snprintf maxreply (reply_text True raw tag flds)),
        handle_ok_reply tr (-1) raw flds)" for c d'
    using usb by (auto simp: send_rawcmd_reply_def)
  then show ?thesis
    using srv t by (simp add: send_cmdquery_reply_def get_device_pin_16 Let_def)
qed

text \<open>
  The daemon reads the id of a device on a USB port. If the device answers the configuration
  query with its id and further fields in one line that fits in the reply buffer, \<open>get_devid\<close> returns
  0 and that id as a 32-bit number, and of the daemon only the running tag has changed.
\<close>

theorem get_devid_over_usb:
  assumes "unat (d_tagnbr d) \<le> 9999" and "tag = snd (snd (get_device_tag 16 (d_tagnbr d)))"
    and "\<not> (0 < target_socket cli \<and> 0 \<le> target_cli_idx cli)" and "0 \<le> target_usb_idx cli"
    and "flds_ok (dec n # flds)" and "9 < n" and "n < 2 ^ 32"
    and "usb_answers io (target_usb_idx cli) (reply_text True ''UNCFG'' tag (dec n # flds))"
    and "length (reply_text True ''UNCFG'' tag (dec n # flds)) < 48"
  shows "get_devid tr io d cli =
    Some (d\<lparr>d_tagnbr := fst (get_device_tag 16 (d_tagnbr d))\<rparr>, cli, 0, Some (word_of_nat n))"
proof -
  have srv: "get_devcmd_from_srvcmd ''CONFIG'' 16 = Some ''UNCFG''"
    by (simp add: get_devcmd_from_srvcmd_def get_cmdidx_from_srvcmd_def g7command_list_def xstricmp_eq_0
        tolower_eval)
  have nok: "name_ok ''UNCFG''" by (simp add: name_ok_def)
  have tok: "tag_ok tag" using tag_ok_device_tag [OF assms(1)] assms(2) by simp
  have q: "send_cmdquery_reply tr io d cli ''CONFIG'' [] 48 =
      Some (d\<lparr>d_tagnbr := fst (get_device_tag 16 (d_tagnbr d))\<rparr>, cli, 0,
            reply_text True ''UNCFG'' tag (dec n # flds))"
    using cmdquery_over_usb [OF srv nok assms(1) assms(5) _ assms(3,4,2,8), of 48 tr "[]"] assms(9) by simp
  have x: "extract_devcmd_reply 14 7 (reply_text True ''UNCFG'' tag (dec n # flds))
      = Some (Some (True, ''UNCFG'', tag, dec n # flds))"
    using nok tok assms(5) by (intro extract_ok_text) (auto simp: name_ok_def tag_ok_def)
  have len: "length (dec n) \<le> 10" "2 \<le> length (dec n)"
  proof -
    show "length (dec n) \<le> 10" using assms(7) by (intro length_dec_less) simp_all
    have "dec n = dec (n div 10) @ [digit_char (n mod 10)]" using assms(6) by (subst dec.simps) simp
    moreover have "dec (n div 10) \<noteq> []" by simp
    ultimately show "2 \<le> length (dec n)" by (cases "dec (n div 10)") auto
  qed
  have "xmb_strncpy (dec n) 32 = Some (dec n)"
    using len by (simp add: xmb_strncpy_ascii ascii_digits)
  moreover have "dec n ! (length (dec n) - 2) \<noteq> CR"
  proof -
    have "length (dec n) - 2 < length (dec n)" using len(2) by linarith
    then have "is_digit (dec n ! (length (dec n) - 2))"
      using dec_digits [of n] unfolding list_all_length by blast
    then show ?thesis by (auto simp: is_digit_def)
  qed
  ultimately have f: "extract_devcmd_reply_first_field (reply_text True ''UNCFG'' tag (dec n # flds)) 32
      = Some (0, dec n)"
    using len(2) by (simp add: extract_devcmd_reply_first_field_def x)
  have "xatol (dec n) = int n" using assms(7) by (intro xatol_dec) (simp add: LONG_MAX_def)
  then show ?thesis by (simp add: get_devid_def q f)
qed

definition sample_usb :: sysio where
  "sample_usb = \<lparr>io_write = (\<lambda>_. 0), io_now = 0, io_rounds = [], io_usb_connected = (\<lambda>_. True),
     io_usb_devicename = (\<lambda>_. Some ''/dev/ttyACM0''), io_serial_open = (\<lambda>_. 3), io_serial_write = (\<lambda>_. 0),
     io_serial_read_line = Some (reply_text True ''UNCFG'' (dec_pad 4 1) [dec 3000000001, ''0000''] @ [CR, LF])\<rparr>"

theorem get_devid_over_usb_witness:
  "\<exists>d. get_devid False sample_usb \<lparr>d_cmdq = cmdqueue_init, d_tagnbr = 0, d_clients = []\<rparr> sample_client
     = Some (d, sample_client, 0, Some 3000000001)"
proof -
  let ?d = "\<lparr>d_cmdq = cmdqueue_init, d_tagnbr = 0, d_clients = []\<rparr>"
  have t: "snd (snd (get_device_tag 16 0)) = dec_pad 4 1" by (simp add: get_device_tag_next)
  have l: "length (dec 3000000001) \<le> 10" by (intro length_dec_less) simp_all
  have c: "CHR '','' \<notin> set (dec n)" for n
    using dec_digits [of n] by (auto simp: list_all_iff is_digit_def)
  have "get_devid False sample_usb ?d sample_client =
    Some (?d\<lparr>d_tagnbr := fst (get_device_tag 16 (d_tagnbr ?d))\<rparr>, sample_client, 0,
      Some (word_of_nat 3000000001))"
    by (rule get_devid_over_usb [where tag = "dec_pad 4 1" and flds = "[''0000'']"])
      (use l c t in \<open>simp_all add: sample_client_def flds_ok_def MAX_FIELD_SIZE_def MAX_SPLIT_FIELDS_def
        usb_answers_def sample_usb_def reply_text_def status_text_def length_dec_pad\<close>)
  then show ?thesis by simp
qed

text \<open>
  A slot of the command queue is lost when the write to the device socket fails. The command has
  been inserted, the function returns -1 without clearing the slot, so after the call one more slot is
  in use although nobody waits for it.
\<close>

theorem failed_write_leaks_slot:
  assumes "cmdq_wf (d_cmdq d)" and "qt.used (cmdq (d_cmdq d)) < MAX_CMDQUEUE_LEN"
    and "list_ex (\<lambda>c. cli_devid c = target_deviceid cli \<and> cli_socket c = target_socket cli) (d_clients d)"
    and "length tag \<le> 5" and "length cmd \<le> 255" and "target_deviceid cli \<noteq> 0"
    and "io_write io (cmd @ [CR, LF]) \<noteq> int (length (cmd @ [CR, LF]))"
  shows "\<exists>d' out. send_rawcmd_reply_over_gprs tr io d cli cmd tag m = Some (d', cli, -1, None, out) \<and>
     qt.used (cmdq (d_cmdq d')) = Suc (qt.used (cmdq (d_cmdq d)))"
proof -
  let ?s = "d_cmdq d" and ?f = "new_entry (io_now io) (cli_socket cli) (target_deviceid cli) tag cmd"
  have "length (cmdq ?s) = MAX_CMDQUEUE_LEN" using assms(1) by (simp add: cmdq_wf_def)
  with assms(2) obtain i q where al: "qt.alloc ?f (cmdq ?s) = Some (i, q)"
    using qt.alloc_None_iff [of ?f "cmdq ?s"] by (cases "qt.alloc ?f (cmdq ?s)") auto
  have "\<not> entry_free (?f (cmdq ?s ! i))" using assms(6) by (simp add: entry_free_def new_entry_def)
  then have "qt.used q = Suc (qt.used (cmdq ?s))" by (rule qt.alloc_used [OF al])
  moreover have "cmdqueue_insert (io_now io) (cli_socket cli) (target_deviceid cli) tag cmd ?s
      = (?s\<lparr>cmdq := q\<rparr>, int i)"
    using assms(1,4,5) al by (simp add: cmdqueue_insert_alloc)
  moreover have "take 1023 (cmd @ [CR, LF]) = cmd @ [CR, LF]" using assms(5) by simp
  ultimately show ?thesis
    using assms(3,7) by (simp add: send_rawcmd_reply_over_gprs_def Let_def)
qed

theorem failed_write_leaks_slot_witness:
  "\<exists>d' out. send_rawcmd_reply_over_gprs False sample_usb
      \<lparr>d_cmdq = cmdqueue_init, d_tagnbr = 0, d_clients = [sample_device]\<rparr>
      (sample_client\<lparr>target_socket := 7, target_deviceid := 3000000001\<rparr>) ''$WP+VER+0001=0000,?'' ''0001'' None
     = Some (d', sample_client\<lparr>target_socket := 7, target_deviceid := 3000000001\<rparr>, -1, None, out) \<and>
     qt.used (cmdq (d_cmdq d')) = Suc (qt.used (cmdq cmdqueue_init))"
proof -
  have u: "qt.used (cmdq cmdqueue_init) = 0"
    by (simp add: qt.used_def cmdqueue_init_def zero_entry_def entry_free_def)
  show ?thesis
    using failed_write_leaks_slot [of "\<lparr>d_cmdq = cmdqueue_init, d_tagnbr = 0, d_clients = [sample_device]\<rparr>"
        "sample_client\<lparr>target_socket := 7, target_deviceid := 3000000001\<rparr>" "''0001''"
        "''$WP+VER+0001=0000,?''" sample_usb False None] cmdq_wf_init u
    by (simp add: sample_device_def sample_client_def sample_usb_def MAX_CMDQUEUE_LEN_def)
qed

end
