(* ===== verification/Tracker.thy ===== *)
theory Tracker
  imports Sendcmd
begin

text \<open>
  The thread that serves a device connected over GPRS (\<^verbatim>\<open>src/src/tracker.c\<close>): splitting what
  arrives into packages, telling command replies, location updates and keep-alive packages apart,
  handing replies to the command queue, answering keep-alives, the automatic tracking command after a
  fence event, the idle time-out and the clean-up.
\<close>

section \<open>Package types\<close>

abbreviation ARRIVE_PKG_CMDREPLY :: int where "ARRIVE_PKG_CMDREPLY \<equiv> 1"
abbreviation ARRIVE_PKG_LOC :: int where "ARRIVE_PKG_LOC \<equiv> 2"

definition arrivingPackageType :: "string \<Rightarrow> int" where
  "arrivingPackageType buffer =
     (case buffer of
        [] \<Rightarrow> -1
      | c # _ \<Rightarrow>
          if c = CHR ''$'' then ARRIVE_PKG_CMDREPLY
          else if c = CHR ''3'' \<or> c = CHR ''['' then
            (case xstrsplitfields buffer (CHR '','') of (rc, flds) \<Rightarrow>
               if rc = 0 then
                 (if length flds \<noteq> 11 then -1
                  else if xatoi (flds ! 8) = 0 then ARRIVE_PKG_CMDREPLY else ARRIVE_PKG_LOC)
               else -1)
          else -1)"

section \<open>Command replies\<close>

definition GFEN_TRACK_TAG :: string where "GFEN_TRACK_TAG = ''TR48''"

text \<open>The tag of a reply; \<open>Some None\<close> where the function returns -1 before the queue is searched.\<close>

definition reply_package_tag :: "u32 \<Rightarrow> string \<Rightarrow> string option option" where
  "reply_package_tag devid buffer =
     (if buffer \<noteq> [] \<and> hd buffer = CHR ''3'' then
        (case scan_stop (\<lambda>c. c = CHR '','') 11 0 buffer of
           None \<Rightarrow> None
         | Some (i, _) \<Rightarrow>
             (case c_at buffer i of
                None \<Rightarrow> None
              | Some c \<Rightarrow>
                  if c \<noteq> CHR '','' then Some None
                  else if (word_of_int (xatol (take i buffer)) :: u32) \<noteq> devid then Some None
                  else Some (Some [])))
      else case extract_devcmd_reply 16 8 buffer of
        None \<Rightarrow> None
      | Some None \<Rightarrow> Some None
      | Some (Some (_, _, tag, _)) \<Rightarrow> Some (Some tag))"

text \<open>Storing the reply in the entry that was found.\<close>

definition post_reply :: "nat \<Rightarrow> string \<Rightarrow> cmdq_state \<Rightarrow> cmdq_state" where
  "post_reply i r s =
     s\<lparr>cmdq := (cmdq s)[i := (cmdq s ! i)\<lparr>q_reply := r, q_validreply := True\<rparr>]\<rparr>"

definition handleCmdReplyPackage :: "u32 \<Rightarrow> string \<Rightarrow> cmdq_state \<Rightarrow> (cmdq_state \<times> int) option" where
  "handleCmdReplyPackage devid buffer s =
     (case reply_package_tag devid buffer of
        None \<Rightarrow> None
      | Some None \<Rightarrow> Some (s, -1)
      | Some (Some tag) \<Rightarrow>
          (case cmdqueue_match devid tag s of
             None \<Rightarrow> Some (s, if strcmp tag GFEN_TRACK_TAG \<noteq> 0 then -1 else 0)
           | Some i \<Rightarrow>
               (case xmb_strncpy buffer 1023 of
                  None \<Rightarrow> None
                | Some r \<Rightarrow> Some (post_reply i r s, 0))))"

section \<open>Keep-alive packages\<close>

definition KEEP_ALIVE_LEN :: nat where "KEEP_ALIVE_LEN = 8"

text \<open>
  The device id from its four bytes, lowest first. The code computes the sum in \<open>int\<close>; the last
  product overflows for ids from \<open>2 ^ 31\<close> on, which the model lets wrap around.
\<close>

definition keepalive_devid :: "char list \<Rightarrow> u32" where
  "keepalive_devid buffer =
     word_of_nat (byte (buffer ! 4) * 1 + byte (buffer ! 5) * 256 + byte (buffer ! 6) * 65536
                  + byte (buffer ! 7) * 16777216)"

text \<open>
  The entries whose threads are cancelled because the same device has connected again: another
  address and another socket.
\<close>

definition old_connections :: "client_info list \<Rightarrow> client_info \<Rightarrow> u32 \<Rightarrow> nat list" where
  "old_connections clients cli devid =
     filter (\<lambda>i. let c = clients ! i in cli_ts c \<noteq> 0 \<and> devid = cli_devid c \<and>
                   strcmp (cli_ipadr c) (cli_ipadr cli) \<noteq> 0 \<and> cli_socket c \<noteq> cli_socket cli)
       [0..<length clients]"

text \<open>
  \<open>self\<close> is the entry of this thread in the client list, \<open>wrote\<close> the result of writing the package
  back. The result: the client list, the cancelled entries, the device id for which the connection
  notification is run, the return code.
\<close>

definition handleKeepAlivePackage ::
  "client_info list \<Rightarrow> nat \<Rightarrow> char list \<Rightarrow> int \<Rightarrow> client_info list \<times> nat list \<times> u32 option \<times> int" where
  "handleKeepAlivePackage clients self buffer wrote =
     (if length buffer = KEEP_ALIVE_LEN \<and> buffer ! 0 = CHR 0xD0 \<and> buffer ! 1 = CHR 0xD7 then
        (let devid = keepalive_devid buffer;
             cli = clients ! self;
             rc = (if wrote < 0 \<or> wrote \<noteq> int KEEP_ALIVE_LEN then -1 else 0)
         in if cli_devid cli = 0 then
              (let olds = old_connections clients cli devid
               in (clients[self := cli\<lparr>cli_devid := devid\<rparr>], olds,
                   if olds = [] then Some devid else None, rc))
            else (clients, [], None, rc))
      else (clients, [], None, 1))"

text \<open>The clean-up of the thread: the entry is cleared and the number of clients counted down.\<close>

definition zero_client :: client_info where
  "zero_client = \<lparr>cli_ts = 0, cli_socket = 0, cli_ipadr = [], cli_thread = 0, cli_is_cmdconn = False,
     target_socket = 0, target_deviceid = 0, target_cli_idx = -1, target_usb_idx = -1,
     use_unicode_table = False, cli_devid = 0\<rparr>"

definition trk_thread_cleanup :: "client_info list \<Rightarrow> int \<Rightarrow> nat \<Rightarrow> client_info list \<times> int" where
  "trk_thread_cleanup clients num_clients self = (clients[self := zero_client], num_clients - 1)"

section \<open>Events\<close>

abbreviation GM7_LOC_DEVID :: nat where "GM7_LOC_DEVID \<equiv> 0"
abbreviation GM7_LOC_DATE :: nat where "GM7_LOC_DATE \<equiv> 1"
abbreviation GM7_LOC_LON :: nat where "GM7_LOC_LON \<equiv> 2"
abbreviation GM7_LOC_LAT :: nat where "GM7_LOC_LAT \<equiv> 3"
abbreviation GM7_LOC_EVENTID :: nat where "GM7_LOC_EVENTID \<equiv> 8"

text \<open>The command written to the device after an event, if any.\<close>

definition chk_specialhandling :: "bool \<Rightarrow> nat \<Rightarrow> string list \<Rightarrow> string option" where
  "chk_specialhandling enable_gfen_tracking gfen_tracking_interval flds =
     (let eventid = to_uint32 (xatoi (flds ! GM7_LOC_EVENTID)) in
      if 100 < eventid then None
      else if eventid = 48 \<and> enable_gfen_tracking then
        (case get_device_pin 7 of (_, pin) \<Rightarrow>
           case pin of
             None \<Rightarrow> None
           | Some p \<Rightarrow> Some (snprintf 64 (''$WP+TRACK+'' @ GFEN_TRACK_TAG @ ''='' @ p @ '',1,'' @
                         dec gfen_tracking_interval @ '',0,0,0,4,15'' @ [CR, LF])))
      else None)"

text \<open>Whether a mail is sent for an event, with the command and description used in it.\<close>

definition chk_sendmail_event :: "bool \<Rightarrow> string list \<Rightarrow> (string \<times> string) option" where
  "chk_sendmail_event forceSend flds =
     (let event = xatoi (flds ! GM7_LOC_EVENTID) in
      if event \<noteq> 1 \<and> (forceSend \<or> (event \<noteq> 0 \<and> event \<noteq> 2)) then get_event_cmd event else None)"

text \<open>The date of the device, \<^verbatim>\<open>YYYYMMDDhhmmss\<close>, as it is shown in the mail.\<close>

definition mail_datetime :: "string \<Rightarrow> string" where
  "mail_datetime date =
     take 4 date @ ''-'' @ [date ! 4, date ! 5] @ ''-'' @ [date ! 6, date ! 7] @ ''  '' @
     [date ! 8, date ! 9] @ '':'' @ [date ! 10, date ! 11] @ '':'' @ [date ! 12, date ! 13]"

section \<open>The data that arrives\<close>

text \<open>
  One package: the queue afterwards, the location packages given to the database, the return code.
\<close>

definition handle_package ::
  "u32 \<Rightarrow> string \<Rightarrow> cmdq_state \<times> string list \<Rightarrow> (cmdq_state \<times> string list) option" where
  "handle_package devid pkg st =
     (case st of (q, locs) \<Rightarrow>
        let t = arrivingPackageType pkg in
        if t = ARRIVE_PKG_CMDREPLY then
          (case handleCmdReplyPackage devid pkg q of None \<Rightarrow> None | Some (q', _) \<Rightarrow> Some (q', locs))
        else if t = ARRIVE_PKG_LOC then Some (q, locs @ [pkg])
        else Some (q, locs))"

text \<open>
  The loop that splits the buffer after every \<^verbatim>\<open>\r\n\<close>; it stops at the first piece that does not end
  that way.
\<close>

function process_events ::
  "u32 \<Rightarrow> string \<Rightarrow> cmdq_state \<times> string list \<Rightarrow> (cmdq_state \<times> string list) option" where
  "process_events devid ptr st =
     (let n = find_idx (\<lambda>c. c = CR) ptr in
      if Suc n < length ptr \<and> ptr ! n = CR \<and> ptr ! Suc n = LF then
        (case handle_package devid (take (n + 2) ptr) st of
           None \<Rightarrow> None
         | Some st' \<Rightarrow> if drop (n + 2) ptr = [] then Some st' else process_events devid (drop (n + 2) ptr) st')
      else Some st)"
  by pat_completeness auto
termination
  by (relation "measure (\<lambda>(devid, ptr, st). length ptr)") auto

declare process_events.simps [simp del]

text \<open>What \<open>select\<close> and \<open>socket_read\<close> give: a time-out, or the bytes read (none: disconnected).\<close>

datatype net_input = NetTimeout | NetRead "char list"

definition TRACKER_SOCKET_TIMEOUT :: nat where "TRACKER_SOCKET_TIMEOUT = 2"

record tracker =
  t_idle :: nat
  t_clients :: "client_info list"
  t_self :: nat
  t_cmdq :: cmdq_state
  t_locs :: "string list"

text \<open>
  One round of the loop of \<open>tracker_clientsrv\<close>: the state and whether the loop goes on. \<open>wrote\<close> is the
  result of writing back a keep-alive package.
\<close>

definition tracker_round :: "nat \<Rightarrow> int \<Rightarrow> net_input \<Rightarrow> tracker \<Rightarrow> (tracker \<times> bool) option" where
  "tracker_round max_device_idle_time wrote inp t =
     (case inp of
        NetTimeout \<Rightarrow>
          (let idle = t_idle t + TRACKER_SOCKET_TIMEOUT
           in Some (t\<lparr>t_idle := idle\<rparr>, \<not> max_device_idle_time \<le> idle))
      | NetRead bytes \<Rightarrow>
          (let t = t\<lparr>t_idle := 0\<rparr> in
           if bytes = [] then Some (t, False)
           else if hd bytes = NUL then Some (t, True)
           else if hd bytes = CHR 0xD0 \<and> 1 < length bytes \<and> bytes ! 1 = CHR 0xD7 then
             (case handleKeepAlivePackage (t_clients t) (t_self t) bytes wrote of (cs, _, _, _) \<Rightarrow>
                Some (t\<lparr>t_clients := cs\<rparr>, True))
           else (case process_events (cli_devid (t_clients t ! t_self t)) (c_string bytes) (t_cmdq t, t_locs t) of
                   None \<Rightarrow> None
                 | Some (q, locs) \<Rightarrow> Some (t\<lparr>t_cmdq := q, t_locs := locs\<rparr>, True))))"

text \<open>The loop: \<open>True\<close> in the result when it has ended.\<close>

fun tracker_loop :: "nat \<Rightarrow> int \<Rightarrow> net_input list \<Rightarrow> tracker \<Rightarrow> (tracker \<times> bool) option" where
  "tracker_loop mx wrote [] t = Some (t, False)"
| "tracker_loop mx wrote (i # is) t =
     (case tracker_round mx wrote i t of
        None \<Rightarrow> None
      | Some (t', go) \<Rightarrow> if go then tracker_loop mx wrote is t' else Some (t', True))"

section \<open>Splitting what arrives\<close>

text \<open>The packages one after the other.\<close>

fun handle_all :: "u32 \<Rightarrow> string list \<Rightarrow> cmdq_state \<times> string list \<Rightarrow> (cmdq_state \<times> string list) option" where
  "handle_all devid [] st = Some st"
| "handle_all devid (p # ps) st =
     (case handle_package devid p st of None \<Rightarrow> None | Some st' \<Rightarrow> handle_all devid ps st')"

lemma process_events_step:
  assumes "CR \<notin> set p"
  shows "process_events devid (p @ CR # LF # rest) st =
    (case handle_package devid (p @ [CR, LF]) st of
       None \<Rightarrow> None | Some st' \<Rightarrow> if rest = [] then Some st' else process_events devid rest st')"
proof -
  have n: "find_idx (\<lambda>c. c = CR) (p @ CR # LF # rest) = length p"
    using assms by (intro find_idx_eqI) (auto simp: nth_append in_set_conv_nth)
  have tk: "take (Suc (Suc (length p))) (p @ CR # LF # rest) = p @ [CR, LF]"
    by simp
  have dr: "drop (length p + 2) (p @ CR # LF # rest) = rest"
    by simp
  show ?thesis
    by (subst process_events.simps) (simp only: n Let_def dr, simp add: nth_append tk)
qed

text \<open>Input that holds no complete package is ignored.\<close>

lemma process_events_incomplete: "CR \<notin> set s \<Longrightarrow> process_events devid s st = Some st"
proof -
  assume "CR \<notin> set s"
  then have "\<not> find_idx (\<lambda>c. c = CR) s < length s" unfolding find_idx_less_iff by auto
  then show ?thesis by (subst process_events.simps) (simp add: Let_def)
qed

lemma process_events_all:
  "list_all (\<lambda>p. CR \<notin> set p) ps \<Longrightarrow> CR \<notin> set rest \<Longrightarrow>
   process_events devid (concat (map (\<lambda>p. p @ [CR, LF]) ps) @ rest) st =
     handle_all devid (map (\<lambda>p. p @ [CR, LF]) ps) st"
proof (induction ps arbitrary: st)
  case (Cons p ps)
  let ?r = "concat (map (\<lambda>p. p @ [CR, LF]) ps) @ rest"
  have "process_events devid ?r st' = handle_all devid (map (\<lambda>p. p @ [CR, LF]) ps) st'" for st'
    using Cons by simp
  moreover have "handle_all devid (map (\<lambda>p. p @ [CR, LF]) ps) st' = Some st'" if "?r = []" for st'
    using that by (cases ps) auto
  ultimately show ?case
    using Cons.prems process_events_step [of p devid ?r st]
    by (auto split: option.splits)
qed (simp add: process_events_incomplete)

section \<open>Handing a reply to the queue\<close>

lemma reply_package_tag_reply:
  assumes "name_ok cmd" "tag_ok tag"
    and "flds = [] \<or> flds_ok flds" and "length (join_with (CHR '','') flds) < 1022"
    and "flds \<noteq> [] \<longrightarrow> length (last flds) < MAX_FIELD_SIZE - 2"
  shows "reply_package_tag devid (reply_text True cmd tag flds @ [CR, LF]) = Some (Some tag)"
proof -
  have h: "hd (reply_text True cmd tag fs @ x) = CHR ''$''" for fs x
    by (simp add: reply_text_def status_text_def)
  have l: "length cmd < 16" "length tag < 8" using assms(1,2) by (auto simp: name_ok_def tag_ok_def)
  have "\<exists>fs. extract_devcmd_reply 16 8 (reply_text True cmd tag flds @ [CR, LF])
      = Some (Some (True, cmd, tag, fs))"
  proof (cases "flds = []")
    case True
    then show ?thesis using extract_reply_crlf [OF assms(1,2) l] by auto
  next
    case False
    let ?fs = "butlast flds @ [last flds @ [CR, LF]]"
    have j: "join_with d (xs @ [y @ z]) = join_with d (xs @ [y]) @ z" for d xs and y z :: string
      by (induction xs rule: join_with.induct) auto
    have jj: "join_with (CHR '','') ?fs = join_with (CHR '','') flds @ [CR, LF]"
      using False by (simp add: j)
    have "flds_ok ?fs"
      using assms(3-5) False unfolding flds_ok_def jj
      by (auto simp: list_all_iff dest: in_set_butlastD)
    moreover have "reply_text True cmd tag flds @ [CR, LF] = reply_text True cmd tag ?fs"
      using False by (simp add: reply_text_def jj)
    ultimately show ?thesis
      using extract_ok_text [OF assms(1,2) _ l] by metis
  qed
  then show ?thesis by (auto simp: reply_package_tag_def h)
qed

lemma ascii_append [simp]: "ascii (s @ t) \<longleftrightarrow> ascii s \<and> ascii t"
  by (simp add: ascii_def)

lemma handle_reply_match:
  assumes "reply_package_tag devid buf = Some (Some tag)" and "cmdqueue_match devid tag s = Some i"
    and "ascii buf" and "length buf < 1023"
  shows "handleCmdReplyPackage devid buf s = Some (post_reply i buf s, 0)"
  using assms by (simp add: handleCmdReplyPackage_def xmb_strncpy_ascii)

text \<open>Waiting while nothing happens.\<close>

lemma check_reply_idle:
  assumes "\<not> q_validreply (cmdq s ! idx)" and "list_all (\<lambda>t. t - uint ts \<le> CMDQUEUE_TIMEOUT) ticks"
  shows "check_reply_loop ts idx m (map (\<lambda>t. (t, \<lambda>s. s)) ticks @ rs) s = check_reply_loop ts idx m rs s"
  using assms by (induction ticks) auto

section \<open>A command and its reply, over GPRS\<close>

text \<open>What the tracker thread of the device does to the queue when the package arrives.\<close>

definition tracker_delivers :: "u32 \<Rightarrow> string \<Rightarrow> cmdq_state \<Rightarrow> cmdq_state" where
  "tracker_delivers devid buf s =
     (case handleCmdReplyPackage devid buf s of None \<Rightarrow> s | Some (s', _) \<Rightarrow> s')"

text \<open>The entry of a new command in a queue whose free slots are zeroed.\<close>

definition free_zeroed :: "cmdq_state \<Rightarrow> bool" where
  "free_zeroed s \<longleftrightarrow> list_all (\<lambda>e. entry_free e \<longrightarrow> e = zero_entry) (cmdq s)"

lemma check_reply_delivered:
  assumes "idx < MAX_CMDQUEUE_LEN" and "length (cmdq s) = MAX_CMDQUEUE_LEN"
    and "\<not> q_validreply (cmdq s ! idx)" and "0 \<le> q_ts (cmdq s ! idx)" "q_ts (cmdq s ! idx) < 2 ^ 32"
    and "list_all (\<lambda>t. t - q_ts (cmdq s ! idx) \<le> CMDQUEUE_TIMEOUT) (ticks @ [t0])"
    and "f s = post_reply idx r s" and "ascii r" and "length r < m"
  shows "cmdqueue_check_reply idx m (map (\<lambda>t. (t, \<lambda>s. s)) ticks @ [(t0, f), (t1, g)]) s
     = Some (fst (cmdqueue_clridx idx s), 0, r)"
proof -
  let ?ts = "word_of_int (q_ts (cmdq s ! idx)) :: u32"
  have u: "uint ?ts = q_ts (cmdq s ! idx)"
    using assms(4,5) by (simp add: unsigned_of_int take_bit_int_eq_self)
  have p: "q_validreply (cmdq (post_reply idx r s) ! idx)" "q_reply (cmdq (post_reply idx r s) ! idx) = r"
    using assms(1,2) by (simp_all add: post_reply_def)
  have c: "fst (cmdqueue_clridx idx (post_reply idx r s)) = fst (cmdqueue_clridx idx s)"
    using assms(1) by (simp add: cmdqueue_clridx_def post_reply_def)
  have x: "xmb_strncpy r m = Some r" using assms(8,9) by (simp add: xmb_strncpy_ascii)
  have "check_reply_loop ?ts idx m (map (\<lambda>t. (t, \<lambda>s. s)) ticks @ [(t0, f), (t1, g)]) s
      = check_reply_loop ?ts idx m [(t0, f), (t1, g)] s"
    using assms(3,6) by (intro check_reply_idle) (simp_all add: u)
  also have "\<dots> = Some (fst (cmdqueue_clridx idx s), 0, r)"
    using assms(3,6,7) by (simp add: u p x c)
  finally show ?thesis using assms(1) by (simp add: cmdqueue_check_reply_def)
qed

lemma reply_text_ascii:
  "ascii cmd \<Longrightarrow> ascii tag \<Longrightarrow> ascii (join_with (CHR '','') flds) \<Longrightarrow> ascii (reply_text isok cmd tag flds)"
  by (simp add: reply_text_def status_text_def ascii_def)

text \<open>Inserting a command in such a queue, and what is left after its slot is cleared.\<close>

lemma insert_fresh:
  assumes "cmdq_wf s" and "free_zeroed s" and "qt.used (cmdq s) < MAX_CMDQUEUE_LEN" and "dev \<noteq> 0"
    and "cmdqueue_match dev tag s = None" and "length tag \<le> 5" and "length cmd \<le> 255"
  obtains i q where "cmdqueue_insert now sockd dev tag cmd s = (s\<lparr>cmdq := q\<rparr>, int i)"
    and "i < MAX_CMDQUEUE_LEN" and "length q = MAX_CMDQUEUE_LEN"
    and "q ! i = new_entry now sockd dev tag cmd zero_entry"
    and "cmdqueue_match dev tag (s\<lparr>cmdq := q\<rparr>) = Some i"
    and "fst (cmdqueue_clridx i (s\<lparr>cmdq := q\<rparr>)) = s"
proof -
  let ?f = "new_entry now sockd dev tag cmd"
  have len: "length (cmdq s) = MAX_CMDQUEUE_LEN" using assms(1) by (simp add: cmdq_wf_def)
  with assms(3) obtain i q where al: "qt.alloc ?f (cmdq s) = Some (i, q)"
    using qt.alloc_None_iff [of ?f "cmdq s"] by (cases "qt.alloc ?f (cmdq s)") auto
  note ai = qt.alloc_Some [OF al]
  have zero: "cmdq s ! i = zero_entry"
    using assms(2) ai(1,2) by (simp add: free_zeroed_def list_all_length)
  have e: "q ! i = ?f zero_entry" using ai zero by simp
  have m: "cmdqueue_match dev tag (s\<lparr>cmdq := q\<rparr>) = Some i"
  proof (rule cmdqueue_matchI)
    show "entry_matches dev tag (cmdq (s\<lparr>cmdq := q\<rparr>) ! i)"
      using assms(4) by (simp add: e entry_matches_def new_entry_def)
    show "\<not> entry_matches dev tag (cmdq (s\<lparr>cmdq := q\<rparr>) ! j)"
      if "j < length (cmdq (s\<lparr>cmdq := q\<rparr>))" "j \<noteq> i" for j
      using that assms(5) qt.alloc_keeps [OF al, of j] ai(3) by (simp add: cmdqueue_match_None)
  qed (use ai in simp)
  have "q[i := zero_entry] = cmdq s"
    unfolding ai(3) list_update_overwrite zero [symmetric] by (rule list_update_id)
  then have clr: "fst (cmdqueue_clridx i (s\<lparr>cmdq := q\<rparr>)) = s"
    using ai(1) len by (simp add: cmdqueue_clridx_def)
  have "cmdqueue_insert now sockd dev tag cmd s = (s\<lparr>cmdq := q\<rparr>, int i)"
    using assms(1,6,7) al by (simp add: cmdqueue_insert_alloc)
  with that [OF this _ _ e m clr] ai len show thesis by simp
qed

lemma reply_package_tag_ok:
  assumes "name_ok name" "tag_ok tag" "flds_ok flds" "length (last flds) < MAX_FIELD_SIZE - 2"
    and "length (reply_text True name tag flds) < 1020"
  shows "reply_package_tag dev (reply_text True name tag flds @ [CR, LF]) = Some (Some tag)"
proof -
  have "flds \<noteq> []" using assms(3) by (simp add: flds_ok_def)
  then have "length (join_with (CHR '','') flds) \<le> length (reply_text True name tag flds)"
    unfolding reply_text_def by simp
  with assms show ?thesis by (intro reply_package_tag_reply) auto
qed

section \<open>Properties\<close>

text \<open>
  C1: a command sent over GPRS gets its own reply back. The queue is well-formed with a free slot and
  no other outstanding command has the same device and tag; the write succeeds; while the command
  thread polls, the tracker thread of the device receives the reply to this command before the time-out.
  Then the call returns 0 with the reply text without its line end, the first line written to the client is
  the reply, and the queue is as it was before the call.
\<close>

theorem gprs_command_gets_its_reply:
  assumes "cmdq_wf (d_cmdq d)" and "free_zeroed (d_cmdq d)"
    and "qt.used (cmdq (d_cmdq d)) < MAX_CMDQUEUE_LEN"
    and "list_ex (\<lambda>c. cli_devid c = target_deviceid cli \<and> cli_socket c = target_socket cli) (d_clients d)"
    and "0 < target_socket cli" and "0 \<le> target_cli_idx cli" and "target_deviceid cli \<noteq> 0"
    and "cmdqueue_match (target_deviceid cli) tag (d_cmdq d) = None"
    and "tag \<noteq> []" and "tag_ok tag" and "length cmdtxt \<le> 255"
    and "name_ok name" and "flds_ok flds" and "length (last flds) < MAX_FIELD_SIZE - 2"
    and "length rtxt < 1020" and "ascii rtxt" and "rtxt = reply_text True name tag flds"
    and "\<And>txt. io_write io txt = int (length txt)"
    and "0 \<le> io_now io" and "io_now io < 2 ^ 32"
    and "list_all (\<lambda>t. t - io_now io \<le> CMDQUEUE_TIMEOUT) (ticks @ [t0])"
    and "io_rounds io = map (\<lambda>t. (t, \<lambda>s. s)) ticks @
           [(t0, tracker_delivers (target_deviceid cli) (rtxt @ [CR, LF])), (t1, g)]"
  shows "send_rawcmd_reply tr io d cli cmdtxt tag (Some 1024) =
     Some (d, cli, 0, Some rtxt, handle_ok_reply tr (cli_socket cli) name flds)"
proof -
  let ?dev = "target_deviceid cli" and ?s = "d_cmdq d" and ?buf = "rtxt @ [CR, LF]"
  have "length tag \<le> 5" using assms(10) by (simp add: tag_ok_def)
  then obtain i q where
    ins: "cmdqueue_insert (io_now io) (cli_socket cli) ?dev tag cmdtxt ?s = (?s\<lparr>cmdq := q\<rparr>, int i)"
    and i: "i < MAX_CMDQUEUE_LEN" "length q = MAX_CMDQUEUE_LEN"
    and e: "q ! i = new_entry (io_now io) (cli_socket cli) ?dev tag cmdtxt zero_entry"
    and m: "cmdqueue_match ?dev tag (?s\<lparr>cmdq := q\<rparr>) = Some i"
    and clr: "fst (cmdqueue_clridx i (?s\<lparr>cmdq := q\<rparr>)) = ?s"
    using assms(11) by (rule insert_fresh [OF assms(1-3,7,8)])
  let ?q = "?s\<lparr>cmdq := q\<rparr>"
  have qi: "\<not> q_validreply (cmdq ?q ! i)" "q_ts (cmdq ?q ! i) = io_now io"
    by (simp_all add: e new_entry_def zero_entry_def)
  have "reply_package_tag ?dev ?buf = Some (Some tag)"
    unfolding assms(17) using assms(12,10,13,14,15) unfolding assms(17) by (rule reply_package_tag_ok)
  from handle_reply_match [OF this m] assms(15,16)
  have td: "tracker_delivers ?dev ?buf ?q = post_reply i ?buf ?q"
    by (simp add: tracker_delivers_def ascii_def)
  have "cmdqueue_check_reply i 1024 (io_rounds io) ?q = Some (fst (cmdqueue_clridx i ?q), 0, ?buf)"
    unfolding assms(22)
    using i qi assms(15,16,19,20,21) td by (intro check_reply_delivered) (auto simp: ascii_def)
  then have wait: "cmdqueue_check_reply i 1024 (io_rounds io) ?q = Some (?s, 0, ?buf)"
    by (simp only: clr)
  have fin: "finish_reply tr (cli_socket cli) tag (Some 1024) ?buf
      = Some (0, Some rtxt, handle_ok_reply tr (cli_socket cli) name flds)"
    using finish_reply_ok [OF assms(12,10,13), of 1024] assms(15) unfolding assms(17) by simp
  have "send_rawcmd_reply_over_gprs tr io d cli cmdtxt tag (Some 1024) =
     Some (d\<lparr>d_cmdq := ?s\<rparr>, cli, 0, Some rtxt, handle_ok_reply tr (cli_socket cli) name flds)"
    using ins wait fin assms(4,18) by (simp add: send_rawcmd_reply_over_gprs_def Let_def)
  then show ?thesis using assms(5,6) by (simp add: send_rawcmd_reply_def)
qed

definition sample_gprs :: sysio where
  "sample_gprs = sample_usb\<lparr>io_write := (\<lambda>txt. int (length txt)), io_now := 1400000000,
     io_rounds := [(1400000001, \<lambda>s. s),
       (1400000002, tracker_delivers 3000000001 (reply_text True ''VER'' ''0001'' [''M7'', ''2.005''] @ [CR, LF])),
       (1400000003, \<lambda>s. s)]\<rparr>"

definition sample_daemon :: daemon where
  "sample_daemon = \<lparr>d_cmdq = cmdqueue_init, d_tagnbr = 0, d_clients = [sample_device]\<rparr>"

definition sample_target :: client_info where
  "sample_target = sample_client\<lparr>target_socket := 7, target_deviceid := 3000000001, target_cli_idx := 0\<rparr>"

theorem gprs_command_gets_its_reply_witness:
  "send_rawcmd_reply False sample_gprs sample_daemon sample_target ''$WP+VER+0001=0000,?'' ''0001'' (Some 1024) =
     Some (sample_daemon, sample_target, 0, Some (reply_text True ''VER'' ''0001'' [''M7'', ''2.005'']),
           handle_ok_reply False (cli_socket sample_target) ''VER'' [''M7'', ''2.005''])"
  by (rule gprs_command_gets_its_reply [where ticks = "[1400000001]" and ?t0.0 = 1400000002
        and ?t1.0 = 1400000003 and g = "\<lambda>s. s"])
    (simp_all add: sample_daemon_def sample_target_def sample_gprs_def sample_usb_def sample_device_def
      sample_client_def cmdq_wf_def entry_wf_def free_zeroed_def cmdqueue_match_None entry_matches_def
      cmdqueue_init_def [unfolded MAX_CMDQUEUE_LEN_def] qt.used_def zero_entry_def entry_free_def MAX_CMDQUEUE_LEN_def
      tag_ok_def name_ok_def flds_ok_def MAX_FIELD_SIZE_def MAX_SPLIT_FIELDS_def reply_text_def status_text_def
      ascii_def CMDQUEUE_TIMEOUT_def list_all_iff)

text \<open>
  C11: several packages in one read are handled one by one, in the order they arrive, each exactly
  once and with its line end; an incomplete piece at the end is left out.
\<close>

theorem packages_handled_in_order:
  assumes "list_all (\<lambda>p. CR \<notin> set p) pkgs" and "CR \<notin> set rest"
  shows "process_events devid (concat (map (\<lambda>p. p @ [CR, LF]) pkgs) @ rest) st =
     handle_all devid (map (\<lambda>p. p @ [CR, LF]) pkgs) st"
  by (rule process_events_all [OF assms])

theorem packages_handled_in_order_witness:
  "process_events 3000000001 (''abc'' @ [CR, LF] @ ''$x'') (cmdqueue_init, [])
     = handle_all 3000000001 [''abc'' @ [CR, LF]] (cmdqueue_init, [])"
  using packages_handled_in_order [of "[''abc'']" "''$x''" 3000000001 "(cmdqueue_init, [])"] by simp

text \<open>
  C34: a reply package changes only the slot of the command it answers. Handling never touches the
  size of the queue, and a slot is changed only if its command was sent to this device and, where the
  reply carries a tag, with this tag; the change stores the reply and nothing else.
\<close>

theorem reply_package_frame:
  assumes "handleCmdReplyPackage devid buf s = Some (s', rc)"
  shows "length (cmdq s') = length (cmdq s) \<and> cmdq_len s' = cmdq_len s \<and>
     (s' = s \<or> (\<exists>i tag r. reply_package_tag devid buf = Some (Some tag) \<and> i < length (cmdq s) \<and>
        entry_matches devid tag (cmdq s ! i) \<and>
        cmdq s' = (cmdq s)[i := (cmdq s ! i)\<lparr>q_reply := r, q_validreply := True\<rparr>] \<and> rc = 0))"
proof (cases "s' = s")
  case False
  then obtain tag i r where "reply_package_tag devid buf = Some (Some tag)"
    "cmdqueue_match devid tag s = Some i" "s' = post_reply i r s" "rc = 0"
    using assms by (auto simp: handleCmdReplyPackage_def split: option.splits)
  then show ?thesis using cmdqueue_match_Some [of devid tag s i] by (auto simp: post_reply_def)
qed simp

theorem reply_package_frame_witness:
  "handleCmdReplyPackage 3000000001 (reply_text True ''RESET'' ''0009'' [] @ [CR, LF]) cmdqueue_init
     = Some (cmdqueue_init, -1) \<and> length (cmdq cmdqueue_init) = 128"
proof -
  have "reply_package_tag 3000000001 (reply_text True ''RESET'' ''0009'' [] @ [CR, LF]) = Some (Some ''0009'')"
    by (intro reply_package_tag_reply) (simp_all add: name_ok_def tag_ok_def)
  moreover have "cmdqueue_match 3000000001 ''0009'' cmdqueue_init = None"
    by (simp add: cmdqueue_match_None entry_matches_def cmdqueue_init_def zero_entry_def)
  ultimately have "handleCmdReplyPackage 3000000001 (reply_text True ''RESET'' ''0009'' [] @ [CR, LF]) cmdqueue_init
     = Some (cmdqueue_init, -1)"
    by (simp add: handleCmdReplyPackage_def GFEN_TRACK_TAG_def)
  with reply_package_frame [OF this] show ?thesis by (simp add: cmdqueue_init_def MAX_CMDQUEUE_LEN_def)
qed

lemma bytes4:
  assumes "(n :: nat) < 2 ^ 32"
  shows "n mod 256 + n div 256 mod 256 * 256 + n div 65536 mod 256 * 65536
      + n div 16777216 mod 256 * 16777216 = n"
proof -
  define a b c where "a = n div 256" and "b = a div 256" and "c = b div 256"
  have d: "n div 65536 = b" "n div 16777216 = c"
    by (simp_all add: a_def b_def c_def div_mult2_eq [symmetric])
  have "c < 256" using assms by (simp add: d(2) [symmetric] less_mult_imp_div_less)
  then have "c mod 256 = c" by simp
  moreover have "n = a * 256 + n mod 256" "a = b * 256 + a mod 256" "b = c * 256 + b mod 256"
    unfolding a_def b_def c_def by (rule div_mult_mod_eq [symmetric])+
  ultimately show ?thesis unfolding d a_def [symmetric] by linarith
qed

text \<open>
  A keep-alive package gives the connection its device. The id is the number whose bytes the
  package carries, for every 32-bit id; it is stored only while the connection has none, a connection of
  the same device from another address and socket is cancelled, and the notification of a new connection
  is run exactly when there was none.
\<close>

theorem keepalive_sets_device:
  assumes "length pkg = 8" and "pkg ! 0 = CHR 0xD0" and "pkg ! 1 = CHR 0xD7"
    and "\<And>k. k < 4 \<Longrightarrow> pkg ! (4 + k) = char_of (unat devid div 256 ^ k)"
    and "self < length clients"
  shows "handleKeepAlivePackage clients self pkg 8 =
     (if cli_devid (clients ! self) = 0
      then (clients[self := (clients ! self)\<lparr>cli_devid := devid\<rparr>],
            old_connections clients (clients ! self) devid,
            if old_connections clients (clients ! self) devid = [] then Some devid else None, 0)
      else (clients, [], None, 0))"
proof -
  let ?n = "unat devid"
  have b: "byte (pkg ! (4 + k)) = ?n div 256 ^ k mod 256" if "k < 4" for k
    using assms(4) [OF that] by simp
  have n: "?n < 2 ^ 32" using unsigned_less [of devid, where 'a = nat] by simp
  have "byte (pkg ! 4) = ?n mod 256" "byte (pkg ! 5) = ?n div 256 mod 256"
    "byte (pkg ! 6) = ?n div 65536 mod 256" "byte (pkg ! 7) = ?n div 16777216 mod 256"
    using b [of 0] b [of 1] b [of 2] b [of 3] by simp_all
  then have "keepalive_devid pkg = word_of_nat ?n"
    unfolding keepalive_devid_def mult_1_right by (simp only: bytes4 [OF n])
  then have "keepalive_devid pkg = devid" by simp
  then show ?thesis
    using assms by (simp add: handleKeepAlivePackage_def KEEP_ALIVE_LEN_def Let_def)
qed

theorem keepalive_sets_device_witness:
  "\<exists>pkg. length pkg = 8 \<and> handleKeepAlivePackage [sample_device\<lparr>cli_devid := 0\<rparr>] 0 pkg 8
     = ([sample_device], [], Some 3000000001, 0)"
proof -
  let ?pkg = "[CHR 0xD0, CHR 0xD7, NUL, NUL] @ map (\<lambda>k. char_of (unat (3000000001 :: u32) div 256 ^ k)) [0, 1, 2, 3]"
  have p: "?pkg ! (4 + k) = char_of (unat (3000000001 :: u32) div 256 ^ k)" if "k < 4" for k
  proof -
    have "k = 0 \<or> k = 1 \<or> k = 2 \<or> k = 3" using that by auto
    then show ?thesis by (auto simp: nth_append)
  qed
  have "handleKeepAlivePackage [sample_device\<lparr>cli_devid := 0\<rparr>] 0 ?pkg 8 = ([sample_device], [], Some 3000000001, 0)"
    by (subst keepalive_sets_device [OF _ _ _ p])
      (simp_all add: sample_device_def sample_client_def old_connections_def)
  moreover have "length ?pkg = 8" by simp
  ultimately show ?thesis by blast
qed

lemma idle_loop:
  "tracker_loop mx w (replicate k NetTimeout) t = Some (t', ended) \<Longrightarrow> t_idle t < mx \<Longrightarrow>
   (ended \<longleftrightarrow> mx \<le> t_idle t + 2 * k) \<and> (\<not> ended \<longrightarrow> t_idle t' = t_idle t + 2 * k)"
proof (induction k arbitrary: t)
  case (Suc k)
  show ?case
  proof (cases "mx \<le> t_idle t + 2")
    case True
    with Suc.prems show ?thesis
      by (simp add: tracker_round_def TRACKER_SOCKET_TIMEOUT_def Let_def)
  next
    case False
    then have "tracker_loop mx w (replicate k NetTimeout) (t\<lparr>t_idle := t_idle t + 2\<rparr>) = Some (t', ended)"
      using Suc.prems by (simp add: tracker_round_def TRACKER_SOCKET_TIMEOUT_def Let_def)
    from Suc.IH [OF this] False show ?thesis by simp
  qed
qed simp

lemma idle_loop_total: "\<exists>t' ended. tracker_loop mx w (replicate k NetTimeout) t = Some (t', ended)"
  by (induction k arbitrary: t) (auto simp: tracker_round_def Let_def)

text \<open>
  C35: a silent device is disconnected after the configured idle time and not before: after \<open>k\<close>
  time-outs of two seconds in a row since the last data, the loop has ended exactly if \<open>2 * k\<close> has reached
  the limit.
\<close>

theorem idle_device_disconnected:
  assumes "t_idle t = 0" and "0 < max_device_idle_time"
  shows "\<exists>t' ended. tracker_loop max_device_idle_time w (replicate k NetTimeout) t = Some (t', ended) \<and>
     (ended \<longleftrightarrow> max_device_idle_time \<le> 2 * k)"
proof -
  obtain t' ended where "tracker_loop max_device_idle_time w (replicate k NetTimeout) t = Some (t', ended)"
    using idle_loop_total by blast
  with idle_loop [OF this] assms show ?thesis by simp
qed

theorem idle_device_disconnected_witness:
  "\<exists>t' ended. tracker_loop 1200 0 (replicate 600 NetTimeout)
      \<lparr>t_idle = 0, t_clients = [sample_device], t_self = 0, t_cmdq = cmdqueue_init, t_locs = []\<rparr> = Some (t', ended) \<and> ended"
  using idle_device_disconnected [of "\<lparr>t_idle = 0, t_clients = [sample_device], t_self = 0, t_cmdq = cmdqueue_init, t_locs = []\<rparr>" 1200 0 600]
  by auto

text \<open>
  After a fence event the device is told to track, if that is configured, with the special tag
  whose reply the tracker thread accepts without an entry in the queue.
\<close>

theorem gfen_tracking_command:
  assumes "xatoi (flds ! GM7_LOC_EVENTID) = 48" and "interval < 2 ^ 32"
    and "cmdqueue_match devid GFEN_TRACK_TAG s = None"
  shows "chk_specialhandling True interval flds =
       Some (''$WP+TRACK+TR48=0000,1,'' @ dec interval @ '',0,0,0,4,15'' @ [CR, LF]) \<and>
     chk_specialhandling False interval flds = None \<and>
     handleCmdReplyPackage devid (reply_text True ''TRACK'' GFEN_TRACK_TAG [] @ [CR, LF]) s = Some (s, 0)"
proof -
  have l: "length (dec interval) \<le> 10" using assms(2) by (intro length_dec_less) simp_all
  have pin: "get_device_pin 7 = (0, Some ''0000'')"
    by (simp add: get_device_pin_def xmb_strncpy_ascii ascii_def)
  have e: "to_uint32 48 = 48" using to_uint32_id [of 48] by simp
  have "reply_package_tag devid (reply_text True ''TRACK'' GFEN_TRACK_TAG [] @ [CR, LF]) = Some (Some GFEN_TRACK_TAG)"
    by (intro reply_package_tag_reply) (simp_all add: name_ok_def tag_ok_def GFEN_TRACK_TAG_def)
  then show ?thesis
    using l assms(1,3) e
    by (simp add: chk_specialhandling_def pin handleCmdReplyPackage_def GFEN_TRACK_TAG_def)
qed

theorem gfen_tracking_command_witness:
  "chk_specialhandling True 60 [''3000000001'', ''20140107232526'', ''17.961028'', ''59.366470'', ''0'', ''0'', ''0'', ''0'', ''48'']
     = Some (''$WP+TRACK+TR48=0000,1,'' @ dec 60 @ '',0,0,0,4,15'' @ [CR, LF])"
proof -
  have "xatoi ''48'' = 48"
    by (simp add: xatoi_def is_digit_def strtol_all_digits dec_value_def LONG_MAX_def LONG_MIN_def to_int32_id)
  moreover have "cmdqueue_match 3000000001 GFEN_TRACK_TAG cmdqueue_init = None"
    by (simp add: cmdqueue_match_None entry_matches_def cmdqueue_init_def zero_entry_def)
  ultimately show ?thesis
    using gfen_tracking_command [of "[''3000000001'', ''20140107232526'', ''17.961028'', ''59.366470'', ''0'', ''0'', ''0'', ''0'', ''48'']"
        60 3000000001 cmdqueue_init] by simp
qed

end
