(* ===== verification/Reply_Routing.thy ===== *)
theory Reply_Routing
  imports Tracker
begin

text \<open>
  The command queue under interleaving. Command threads insert, collect and give up; tracker threads
  look an entry up and later, in a separate step without the mutex, store the reply in it
  (\<open>cmdqueue_match\<close> and the assignments after it in \<open>handleCmdReplyPackage\<close>). The steps are the
  operations of the other theories; the relation says in which order the threads may perform them.
\<close>

section \<open>The system\<close>

text \<open>
  The queue; for each command thread the slot it polls with the device and tag of its command; for
  each tracker thread the slot it has found and the reply it is about to store, with the device and tag of
  the reply; for each slot the device and tag of the reply stored last; and the replies collected: thread, slot,
  device and tag of the command, device and tag of the reply. \<open>sy_raced\<close> only observes: the slots that were ever
  cleared while a reply had been found to be for them and was not yet stored.
\<close>

type_synonym origin = "u32 \<times> string"

record qsys =
  sy_q :: cmdq_state
  sy_wait :: "nat \<Rightarrow> (nat \<times> origin) option"
  sy_post :: "nat \<Rightarrow> (nat \<times> origin \<times> string) option"
  sy_src :: "nat \<Rightarrow> origin"
  sy_got :: "(nat \<times> nat \<times> origin \<times> origin) list"
  sy_raced :: "nat set"

definition qsys_init :: qsys where
  "qsys_init = \<lparr>sy_q = cmdqueue_init, sy_wait = (\<lambda>_. None), sy_post = (\<lambda>_. None),
                sy_src = (\<lambda>_. (0, [])), sy_got = [], sy_raced = {}\<rparr>"

text \<open>
  Clearing a slot. The mutex is not held between the look-up and the store of a reply, so this may happen in between.
\<close>

definition clear_slot :: "nat \<Rightarrow> nat \<Rightarrow> qsys \<Rightarrow> qsys" where
  "clear_slot t i s =
     s\<lparr>sy_q := fst (cmdqueue_clridx i (sy_q s)), sy_wait := (sy_wait s)(t := None),
       sy_raced := (if \<exists>k org r. sy_post s k = Some (i, org, r) then insert i (sy_raced s) else sy_raced s)\<rparr>"

inductive qstep :: "qsys \<Rightarrow> qsys \<Rightarrow> bool" where
  insert_cmd:
    "sy_wait s t = None \<Longrightarrow> now \<noteq> 0 \<Longrightarrow>
     cmdqueue_insert now sockd dev tag cmd (sy_q s) = (q, int i) \<Longrightarrow>
     qstep s (s\<lparr>sy_q := q, sy_wait := (sy_wait s)(t \<mapsto> (i, dev, tag))\<rparr>)"
| match_reply:
    "sy_post s k = None \<Longrightarrow> cmdqueue_match dev tag (sy_q s) = Some i \<Longrightarrow>
     qstep s (s\<lparr>sy_post := (sy_post s)(k \<mapsto> (i, (dev, tag), r))\<rparr>)"
| store_reply:
    "sy_post s k = Some (i, org, r) \<Longrightarrow>
     qstep s (s\<lparr>sy_q := post_reply i r (sy_q s), sy_post := (sy_post s)(k := None),
                      sy_src := (sy_src s)(i := org)\<rparr>)"
| collect:
    "sy_wait s t = Some (i, org) \<Longrightarrow> q_validreply (cmdq (sy_q s) ! i) \<Longrightarrow>
     qstep s (clear_slot t i (s\<lparr>sy_got := sy_got s @ [(t, i, org, sy_src s i)]\<rparr>))"
| time_out:
    "sy_wait s t = Some (i, org) \<Longrightarrow> qstep s (clear_slot t i s)"
| write_failed:
    "sy_wait s t = Some (i, org) \<Longrightarrow> qstep s (s\<lparr>sy_wait := (sy_wait s)(t := None)\<rparr>)"

inductive reachable :: "qsys \<Rightarrow> bool" where
  reach_init: "reachable qsys_init"
| reach_step: "reachable s \<Longrightarrow> qstep s s' \<Longrightarrow> reachable s'"

section \<open>The invariant\<close>

text \<open>
  A thread's slot holds its command and no two threads share a slot; in the slots without a race a reply about to be
  stored and a reply stored match the entry they are for.
\<close>

definition waits_ok :: "qsys \<Rightarrow> bool" where
  "waits_ok s \<longleftrightarrow> (\<forall>t i dev tag. sy_wait s t = Some (i, dev, tag) \<longrightarrow>
     i < MAX_CMDQUEUE_LEN \<and> q_devid (cmdq (sy_q s) ! i) = dev \<and> q_tag (cmdq (sy_q s) ! i) = tag \<and>
     q_ts (cmdq (sy_q s) ! i) \<noteq> 0)"

definition waits_distinct :: "qsys \<Rightarrow> bool" where
  "waits_distinct s \<longleftrightarrow> (\<forall>t u i x y. sy_wait s t = Some (i, x) \<and> sy_wait s u = Some (i, y) \<longrightarrow> t = u)"

definition posts_ok :: "qsys \<Rightarrow> bool" where
  "posts_ok s \<longleftrightarrow> (\<forall>k i dev tag r. sy_post s k = Some (i, (dev, tag), r) \<longrightarrow>
     i < MAX_CMDQUEUE_LEN \<and> (i \<notin> sy_raced s \<longrightarrow> entry_matches dev tag (cmdq (sy_q s) ! i)))"

definition srcs_ok :: "qsys \<Rightarrow> bool" where
  "srcs_ok s \<longleftrightarrow> (\<forall>i < MAX_CMDQUEUE_LEN. i \<notin> sy_raced s \<longrightarrow> q_validreply (cmdq (sy_q s) ! i) \<longrightarrow>
     entry_matches (fst (sy_src s i)) (snd (sy_src s i)) (cmdq (sy_q s) ! i))"

definition got_ok :: "qsys \<Rightarrow> bool" where
  "got_ok s \<longleftrightarrow> list_all (\<lambda>(t, i, (dev, tag), (dev', tag')). i \<notin> sy_raced s \<longrightarrow> dev' = dev \<and> (tag' = [] \<or> tag' = tag)) (sy_got s)"

definition routing_inv :: "qsys \<Rightarrow> bool" where
  "routing_inv s \<longleftrightarrow> cmdq_wf (sy_q s) \<and> waits_ok s \<and> waits_distinct s \<and> posts_ok s \<and> srcs_ok s \<and> got_ok s"

lemmas routing_defs = waits_ok_def waits_distinct_def posts_ok_def srcs_ok_def got_ok_def

lemma post_reply_nth:
  "length (cmdq s) = MAX_CMDQUEUE_LEN \<Longrightarrow> i < MAX_CMDQUEUE_LEN \<Longrightarrow>
   cmdq (post_reply i r s) ! j = (if j = i then (cmdq s ! i)\<lparr>q_reply := r, q_validreply := True\<rparr> else cmdq s ! j)"
  by (simp add: post_reply_def nth_list_update)

lemma clridx_nth_eq:
  "length (cmdq s) = MAX_CMDQUEUE_LEN \<Longrightarrow> i < MAX_CMDQUEUE_LEN \<Longrightarrow>
   cmdq (fst (cmdqueue_clridx i s)) ! j = (if j = i then zero_entry else cmdq s ! j)"
  by (simp add: cmdqueue_clridx_def nth_list_update)

lemma post_reply_wf: "cmdq_wf s \<Longrightarrow> i < MAX_CMDQUEUE_LEN \<Longrightarrow> cmdq_wf (post_reply i r s)"
  by (auto simp: cmdq_wf_def post_reply_def list_all_length nth_list_update entry_wf_def)

lemma entry_matches_simps [simp]:
  "entry_matches dev tag (e\<lparr>q_reply := r, q_validreply := b\<rparr>) = entry_matches dev tag e"
  "\<not> entry_matches dev tag zero_entry"
  "entry_matches dev tag e \<Longrightarrow> \<not> entry_free e"
  by (auto simp: entry_matches_def zero_entry_def entry_free_def)

text \<open>An insertion fills a free slot and leaves the others.\<close>

lemma insert_Some:
  assumes "cmdq_wf q" and "cmdqueue_insert now sockd dev tag cmd q = (q', int i)"
  shows "i < MAX_CMDQUEUE_LEN" "entry_free (cmdq q ! i)" "cmdq_wf q'"
    "cmdq q' ! j = (if j = i then new_entry now sockd dev tag cmd (cmdq q ! i) else cmdq q ! j)"
proof -
  obtain l where l: "qt.alloc (new_entry now sockd dev tag cmd) (cmdq q) = Some (i, l)" "q' = q\<lparr>cmdq := l\<rparr>"
    using assms by (auto simp: cmdqueue_insert_alloc split: if_splits option.splits)
  note a = qt.alloc_Some [OF l(1)]
  show "i < MAX_CMDQUEUE_LEN" using a(1) assms(1) by (simp add: cmdq_wf_def)
  show "entry_free (cmdq q ! i)" by (rule a(2))
  show "cmdq_wf q'" using cmdqueue_insert_wf [OF assms(1), of now sockd dev tag cmd] assms(2) by simp
  show "cmdq q' ! j = (if j = i then new_entry now sockd dev tag cmd (cmdq q ! i) else cmdq q ! j)"
    using a l(2) by (simp add: nth_list_update)
qed

lemma inv_insert:
  assumes inv: "routing_inv s" and w: "sy_wait s t = None" and now: "now \<noteq> 0"
    and ins: "cmdqueue_insert now sockd dev tag cmd (sy_q s) = (q, int i)"
  shows "routing_inv (s\<lparr>sy_q := q, sy_wait := (sy_wait s)(t \<mapsto> (i, dev, tag))\<rparr>)"
proof -
  have wf: "cmdq_wf (sy_q s)" using inv by (simp add: routing_inv_def)
  note I = insert_Some [OF wf ins]
  have free: "q_ts (cmdq (sy_q s) ! i) = 0" "\<And>d tg. \<not> entry_matches d tg (cmdq (sy_q s) ! i)"
    using I(2) by (auto simp: entry_free_def entry_matches_def)
  have noone: "sy_wait s u \<noteq> Some (i, x)" for u x
    using inv free(1) by (cases x) (auto simp: routing_inv_def waits_ok_def)
  have "waits_ok (s\<lparr>sy_q := q, sy_wait := (sy_wait s)(t \<mapsto> (i, dev, tag))\<rparr>)"
    using inv now I(1) noone by (auto simp: routing_inv_def waits_ok_def I(4) new_entry_def)
  moreover have "waits_distinct (s\<lparr>sy_q := q, sy_wait := (sy_wait s)(t \<mapsto> (i, dev, tag))\<rparr>)"
    using inv noone by (auto simp: routing_inv_def waits_distinct_def)
  moreover have "posts_ok (s\<lparr>sy_q := q, sy_wait := (sy_wait s)(t \<mapsto> (i, dev, tag))\<rparr>)"
    using inv free(2) by (auto simp: routing_inv_def posts_ok_def I(4)) blast+
  moreover have "srcs_ok (s\<lparr>sy_q := q, sy_wait := (sy_wait s)(t \<mapsto> (i, dev, tag))\<rparr>)"
    using inv free(2) I(1) by (auto simp: routing_inv_def srcs_ok_def I(4) new_entry_def)
  ultimately show ?thesis using inv I(3) by (simp add: routing_inv_def got_ok_def)
qed

lemma inv_match:
  assumes inv: "routing_inv s" and "cmdqueue_match dev tag (sy_q s) = Some i"
  shows "routing_inv (s\<lparr>sy_post := (sy_post s)(k \<mapsto> (i, (dev, tag), r))\<rparr>)"
  using assms cmdqueue_match_Some [OF assms(2)]
  by (auto simp: routing_inv_def routing_defs cmdq_wf_def)

lemma inv_store:
  assumes inv: "routing_inv s" and p: "sy_post s k = Some (i, org, r)"
  shows "routing_inv (s\<lparr>sy_q := post_reply i r (sy_q s), sy_post := (sy_post s)(k := None),
                        sy_src := (sy_src s)(i := org)\<rparr>)"
proof -
  obtain dev tag where o: "org = (dev, tag)" by (cases org)
  have len: "length (cmdq (sy_q s)) = MAX_CMDQUEUE_LEN" and wf: "cmdq_wf (sy_q s)"
    using inv by (simp_all add: routing_inv_def cmdq_wf_def)
  have i: "i < MAX_CMDQUEUE_LEN" and m: "i \<notin> sy_raced s \<Longrightarrow> entry_matches dev tag (cmdq (sy_q s) ! i)"
    using inv p unfolding o routing_inv_def posts_ok_def by blast+
  note n = post_reply_nth [OF len i]
  show ?thesis
    using inv m post_reply_wf [OF wf i] o
    by (auto simp: routing_inv_def routing_defs n)
qed

lemma inv_clear:
  assumes inv: "routing_inv s" and w: "sy_wait s t = Some (i, org)"
  shows "routing_inv (clear_slot t i s)"
proof -
  let ?s = "clear_slot t i s"
  have len: "length (cmdq (sy_q s)) = MAX_CMDQUEUE_LEN" and wf: "cmdq_wf (sy_q s)"
    using inv by (simp_all add: routing_inv_def cmdq_wf_def)
  have i: "i < MAX_CMDQUEUE_LEN" using inv w by (cases org) (auto simp: routing_inv_def waits_ok_def)
  note n = clridx_nth_eq [OF len i]
  have only: "u = t" if "sy_wait s u = Some (i, x)" for u x
    using inv w that by (auto simp: routing_inv_def waits_distinct_def)
  have mono: "j \<notin> sy_raced ?s \<Longrightarrow> j \<notin> sy_raced s" for j by (auto simp: clear_slot_def split: if_splits)
  have nopost: "sy_post s k \<noteq> Some (i, x, r)" if "i \<notin> sy_raced ?s" for k x r
    using that by (cases x) (fastforce simp: clear_slot_def split: if_splits)
  have "waits_ok ?s" using inv only by (auto simp: routing_inv_def waits_ok_def n clear_slot_def)
  moreover have "posts_ok ?s"
    unfolding posts_ok_def
  proof (intro allI impI)
    fix k j dev tag r assume a: "sy_post ?s k = Some (j, (dev, tag), r)"
    then have p: "sy_post s k = Some (j, (dev, tag), r)" by (simp add: clear_slot_def)
    then have j: "j < MAX_CMDQUEUE_LEN" "j \<notin> sy_raced s \<longrightarrow> entry_matches dev tag (cmdq (sy_q s) ! j)"
      using inv unfolding routing_inv_def posts_ok_def by blast+
    have "entry_matches dev tag (cmdq (sy_q ?s) ! j)" if o: "j \<notin> sy_raced ?s"
    proof -
      have "j \<noteq> i" using nopost [of k "(dev, tag)" r] p o by blast
      moreover have "entry_matches dev tag (cmdq (sy_q s) ! j)" using j(2) mono [OF o] by blast
      ultimately show ?thesis by (simp add: clear_slot_def n)
    qed
    with j show "j < MAX_CMDQUEUE_LEN \<and> (j \<notin> sy_raced ?s \<longrightarrow> entry_matches dev tag (cmdq (sy_q ?s) ! j))" by simp
  qed
  moreover have "srcs_ok ?s"
    using inv by (auto simp: routing_inv_def srcs_ok_def n zero_entry_def clear_slot_def split: if_splits)
  moreover have "got_ok ?s"
    using inv mono unfolding routing_inv_def got_ok_def list_all_iff by (fastforce simp: clear_slot_def)
  ultimately show ?thesis
    using inv cmdqueue_clridx_wf [OF wf]
    by (auto simp: routing_inv_def waits_distinct_def clear_slot_def)
qed

lemma inv_got:
  assumes inv: "routing_inv s" and w: "sy_wait s t = Some (i, org)" and "q_validreply (cmdq (sy_q s) ! i)"
  shows "routing_inv (s\<lparr>sy_got := sy_got s @ [(t, i, org, sy_src s i)]\<rparr>)"
proof -
  obtain dev tag where o: "org = (dev, tag)" by (cases org)
  have "i < MAX_CMDQUEUE_LEN" "q_devid (cmdq (sy_q s) ! i) = dev" "q_tag (cmdq (sy_q s) ! i) = tag"
    using inv w o by (auto simp: routing_inv_def waits_ok_def)
  moreover have "i \<notin> sy_raced s \<Longrightarrow> entry_matches (fst (sy_src s i)) (snd (sy_src s i)) (cmdq (sy_q s) ! i)"
    using inv assms(3) calculation(1) by (simp add: routing_inv_def srcs_ok_def)
  ultimately have "got_ok (s\<lparr>sy_got := sy_got s @ [(t, i, org, sy_src s i)]\<rparr>)"
    using inv o by (cases "sy_src s i") (auto simp: routing_inv_def got_ok_def entry_matches_def)
  with inv show ?thesis
    by (simp add: routing_inv_def waits_ok_def waits_distinct_def posts_ok_def srcs_ok_def)
qed

lemma inv_step: "qstep s s' \<Longrightarrow> routing_inv s \<Longrightarrow> routing_inv s'"
proof (induction rule: qstep.induct)
  case (collect s t i org)
  then show ?case by (intro inv_clear [where org = org] inv_got) simp_all
next
  case (write_failed s t i org)
  then show ?case by (auto simp: routing_inv_def routing_defs)
qed (auto intro: inv_insert inv_match inv_store inv_clear)

lemma inv_reachable: "reachable s \<Longrightarrow> routing_inv s"
proof (induction rule: reachable.induct)
  case reach_init
  have "q_validreply (replicate MAX_CMDQUEUE_LEN zero_entry ! i) = False" if "i < MAX_CMDQUEUE_LEN" for i
    using that by (simp add: zero_entry_def)
  then show ?case
    using cmdq_wf_init by (simp add: routing_inv_def routing_defs qsys_init_def) (simp add: cmdqueue_init_def)
qed (rule inv_step)

section \<open>Two runs\<close>

abbreviation DEV_A :: u32 where "DEV_A \<equiv> 3000000001"
abbreviation DEV_B :: u32 where "DEV_B \<equiv> 3000000002"

text \<open>The queue with one command, in slot 0.\<close>

definition one_cmd :: "u32 \<Rightarrow> string \<Rightarrow> cmdq_state" where
  "one_cmd dev tag = cmdqueue_init\<lparr>cmdq := (cmdq cmdqueue_init)[0 := new_entry 1 5 dev tag ''CMD'' zero_entry]\<rparr>"

lemma init_nth: "i < MAX_CMDQUEUE_LEN \<Longrightarrow> cmdq cmdqueue_init ! i = zero_entry"
  by (simp add: cmdqueue_init_def)

lemma init_len: "length (cmdq cmdqueue_init) = MAX_CMDQUEUE_LEN" "0 < MAX_CMDQUEUE_LEN"
  by (simp_all add: cmdqueue_init_def MAX_CMDQUEUE_LEN_def)

lemma insert_one: "length tag \<le> 5 \<Longrightarrow> cmdqueue_insert 1 5 dev tag ''CMD'' cmdqueue_init = (one_cmd dev tag, int 0)"
proof -
  assume "length tag \<le> 5"
  moreover have "find_idx entry_free (cmdq cmdqueue_init) = 0"
    using init_len by (intro find_idx_eqI) (simp_all add: init_nth entry_free_def zero_entry_def)
  ultimately show ?thesis
    using init_len by (simp add: cmdqueue_insert_alloc [OF cmdq_wf_init] qt.alloc_def one_cmd_def init_nth)
qed

lemma match_one:
  assumes "dev \<noteq> 0"
  shows "cmdqueue_match dev tag (one_cmd dev tag) = Some 0"
proof (rule cmdqueue_matchI)
  show "0 < length (cmdq (one_cmd dev tag))" using init_len by (simp add: one_cmd_def)
  show "entry_matches dev tag (cmdq (one_cmd dev tag) ! 0)"
    using assms init_len by (simp add: one_cmd_def entry_matches_def new_entry_def)
  show "\<not> entry_matches dev tag (cmdq (one_cmd dev tag) ! j)"
    if "j < length (cmdq (one_cmd dev tag))" "j \<noteq> 0" for j
    using that by (simp add: one_cmd_def init_nth init_len)
qed

lemma clear_one: "fst (cmdqueue_clridx 0 (one_cmd dev tag)) = cmdqueue_init"
proof -
  have "(cmdq cmdqueue_init)[0 := zero_entry] = cmdq cmdqueue_init"
    using init_nth [OF init_len(2)] by (metis list_update_id)
  then show ?thesis using init_len by (simp add: cmdqueue_clridx_def one_cmd_def)
qed

lemma valid_posted: "q_validreply (cmdq (post_reply 0 r (one_cmd dev tag)) ! 0)"
  using init_len by (simp add: post_reply_def one_cmd_def)

lemma upd_None: "(\<lambda>_. None)(k := None) = (\<lambda>_. None)"
  by auto

text \<open>A command is sent, answered and the reply collected.\<close>

lemma good_run: "\<exists>s. reachable s \<and> sy_raced s = {} \<and> sy_got s = [(1, 0, (DEV_A, ''0001''), (DEV_A, ''0001''))]"
proof -
  let ?q = "one_cmd DEV_A ''0001''" and ?w = "\<lambda>_. None"
  define s1 where "s1 = qsys_init\<lparr>sy_q := ?q, sy_wait := ?w(1 \<mapsto> (0, DEV_A, ''0001''))\<rparr>"
  define s2 where "s2 = s1\<lparr>sy_post := ?w(1 \<mapsto> (0, (DEV_A, ''0001''), ''R''))\<rparr>"
  define s3 where "s3 = s2\<lparr>sy_q := post_reply 0 ''R'' ?q, sy_post := ?w,
      sy_src := (\<lambda>_. (0, []))(0 := (DEV_A, ''0001''))\<rparr>"
  have 1: "qstep qsys_init s1"
    using insert_cmd [of qsys_init 1 1 5 DEV_A "''0001''" "''CMD''" ?q 0] insert_one [of "''0001''" DEV_A]
    by (simp add: s1_def qsys_init_def)
  have 2: "qstep s1 s2"
    using match_reply [of s1 1 DEV_A "''0001''" 0 "''R''"] match_one [of DEV_A "''0001''"]
    by (simp add: s2_def s1_def qsys_init_def)
  have 3: "qstep s2 s3"
    using store_reply [of s2 1 0 "(DEV_A, ''0001'')" "''R''"]
    by (simp add: s3_def s2_def s1_def qsys_init_def)
  have "\<exists>s4. qstep s3 s4 \<and> sy_raced s4 = {} \<and> sy_got s4 = [(1, 0, (DEV_A, ''0001''), (DEV_A, ''0001''))]"
    using collect [of s3 1 0 "(DEV_A, ''0001'')"] valid_posted
    by (auto simp: s3_def s2_def s1_def qsys_init_def clear_slot_def)
  with 1 2 3 show ?thesis by (meson reach_init reach_step)
qed

text \<open>
  The tracker thread has found the slot of a command; before it stores the reply the command times out
  and the slot is given to a command for another device.
\<close>

lemma bad_run: "\<exists>s. reachable s \<and> sy_got s = [(2, 0, (DEV_B, ''0002''), (DEV_A, ''0001''))]"
proof -
  let ?q = "one_cmd DEV_A ''0001''" and ?q' = "one_cmd DEV_B ''0002''" and ?w = "\<lambda>_. None"
  let ?p = "?w(1 \<mapsto> (0, (DEV_A, ''0001''), ''R''))"
  define s1 where "s1 = qsys_init\<lparr>sy_q := ?q, sy_wait := ?w(1 \<mapsto> (0, DEV_A, ''0001''))\<rparr>"
  define s2 where "s2 = s1\<lparr>sy_post := ?p\<rparr>"
  define s3 where "s3 = qsys_init\<lparr>sy_post := ?p, sy_raced := {0}\<rparr>"
  define s4 where "s4 = s3\<lparr>sy_q := ?q', sy_wait := ?w(2 \<mapsto> (0, DEV_B, ''0002''))\<rparr>"
  define s5 where "s5 = s4\<lparr>sy_q := post_reply 0 ''R'' ?q', sy_post := ?w,
      sy_src := (\<lambda>_. (0, []))(0 := (DEV_A, ''0001''))\<rparr>"
  have 1: "qstep qsys_init s1"
    using insert_cmd [of qsys_init 1 1 5 DEV_A "''0001''" "''CMD''" ?q 0] insert_one [of "''0001''" DEV_A]
    by (simp add: s1_def qsys_init_def)
  have 2: "qstep s1 s2"
    using match_reply [of s1 1 DEV_A "''0001''" 0 "''R''"] match_one [of DEV_A "''0001''"]
    by (simp add: s2_def s1_def qsys_init_def)
  have "sy_post s2 1 = Some (0, (DEV_A, ''0001''), ''R'')" by (simp add: s2_def)
  then have "clear_slot 1 0 s2 = s2\<lparr>sy_q := cmdqueue_init, sy_wait := ?w, sy_raced := insert 0 (sy_raced s2)\<rparr>"
    unfolding clear_slot_def
    by (subst if_P) (blast, simp add: clear_one upd_None s2_def s1_def qsys_init_def)
  then have "clear_slot 1 0 s2 = s3" by (simp add: s3_def s2_def s1_def qsys_init_def)
  then have 3: "qstep s2 s3"
    using time_out [of s2 1 0 "(DEV_A, ''0001'')"] by (simp add: s2_def s1_def)
  have 4: "qstep s3 s4"
    using insert_cmd [of s3 2 1 5 DEV_B "''0002''" "''CMD''" ?q' 0] insert_one [of "''0002''" DEV_B]
    by (simp add: s4_def s3_def qsys_init_def)
  have 5: "qstep s4 s5"
    using store_reply [of s4 1 0 "(DEV_A, ''0001'')" "''R''"]
    by (simp add: s5_def s4_def s3_def qsys_init_def)
  have "\<exists>s6. qstep s5 s6 \<and> sy_got s6 = [(2, 0, (DEV_B, ''0002''), (DEV_A, ''0001''))]"
    using collect [of s5 2 0 "(DEV_B, ''0002'')"] valid_posted
    by (auto simp: s5_def s4_def s3_def qsys_init_def clear_slot_def)
  with 1 2 3 4 5 show ?thesis by (meson reach_init reach_step)
qed

section \<open>Properties\<close>

text \<open>
  C2: replies reach the thread that waits for them. In every interleaving of command and tracker threads,
  with no lock between the look-up and the store of a reply, every reply a thread collects came from the
  device its command was sent to, and carries the tag of its command or no tag at all, unless the slot of
  the command was cleared at some time while a reply found to be for it was not yet stored.
\<close>

theorem replies_routed_to_sender:
  assumes "reachable s" and "(t, i, (dev, tag), (dev', tag')) \<in> set (sy_got s)" and "i \<notin> sy_raced s"
  shows "dev' = dev \<and> (tag' = [] \<or> tag' = tag)"
  using inv_reachable [OF assms(1)] assms(2,3) by (auto simp: routing_inv_def got_ok_def list_all_iff)

theorem replies_routed_to_sender_witness:
  "\<exists>s. reachable s \<and> (1, 0, (DEV_A, ''0001''), (DEV_A, ''0001'')) \<in> set (sy_got s) \<and> 0 \<notin> sy_raced s \<and>
     DEV_A = DEV_A \<and> (''0001'' = [] \<or> ''0001'' = ''0001'')"
proof -
  obtain s where "reachable s" "sy_raced s = {}" "sy_got s = [(1, 0, (DEV_A, ''0001''), (DEV_A, ''0001''))]"
    using good_run by blast
  then show ?thesis using replies_routed_to_sender [of s 1 0 DEV_A "''0001''" DEV_A "''0001''"] by auto
qed

text \<open>
  The exception is real: the look-up and the store of a reply are not protected by the mutex, and there is
  an interleaving in which a thread that waits for one device is given the reply of another.
\<close>

theorem unlocked_reply_misrouted:
  "\<exists>s t i dev tag dev' tag'. reachable s \<and> (t, i, (dev, tag), (dev', tag')) \<in> set (sy_got s) \<and> dev' \<noteq> dev"
proof -
  obtain s where s: "reachable s" "sy_got s = [(2, 0, (DEV_B, ''0002''), (DEV_A, ''0001''))]"
    using bad_run by blast
  moreover have "DEV_A \<noteq> DEV_B" by simp
  ultimately show ?thesis by (metis list.set_intros(1))
qed

text \<open>So is the empty tag: a reply without a tag is found to be for the first command of its device in the queue.\<close>

lemma untagged_reply_matches_any: "dev \<noteq> 0 \<Longrightarrow> cmdqueue_match dev [] (one_cmd dev tag) = Some 0"
proof (rule cmdqueue_matchI)
  assume "dev \<noteq> 0"
  then show "entry_matches dev [] (cmdq (one_cmd dev tag) ! 0)"
    using init_len by (simp add: one_cmd_def entry_matches_def new_entry_def)
  show "\<not> entry_matches dev [] (cmdq (one_cmd dev tag) ! j)"
    if "j < length (cmdq (one_cmd dev tag))" "j \<noteq> 0" for j
    using that by (simp add: one_cmd_def init_nth init_len)
qed (use init_len in \<open>simp add: one_cmd_def\<close>)

end
