(* ===== verification/Userinput.thy ===== *)
theory Userinput
  imports Sendcmd
begin

text \<open>
  The dialogue with a client of the command port (\<^verbatim>\<open>src/src/g7cmd.c\<close>): reading one argument of a command,
  asking for all arguments of a command by its argument table, and the password check. What the client
  sends is a list with one element for each \<open>select\<close> and \<open>read\<close>; an exhausted list is a client that sends
  nothing more, so that \<open>select\<close> times out.
\<close>

section \<open>Reading from the client\<close>

text \<open>A read of no bytes is a closed connection; it stays closed.\<close>

datatype sock_in = S_timeout | S_error | S_data "char list"

fun socket_recv :: "nat \<Rightarrow> sock_in list \<Rightarrow> sock_in \<times> sock_in list" where
  "socket_recv n [] = (S_timeout, [])"
| "socket_recv n (S_data s # xs) =
     (if s = [] then (S_data [], S_data s # xs)
      else if length s \<le> n then (S_data s, xs)
      else (S_data (take n s), S_data (drop n s) # xs))"
| "socket_recv n (x # xs) = (x, xs)"

abbreviation USER_DISCONNECT :: int where "USER_DISCONNECT \<equiv> -99"
abbreviation crnl :: string where "crnl \<equiv> [CR, LF]"

text \<open>The rest of the input, the return code, the argument and what is written to the client.\<close>

definition get_arg :: "int \<Rightarrow> string \<Rightarrow> nat \<Rightarrow> sock_in list \<Rightarrow> sock_in list \<times> int \<times> string \<times> string list" where
  "get_arg sockd label maxb ins =
     (let out = (if label = [] then [] else writef sockd label) in
      case socket_recv 511 ins of (r, ins') \<Rightarrow>
        (case r of
           S_timeout \<Rightarrow> (ins', -1, [], out)
         | S_error \<Rightarrow> (ins', -1, [], out)
         | S_data b \<Rightarrow>
             if b = [] then (ins', USER_DISCONNECT, [], out)
             else let buffer = xstrtrim_crnl (xstrtrim_crnl (c_string b)) in
               if maxb < length buffer then (ins', -1, [], out)
               else (ins', 0, take (maxb - 1) buffer, out)))"

text \<open>What the client has still sent, in bytes and reads.\<close>

fun in_size :: "sock_in list \<Rightarrow> nat" where
  "in_size [] = 0"
| "in_size (S_data s # xs) = length s + 1 + in_size xs"
| "in_size (x # xs) = 1 + in_size xs"

lemma socket_recv_smaller:
  "socket_recv n ins = (S_data b, ins') \<Longrightarrow> b \<noteq> [] \<Longrightarrow> in_size ins' < in_size ins"
  by (cases "(n, ins)" rule: socket_recv.cases) (auto split: if_splits)

lemma socket_recv_le: "in_size (snd (socket_recv n ins)) \<le> in_size ins"
  by (cases "(n, ins)" rule: socket_recv.cases) auto

lemma get_arg_smaller: "get_arg sockd label maxb ins = (ins', rc, arg, out) \<Longrightarrow> 0 \<le> rc \<Longrightarrow> in_size ins' < in_size ins"
  using socket_recv_smaller [of 511 ins]
  by (auto simp: get_arg_def Let_def split: prod.splits sock_in.splits if_splits)

section \<open>Asking for an argument\<close>

definition ERR_CMD_INPUT_ABORTED :: string where
  "ERR_CMD_INPUT_ABORTED = ''[ERR] Input aborted.''"

text \<open>The size of the buffer for one answer.\<close>

abbreviation REPLY_LEN :: nat where "REPLY_LEN \<equiv> 64"

definition aborts :: "string \<Rightarrow> bool" where
  "aborts reply \<longleftrightarrow> reply \<noteq> [] \<and> hd reply = CHR ''.''"

function ask_bool :: "int \<Rightarrow> sock_in list \<Rightarrow> sock_in list \<times> int \<times> string \<times> string list" where
  "ask_bool sockd ins =
     (case get_arg sockd (''Select (0/1) ?'' @ crnl) REPLY_LEN ins of (ins', rc, reply, out) \<Rightarrow>
        if rc < 0 then (ins', rc, reply, out)
        else if aborts reply then (ins', -1, reply, out @ writef sockd ERR_CMD_INPUT_ABORTED)
        else if length reply = 1 \<and> (hd reply = CHR ''0'' \<or> hd reply = CHR ''1'') then (ins', 0, reply, out)
        else case ask_bool sockd ins' of (i, rc, r, o') \<Rightarrow> (i, rc, r, out @ o'))"
  by pat_completeness auto
termination
  by (relation "measure (\<lambda>(s, ins). in_size ins)") (auto dest!: get_arg_smaller [OF sym])

definition ask_text :: "int \<Rightarrow> cmdarg \<Rightarrow> sock_in list \<Rightarrow> sock_in list \<times> int \<times> string \<times> string list" where
  "ask_text sockd a ins =
     (let out = writef sockd (arglabel a @ '' - '' @ argdesc a @ ''?'') in
      case get_arg sockd crnl REPLY_LEN ins of (ins', rc, reply, o') \<Rightarrow>
        if rc < 0 then (ins', rc, reply, out @ o')
        else if aborts reply then (ins', -1, reply, out @ o' @ writef sockd ERR_CMD_INPUT_ABORTED)
        else (ins', 0, reply, out @ o'))"

text \<open>\<open>isdigit\<close> is set once before the loop, not for every answer.\<close>

function ask_int :: "int \<Rightarrow> cmdarg \<Rightarrow> bool \<Rightarrow> sock_in list \<Rightarrow> sock_in list \<times> int \<times> string \<times> string list" where
  "ask_int sockd a isdigit ins =
     (let out = writef sockd (arglabel a @ '' - '' @ argdesc a @ ''?'') in
      case get_arg sockd crnl REPLY_LEN ins of (ins', rc, reply, o') \<Rightarrow>
        if rc < 0 then (ins', rc, reply, out @ o')
        else if reply = [] then (ins', 0, reply, out @ o')
        else if aborts reply then (ins', -1, reply, out @ o' @ writef sockd ERR_CMD_INPUT_ABORTED)
        else if isdigit \<and> list_all is_digit reply then (ins', 0, reply, out @ o')
        else case ask_int sockd a False ins' of (i, rc, r, o'') \<Rightarrow>
          (i, rc, r, out @ o' @ writef sockd (''Expected numeric value not '' @ quoted_text reply @ [LF]) @ o''))"
  by pat_completeness auto
termination
  by (relation "measure (\<lambda>(s, a, d, ins). in_size ins)") (auto dest!: get_arg_smaller [OF sym])

definition sel_vals :: "cmdarg \<Rightarrow> string list" where
  "sel_vals a = map fst (take (nsel a) (argselect a))"

text \<open>The prompt with the values, in a buffer of 64 bytes.\<close>

fun select_info :: "string list \<Rightarrow> string \<Rightarrow> string" where
  "select_info [] info = fst (xstrlcat info '')'' 64)"
| "select_info (v # vs) info =
     (let info = info @ take (64 - length info - 1) v
      in select_info vs (if vs \<noteq> [] then fst (xstrlcat info ''/'' 64) else info))"

function ask_select_loop :: "int \<Rightarrow> string list \<Rightarrow> string \<Rightarrow> sock_in list \<Rightarrow> sock_in list \<times> int \<times> string \<times> string list" where
  "ask_select_loop sockd vals info ins =
     (let out = writef sockd (''Select '' @ info @ ''?'') in
      case get_arg sockd crnl REPLY_LEN ins of (ins', rc, reply, o') \<Rightarrow>
        if rc < 0 then (ins', rc, reply, out @ o')
        else if reply = [] then (ins', 0, reply, out @ o')
        else if aborts reply then (ins', -1, reply, out @ o' @ writef sockd ERR_CMD_INPUT_ABORTED)
        else if list_ex (\<lambda>v. strcmp reply v = 0) vals then (ins', 0, reply, out @ o')
        else case ask_select_loop sockd vals info ins' of (i, rc, r, o'') \<Rightarrow>
          (i, rc, r, out @ o' @ writef sockd (''Value '' @ quoted_text reply @ '' outside permissable range.'' @ [LF]) @ o''))"
  by pat_completeness auto
termination
  by (relation "measure (\<lambda>(s, v, i, ins). in_size ins)") (auto dest!: get_arg_smaller [OF sym])

declare ask_bool.simps [simp del] ask_int.simps [simp del] ask_select_loop.simps [simp del]

definition ask_select :: "int \<Rightarrow> cmdarg \<Rightarrow> sock_in list \<Rightarrow> sock_in list \<times> int \<times> string \<times> string list" where
  "ask_select sockd a ins =
     (let out = writef sockd (arglabel a @ '' - '' @ argdesc a @ [LF]) @
            concat (map (\<lambda>(v, l). writef sockd (''  '' @ v @ '' - '' @ l @ [LF])) (take (nsel a) (argselect a)))
      in case ask_select_loop sockd (sel_vals a) (select_info (sel_vals a) ''('') ins of (i, rc, r, o') \<Rightarrow>
           (i, rc, r, out @ o'))"

definition AUTO_ENABLE_LABEL :: string where "AUTO_ENABLE_LABEL = ''_Enabled''"

definition ask_arg :: "int \<Rightarrow> cmdarg \<Rightarrow> sock_in list \<Rightarrow> sock_in list \<times> int \<times> string \<times> string list" where
  "ask_arg sockd a ins =
     (if argtype a = ARGT_BOOL then
        (if strcmp AUTO_ENABLE_LABEL (arglabel a) = 0 then (ins, 0, ''1'', [])
         else let out = writef sockd (arglabel a @ '' - '' @ argdesc a @ [LF] @ ''   0 - Disable'' @ [LF] @
                          ''   1 - Enable'' @ [LF])
              in case ask_bool sockd ins of (i, rc, r, o') \<Rightarrow> (i, rc, r, out @ o'))
      else if argtype a = ARGT_STRING \<or> argtype a = ARGT_FLOAT then ask_text sockd a ins
      else if argtype a = ARGT_INT then ask_int sockd a True ins
      else if argtype a = ARGT_SELECT then ask_select sockd a ins
      else (ins, -1, [], []))"

text \<open>The answers joined by commas in \<open>argbuff\<close>.\<close>

fun cmd_args_loop ::
  "int \<Rightarrow> nat \<Rightarrow> cmdarg list \<Rightarrow> bool \<Rightarrow> string \<Rightarrow> sock_in list \<Rightarrow> sock_in list \<times> int \<times> string \<times> string list" where
  "cmd_args_loop sockd maxlen [] first argbuff ins = (ins, 0, argbuff, [])"
| "cmd_args_loop sockd maxlen (a # as) first argbuff ins =
     (case ask_arg sockd a ins of (ins', rc, reply, out) \<Rightarrow>
        if rc < 0 then (ins', rc, argbuff, out)
        else if maxlen \<le> length argbuff + length reply + 1 then (ins', -1, argbuff, out)
        else let b = (if first then argbuff else fst (xstrlcat argbuff '','' maxlen));
                 b = fst (xstrlcat b reply maxlen)
             in case cmd_args_loop sockd maxlen as False b ins' of (i, rc, b, o') \<Rightarrow> (i, rc, b, out @ o'))"

definition get_cmd_args :: "int \<Rightarrow> nat \<Rightarrow> nat \<Rightarrow> sock_in list \<Rightarrow> sock_in list \<times> int \<times> string \<times> string list" where
  "get_cmd_args sockd cmdidx maxlen ins =
     (case get_argidx_for_cmdidx cmdidx of
        None \<Rightarrow> (ins, -1, [], [])
      | Some argidx \<Rightarrow>
          let p = cmdargs_list ! argidx in
          cmd_args_loop sockd maxlen (take (numargs p) (argl p)) True [] ins)"

section \<open>The password\<close>

definition INVALID_AUTHENTICATION :: string where
  "INVALID_AUTHENTICATION = ''Authentication failed. Connection closed.''"

text \<open>
  The loop: the rest of the input, whether the client is authenticated, and the text written. \<open>None\<close>: a
  failed read returns -1, and a byte before the buffer is written.
\<close>

fun password_loop :: "int \<Rightarrow> string \<Rightarrow> nat \<Rightarrow> sock_in list \<Rightarrow> (sock_in list \<times> bool \<times> string list) option" where
  "password_loop sockd client_pwd 0 ins = Some (ins, False, [])"
| "password_loop sockd client_pwd (Suc tries) ins =
     (let out = writef sockd (''Password: '' @ crnl) in
      case socket_recv 511 ins of (r, ins') \<Rightarrow>
        (case r of
           S_timeout \<Rightarrow> Some (ins', False, out)
         | S_error \<Rightarrow> None
         | S_data b \<Rightarrow>
             if strcmp (xstrtrim_crnl (c_string b)) client_pwd = 0 then Some (ins', True, out)
             else (case password_loop sockd client_pwd tries ins' of
                     None \<Rightarrow> None | Some (i, ok, o') \<Rightarrow> Some (i, ok, out @ o'))))"

definition check_password ::
  "bool \<Rightarrow> string \<Rightarrow> int \<Rightarrow> sock_in list \<Rightarrow> (sock_in list \<times> int \<times> string list) option" where
  "check_password require_client_pwd client_pwd sockd ins =
     (if \<not> require_client_pwd then Some (ins, 0, [])
      else case password_loop sockd client_pwd 3 ins of
        None \<Rightarrow> None
      | Some (ins', ok, out) \<Rightarrow>
          Some (if ok then (ins', 0, out)
                else (ins', -1, out @ writef sockd (INVALID_AUTHENTICATION @ crnl))))"

section \<open>Answers that are accepted\<close>

definition arg_ok :: "cmdarg \<Rightarrow> string \<Rightarrow> bool" where
  "arg_ok a v \<longleftrightarrow> length v < REPLY_LEN \<and>
     (if argtype a = ARGT_BOOL then v = ''0'' \<or> v = ''1''
      else if argtype a = ARGT_STRING \<or> argtype a = ARGT_FLOAT then \<not> aborts v
      else if argtype a = ARGT_INT then list_all is_digit v
      else argtype a = ARGT_SELECT \<and> (v = [] \<or> v \<in> set (sel_vals a)))"

lemma get_arg_len: "get_arg sockd label (Suc m) ins = (ins', rc, arg, out) \<Longrightarrow> length arg \<le> m"
  by (auto simp: get_arg_def Let_def split: prod.splits sock_in.splits if_splits)

lemma ask_bool_ok:
  "ask_bool sockd ins = (ins', rc, r, out) \<Longrightarrow> 0 \<le> rc \<Longrightarrow> rc = 0 \<and> (r = ''0'' \<or> r = ''1'')"
proof (induction sockd ins arbitrary: out rule: ask_bool.induct)
  case (1 sockd ins)
  obtain i rc1 reply o1 where g: "get_arg sockd (''Select (0/1) ?'' @ crnl) REPLY_LEN ins = (i, rc1, reply, o1)"
    by (metis prod_cases4)
  show ?case
  proof (cases "rc1 < 0 \<or> aborts reply \<or> length reply = 1 \<and> (hd reply = CHR ''0'' \<or> hd reply = CHR ''1'')")
    case True
    then show ?thesis using 1(2,3) g by (subst (asm) ask_bool.simps) (auto simp: length_Suc_conv split: if_splits)
  next
    case False
    obtain i' rc' r' o' where rec: "ask_bool sockd i = (i', rc', r', o')" by (metis prod_cases4)
    then have "ask_bool sockd ins = (i', rc', r', o1 @ o')"
      using False g by (subst ask_bool.simps) auto
    then show ?thesis using 1(1) [OF g [symmetric] refl refl] False rec 1(2,3) by auto
  qed
qed

lemma ask_int_ok:
  "ask_int sockd a d ins = (ins', rc, r, out) \<Longrightarrow> 0 \<le> rc \<Longrightarrow> rc = 0 \<and> (length r < REPLY_LEN \<and> list_all is_digit r)"
proof (induction sockd a d ins arbitrary: out rule: ask_int.induct)
  case (1 sockd a d ins)
  obtain i rc1 reply o1 where g: "get_arg sockd crnl REPLY_LEN ins = (i, rc1, reply, o1)" by (metis prod_cases4)
  have len: "length reply < REPLY_LEN" using get_arg_len [of sockd crnl 63 ins] g by (simp add: less_Suc_eq_le)
  show ?case
  proof (cases "rc1 < 0 \<or> reply = [] \<or> aborts reply \<or> d \<and> list_all is_digit reply")
    case True
    then show ?thesis
      using 1(2,3) g len by (subst (asm) ask_int.simps) (auto simp: Let_def split: if_splits)
  next
    case False
    obtain i' rc' r' o' where rec: "ask_int sockd a False i = (i', rc', r', o')" by (metis prod_cases4)
    then have "\<exists>o''. ask_int sockd a d ins = (i', rc', r', o'')"
      using False g by (subst ask_int.simps) (auto simp: Let_def)
    then show ?thesis using 1(1) [OF refl g [symmetric] refl refl] False rec 1(2,3) by auto
  qed
qed

lemma ask_select_loop_ok:
  "ask_select_loop sockd vals info ins = (ins', rc, r, out) \<Longrightarrow> 0 \<le> rc \<Longrightarrow> rc = 0 \<and> (length r < REPLY_LEN \<and> (r = [] \<or> r \<in> set vals))"
proof (induction sockd vals info ins arbitrary: out rule: ask_select_loop.induct)
  case (1 sockd vals info ins)
  obtain i rc1 reply o1 where g: "get_arg sockd crnl REPLY_LEN ins = (i, rc1, reply, o1)" by (metis prod_cases4)
  have len: "length reply < REPLY_LEN" using get_arg_len [of sockd crnl 63 ins] g by (simp add: less_Suc_eq_le)
  show ?case
  proof (cases "rc1 < 0 \<or> reply = [] \<or> aborts reply \<or> list_ex (\<lambda>v. strcmp reply v = 0) vals")
    case True
    then show ?thesis
      using 1(2,3) g len by (subst (asm) ask_select_loop.simps) (auto simp: Let_def list_ex_iff split: if_splits)
  next
    case False
    obtain i' rc' r' o' where rec: "ask_select_loop sockd vals info i = (i', rc', r', o')" by (metis prod_cases4)
    then have "\<exists>o''. ask_select_loop sockd vals info ins = (i', rc', r', o'')"
      using False g by (subst ask_select_loop.simps) (auto simp: Let_def)
    then show ?thesis using 1(1) [OF refl g [symmetric] refl refl] False rec 1(2,3) by auto
  qed
qed

lemma ask_arg_ok:
  assumes "ask_arg sockd a ins = (ins', rc, r, out)" and "0 \<le> rc"
  shows "rc = 0 \<and> arg_ok a r"
proof -
  consider "argtype a = ARGT_BOOL" | "argtype a = ARGT_STRING \<or> argtype a = ARGT_FLOAT" | "argtype a = ARGT_INT"
    | "argtype a = ARGT_SELECT" | "argtype a \<notin> {ARGT_BOOL, ARGT_STRING, ARGT_FLOAT, ARGT_INT, ARGT_SELECT}" by auto
  then show ?thesis
  proof cases
    case 1
    then show ?thesis
      using assms ask_bool_ok [of sockd ins]
      by (auto simp: ask_arg_def arg_ok_def Let_def split: if_splits prod.splits)
  next
    case 2
    then have "ask_text sockd a ins = (ins', rc, r, out)" using assms(1) by (auto simp: ask_arg_def)
    then have "rc = 0 \<and> \<not> aborts r \<and> length r < REPLY_LEN"
      using assms(2) get_arg_len [of sockd crnl 63 ins]
      by (auto simp: ask_text_def Let_def less_Suc_eq_le split: prod.splits if_splits)
    then show ?thesis using 2 by (auto simp: arg_ok_def)
  next
    case 3
    then show ?thesis using assms ask_int_ok [of sockd a True ins] by (auto simp: ask_arg_def arg_ok_def)
  next
    case 4
    then show ?thesis
      using assms ask_select_loop_ok [of sockd "sel_vals a" "select_info (sel_vals a) ''(''" ins]
      by (auto simp: ask_arg_def ask_select_def arg_ok_def Let_def split: prod.splits)
  next
    case 5
    then show ?thesis using assms by (auto simp: ask_arg_def)
  qed
qed

text \<open>Joining to a non-empty or an empty start.\<close>

definition join_after :: "bool \<Rightarrow> string \<Rightarrow> string list \<Rightarrow> string" where
  "join_after first b vs = (if vs = [] then b else b @ (if first then [] else '','') @ join_with (CHR '','') vs)"

lemma join_after_Cons: "join_after first b (v # vs) = join_after False (b @ (if first then [] else '','') @ v) vs"
  by (cases vs) (auto simp: join_after_def)

lemma cmd_args_loop_ok:
  "cmd_args_loop sockd maxlen as first b ins = (ins', 0, args, out) \<Longrightarrow> length b < maxlen \<Longrightarrow>
   \<exists>vs. list_all2 arg_ok as vs \<and> args = join_after first b vs \<and> length args < maxlen"
proof (induction as arbitrary: first b ins out)
  case Nil
  then show ?case by (simp add: join_after_def)
next
  case (Cons a as)
  obtain i rc r o1 where g: "ask_arg sockd a ins = (i, rc, r, o1)" by (metis prod_cases4)
  have rc: "0 \<le> rc" using Cons.prems(1) g by (auto split: if_splits)
  note ok = ask_arg_ok [OF g rc]
  have fit: "length b + length r + 1 < maxlen" using Cons.prems(1) g ok by (auto split: if_splits)
  let ?b = "b @ (if first then [] else '','') @ r"
  have eq: "fst (xstrlcat (if first then b else fst (xstrlcat b '','' maxlen)) r maxlen) = ?b"
    using fit by (simp add: xstrlcat_eq)
  obtain i' rc' args' o' where rec: "cmd_args_loop sockd maxlen as False ?b i = (i', rc', args', o')" by (metis prod_cases4)
  then have "cmd_args_loop sockd maxlen as False ?b i = (ins', 0, args, o')"
    using Cons.prems(1) g ok fit eq by (simp add: Let_def)
  then obtain vs where "list_all2 arg_ok as vs" "args = join_after False ?b vs" "length args < maxlen"
    using Cons.IH [of False ?b i o'] fit by (auto split: if_splits)
  then show ?case
    using ok by (intro exI [of _ "r # vs"]) (simp add: join_after_Cons)
qed

text \<open>What the client types for an answer: the text and a line end, without blanks around it.\<close>

definition typed :: "string \<Rightarrow> sock_in" where
  "typed v = S_data (v @ crnl)"

definition clean :: "string \<Rightarrow> bool" where
  "clean v \<longleftrightarrow> length v < REPLY_LEN \<and> NUL \<notin> set v \<and> (v \<noteq> [] \<longrightarrow> hd v \<notin> {CHR '' ''} \<and> last v \<notin> {CHR '' '', CR, LF})"

lemma trim_typed:
  assumes "clean v"
  shows "xstrtrim_crnl (v @ crnl) = v" and "xstrtrim_crnl v = v"
proof -
  have r: "rtrim is_sp_crnl v = v"
    using assms by (cases v rule: rev_cases) (auto simp: clean_def rtrim_snoc, simp add: rtrim_def)
  have d: "dropWhile is_sp (v @ w) = v @ w" if "v \<noteq> []" for w
    using assms that by (cases v) (auto simp: clean_def)
  have "rtrim is_sp_crnl (v @ crnl) = v"
    using r rtrim_snoc [of is_sp_crnl "v @ [CR]" LF] rtrim_snoc [of is_sp_crnl v CR] by simp
  then show "xstrtrim_crnl (v @ crnl) = v"
    using d by (cases "v = []") (auto simp: xstrtrim_crnl_eq)
  show "xstrtrim_crnl v = v"
    using r d [of "[]"] by (cases "v = []") (auto simp: xstrtrim_crnl_eq)
qed

lemma get_arg_typed:
  assumes "clean v"
  shows "get_arg sockd label REPLY_LEN (typed v # ins) = (ins, 0, v, if label = [] then [] else writef sockd label)"
proof -
  have "length (v @ crnl) \<le> 511" using assms by (simp add: clean_def)
  then have "socket_recv 511 (typed v # ins) = (S_data (v @ crnl), ins)" by (simp add: typed_def)
  moreover have "c_string (v @ crnl) = v @ crnl"
    using assms by (intro c_string_id) (auto simp: cstr_def clean_def)
  moreover have "length v < 64" using assms by (simp add: clean_def)
  ultimately show ?thesis using assms by (simp add: get_arg_def trim_typed Let_def)
qed

lemma ask_arg_typed:
  assumes "arg_ok a v" and "clean v" and "argtype a = ARGT_BOOL \<longrightarrow> arglabel a \<noteq> AUTO_ENABLE_LABEL"
    and "argtype a = ARGT_SELECT \<longrightarrow> list_all (\<lambda>x. \<not> aborts x) (sel_vals a)"
  shows "\<exists>out. ask_arg sockd a (typed v # ins) = (ins, 0, v, out)"
proof -
  note g = get_arg_typed [OF assms(2)]
  consider "argtype a = ARGT_BOOL" | "argtype a = ARGT_STRING \<or> argtype a = ARGT_FLOAT" | "argtype a = ARGT_INT"
    | "argtype a = ARGT_SELECT" using assms(1) unfolding arg_ok_def by metis
  then show ?thesis
  proof cases
    case 1
    then have "v = ''0'' \<or> v = ''1''" using assms(1) by (simp add: arg_ok_def)
    then have "\<exists>out. ask_bool sockd (typed v # ins) = (ins, 0, v, out)"
      by (subst ask_bool.simps) (auto simp: g aborts_def)
    then show ?thesis using 1 assms(3) by (auto simp: ask_arg_def Let_def)
  next
    case 2
    then show ?thesis using assms(1) by (auto simp: ask_arg_def ask_text_def g arg_ok_def Let_def)
  next
    case 3
    then have "v = [] \<or> \<not> aborts v \<and> list_all is_digit v"
      using assms(1) by (cases v) (auto simp: arg_ok_def aborts_def is_digit_def)
    then have "\<exists>out. ask_int sockd a True (typed v # ins) = (ins, 0, v, out)"
      by (subst ask_int.simps) (auto simp: g Let_def)
    then show ?thesis using 3 by (simp add: ask_arg_def)
  next
    case 4
    then have "v = [] \<or> \<not> aborts v \<and> list_ex (\<lambda>x. strcmp v x = 0) (sel_vals a)"
      using assms(1,4) by (auto simp: arg_ok_def list_all_iff list_ex_iff)
    then have "\<exists>out. ask_select_loop sockd (sel_vals a) (select_info (sel_vals a) ''('') (typed v # ins) = (ins, 0, v, out)"
      by (subst ask_select_loop.simps) (auto simp: g Let_def)
    then show ?thesis using 4 by (auto simp: ask_arg_def ask_select_def Let_def)
  qed
qed

text \<open>No alternative of the tables begins with the full stop that aborts the input.\<close>

definition askable :: "cmdarg \<Rightarrow> bool" where
  "askable a \<longleftrightarrow> (argtype a = ARGT_SELECT \<longrightarrow> list_all (\<lambda>x. \<not> aborts x) (sel_vals a))"

lemma cmdargs_askable: "list_all (\<lambda>p. length (argl p) = numargs p \<and> list_all askable (argl p)) cmdargs_list"
  by (simp add: cmdargs_list_def args_defs askable_def sel_vals_def aborts_def)

text \<open>The answers typed: nothing for an argument that is filled in automatically.\<close>

definition auto_arg :: "cmdarg \<Rightarrow> bool" where
  "auto_arg a \<longleftrightarrow> argtype a = ARGT_BOOL \<and> arglabel a = AUTO_ENABLE_LABEL"

fun answers :: "cmdarg list \<Rightarrow> string list \<Rightarrow> sock_in list" where
  "answers (a # as) (v # vs) = (if auto_arg a then [] else [typed v]) @ answers as vs"
| "answers _ _ = []"

lemma cmd_args_loop_typed:
  "list_all2 (\<lambda>a v. arg_ok a v \<and> clean v \<and> askable a \<and> (auto_arg a \<longrightarrow> v = ''1'')) as vs \<Longrightarrow>
   length (join_after first b vs) + 1 < maxlen \<Longrightarrow>
   \<exists>out. cmd_args_loop sockd maxlen as first b (answers as vs) = ([], 0, join_after first b vs, out)"
proof (induction as vs arbitrary: first b rule: list_all2_induct)
  case Nil
  then show ?case by (simp add: join_after_def)
next
  case (Cons a as v vs)
  let ?b = "b @ (if first then [] else '','') @ v"
  have le: "length ?b \<le> length (join_after first b (v # vs))" by (simp add: join_after_Cons) (simp add: join_after_def)
  obtain o1 where g: "ask_arg sockd a (answers (a # as) (v # vs)) = (answers as vs, 0, v, o1)"
  proof (cases "auto_arg a")
    case True
    then show ?thesis using Cons(1) that by (auto simp: ask_arg_def auto_arg_def)
  next
    case False
    then show ?thesis
      using Cons(1) that ask_arg_typed [of a v sockd "answers as vs"] by (auto simp: auto_arg_def askable_def)
  qed
  have fit: "length b + length v + 1 < maxlen" using le Cons.prems by (auto split: if_splits)
  have eq: "fst (xstrlcat (if first then b else fst (xstrlcat b '','' maxlen)) v maxlen) = ?b"
    using le Cons.prems by (auto simp: xstrlcat_eq split: if_splits)
  obtain o2 where "cmd_args_loop sockd maxlen as False ?b (answers as vs) = ([], 0, join_after False ?b vs, o2)"
    using Cons.IH [of False ?b] Cons.prems by (auto simp: join_after_Cons)
  then show ?case using g fit eq by (auto simp: Let_def join_after_Cons)
qed

lemma argidx_in_table:
  assumes "get_argidx_for_cmdidx cmdidx = Some k"
  shows "k < length cmdargs_list" and "length (argl (cmdargs_list ! k)) = numargs (cmdargs_list ! k)"
    and "list_all askable (argl (cmdargs_list ! k))"
proof -
  show k: "k < length cmdargs_list"
    using assms by (auto simp: get_argidx_for_cmdidx_def Let_def split: if_splits)
  show "length (argl (cmdargs_list ! k)) = numargs (cmdargs_list ! k)" "list_all askable (argl (cmdargs_list ! k))"
    using cmdargs_askable k unfolding list_all_length by auto
qed

section \<open>Properties\<close>

text \<open>
  C4: only checked arguments are sent. When \<open>get_cmd_args\<close> returns 0, the text it built is one answer for
  each argument of the command's table, joined by commas and shorter than the buffer, and every answer is
  acceptable for its argument: 0 or 1 for a switch, digits for a number, a listed value for a
  selection, no leading full stop for a text, or the empty answer that keeps a number or selection.
\<close>

theorem get_cmd_args_validated:
  assumes "get_cmd_args sockd cmdidx maxlen ins = (ins', 0, args, out)" and "0 < maxlen"
  shows "\<exists>k vs. get_argidx_for_cmdidx cmdidx = Some k \<and> list_all2 arg_ok (argl (cmdargs_list ! k)) vs \<and>
    args = join_with (CHR '','') vs \<and> length args < maxlen"
proof -
  obtain k where k: "get_argidx_for_cmdidx cmdidx = Some k"
    using assms(1) by (cases "get_argidx_for_cmdidx cmdidx") (auto simp: get_cmd_args_def)
  then have "cmd_args_loop sockd maxlen (argl (cmdargs_list ! k)) True [] ins = (ins', 0, args, out)"
    using assms(1) argidx_in_table [OF k] by (simp add: get_cmd_args_def Let_def)
  then obtain vs where "list_all2 arg_ok (argl (cmdargs_list ! k)) vs" "args = join_after True [] vs" "length args < maxlen"
    using cmd_args_loop_ok [of sockd maxlen _ True "[]"] assms(2) by force
  then show ?thesis using k by (auto simp: join_after_def split: if_splits)
qed

text \<open>The command \<^verbatim>\<open>mswitch\<close> has index 13; its arguments are a selection and a number.\<close>

lemma eg_mswitch: "get_argidx_for_cmdidx 13 = Some 4"
  by (simp add: get_argidx_for_cmdidx_def Let_def xstricmp_eq_0 g7command_list_def cmdargs_list_def args_defs tolower_eval)

lemma eg_args: "argl (cmdargs_list ! 4) = argl args_mswitch" "numargs (cmdargs_list ! 4) = 2"
  by (simp_all add: cmdargs_list_def args_mswitch_def)

lemma eg_args_ok:
  "list_all2 (\<lambda>a v. arg_ok a v \<and> clean v \<and> askable a \<and> (auto_arg a \<longrightarrow> v = ''1'')) (argl args_mswitch) [''2'', ''255'']"
  by (simp add: args_mswitch_def arg_ok_def clean_def auto_arg_def askable_def sel_vals_def aborts_def is_digit_def)

lemma eg_answers: "answers (argl args_mswitch) [''2'', ''255''] = [typed ''2'', typed ''255'']"
  by (simp add: args_mswitch_def auto_arg_def)

theorem get_cmd_args_validated_witness:
  "\<exists>k vs. get_argidx_for_cmdidx 13 = Some k \<and> list_all2 arg_ok (argl (cmdargs_list ! k)) vs \<and>
    ''2,255'' = join_with (CHR '','') vs \<and> length ''2,255'' < 256"
proof -
  obtain out where "cmd_args_loop 5 256 (argl args_mswitch) True [] [typed ''2'', typed ''255''] = ([], 0, ''2,255'', out)"
    using cmd_args_loop_typed [OF eg_args_ok, of True "[]" 256 5] by (auto simp: join_after_def eg_answers)
  then have "get_cmd_args 5 13 256 [typed ''2'', typed ''255''] = ([], 0, ''2,255'', out)"
    by (simp add: get_cmd_args_def eg_mswitch eg_args Let_def) (simp add: args_mswitch_def)
  from get_cmd_args_validated [OF this] show ?thesis by simp
qed

text \<open>
  Every complete set of acceptable answers is accepted. If the client types one acceptable
  answer for each argument that is asked for, without blanks around it, and together they fit into the buffer,
  \<open>get_cmd_args\<close> reads exactly these and returns them joined by commas.
\<close>

theorem get_cmd_args_complete:
  assumes "get_argidx_for_cmdidx cmdidx = Some k"
    and "list_all2 (\<lambda>a v. arg_ok a v \<and> clean v \<and> (auto_arg a \<longrightarrow> v = ''1'')) (argl (cmdargs_list ! k)) vs"
    and "length (join_with (CHR '','') vs) + 1 < maxlen"
  shows "\<exists>out. get_cmd_args sockd cmdidx maxlen (answers (argl (cmdargs_list ! k)) vs) =
    ([], 0, join_with (CHR '','') vs, out)"
proof -
  let ?as = "argl (cmdargs_list ! k)"
  have j: "join_after True [] vs = join_with (CHR '','') vs" by (simp add: join_after_def)
  have "list_all2 (\<lambda>a v. arg_ok a v \<and> clean v \<and> askable a \<and> (auto_arg a \<longrightarrow> v = ''1'')) ?as vs"
    using assms(2) argidx_in_table(3) [OF assms(1)] by (auto simp: list_all2_conv_all_nth list_all_length)
  then show ?thesis
    using cmd_args_loop_typed [of ?as vs True "[]" maxlen sockd] assms(1,3) argidx_in_table(2) [OF assms(1)]
    by (simp add: get_cmd_args_def Let_def j)
qed


theorem get_cmd_args_complete_witness:
  "\<exists>out. get_cmd_args 5 13 256 [typed ''2'', typed ''255''] = ([], 0, ''2,255'', out)"
  using get_cmd_args_complete [of 13 4 "[''2'', ''255'']" 256 5] eg_mswitch eg_args_ok
  by (auto simp: eg_args eg_answers list_all2_conv_all_nth)

text \<open>
  An answer that is not a number blocks a number argument. The flag that marks a wrong answer is not
  set back, so after one such answer every further answer, correct numbers included, is refused as not
  numeric until the client sends an empty line, aborts, or falls silent.
\<close>

theorem wrong_number_blocks_argument:
  assumes "clean w" and "w \<noteq> []" and "\<not> list_all is_digit w" and "\<not> aborts w"
    and "list_all (\<lambda>v. clean v \<and> v \<noteq> [] \<and> \<not> aborts v) vs"
  shows "\<exists>out. ask_int sockd a True (map typed (w # vs)) = ([], -1, [], out)"
proof -
  have rest: "\<exists>out. ask_int sockd a False (map typed vs) = ([], -1, [], out)"
    using assms(5)
  proof (induction vs)
    case Nil
    show ?case by (subst ask_int.simps) (simp add: get_arg_def Let_def)
  next
    case (Cons v vs)
    then obtain o1 where "ask_int sockd a False (map typed vs) = ([], -1, [], o1)" by auto
    then show ?case using Cons.prems by (subst ask_int.simps) (simp add: get_arg_typed Let_def)
  qed
  then show ?thesis using assms(1-4) by (subst ask_int.simps) (auto simp: get_arg_typed Let_def)
qed

theorem wrong_number_blocks_argument_witness:
  "\<exists>out. ask_int 5 (argl args_mswitch ! 1) True [typed ''12x'', typed ''12'', typed ''3''] = ([], -1, [], out)"
  using wrong_number_blocks_argument [of "''12x''" "[''12'', ''3'']" 5 "argl args_mswitch ! 1"]
  by (simp add: clean_def aborts_def is_digit_def)

lemma password_lines:
  assumes "list_all (\<lambda>l. l \<noteq> [] \<and> length l \<le> 511) lines"
  shows "\<exists>ins out. check_password True client_pwd sockd (map S_data lines) =
    Some (ins, if client_pwd \<in> set (map (\<lambda>l. xstrtrim_crnl (c_string l)) (take 3 lines)) then 0 else -1, out)"
proof -
  have "\<exists>ins out. password_loop sockd client_pwd n (map S_data ls) =
      Some (ins, client_pwd \<in> set (map (\<lambda>l. xstrtrim_crnl (c_string l)) (take n ls)), out)"
    if "list_all (\<lambda>l. l \<noteq> [] \<and> length l \<le> 511) ls" for n ls
    using that
  proof (induction n arbitrary: ls)
    case (Suc n)
    show ?case
    proof (cases ls)
      case (Cons l ls')
      then obtain i o1 where "password_loop sockd client_pwd n (map S_data ls') =
          Some (i, client_pwd \<in> set (map (\<lambda>l. xstrtrim_crnl (c_string l)) (take n ls')), o1)"
        using Suc by force
      then show ?thesis using Suc.prems Cons by (auto simp: Let_def)
    qed (simp add: Let_def)
  qed simp
  from this [OF assms, of 3] show ?thesis by (auto simp: check_password_def)
qed

text \<open>
  C39: the password. When a password is required and the client sends lines, it is let in exactly if one of
  its first three lines, without the blanks and line ends around it, is the password; no
  later line is looked at.
\<close>

theorem password_three_tries:
  assumes "list_all (\<lambda>l. l \<noteq> [] \<and> length l \<le> 511) lines"
  shows "\<exists>ins out. check_password True client_pwd sockd (map S_data lines) =
    Some (ins, if client_pwd \<in> set (map (\<lambda>l. xstrtrim_crnl (c_string l)) (take 3 lines)) then 0 else -1, out)"
  using assms by (rule password_lines)

theorem password_three_tries_witness:
  "\<exists>ins out. check_password True ''sesam'' 5 (map S_data [''abc'' @ crnl, '' sesam'' @ crnl]) = Some (ins, 0, out)"
  using password_three_tries [of "[''abc'' @ crnl, '' sesam'' @ crnl]" "''sesam''" 5] trim_typed(1) [of "''sesam''"]
  by (auto simp: c_string_def clean_def xstrtrim_crnl_eq)

end
