(* ===== verification/Position_Cache.thy ===== *)
theory Position_Cache
  imports G7_Prelude
begin

text \<open>
  The interface of the two geolocation caches to the code that asks a remote service: a look-up, which
  also counts itself, and an update. As long as the caches have unused entries, a stored value is found
  again and other values stay where they are; what a client gets from looking up first and asking the
  service only on a miss is proved once from these laws. The second locale is for caches that compare
  positions exactly.
\<close>

locale position_cache =
  fixes lookup :: "'c \<Rightarrow> 'k \<Rightarrow> 'v option"
    and touch :: "'c \<Rightarrow> 'k \<Rightarrow> 'c"
    and update :: "'c \<Rightarrow> 'k \<Rightarrow> 'v \<Rightarrow> 'c"
    and fresh :: "'c \<Rightarrow> bool"
    and good :: "'k \<Rightarrow> 'v \<Rightarrow> bool"
  assumes lookup_update: "fresh c \<Longrightarrow> good k v \<Longrightarrow> lookup c k = None \<Longrightarrow> lookup (update c k v) k = Some v"
    and lookup_keeps: "fresh c \<Longrightarrow> good k v \<Longrightarrow> lookup c j = Some w \<Longrightarrow> lookup (update c k v) j = Some w"
    and lookup_touch: "lookup (touch c k) j = lookup c j"
    and fresh_touch: "fresh (touch c k) = fresh c"
begin

text \<open>Look up, and on a miss ask the service and store the answer.\<close>

definition cached :: "('k \<Rightarrow> 'v) \<Rightarrow> 'c \<Rightarrow> 'k \<Rightarrow> 'c \<times> 'v" where
  "cached service c k =
     (case lookup c k of
        Some v \<Rightarrow> (touch c k, v)
      | None \<Rightarrow> (update (touch c k) k (service k), service k))"

lemmas cache_laws = lookup_update lookup_keeps lookup_touch fresh_touch

lemma cached_again:
  "fresh c \<Longrightarrow> good k (service k) \<Longrightarrow> lookup (fst (cached service c k)) k = Some (snd (cached service c k))"
  by (auto simp: cached_def cache_laws split: option.splits)

lemma cached_keeps:
  "fresh c \<Longrightarrow> good k (service k) \<Longrightarrow> lookup c j = Some w \<Longrightarrow> lookup (fst (cached service c k)) j = Some w"
  by (auto simp: cached_def cache_laws split: option.splits)

text \<open>A second request for the same position does not reach the service.\<close>

lemma cached_twice:
  assumes "fresh c" and "good k (service k)"
  shows "snd (cached other (fst (cached service c k)) k) = snd (cached service c k)"
  using cached_again [of c k service] assms by (simp add: cached_def [of other])

text \<open>After a request its key is not asked for again, and no key is lost.\<close>

lemma cached_misses:
  assumes "fresh c" and "good k (service k)"
  shows "{j \<in> K. lookup (fst (cached service c k)) j = None} \<subseteq> {j \<in> K. lookup c j = None} - {k}"
proof
  fix j assume j: "j \<in> {j \<in> K. lookup (fst (cached service c k)) j = None}"
  have "j \<noteq> k" using cached_again [of c k service] assms j by auto
  moreover have "lookup c j = None" using cached_keeps [of c k service j] assms j by (cases "lookup c j") auto
  ultimately show "j \<in> {j \<in> K. lookup c j = None} - {k}" using j by blast
qed

end

text \<open>
  A cache in which a stored value answers requests for its own key only, with the number of updates
  that are still possible before entries are reused.
\<close>

locale exact_cache = position_cache +
  fixes room :: "'a \<Rightarrow> nat"
  assumes lookup_other: "fresh c \<Longrightarrow> good k v \<Longrightarrow> j \<noteq> k \<Longrightarrow> lookup (update c k v) j = lookup c j"
    and update_fresh: "fresh c \<Longrightarrow> good k v \<Longrightarrow> 1 < room c \<Longrightarrow> fresh (update c k v)"
    and update_room: "fresh c \<Longrightarrow> good k v \<Longrightarrow> room c \<le> Suc (room (update c k v))"
    and room_touch: "room (touch c k) = room c"
begin

text \<open>Every stored value is the one the service gives.\<close>

definition faithful :: "('b \<Rightarrow> 'c) \<Rightarrow> 'a \<Rightarrow> bool" where
  "faithful service c \<longleftrightarrow> (\<forall>k v. lookup c k = Some v \<longrightarrow> v = service k)"

lemma cached_faithful:
  assumes "fresh c" and "good k (service k)" and "faithful service c"
  shows "snd (cached service c k) = service k"
    and "faithful service (fst (cached service c k))"
proof -
  show "snd (cached service c k) = service k"
    using assms by (auto simp: cached_def faithful_def split: option.splits)
  have "lookup (update (touch c k) k (service k)) j = Some v \<Longrightarrow> v = service j" if "lookup c k = None" for j v
    using assms that by (cases "j = k") (auto simp: faithful_def lookup_other cache_laws)
  then show "faithful service (fst (cached service c k))"
    using assms by (auto simp: cached_def faithful_def lookup_touch split: option.splits)
qed

lemma cached_fresh:
  assumes "fresh c" and "good k (service k)" and "1 < room c"
  shows "fresh (fst (cached service c k))"
    and "room c \<le> Suc (room (fst (cached service c k)))"
  using assms update_fresh [of "touch c k" k "service k"] update_room [of "touch c k" k "service k"]
  by (auto simp: cached_def fresh_touch room_touch split: option.splits)

end

end
