(* ===== verification/Geocache.thy ===== *)
theory Geocache
  imports Complex_Main Xstr Position_Cache
begin

text \<open>
  The caches of street addresses and map images by position (\<^verbatim>\<open>src/src/geoloc_cache.c\<close>): two ring
  buffers that are searched linearly up to the first empty entry, their statistics, and the text files
  they are saved to. Coordinates read with \<open>atof\<close> are rational numbers, without the rounding of
  \<open>double\<close>; the distance of two positions (\<open>gpsdist_m\<close>, floating point trigonometry) is the
  argument \<open>gpsdist\<close> of the look-ups.
\<close>

section \<open>Numbers and lines of a file\<close>

text \<open>\<open>atof\<close> on an optional sign, digits and an optional fraction.\<close>

definition atof_abs :: "string \<Rightarrow> rat" where
  "atof_abs s =
     (let ip = takeWhile is_digit s; r = dropWhile is_digit s;
          fp = (case r of [] \<Rightarrow> [] | c # q \<Rightarrow> if c = CHR ''.'' then takeWhile is_digit q else [])
      in of_nat (dec_value ip) + of_nat (dec_value fp) / 10 ^ length fp)"

definition atof :: "string \<Rightarrow> rat" where
  "atof s =
     (let t = dropWhile is_space s in
      case t of [] \<Rightarrow> 0
      | c # q \<Rightarrow> if c = CHR ''-'' then - atof_abs q
                 else if c = CHR ''+'' then atof_abs q else atof_abs t)"

text \<open>\<open>fgets\<close> with a buffer of \<open>n\<close> bytes: at most \<open>n - 1\<close> bytes, up to and with the line feed.\<close>

definition fgets :: "nat \<Rightarrow> string \<Rightarrow> (string \<times> string) option" where
  "fgets n file =
     (if file = [] \<or> n \<le> 1 then None
      else let k = min (n - 1) (Suc (find_idx (\<lambda>c. c = LF) file)) in Some (take k file, drop k file))"

section \<open>State\<close>

text \<open>\<open>NULL\<close> in the field \<open>lat\<close> of an entry, an entry never used, is the value \<open>None\<close> in the array.\<close>

record address_cache_t =
  ae_lat :: string
  ae_lon :: string
  ae_dLat :: rat
  ae_dLon :: rat
  ae_addr :: string
  ae_ts :: int

record minimap_cache_t =
  me_lat :: string
  me_lon :: string
  me_dLat :: rat
  me_dLon :: rat
  me_zoom :: u32
  me_width :: u32
  me_height :: u32
  me_filename :: string
  me_imgdatasize :: nat
  me_imgdata :: "char list"
  me_ts :: int

record geo_cache_stat_t =
  cache_tot_calls :: u32
  cache_hits :: u32
  cache_max_idx :: u32

text \<open>The array, the next position to write, the number of entries, and the statistics of one cache.\<close>

record 'e geocache =
  gc_entries :: "'e option list"
  gc_idx :: nat
  gc_num :: nat
  gc_stat :: geo_cache_stat_t

definition zero_stat :: geo_cache_stat_t where
  "zero_stat = \<lparr>cache_tot_calls = 0, cache_hits = 0, cache_max_idx = 0\<rparr>"

definition init_geoloc_cache :: "nat \<Rightarrow> 'e geocache" where
  "init_geoloc_cache sz = \<lparr>gc_entries = replicate sz None, gc_idx = 0, gc_num = 0, gc_stat = zero_stat\<rparr>"

section \<open>Statistics\<close>

definition update_cache_stat :: "bool \<Rightarrow> nat \<Rightarrow> geo_cache_stat_t \<Rightarrow> geo_cache_stat_t" where
  "update_cache_stat hit idx st =
     (let st = st\<lparr>cache_tot_calls := cache_tot_calls st + 1\<rparr>;
          st = (if unat (cache_max_idx st) < idx then st\<lparr>cache_max_idx := word_of_nat idx\<rparr> else st)
      in if hit then st\<lparr>cache_hits := cache_hits st + 1\<rparr> else st)"

text \<open>Calls, hit rate and fill rate.\<close>

definition get_cache_stat :: "'e geocache \<Rightarrow> u32 \<times> rat \<times> rat" where
  "get_cache_stat c =
     (let st = gc_stat c in
      (cache_tot_calls st,
       if 0 < cache_tot_calls st then of_nat (unat (cache_hits st)) / of_nat (unat (cache_tot_calls st)) else 0,
       of_nat (unat (cache_max_idx st)) / of_nat (length (gc_entries c))))"

definition get_cache_num :: "'e geocache \<Rightarrow> nat \<times> nat" where
  "get_cache_num c = (gc_num c, length (gc_entries c))"

text \<open>The memory used: the array (48 and 80 bytes for an entry) and the texts and images of the entries.\<close>

definition used_prefix :: "'e option list \<Rightarrow> 'e list" where
  "used_prefix es = map the (takeWhile (\<lambda>e. e \<noteq> None) es)"

definition get_addrcache_memusage :: "address_cache_t geocache \<Rightarrow> nat" where
  "get_addrcache_memusage c =
     length (gc_entries c) * 48 +
     sum_list (map (\<lambda>e. length (ae_addr e) + length (ae_lat e) + length (ae_lon e)) (used_prefix (gc_entries c)))"

definition get_minimapcache_memusage :: "minimap_cache_t geocache \<Rightarrow> nat" where
  "get_minimapcache_memusage c =
     length (gc_entries c) * 80 +
     sum_list (map (\<lambda>e. length (me_filename e) + length (me_lat e) + length (me_lon e) + me_imgdatasize e)
                (used_prefix (gc_entries c)))"

section \<open>Searching\<close>

text \<open>The first entry that satisfies the test, before the first empty one.\<close>

definition scan_cache :: "('e \<Rightarrow> bool) \<Rightarrow> 'e option list \<Rightarrow> nat" where
  "scan_cache P es = find_idx (\<lambda>e. case e of None \<Rightarrow> True | Some x \<Rightarrow> P x) es"

type_synonym gpsdist = "rat \<Rightarrow> rat \<Rightarrow> rat \<Rightarrow> rat \<Rightarrow> rat"

definition address_match :: "gpsdist \<Rightarrow> int \<Rightarrow> string \<Rightarrow> string \<Rightarrow> address_cache_t \<Rightarrow> bool" where
  "address_match gpsdist address_lookup_proximity lat lon e \<longleftrightarrow>
     (if 0 < address_lookup_proximity
      then gpsdist (atof lat) (atof lon) (ae_dLat e) (ae_dLon e) \<le> of_int address_lookup_proximity
      else strcmp lat (ae_lat e) = 0 \<and> strcmp lon (ae_lon e) = 0)"

text \<open>The cache and the address copied, if there is a hit.\<close>

definition in_address_cache ::
  "gpsdist \<Rightarrow> int \<Rightarrow> string \<Rightarrow> string \<Rightarrow> nat \<Rightarrow> address_cache_t geocache
     \<Rightarrow> (address_cache_t geocache \<times> string option) option" where
  "in_address_cache gpsdist address_lookup_proximity lat lon maxlen c =
     (let idx = scan_cache (address_match gpsdist address_lookup_proximity lat lon) (gc_entries c) in
      if idx < length (gc_entries c) \<and> gc_entries c ! idx \<noteq> None then
        (case xmb_strncpy (ae_addr (the (gc_entries c ! idx))) maxlen of
           None \<Rightarrow> None
         | Some addr \<Rightarrow> Some (c\<lparr>gc_stat := update_cache_stat True idx (gc_stat c)\<rparr>, Some addr))
      else Some (c\<lparr>gc_stat := update_cache_stat False 0 (gc_stat c)\<rparr>, None))"

text \<open>The wider distance used for the overview map; the quotient is an integer division.\<close>

definition proximity_dist :: "int \<Rightarrow> nat \<Rightarrow> nat \<Rightarrow> u32 \<Rightarrow> int" where
  "proximity_dist address_lookup_proximity minimap_detailed_zoom minimap_overview_zoom zoom =
     (if unat zoom = minimap_overview_zoom
      then address_lookup_proximity * int (minimap_detailed_zoom div minimap_overview_zoom * 15)
      else address_lookup_proximity)"

definition minimap_match ::
  "gpsdist \<Rightarrow> int \<Rightarrow> string \<Rightarrow> string \<Rightarrow> u32 \<Rightarrow> u32 \<Rightarrow> u32 \<Rightarrow> minimap_cache_t \<Rightarrow> bool" where
  "minimap_match gpsdist prox lat lon zoom width height e \<longleftrightarrow>
     zoom = me_zoom e \<and> me_width e = width \<and> me_height e = height \<and>
     (if 0 < prox then gpsdist (atof lat) (atof lon) (me_dLat e) (me_dLon e) \<le> of_int prox
      else strcmp lat (me_lat e) = 0 \<and> strcmp lon (me_lon e) = 0)"

definition in_minimap_cache ::
  "gpsdist \<Rightarrow> int \<Rightarrow> string \<Rightarrow> string \<Rightarrow> u32 \<Rightarrow> u32 \<Rightarrow> u32 \<Rightarrow> minimap_cache_t geocache
     \<Rightarrow> minimap_cache_t geocache \<times> (char list \<times> nat) option" where
  "in_minimap_cache gpsdist prox lat lon zoom width height c =
     (let idx = scan_cache (minimap_match gpsdist prox lat lon zoom width height) (gc_entries c) in
      if idx < length (gc_entries c) \<and> gc_entries c ! idx \<noteq> None
      then (c\<lparr>gc_stat := update_cache_stat True idx (gc_stat c)\<rparr>,
            Some (me_imgdata (the (gc_entries c ! idx)), me_imgdatasize (the (gc_entries c ! idx))))
      else (c\<lparr>gc_stat := update_cache_stat False 0 (gc_stat c)\<rparr>, None))"

section \<open>Storing\<close>

definition valid_pos :: "rat \<Rightarrow> rat \<Rightarrow> bool" where
  "valid_pos dLat dLon \<longleftrightarrow> \<not> (89 < \<bar>dLat\<bar> \<or> 89 < \<bar>dLon\<bar> \<or> \<bar>dLon\<bar> < 1 \<or> \<bar>dLat\<bar> < 1)"

text \<open>Advancing the position; the number of entries is not counted up when it wraps.\<close>

definition cache_advance :: "'e geocache \<Rightarrow> 'e geocache" where
  "cache_advance c =
     (let c = c\<lparr>gc_idx := gc_idx c + 1\<rparr> in
      if length (gc_entries c) \<le> gc_idx c then c\<lparr>gc_idx := 0\<rparr>
      else if gc_num c < length (gc_entries c) then c\<lparr>gc_num := gc_num c + 1\<rparr> else c)"

text \<open>
  A text in an entry: a copy for a new entry, but \<open>xstrlcpy(dst, src, strlen(src))\<close> into an entry that
  is used again.
\<close>

definition entry_text :: "bool \<Rightarrow> string \<Rightarrow> string" where
  "entry_text reused s = (if reused then fst (xstrlcpy s (length s)) else s)"

definition update_address_cache ::
  "int \<Rightarrow> string \<Rightarrow> string \<Rightarrow> string \<Rightarrow> address_cache_t geocache \<Rightarrow> address_cache_t geocache \<times> int" where
  "update_address_cache now lat lon addr c =
     (if \<not> valid_pos (atof lat) (atof lon) then (c, -1)
      else let reused = (gc_entries c ! gc_idx c \<noteq> None);
               e = \<lparr>ae_lat = entry_text reused lat, ae_lon = entry_text reused lon, ae_dLat = atof lat,
                    ae_dLon = atof lon, ae_addr = entry_text reused addr, ae_ts = now\<rparr>
           in (cache_advance (c\<lparr>gc_entries := (gc_entries c)[gc_idx c := Some e]\<rparr>), 0))"

text \<open>
  The file name of a map image. \<open>None\<close> is undefined behaviour: a coordinate without a decimal point or
  with less than five decimals is read past its end, and one with a long integer part overflows its
  buffer of 16 bytes.
\<close>

definition coord_digits :: "string \<Rightarrow> string option" where
  "coord_digits s =
     (let ip = takeWhile (\<lambda>c. c \<noteq> CHR ''.'') s; fp = drop (length ip + 1) s in
      if length ip = length s \<or> length fp < 5 \<or> 16 < length ip + 7 then None
      else Some (ip @ take 6 fp))"

definition get_minimap_cache_filename ::
  "nat \<Rightarrow> string \<Rightarrow> string \<Rightarrow> u32 \<Rightarrow> u32 \<Rightarrow> u32 \<Rightarrow> (int \<times> string) option" where
  "get_minimap_cache_filename maxlen lat lon zoom width height =
     (case coord_digits lat of None \<Rightarrow> None | Some blat \<Rightarrow>
      case coord_digits lon of None \<Rightarrow> None | Some blon \<Rightarrow>
        let fname = snprintf 256 (''map_'' @ blat @ ''_'' @ blon @ ''_'' @ dec_int (sint zoom) @ ''_'' @
                      dec_int (sint width) @ ''x'' @ dec_int (sint height) @ ''.png'')
        in if maxlen \<le> length fname then Some (-1, [])
           else if length fname < 25 then Some (-1, fname) else Some (0, fname))"

definition update_minimap_cache ::
  "int \<Rightarrow> string \<Rightarrow> string \<Rightarrow> u32 \<Rightarrow> u32 \<Rightarrow> u32 \<Rightarrow> char list \<Rightarrow> minimap_cache_t geocache
     \<Rightarrow> (minimap_cache_t geocache \<times> int) option" where
  "update_minimap_cache now lat lon zoom width height imgdata c =
     (if length lat < 6 \<or> length lon < 6 then Some (c, -1)
      else if \<not> valid_pos (atof lat) (atof lon) then Some (c, -1)
      else if zoom < 1 \<or> 20 < zoom then Some (c, -1)
      else if 600 < width \<or> 600 < height then Some (c, -1)
      else case get_minimap_cache_filename 255 lat lon zoom width height of
        None \<Rightarrow> None
      | Some (rc, filename) \<Rightarrow>
          if rc \<noteq> 0 then Some (c, -1)
          else let reused = (gc_entries c ! gc_idx c \<noteq> None);
                   e = \<lparr>me_lat = entry_text reused lat, me_lon = entry_text reused lon, me_dLat = atof lat,
                        me_dLon = atof lon, me_zoom = zoom, me_width = width, me_height = height,
                        me_filename = filename, me_imgdatasize = length imgdata, me_imgdata = imgdata,
                        me_ts = now\<rparr>
               in Some (cache_advance (c\<lparr>gc_entries := (gc_entries c)[gc_idx c := Some e]\<rparr>), 0))"

section \<open>Saving and loading\<close>

definition address_line :: "address_cache_t \<Rightarrow> string" where
  "address_line e =
     dec_int (ae_ts e) @ '';'' @ ae_lat e @ '';'' @ ae_lon e @ '';'' @ ae_addr e @ [LF]"

text \<open>The file written: the entries up to the highest index of a hit, or to the first empty one.\<close>

definition write_address_geocache :: "address_cache_t geocache \<Rightarrow> string" where
  "write_address_geocache c =
     concat (map address_line
       (used_prefix (take (Suc (unat (cache_max_idx (gc_stat c)))) (gc_entries c))))"

text \<open>The entry of one line: \<open>None\<close> if the file is invalid, \<open>Some None\<close> if the line is skipped.\<close>

definition parse_address_line :: "string \<Rightarrow> address_cache_t option option" where
  "parse_address_line lbuff =
     (let fields = snd (xstrsplitfields (xstrtrim_crnl lbuff) (CHR '';'')) in
      if length fields = 4 then
        (let lat = atof (fields ! 1); lon = atof (fields ! 2) in
         if \<bar>lat\<bar> < 1 \<or> 89 < \<bar>lat\<bar> \<or> \<bar>lon\<bar> < 1 \<or> 89 < \<bar>lon\<bar> \<or> strnlen (fields ! 3) 255 < 5 then None
         else Some (Some \<lparr>ae_lat = fields ! 1, ae_lon = fields ! 2, ae_dLat = lat, ae_dLon = lon,
                          ae_addr = fields ! 3, ae_ts = xatol (fields ! 0)\<rparr>))
      else Some None)"

text \<open>The loop over the lines; a line that is skipped still uses up an entry.\<close>

function read_address_loop :: "string \<Rightarrow> address_cache_t geocache \<Rightarrow> address_cache_t geocache \<times> int" where
  "read_address_loop file c =
     (if \<not> gc_idx c < length (gc_entries c) - 1 then (c, 0)
      else case fgets 255 file of
        None \<Rightarrow> (c, 0)
      | Some (lbuff, rest) \<Rightarrow>
          (case parse_address_line lbuff of
             None \<Rightarrow> (c\<lparr>gc_idx := 0\<rparr>, -1)
           | Some e \<Rightarrow>
               read_address_loop rest
                 (c\<lparr>gc_entries := (if e = None then gc_entries c else (gc_entries c)[gc_idx c := e]),
                    gc_idx := gc_idx c + 1\<rparr>)))"
  by pat_completeness auto
termination
  by (relation "measure (\<lambda>(file, c). length file)") (auto simp: fgets_def Let_def split: if_splits)

declare read_address_loop.simps [simp del]

text \<open>\<open>None\<close> is a file that does not exist.\<close>

definition read_address_geocache ::
  "string option \<Rightarrow> address_cache_t geocache \<Rightarrow> address_cache_t geocache \<times> int" where
  "read_address_geocache file c =
     (case file of
        None \<Rightarrow> (c, 0)
      | Some txt \<Rightarrow>
          (case read_address_loop txt (c\<lparr>gc_idx := 0\<rparr>) of (c', rc) \<Rightarrow>
             if rc = -1 then (c', -1)
             else (c'\<lparr>gc_stat := (gc_stat c')\<lparr>cache_max_idx := word_of_nat (gc_idx c')\<rparr>,
                      gc_num := gc_idx c'\<rparr>, 0)))"

text \<open>The statistics of the two caches in two lines.\<close>

definition write_geocache_stat :: "geo_cache_stat_t \<Rightarrow> geo_cache_stat_t \<Rightarrow> string" where
  "write_geocache_stat a mm =
     dec (unat (cache_tot_calls a)) @ '';'' @ dec (unat (cache_hits a)) @ [LF] @
     dec (unat (cache_tot_calls mm)) @ '';'' @ dec (unat (cache_hits mm)) @ [LF]"

definition read_stat_line :: "string \<Rightarrow> geo_cache_stat_t \<Rightarrow> geo_cache_stat_t option" where
  "read_stat_line lbuff st =
     (let fields = snd (xstrsplitfields (xstrtrim_crnl lbuff) (CHR '';'')) in
      if length fields = 2
      then Some (st\<lparr>cache_tot_calls := word_of_int (xatoi (fields ! 0)),
                    cache_hits := word_of_int (xatoi (fields ! 1))\<rparr>)
      else None)"

definition read_geocache_stat ::
  "string option \<Rightarrow> geo_cache_stat_t \<times> geo_cache_stat_t \<Rightarrow> (geo_cache_stat_t \<times> geo_cache_stat_t) \<times> int" where
  "read_geocache_stat file st =
     (case file of
        None \<Rightarrow> (st, 0)
      | Some txt \<Rightarrow>
          (case fgets 255 txt of
             None \<Rightarrow> (st, 0)
           | Some (l1, rest) \<Rightarrow>
               (case read_stat_line l1 (fst st) of
                  None \<Rightarrow> (st, -1)
                | Some a \<Rightarrow>
                    (case fgets 255 rest of
                       None \<Rightarrow> ((a, snd st), 0)
                     | Some (l2, _) \<Rightarrow>
                         (case read_stat_line l2 (snd st) of
                            None \<Rightarrow> ((a, snd st), -1)
                          | Some mm \<Rightarrow> ((a, mm), 0))))))"

text \<open>
  The map images are saved one file per entry in a directory below \<open>db_dir\<close>; the files are a map
  from path to contents and \<open>writable\<close> tells which paths can be opened. An existing file is written
  over without being truncated. The result is the text of the index file as far as it was written,
  the files, and the return code.
\<close>

definition DEFAULT_MINIMAP_GEOCACHE_DIR :: string where
  "DEFAULT_MINIMAP_GEOCACHE_DIR = ''map_cache''"

definition map_path :: "string \<Rightarrow> string \<Rightarrow> string" where
  "map_path db_dir filename = db_dir @ ''/'' @ DEFAULT_MINIMAP_GEOCACHE_DIR @ ''/'' @ filename"

definition minimap_line :: "minimap_cache_t \<Rightarrow> string" where
  "minimap_line e =
     dec_int (me_ts e) @ '';'' @ me_lat e @ '';'' @ me_lon e @ '';'' @ dec_int (sint (me_zoom e)) @ '';'' @
     dec_int (sint (me_width e)) @ '';'' @ dec_int (sint (me_height e)) @ '';'' @ me_filename e @ [LF]"

definition write_over :: "char list \<Rightarrow> char list option \<Rightarrow> char list" where
  "write_over img old = img @ drop (length img) (case old of None \<Rightarrow> [] | Some s \<Rightarrow> s)"

fun write_minimap_loop ::
  "(string \<Rightarrow> bool) \<Rightarrow> string \<Rightarrow> minimap_cache_t list \<Rightarrow> (string \<rightharpoonup> char list) \<Rightarrow> string \<times> (string \<rightharpoonup> char list) \<times> int" where
  "write_minimap_loop writable db_dir [] files = ([], files, 0)"
| "write_minimap_loop writable db_dir (e # es) files =
     (if 85 < strnlen (me_filename e) 255 then ([], files, -1)
      else let mapfilename = snprintf 255 (map_path db_dir (me_filename e)) in
           if \<not> writable mapfilename then (minimap_line e, files, -1)
           else case write_minimap_loop writable db_dir es
                       (files(mapfilename \<mapsto> write_over (me_imgdata e) (files mapfilename))) of
                  (txt, files', rc) \<Rightarrow> (minimap_line e @ txt, files', rc))"

definition write_minimap_geocache ::
  "(string \<Rightarrow> bool) \<Rightarrow> string \<Rightarrow> minimap_cache_t geocache \<Rightarrow> (string \<rightharpoonup> char list) \<Rightarrow> string \<times> (string \<rightharpoonup> char list) \<times> int" where
  "write_minimap_geocache writable db_dir c files =
     write_minimap_loop writable db_dir
       (used_prefix (take (Suc (unat (cache_max_idx (gc_stat c)))) (gc_entries c))) files"

text \<open>
  Reading back: \<open>None\<close> if the file is invalid, \<open>Some None\<close> for a line that is ignored, because it
  has not seven fields or its image cannot be read.
\<close>

definition parse_minimap_line ::
  "string \<Rightarrow> (string \<rightharpoonup> char list) \<Rightarrow> string \<Rightarrow> minimap_cache_t option option" where
  "parse_minimap_line db_dir files lbuff =
     (let fields = snd (xstrsplitfields (xstrtrim_crnl lbuff) (CHR '';'')) in
      if length fields = 7 then
        (let lat = atof (fields ! 1); lon = atof (fields ! 2) in
         if \<bar>lat\<bar> < 1 \<or> 89 < \<bar>lat\<bar> \<or> \<bar>lon\<bar> < 1 \<or> 89 < \<bar>lon\<bar> then None
         else case files (snprintf 512 (map_path db_dir (fields ! 6))) of
                None \<Rightarrow> Some None
              | Some img \<Rightarrow>
                  Some (Some \<lparr>me_lat = fields ! 1, me_lon = fields ! 2, me_dLat = lat, me_dLon = lon,
                              me_zoom = word_of_int (xatol (fields ! 3)), me_width = word_of_int (xatol (fields ! 4)),
                              me_height = word_of_int (xatol (fields ! 5)), me_filename = fields ! 6,
                              me_imgdatasize = length img, me_imgdata = img, me_ts = xatol (fields ! 0)\<rparr>))
      else Some None)"

function read_minimap_loop ::
  "string \<Rightarrow> (string \<rightharpoonup> char list) \<Rightarrow> string \<Rightarrow> minimap_cache_t geocache \<Rightarrow> minimap_cache_t geocache \<times> int" where
  "read_minimap_loop db_dir files file c =
     (if \<not> gc_idx c < length (gc_entries c) - 1 then (c, 0)
      else case fgets 255 file of
        None \<Rightarrow> (c, 0)
      | Some (lbuff, rest) \<Rightarrow>
          (case parse_minimap_line db_dir files lbuff of
             None \<Rightarrow> (c\<lparr>gc_idx := 0\<rparr>, -1)
           | Some None \<Rightarrow> read_minimap_loop db_dir files rest c
           | Some (Some e) \<Rightarrow>
               read_minimap_loop db_dir files rest
                 (c\<lparr>gc_entries := (gc_entries c)[gc_idx c := Some e], gc_idx := gc_idx c + 1\<rparr>)))"
  by pat_completeness auto
termination
  by (relation "measure (\<lambda>(d, fs, file, c). length file)") (auto simp: fgets_def Let_def split: if_splits)

declare read_minimap_loop.simps [simp del]

definition read_minimap_geocache ::
  "string \<Rightarrow> (string \<rightharpoonup> char list) \<Rightarrow> string option \<Rightarrow> minimap_cache_t geocache \<Rightarrow> minimap_cache_t geocache \<times> int" where
  "read_minimap_geocache db_dir files file c =
     (case file of
        None \<Rightarrow> (c, 0)
      | Some txt \<Rightarrow>
          (case read_minimap_loop db_dir files txt (c\<lparr>gc_idx := 0\<rparr>) of (c', rc) \<Rightarrow>
             if rc = -1 then (c', -1)
             else (c'\<lparr>gc_stat := (gc_stat c')\<lparr>cache_max_idx := word_of_nat (gc_idx c')\<rparr>,
                      gc_num := gc_idx c'\<rparr>, 0)))"

section \<open>Caches that have not wrapped\<close>

text \<open>The entries in use are at the front and there is room for one more.\<close>

definition holds :: "'e geocache \<Rightarrow> 'e list \<Rightarrow> bool" where
  "holds c es \<longleftrightarrow> length es < length (gc_entries c) \<and> gc_idx c = length es \<and>
     gc_entries c = map Some es @ replicate (length (gc_entries c) - length es) None"

lemma holds_init: "0 < sz \<Longrightarrow> holds (init_geoloc_cache sz) []"
  by (simp add: holds_def init_geoloc_cache_def)

lemma holds_len: "holds c es \<Longrightarrow> gc_idx c = length es \<and> length es < length (gc_entries c)"
  by (simp add: holds_def)

lemma scan_prefix:
  "0 < k \<Longrightarrow> scan_cache P (map Some es @ replicate k None) = find_idx P es"
  unfolding scan_cache_def by (induction es) (auto simp: gr0_conv_Suc)

lemma scan_holds: "holds c es \<Longrightarrow> scan_cache P (gc_entries c) = find_idx P es"
  unfolding holds_def by (metis scan_prefix zero_less_diff)

lemma find_idx_le_len: "find_idx P es \<le> length es"
  by (rule find_idx_le)

text \<open>A hit is a hit in the list of entries.\<close>

lemma hit_holds:
  assumes "holds c es"
  shows "find_idx P es < length (gc_entries c) \<and> gc_entries c ! find_idx P es \<noteq> None
    \<longleftrightarrow> find_idx P es < length es"
    and "find_idx P es < length es \<Longrightarrow> the (gc_entries c ! find_idx P es) = es ! find_idx P es"
proof -
  let ?i = "find_idx P es"
  have e: "gc_entries c = map Some es @ replicate (length (gc_entries c) - length es) None"
    "length es < length (gc_entries c)" using assms by (auto simp: holds_def)
  have n: "?i < length es \<Longrightarrow> gc_entries c ! ?i = Some (es ! ?i)"
    by (subst e(1)) (simp add: nth_append)
  have m: "\<not> ?i < length es \<Longrightarrow> gc_entries c ! ?i = None"
    using find_idx_le_len [of P es] e(2) by (subst e(1)) (simp add: nth_append)
  show "?i < length (gc_entries c) \<and> gc_entries c ! ?i \<noteq> None \<longleftrightarrow> ?i < length es"
    using n m e(2) by (cases "?i < length es") auto
  show "?i < length es \<Longrightarrow> the (gc_entries c ! ?i) = es ! ?i" using n by simp
qed

lemma holds_free: "holds c es \<Longrightarrow> gc_entries c ! gc_idx c = None"
proof -
  assume h: "holds c es"
  then have "gc_entries c = map Some es @ replicate (length (gc_entries c) - length es) None"
    "length es < length (gc_entries c)" "gc_idx c = length es" by (auto simp: holds_def)
  then show ?thesis by (metis diff_self_eq_0 length_map less_irrefl nth_append nth_replicate zero_less_diff)
qed

lemma holds_push:
  assumes "holds c es" and "length es + 1 < length (gc_entries c)"
  shows "holds (cache_advance (c\<lparr>gc_entries := (gc_entries c)[gc_idx c := Some e]\<rparr>)) (es @ [e])"
proof -
  let ?n = "length (gc_entries c)"
  have e: "gc_entries c = map Some es @ replicate (?n - length es) None" "gc_idx c = length es"
    using assms(1) by (auto simp: holds_def)
  have r: "replicate (?n - length es) None = None # replicate (?n - length es - 1) None"
    using assms(2) by (cases "?n - length es") auto
  have "(gc_entries c)[gc_idx c := Some e] = map Some (es @ [e]) @ replicate (?n - length (es @ [e])) None"
    unfolding e(2) by (subst e(1)) (simp add: list_update_append r)
  then show ?thesis
    using assms(2) e(2) by (simp add: holds_def cache_advance_def Let_def del: map_append)
qed

section \<open>The address cache as a position cache\<close>

definition addr_lookup :: "gpsdist \<Rightarrow> int \<Rightarrow> nat \<Rightarrow> address_cache_t geocache \<Rightarrow> string \<times> string \<Rightarrow> string option" where
  "addr_lookup d p maxlen c k =
     (case in_address_cache d p (fst k) (snd k) maxlen c of None \<Rightarrow> None | Some (_, r) \<Rightarrow> r)"

definition addr_touch :: "gpsdist \<Rightarrow> int \<Rightarrow> nat \<Rightarrow> address_cache_t geocache \<Rightarrow> string \<times> string \<Rightarrow> address_cache_t geocache" where
  "addr_touch d p maxlen c k =
     (case in_address_cache d p (fst k) (snd k) maxlen c of None \<Rightarrow> c | Some (c', _) \<Rightarrow> c')"

definition addr_update :: "int \<Rightarrow> address_cache_t geocache \<Rightarrow> string \<times> string \<Rightarrow> string \<Rightarrow> address_cache_t geocache" where
  "addr_update now c k addr = fst (update_address_cache now (fst k) (snd k) addr c)"

definition addr_fresh :: "nat \<Rightarrow> address_cache_t geocache \<Rightarrow> bool" where
  "addr_fresh maxlen c \<longleftrightarrow> (\<exists>es. holds c es \<and> length es + 1 < length (gc_entries c) \<and>
     list_all (\<lambda>e. ascii (ae_addr e) \<and> length (ae_addr e) < maxlen) es)"

definition addr_good :: "gpsdist \<Rightarrow> int \<Rightarrow> nat \<Rightarrow> string \<times> string \<Rightarrow> string \<Rightarrow> bool" where
  "addr_good d p maxlen k addr \<longleftrightarrow> valid_pos (atof (fst k)) (atof (snd k)) \<and> ascii addr \<and> length addr < maxlen \<and>
     (p \<le> 0 \<or> d (atof (fst k)) (atof (snd k)) (atof (fst k)) (atof (snd k)) \<le> of_int p)"

lemma addr_touch_eq: "\<exists>st. addr_touch d p maxlen c k = c\<lparr>gc_stat := st\<rparr>"
  by (cases c) (auto simp: addr_touch_def in_address_cache_def Let_def split: option.splits)

lemma addr_lookup_stat [simp]: "addr_lookup d p maxlen (c\<lparr>gc_stat := st\<rparr>) k = addr_lookup d p maxlen c k"
  by (simp add: addr_lookup_def in_address_cache_def Let_def split: option.splits)

lemma holds_stat [simp]: "holds (c\<lparr>gc_stat := st\<rparr>) es = holds c es"
  by (simp add: holds_def)

lemma addr_fresh_stat [simp]: "addr_fresh maxlen (c\<lparr>gc_stat := st\<rparr>) = addr_fresh maxlen c"
  by (simp add: addr_fresh_def)

lemma addr_lookup_holds:
  assumes "holds c es" and "list_all (\<lambda>e. ascii (ae_addr e) \<and> length (ae_addr e) < maxlen) es"
  shows "addr_lookup d p maxlen c k =
    map_option ae_addr (find (address_match d p (fst k) (snd k)) es)"
proof -
  let ?P = "address_match d p (fst k) (snd k)"
  have x: "find_idx ?P es < length es \<Longrightarrow>
      xmb_strncpy (ae_addr (es ! find_idx ?P es)) maxlen = Some (ae_addr (es ! find_idx ?P es))"
    using assms(2) by (subst xmb_strncpy_ascii) (auto simp: list_all_length intro: le_less_trans)
  have "addr_lookup d p maxlen c k =
      (let i = find_idx ?P es in if i < length es then Some (ae_addr (es ! i)) else None)"
    using hit_holds [OF assms(1), of ?P] x
    by (auto simp: addr_lookup_def in_address_cache_def scan_holds [OF assms(1)] Let_def)
  then show ?thesis unfolding find_of_find_idx .
qed

definition new_address :: "int \<Rightarrow> string \<times> string \<Rightarrow> string \<Rightarrow> address_cache_t" where
  "new_address now k addr = \<lparr>ae_lat = fst k, ae_lon = snd k, ae_dLat = atof (fst k), ae_dLon = atof (snd k),
     ae_addr = addr, ae_ts = now\<rparr>"

lemma addr_update_holds:
  assumes "holds c es" and "length es + 1 < length (gc_entries c)" and "valid_pos (atof (fst k)) (atof (snd k))"
  shows "holds (addr_update now c k addr) (es @ [new_address now k addr])"
  using holds_push [OF assms(1,2), of "new_address now k addr"] assms(3) holds_free [OF assms(1)]
  by (simp add: addr_update_def update_address_cache_def entry_text_def new_address_def Let_def)

lemma addr_update_len [simp]: "length (gc_entries (addr_update now c k v)) = length (gc_entries c)"
  by (simp add: addr_update_def update_address_cache_def cache_advance_def Let_def)

text \<open>What an update does to the entries and to the look-ups.\<close>

definition addr_holds :: "nat \<Rightarrow> address_cache_t geocache \<Rightarrow> address_cache_t list \<Rightarrow> bool" where
  "addr_holds maxlen c es \<longleftrightarrow> holds c es \<and> list_all (\<lambda>e. ascii (ae_addr e) \<and> length (ae_addr e) < maxlen) es"

lemma addr_freshE:
  "addr_fresh maxlen c \<Longrightarrow> \<exists>es. addr_holds maxlen c es \<and> length es + 1 < length (gc_entries c)"
  by (auto simp: addr_fresh_def addr_holds_def)

lemma addr_update_ok:
  assumes "addr_holds maxlen c es" and "length es + 1 < length (gc_entries c)" and "addr_good d p maxlen k v"
  shows "addr_holds maxlen (addr_update now c k v) (es @ [new_address now k v])"
  using assms addr_update_holds [of c es k now v] by (simp add: addr_holds_def addr_good_def new_address_def)

lemma addr_good_match: "addr_good d p maxlen k v \<Longrightarrow> address_match d p (fst k) (snd k) (new_address now k v)"
  by (auto simp: address_match_def new_address_def addr_good_def)

lemma addr_lookup_updated:
  assumes "addr_fresh maxlen c" and "addr_good d p maxlen k v"
  shows "addr_lookup d p maxlen (addr_update now c k v) j =
    (case addr_lookup d p maxlen c j of
       Some w \<Rightarrow> Some w
     | None \<Rightarrow> if address_match d p (fst j) (snd j) (new_address now k v) then Some v else None)"
proof -
  obtain es where es: "addr_holds maxlen c es" "length es + 1 < length (gc_entries c)"
    using addr_freshE [OF assms(1)] by blast
  note es' = addr_update_ok [OF es assms(2), of now]
  have "ae_addr (new_address now k v) = v" by (simp add: new_address_def)
  moreover have "addr_lookup d p maxlen c j = map_option ae_addr (find (address_match d p (fst j) (snd j)) es)"
    using es(1) by (simp add: addr_holds_def addr_lookup_holds)
  moreover have "addr_lookup d p maxlen (addr_update now c k v) j =
      map_option ae_addr (find (address_match d p (fst j) (snd j)) (es @ [new_address now k v]))"
    using es' by (intro addr_lookup_holds) (auto simp: addr_holds_def)
  ultimately show ?thesis by (simp add: find_append split: option.splits)
qed

interpretation ac: position_cache "addr_lookup d p maxlen" "addr_touch d p maxlen" "addr_update now"
    "addr_fresh maxlen" "addr_good d p maxlen"
  for d p maxlen now
proof
  fix c k v j w
  show "addr_lookup d p maxlen (addr_update now c k v) k = Some v"
    if "addr_fresh maxlen c" "addr_good d p maxlen k v" "addr_lookup d p maxlen c k = None"
    using that(3) by (simp add: addr_lookup_updated [OF that(1,2)] addr_good_match [OF that(2)])
  show "addr_lookup d p maxlen (addr_update now c k v) j = Some w"
    if "addr_fresh maxlen c" "addr_good d p maxlen k v" "addr_lookup d p maxlen c j = Some w"
    using addr_lookup_updated [OF that(1,2)] that(3) by simp
  obtain st where "addr_touch d p maxlen c k = c\<lparr>gc_stat := st\<rparr>" using addr_touch_eq by blast
  then show "addr_lookup d p maxlen (addr_touch d p maxlen c k) j = addr_lookup d p maxlen c j"
    and "addr_fresh maxlen (addr_touch d p maxlen c k) = addr_fresh maxlen c"
    by simp_all
qed

text \<open>Without a proximity, positions are compared as texts.\<close>

definition cache_room :: "'e geocache \<Rightarrow> nat" where
  "cache_room c = length (gc_entries c) - gc_idx c - 1"

lemma addr_update_room:
  assumes "addr_fresh maxlen c" and "addr_good d p maxlen k v"
  shows "cache_room c = Suc (cache_room (addr_update now c k v))"
    and "1 < cache_room c \<Longrightarrow> addr_fresh maxlen (addr_update now c k v)"
proof -
  obtain es where es: "addr_holds maxlen c es" "length es + 1 < length (gc_entries c)"
    using addr_freshE [OF assms(1)] by blast
  note es' = addr_update_ok [OF es assms(2), of now]
  note len = es(1) [unfolded addr_holds_def, THEN conjunct1, THEN holds_len]
    es' [unfolded addr_holds_def, THEN conjunct1, THEN holds_len]
  show "cache_room c = Suc (cache_room (addr_update now c k v))"
    using len es(2) by (simp add: cache_room_def)
  show "1 < cache_room c \<Longrightarrow> addr_fresh maxlen (addr_update now c k v)"
    using len es' unfolding addr_fresh_def addr_holds_def cache_room_def
    by (intro exI [of _ "es @ [new_address now k v]"]) simp
qed

interpretation xc: exact_cache "addr_lookup d 0 maxlen" "addr_touch d 0 maxlen" "addr_update now"
    "addr_fresh maxlen" "addr_good d 0 maxlen" cache_room
  for d maxlen now
proof
  fix c k v j
  show "addr_lookup d 0 maxlen (addr_update now c k v) j = addr_lookup d 0 maxlen c j"
    if "addr_fresh maxlen c" "addr_good d 0 maxlen k v" "j \<noteq> k"
    using that(3) addr_lookup_updated [OF that(1,2)]
    by (auto simp: address_match_def new_address_def prod_eq_iff split: option.splits)
  show "addr_fresh maxlen (addr_update now c k v)"
    if "addr_fresh maxlen c" "addr_good d 0 maxlen k v" "1 < cache_room c"
    using addr_update_room [OF that(1,2)] that(3) by simp
  show "cache_room c \<le> Suc (cache_room (addr_update now c k v))"
    if "addr_fresh maxlen c" "addr_good d 0 maxlen k v"
    using addr_update_room [OF that] by simp
  obtain st where "addr_touch d 0 maxlen c k = c\<lparr>gc_stat := st\<rparr>" using addr_touch_eq by blast
  then show "cache_room (addr_touch d 0 maxlen c k) = cache_room c" by (simp add: cache_room_def)
qed

section \<open>The map image cache as a position cache\<close>

record map_key =
  mk_lat :: string
  mk_lon :: string
  mk_zoom :: u32
  mk_width :: u32
  mk_height :: u32

definition map_lookup :: "gpsdist \<Rightarrow> int \<Rightarrow> minimap_cache_t geocache \<Rightarrow> map_key \<Rightarrow> char list option" where
  "map_lookup d p c k =
     map_option fst (snd (in_minimap_cache d p (mk_lat k) (mk_lon k) (mk_zoom k) (mk_width k) (mk_height k) c))"

definition map_touch :: "gpsdist \<Rightarrow> int \<Rightarrow> minimap_cache_t geocache \<Rightarrow> map_key \<Rightarrow> minimap_cache_t geocache" where
  "map_touch d p c k =
     fst (in_minimap_cache d p (mk_lat k) (mk_lon k) (mk_zoom k) (mk_width k) (mk_height k) c)"

definition map_update :: "int \<Rightarrow> minimap_cache_t geocache \<Rightarrow> map_key \<Rightarrow> char list \<Rightarrow> minimap_cache_t geocache" where
  "map_update now c k img =
     (case update_minimap_cache now (mk_lat k) (mk_lon k) (mk_zoom k) (mk_width k) (mk_height k) img c of
        None \<Rightarrow> c | Some (c', _) \<Rightarrow> c')"

definition map_fresh :: "minimap_cache_t geocache \<Rightarrow> bool" where
  "map_fresh c \<longleftrightarrow> (\<exists>es. holds c es \<and> length es + 1 < length (gc_entries c))"

definition map_good :: "gpsdist \<Rightarrow> int \<Rightarrow> map_key \<Rightarrow> char list \<Rightarrow> bool" where
  "map_good d p k img \<longleftrightarrow>
     6 \<le> length (mk_lat k) \<and> 6 \<le> length (mk_lon k) \<and> valid_pos (atof (mk_lat k)) (atof (mk_lon k)) \<and>
     1 \<le> mk_zoom k \<and> mk_zoom k \<le> 20 \<and> mk_width k \<le> 600 \<and> mk_height k \<le> 600 \<and>
     (\<exists>f. get_minimap_cache_filename 255 (mk_lat k) (mk_lon k) (mk_zoom k) (mk_width k) (mk_height k) = Some (0, f)) \<and>
     (p \<le> 0 \<or> d (atof (mk_lat k)) (atof (mk_lon k)) (atof (mk_lat k)) (atof (mk_lon k)) \<le> of_int p)"

lemma map_touch_eq: "\<exists>st. map_touch d p c k = c\<lparr>gc_stat := st\<rparr>"
  by (auto simp: map_touch_def in_minimap_cache_def Let_def)

lemma map_lookup_stat [simp]: "map_lookup d p (c\<lparr>gc_stat := st\<rparr>) k = map_lookup d p c k"
  by (simp add: map_lookup_def in_minimap_cache_def Let_def)

lemma map_fresh_stat [simp]: "map_fresh (c\<lparr>gc_stat := st\<rparr>) = map_fresh c"
  by (simp add: map_fresh_def)

lemma map_lookup_holds:
  assumes "holds c es"
  shows "map_lookup d p c k =
    map_option me_imgdata
      (find (minimap_match d p (mk_lat k) (mk_lon k) (mk_zoom k) (mk_width k) (mk_height k)) es)"
  using hit_holds [OF assms]
  by (simp add: map_lookup_def in_minimap_cache_def scan_holds [OF assms] find_of_find_idx [symmetric] Let_def)

lemma map_update_holds:
  assumes "holds c es" and "length es + 1 < length (gc_entries c)" and "map_good d p k img"
  shows "\<exists>e. holds (map_update now c k img) (es @ [e]) \<and> me_imgdata e = img \<and>
    minimap_match d p (mk_lat k) (mk_lon k) (mk_zoom k) (mk_width k) (mk_height k) e"
proof -
  obtain f where f: "get_minimap_cache_filename 255 (mk_lat k) (mk_lon k) (mk_zoom k) (mk_width k) (mk_height k) = Some (0, f)"
    using assms(3) by (auto simp: map_good_def)
  let ?e = "\<lparr>me_lat = mk_lat k, me_lon = mk_lon k, me_dLat = atof (mk_lat k), me_dLon = atof (mk_lon k),
     me_zoom = mk_zoom k, me_width = mk_width k, me_height = mk_height k, me_filename = f,
     me_imgdatasize = length img, me_imgdata = img, me_ts = now\<rparr>"
  have "map_update now c k img = cache_advance (c\<lparr>gc_entries := (gc_entries c)[gc_idx c := Some ?e]\<rparr>)"
    using assms(3) f holds_free [OF assms(1)]
    by (simp add: map_update_def update_minimap_cache_def map_good_def entry_text_def Let_def not_less [symmetric])
  then have "holds (map_update now c k img) (es @ [?e])" using holds_push [OF assms(1,2)] by simp
  moreover have "minimap_match d p (mk_lat k) (mk_lon k) (mk_zoom k) (mk_width k) (mk_height k) ?e"
    using assms(3) by (auto simp: minimap_match_def map_good_def)
  ultimately show ?thesis by (intro exI [of _ ?e]) simp
qed

interpretation mc: position_cache "map_lookup d p" "map_touch d p" "map_update now" map_fresh "map_good d p"
  for d p now
proof
  fix c k v j w
  show "map_lookup d p (map_update now c k v) k = Some v"
    if "map_fresh c" "map_good d p k v" "map_lookup d p c k = None"
  proof -
    obtain es e where "holds c es" "holds (map_update now c k v) (es @ [e])" "me_imgdata e = v"
      "minimap_match d p (mk_lat k) (mk_lon k) (mk_zoom k) (mk_width k) (mk_height k) e"
      using \<open>map_fresh c\<close> \<open>map_good d p k v\<close> map_update_holds unfolding map_fresh_def by blast
    then show ?thesis
      using \<open>map_lookup d p c k = None\<close> by (simp add: map_lookup_holds find_append split: option.splits)
  qed
  show "map_lookup d p (map_update now c k v) j = Some w"
    if "map_fresh c" "map_good d p k v" "map_lookup d p c j = Some w"
  proof -
    obtain es e where "holds c es" "holds (map_update now c k v) (es @ [e])"
      using \<open>map_fresh c\<close> \<open>map_good d p k v\<close> map_update_holds unfolding map_fresh_def by blast
    then show ?thesis
      using \<open>map_lookup d p c j = Some w\<close> by (auto simp: map_lookup_holds find_append)
  qed
  obtain st where "map_touch d p c k = c\<lparr>gc_stat := st\<rparr>" using map_touch_eq by blast
  then show "map_lookup d p (map_touch d p c k) j = map_lookup d p c j"
    and "map_fresh (map_touch d p c k) = map_fresh c" by simp_all
qed

section \<open>Lines of the saved files\<close>

text \<open>Fields that come back when they are joined to a line, which is then read, trimmed and split.\<close>

definition plain :: "string \<Rightarrow> bool" where
  "plain s \<longleftrightarrow> CHR '';'' \<notin> set s \<and> LF \<notin> set s"

definition line_of :: "string list \<Rightarrow> string" where
  "line_of fs = join_with (CHR '';'') fs"

definition line_ok :: "string list \<Rightarrow> bool" where
  "line_ok fs \<longleftrightarrow> fs \<noteq> [] \<and> list_all plain fs \<and> hd fs \<noteq> [] \<and> hd (hd fs) \<noteq> CHR '' '' \<and>
     last fs \<noteq> [] \<and> last (last fs) \<notin> {CHR '' '', CR} \<and> length (line_of fs) < 254 \<and> length fs < MAX_SPLIT_FIELDS"

lemma join_with_hd: "fs \<noteq> [] \<Longrightarrow> hd fs \<noteq> [] \<Longrightarrow> join_with d fs \<noteq> [] \<and> hd (join_with d fs) = hd (hd fs)"
  by (induction d fs rule: join_with.induct) auto

lemma join_with_last: "fs \<noteq> [] \<Longrightarrow> last fs \<noteq> [] \<Longrightarrow> join_with d fs \<noteq> [] \<and> last (join_with d fs) = last (last fs)"
  by (induction d fs rule: join_with.induct) auto

lemma join_with_set: "c \<in> set (join_with d fs) \<Longrightarrow> c = d \<or> (\<exists>f \<in> set fs. c \<in> set f)"
  by (induction d fs rule: join_with.induct) auto

lemma join_with_field: "f \<in> set fs \<Longrightarrow> length f \<le> length (join_with d fs)"
  by (induction d fs rule: join_with.induct) auto

lemma line_no_LF: "line_ok fs \<Longrightarrow> LF \<notin> set (line_of fs)"
  unfolding line_ok_def line_of_def plain_def list_all_iff by (auto dest!: join_with_set)

lemma trim_id:
  assumes "s \<noteq> []" "hd s \<noteq> CHR '' ''" "last s \<notin> {CHR '' '', LF, CR}"
  shows "xstrtrim_crnl (s @ [LF]) = s"
proof -
  have "dropWhile is_sp (s @ [LF]) = s @ [LF]"
    using assms(1,2) by (cases s) auto
  moreover have "rtrim is_sp_crnl (s @ [LF]) = rtrim is_sp_crnl s"
    by (simp add: rtrim_snoc)
  moreover have "rtrim is_sp_crnl s = s"
  proof -
    obtain u c where s: "s = u @ [c]" using assms(1) by (cases s rule: rev_cases) auto
    with assms(3) show ?thesis unfolding s rtrim_snoc by simp
  qed
  ultimately show ?thesis by (simp add: xstrtrim_crnl_eq)
qed

lemma split_line:
  assumes "line_ok fs"
  shows "xstrsplitfields (xstrtrim_crnl (line_of fs @ [LF])) (CHR '';'') = (0, fs)"
proof -
  have ne: "fs \<noteq> []" "hd fs \<noteq> []" "last fs \<noteq> []" using assms by (auto simp: line_ok_def)
  note h = join_with_hd [OF ne(1,2), of "CHR '';''"] and l = join_with_last [OF ne(1,3), of "CHR '';''"]
  have "last (line_of fs) \<in> set (line_of fs)" using h by (simp add: line_of_def)
  then have "last (line_of fs) \<noteq> LF" using line_no_LF [OF assms] by metis
  then have tr: "xstrtrim_crnl (line_of fs @ [LF]) = line_of fs"
    using assms h l by (intro trim_id) (auto simp: line_of_def line_ok_def)
  have "length f < MAX_FIELD_SIZE" if "f \<in> set fs" for f
    using join_with_field [OF that, of "CHR '';''"] assms by (simp add: line_ok_def line_of_def MAX_FIELD_SIZE_def)
  then have "list_all (\<lambda>f. CHR '';'' \<notin> set f \<and> length f < MAX_FIELD_SIZE) fs"
    using assms by (auto simp: line_ok_def plain_def list_all_iff)
  moreover have "0 < length (join_with (CHR '';'') fs)" "length (join_with (CHR '';'') fs) < 1024"
    using h assms by (auto simp: line_ok_def line_of_def)
  ultimately show ?thesis
    unfolding tr unfolding line_of_def
    using assms ne(1) by (intro xstrsplitfields_join) (simp_all add: line_ok_def)
qed

lemma fgets_line:
  assumes "line_ok fs"
  shows "fgets 255 (line_of fs @ LF # rest) = Some (line_of fs @ [LF], rest)"
proof -
  have "find_idx (\<lambda>c. c = LF) (line_of fs @ LF # rest) = length (line_of fs)"
    using line_no_LF [OF assms] by (intro find_idx_eqI) (auto simp: nth_append in_set_conv_nth)
  moreover have "min 254 (Suc (length (line_of fs))) = Suc (length (line_of fs))"
    using assms by (simp add: line_ok_def)
  ultimately show ?thesis by (simp add: fgets_def Let_def)
qed

lemma dec_plain: "plain (dec n)"
  using dec_digits [of n] by (auto simp: plain_def list_all_iff is_digit_def)

lemma hd_dec: "hd (dec n) \<noteq> CHR '' ''"
  using dec_digits [of n] dec_nonempty [of n] by (cases "dec n") (auto simp: is_digit_def)

section \<open>The saved address cache\<close>







lemma used_prefix_app: "used_prefix (map Some es @ replicate k None) = es"
  unfolding used_prefix_def by (induction es) auto

lemma used_prefix_holds:
  assumes "holds c es"
  shows "used_prefix (take n (gc_entries c)) = take n es"
proof -
  have e: "gc_entries c = map Some es @ replicate (length (gc_entries c) - length es) None"
    using assms by (auto simp: holds_def)
  show ?thesis by (subst e) (simp add: take_map used_prefix_app)
qed

lemma write_address_holds:
  "holds c es \<Longrightarrow>
   write_address_geocache c = concat (map address_line (take (Suc (unat (cache_max_idx (gc_stat c)))) es))"
  by (simp add: write_address_geocache_def used_prefix_holds)

section \<open>The saved map cache\<close>

definition minimap_flds :: "minimap_cache_t \<Rightarrow> string list" where
  "minimap_flds e = [dec (nat (me_ts e)), me_lat e, me_lon e, dec (unat (me_zoom e)), dec (unat (me_width e)),
     dec (unat (me_height e)), me_filename e]"

definition map_savable :: "string \<Rightarrow> minimap_cache_t \<Rightarrow> bool" where
  "map_savable db_dir e \<longleftrightarrow> list_all plain [me_lat e, me_lon e, me_filename e] \<and>
     me_dLat e = atof (me_lat e) \<and> me_dLon e = atof (me_lon e) \<and> valid_pos (me_dLat e) (me_dLon e) \<and>
     me_zoom e \<le> 20 \<and> me_width e \<le> 600 \<and> me_height e \<le> 600 \<and> me_imgdatasize e = length (me_imgdata e) \<and>
     me_filename e \<noteq> [] \<and> last (me_filename e) \<notin> {CHR '' '', CR} \<and> length (me_filename e) \<le> 85 \<and>
     length (map_path db_dir (me_filename e)) < 255 \<and>
     0 \<le> me_ts e \<and> me_ts e \<le> LONG_MAX \<and> length (minimap_line e) < 255"

lemma small_word_dec:
  assumes "(w :: u32) \<le> 600"
  shows "dec_int (sint w) = dec (unat w)" and "word_of_int (xatol (dec (unat w))) = w"
proof -
  have le: "uint w \<le> 600" using assms by (simp add: word_le_def)
  then have "signed_take_bit 31 (uint w) = uint w"
    by (intro signed_take_bit_int_eq_self order_trans [OF _ uint_ge_0 [of w]]) auto
  then have "sint w = int (unat w)" by (simp add: sint_uint)
  then show "dec_int (sint w) = dec (unat w)" by (simp add: dec_int_def)
  show "word_of_int (xatol (dec (unat w))) = w"
    using le by (simp add: xatol_dec [of "unat w"] LONG_MAX_def)
qed

lemma map_savable_small: "map_savable db_dir e \<Longrightarrow> me_zoom e \<le> 600 \<and> me_width e \<le> 600 \<and> me_height e \<le> 600"
  by (auto simp: map_savable_def word_le_nat_alt)

lemma minimap_line_flds: "map_savable db_dir e \<Longrightarrow> minimap_line e = line_of (minimap_flds e) @ [LF]"
  using map_savable_small [of db_dir e]
  by (simp add: minimap_line_def minimap_flds_def line_of_def small_word_dec) (simp add: map_savable_def dec_int_def)

lemma map_savable_line_ok: "map_savable db_dir e \<Longrightarrow> line_ok (minimap_flds e)"
  using minimap_line_flds [of db_dir e] hd_dec [of "nat (me_ts e)"] dec_nonempty [of "nat (me_ts e)"]
  by (auto simp: map_savable_def line_ok_def minimap_flds_def MAX_SPLIT_FIELDS_def dec_plain)

lemma parse_saved_map:
  assumes "map_savable db_dir e" and "files (map_path db_dir (me_filename e)) = Some (me_imgdata e)"
  shows "parse_minimap_line db_dir files (line_of (minimap_flds e) @ [LF]) = Some (Some e)"
proof -
  have "xatol (dec (nat (me_ts e))) = me_ts e"
    using assms xatol_dec [of "nat (me_ts e)"] by (simp add: map_savable_def)
  then show ?thesis
    using assms map_savable_small [OF assms(1)] split_line [OF map_savable_line_ok [OF assms(1)]]
    by (auto simp: parse_minimap_line_def minimap_flds_def map_savable_def valid_pos_def small_word_dec Let_def)
qed

text \<open>Every image ends up in its own file.\<close>

lemma write_minimap_files:
  "list_all (map_savable db_dir) es \<Longrightarrow> distinct (map me_filename es) \<Longrightarrow>
   list_all (\<lambda>e. writable (map_path db_dir (me_filename e)) \<and> files (map_path db_dir (me_filename e)) = None) es \<Longrightarrow>
   write_minimap_loop writable db_dir es files =
     (concat (map minimap_line es), files ++ map_of (rev (map (\<lambda>e. (map_path db_dir (me_filename e), me_imgdata e)) es)), 0)"
proof (induction es arbitrary: files)
  case (Cons e es)
  let ?p = "map_path db_dir (me_filename e)"
  have "write_minimap_loop writable db_dir es (files(?p \<mapsto> me_imgdata e)) =
     (concat (map minimap_line es), (files(?p \<mapsto> me_imgdata e)) ++
        map_of (rev (map (\<lambda>e. (map_path db_dir (me_filename e), me_imgdata e)) es)), 0)"
    using Cons.prems by (intro Cons.IH) (auto simp: list_all_iff map_path_def image_iff)
  then show ?case
    using Cons.prems by (simp add: map_savable_def strnlen_def write_over_def Let_def map_add_upd_left)
qed simp

lemma read_saved_maps:
  "list_all (\<lambda>e. map_savable db_dir e \<and> files (map_path db_dir (me_filename e)) = Some (me_imgdata e)) es \<Longrightarrow>
   gc_entries c = map Some ds @ replicate k None \<Longrightarrow> gc_idx c = length ds \<Longrightarrow> length es < k \<Longrightarrow>
   read_minimap_loop db_dir files (concat (map minimap_line es)) c =
     (c\<lparr>gc_entries := map Some (ds @ es) @ replicate (k - length es) None, gc_idx := length (ds @ es)\<rparr>, 0)"
proof (induction es arbitrary: c ds k)
  case Nil
  then show ?case by (subst read_minimap_loop.simps) (simp add: fgets_def)
next
  case (Cons e es)
  let ?c = "c\<lparr>gc_entries := (gc_entries c)[gc_idx c := Some e], gc_idx := gc_idx c + 1\<rparr>"
  have sv: "map_savable db_dir e" "files (map_path db_dir (me_filename e)) = Some (me_imgdata e)"
    using Cons.prems(1) by auto
  have r: "replicate k None = None # replicate (k - 1) None" using Cons.prems(4) by (cases k) auto
  have e: "(gc_entries c)[gc_idx c := Some e] = map Some (ds @ [e]) @ replicate (k - 1) None"
    unfolding Cons.prems(2,3) by (simp add: list_update_append r)
  have lt: "gc_idx c < length (gc_entries c) - 1" using Cons.prems(2,3,4) by simp
  have "read_minimap_loop db_dir files (concat (map minimap_line (e # es))) c
      = read_minimap_loop db_dir files (concat (map minimap_line es)) ?c"
    using fgets_line [OF map_savable_line_ok [OF sv(1)], of "concat (map minimap_line es)"] parse_saved_map [of db_dir e files] sv lt
    by (subst read_minimap_loop.simps) (simp add: minimap_line_flds [OF sv(1)])
  also have "\<dots> = (?c\<lparr>gc_entries := map Some ((ds @ [e]) @ es) @ replicate (k - 1 - length es) None,
      gc_idx := length ((ds @ [e]) @ es)\<rparr>, 0)"
    using Cons.prems e by (intro Cons.IH) auto
  finally show ?case by simp
qed

text \<open>The cache after loading \<open>es\<close> into an empty one.\<close>

definition loaded :: "nat \<Rightarrow> 'e list \<Rightarrow> 'e geocache" where
  "loaded sz es = \<lparr>gc_entries = map Some es @ replicate (sz - length es) None, gc_idx = length es,
     gc_num = length es, gc_stat = zero_stat\<lparr>cache_max_idx := word_of_nat (length es)\<rparr>\<rparr>"

lemma loaded_holds: "length es < sz \<Longrightarrow> holds (loaded sz es) es"
  by (simp add: loaded_def holds_def)

section \<open>Properties\<close>


definition eg_address :: address_cache_t where
  "eg_address = \<lparr>ae_lat = ''59.3293'', ae_lon = ''18.0686'', ae_dLat = 593293 / 10000, ae_dLon = 180686 / 10000,
     ae_addr = ''Slottsbacken 1, Stockholm'', ae_ts = 1400\<rparr>"


text \<open>
  Saving and loading the map cache. When every image has a file name of its own, none of the image
  files exists yet and all can be written, \<open>write_minimap_geocache\<close> succeeds, and reading its index file
  with the image files it wrote gives back the same entries with the same images.
\<close>

theorem minimap_cache_save_load:
  assumes "holds c es" and "list_all (map_savable db_dir) es" and "distinct (map me_filename es)"
    and "list_all (\<lambda>e. writable (map_path db_dir (me_filename e)) \<and> files (map_path db_dir (me_filename e)) = None) es"
    and "length es \<le> Suc (unat (cache_max_idx (gc_stat c)))" and "length es < sz"
  shows "case write_minimap_geocache writable db_dir c files of (txt, files', rc) \<Rightarrow>
    rc = 0 \<and> read_minimap_geocache db_dir files' (Some txt) (init_geoloc_cache sz) = (loaded sz es, 0)"
proof -
  let ?m = "map_of (rev (map (\<lambda>e. (map_path db_dir (me_filename e), me_imgdata e)) es))"
  have w: "write_minimap_geocache writable db_dir c files = (concat (map minimap_line es), files ++ ?m, 0)"
    using write_minimap_files [OF assms(2,3,4)] assms(5)
    by (simp add: write_minimap_geocache_def used_prefix_holds [OF assms(1)])
  have d: "distinct (map fst (rev (map (\<lambda>e. (map_path db_dir (me_filename e), me_imgdata e)) es)))"
    using assms(3) by (auto simp: rev_map [symmetric] comp_def distinct_map map_path_def inj_on_def)
  have "?m (map_path db_dir (me_filename e)) = Some (me_imgdata e)" if "e \<in> set es" for e
    using that by (intro map_of_is_SomeI [OF d]) auto
  then have "list_all (\<lambda>e. map_savable db_dir e \<and> (files ++ ?m) (map_path db_dir (me_filename e)) = Some (me_imgdata e)) es"
    using assms(2) by (auto simp: list_all_iff map_add_Some_iff)
  then have "read_minimap_loop db_dir (files ++ ?m) (concat (map minimap_line es)) (init_geoloc_cache sz) =
      ((init_geoloc_cache sz)\<lparr>gc_entries := map Some ([] @ es) @ replicate (sz - length es) None,
         gc_idx := length ([] @ es)\<rparr>, 0)"
    using assms(6) by (intro read_saved_maps) (auto simp: init_geoloc_cache_def)
  then show ?thesis
    by (simp add: w read_minimap_geocache_def init_geoloc_cache_def loaded_def)
qed

definition eg_map :: minimap_cache_t where
  "eg_map = \<lparr>me_lat = ''59.3293'', me_lon = ''18.0686'', me_dLat = 593293 / 10000, me_dLon = 180686 / 10000,
     me_zoom = 15, me_width = 200, me_height = 150, me_filename = ''map_59329_18068_15_200x150.png'',
     me_imgdatasize = 3, me_imgdata = ''PNG'', me_ts = 14\<rparr>"

theorem minimap_cache_save_load_witness:
  "case write_minimap_geocache (\<lambda>_. True) ''/db'' (loaded 3 [eg_map]) Map.empty of (txt, files', rc) \<Rightarrow>
     rc = 0 \<and> read_minimap_geocache ''/db'' files' (Some txt) (init_geoloc_cache 5) = (loaded 5 [eg_map], 0)"
proof -
  have "map_savable ''/db'' eg_map"
    by (simp add: map_savable_def eg_map_def plain_def valid_pos_def minimap_line_def dec_int_def LONG_MAX_def atof_def
        atof_abs_def is_space_def is_digit_def dec_value_def dec.simps map_path_def DEFAULT_MINIMAP_GEOCACHE_DIR_def)
  then show ?thesis
    using minimap_cache_save_load [of "loaded 3 [eg_map]" "[eg_map]" "''/db''" "\<lambda>_. True" Map.empty 5]
      loaded_holds [of "[eg_map]" 3]
    by (simp add: loaded_def zero_stat_def)
qed

text \<open>
  The statistics of both caches come back from their file for all values of the 32 bit counters:
  they are written as unsigned numbers and read with \<open>xatoi\<close>, whose wrap-around is undone by the
  assignment to an unsigned variable.
\<close>

theorem geocache_stat_roundtrip:
  "read_geocache_stat (Some (write_geocache_stat a mm)) (s, t) =
     ((s\<lparr>cache_tot_calls := cache_tot_calls a, cache_hits := cache_hits a\<rparr>,
       t\<lparr>cache_tot_calls := cache_tot_calls mm, cache_hits := cache_hits mm\<rparr>), 0)"
proof -
  let ?f = "\<lambda>st. [dec (unat (cache_tot_calls st)), dec (unat (cache_hits st))]"
  have big: "unat (w :: u32) < 2 ^ 32" for w using unsigned_less [of w] by simp
  have len: "length (dec (unat (w :: u32))) \<le> 10" for w
    by (rule length_dec_less) (use big [of w] in auto)
  have last: "last (dec n) \<notin> {CHR '' '', CR}" for n
  proof -
    have "is_digit (last (dec n))" using dec_digits [of n] last_in_set [OF dec_nonempty [of n]] by (simp add: list_all_iff)
    then show ?thesis by (auto simp: is_digit_def)
  qed
  have ok: "line_ok (?f st)" for st
    using len [of "cache_tot_calls st"] len [of "cache_hits st"] last [of "unat (cache_hits st)"]
    by (auto simp: line_ok_def line_of_def dec_plain hd_dec MAX_SPLIT_FIELDS_def)
  have x: "word_of_int (xatoi (dec (unat (w :: u32)))) = w" for w
  proof -
    have "int (unat w) \<le> LONG_MAX"  using uint_bounded [of w] by (simp add: LONG_MAX_def)
    then have "xatoi (dec (unat w)) = sint w"
      using xatoi_digits [of "dec (unat w)"] by (simp add: dec_digits to_int32_def)
    then show ?thesis by simp
  qed
  have r: "read_stat_line (line_of (?f st) @ [LF]) u =
      Some (u\<lparr>cache_tot_calls := cache_tot_calls st, cache_hits := cache_hits st\<rparr>)" for st u
    by (simp add: read_stat_line_def split_line [OF ok] x)
  have "write_geocache_stat a mm = line_of (?f a) @ LF # (line_of (?f mm) @ LF # [])"
    by (simp add: write_geocache_stat_def line_of_def)
  then show ?thesis
    by (simp add: read_geocache_stat_def fgets_line [OF ok] r)
qed

lemma scan_miss:
  assumes "\<And>e. Some e \<in> set es \<Longrightarrow> \<not> P e" and "scan_cache P es < length es"
  shows "es ! scan_cache P es = None"
proof (rule ccontr)
  assume "es ! scan_cache P es \<noteq> None"
  then obtain e where e: "es ! scan_cache P es = Some e" by blast
  then have "P e" using find_idx_sat [OF assms(2) [unfolded scan_cache_def]] by (simp add: scan_cache_def)
  moreover have "Some e \<in> set es" using nth_mem [OF assms(2)] e by simp
  ultimately show False using assms(1) by blast
qed

text \<open>
  An entry of a full cache that is used again is stored with the last character of latitude,
  longitude and address cut off, so that with exact comparison the position just stored is still not
  found, although \<open>update_address_cache\<close> reported success.
\<close>

theorem reused_entry_not_found:
  assumes "gc_idx c < length (gc_entries c)" and "gc_entries c ! gc_idx c \<noteq> None"
    and "valid_pos (atof lat) (atof lon)" and "lat \<noteq> []"
    and "\<forall>e. Some e \<in> set (gc_entries c) \<longrightarrow> ae_lat e \<noteq> lat \<or> ae_lon e \<noteq> lon"
  shows "case update_address_cache now lat lon addr c of (c', rc) \<Rightarrow>
    rc = 0 \<and> snd (the (in_address_cache d 0 lat lon maxlen c')) = None \<and>
    map_option ae_addr (gc_entries c' ! gc_idx c) = Some (butlast addr)"
proof -
  let ?e = "\<lparr>ae_lat = entry_text True lat, ae_lon = entry_text True lon, ae_dLat = atof lat,
                    ae_dLon = atof lon, ae_addr = entry_text True addr, ae_ts = now\<rparr>"
  let ?c = "cache_advance (c\<lparr>gc_entries := (gc_entries c)[gc_idx c := Some ?e]\<rparr>)"
  have t: "entry_text True s = butlast s" for s
    by (simp add: entry_text_def butlast_conv_take)
  have u: "update_address_cache now lat lon addr c = (?c, 0)"
    using assms(2,3) by (simp add: update_address_cache_def Let_def)
  have g: "gc_entries ?c = (gc_entries c)[gc_idx c := Some ?e]"
    by (simp add: cache_advance_def Let_def)
  have "butlast lat \<noteq> lat" using assms(4) by (metis length_butlast diff_less length_greater_0_conv less_irrefl zero_less_one)
  have "\<not> address_match d 0 lat lon e" if "Some e \<in> set (gc_entries ?c)" for e
  proof -
    have "e = ?e \<or> Some e \<in> set (gc_entries c)"
      using that set_update_subset_insert [of "gc_entries c" "gc_idx c" "Some ?e"] unfolding g by blast
    moreover have "\<not> address_match d 0 lat lon ?e"
      using \<open>butlast lat \<noteq> lat\<close> by (simp add: t address_match_def)
    moreover have "\<not> address_match d 0 lat lon e" if "Some e \<in> set (gc_entries c)"
      using assms(5) that by (auto simp: address_match_def)
    ultimately show ?thesis by blast
  qed
  then have "scan_cache (address_match d 0 lat lon) (gc_entries ?c) < length (gc_entries ?c) \<Longrightarrow>
      gc_entries ?c ! scan_cache (address_match d 0 lat lon) (gc_entries ?c) = None"
    by (rule scan_miss)
  then have "snd (the (in_address_cache d 0 lat lon maxlen ?c)) = None"
    by (auto simp: in_address_cache_def Let_def)
  moreover have "map_option ae_addr (gc_entries ?c ! gc_idx c) = Some (butlast addr)"
    unfolding g using assms(1) by (simp add: t)
  ultimately show ?thesis by (simp add: u)
qed

theorem reused_entry_not_found_witness:
  "case update_address_cache 7 ''57.1293'' ''17.4361'' ''Kungsgatan 2'' (loaded 1 [eg_address]\<lparr>gc_idx := 0\<rparr>) of (c', rc) \<Rightarrow>
    rc = 0 \<and> snd (the (in_address_cache (\<lambda>_ _ _ _. 0) 0 ''57.1293'' ''17.4361'' 100 c')) = None \<and>
    map_option ae_addr (gc_entries c' ! 0) = Some ''Kungsgatan ''"
  using reused_entry_not_found [of "loaded 1 [eg_address]\<lparr>gc_idx := 0\<rparr>" "''57.1293''" "''17.4361''"
      "\<lambda>_ _ _ _. 0" 100 "''Kungsgatan 2''" 7]
  by (simp add: loaded_def eg_address_def valid_pos_def atof_def atof_abs_def is_space_def is_digit_def dec_value_def)

text \<open>
  Entries that were never found again are not saved: the highest index is only recorded by a hit, and
  with none recorded the file has the first entry only.
\<close>

lemma unhit_entries_not_saved:
  "holds c (e # es) \<Longrightarrow> cache_max_idx (gc_stat c) = 0 \<Longrightarrow> write_address_geocache c = address_line e"
  by (simp add: write_address_holds)

section \<open>The states of the address cache\<close>

text \<open>What the daemon does with the cache of \<open>sz\<close> entries: load it, look up, store.\<close>

inductive cache_reach :: "gpsdist \<Rightarrow> int \<Rightarrow> nat \<Rightarrow> address_cache_t geocache \<Rightarrow> bool"
  for gpsdist prox sz where
  init: "cache_reach gpsdist prox sz (init_geoloc_cache sz)"
| load: "cache_reach gpsdist prox sz c \<Longrightarrow> cache_reach gpsdist prox sz (fst (read_address_geocache file c))"
| lookup: "cache_reach gpsdist prox sz c \<Longrightarrow> in_address_cache gpsdist prox lat lon maxlen c = Some (c', r) \<Longrightarrow>
    cache_reach gpsdist prox sz c'"
| store: "cache_reach gpsdist prox sz c \<Longrightarrow> cache_reach gpsdist prox sz (fst (update_address_cache now lat lon addr c))"

definition cache_inv :: "nat \<Rightarrow> 'e geocache \<Rightarrow> bool" where
  "cache_inv sz c \<longleftrightarrow> length (gc_entries c) = sz \<and> gc_idx c < sz \<and> gc_num c \<le> sz \<and>
     unat (cache_max_idx (gc_stat c)) < sz"

lemma cache_inv_init: "0 < sz \<Longrightarrow> cache_inv sz (init_geoloc_cache sz)"
  by (simp add: cache_inv_def init_geoloc_cache_def zero_stat_def)

lemma cache_inv_stat:
  assumes "cache_inv sz c" and "idx < sz"
  shows "cache_inv sz (c\<lparr>gc_stat := update_cache_stat hit idx (gc_stat c)\<rparr>)"
proof -
  have "unat (word_of_nat idx :: u32) \<le> idx" by (simp add: unat_of_nat)
  then show ?thesis using assms by (auto simp: cache_inv_def update_cache_stat_def Let_def)
qed

lemma cache_inv_lookup:
  assumes "cache_inv sz c" and "in_address_cache gpsdist prox lat lon maxlen c = Some (c', r)"
  shows "cache_inv sz c'"
proof -
  let ?i = "scan_cache (address_match gpsdist prox lat lon) (gc_entries c)"
  consider "?i < length (gc_entries c)" "c' = c\<lparr>gc_stat := update_cache_stat True ?i (gc_stat c)\<rparr>"
    | "c' = c\<lparr>gc_stat := update_cache_stat False 0 (gc_stat c)\<rparr>"
    using assms(2) unfolding in_address_cache_def Let_def by (auto split: if_splits option.splits)
  then show ?thesis
  proof cases
    case 1
    then have "?i < sz" using assms(1) by (simp add: cache_inv_def)
    then show ?thesis unfolding 1(2) by (rule cache_inv_stat [OF assms(1)])
  next
    case 2
    have "0 < sz" using assms(1) by (simp add: cache_inv_def)
    then show ?thesis unfolding 2 by (rule cache_inv_stat [OF assms(1)])
  qed
qed

lemma cache_inv_store: "cache_inv sz c \<Longrightarrow> cache_inv sz (fst (update_address_cache now lat lon addr c))"
  by (simp add: update_address_cache_def cache_inv_def cache_advance_def Let_def)

lemma read_loop_inv:
  "cache_inv sz c \<Longrightarrow> read_address_loop s c = (c', rc) \<Longrightarrow> cache_inv sz c'"
proof (induction s c rule: read_address_loop.induct)
  case (1 s c)
  show ?case
  proof (cases "gc_idx c < length (gc_entries c) - 1 \<and> fgets 255 s \<noteq> None")
    case False
    then have "read_address_loop s c = (c, 0)"
      by (subst read_address_loop.simps) (auto split: option.splits)
    then show ?thesis using 1(2,3) by simp
  next
    case True
    then obtain l r where f: "fgets 255 s = Some (l, r)" by auto
    show ?thesis
    proof (cases "parse_address_line l")
      case None
      then have "read_address_loop s c = (c\<lparr>gc_idx := 0\<rparr>, -1)"
        using True f by (subst read_address_loop.simps) simp
      then show ?thesis using 1(2,3) by (auto simp: cache_inv_def)
    next
      case (Some e)
      let ?c = "c\<lparr>gc_entries := (if e = None then gc_entries c else (gc_entries c)[gc_idx c := e]),
                  gc_idx := gc_idx c + 1\<rparr>"
      have "read_address_loop r ?c = (c', rc)"
        using True f Some 1(3) by (subst (asm) (1) read_address_loop.simps) simp
      moreover have "cache_inv sz ?c" using 1(2) True by (auto simp: cache_inv_def)
      ultimately show ?thesis using 1(1) [OF _ f _ Some] True by (simp only: not_not simp_thms)
    qed
  qed
qed

lemma cache_inv_load: "cache_inv sz c \<Longrightarrow> cache_inv sz (fst (read_address_geocache f c))"
proof (cases f)
  case (Some s)
  assume c: "cache_inv sz c"
  obtain c' rc where r: "read_address_loop s (c\<lparr>gc_idx := 0\<rparr>) = (c', rc)" by force
  have "cache_inv sz (c\<lparr>gc_idx := 0\<rparr>)" using c by (auto simp: cache_inv_def)
  then have "cache_inv sz c'" using read_loop_inv r by blast
  moreover have "unat (word_of_nat n :: u32) \<le> n" for n by (simp add: unat_of_nat)
  ultimately show ?thesis
    by (auto simp: read_address_geocache_def Some r cache_inv_def intro: le_less_trans)
qed (simp add: read_address_geocache_def)

text \<open>
  C22: in every state of the address cache that loading files, looking up and storing lead to, the
  next position is inside the array, the number of entries is at most its size, and the highest index
  of a hit, up to which \<open>write_address_geocache\<close> reads the array, is inside it too.
\<close>

theorem address_cache_invariant:
  assumes "0 < sz" and "cache_reach gpsdist prox sz c"
  shows "length (gc_entries c) = sz \<and> gc_idx c < sz \<and> gc_num c \<le> sz \<and> unat (cache_max_idx (gc_stat c)) < sz"
proof -
  have "cache_inv sz c"
    using assms(2)
  proof induction
    case init
    show ?case using assms(1) by (rule cache_inv_init)
  next
    case load
    then show ?case by (intro cache_inv_load)
  next
    case lookup
    then show ?case by (blast intro: cache_inv_lookup)
  next
    case store
    then show ?case by (intro cache_inv_store)
  qed
  then show ?thesis by (simp add: cache_inv_def)
qed

theorem address_cache_invariant_witness:
  "\<exists>c. cache_reach (\<lambda>_ _ _ _. 0) 0 2 c \<and> gc_num c = 1 \<and> length (gc_entries c) = 2 \<and> gc_idx c < 2"
proof -
  let ?c = "fst (update_address_cache 7 ''57.1293'' ''17.4361'' ''Kungsgatan 2'' (init_geoloc_cache 2))"
  have r: "cache_reach (\<lambda>_ _ _ _. 0) 0 2 ?c" by (rule cache_reach.store) (rule cache_reach.init)
  moreover have "gc_num ?c = 1"
    by (simp add: update_address_cache_def init_geoloc_cache_def cache_advance_def valid_pos_def atof_def atof_abs_def
        is_space_def is_digit_def dec_value_def Let_def)
  moreover have "length (gc_entries ?c) = 2 \<and> gc_idx ?c < 2" using address_cache_invariant [OF _ r] by simp
  ultimately show ?thesis by blast
qed

end
