(* ===== verification/Geoloc.thy ===== *)
theory Geoloc
  imports Geocache
begin

text \<open>
  The client of the geolocation service (\<^verbatim>\<open>src/src/geoloc.c\<close>): the URLs of the requests, the rate limits,
  the evaluation of the reply, the look-up through the caches of \<open>Geocache\<close>, and the block of all
  requests for 24 hours after the quota of the service is used up. The HTTP transfer (libcurl) is an
  input of each call, a function from URL to the pieces of the reply it delivers; the XML parser
  (libxml2) is the argument \<open>xmlParseDoc\<close>, from text to the root element.
\<close>

section \<open>Rate limits\<close>

type_synonym u64 = "64 word"

record rate_limiter =
  rl_ms :: u64
  rl_last :: u64

definition GOOGLE_ANONYMOUS_RLIMIT_MS :: u64 where
  "GOOGLE_ANONYMOUS_RLIMIT_MS = 220"

definition rate_limit_init :: "u64 \<Rightarrow> u64 \<Rightarrow> rate_limiter" where
  "rate_limit_init limit t = \<lparr>rl_ms = limit, rl_last = t\<rparr>"

text \<open>
  Sleep for the rest of the interval, in microseconds; \<open>t1\<close> and \<open>t2\<close> are the two readings of the
  millisecond clock. The argument of \<open>usleep\<close> has 32 bits.
\<close>

definition rate_limit :: "u64 \<Rightarrow> u64 \<Rightarrow> rate_limiter \<Rightarrow> u32 \<times> rate_limiter" where
  "rate_limit t1 t2 rl =
     (let diff = t1 - rl_last rl in
      (if diff < rl_ms rl then ucast ((rl_ms rl - diff) * 1000) else 0, rl\<lparr>rl_last := t2\<rparr>))"

section \<open>Requests\<close>

text \<open>Without a key of the service the buffer keeps the URL of the last call.\<close>

definition get_geocode_url :: "string \<Rightarrow> string \<Rightarrow> string \<Rightarrow> string \<Rightarrow> string" where
  "get_geocode_url google_api_key lat lon url =
     (if 15 < length google_api_key
      then snprintf 512 (''https://maps.googleapis.com/maps/api/geocode/xml?latlng='' @ lat @ '','' @ lon @
             ''&location_type=ROOFTOP&key='' @ google_api_key)
      else url)"

definition get_staticmap_url :: "string \<Rightarrow> string \<Rightarrow> string \<Rightarrow> 16 word \<Rightarrow> u32 \<Rightarrow> u32 \<Rightarrow> string" where
  "get_staticmap_url google_api_key lat lon zoom width height =
     (let txt = ''https://maps.googleapis.com/maps/api/staticmap?markers=size:normal|color:0x990000|'' @
            lat @ '','' @ lon @ ''&zoom='' @ dec (unat zoom) @ ''&size='' @ dec_int (sint width) @ ''x'' @ dec_int (sint height)
      in snprintf 512 (if 15 < length google_api_key then txt @ ''&key='' @ google_api_key else txt))"

text \<open>The callback of the transfer adds a piece to the memory.\<close>

definition cb_curl :: "char list \<Rightarrow> char list \<Rightarrow> char list" where
  "cb_curl contents mem = mem @ contents"

type_synonym transfer = "string \<Rightarrow> char list list option"

definition curl_easy_perform :: "transfer \<Rightarrow> string \<Rightarrow> char list option" where
  "curl_easy_perform net url = map_option (\<lambda>ps. fold cb_curl ps []) (net url)"

section \<open>The reply\<close>

text \<open>A node: its name, its text if it has one of its own, and its children.\<close>

datatype xmlnode = XNode (xname: string) (xcontent: "string option") (xchildren: "xmlnode list")

definition status_codes :: "string list" where
  "status_codes = [''OK'', ''OVER_QUERY_LIMIT'', ''ZERO_RESULTS'', ''INVALID_REQUEST'', ''REQUEST_DENIED'',
     ''UNKNOWN_ERROR'']"

definition GOOGLE_STATUS_OVERQUOTA :: int where
  "GOOGLE_STATUS_OVERQUOTA = -11"

text \<open>Is there a \<^verbatim>\<open>type\<close> child with this text? \<open>None\<close>: an empty \<^verbatim>\<open>type\<close> element, a null pointer is followed.\<close>

fun has_type :: "string \<Rightarrow> xmlnode list \<Rightarrow> bool option" where
  "has_type t [] = Some False"
| "has_type t (cur # ns) =
     (if xname cur = ''type'' then
        (case xchildren cur of
           [] \<Rightarrow> None
         | c # _ \<Rightarrow> if xcontent c = Some t then Some True else has_type t ns)
      else has_type t ns)"

text \<open>The first formatted address: return code and address.\<close>

fun formatted_address :: "xmlnode list \<Rightarrow> nat \<Rightarrow> (int \<times> string) option" where
  "formatted_address [] maxlen = Some (-1, [])"
| "formatted_address (cur # ns) maxlen =
     (if xname cur = ''formatted_address'' then
        (case xchildren cur of
           [] \<Rightarrow> None
         | c # _ \<Rightarrow> (case xcontent c of None \<Rightarrow> None | Some s \<Rightarrow> map_option (\<lambda>a. (0, a)) (xmb_strncpy s maxlen)))
      else formatted_address ns maxlen)"

definition parse_result_node :: "xmlnode \<Rightarrow> nat \<Rightarrow> (int \<times> string) option" where
  "parse_result_node node maxlen =
     (case has_type ''street_address'' (xchildren node) of
        None \<Rightarrow> None
      | Some True \<Rightarrow> formatted_address (xchildren node) maxlen
      | Some False \<Rightarrow>
          (case has_type ''postal_code'' (xchildren node) of
             None \<Rightarrow> None
           | Some False \<Rightarrow> Some (-1, [])
           | Some True \<Rightarrow> formatted_address (xchildren node) maxlen))"

text \<open>The status: \<open>Some 0\<close> to go on, because it is OK or there is none.\<close>

fun reply_status :: "xmlnode list \<Rightarrow> int option" where
  "reply_status [] = Some 0"
| "reply_status (node # ns) =
     (if xname node = ''status'' then
        (case xchildren node of
           [] \<Rightarrow> None
         | c # _ \<Rightarrow>
             let i = find_idx (\<lambda>s. xcontent c = Some s) status_codes in
             Some (if i = 0 then 0 else if i < length status_codes then - (10 + int i) else -1))
      else reply_status ns)"

fun find_result :: "xmlnode list \<Rightarrow> nat \<Rightarrow> (int \<times> string) option" where
  "find_result [] maxlen = Some (-1, [])"
| "find_result (node # ns) maxlen =
     (if xname node = ''result'' then
        (case parse_result_node node maxlen of
           None \<Rightarrow> None
         | Some (rc, address) \<Rightarrow> if rc = 0 then Some (0, address) else find_result ns maxlen)
      else find_result ns maxlen)"

definition parse_reply :: "(string \<Rightarrow> xmlnode option) \<Rightarrow> string \<Rightarrow> nat \<Rightarrow> (int \<times> string) option" where
  "parse_reply xmlParseDoc reply maxlen =
     (case xmlParseDoc reply of
        None \<Rightarrow> Some (-1, [])
      | Some rt \<Rightarrow>
          if xname rt \<noteq> ''GeocodeResponse'' then Some (-1, [])
          else case reply_status (xchildren rt) of
                 None \<Rightarrow> None
               | Some st \<Rightarrow> if st \<noteq> 0 then Some (st, []) else find_result (xchildren rt) maxlen)"

section \<open>State\<close>

text \<open>\<open>gl_requests\<close> are the URLs that were sent to the service, \<open>gl_mails\<close> the mails about the quota.\<close>

record geoloc =
  gl_addr :: "address_cache_t geocache"
  gl_maps :: "minimap_cache_t geocache"
  gl_url :: string
  geocode_rl :: rate_limiter
  staticmap_rl :: rate_limiter
  geocode_rate_24h_exceeded :: bool
  geocode_rate_24h_wait_until :: int
  geocode_rate_24h_try :: u32
  staticmap_rate_24h_exceeded :: bool
  staticmap_rate_24h_wait_until :: int
  staticmap_rate_24h_try :: u32
  gl_requests :: "string list"
  gl_mails :: nat

text \<open>The configuration, and what one call finds outside: the clocks and the network.\<close>

record geo_conf =
  cf_gpsdist :: gpsdist
  address_lookup_proximity :: int
  minimap_detailed_zoom :: nat
  minimap_overview_zoom :: nat
  google_api_key :: string
  xmlParseDoc :: "string \<Rightarrow> xmlnode option"

record call_env =
  ce_net :: transfer
  ce_now :: int
  ce_t1 :: u64
  ce_t2 :: u64

definition staticmap_rate_limit_reset :: "geoloc \<Rightarrow> geoloc" where
  "staticmap_rate_limit_reset g =
     g\<lparr>staticmap_rate_24h_exceeded := False, staticmap_rate_24h_wait_until := 0, staticmap_rate_24h_try := 0\<rparr>"

definition geocode_rate_limit_reset :: "geoloc \<Rightarrow> geoloc" where
  "geocode_rate_limit_reset g =
     g\<lparr>geocode_rate_24h_exceeded := False, geocode_rate_24h_wait_until := 0, geocode_rate_24h_try := 0\<rparr>"

section \<open>Addresses\<close>

text \<open>
  One look-up: state, return code and address. \<open>None\<close> is undefined behaviour: null pointers in a
  malformed reply, and a reply without any data, for which the memory is not initialised.
\<close>

definition lookup_address_from_latlon ::
  "geo_conf \<Rightarrow> call_env \<Rightarrow> string \<Rightarrow> string \<Rightarrow> nat \<Rightarrow> geoloc \<Rightarrow> (geoloc \<times> int \<times> string) option" where
  "lookup_address_from_latlon cf env lat lon maxlen g =
     (case in_address_cache (cf_gpsdist cf) (address_lookup_proximity cf) lat lon maxlen (gl_addr g) of
        None \<Rightarrow> None
      | Some (c, Some address) \<Rightarrow> Some (g\<lparr>gl_addr := c\<rparr>, 0, address)
      | Some (c, None) \<Rightarrow>
          let url = get_geocode_url (google_api_key cf) lat lon (gl_url g);
              g = g\<lparr>gl_addr := c, gl_url := url,
                    geocode_rl := snd (rate_limit (ce_t1 env) (ce_t2 env) (geocode_rl g)),
                    gl_requests := gl_requests g @ [url]\<rparr>
          in case curl_easy_perform (ce_net env) url of
               None \<Rightarrow> Some (g, -1, [])
             | Some memory \<Rightarrow>
                 if memory = [] then None
                 else case parse_reply (xmlParseDoc cf) memory (maxlen - 1) of
                   None \<Rightarrow> None
                 | Some (rc, address) \<Rightarrow>
                     if rc = 0
                     then Some (g\<lparr>gl_addr := fst (update_address_cache (ce_now env) lat lon address (gl_addr g))\<rparr>, 0, address)
                     else Some (g, rc, address))"

definition FAILED_API_CALLS_BEFORE_BLOCKING_24H :: u32 where
  "FAILED_API_CALLS_BEFORE_BLOCKING_24H = 2"

text \<open>The call of \<open>send_mail_quotalimit\<close>, which is recorded; what the mail says is not modelled.\<close>

definition quota_mail :: "geoloc \<Rightarrow> geoloc" where
  "quota_mail g = g\<lparr>gl_mails := gl_mails g + 1\<rparr>"

text \<open>What is done with the code of a failed look-up; \<open>now\<close> is the time then.\<close>

definition lookup_failed :: "int \<Rightarrow> int \<Rightarrow> nat \<Rightarrow> geoloc \<Rightarrow> geoloc \<times> int \<times> string" where
  "lookup_failed now rc maxlen g =
     (if rc = GOOGLE_STATUS_OVERQUOTA then
        (if FAILED_API_CALLS_BEFORE_BLOCKING_24H \<le> geocode_rate_24h_try g
         then quota_mail
                (g\<lparr>geocode_rate_24h_exceeded := True, geocode_rate_24h_wait_until := now + 3600 * 24\<rparr>)
         else g\<lparr>geocode_rate_24h_try := geocode_rate_24h_try g + 1\<rparr>,
         rc, fst (xstrlcpy ''(?)'' maxlen))
      else (g, rc, fst (xstrlcpy ''?'' maxlen)))"

text \<open>The look-up with one retry when the quota is exceeded.\<close>

definition lookup_retry ::
  "geo_conf \<Rightarrow> call_env \<Rightarrow> call_env \<Rightarrow> string \<Rightarrow> string \<Rightarrow> nat \<Rightarrow> geoloc \<Rightarrow> (geoloc \<times> int \<times> string) option" where
  "lookup_retry cf env env2 lat lon maxlen g =
     (case lookup_address_from_latlon cf env lat lon maxlen g of
        None \<Rightarrow> None
      | Some (g, rc, address) \<Rightarrow>
          if rc = GOOGLE_STATUS_OVERQUOTA then lookup_address_from_latlon cf env2 lat lon maxlen g
          else Some (g, rc, address))"

definition get_address_from_latlon ::
  "geo_conf \<Rightarrow> int \<Rightarrow> call_env \<Rightarrow> call_env \<Rightarrow> string \<Rightarrow> string \<Rightarrow> nat \<Rightarrow> geoloc \<Rightarrow> (geoloc \<times> int \<times> string) option" where
  "get_address_from_latlon cf now env env2 lat lon maxlen g =
     (if geocode_rate_24h_exceeded g \<and> now < geocode_rate_24h_wait_until g
      then Some (g, GOOGLE_STATUS_OVERQUOTA, fst (xstrlcpy ''(?)'' maxlen))
      else
        let g = (if geocode_rate_24h_exceeded g
                 then g\<lparr>geocode_rate_24h_exceeded := False, geocode_rate_24h_try := 0\<rparr> else g)
        in case lookup_retry cf env env2 lat lon maxlen g of
             None \<Rightarrow> None
           | Some (g, rc, address) \<Rightarrow>
               Some (if rc \<noteq> 0 then lookup_failed (ce_now env2) rc maxlen g else (g, rc, address)))"

section \<open>Maps\<close>

definition png_header :: "char list" where
  "png_header = map char_of [0x89 :: nat, 0x50, 0x4e, 0x47, 0x0d, 0x0a, 0x1a, 0x0a]"

definition get_minimap_request ::
  "geo_conf \<Rightarrow> call_env \<Rightarrow> string \<Rightarrow> string \<Rightarrow> 16 word \<Rightarrow> u32 \<Rightarrow> u32 \<Rightarrow> geoloc
     \<Rightarrow> (geoloc \<times> int \<times> char list option) option" where
  "get_minimap_request cf env lat lon zoom width height g =
     (let prox = proximity_dist (address_lookup_proximity cf) (minimap_detailed_zoom cf) (minimap_overview_zoom cf) (ucast zoom)
      in case in_minimap_cache (cf_gpsdist cf) prox lat lon (ucast zoom) width height (gl_maps g) of
        (c, Some (img, _)) \<Rightarrow> Some (g\<lparr>gl_maps := c\<rparr>, 0, Some img)
      | (c, None) \<Rightarrow>
          let url = get_staticmap_url (google_api_key cf) lat lon zoom width height;
              g = g\<lparr>gl_maps := c, staticmap_rl := snd (rate_limit (ce_t1 env) (ce_t2 env) (staticmap_rl g)),
                    gl_requests := gl_requests g @ [url]\<rparr>
          in case curl_easy_perform (ce_net env) url of
               None \<Rightarrow> Some (g, -1, None)
             | Some memory \<Rightarrow>
                 if memory = [] then None
                 else if take 8 memory = png_header \<and> 700 < length memory then
                   (case update_minimap_cache (ce_now env) lat lon (ucast zoom) width height memory (gl_maps g) of
                      None \<Rightarrow> None
                    | Some (c, _) \<Rightarrow> Some (g\<lparr>gl_maps := c\<rparr>, 0, Some memory))
                 else Some (g, -1, None))"

definition get_minimap_from_latlon ::
  "geo_conf \<Rightarrow> int \<Rightarrow> call_env \<Rightarrow> string \<Rightarrow> string \<Rightarrow> 16 word \<Rightarrow> u32 \<Rightarrow> u32 \<Rightarrow> geoloc
     \<Rightarrow> (geoloc \<times> int \<times> char list option) option" where
  "get_minimap_from_latlon cf now env lat lon zoom width height g =
     (if staticmap_rate_24h_exceeded g \<and> now < staticmap_rate_24h_wait_until g
      then Some (g, GOOGLE_STATUS_OVERQUOTA, None)
      else get_minimap_request cf env lat lon zoom width height
             (if staticmap_rate_24h_exceeded g
              then g\<lparr>staticmap_rate_24h_exceeded := False, staticmap_rate_24h_try := 0\<rparr> else g))"

section \<open>Through the cache\<close>


lemma in_address_cache_fresh:
  assumes "addr_fresh maxlen c"
  shows "in_address_cache d p (fst k) (snd k) maxlen c = Some (addr_touch d p maxlen c k, addr_lookup d p maxlen c k)"
proof -
  obtain es where es: "addr_holds maxlen c es" using addr_freshE [OF assms] by blast
  then have h: "holds c es" by (simp add: addr_holds_def)
  let ?i = "find_idx (address_match d p (fst k) (snd k)) es"
  have "xmb_strncpy (ae_addr (es ! ?i)) maxlen \<noteq> None" if "?i < length es"
    using es that by (subst xmb_strncpy_ascii) (auto simp: addr_holds_def list_all_length)
  then have "in_address_cache d p (fst k) (snd k) maxlen c \<noteq> None"
    using hit_holds [OF h, of "address_match d p (fst k) (snd k)"]
    by (auto simp: in_address_cache_def scan_holds [OF h] Let_def)
  then show ?thesis by (auto simp: addr_touch_def addr_lookup_def)
qed

lemma get_geocode_url_key: "15 < length key \<Longrightarrow> get_geocode_url key lat lon url = get_geocode_url key lat lon []"
  by (simp add: get_geocode_url_def)


text \<open>A sequence of requests, each with its time and what it finds outside.\<close>

record request =
  rq_now :: int
  rq_env :: call_env
  rq_env2 :: call_env
  rq_pos :: "string \<times> string"

fun get_addresses :: "geo_conf \<Rightarrow> nat \<Rightarrow> request list \<Rightarrow> geoloc \<Rightarrow> (geoloc \<times> (int \<times> string) list) option" where
  "get_addresses cf maxlen [] g = Some (g, [])"
| "get_addresses cf maxlen (r # rs) g =
     (case get_address_from_latlon cf (rq_now r) (rq_env r) (rq_env2 r) (fst (rq_pos r)) (snd (rq_pos r)) maxlen g of
        None \<Rightarrow> None
      | Some (g', rc, a) \<Rightarrow> map_option (\<lambda>(g'', as). (g'', (rc, a) # as)) (get_addresses cf maxlen rs g'))"




section \<open>Over the quota\<close>

definition over_quota :: "geo_conf \<Rightarrow> call_env \<Rightarrow> nat \<Rightarrow> string \<times> string \<Rightarrow> bool" where
  "over_quota cf env maxlen k \<longleftrightarrow> 15 < length (google_api_key cf) \<and>
     (\<exists>memory a. curl_easy_perform (ce_net env) (get_geocode_url (google_api_key cf) (fst k) (snd k) []) = Some memory \<and>
        memory \<noteq> [] \<and> parse_reply (xmlParseDoc cf) memory (maxlen - 1) = Some (GOOGLE_STATUS_OVERQUOTA, a))"

text \<open>The position is not in the cache.\<close>

definition not_cached :: "geo_conf \<Rightarrow> nat \<Rightarrow> string \<times> string \<Rightarrow> geoloc \<Rightarrow> bool" where
  "not_cached cf maxlen k g \<longleftrightarrow> addr_fresh maxlen (gl_addr g) \<and>
     addr_lookup (cf_gpsdist cf) (address_lookup_proximity cf) maxlen (gl_addr g) k = None"

text \<open>What a look-up that fails leaves as it was, with \<open>n\<close> requests more.\<close>

definition same_quota :: "nat \<Rightarrow> geoloc \<Rightarrow> geoloc \<Rightarrow> bool" where
  "same_quota n g g' \<longleftrightarrow> (\<exists>st. gl_addr g' = (gl_addr g)\<lparr>gc_stat := st\<rparr>) \<and>
     geocode_rate_24h_exceeded g' = geocode_rate_24h_exceeded g \<and>
     geocode_rate_24h_wait_until g' = geocode_rate_24h_wait_until g \<and>
     geocode_rate_24h_try g' = geocode_rate_24h_try g \<and> gl_mails g' = gl_mails g \<and>
     length (gl_requests g') = length (gl_requests g) + n"

lemma same_quota_trans: "same_quota m g h \<Longrightarrow> same_quota n h i \<Longrightarrow> same_quota (m + n) g i"
  by (auto simp: same_quota_def)

lemma same_quota_not_cached: "same_quota n g g' \<Longrightarrow> not_cached cf maxlen k g' = not_cached cf maxlen k g"
  by (auto simp: same_quota_def not_cached_def)

lemma lookup_over_quota:
  assumes "not_cached cf maxlen k g" and "over_quota cf env maxlen k"
  shows "\<exists>g' a. lookup_address_from_latlon cf env (fst k) (snd k) maxlen g = Some (g', GOOGLE_STATUS_OVERQUOTA, a) \<and>
    same_quota 1 g g'"
proof -
  let ?d = "cf_gpsdist cf" and ?p = "address_lookup_proximity cf"
  have i: "in_address_cache ?d ?p (fst k) (snd k) maxlen (gl_addr g) = Some (addr_touch ?d ?p maxlen (gl_addr g) k, None)"
    using assms(1) in_address_cache_fresh [of maxlen "gl_addr g" ?d ?p k] by (simp add: not_cached_def)
  obtain st where st: "addr_touch ?d ?p maxlen (gl_addr g) k = (gl_addr g)\<lparr>gc_stat := st\<rparr>"
    using addr_touch_eq by blast
  show ?thesis
    using assms(2) get_geocode_url_key [of "google_api_key cf" "fst k" "snd k" "gl_url g"]
    by (auto simp: over_quota_def lookup_address_from_latlon_def i st same_quota_def GOOGLE_STATUS_OVERQUOTA_def Let_def)
qed

lemma retry_over_quota:
  assumes "not_cached cf maxlen k g" and "over_quota cf env maxlen k" and "over_quota cf env2 maxlen k"
  shows "\<exists>g' a. lookup_retry cf env env2 (fst k) (snd k) maxlen g = Some (g', GOOGLE_STATUS_OVERQUOTA, a) \<and>
    same_quota 2 g g'"
proof -
  obtain g1 a where g1: "lookup_address_from_latlon cf env (fst k) (snd k) maxlen g = Some (g1, GOOGLE_STATUS_OVERQUOTA, a)"
    "same_quota 1 g g1" using lookup_over_quota [OF assms(1,2)] by blast
  obtain g2 b where "lookup_address_from_latlon cf env2 (fst k) (snd k) maxlen g1 = Some (g2, GOOGLE_STATUS_OVERQUOTA, b)"
    "same_quota 1 g1 g2"
    using lookup_over_quota [OF _ assms(3), of g1] assms(1) same_quota_not_cached [OF g1(2)] by blast
  then show ?thesis
    using g1 same_quota_trans [OF g1(2), of 1 g2] by (simp add: lookup_retry_def eval_nat_numeral)
qed

text \<open>One request over the quota: counted, or the block begins.\<close>

lemma get_address_over_quota:
  assumes "not_cached cf maxlen k g" and "over_quota cf env maxlen k" and "over_quota cf env2 maxlen k"
    and "\<not> geocode_rate_24h_exceeded g"
  shows "\<exists>g'. get_address_from_latlon cf now env env2 (fst k) (snd k) maxlen g =
      Some (g', GOOGLE_STATUS_OVERQUOTA, take (maxlen - 1) ''(?)'') \<and>
    (\<forall>j. not_cached cf maxlen j g' = not_cached cf maxlen j g) \<and>
    length (gl_requests g') = length (gl_requests g) + 2 \<and>
    (if 2 \<le> geocode_rate_24h_try g
     then geocode_rate_24h_exceeded g' \<and> geocode_rate_24h_wait_until g' = ce_now env2 + 86400 \<and> gl_mails g' = gl_mails g + 1
     else \<not> geocode_rate_24h_exceeded g' \<and> geocode_rate_24h_try g' = geocode_rate_24h_try g + 1 \<and> gl_mails g' = gl_mails g)"
proof -
  obtain g1 a where g1: "lookup_retry cf env env2 (fst k) (snd k) maxlen g = Some (g1, GOOGLE_STATUS_OVERQUOTA, a)"
    and q: "same_quota 2 g g1" using retry_over_quota [OF assms(1,2,3)] by blast
  have nc: "not_cached cf maxlen j (h g1) = not_cached cf maxlen j g" if "gl_addr (h g1) = gl_addr g1" for j h
    using same_quota_not_cached [OF q, of cf maxlen j] that by (simp add: not_cached_def)
  have "GOOGLE_STATUS_OVERQUOTA \<noteq> 0" by (simp add: GOOGLE_STATUS_OVERQUOTA_def)
  then have r: "get_address_from_latlon cf now env env2 (fst k) (snd k) maxlen g
      = Some (lookup_failed (ce_now env2) GOOGLE_STATUS_OVERQUOTA maxlen g1)"
    using assms(4) g1 by (simp add: get_address_from_latlon_def)
  show ?thesis
    using assms(4) q nc [of "\<lambda>g. g\<lparr>geocode_rate_24h_try := geocode_rate_24h_try g + 1\<rparr>"]
      nc [of "\<lambda>g. quota_mail (g\<lparr>geocode_rate_24h_exceeded := True, geocode_rate_24h_wait_until := ce_now env2 + 86400\<rparr>)"]
    unfolding r lookup_failed_def
    by (auto simp: same_quota_def quota_mail_def FAILED_API_CALLS_BEFORE_BLOCKING_24H_def)
qed

section \<open>Properties\<close>


definition eg_reply :: "string \<Rightarrow> xmlnode option" where
  "eg_reply s = Some (XNode ''GeocodeResponse'' None
     [XNode ''status'' None [XNode ''text'' (Some s) []],
      XNode ''result'' None [XNode ''type'' None [XNode ''text'' (Some ''street_address'') []],
        XNode ''formatted_address'' None [XNode ''text'' (Some ''Kungsgatan 2'') []]]])"

definition eg_conf :: geo_conf where
  "eg_conf = \<lparr>cf_gpsdist = \<lambda>_ _ _ _. 0, address_lookup_proximity = 0, minimap_detailed_zoom = 15,
     minimap_overview_zoom = 9, google_api_key = ''0123456789abcdef'', xmlParseDoc = eg_reply\<rparr>"

definition eg_geoloc :: geoloc where
  "eg_geoloc = \<lparr>gl_addr = init_geoloc_cache 5, gl_maps = init_geoloc_cache 5, gl_url = [],
     geocode_rl = rate_limit_init 110 0, staticmap_rl = rate_limit_init 110 0, geocode_rate_24h_exceeded = False,
     geocode_rate_24h_wait_until = 0, geocode_rate_24h_try = 0, staticmap_rate_24h_exceeded = False,
     staticmap_rate_24h_wait_until = 0, staticmap_rate_24h_try = 0, gl_requests = [], gl_mails = 0\<rparr>"

definition eg_env :: "string \<Rightarrow> call_env" where
  "eg_env s = \<lparr>ce_net = \<lambda>_. Some [s], ce_now = 100, ce_t1 = 0, ce_t2 = 200\<rparr>"

definition eg_request :: "string \<Rightarrow> request" where
  "eg_request s = \<lparr>rq_now = 99, rq_env = eg_env s, rq_env2 = eg_env s, rq_pos = (''57.1293'', ''17.4361'')\<rparr>"




text \<open>
  C19: the block for 24 hours. From a state that is not blocked and has counted no failure, three calls
  for which the service reports that the quota is exceeded, each tried twice, return
  \<open>GOOGLE_STATUS_OVERQUOTA\<close> with the address \<^verbatim>\<open>(?)\<close>; the third starts the block, sends one mail, and from then
  until 24 hours later every call, for whatever position, returns the same code and address
  without a request and leaves the state as it is.
\<close>

theorem quota_exceeded_blocks:
  assumes "\<not> geocode_rate_24h_exceeded g" and "geocode_rate_24h_try g = 0" and "rs = [r1, r2, r3]"
    and "list_all (\<lambda>r. not_cached cf maxlen (rq_pos r) g \<and> over_quota cf (rq_env r) maxlen (rq_pos r) \<and>
       over_quota cf (rq_env2 r) maxlen (rq_pos r)) rs"
  shows "\<exists>g'. get_addresses cf maxlen rs g =
      Some (g', replicate 3 (GOOGLE_STATUS_OVERQUOTA, take (maxlen - 1) ''(?)'')) \<and>
    gl_mails g' = gl_mails g + 1 \<and> length (gl_requests g') = length (gl_requests g) + 6 \<and>
    (\<forall>now env env2 lat lon. now < ce_now (rq_env2 r3) + 24 * 3600 \<longrightarrow>
       get_address_from_latlon cf now env env2 lat lon maxlen g' =
         Some (g', GOOGLE_STATUS_OVERQUOTA, take (maxlen - 1) ''(?)''))"
proof -
  let ?get = "\<lambda>r. get_address_from_latlon cf (rq_now r) (rq_env r) (rq_env2 r) (fst (rq_pos r)) (snd (rq_pos r)) maxlen"
  let ?res = "\<lambda>g'. Some (g', GOOGLE_STATUS_OVERQUOTA, take (maxlen - 1) ''(?)'')"
  note step = get_address_over_quota [of cf maxlen]
  have le: "\<not> (2 :: u32) \<le> 0" "\<not> (2 :: u32) \<le> 1" by (simp_all add: word_le_nat_alt)
  have q: "over_quota cf (rq_env r) maxlen (rq_pos r)" "over_quota cf (rq_env2 r) maxlen (rq_pos r)"
    "not_cached cf maxlen (rq_pos r) g" if "r \<in> set rs" for r
    using assms(4) that by (auto simp: list_all_iff)
  obtain g1 where g1: "?get r1 g = ?res g1" "\<forall>j. not_cached cf maxlen j g1 = not_cached cf maxlen j g"
    "length (gl_requests g1) = length (gl_requests g) + 2"
    "\<not> geocode_rate_24h_exceeded g1" "geocode_rate_24h_try g1 = 1" "gl_mails g1 = gl_mails g"
    using step [of "rq_pos r1" g "rq_env r1" "rq_env2 r1" "rq_now r1"] q [of r1] assms(1,2,3) le by auto
  obtain g2 where g2: "?get r2 g1 = ?res g2" "\<forall>j. not_cached cf maxlen j g2 = not_cached cf maxlen j g1"
    "length (gl_requests g2) = length (gl_requests g1) + 2"
    "\<not> geocode_rate_24h_exceeded g2" "geocode_rate_24h_try g2 = 2" "gl_mails g2 = gl_mails g1"
    using step [of "rq_pos r2" g1 "rq_env r2" "rq_env2 r2" "rq_now r2"] q [of r2] assms(3) g1 le by auto
  obtain g3 where g3: "?get r3 g2 = ?res g3"
    "length (gl_requests g3) = length (gl_requests g2) + 2" "geocode_rate_24h_exceeded g3"
    "geocode_rate_24h_wait_until g3 = ce_now (rq_env2 r3) + 86400" "gl_mails g3 = gl_mails g2 + 1"
    using step [of "rq_pos r3" g2 "rq_env r3" "rq_env2 r3" "rq_now r3"] q [of r3] assms(3) g1(2) g2 by auto
  have "get_address_from_latlon cf now env env2 lat lon maxlen g3 = ?res g3"
    if "now < ce_now (rq_env2 r3) + 24 * 3600" for now env env2 lat lon
    using that g3(3,4) by (simp add: get_address_from_latlon_def)
  moreover have "get_addresses cf maxlen rs g = Some (g3, replicate 3 (GOOGLE_STATUS_OVERQUOTA, take (maxlen - 1) ''(?)''))"
    using g1(1) g2(1) g3(1) by (simp add: assms(3) eval_nat_numeral)
  ultimately show ?thesis using g1 g2 g3 by auto
qed

lemma eg_over_quota: "over_quota eg_conf (eg_env ''OVER_QUERY_LIMIT'') 100 k"
  by (simp add: over_quota_def eg_conf_def eg_env_def curl_easy_perform_def cb_curl_def parse_reply_def eg_reply_def
      status_codes_def GOOGLE_STATUS_OVERQUOTA_def)

lemma eg_not_cached: "not_cached eg_conf 100 k eg_geoloc"
proof -
  have h: "holds (gl_addr eg_geoloc) []" using holds_init [of 5] by (simp add: eg_geoloc_def)
  then have "addr_fresh 100 (gl_addr eg_geoloc)"
    unfolding addr_fresh_def by (intro exI [of _ "[]"]) (simp add: eg_geoloc_def init_geoloc_cache_def)
  then show ?thesis using addr_lookup_holds [OF h] by (simp add: not_cached_def)
qed

theorem quota_exceeded_blocks_witness:
  "\<exists>g'. get_addresses eg_conf 100 (replicate 3 (eg_request ''OVER_QUERY_LIMIT'')) eg_geoloc =
      Some (g', replicate 3 (GOOGLE_STATUS_OVERQUOTA, ''(?)'')) \<and> gl_mails g' = 1 \<and>
    get_address_from_latlon eg_conf 5000 (eg_env ''OK'') (eg_env ''OK'') ''57.1293'' ''17.4361'' 100 g' =
      Some (g', GOOGLE_STATUS_OVERQUOTA, ''(?)'')"
proof -
  let ?r = "eg_request ''OVER_QUERY_LIMIT''"
  have "replicate 3 ?r = [?r, ?r, ?r]" by (simp add: eval_nat_numeral)
  moreover have "list_all (\<lambda>r. not_cached eg_conf 100 (rq_pos r) eg_geoloc \<and> over_quota eg_conf (rq_env r) 100 (rq_pos r) \<and>
       over_quota eg_conf (rq_env2 r) 100 (rq_pos r)) [?r, ?r, ?r]"
    using eg_over_quota eg_not_cached by (simp add: eg_request_def)
  moreover have "gl_mails eg_geoloc = 0" "\<not> geocode_rate_24h_exceeded eg_geoloc" "geocode_rate_24h_try eg_geoloc = 0"
    "(5000 :: int) < ce_now (rq_env2 ?r) + 24 * 3600"
    by (simp_all add: eg_geoloc_def eg_request_def eg_env_def)
  ultimately show ?thesis
    using quota_exceeded_blocks [of eg_geoloc "[?r, ?r, ?r]" ?r ?r ?r eg_conf 100] by fastforce
qed

text \<open>
  The rate limit keeps its interval. If the clock does not run backwards or around and \<open>usleep\<close> sleeps at
  least as long as asked, then for limits up to 4294967 ms the time a call of \<open>rate_limit\<close> records is at
  least the limit after the time recorded before it.
\<close>

theorem rate_limit_spacing:
  assumes "rate_limit t1 t2 rl = (us, rl')" and "rl_last rl \<le> t1" and "rl_ms rl \<le> 4294967"
    and "unat t1 * 1000 + unat us \<le> unat t2 * 1000"
  shows "unat (rl_last rl) + unat (rl_ms rl) \<le> unat (rl_last rl')"
proof -
  let ?d = "t1 - rl_last rl"
  have d: "unat ?d = unat t1 - unat (rl_last rl)" "unat (rl_last rl) \<le> unat t1"
    using assms(2) by (simp_all add: unat_sub word_le_nat_alt)
  have l: "rl_last rl' = t2" using assms(1) by (auto simp: rate_limit_def Let_def)
  have lim: "unat (rl_ms rl) \<le> 4294967" using assms(3) by (simp add: word_le_nat_alt)
  show ?thesis
  proof (cases "?d < rl_ms rl")
    case True
    then have n: "unat (rl_ms rl - ?d) = unat (rl_ms rl) - unat ?d" "unat ?d < unat (rl_ms rl)"
      by (simp_all add: unat_sub word_le_nat_alt word_less_nat_alt)
    have "us = ucast ((rl_ms rl - ?d) * 1000)" using assms(1) True by (simp add: rate_limit_def Let_def)
    moreover have "unat (m * 1000) = unat m * 1000" if "unat m \<le> 4294967" for m :: u64
      using that by (simp add: unat_word_ariths)
    then have "unat ((rl_ms rl - ?d) * 1000) = unat (rl_ms rl - ?d) * 1000"
      by this (use lim n in linarith)
    then have "unat ((rl_ms rl - ?d) * 1000) = (unat (rl_ms rl) - unat ?d) * 1000" unfolding n(1) .
    moreover have "unat (ucast w :: u32) = unat w" if "unat w < 2 ^ 32" for w :: u64
      using that by (simp add: unsigned_ucast_eq take_bit_nat_eq_self)
    ultimately have "unat us = (unat (rl_ms rl) - unat ?d) * 1000"
      using lim by simp
    then show ?thesis using assms(4) d n(2) unfolding l by simp
  next
    case False
    then have "unat (rl_ms rl) \<le> unat ?d" by (simp add: word_less_nat_alt)
    moreover have "unat t1 \<le> unat t2" using assms(4) by simp
    ultimately show ?thesis using d unfolding l by simp
  qed
qed

theorem rate_limit_spacing_witness:
  "rate_limit 1050 1110 \<lparr>rl_ms = 110, rl_last = 1000\<rparr> = (60000, \<lparr>rl_ms = 110, rl_last = 1110\<rparr>) \<and>
   unat (1000 :: u64) + unat (110 :: u64) \<le> unat (1110 :: u64)"
proof -
  have r: "rate_limit 1050 1110 \<lparr>rl_ms = 110, rl_last = 1000\<rparr> = (60000, \<lparr>rl_ms = 110, rl_last = 1110\<rparr>)"
    by (simp add: rate_limit_def Let_def)
  show ?thesis using r rate_limit_spacing [OF r] by simp
qed

text \<open>
  The status of the reply. When the first \<^verbatim>\<open>status\<close> element of the service's reply has the text of an
  error status, \<open>parse_reply\<close> returns minus ten minus its number in \<open>status_codes\<close>, and minus one for an
  unknown text, whatever else is in the reply, and no address.
\<close>

theorem reply_error_status:
  assumes "xml reply = Some (XNode ''GeocodeResponse'' ct (pre @ XNode ''status'' cs (XNode n (Some s) ds # es) # post))"
    and "list_all (\<lambda>x. xname x \<noteq> ''status'') pre" and "s \<noteq> ''OK''"
  shows "parse_reply xml reply maxlen =
    Some (if s \<in> set status_codes then - 10 - int (find_idx (\<lambda>t. t = s) status_codes) else -1, [])"
proof -
  let ?i = "find_idx (\<lambda>t. s = t) status_codes"
  have i: "?i \<noteq> 0" using assms(3) by (simp add: status_codes_def)
  have "reply_status (pre @ XNode ''status'' cs (XNode n (Some s) ds # es) # post) =
      Some (if ?i < length status_codes then - (10 + int ?i) else -1)"
    using assms(2) i by (induction pre) (simp_all add: Let_def)
  moreover have "?i < length status_codes \<longleftrightarrow> s \<in> set status_codes"
    by (auto simp: find_idx_less_iff)
  moreover have "?i = find_idx (\<lambda>t. t = s) status_codes" by (intro find_idx_cong) auto
  ultimately show ?thesis using assms(1) by (simp add: parse_reply_def)
qed

theorem reply_error_status_witness:
  "parse_reply eg_reply ''REQUEST_DENIED'' 50 = Some (-14, [])"
  using reply_error_status [of eg_reply "''REQUEST_DENIED''" None "[]" None "''text''" "''REQUEST_DENIED''" "[]" "[]" _ 50]
  by (simp add: eg_reply_def status_codes_def)

end
