(* ===== verification/Cmdinterp.thy ===== *)
theory Cmdinterp
  imports Userinput Geoloc Tracker
begin

unbundle bit_operations_syntax

text \<open>
  The command interpreter (\<^verbatim>\<open>src/src/g7cmd.c\<close>): building the command text for the device, the handlers the
  command table points to, the choice of the handler by regular expressions, and the thread that serves
  a client. The regular expression matcher (PCRE) is an argument of the interpreter, from pattern and text
  to the matched fields; the commands of other files (database, server, presets) and the download of the
  recorded locations are arguments too.
\<close>

section \<open>Session\<close>

text \<open>The daemon, the client, the geolocation state, what the client will type and what it was sent.\<close>

record session =
  ss_d :: daemon
  ss_cli :: client_info
  ss_geo :: geoloc
  ss_in :: "sock_in list"
  ss_out :: "string list"

datatype other_cmd =
    O_srv_help "string list" | O_db_help "string list" | O_srv string
  | O_export "string list" | O_dist "string list" | O_mailgpx | O_mailcsv | O_mailpos | O_size | O_lastloc
  | O_head int | O_tail int | O_sort_device | O_sort_arrival | O_sort | O_deletelocations
  | O_preset "string list" | O_func string string string

text \<open>Configuration and surroundings of one command.\<close>

record cmd_env =
  translateDeviceReply :: bool
  en_io :: sysio
  en_cf :: geo_conf
  en_now :: int
  en_env1 :: call_env
  en_env2 :: call_env
  use_address_lookup :: bool
  enable_raw_device_commands :: bool
  en_pcre :: "string \<Rightarrow> string \<Rightarrow> string list option"
  get_dlrec_to_db :: "session \<Rightarrow> (session \<times> int) option"
  en_other :: "other_cmd \<Rightarrow> session \<Rightarrow> (session \<times> int) option"

definition say :: "string \<Rightarrow> session \<Rightarrow> session" where
  "say txt s = s\<lparr>ss_out := ss_out s @ writef (cli_socket (ss_cli s)) txt\<rparr>"

section \<open>Commands to the device\<close>

definition wp_prefix :: "string \<Rightarrow> string \<Rightarrow> string \<Rightarrow> string" where
  "wp_prefix cmd tagbuffer pinbuffer =
     ''$WP+'' @ cmd @ (if tagbuffer = [] then [] else ''+'' @ tagbuffer) @ ''='' @ pinbuffer"

definition device_cmd_text :: "nat \<Rightarrow> string \<Rightarrow> string \<Rightarrow> string \<Rightarrow> string \<Rightarrow> string" where
  "device_cmd_text mode cmd tagbuffer pinbuffer argstrlist =
     (if mode = CMD_MODE_W then
        (let buffer = snprintf 1023 (wp_prefix cmd tagbuffer pinbuffer) in
         if argstrlist = [] then buffer
         else let buffer = fst (xstrlcat buffer '','' 1024) in buffer @ take (1024 - length buffer - 1) argstrlist)
      else snprintf 1023 (wp_prefix cmd tagbuffer pinbuffer @ (if argstrlist = [] then [] else '','' @ argstrlist) @ '',?''))"

definition prepare_cmd_to_device ::
  "cmd_env \<Rightarrow> nat \<Rightarrow> nat \<Rightarrow> string \<Rightarrow> session \<Rightarrow> (session \<times> int) option" where
  "prepare_cmd_to_device en cmdidx mode argstrlist s =
     (case snd (get_device_pin 8) of None \<Rightarrow> None | Some pinbuffer \<Rightarrow>
      case get_device_tag 8 (d_tagnbr (ss_d s)) of (t, _, tagbuffer) \<Rightarrow>
      let s = s\<lparr>ss_d := (ss_d s)\<lparr>d_tagnbr := t\<rparr>\<rparr>; c = g7command_list ! cmdidx in
      if mode AND modes c = 0
      then Some (say (''[ERR] This command is not valid. See '' @ quoted_text (''help '' @ srvcmd c) @ [LF]) s, -1)
      else case send_rawcmd (translateDeviceReply en) (en_io en) (ss_d s) (ss_cli s)
                  (device_cmd_text mode (cmdstr c) tagbuffer pinbuffer argstrlist) tagbuffer of
             None \<Rightarrow> None
           | Some (d, cli, rc, _, out) \<Rightarrow> Some (s\<lparr>ss_d := d, ss_cli := cli, ss_out := ss_out s @ out\<rparr>, rc))"

definition error_notsupported_cmd :: "session \<Rightarrow> (session \<times> int) option" where
  "error_notsupported_cmd s = Some (say (''[ERR] Not supported command. Internal fault.'' @ [LF]) s, -1)"

text \<open>Ask the client for the arguments and send the command with them.\<close>

definition write_with_args :: "cmd_env \<Rightarrow> nat \<Rightarrow> nat \<Rightarrow> session \<Rightarrow> (session \<times> int) option" where
  "write_with_args en cmdidx argidx s =
     (if numargs (cmdargs_list ! argidx) = 0
      then prepare_cmd_to_device en cmdidx CMD_MODE_W (fst (xstrlcpy ''1'' 256)) s
      else case get_cmd_args (cli_socket (ss_cli s)) cmdidx 256 (ss_in s) of (ins, rc, buff, out) \<Rightarrow>
        let s = s\<lparr>ss_in := ins, ss_out := ss_out s @ out\<rparr> in
        if rc \<noteq> 0 then Some (s, rc) else prepare_cmd_to_device en cmdidx CMD_MODE_W buff s)"

definition cmd_binary_template :: "cmd_env \<Rightarrow> nat \<Rightarrow> nat \<Rightarrow> session \<Rightarrow> (session \<times> int) option" where
  "cmd_binary_template en cmdidx gsflag s =
     (if gsflag = 0 then prepare_cmd_to_device en cmdidx CMD_MODE_R [] s
      else if gsflag = 1 then
        (case get_argidx_for_cmdidx cmdidx of
           None \<Rightarrow> Some (s, -1)
         | Some argidx \<Rightarrow> write_with_args en cmdidx argidx s)
      else if gsflag = 2 then prepare_cmd_to_device en cmdidx CMD_MODE_W (fst (xstrlcpy ''0'' 256)) s
      else error_notsupported_cmd s)"

definition cmd_get_template :: "cmd_env \<Rightarrow> nat \<Rightarrow> nat \<Rightarrow> session \<Rightarrow> (session \<times> int) option" where
  "cmd_get_template en cmdidx gsflag s =
     (if gsflag \<noteq> 0
      then Some (say (''[ERR] Invalid invocation of '' @ quoted_text (cmdstr (g7command_list ! cmdidx))) s, -1)
      else prepare_cmd_to_device en cmdidx CMD_MODE_R [] s)"

definition cmd_set_template :: "cmd_env \<Rightarrow> nat \<Rightarrow> nat \<Rightarrow> session \<Rightarrow> (session \<times> int) option" where
  "cmd_set_template en cmdidx gsflag s =
     (if cmdidx = CMDIDX_SETEVT \<and> gsflag = 0
      then Some (say (''[ERR] Missing argument. Command synopsis: '' @ quoted_text ''get gfevt EVENTID'') s, -1)
      else if gsflag = 0 then prepare_cmd_to_device en cmdidx CMD_MODE_R [] s
      else if gsflag = 1 then
        (case get_argidx_for_cmdidx cmdidx of
           None \<Rightarrow> Some (say ''[ERR] Internal error in cmd_set_template(). Negative argidx'' s, -1)
         | Some argidx \<Rightarrow> write_with_args en cmdidx argidx s)
      else error_notsupported_cmd s)"

definition cmd_do_template :: "cmd_env \<Rightarrow> nat \<Rightarrow> nat \<Rightarrow> session \<Rightarrow> (session \<times> int) option" where
  "cmd_do_template en cmdidx gsflag s =
     (if gsflag \<noteq> 0
      then Some (say (''[ERR] Invalid invocation of '' @ quoted_text (cmdstr (g7command_list ! cmdidx))) s, -1)
      else prepare_cmd_to_device en cmdidx CMD_MODE_W [] s)"

section \<open>Battery, location and address\<close>

text \<open>The query of the device with the text of its reply; \<open>sz\<close> is the size of the buffer.\<close>

definition query :: "cmd_env \<Rightarrow> string \<Rightarrow> nat \<Rightarrow> session \<Rightarrow> (session \<times> int \<times> string) option" where
  "query en cmd sz s =
     (case send_cmdquery_reply (translateDeviceReply en) (en_io en) (ss_d s) (ss_cli s) cmd [] sz of
        None \<Rightarrow> None
      | Some (d, cli, rc, reply) \<Rightarrow> Some (s\<lparr>ss_d := d, ss_cli := cli\<rparr>, rc, reply))"

definition cmd_get_dev_batt :: "cmd_env \<Rightarrow> session \<Rightarrow> (session \<times> int \<times> string) option" where
  "cmd_get_dev_batt en s =
     (case query en ''loc'' 128 s of
        None \<Rightarrow> None
      | Some (s, rc, reply) \<Rightarrow>
          if rc \<noteq> 0 then Some (s, rc, [])
          else case xstrsplitfields reply (CHR '','') of (rc, flds) \<Rightarrow>
            Some (s, rc, if rc = 0 \<and> 9 < length flds then strncpy0 (flds ! 9) 5 else []))"

definition exec_cmd_batt :: "cmd_env \<Rightarrow> session \<Rightarrow> (session \<times> int) option" where
  "exec_cmd_batt en s =
     (case cmd_get_dev_batt en s of
        None \<Rightarrow> None
      | Some (s, rc, volt) \<Rightarrow>
          Some (if rc = 0 then say (DEVICE_REPLY_PROMPT @ volt) s
                else say ''[ERR] Failed to read battery voltage.'' s, rc))"

definition get_googlemap_string :: "string \<Rightarrow> string \<Rightarrow> nat \<Rightarrow> int \<times> string" where
  "get_googlemap_string lat lon maxlen =
     (if 8 \<le> length lat \<and> 8 \<le> length lon
      then (0, snprintf maxlen (''https://www.google.com/maps?q='' @ lat @ '','' @ lon)) else (-1, []))"

text \<open>The fields are read without a look at their number: with less than four the buffer is not initialised.\<close>

definition exec_get_locg :: "cmd_env \<Rightarrow> session \<Rightarrow> (session \<times> int) option" where
  "exec_get_locg en s =
     (case query en ''locg'' 256 s of
        None \<Rightarrow> None
      | Some (s, rc, reply) \<Rightarrow>
          if rc = -1 then Some (say ''[ERR] Internal error cannot execute command'' s, -1)
          else case xstrsplitfields reply (CHR '','') of (rc, flds) \<Rightarrow>
            if rc \<noteq> 0 then Some (say ''[ERR] Failed to get location'' s, -1)
            else if length flds < 4 then None
            else case get_googlemap_string (flds ! 3) (flds ! 2) 128 of (rc, mapstr) \<Rightarrow>
              Some (if rc = 0 then (say (DEVICE_REPLY_PROMPT @ mapstr) s, 0)
                    else (say ''[ERR] Failed to get location'' s, -1)))"

definition exec_get_address :: "cmd_env \<Rightarrow> nat \<Rightarrow> session \<Rightarrow> (session \<times> int \<times> string) option" where
  "exec_get_address en maxaddress s =
     (if \<not> use_address_lookup en then Some (s, -1, [])
      else case query en ''loc'' 256 s of
        None \<Rightarrow> None
      | Some (s, rc, reply) \<Rightarrow>
          if rc = -1 then Some (s, -1, [])
          else case xstrsplitfields reply (CHR '','') of (rc, flds) \<Rightarrow>
            if rc \<noteq> 0 then Some (s, -1, [])
            else if length flds < 4 then None
            else case get_address_from_latlon (en_cf en) (en_now en) (en_env1 en) (en_env2 en) (flds ! 3) (flds ! 2)
                        maxaddress (ss_geo s) of
                   None \<Rightarrow> None
                 | Some (g, rc, address) \<Rightarrow>
                     Some (s\<lparr>ss_geo := g\<rparr>, if rc = 0 then 0 else -1, address))"

definition exec_cmd_address :: "cmd_env \<Rightarrow> session \<Rightarrow> (session \<times> int) option" where
  "exec_cmd_address en s =
     (case exec_get_address en 256 s of
        None \<Rightarrow> None
      | Some (s, rc, address) \<Rightarrow>
          Some (if rc = -1 then say ''[ERR] Failed to get address'' s else say (DEVICE_REPLY_PROMPT @ address) s, rc))"

section \<open>The classes of commands\<close>

text \<open>Calling the function of the table; the null pointer of \<^verbatim>\<open>locg\<close> is undefined behaviour.\<close>

definition call_handler :: "cmd_env \<Rightarrow> nat \<Rightarrow> nat \<Rightarrow> session \<Rightarrow> (session \<times> int) option" where
  "call_handler en cmdidx gsflag s =
     (case cmdhandler (g7command_list ! cmdidx) of
        H_binary \<Rightarrow> cmd_binary_template en cmdidx gsflag s
      | H_set \<Rightarrow> cmd_set_template en cmdidx gsflag s
      | H_get \<Rightarrow> cmd_get_template en cmdidx gsflag s
      | H_do \<Rightarrow> cmd_do_template en cmdidx gsflag s
      | H_batt \<Rightarrow> exec_cmd_batt en s
      | H_dlrec \<Rightarrow> get_dlrec_to_db en s
      | H_address \<Rightarrow> exec_cmd_address en s
      | H_null \<Rightarrow> None)"

definition find_command :: "nat list \<Rightarrow> string \<Rightarrow> nat" where
  "find_command types name = find_idx (\<lambda>c. cmd_type c \<in> set types \<and> xstricmp name (srvcmd c) = 0) g7command_list"

definition exec_binary_command :: "cmd_env \<Rightarrow> string list \<Rightarrow> session \<Rightarrow> (session \<times> int) option" where
  "exec_binary_command en field s =
     (let i = find_command [CMD_TYPE_GETSET_BINARY] (field ! 1) in
      if i < length g7command_list then call_handler en i (if xstricmp (field ! 2) ''on'' = 0 then 1 else 2) s
      else Some (say (''[ERR] '' @ snprintf 256 (''Command '' @ quoted_text (field ! 1) @ '' is not valid. Try help.'')) s, 0))"

definition exec_get_command :: "cmd_env \<Rightarrow> string list \<Rightarrow> session \<Rightarrow> (session \<times> int) option" where
  "exec_get_command en field s =
     (let i = find_command [CMD_TYPE_GET, CMD_TYPE_GETSET_BINARY, CMD_TYPE_GETSET] (field ! 1) in
      if i < length g7command_list then call_handler en i 0 s
      else Some (say (''[ERR] '' @ snprintf 256 (''Command '' @ quoted_text (''get '' @ (field ! 1)) @ '' is not valid. Try help.'')) s, 0))"

definition exec_get_gfevt :: "cmd_env \<Rightarrow> string list \<Rightarrow> session \<Rightarrow> (session \<times> int) option" where
  "exec_get_gfevt en field s =
     (let evtid = xatoi (field ! 1) in
      if evtid < 50 \<or> 99 < evtid then Some (say ''[ERR] Event ID must be in range [50,99]'' s, -1)
      else prepare_cmd_to_device en CMDIDX_SETEVT CMD_MODE_R (field ! 1) s)"

definition exec_set_command :: "cmd_env \<Rightarrow> string list \<Rightarrow> session \<Rightarrow> (session \<times> int) option" where
  "exec_set_command en field s =
     (let i = find_command [CMD_TYPE_SET, CMD_TYPE_GETSET] (field ! 1) in
      if i < length g7command_list then call_handler en i 1 s
      else Some (say (''[ERR] '' @ snprintf 256 (''Command '' @ quoted_text (''set '' @ (field ! 1)) @ '' is not valid. Try help.'')) s, 0))"

definition exec_do_command :: "cmd_env \<Rightarrow> string list \<Rightarrow> session \<Rightarrow> (session \<times> int) option" where
  "exec_do_command en field s =
     (let i = find_command [CMD_TYPE_DO] (field ! 1) in
      if i < length g7command_list then call_handler en i 0 s
      else Some (say (''[ERR] '' @ snprintf 256 (''Command '' @ quoted_text (''do '' @ (field ! 1)) @ '' is not valid. Try help.'')) s, 0))"

definition exec_native_command :: "cmd_env \<Rightarrow> string \<Rightarrow> session \<Rightarrow> session option" where
  "exec_native_command en cmd s =
     (if enable_raw_device_commands en then
        (case send_rawcmd (translateDeviceReply en) (en_io en) (ss_d s) (ss_cli s) cmd [] of
           None \<Rightarrow> None
         | Some (d, cli, _, _, out) \<Rightarrow> Some (s\<lparr>ss_d := d, ss_cli := cli, ss_out := ss_out s @ out\<rparr>))
      else Some (say ''[ERR] Native command sending NOT enabled by administrator.'' s))"


section \<open>Help\<close>

text \<open>A name padded on the right, \<^verbatim>\<open>%-9s\<close>.\<close>

definition padr :: "nat \<Rightarrow> string \<Rightarrow> string" where
  "padr n s = s @ replicate (n - length s) (CHR '' '')"

text \<open>The names and descriptions sorted by \<open>strcmp\<close>; \<open>qsort\<close> leaves no choice, since the names are distinct.\<close>

definition cmdhlplist :: "(string \<times> string) list" where
  "cmdhlplist = sort_key fst (map (\<lambda>c. (srvcmd c, descrshort c)) g7command_list)"

definition server_help :: "string list" where
  "server_help =
     [[LF], ''Use '' @ quoted_text ''help <command>'' @ '' for detailed help on each command.'' @ [LF], [LF],
      ''Server Command list:'' @ [LF] @ ''--------------------'' @ [LF],
      ''help                   - Print help for all commands'' @ [LF],
      ''.address               - Toggle address lookup when storing locations'' @ [LF],
      ''.cachestat             - Display statistics for the Geolocation cache'' @ [LF],
      ''.date                  - Display server date and time'' @ [LF],
      ''.dn                    - Delete specified nick'' @ [LF],
      ''.lc                    - List command connections'' @ [LF],
      ''.ld                    - List all devices connections (on USB and GPRS)'' @ [LF],
      ''.ln                    - List all registered nicks'' @ [LF],
      ''.nick                  - Register a nick-name for connected device'' @ [LF],
      ''.ratereset             - Reset Geolocation lookup rate suspension'' @ [LF],
      ''.report                - Generate a PDF report of connected device to specified file'' @ [LF],
      ''.table                 - Switch between ASCII and Unicode box drawing characters for output tables'' @ [LF],
      ''.target                - List devices connected over GPRS or set active GPRS connection'' @ [LF],
      ''.usb                   - List devices on USB or set active USB connection'' @ [LF],
      ''.ver                   - Give version information of server'' @ [LF],
      [LF] @ ''DB Command list:'' @ [LF] @ ''----------------'' @ [LF],
      ''db dist                - Calculate the approximate distance from a set of chosen locations'' @ [LF],
      ''db deletelocations     - Clear all stored locations'' @ [LF],
      ''db export              - Export selected locations in chosen format to file'' @ [LF],
      ''db head                - Display the newest received locations'' @ [LF],
      ''db lastloc             - Retrieve the last stored location in the DB'' @ [LF],
      ''db mailpos             - Mail the last stored location in the DB'' @ [LF],
      ''db mailcsv             - Export the database in CSV format and mail as compressed attachment'' @ [LF],
      ''db mailgpx             - Export the database in GPX format and mail as compressed attachment'' @ [LF],
      ''db size                - Return number of location events in DB'' @ [LF],
      ''db tail                - Display the oldest received locations'' @ [LF],
      ''db sort [device|arrival] - Set sort order for db head & tail commands'' @ [LF],
      [LF] @ ''Preset command list:'' @ [LF] @ ''----------------'' @ [LF],
      ''preset list            - List all read preset files with short description'' @ [LF],
      ''preset refresh         - Re-read all preset files from disk'' @ [LF],
      ''preset use <preset>    - Use (execute) the specified preset ('' @ quoted_text ''@<preset>'' @ '' as shortform)'' @ [LF],
      ''preset help <preset>   - Give more detailed help on the specified preset'' @ [LF],
      [LF]]"

definition exec_help_commandlist :: "session \<Rightarrow> session" where
  "exec_help_commandlist s =
     fold say ((''Device Command list:'' @ [LF] @ ''--------------------'' @ [LF]) #
               map (\<lambda>(cmd, cmdhelp). padr 9 cmd @ '' - '' @ cmdhelp @ [LF]) cmdhlplist @ server_help) s"

definition synopsis :: "g7command \<Rightarrow> string" where
  "synopsis c =
     (if cmd_type c = 1 then ''  get '' @ srvcmd c @ [LF]
      else if cmd_type c = 2 then ''  set '' @ srvcmd c @ [LF]
      else if cmd_type c = 4 then ''  set '' @ srvcmd c @ '' [on|off]'' @ [LF] @ ''  get '' @ srvcmd c @ [LF]
      else if cmd_type c = 8 then ''  [get|set] '' @ srvcmd c @ [LF]
      else if cmd_type c = 16 then ''  do '' @ srvcmd c @ [LF]
      else [])"

definition exec_help_for_command :: "string \<Rightarrow> session \<Rightarrow> session" where
  "exec_help_for_command cmd_name s =
     (let i = find_idx (\<lambda>c. xstricmp cmd_name (srvcmd c) = 0) g7command_list in
      if i < length g7command_list then
        let c = g7command_list ! i in
        fold say
          ([''NAME:'' @ [LF] @ ''  '' @ srvcmd c @ '' - '' @ descrshort c @ [LF, LF], ''SYNOPSIS:'' @ [LF], synopsis c, [LF]] @
           (if cmd_type c AND 14 \<noteq> 0 then
              [[LF] @ ''ARGUMENTS:'' @ [LF]] @
              (case get_argidx_for_cmdidx i of
                 None \<Rightarrow> []
               | Some argidx \<Rightarrow>
                   map (\<lambda>a. ''  '' @ padr 19 (arglabel a) @ '' - '' @ argdesc a @ [LF])
                     (take (numargs (cmdargs_list ! argidx)) (argl (cmdargs_list ! argidx)))) @
              [[LF, LF]]
            else []) @
           [''DESCRIPTION:'' @ [LF], ''Long description not yet available.'' @ [LF]]) s
      else say (''[ERR] '' @ quoted_text cmd_name @ '' is not valid command.'') s)"

section \<open>The interpreter\<close>

text \<open>The parts of the patterns (\<^verbatim>\<open>utils.h\<close>); \<open>bs\<close> puts a backslash in front.\<close>

definition bs :: "string \<Rightarrow> string" where
  "bs s = CHR 0x5C # s"

definition PR_S :: string where "PR_S = ''['' @ bs ''p{Z}]+''"
definition PR_SO :: string where "PR_SO = ''['' @ bs ''p{Z}]*''"
definition PR_AN :: string where "PR_AN = ''(['' @ bs ''p{L}'' @ bs ''p{N}'' @ bs ''_'' @ bs ''-]+)''"
definition PR_N :: string where "PR_N = ''(['' @ bs ''p{N}]+)''"
definition PR_E :: string where "PR_E = ''$''"
definition PR_ONOFF :: string where "PR_ONOFF = ''(on|off)''"

definition PR_ANF :: string where
  "PR_ANF = ''(['' @ bs ''p{L}]+)'' @ bs ''((['' @ bs ''p{N}'' @ bs ''p{L}'' @ bs [DQ] @ bs ''.'' @ bs ''+'' @ bs '',]*)'' @ bs '')''"

definition pr_punct :: string where
  "pr_punct = bs ''.'' @ bs ''>'' @ bs ''<'' @ bs ''+'' @ bs '';'' @ bs '':'' @ bs ''$'' @ bs '','' @ bs [CHR 0x27] @ bs ''`'' @
     bs [CHR 0x27] @ bs ''-'' @ bs ''&'' @ bs ''#'' @ bs ''=''"

definition PR_ANP :: string where
  "PR_ANP = ''(['' @ bs ''p{L}'' @ bs ''p{N}'' @ bs ''p{P}'' @ pr_punct @ '']+)''"

definition PR_ANPSO :: string where
  "PR_ANPSO = ''(['' @ bs ''p{L}'' @ bs ''p{N}'' @ bs ''p{P} '' @ pr_punct @ '']*)''"

definition PR_FNAMEOEXT :: string where
  "PR_FNAMEOEXT = ''(['' @ bs ''p{L}'' @ bs ''p{N}'' @ bs ''_'' @ bs ''-'' @ bs ''/'' @ bs ''.]+)''"

definition PR_OPDEVID :: string where
  "PR_OPDEVID = ''(dev=(3['' @ bs ''p{N}]{2,9})'' @ PR_SO @ '')?''"

definition PR_OPEVENTID :: string where
  "PR_OPEVENTID = ''(ev='' @ PR_N @ PR_SO @ '')?''"

definition PR_FULLDATE :: string where
  "PR_FULLDATE = ''(201[0-9])-(0[1-9]|1[0-2])-([0-2][0-9]|3[0-2])''"

definition PR_TIME :: string where
  "PR_TIME = ''([0-1][0-9]|2[0-3]):([0-5][0-9])''"

definition PR_OPTOFROMDATE :: string where
  "PR_OPTOFROMDATE = ''('' @ PR_FULLDATE @ PR_SO @ ''('' @ PR_TIME @ '')? '' @ PR_SO @ PR_FULLDATE @ PR_SO @ ''('' @ PR_TIME @ '')?)?''"

datatype action =
    A_binary "string list" | A_locg | A_gfevt "string list" | A_get "string list" | A_set "string list" | A_do "string list"
  | A_help | A_help_cmd string | A_native | A_sort_device | A_sort_arrival | A_func "string list" | A_other other_cmd

text \<open>The patterns in the order of the tests, with what is done for each.\<close>

definition cmd_patterns :: "string \<Rightarrow> (string \<times> (string list \<Rightarrow> action)) list" where
  "cmd_patterns cmd =
     [(''^set'' @ PR_S @ PR_AN @ PR_S @ PR_ONOFF @ PR_E, A_binary),
      (''^get locg'' @ PR_E, \<lambda>_. A_locg),
      (''^get gfevt'' @ PR_S @ PR_N @ PR_E, A_gfevt),
      (''^get'' @ PR_S @ PR_AN @ PR_E, A_get),
      (''^set'' @ PR_S @ PR_AN @ PR_E, A_set),
      (''^do'' @ PR_S @ PR_AN @ PR_E, A_do),
      (''^help '' @ bs ''.'' @ PR_AN @ PR_E, \<lambda>f. A_other (O_srv_help f)),
      (''^help db'' @ PR_S @ PR_AN @ PR_E, \<lambda>f. A_other (O_db_help f)),
      (''^help'' @ PR_E, \<lambda>_. A_help),
      (''^help'' @ PR_S @ PR_AN @ PR_E, \<lambda>f. A_help_cmd (f ! 1)),
      (''^'' @ bs ''.'' @ PR_ANPSO @ PR_E, \<lambda>_. A_other (O_srv cmd)),
      (''^'' @ bs ''$WP'' @ bs ''+'' @ PR_ANP @ PR_E, \<lambda>_. A_native),
      (''^db'' @ PR_S @ ''export'' @ PR_SO @ PR_OPDEVID @ PR_OPEVENTID @ PR_OPTOFROMDATE @ PR_SO @
         ''(kml|gpx|xml|csv|json)('' @ PR_SO @ PR_FNAMEOEXT @ '')?'' @ PR_E, \<lambda>f. A_other (O_export f)),
      (''^db'' @ PR_S @ ''dist'' @ PR_SO @ PR_OPDEVID @ PR_OPEVENTID @ PR_OPTOFROMDATE @ PR_E, \<lambda>f. A_other (O_dist f)),
      (''^db mailgpx'' @ PR_E, \<lambda>_. A_other O_mailgpx),
      (''^db mailcsv'' @ PR_E, \<lambda>_. A_other O_mailcsv),
      (''^db mailpos'' @ PR_E, \<lambda>_. A_other O_mailpos),
      (''^db size'' @ PR_E, \<lambda>_. A_other O_size),
      (''^db lastloc'' @ PR_E, \<lambda>_. A_other O_lastloc),
      (''^db head'' @ PR_E, \<lambda>_. A_other (O_head 10)),
      (''^db head'' @ PR_S @ PR_N @ PR_E, \<lambda>f. A_other (O_head (xatoi (f ! 1)))),
      (''^db tail'' @ PR_E, \<lambda>_. A_other (O_tail 10)),
      (''^db tail'' @ PR_S @ PR_N @ PR_E, \<lambda>f. A_other (O_tail (xatoi (f ! 1)))),
      (''^db sort device'' @ PR_E, \<lambda>_. A_sort_device),
      (''^db sort arrival'' @ PR_E, \<lambda>_. A_sort_arrival),
      (''^db sort'' @ PR_E, \<lambda>_. A_other O_sort),
      (''^db deletelocations'' @ PR_E, \<lambda>_. A_other O_deletelocations),
      (''^preset'' @ PR_S @ ''(list|refresh)'' @ PR_E, \<lambda>f. A_other (O_preset f)),
      (''^preset'' @ PR_S @ ''(use|help)'' @ PR_S @ PR_AN @ PR_E, \<lambda>f. A_other (O_preset f)),
      (''^@@'' @ PR_ANF @ PR_E, A_func),
      (''^@'' @ PR_AN @ PR_E, \<lambda>f. A_other (O_preset
         [snprintf 32 (''preset use '' @ (f ! 1)), ''use'', snprintf 32 (f ! 1)]))]"

text \<open>The first pattern that matches.\<close>

fun first_match :: "(string \<Rightarrow> string \<Rightarrow> string list option) \<Rightarrow> string \<Rightarrow> (string \<times> (string list \<Rightarrow> action)) list \<Rightarrow> action option" where
  "first_match pcre cmd [] = None"
| "first_match pcre cmd ((pat, act) # ps) =
     (case pcre pat cmd of Some field \<Rightarrow> Some (act field) | None \<Rightarrow> first_match pcre cmd ps)"

text \<open>A function given directly: the rest of the text with tag and PIN, and the result reported.\<close>

definition exec_preset_func :: "cmd_env \<Rightarrow> string \<Rightarrow> string list \<Rightarrow> session \<Rightarrow> (session \<times> int) option" where
  "exec_preset_func en cmd field s =
     (case snd (get_device_pin 8) of None \<Rightarrow> None | Some pinbuff \<Rightarrow>
      case get_device_tag 8 (d_tagnbr (ss_d s)) of (t, _, tagbuff) \<Rightarrow>
      case en_other en (O_func (drop 2 cmd) tagbuff pinbuff) (s\<lparr>ss_d := (ss_d s)\<lparr>d_tagnbr := t\<rparr>\<rparr>) of
        None \<Rightarrow> None
      | Some (s, rc) \<Rightarrow>
          Some (if rc = 0 then say ''OK.'' s else say (''FAILED function '' @ quoted_text (field ! 1)) s, rc))"

definition run_action :: "cmd_env \<Rightarrow> string \<Rightarrow> action \<Rightarrow> session \<Rightarrow> (session \<times> int) option" where
  "run_action en cmd act s =
     (case act of
        A_binary f \<Rightarrow> exec_binary_command en f s
      | A_locg \<Rightarrow> exec_get_locg en s
      | A_gfevt f \<Rightarrow> exec_get_gfevt en f s
      | A_get f \<Rightarrow> exec_get_command en f s
      | A_set f \<Rightarrow> exec_set_command en f s
      | A_do f \<Rightarrow> exec_do_command en f s
      | A_help \<Rightarrow> Some (exec_help_commandlist s, 0)
      | A_help_cmd name \<Rightarrow> Some (exec_help_for_command name s, 0)
      | A_native \<Rightarrow> map_option (\<lambda>s. (s, 0)) (exec_native_command en cmd s)
      | A_sort_device \<Rightarrow> map_option (\<lambda>(s, _). (say ''Table sort order: device'' s, 0)) (en_other en O_sort_device s)
      | A_sort_arrival \<Rightarrow> map_option (\<lambda>(s, _). (say ''Table sort order: arrival'' s, 0)) (en_other en O_sort_arrival s)
      | A_func f \<Rightarrow> exec_preset_func en cmd f s
      | A_other other_cmd \<Rightarrow> en_other en other_cmd s)"

definition cmdinterp :: "cmd_env \<Rightarrow> string \<Rightarrow> session \<Rightarrow> (session \<times> int) option" where
  "cmdinterp en cmd s =
     (case first_match (en_pcre en) cmd (cmd_patterns cmd) of
        Some act \<Rightarrow> run_action en cmd act s
      | None \<Rightarrow> Some (say (''[ERR] Command '' @ quoted_text cmd @ '' does not exist.'') s, 0))"

section \<open>The client thread\<close>

text \<open>
  A second without input, or a read with the bytes it returns, the surroundings of the command and
  what the client types while the command runs.
\<close>

datatype client_ev = E_idle | E_read "char list" cmd_env "sock_in list"

text \<open>The loop: the session and whether it has ended; an exhausted list is a client still connected.\<close>

fun client_loop :: "nat \<Rightarrow> nat \<Rightarrow> client_ev list \<Rightarrow> session \<Rightarrow> (session \<times> bool) option" where
  "client_loop max_idle_time idle_time [] s = Some (s, False)"
| "client_loop max_idle_time idle_time (E_idle # es) s =
     (if max_idle_time \<le> idle_time + 1 then Some (s, True)
      else client_loop max_idle_time (idle_time + 1) es s)"
| "client_loop max_idle_time idle_time (E_read b en ins # es) s =
     (if b = [] then Some (s, True)
      else let buf = xstrtrim_crnl (c_string b) in
        if strcmp ''exit'' buf = 0 \<or> strcmp ''quit'' buf = 0 then Some (say (''Bye.'' @ [LF]) s, True)
        else if buf \<noteq> [] then
          (case cmdinterp en buf (s\<lparr>ss_in := ins\<rparr>) of
             None \<Rightarrow> None
           | Some (s, rc) \<Rightarrow>
               let s = say crnl s in
               if rc = USER_DISCONNECT then Some (s, True) else client_loop max_idle_time 0 es s)
        else client_loop max_idle_time 0 es (say crnl s))"

text \<open>Closing: the entry of the client is zeroed and the number of clients counted down.\<close>

definition close_cmd_socket :: "nat \<Rightarrow> int \<Rightarrow> session \<Rightarrow> session \<times> int" where
  "close_cmd_socket self num_clients s =
     (s\<lparr>ss_d := (ss_d s)\<lparr>d_clients := (d_clients (ss_d s))[self := zero_client]\<rparr>, ss_cli := zero_client\<rparr>, num_clients - 1)"

text \<open>The greeting is text of the build; the password is read from \<open>ss_in\<close>.\<close>

definition cmd_clientsrv ::
  "bool \<Rightarrow> string \<Rightarrow> nat \<Rightarrow> string \<Rightarrow> nat \<Rightarrow> int \<Rightarrow> client_ev list \<Rightarrow> session \<Rightarrow> (session \<times> bool \<times> int) option" where
  "cmd_clientsrv require_client_pwd client_pwd max_idle_time greeting self num_clients es s =
     (case check_password require_client_pwd client_pwd (cli_socket (ss_cli s)) (ss_in s) of
        None \<Rightarrow> None
      | Some (ins, rc, out) \<Rightarrow>
          let s = s\<lparr>ss_in := ins, ss_out := ss_out s @ out\<rparr> in
          if rc = -1 then (case close_cmd_socket self num_clients s of (s, n) \<Rightarrow> Some (s, True, n))
          else case client_loop max_idle_time 0 es (say crnl (say greeting s)) of
                 None \<Rightarrow> None
               | Some (s, ended) \<Rightarrow>
                   if ended then (case close_cmd_socket self num_clients s of (s, n) \<Rightarrow> Some (s, True, n))
                   else Some (s, False, num_clients))"

section \<open>What is sent to the device\<close>

lemma pin8: "snd (get_device_pin 8) = Some ''0000''"
  by (simp add: get_device_pin_def xmb_strncpy_ascii ascii_def)

text \<open>The tag of the next command.\<close>

definition next_tagnbr :: "daemon \<Rightarrow> 16 word" where
  "next_tagnbr d = fst (get_device_tag 8 (d_tagnbr d))"

definition next_tag :: "daemon \<Rightarrow> string" where
  "next_tag d = dec_pad 4 (unat (next_tagnbr d))"

lemma next_tag_len: "length (next_tag d) = 4"
proof -
  have "unat (next_tagnbr d) < 10 ^ 4"
    by (auto simp: next_tagnbr_def get_device_tag_def Let_def word_less_nat_alt word_le_nat_alt not_less split: if_splits)
  then show ?thesis by (simp add: next_tag_def length_dec_pad)
qed

lemma next_tag_eq: "get_device_tag 8 (d_tagnbr d) = (next_tagnbr d, 0, next_tag d)"
proof -
  have "get_device_tag 8 (d_tagnbr d) = (next_tagnbr d, 0, snprintf 8 (next_tag d))"
    by (simp add: next_tagnbr_def next_tag_def get_device_tag_def Let_def)
  then show ?thesis using next_tag_len [of d] by simp
qed

text \<open>A session in which a command is sent: the text, the tag, and what is done with the result.\<close>

definition sent :: "cmd_env \<Rightarrow> string \<Rightarrow> session \<Rightarrow> (session \<times> int) option" where
  "sent en cmd s =
     (case send_rawcmd (translateDeviceReply en) (en_io en) ((ss_d s)\<lparr>d_tagnbr := next_tagnbr (ss_d s)\<rparr>) (ss_cli s) cmd
             (next_tag (ss_d s)) of
        None \<Rightarrow> None
      | Some (d, cli, rc, _, out) \<Rightarrow> Some (s\<lparr>ss_d := d, ss_cli := cli, ss_out := ss_out s @ out\<rparr>, rc))"

lemma device_cmd_text_write:
  assumes "length cmd \<le> 15" and "length tag = 4" and "length args < 256"
  shows "device_cmd_text CMD_MODE_W cmd tag ''0000'' args =
    ''$WP+'' @ cmd @ ''+'' @ tag @ ''=0000'' @ (if args = [] then [] else '','' @ args)"
proof -
  let ?b = "wp_prefix cmd tag ''0000''"
  have b: "?b = ''$WP+'' @ cmd @ ''+'' @ tag @ ''=0000''" using assms(2) by (auto simp: wp_prefix_def)
  have l: "length ?b \<le> 29" using assms(1,2) by (simp add: b)
  have "fst (xstrlcat ?b '','' 1024) = ?b @ '',''" using l by (simp add: xstrlcat_eq)
  then show ?thesis using l assms(3) by (simp add: device_cmd_text_def Let_def b)
qed

lemma device_cmd_text_read:
  assumes "length cmd \<le> 15" and "length tag = 4" and "length args < 256"
  shows "device_cmd_text CMD_MODE_R cmd tag ''0000'' args =
    ''$WP+'' @ cmd @ ''+'' @ tag @ ''=0000'' @ (if args = [] then [] else '','' @ args) @ '',?''"
  using assms by (auto simp: device_cmd_text_def wp_prefix_def)

lemma cmdstr_len: "i < 30 \<Longrightarrow> length (cmdstr (g7command_list ! i)) \<le> 15"
  using cmdstr_short [of i] by simp

lemma prepare_write:
  assumes "i < 30" and "CMD_MODE_W AND modes (g7command_list ! i) \<noteq> 0" and "length args < 256"
  shows "prepare_cmd_to_device en i CMD_MODE_W args s =
    sent en (''$WP+'' @ cmdstr (g7command_list ! i) @ ''+'' @ next_tag (ss_d s) @ ''=0000'' @
      (if args = [] then [] else '','' @ args)) s"
  using assms(2) device_cmd_text_write [OF cmdstr_len [OF assms(1)] next_tag_len [of "ss_d s"] assms(3)]
  by (simp add: prepare_cmd_to_device_def pin8 next_tag_eq sent_def Let_def split: option.splits)

lemma prepare_read:
  assumes "i < 30" and "CMD_MODE_R AND modes (g7command_list ! i) \<noteq> 0" and "length args < 256"
  shows "prepare_cmd_to_device en i CMD_MODE_R args s =
    sent en (''$WP+'' @ cmdstr (g7command_list ! i) @ ''+'' @ next_tag (ss_d s) @ ''=0000'' @
      (if args = [] then [] else '','' @ args) @ '',?'') s"
  using assms(2) device_cmd_text_read [OF cmdstr_len [OF assms(1)] next_tag_len [of "ss_d s"] assms(3)]
  by (simp add: prepare_cmd_to_device_def pin8 next_tag_eq sent_def Let_def split: option.splits)

text \<open>The table is consistent: a command that can be set can be written, one that can be got can be read.\<close>

lemma table_modes:
  "list_all (\<lambda>c. (cmd_type c \<in> {CMD_TYPE_SET, CMD_TYPE_GETSET, CMD_TYPE_GETSET_BINARY, CMD_TYPE_DO} \<longrightarrow> CMD_MODE_W AND modes c \<noteq> 0) \<and>
     (cmd_type c \<in> {CMD_TYPE_GET, CMD_TYPE_GETSET, CMD_TYPE_GETSET_BINARY} \<longrightarrow> CMD_MODE_R AND modes c \<noteq> 0)) g7command_list"
  by (simp add: g7command_list_def)

lemma table_handlers:
  "list_all (\<lambda>c. (cmd_type c = CMD_TYPE_GETSET \<longrightarrow> cmdhandler c = H_set \<or> cmdhandler c = H_binary) \<and>
     (cmd_type c = CMD_TYPE_GETSET_BINARY \<longrightarrow> cmdhandler c = H_binary) \<and> cmd_type c \<noteq> CMD_TYPE_SET) g7command_list"
  by (simp add: g7command_list_def)

lemma find_command_name:
  assumes "i < 30" and "cmd_type (g7command_list ! i) \<in> set types" and "map tolower name = srvcmd (g7command_list ! i)"
  shows "find_command types name = i"
proof -
  have len: "length name < 15" using assms(1,3) srvcmd_short [of i] by (metis length_map)
  have x: "xstricmp name (srvcmd (g7command_list ! j)) = 0 \<longleftrightarrow> j = i" if "j < 30" for j
    using that assms(1,3) len srvcmd_lower [of j] srvcmd_short [of j] srvcmd_inj [of i j] by (auto simp: xstricmp_eq_0)
  show ?thesis
    unfolding find_command_def using assms(1,2) x
    by (intro find_idx_eqI) auto
qed

lemma table_at:
  assumes "i < 30"
  shows "cmd_type (g7command_list ! i) \<in> {CMD_TYPE_SET, CMD_TYPE_GETSET, CMD_TYPE_GETSET_BINARY, CMD_TYPE_DO} \<Longrightarrow>
      CMD_MODE_W AND modes (g7command_list ! i) \<noteq> 0"
    and "cmd_type (g7command_list ! i) = CMD_TYPE_GETSET \<Longrightarrow>
      cmdhandler (g7command_list ! i) = H_set \<or> cmdhandler (g7command_list ! i) = H_binary"
    and "cmd_type (g7command_list ! i) = CMD_TYPE_GETSET_BINARY \<Longrightarrow> cmdhandler (g7command_list ! i) = H_binary"
  using table_modes table_handlers assms by (auto simp: list_all_length)

lemma write_with_args_typed:
  assumes "i < 30" and "CMD_MODE_W AND modes (g7command_list ! i) \<noteq> 0" and "get_argidx_for_cmdidx i = Some k"
    and "argl (cmdargs_list ! k) \<noteq> []"
    and "list_all2 (\<lambda>a v. arg_ok a v \<and> clean v \<and> (auto_arg a \<longrightarrow> v = ''1'')) (argl (cmdargs_list ! k)) vs"
    and "length (join_with (CHR '','') vs) < 255"
  shows "\<exists>out. write_with_args en i k (s\<lparr>ss_in := answers (argl (cmdargs_list ! k)) vs\<rparr>) =
    sent en (''$WP+'' @ cmdstr (g7command_list ! i) @ ''+'' @ next_tag (ss_d s) @ ''=0000'' @
      (if join_with (CHR '','') vs = [] then [] else '','' @ join_with (CHR '','') vs)) (s\<lparr>ss_in := [], ss_out := ss_out s @ out\<rparr>)"
proof -
  let ?as = "argl (cmdargs_list ! k)" and ?j = "join_with (CHR '','') vs"
  have n: "numargs (cmdargs_list ! k) \<noteq> 0" using assms(4) argidx_in_table(2) [OF assms(3)] by (metis length_0_conv)
  have "list_all2 (\<lambda>a v. arg_ok a v \<and> clean v \<and> askable a \<and> (auto_arg a \<longrightarrow> v = ''1'')) ?as vs"
    using assms(5) argidx_in_table(3) [OF assms(3)] by (auto simp: list_all2_conv_all_nth list_all_length)
  moreover have j: "join_after True [] vs = ?j" by (simp add: join_after_def)
  ultimately obtain out where "cmd_args_loop (cli_socket (ss_cli s)) 256 ?as True [] (answers ?as vs) = ([], 0, ?j, out)"
    using cmd_args_loop_typed [of ?as vs True "[]" 256 "cli_socket (ss_cli s)"] assms(6) by auto
  then have "get_cmd_args (cli_socket (ss_cli s)) i 256 (answers ?as vs) = ([], 0, ?j, out)"
    using assms(3) argidx_in_table(2) [OF assms(3)] by (simp add: get_cmd_args_def Let_def)
  then show ?thesis
    using n prepare_write [OF assms(1,2), of ?j en "s\<lparr>ss_in := [], ss_out := ss_out s @ out\<rparr>"] assms(6)
    by (intro exI [of _ out]) (simp add: write_with_args_def Let_def)
qed

section \<open>Properties\<close>

text \<open>
  C3: a \<^verbatim>\<open>set\<close> command with arguments. For every command of the table that can be set, given in any mixture of
  upper and lower case, when the client types an acceptable answer for each argument, exactly one command
  is sent to the device: the device's name for it, the next tag, the PIN, and the answers in the
  order of the argument table.
\<close>

theorem set_command_sends_answers:
  assumes "i < length g7command_list" and "map tolower name = srvcmd (g7command_list ! i)"
    and "cmd_type (g7command_list ! i) \<in> {CMD_TYPE_SET, CMD_TYPE_GETSET}"
    and "get_argidx_for_cmdidx i = Some k" and "argl (cmdargs_list ! k) \<noteq> []"
    and "list_all2 (\<lambda>a v. arg_ok a v \<and> clean v \<and> (auto_arg a \<longrightarrow> v = ''1'')) (argl (cmdargs_list ! k)) vs"
    and "0 < length (join_with (CHR '','') vs)" and "length (join_with (CHR '','') vs) < 255"
  shows "\<exists>out. exec_set_command en [line, name] (s\<lparr>ss_in := answers (argl (cmdargs_list ! k)) vs\<rparr>) =
    sent en (''$WP+'' @ cmdstr (g7command_list ! i) @ ''+'' @ next_tag (ss_d s) @ ''=0000,'' @ join_with (CHR '','') vs)
      (s\<lparr>ss_in := [], ss_out := ss_out s @ out\<rparr>)"
proof -
  have i: "i < 30" using assms(1) by simp
  have ty: "cmd_type (g7command_list ! i) = CMD_TYPE_GETSET"
    using assms(3) table_handlers i by (auto simp: list_all_length)
  have f: "find_command [CMD_TYPE_SET, CMD_TYPE_GETSET] name = i"
    using find_command_name [OF i _ assms(2)] assms(3) by simp
  have "cmdhandler (g7command_list ! i) = H_set \<or> cmdhandler (g7command_list ! i) = H_binary"
    using table_at(2) [OF i ty] .
  then have "call_handler en i 1 s' = write_with_args en i k s'" for s'
    using assms(4) by (auto simp: call_handler_def cmd_set_template_def cmd_binary_template_def)
  then have "exec_set_command en [line, name] s' = write_with_args en i k s'" for s'
    using assms(1) by (simp add: exec_set_command_def f Let_def)
  then show ?thesis
    using write_with_args_typed [OF i _ assms(4,5,6,8), of en s] table_at(1) [OF i] ty assms(7) by auto
qed


text \<open>A session for the examples: the target is USB port 0.\<close>

definition eg_io :: "string \<Rightarrow> sysio" where
  "eg_io reply = \<lparr>io_write = \<lambda>s. int (length s), io_now = 0, io_rounds = [], io_usb_connected = \<lambda>_. True,
     io_usb_devicename = \<lambda>_. Some ''/dev/ttyACM0'', io_serial_open = \<lambda>_. 7, io_serial_write = \<lambda>s. int (length s),
     io_serial_read_line = Some reply\<rparr>"

definition eg_cmd_env :: "(string \<Rightarrow> string \<Rightarrow> string list option) \<Rightarrow> cmd_env" where
  "eg_cmd_env pcre = \<lparr>translateDeviceReply = False, en_io = eg_io (''$OK:SETRA+0001=2,255'' @ crnl), en_cf = eg_conf, en_now = 99,
     en_env1 = eg_env ''OK'', en_env2 = eg_env ''OK'', use_address_lookup = True, enable_raw_device_commands = False,
     en_pcre = pcre, get_dlrec_to_db = \<lambda>s. Some (s, 0), en_other = \<lambda>_ s. Some (s, 0)\<rparr>"

definition eg_session :: session where
  "eg_session = \<lparr>ss_d = \<lparr>d_cmdq = cmdqueue_init, d_tagnbr = 0, d_clients = []\<rparr>,
     ss_cli = zero_client\<lparr>cli_socket := 5, target_socket := -1, target_usb_idx := 0\<rparr>, ss_geo = eg_geoloc,
     ss_in = [], ss_out = []\<rparr>"

theorem set_command_sends_answers_witness:
  "\<exists>out. exec_set_command (eg_cmd_env (\<lambda>_ _. None)) [''set MSwitch'', ''MSwitch'']
      (eg_session\<lparr>ss_in := [typed ''2'', typed ''255'']\<rparr>) =
    sent (eg_cmd_env (\<lambda>_ _. None)) ''$WP+SETRA+0001=0000,2,255'' (eg_session\<lparr>ss_in := [], ss_out := out\<rparr>)"
proof -
  have c: "g7command_list ! 13 = G7command ''mswitch'' ''SETRA'' H_set CMD_TYPE_GETSET CMD_MODE_RW ''Set handling of detach event'' []"
    by (simp add: g7command_list_def)
  have t: "next_tag (ss_d eg_session) = ''0001''"
  proof -
    have "next_tagnbr (ss_d eg_session) = 1" by (simp add: eg_session_def next_tagnbr_def get_device_tag_def)
    moreover have "dec (Suc 0) = ''1''" by (subst dec.simps) (simp add: digit_char_def char_of_def bit_0)
    ultimately show ?thesis by (simp add: next_tag_def dec_pad_def eval_nat_numeral)
  qed
  have "ss_out eg_session = []" by (simp add: eg_session_def)
  then show ?thesis
    using set_command_sends_answers [of 13 "''MSwitch''" 4 "[''2'', ''255'']" "eg_cmd_env (\<lambda>_ _. None)" "''set MSwitch''" eg_session]
      eg_mswitch eg_args_ok eg_args(1) eg_answers
    by (simp add: c t tolower_eval list_all2_conv_all_nth args_mswitch_def)
qed

text \<open>
  Switching a function on or off. For every command of the table with the two states on and off and no
  arguments, \<^verbatim>\<open>set NAME on\<close> sends the argument 1 and \<^verbatim>\<open>set NAME off\<close> the argument 0, and for the commands
  with arguments \<^verbatim>\<open>off\<close> sends 0 without asking.
\<close>

theorem switch_command_sends:
  assumes "i < length g7command_list" and "map tolower name = srvcmd (g7command_list ! i)"
    and "cmd_type (g7command_list ! i) = CMD_TYPE_GETSET_BINARY"
    and "map tolower state = ''off'' \<or>
      map tolower state = ''on'' \<and> (\<exists>k. get_argidx_for_cmdidx i = Some k \<and> numargs (cmdargs_list ! k) = 0)"
  shows "exec_binary_command en [line, name, state] s =
    sent en (''$WP+'' @ cmdstr (g7command_list ! i) @ ''+'' @ next_tag (ss_d s) @ ''=0000,'' @
      (if map tolower state = ''on'' then ''1'' else ''0'')) s"
proof -
  have i: "i < 30" using assms(1) by simp
  have f: "find_command [CMD_TYPE_GETSET_BINARY] name = i"
    using find_command_name [OF i _ assms(2)] assms(3) by simp
  have "length (map tolower state) < 4096" using assms(4) by (auto simp del: length_map)
  then have len: "length state < 4096" by simp
  have x: "xstricmp state ''on'' = 0 \<longleftrightarrow> map tolower state = ''on''"
    using len by (simp add: xstricmp_eq_0 tolower_eval)
  have w: "CMD_MODE_W AND modes (g7command_list ! i) \<noteq> 0" using table_at(1) [OF i] assms(3) by simp
  have e: "exec_binary_command en [line, name, state] s =
      cmd_binary_template en i (if map tolower state = ''on'' then 1 else 2) s"
    using i f x table_at(3) [OF i assms(3)] by (simp add: exec_binary_command_def call_handler_def Let_def)
  show ?thesis
    using assms(4) prepare_write [OF i w, of "''1''" en s] prepare_write [OF i w, of "''0''" en s] unfolding e
    by (auto simp: cmd_binary_template_def write_with_args_def)
qed

theorem switch_command_sends_witness:
  "exec_binary_command (eg_cmd_env (\<lambda>_ _. None)) [''set Led on'', ''Led'', ''on''] eg_session =
    sent (eg_cmd_env (\<lambda>_ _. None)) (''$WP+ELED+'' @ next_tag (ss_d eg_session) @ ''=0000,1'') eg_session"
proof -
  have "get_argidx_for_cmdidx 2 = Some 3"
    by (simp add: get_argidx_for_cmdidx_def Let_def xstricmp_eq_0 g7command_list_def cmdargs_list_def args_defs tolower_eval)
  moreover have "numargs (cmdargs_list ! 3) = 0" by (simp add: cmdargs_list_def args_led_def)
  moreover have "g7command_list ! 2 = G7command ''led'' ''ELED'' H_binary CMD_TYPE_GETSET_BINARY CMD_MODE_RW
      ''Enable/Disable the LED indicator on/off'' []" by (simp add: g7command_list_def)
  ultimately show ?thesis
    using switch_command_sends [of 2 "''Led''" "''on''" "eg_cmd_env (\<lambda>_ _. None)" "''set Led on''" eg_session]
    by (simp add: tolower_eval)
qed

text \<open>
  A crash from a command line. \<^verbatim>\<open>get locg\<close> has its own pattern with exactly one blank; with more blanks
  between the words only the general pattern for \<^verbatim>\<open>get\<close> matches, the command is found in the table, and
  the null pointer in its row is called.
\<close>

theorem get_locg_null_handler:
  assumes "en_pcre en (''^set'' @ PR_S @ PR_AN @ PR_S @ PR_ONOFF @ PR_E) cmd = None"
    and "en_pcre en (''^get locg'' @ PR_E) cmd = None"
    and "en_pcre en (''^get gfevt'' @ PR_S @ PR_N @ PR_E) cmd = None"
    and "en_pcre en (''^get'' @ PR_S @ PR_AN @ PR_E) cmd = Some [cmd, name]" and "map tolower name = ''locg''"
  shows "cmdinterp en cmd s = None"
proof -
  have c: "g7command_list ! 6 = G7command ''locg'' ''GETLOCATION'' H_null CMD_TYPE_GET CMD_MODE_R
      ''Get latest location as a Google map string'' []" by (simp add: g7command_list_def)
  have "find_command [CMD_TYPE_GET, CMD_TYPE_GETSET_BINARY, CMD_TYPE_GETSET] name = 6"
    by (rule find_command_name) (simp_all add: c assms(5))
  then have "exec_get_command en [cmd, name] s = None"
    by (simp add: exec_get_command_def call_handler_def c Let_def)
  then show ?thesis
    using assms(1-4) by (simp add: cmdinterp_def cmd_patterns_def run_action_def)
qed

definition eg_pcre :: "string \<Rightarrow> string \<Rightarrow> string list option" where
  "eg_pcre pat cmd = (if pat = ''^get'' @ PR_S @ PR_AN @ PR_E \<and> cmd = ''get  locg'' then Some [cmd, ''locg''] else None)"

theorem get_locg_null_handler_witness:
  "cmdinterp (eg_cmd_env eg_pcre) ''get  locg'' eg_session = None"
  by (rule get_locg_null_handler [of _ _ "''locg''"])
    (simp_all add: eg_cmd_env_def eg_pcre_def PR_S_def PR_AN_def PR_N_def PR_E_def PR_ONOFF_def bs_def tolower_eval)

text \<open>
  C17: no command without the password. When a password is required and none of the first three lines of the
  client is it, the session ends whatever the client sends afterwards: the command queue, the tag counter that
  every device command advances and the geolocation state stay as they were, and only the client's own
  entry is cleared.
\<close>

theorem wrong_password_no_command:
  assumes "list_all (\<lambda>l. l \<noteq> [] \<and> length l \<le> 511) lines" and "ss_in s = map S_data lines"
    and "client_pwd \<notin> set (map (\<lambda>l. xstrtrim_crnl (c_string l)) (take 3 lines))"
  shows "\<exists>s'. cmd_clientsrv True client_pwd max_idle greeting self n es s = Some (s', True, n - 1) \<and>
    d_cmdq (ss_d s') = d_cmdq (ss_d s) \<and> d_tagnbr (ss_d s') = d_tagnbr (ss_d s) \<and> ss_geo s' = ss_geo s \<and>
    d_clients (ss_d s') = (d_clients (ss_d s))[self := zero_client]"
proof -
  obtain ins out where "check_password True client_pwd (cli_socket (ss_cli s)) (ss_in s) = Some (ins, -1, out)"
    using password_lines [OF assms(1), of client_pwd "cli_socket (ss_cli s)"] assms(2,3) by auto
  then show ?thesis by (simp add: cmd_clientsrv_def close_cmd_socket_def Let_def)
qed

theorem wrong_password_no_command_witness:
  "\<exists>s'. cmd_clientsrv True ''sesam'' 60 [] 0 1 [E_read (''do reset'' @ crnl) (eg_cmd_env eg_pcre) []]
      (eg_session\<lparr>ss_in := map S_data [''abc'' @ crnl]\<rparr>) = Some (s', True, 0) \<and>
    d_cmdq (ss_d s') = cmdqueue_init"
  using wrong_password_no_command [of "[''abc'' @ crnl]" "eg_session\<lparr>ss_in := map S_data [''abc'' @ crnl]\<rparr>" "''sesam''"
      60 "[]" 0 1 "[E_read (''do reset'' @ crnl) (eg_cmd_env eg_pcre) []]"] trim_typed(1) [of "''abc''"]
  by (auto simp: eg_session_def c_string_def clean_def)

text \<open>
  Idle clients. A client that sends nothing is disconnected after exactly \<open>max_idle_time\<close> seconds of
  silence, not before; each line it sends starts the count again.
\<close>

theorem idle_client_disconnected:
  assumes "idle < max_idle"
  shows "client_loop max_idle idle (replicate n E_idle @ es) s =
    (if max_idle \<le> idle + n then Some (s, True) else client_loop max_idle (idle + n) es s)"
  using assms by (induction n arbitrary: idle) auto

theorem idle_client_disconnected_witness:
  "client_loop 60 0 (replicate 60 E_idle @ []) eg_session = Some (eg_session, True) \<and>
   client_loop 60 0 (replicate 59 E_idle @ []) eg_session = Some (eg_session, False)"
  using idle_client_disconnected [of 0 60 60 "[]" eg_session] idle_client_disconnected [of 0 60 59 "[]" eg_session] by simp

text \<open>The help lists every command of the table once, in alphabetical order.\<close>

lemma help_sorted:
  "sorted (map fst cmdhlplist) \<and> distinct (map fst cmdhlplist) \<and> set (map fst cmdhlplist) = set (map srvcmd g7command_list)"
proof -
  have "distinct (map fst (map (\<lambda>c. (srvcmd c, descrshort c)) g7command_list))"
    using distinct_srvcmds by (simp add: comp_def)
  then have "distinct (map fst cmdhlplist)" by (auto simp: cmdhlplist_def distinct_map intro: inj_on_imageI inj_on_imageI2)
  then show ?thesis by (auto simp: cmdhlplist_def image_iff)
qed

end
