(* ===== verification/Clients.thy ===== *)
theory Clients
  imports Cmdinterp
begin

text \<open>
  The list of connections (\<^verbatim>\<open>src/src/socklistener.c\<close>): command clients and devices share one table of
  \<open>max_clients\<close> entries, whose threads clear their entry when they end (\<open>trk_thread_cleanup\<close> of
  \<open>Tracker\<close>, \<open>close_cmd_socket\<close> of \<open>Cmdinterp\<close>). The table is the second slot table of the daemon.
\<close>

section \<open>Connections\<close>

record registry =
  client_info_list :: "client_info list"
  num_clients :: int

text \<open>An entry of zero bytes, as \<open>calloc\<close> leaves it.\<close>

definition calloc_client :: client_info where
  "calloc_client = zero_client\<lparr>target_cli_idx := 0, target_usb_idx := 0\<rparr>"

definition init_registry :: "nat \<Rightarrow> registry" where
  "init_registry max_clients = \<lparr>client_info_list = replicate max_clients calloc_client, num_clients = 0\<rparr>"

definition client_free :: "client_info \<Rightarrow> bool" where
  "client_free c \<longleftrightarrow> cli_thread c = 0"

text \<open>\<open>thread\<close> is the identifier that \<open>pthread_create\<close> stores.\<close>

definition new_client :: "int \<Rightarrow> int \<Rightarrow> string \<Rightarrow> nat \<Rightarrow> bool \<Rightarrow> client_info \<Rightarrow> client_info" where
  "new_client now newsocket dotaddr thread command_connection c =
     c\<lparr>cli_socket := newsocket, cli_ipadr := strncpy0 dotaddr 15, cli_ts := now, cli_devid := 0,
       target_deviceid := 0, target_socket := -1, target_cli_idx := -1, target_usb_idx := 0,
       use_unicode_table := False, cli_is_cmdconn := command_connection, cli_thread := thread\<rparr>"

text \<open>The registry, the entry used, and what is written to a client that is refused.\<close>

definition accept_connection ::
  "int \<Rightarrow> int \<Rightarrow> string \<Rightarrow> nat \<Rightarrow> bool \<Rightarrow> registry \<Rightarrow> registry \<times> nat option \<times> string list" where
  "accept_connection now newsocket dotaddr thread command_connection r =
     (let i = find_idx client_free (client_info_list r) in
      if i < length (client_info_list r)
      then (r\<lparr>client_info_list := (client_info_list r)
                [i := new_client now newsocket dotaddr thread command_connection (client_info_list r ! i)],
              num_clients := num_clients r + 1\<rparr>, Some i, [])
      else (r, None, writef newsocket ''[ERR] Too many client connections.''))"

definition end_connection :: "nat \<Rightarrow> registry \<Rightarrow> registry" where
  "end_connection self r =
     (case trk_thread_cleanup (client_info_list r) (num_clients r) self of (cs, n) \<Rightarrow>
        \<lparr>client_info_list = cs, num_clients = n\<rparr>)"

section \<open>As a slot table\<close>

interpretation ct: slot_table client_free zero_client
  by unfold_locales (simp add: client_free_def zero_client_def)

lemma accept_alloc:
  "accept_connection now sock ip th cmd r =
     (case ct.alloc (new_client now sock ip th cmd) (client_info_list r) of
        None \<Rightarrow> (r, None, writef sock ''[ERR] Too many client connections.'')
      | Some (i, cs) \<Rightarrow> (\<lparr>client_info_list = cs, num_clients = num_clients r + 1\<rparr>, Some i, []))"
  by (cases r) (simp add: accept_connection_def ct.alloc_def Let_def)

lemma end_release:
  "end_connection i r = \<lparr>client_info_list = ct.release i (client_info_list r), num_clients = num_clients r - 1\<rparr>"
  by (simp add: end_connection_def trk_thread_cleanup_def ct.release_def)

text \<open>The closing code of a command thread does the same.\<close>

lemma close_cmd_socket_is_end:
  "close_cmd_socket i n s = (s', n') \<Longrightarrow>
   end_connection i \<lparr>client_info_list = d_clients (ss_d s), num_clients = n\<rparr> =
     \<lparr>client_info_list = d_clients (ss_d s'), num_clients = n'\<rparr>"
  by (auto simp: close_cmd_socket_def end_connection_def trk_thread_cleanup_def)

section \<open>Connecting and disconnecting\<close>

inductive reg_reach :: "nat \<Rightarrow> registry \<Rightarrow> bool" for max_clients where
  init: "reg_reach max_clients (init_registry max_clients)"
| connect: "reg_reach max_clients r \<Longrightarrow> thread \<noteq> 0 \<Longrightarrow>
    reg_reach max_clients (fst (accept_connection now newsocket dotaddr thread command_connection r))"
| disconnect: "reg_reach max_clients r \<Longrightarrow> i < length (client_info_list r) \<Longrightarrow>
    \<not> client_free (client_info_list r ! i) \<Longrightarrow> reg_reach max_clients (end_connection i r)"

lemma new_client_used: "thread \<noteq> 0 \<Longrightarrow> \<not> client_free (new_client now sock ip thread cmd c)"
  by (simp add: client_free_def new_client_def)

lemma reg_invariant:
  assumes "reg_reach max_clients r"
  shows "length (client_info_list r) = max_clients \<and> num_clients r = int (ct.used (client_info_list r))"
  using assms
proof induction
  case init
  then show ?case
    by (simp add: init_registry_def ct.used_def) (simp add: client_free_def calloc_client_def zero_client_def)
next
  case (connect r thread now sock ip cmd)
  show ?case
  proof (cases "ct.alloc (new_client now sock ip thread cmd) (client_info_list r)")
    case None
    then show ?thesis using connect by (simp add: accept_alloc)
  next
    case (Some p)
    then obtain i cs where p: "ct.alloc (new_client now sock ip thread cmd) (client_info_list r) = Some (i, cs)"
      by (cases p) auto
    have "ct.used cs = Suc (ct.used (client_info_list r))"
      using ct.alloc_used [OF p] new_client_used [OF connect(2)] by blast
    moreover have "length cs = length (client_info_list r)" using ct.alloc_Some(3) [OF p] by simp
    ultimately show ?thesis using connect(3) by (simp add: accept_alloc p)
  qed
next
  case (disconnect r i)
  have "Suc (ct.used (ct.release i (client_info_list r))) = ct.used (client_info_list r)"
    using ct.release_used [OF disconnect(2,3)] .
  then show ?case using disconnect(4) by (simp add: end_release ct.release_def)
qed

section \<open>Properties\<close>

text \<open>
  C14: the table of connections. In every state that connecting and disconnecting lead to, the number of
  clients is the number of entries in use and at most \<open>max_clients\<close>; a new connection is refused exactly when
  the number has reached \<open>max_clients\<close>, and otherwise gets an entry that was free, while all other entries
  stay as they are.
\<close>

theorem connections_counted:
  assumes "reg_reach max_clients r"
    and "accept_connection now newsocket dotaddr thread command_connection r = (r', slot, out)"
  shows "num_clients r = int (length (filter (\<lambda>c. cli_thread c \<noteq> 0) (client_info_list r))) \<and>
    num_clients r \<le> int max_clients \<and>
    (slot = None \<longleftrightarrow> num_clients r = int max_clients) \<and>
    (\<forall>i. slot = Some i \<longrightarrow> i < max_clients \<and> cli_thread (client_info_list r ! i) = 0 \<and>
       (\<forall>j. j \<noteq> i \<longrightarrow> client_info_list r' ! j = client_info_list r ! j))"
proof -
  note inv = reg_invariant [OF assms(1)]
  have u: "ct.used cs = length (filter (\<lambda>c. cli_thread c \<noteq> 0) cs)" for cs
    by (simp add: ct.used_def client_free_def)
  have le: "ct.used (client_info_list r) \<le> length (client_info_list r)" by (simp add: ct.used_def)
  let ?a = "ct.alloc (new_client now newsocket dotaddr thread command_connection) (client_info_list r)"
  have n: "?a = None \<longleftrightarrow> num_clients r = int max_clients"
    using ct.alloc_None_iff [of _ "client_info_list r"] inv by auto
  have s: "slot = map_option fst ?a" using assms(2) by (auto simp: accept_alloc split: option.splits)
  have "i < max_clients \<and> cli_thread (client_info_list r ! i) = 0 \<and>
      (\<forall>j. j \<noteq> i \<longrightarrow> client_info_list r' ! j = client_info_list r ! j)" if "slot = Some i" for i
  proof -
    obtain cs where a: "?a = Some (i, cs)" using s \<open>slot = Some i\<close> by (cases ?a) auto
    then have "client_info_list r' = cs" using assms(2) by (auto simp: accept_alloc)
    then show ?thesis using ct.alloc_Some [OF a] inv by (auto simp: client_free_def)
  qed
  then show ?thesis using inv le n s u by auto
qed

theorem connections_counted_witness:
  "num_clients (fst (accept_connection 9 5 ''10.0.0.1'' 77 True (init_registry 2))) \<le> 2 \<and>
   fst (snd (accept_connection 9 6 ''10.0.0.2'' 78 False (fst (accept_connection 9 5 ''10.0.0.1'' 77 True (init_registry 2))))) = Some 1"
proof -
  let ?r = "fst (accept_connection 9 5 ''10.0.0.1'' 77 True (init_registry 2))"
  have r: "reg_reach 2 ?r" by (intro reg_reach.connect reg_reach.init) simp
  obtain r' slot out where a: "accept_connection 9 6 ''10.0.0.2'' 78 False ?r = (r', slot, out)" by (metis prod_cases3)
  have "num_clients ?r \<le> 2" using connections_counted [OF r a] by simp
  moreover have "slot = Some 1"
    using a by (simp add: accept_connection_def init_registry_def client_free_def calloc_client_def zero_client_def
        new_client_def Let_def eval_nat_numeral)
  ultimately show ?thesis using a by simp
qed

end
