(* ===== verification/Dict.thy ===== *)
theory Dict
  imports Name_Store Xstr
begin

text \<open>
  The template dictionary of \<^verbatim>\<open>dict.c\<close>, with which the texts of the mails are made: a growing array of
  key/value pairs, and the replacement of every \<open>[key]\<close> in a text. The work buffer of the replacement has
  a fixed size computed beforehand, so a write beyond it is a value of the model: \<open>None\<close> is undefined
  behaviour. The development shows what a replacement returns for every text, by comparison with a
  reference definition without buffers, and when the work buffer is large enough. The heap itself is
  not modelled and an allocation succeeds.
\<close>

section \<open>The dictionary\<close>

definition MAX_DICTIONARY_VAL_SIZE :: nat where "MAX_DICTIONARY_VAL_SIZE = 1024"
definition DICTIONARY_INIITIAL_SIZE :: nat where "DICTIONARY_INIITIAL_SIZE = 100"
definition MAX_REPLACE_BUFFER_SIZE :: nat where "MAX_REPLACE_BUFFER_SIZE = 1024 * 1024"

text \<open>A zeroed element of the array is \<open>None\<close>.\<close>

type_synonym dict_tuple = "string \<times> string"

record dict =
  dc_idx :: nat
  dc_maxsize :: nat
  dc_tuple :: "dict_tuple option list"

definition new_dict :: dict where
  "new_dict = \<lparr>dc_idx = 0, dc_maxsize = DICTIONARY_INIITIAL_SIZE,
               dc_tuple = replicate DICTIONARY_INIITIAL_SIZE None\<rparr>"

text \<open>The elements the loops run over: those below \<open>idx\<close>.\<close>

definition dict_entries :: "dict \<Rightarrow> dict_tuple list" where
  "dict_entries d = map the (take (dc_idx d) (dc_tuple d))"

definition getval_dict :: "dict \<Rightarrow> string \<Rightarrow> string option" where
  "getval_dict d key =
     (let es = dict_entries d; i = find_idx (\<lambda>e. strcmp key (fst e) = 0) es
      in if i < length es then Some (snd (es ! i)) else None)"

text \<open>The array twice as long, the new half zeroed.\<close>

definition grow_dict :: "dict \<Rightarrow> dict" where
  "grow_dict d =
     (if dc_maxsize d \<le> dc_idx d
      then d\<lparr>dc_tuple := dc_tuple d @ replicate (dc_maxsize d) None, dc_maxsize := 2 * dc_maxsize d\<rparr>
      else d)"

definition add_dict :: "dict \<Rightarrow> string \<Rightarrow> string \<Rightarrow> (dict \<times> int) option" where
  "add_dict d key val =
     (if getval_dict d key \<noteq> None then Some (d, -1)
      else let d = grow_dict d in
        if dc_idx d < length (dc_tuple d)
        then Some (d\<lparr>dc_tuple := (dc_tuple d)[dc_idx d := Some (key, val)], dc_idx := dc_idx d + 1\<rparr>, 0)
        else None)"

text \<open>\<open>f\<close> may change a state; the loop stops at its first result other than 0.\<close>

fun map_dict_loop :: "(string \<Rightarrow> string \<Rightarrow> 's \<Rightarrow> 's \<times> int) \<Rightarrow> dict_tuple list \<Rightarrow> 's \<Rightarrow> 's \<times> int" where
  "map_dict_loop f [] s = (s, 0)"
| "map_dict_loop f (e # es) s =
     (case f (fst e) (snd e) s of (s', ret) \<Rightarrow> if ret \<noteq> 0 then (s', ret) else map_dict_loop f es s')"

definition map_dict :: "dict \<Rightarrow> (string \<Rightarrow> string \<Rightarrow> 's \<Rightarrow> 's \<times> int) \<Rightarrow> 's \<Rightarrow> 's \<times> int" where
  "map_dict d f s = map_dict_loop f (dict_entries d) s"

section \<open>Replacement of keys in a text\<close>

text \<open>The text after a bracket up to the closing one, at most \<open>k\<close> bytes, and where it stopped.\<close>

fun scan_key :: "nat \<Rightarrow> string \<Rightarrow> string \<times> string" where
  "scan_key 0 s = ([], s)"
| "scan_key (Suc k) [] = ([], [])"
| "scan_key (Suc k) (c # s) =
     (if c = CHR '']'' then ([], c # s) else case scan_key k s of (m, r) \<Rightarrow> (c # m, r))"

definition find_key_nocase :: "dict_tuple list \<Rightarrow> string \<Rightarrow> string option" where
  "find_key_nocase es m =
     (let i = find_idx (\<lambda>e. strcasecmp m (fst e) = 0) es in if i < length es then Some (snd (es ! i)) else None)"

text \<open>
  What stands for the text that starts with an opening bracket: the value to write and the rest of the
  text, if the bracket is closed and the key is in the dictionary.
\<close>

definition key_at :: "dict_tuple list \<Rightarrow> string \<Rightarrow> (string \<times> string) option" where
  "key_at es s =
     (case scan_key 255 s of (m, r) \<Rightarrow>
        if r \<noteq> [] \<and> hd r = CHR '']''
        then map_option (\<lambda>val. (take MAX_DICTIONARY_VAL_SIZE val, tl r)) (find_key_nocase es m)
        else None)"

lemma scan_key_length: "length (snd (scan_key k s)) \<le> length s"
  by (induction k s rule: scan_key.induct) (auto split: prod.splits)

lemma key_at_shorter: "key_at es s = Some (v, r) \<Longrightarrow> length r < length s"
proof -
  assume k: "key_at es s = Some (v, r)"
  obtain m q where q: "scan_key 255 s = (m, q)" by (cases "scan_key 255 s")
  have "length q \<le> length s" using scan_key_length [of 255 s] q by simp
  moreover have "q \<noteq> [] \<and> r = tl q" using k q by (auto simp: key_at_def split: if_splits)
  ultimately show ?thesis by (cases q) auto
qed

text \<open>\<open>n\<close> counts the bytes copied from the text, not those of the values; \<open>N\<close> is the size of the work buffer.\<close>

function replace_loop :: "dict_tuple list \<Rightarrow> nat \<Rightarrow> nat \<Rightarrow> string \<Rightarrow> string \<Rightarrow> string option" where
  "replace_loop es N n wbuff [] = Some wbuff"
| "replace_loop es N n wbuff (c # p) =
     (if N \<le> n then Some wbuff
      else case (if c = CHR ''['' then key_at es p else None) of
        Some (v, r) \<Rightarrow> if length wbuff + length v \<le> N then replace_loop es N n (wbuff @ v) r else None
      | None \<Rightarrow> if length wbuff < N then replace_loop es N (n + 1) (wbuff @ [c]) p else None)"
  by pat_completeness auto
termination
  by (relation "measure (\<lambda>(es, N, n, w, p). length p)") (auto dest: key_at_shorter split: if_splits)

text \<open>\<open>strlen\<close> of the work buffer reads beyond it when no zero is left in it.\<close>

definition replace_dict_in_buf :: "dict \<Rightarrow> string \<Rightarrow> nat \<Rightarrow> (string \<times> int) option" where
  "replace_dict_in_buf d buffer maxlen =
     (let N = strnlen buffer MAX_REPLACE_BUFFER_SIZE + MAX_DICTIONARY_VAL_SIZE * dc_idx d in
      if MAX_REPLACE_BUFFER_SIZE \<le> N then Some (buffer, -1)
      else case replace_loop (dict_entries d) N 0 [] buffer of
        None \<Rightarrow> None
      | Some wbuff \<Rightarrow>
          if N \<le> length wbuff then None
          else if length wbuff < maxlen then Some (fst (xstrlcpy wbuff maxlen), 0)
          else Some (buffer, -1))"

text \<open>
  The file is given as its size and the bytes read, \<open>None\<close> when it cannot be opened or inspected. The result is the
  buffer, \<open>None\<close> for a null pointer.
\<close>

definition replace_dict_in_file :: "dict \<Rightarrow> (nat \<times> char list) option \<Rightarrow> (string option \<times> int) option" where
  "replace_dict_in_file d f =
     (case f of
        None \<Rightarrow> Some (None, -1)
      | Some (st_size, bytes) \<Rightarrow>
          let N = st_size + MAX_DICTIONARY_VAL_SIZE * dc_idx d + 1 in
          if length bytes \<noteq> st_size then Some (None, -1)
          else map_option (\<lambda>(b, rc). (Some b, rc)) (replace_dict_in_buf d (c_string bytes) N))"

section \<open>The dictionary is a map\<close>

definition dict_wf :: "dict \<Rightarrow> bool" where
  "dict_wf d \<longleftrightarrow> 0 < dc_maxsize d \<and> length (dc_tuple d) = dc_maxsize d \<and> dc_idx d \<le> dc_maxsize d \<and>
     list_all (\<lambda>t. t \<noteq> None) (take (dc_idx d) (dc_tuple d)) \<and> distinct (map fst (dict_entries d))"

lemma new_dict_wf: "dict_wf new_dict"
  by (simp add: dict_wf_def new_dict_def dict_entries_def DICTIONARY_INIITIAL_SIZE_def)

lemma getval_dict_map_of: "getval_dict d = map_of (dict_entries d)"
proof
  fix k
  have eq: "(\<lambda>e. strcmp k (fst e) = 0) = (\<lambda>p :: dict_tuple. fst p = k)" by (auto simp: fun_eq_iff)
  show "getval_dict d k = map_of (dict_entries d) k"
    by (simp only: getval_dict_def map_of_find_idx eq Let_def)
qed

lemma grow_dict_wf:
  assumes "dict_wf d"
  shows "dict_wf (grow_dict d) \<and> dict_entries (grow_dict d) = dict_entries d \<and> dc_idx (grow_dict d) = dc_idx d \<and>
    dc_idx (grow_dict d) < dc_maxsize (grow_dict d)"
  using assms by (auto simp: grow_dict_def dict_wf_def dict_entries_def)

lemma entries_store:
  assumes "dict_wf d" and "dc_idx d < dc_maxsize d"
  shows "dict_entries (d\<lparr>dc_tuple := (dc_tuple d)[dc_idx d := Some e], dc_idx := dc_idx d + 1\<rparr>) = dict_entries d @ [e]"
  using assms by (simp add: dict_entries_def dict_wf_def take_Suc_conv_app_nth)

lemma add_dict_wf:
  assumes "dict_wf d"
  shows "\<exists>d'. add_dict d key val = Some (d', if getval_dict d key = None then 0 else -1) \<and> dict_wf d' \<and>
    dict_entries d' = (if getval_dict d key = None then dict_entries d @ [(key, val)] else dict_entries d) \<and>
    (getval_dict d key \<noteq> None \<longrightarrow> d' = d)"
proof (cases "getval_dict d key")
  case None
  let ?g = "grow_dict d"
  let ?d = "?g\<lparr>dc_tuple := (dc_tuple ?g)[dc_idx ?g := Some (key, val)], dc_idx := dc_idx ?g + 1\<rparr>"
  note g = grow_dict_wf [OF assms]
  have e: "dict_entries ?d = dict_entries d @ [(key, val)]" using entries_store [of ?g] g by simp
  have "add_dict d key val = Some (?d, 0)"
    using None g by (simp add: add_dict_def Let_def dict_wf_def)
  moreover have "key \<notin> set (map fst (dict_entries d))"
    using None by (simp add: getval_dict_map_of map_of_eq_None_iff)
  moreover have "list_all (\<lambda>t. t \<noteq> None) (take (dc_idx ?d) (dc_tuple ?d))"
    using g by (auto simp: dict_wf_def take_Suc_conv_app_nth)
  ultimately show ?thesis using None e g by (auto simp: dict_wf_def)
qed (use assms in \<open>simp add: add_dict_def\<close>)

definition dict_ins :: "dict \<Rightarrow> string \<Rightarrow> string \<Rightarrow> dict" where
  "dict_ins d k v = (case add_dict d k v of None \<Rightarrow> d | Some (d', _) \<Rightarrow> d')"

interpretation dc: name_store getval_dict dict_ins dict_wf "\<lambda>_. True"
proof
  fix d k v
  assume "dict_wf d"
  note a = add_dict_wf [OF this, of k v]
  show "dict_wf (dict_ins d k v)" using a by (auto simp: dict_ins_def)
  show "getval_dict d k \<noteq> None \<Longrightarrow> dict_ins d k v = d" using a by (auto simp: dict_ins_def)
  show "getval_dict d k = None \<Longrightarrow> getval_dict (dict_ins d k v) = (getval_dict d)(k \<mapsto> v)"
    using a by (auto simp: dict_ins_def getval_dict_map_of map_add_def fun_eq_iff split: option.splits)
qed

section \<open>The replacement without buffers\<close>

text \<open>
  The reference: from left to right, a closed bracket around a known key, in any mixture of upper and
  lower case, stands for the value; every other byte stands for itself.
\<close>

function expand :: "dict_tuple list \<Rightarrow> string \<Rightarrow> string" where
  "expand es [] = []"
| "expand es (c # p) =
     (case (if c = CHR ''['' then key_at es p else None) of
        Some (v, r) \<Rightarrow> v @ expand es r
      | None \<Rightarrow> c # expand es p)"
  by pat_completeness auto
termination
  by (relation "measure (\<lambda>(es, p). length p)") (auto dest: key_at_shorter split: if_splits)

text \<open>The number of keys that are replaced.\<close>

function replaced :: "dict_tuple list \<Rightarrow> string \<Rightarrow> nat" where
  "replaced es [] = 0"
| "replaced es (c # p) =
     (case (if c = CHR ''['' then key_at es p else None) of
        Some (v, r) \<Rightarrow> Suc (replaced es r)
      | None \<Rightarrow> replaced es p)"
  by pat_completeness auto
termination
  by (relation "measure (\<lambda>(es, p). length p)") (auto dest: key_at_shorter split: if_splits)

declare replace_loop.simps(2) [simp del] expand.simps(2) [simp del] replaced.simps(2) [simp del]

text \<open>The work buffer holds the reference text, or its end is passed.\<close>

lemma replace_loop_expand:
  "n \<le> length w \<Longrightarrow> length w \<le> N \<Longrightarrow>
   (if N \<le> length (w @ expand es p)
    then replace_loop es N n w p = None \<or> (\<exists>x. replace_loop es N n w p = Some x \<and> N \<le> length x)
    else replace_loop es N n w p = Some (w @ expand es p))"
proof (induction es N n w p rule: replace_loop.induct)
  case (2 es N n w c p)
  show ?case
  proof (cases "N \<le> n")
    case True
    with 2 show ?thesis by (simp add: replace_loop.simps(2))
  next
    case False
    show ?thesis
    proof (cases "if c = CHR ''['' then key_at es p else None")
      case None
      with 2(1) [OF False None] False 2(3,4) show ?thesis
        by (cases "length w < N") (auto simp: replace_loop.simps(2) expand.simps(2))
    next
      case (Some vr)
      obtain v r where vr: "vr = (v, r)" by (cases vr)
      show ?thesis
        using 2(2) [OF False Some vr [symmetric]] False 2(3,4) Some vr
        by (cases "length w + length v \<le> N") (auto simp: replace_loop.simps(2) expand.simps(2))
    qed
  qed
qed auto

lemma scan_key_consumes: "scan_key k s = (m, r) \<Longrightarrow> length s = length m + length r"
  by (induction k s arbitrary: m r rule: scan_key.induct) (auto split: prod.splits if_splits)

lemma key_at_bounds:
  assumes "key_at es p = Some (v, r)"
  shows "length v \<le> MAX_DICTIONARY_VAL_SIZE" and "Suc (length r) \<le> length p"
  using assms key_at_shorter [OF assms] by (auto simp: key_at_def split: prod.splits if_splits)

lemma expand_length:
  "length (expand es p) + 2 * replaced es p \<le> length p + MAX_DICTIONARY_VAL_SIZE * replaced es p"
proof (induction es p rule: expand.induct)
  case (2 es c p)
  show ?case
  proof (cases "if c = CHR ''['' then key_at es p else None")
    case None
    with 2(1) [OF None] show ?thesis by (simp add: expand.simps(2) replaced.simps(2))
  next
    case (Some vr)
    obtain v r where vr: "vr = (v, r)" by (cases vr)
    have k: "key_at es p = Some (v, r)" using Some vr by (auto split: if_splits)
    show ?thesis
      using 2(2) [OF Some vr [symmetric]] key_at_bounds [OF k] Some vr
      by (simp add: expand.simps(2) replaced.simps(2))
  qed
qed simp

section \<open>Properties\<close>

text \<open>
  The dictionary refines a map. On a well-formed dictionary \<open>add_dict\<close> always returns and keeps it
  well-formed, also when the array is full and is doubled first; a key that is present is refused with
  -1 and nothing changes, any other key is bound to the value with return code 0.
\<close>

theorem add_dict_refines_map:
  assumes "dict_wf d"
  shows "\<exists>d' rc. add_dict d key val = Some (d', rc) \<and> dict_wf d' \<and>
    rc = (if getval_dict d key = None then 0 else -1) \<and>
    getval_dict d' = (if rc = 0 then (getval_dict d)(key \<mapsto> val) else getval_dict d)"
proof -
  obtain d' where a: "add_dict d key val = Some (d', if getval_dict d key = None then 0 else -1)" "dict_wf d'"
    and same: "getval_dict d key \<noteq> None \<longrightarrow> d' = d"
    using add_dict_wf [OF assms, of key val] by blast
  have "dict_ins d key val = d'" using a(1) by (simp add: dict_ins_def)
  then have "getval_dict d key = None \<Longrightarrow> getval_dict d' = (getval_dict d)(key \<mapsto> val)"
    using dc.lookup_insert [OF assms] by auto
  with a same show ?thesis by auto
qed

theorem add_dict_refines_map_witness:
  "\<exists>d' rc. add_dict new_dict ''DATE'' ''today'' = Some (d', rc) \<and> dict_wf d' \<and>
    rc = (if getval_dict new_dict ''DATE'' = None then 0 else -1) \<and>
    getval_dict d' = (if rc = 0 then (getval_dict new_dict)(''DATE'' \<mapsto> ''today'') else getval_dict new_dict)"
  by (rule add_dict_refines_map [OF new_dict_wf])

lemma replace_dict_eq:
  "replace_dict_in_buf d buffer maxlen =
     (let N = min (length buffer) (1024 * 1024) + 1024 * dc_idx d; r = expand (dict_entries d) buffer in
      if 1024 * 1024 \<le> N then Some (buffer, -1)
      else if N \<le> length r then None
      else if length r < maxlen then Some (r, 0)
      else Some (buffer, -1))"
proof -
  let ?N = "strnlen buffer MAX_REPLACE_BUFFER_SIZE + MAX_DICTIONARY_VAL_SIZE * dc_idx d"
  let ?l = "replace_loop (dict_entries d) ?N 0 [] buffer" and ?r = "expand (dict_entries d) buffer"
  have N: "?N = min (length buffer) (1024 * 1024) + 1024 * dc_idx d"
    by (simp add: strnlen_def MAX_REPLACE_BUFFER_SIZE_def MAX_DICTIONARY_VAL_SIZE_def)
  have "if ?N \<le> length ?r then ?l = None \<or> (\<exists>x. ?l = Some x \<and> ?N \<le> length x) else ?l = Some ?r"
    using replace_loop_expand [of 0 "[]" ?N "dict_entries d" buffer] by simp
  then show ?thesis
    unfolding replace_dict_in_buf_def Let_def N [symmetric]
    by (auto simp: MAX_REPLACE_BUFFER_SIZE_def split: if_splits)
qed

text \<open>
  C20: replacing the keys of a text is exactly the reference definition within the bounds of the buffers:
  for every dictionary, text and size the call is refused with -1 when the work buffer would reach one megabyte or the
  result does not fit the caller's buffer, both leaving the text as it was; the result is the reference
  text when it is shorter than the work buffer; and the work buffer is overrun exactly when the
  reference text is not shorter than it.
\<close>

theorem replace_dict_is_expand:
  "replace_dict_in_buf d buffer maxlen =
     (let N = min (length buffer) (1024 * 1024) + 1024 * dc_idx d; r = expand (dict_entries d) buffer in
      if 1024 * 1024 \<le> N then Some (buffer, -1)
      else if N \<le> length r then None
      else if length r < maxlen then Some (r, 0)
      else Some (buffer, -1))"
  by (rule replace_dict_eq)

text \<open>
  No overrun when the dictionary is not empty and at most as many keys are replaced as it holds, as
  in a template that names every key at most once.
\<close>

theorem replace_dict_no_overrun:
  assumes "0 < dc_idx d" and "replaced (dict_entries d) buffer \<le> dc_idx d"
  shows "replace_dict_in_buf d buffer maxlen \<noteq> None"
proof -
  let ?r = "expand (dict_entries d) buffer" and ?k = "replaced (dict_entries d) buffer"
  have "length ?r + 2 * ?k \<le> length buffer + 1024 * ?k"
    using expand_length [of "dict_entries d" buffer] by (simp add: MAX_DICTIONARY_VAL_SIZE_def)
  moreover have "1024 * ?k \<le> 1024 * dc_idx d" using assms(2) by simp
  ultimately have "length ?r < length buffer + 1024 * dc_idx d" using assms(1) by (cases "?k = 0") linarith+
  then show ?thesis
    using replace_loop_expand [of 0 "[]" "length buffer + 1024 * dc_idx d" "dict_entries d" buffer]
    by (auto simp: replace_dict_in_buf_def Let_def strnlen_def min_def MAX_REPLACE_BUFFER_SIZE_def MAX_DICTIONARY_VAL_SIZE_def)
qed

text \<open>A mail template with the key \<open>DATE\<close>; the second dictionary has a value of 1024 bytes.\<close>

definition eg_dict :: "string \<Rightarrow> dict" where
  "eg_dict v = dict_ins new_dict ''DATE'' v"

lemma eg_dict_entries: "dict_entries (eg_dict v) = [(''DATE'', v)]" "dc_idx (eg_dict v) = 1"
proof -
  have n: "dict_entries new_dict = []" by (simp add: new_dict_def dict_entries_def)
  then have "getval_dict new_dict = Map.empty" by (simp add: getval_dict_map_of)
  with n add_dict_wf [OF new_dict_wf, of "''DATE''" v]
  have "dict_wf (eg_dict v)" and e: "dict_entries (eg_dict v) = [(''DATE'', v)]"
    by (auto simp: eg_dict_def dict_ins_def)
  then show "dict_entries (eg_dict v) = [(''DATE'', v)]" by simp
  have "length (dict_entries (eg_dict v)) = dc_idx (eg_dict v)"
    using \<open>dict_wf (eg_dict v)\<close> by (simp add: dict_entries_def dict_wf_def)
  then show "dc_idx (eg_dict v) = 1" using e by simp
qed

lemma key_at_date: "key_at [(''DATE'', v)] (''date]'' @ r) = Some (take 1024 v, r)"
  by (simp add: key_at_def numeral_eq_Suc find_key_nocase_def MAX_DICTIONARY_VAL_SIZE_def tolower_upper tolower_other)

theorem replace_dict_no_overrun_witness:
  "replace_dict_in_buf (eg_dict ''today'') ''On [date].'' 100 \<noteq> None"
proof (rule replace_dict_no_overrun)
  show "0 < dc_idx (eg_dict ''today'')" by (simp add: eg_dict_entries)
  show "replaced (dict_entries (eg_dict ''today'')) ''On [date].'' \<le> dc_idx (eg_dict ''today'')"
    using key_at_date [of "''today''" "''.''"] by (simp add: eg_dict_entries replaced.simps(2))
qed

text \<open>
  A key named twice overruns the work buffer. With one key whose value has the largest size, the
  text \<^verbatim>\<open>[date][date]\<close> makes \<open>replace_dict_in_buf\<close> write beyond the buffer it allocated, whatever the size of
  the caller's buffer.
\<close>

theorem replace_dict_overrun:
  "length v = 1024 \<Longrightarrow> replace_dict_in_buf (eg_dict v) ''[date][date]'' maxlen = None"

  using key_at_date [of v "''[date]''"] key_at_date [of v "[]"]
  by (simp add: replace_dict_in_buf_def replace_loop.simps(2) eg_dict_entries Let_def strnlen_def MAX_REPLACE_BUFFER_SIZE_def MAX_DICTIONARY_VAL_SIZE_def)

theorem replace_dict_overrun_witness:
  "replace_dict_in_buf (eg_dict (replicate 1024 (CHR ''x''))) ''[date][date]'' 5000 = None"
  by (rule replace_dict_overrun) simp

end
