(* ===== verification/Base64.thy ===== *)
theory Base64
  imports G7_Prelude
begin

text \<open>
  The base64 coding of the mail library, \<^verbatim>\<open>libsmtpmail/base64ed.c\<close>, used for attachments and for the
  login. Bytes are \<open>8 word\<close>, so that the shifts lose the same bits as the assignment to a \<open>char\<close>. The encoder
  is compared with the definition of the code on bits, the decoder is shown to be its inverse, and the
  write of the final zero is checked against the size of the buffer: \<open>None\<close> is a write or read
  outside a buffer.
\<close>

unbundle bit_operations_syntax

section \<open>Coding\<close>

type_synonym u8 = "8 word"

definition b64table :: string where
  "b64table = ''ABCDEFGHIJKLMNOPQRSTUVWXYZabcdefghijklmnopqrstuvwxyz0123456789+/''"

text \<open>\<open>strchr\<close> finds the terminating zero of the table as well.\<close>

definition base64_decodechar :: "char \<Rightarrow> u8" where
  "base64_decodechar c =
     (let i = find_idx (\<lambda>t. t = c) b64table in
      if i < length b64table \<or> c = NUL then word_of_nat i else 0)"

fun encode_groups :: "u8 list \<Rightarrow> string" where
  "encode_groups (a1 # a2 # a3 # r) =
     [b64table ! unat (drop_bit 2 a1),
      b64table ! unat (push_bit 4 (a1 AND 0x03) OR drop_bit 4 a2),
      b64table ! unat (push_bit 2 (a2 AND 0x0f) OR drop_bit 6 a3),
      b64table ! unat (a3 AND 0x3f)] @ encode_groups r"
| "encode_groups [a1, a2] =
     [b64table ! unat (drop_bit 2 a1),
      b64table ! unat (push_bit 4 (a1 AND 0x03) OR drop_bit 4 a2),
      b64table ! unat (push_bit 2 (a2 AND 0x0f)),
      CHR ''='']"
| "encode_groups [a1] =
     [b64table ! unat (drop_bit 2 a1), b64table ! unat (push_bit 4 (a1 AND 0x03)), CHR ''='', CHR ''='']"
| "encode_groups [] = []"

text \<open>The length is kept in an \<open>int\<close>; the text is followed by a zero in the buffer.\<close>

definition base64encode :: "u8 list \<Rightarrow> nat \<Rightarrow> (string \<times> int) option" where
  "base64encode inbuff outbuff_maxlen =
     (let n = to_int32 (int (length inbuff)) in
      if outbuff_maxlen < (length inbuff div 3 + 1) * 4 then Some ([], -1)
      else let out = encode_groups (take (nat n) inbuff) in
        if length out + 1 \<le> outbuff_maxlen then Some (out, 0) else None)"

fun decode_groups :: "string \<Rightarrow> u8 list option" where
  "decode_groups [c1, c2, c3, c4] =
     (let a1 = base64_decodechar c1; a2 = base64_decodechar c2 in
      Some ((push_bit 2 a1 OR drop_bit 4 a2) #
        (if c3 \<noteq> CHR ''='' then
           let a3 = base64_decodechar c3; a4 = base64_decodechar c4 in
           (push_bit 4 a2 OR drop_bit 2 a3) #
           (if c4 \<noteq> CHR ''='' then [push_bit 6 a3 OR a4] else [])
         else [])))"
| "decode_groups (c1 # c2 # c3 # c4 # r) =
     (let a1 = base64_decodechar c1; a2 = base64_decodechar c2; a3 = base64_decodechar c3; a4 = base64_decodechar c4 in
      map_option (\<lambda>out. [push_bit 2 a1 OR drop_bit 4 a2, push_bit 4 a2 OR drop_bit 2 a3, push_bit 6 a3 OR a4] @ out)
        (decode_groups r))"
| "decode_groups _ = None"

definition base64decode :: "string \<Rightarrow> nat \<Rightarrow> (u8 list \<times> int) option" where
  "base64decode inbuff outbuff_maxlen =
     (if outbuff_maxlen < (length inbuff div 4) * 3 + 1 \<or> length inbuff mod 4 \<noteq> 0 then Some ([], -1)
      else case decode_groups inbuff of
        None \<Rightarrow> None
      | Some out \<Rightarrow> if length out + 1 \<le> outbuff_maxlen then Some (out, 0) else None)"

section \<open>Lengths and characters\<close>

lemma group_counts: "(5 + n) div 3 = Suc (Suc (Suc n) div 3)" "(5 + n) div 4 = Suc (Suc n div 4)" for n :: nat
  by presburger+

lemma length_encode_groups: "length (encode_groups bs) = (length bs + 2) div 3 * 4"
  by (induction bs rule: encode_groups.induct) (simp_all add: group_counts)

lemma length_decode_groups: "decode_groups cs = Some bs \<Longrightarrow> length bs \<le> length cs div 4 * 3"
  by (induction cs arbitrary: bs rule: decode_groups.induct) (auto simp: Let_def group_counts split: if_splits)

lemma table_distinct: "distinct b64table" "length b64table = 64" "CHR ''='' \<notin> set b64table"
  by (simp_all add: b64table_def)

lemma decodechar_table:
  assumes "unat i < 64"
  shows "base64_decodechar (b64table ! unat i) = i"
proof -
  have "find_idx (\<lambda>t. t = b64table ! unat i) b64table = unat i"
    using assms table_distinct by (intro find_idx_eqI) (auto simp: nth_eq_iff_index_eq)
  then show ?thesis using assms table_distinct by (simp add: base64_decodechar_def Let_def)
qed

lemma table_not_pad: "unat (i :: u8) < 64 \<Longrightarrow> b64table ! unat i \<noteq> CHR ''=''"
  using table_distinct nth_mem [of "unat i" b64table] by metis

lemma bit_high: "8 \<le> n \<Longrightarrow> \<not> bit (a :: u8) n"
  using bit_imp_le_length [of a n] by auto

text \<open>A byte whose two highest bits are zero is an index of the table.\<close>

lemma sextet: "\<not> bit i 6 \<Longrightarrow> \<not> bit i 7 \<Longrightarrow> unat (i :: u8) < 64"
proof -
  assume "\<not> bit i 6" "\<not> bit i 7"
  then have "take_bit 6 i = i"
    by (intro bit_word_eqI) (auto simp: bit_simps less_Suc_eq numeral_eq_Suc)
  then have "unat i = take_bit 6 (unat i)" by (metis unsigned_take_bit_eq)
  also have "\<dots> < 2 ^ 6" by (rule take_bit_nat_less_exp)
  finally show ?thesis by simp
qed

lemma indices:
  "unat (drop_bit 2 (a :: u8)) < 64" "unat (push_bit 4 (a AND 0x03) OR drop_bit 4 (b :: u8)) < 64"
  "unat (push_bit 2 (a AND 0x0f) OR drop_bit 6 (b :: u8)) < 64" "unat (a AND 0x3f) < 64"
  "unat (push_bit 2 (a AND 0x0f)) < 64" "unat (push_bit 4 (a AND 0x03)) < 64"
  by (rule sextet; simp add: bit_simps bit_high)+

lemmas coded = decodechar_table [OF indices(1)] decodechar_table [OF indices(2)] decodechar_table [OF indices(3)]
  decodechar_table [OF indices(4)] decodechar_table [OF indices(5)] decodechar_table [OF indices(6)]
  table_not_pad [OF indices(3)] table_not_pad [OF indices(4)] table_not_pad [OF indices(5)]

lemmas pieces = push_bit_and push_bit_or drop_bit_and drop_bit_or

section \<open>Decoding is the inverse of encoding\<close>

text \<open>The bits of a byte are found again in the pieces; a bit position is one of eight.\<close>

lemma u8_eqI:
  assumes "\<And>n. n \<in> {0, 1, 2, 3, 4, 5, 6, 7} \<Longrightarrow> bit a n = bit b n"
  shows "a = (b :: u8)"
proof (rule bit_word_eqI)
  fix n assume "n < LENGTH(8)"
  then have "n \<in> {0, 1, 2, 3, 4, 5, 6, 7}" by auto
  then show "bit a n = bit b n" by (rule assms)
qed

lemma joined:
  "push_bit 2 (drop_bit 2 a) OR drop_bit 4 (push_bit 4 (a AND 0x03) OR drop_bit 4 b) = (a :: u8)"
  "push_bit 4 (push_bit 4 (a AND 0x03) OR drop_bit 4 b) OR drop_bit 2 (push_bit 2 (b AND 0x0f) OR drop_bit 6 c) = (b :: u8)"
  "push_bit 6 (push_bit 2 (b AND 0x0f) OR drop_bit 6 c) OR (c AND 0x3f) = (c :: u8)"
  "push_bit 2 (drop_bit 2 a) OR drop_bit 4 (push_bit 4 (a AND 0x03)) = (a :: u8)"
  "push_bit 4 (push_bit 4 (a AND 0x03) OR drop_bit 4 b) OR drop_bit 2 (push_bit 2 (b AND 0x0f)) = (b :: u8)"
  by (rule u8_eqI; elim insertE emptyE; simp add: bit_simps bit_high del: pieces)+

lemma encode_nonempty: "encode_groups bs = [] \<longleftrightarrow> bs = []"
  by (cases bs rule: encode_groups.cases) auto

lemma decode_encode: "bs \<noteq> [] \<Longrightarrow> decode_groups (encode_groups bs) = Some bs"
proof (induction bs rule: encode_groups.induct)
  case (1 a1 a2 a3 r)
  show ?case
  proof (cases "encode_groups r")
    case Nil
    then have "r = []" by (simp add: encode_nonempty)
    then show ?thesis by (simp add: coded joined Let_def del: pieces)
  next
    case (Cons c cs)
    then have "r \<noteq> []" by auto
    with 1 Cons show ?thesis by (simp add: coded joined Let_def del: pieces)
  qed
qed (simp_all add: coded joined Let_def del: pieces)

section \<open>The code on bits\<close>

text \<open>
  The reference: the bits of all bytes, highest first, are read six at a time, the last group filled
  up with zero bits; every group is the index of a character, and the text is filled up with \<^verbatim>\<open>=\<close> to a
  multiple of four.
\<close>

definition byte_bits :: "u8 \<Rightarrow> bool list" where
  "byte_bits b = map (bit b) [7, 6, 5, 4, 3, 2, 1, 0]"

definition sextet_char :: "bool list \<Rightarrow> char" where
  "sextet_char bs = b64table ! horner_sum of_bool 2 (rev bs)"

function sextets :: "bool list \<Rightarrow> string" where
  "sextets bs = (if bs = [] then [] else sextet_char (take 6 (bs @ replicate 5 False)) # sextets (drop 6 bs))"
  by pat_completeness auto
termination
  by (relation "measure length") auto

declare sextets.simps [simp del]

definition base64_text :: "u8 list \<Rightarrow> string" where
  "base64_text bytes =
     (let t = sextets (concat (map byte_bits bytes)) in t @ replicate ((4 - length t mod 4) mod 4) (CHR ''=''))"

lemma sextets_Cons [simp]:
  "sextets [] = []"
  "sextets (b5 # b4 # b3 # b2 # b1 # b0 # bs) = sextet_char [b5, b4, b3, b2, b1, b0] # sextets bs"
  "sextets [b5, b4] = [sextet_char [b5, b4, False, False, False, False]]"
  "sextets [b5, b4, b3, b2] = [sextet_char [b5, b4, b3, b2, False, False]]"
  by (subst sextets.simps; simp add: sextets.simps [of "[]"] numeral_eq_Suc)+

lemma sextet_index:
  assumes "unat i < 64"
  shows "sextet_char [bit i 5, bit i 4, bit i 3, bit i 2, bit i 1, bit i 0] = b64table ! unat (i :: u8)"
proof -
  have "unat i = take_bit 6 (unat i)" using assms by (simp add: take_bit_nat_eq_self)
  also have "\<dots> = horner_sum of_bool 2 (map (bit (unat i)) [0..<6])" by (simp add: horner_sum_bit_eq_take_bit)
  also have "map (bit (unat i)) [0..<6] = [bit i 0, bit i 1, bit i 2, bit i 3, bit i 4, bit i 5]"
  proof -
    have "[0..<6] = [0, 1, 2, 3, 4, 5 :: nat]" by (simp add: upt_rec)
    then show ?thesis by (simp add: bit_unsigned_iff)
  qed
  finally show ?thesis by (simp add: sextet_char_def)
qed

lemma encode_groups_bits: "encode_groups bs = base64_text bs"
proof (induction bs rule: encode_groups.induct)
  case (1 a1 a2 a3 r)
  then show ?case
    using sextet_index [OF indices(1), of a1] sextet_index [OF indices(2), of a1 a2]
      sextet_index [OF indices(3), of a2 a3] sextet_index [OF indices(4), of a3]
    by (simp add: base64_text_def byte_bits_def Let_def bit_simps bit_high del: pieces)
next
  case (2 a1 a2)
  show ?case
    using sextet_index [OF indices(1), of a1] sextet_index [OF indices(2), of a1 a2] sextet_index [OF indices(5), of a2]
    by (simp add: base64_text_def byte_bits_def Let_def bit_simps bit_high del: pieces)
next
  case (3 a1)
  have two: "replicate 2 (CHR ''='') = [CHR ''='', CHR ''='']" by (simp add: numeral_2_eq_2)
  show ?case
    using sextet_index [OF indices(1), of a1] sextet_index [OF indices(6), of a1]
    by (simp add: base64_text_def byte_bits_def Let_def bit_simps bit_high two del: pieces)
qed (simp add: base64_text_def)

section \<open>Properties\<close>

text \<open>
  C32: what \<open>base64encode\<close> does for every input of less than 2 GB and every buffer size, in terms of the definition of
  the code on bits: a buffer that is too small by its own test is refused, otherwise the buffer holds
  the coded text; the final zero is written outside the buffer exactly when the buffer has no byte left for it.
\<close>

theorem base64encode_spec:
  assumes "length inbuff < 2 ^ 31"
  shows "base64encode inbuff maxlen =
    (if maxlen < (length inbuff div 3 + 1) * 4 then Some ([], -1)
     else if length (base64_text inbuff) < maxlen then Some (base64_text inbuff, 0)
     else None)"
  using assms by (simp add: base64encode_def to_int32_id encode_groups_bits)

theorem base64encode_spec_witness:
  "base64encode [77, 97, 110] 9 =
    (if 9 < (length [77, 97, 110 :: u8] div 3 + 1) * 4 then Some ([], -1)
     else if length (base64_text [77, 97, 110]) < 9 then Some (base64_text [77, 97, 110], 0)
     else None)"
  by (rule base64encode_spec) simp

text \<open>
  C33: decoding gives back what was encoded. For every sequence of at least one byte, with a buffer
  that has room for the text and its zero, encoding succeeds, and decoding the text into a buffer that
  has room for three bytes per four characters and a zero gives the same bytes.
\<close>

theorem base64_roundtrip:
  assumes "bs \<noteq> []" and "length bs < 2 ^ 31" and "(length bs + 2) div 3 * 4 < m" and "(length bs div 3 + 1) * 4 \<le> m"
    and "(length bs + 2) div 3 * 3 < k"
  shows "\<exists>t. base64encode bs m = Some (t, 0) \<and> base64decode t k = Some (bs, 0)"
proof (intro exI conjI)
  let ?t = "encode_groups bs"
  show "base64encode bs m = Some (?t, 0)"
    using assms by (simp add: base64encode_def to_int32_id length_encode_groups)
  have "length bs \<le> (length bs + 2) div 3 * 3" by presburger
  then show "base64decode ?t k = Some (bs, 0)"
    using assms by (simp add: base64decode_def decode_encode length_encode_groups)
qed

theorem base64_roundtrip_witness:
  "\<exists>t. base64encode [255, 0, 128, 7] 13 = Some (t, 0) \<and> base64decode t 7 = Some ([255, 0, 128, 7], 0)"
  by (rule base64_roundtrip) simp_all

text \<open>
  The size test of \<open>base64encode\<close> is too weak by one. For every input whose length is not a multiple of three,
  the smallest buffer that passes the test is overrun by the final zero.
\<close>

theorem base64encode_overrun:
  assumes "length inbuff mod 3 \<noteq> 0" and "length inbuff < 2 ^ 31"
  shows "base64encode inbuff ((length inbuff div 3 + 1) * 4) = None"
proof -
  have "(length inbuff + 2) div 3 = length inbuff div 3 + 1" using assms(1) by presburger
  then show ?thesis using assms(2) by (simp add: base64encode_def to_int32_id length_encode_groups)
qed

theorem base64encode_overrun_witness: "base64encode [1, 2] 4 = None"
  using base64encode_overrun [of "[1, 2]"] by simp

end
