(* ===== verification/Quotprint.thy ===== *)
theory Quotprint
  imports G7_Prelude
begin

text \<open>
  The quoted-printable coding of the mail library, \<^verbatim>\<open>libsmtpmail/quotprinted.c\<close>, for attachments and for the
  subject line. A text is the list of its bytes; the counter \<open>n\<close> of the room left is kept at the width
  of \<open>size_t\<close>, because it can wrap around, and a write outside the buffer is the value \<open>None\<close>. The codings
  are compared with decoders that are not part of the program.
\<close>

section \<open>Coding\<close>

definition LINE_WIDTH :: nat where "LINE_WIDTH = 76"

text \<open>The two digits of \<^verbatim>\<open>%02X\<close> for a byte.\<close>

definition hex_digit :: "nat \<Rightarrow> char" where
  "hex_digit d = (if d < 10 then char_of (48 + d) else char_of (55 + d))"

definition hex2 :: "char \<Rightarrow> string" where
  "hex2 c = [hex_digit (byte c div 16), hex_digit (byte c mod 16)]"

text \<open>What has been written, the room left and the width of the current line.\<close>

record qp_state =
  qp_out :: string
  qp_n :: "64 word"
  qp_w :: nat

text \<open>
  \<open>chk_softlinebreak\<close> is called with a byte \<open>c\<close> already stored at the place \<open>pout\<close> points to. When there is no
  room it returns -1, which no caller looks at, and the byte is overwritten by the next one.
\<close>

definition chk_softlinebreak :: "char \<Rightarrow> qp_state \<Rightarrow> qp_state" where
  "chk_softlinebreak c q =
     (if qp_w q = LINE_WIDTH - 1 then
        if c = CHR '' '' then
          (if qp_n q < 6 then q
           else \<lparr>qp_out = qp_out q @ ''=='' @ [CR, LF] @ ''20'', qp_n = qp_n q - 6, qp_w = 2\<rparr>)
        else if c = TAB then
          (if qp_n q < 6 then q
           else \<lparr>qp_out = qp_out q @ ''=='' @ [CR, LF] @ ''09'', qp_n = qp_n q - 6, qp_w = 2\<rparr>)
        else
          (if qp_n q < 3 then q
           else \<lparr>qp_out = qp_out q @ [c] @ ''='' @ [CR, LF], qp_n = qp_n q - 3, qp_w = 0\<rparr>)
      else \<lparr>qp_out = qp_out q @ [c], qp_n = qp_n q - 1, qp_w = qp_w q + 1\<rparr>)"

text \<open>Storing one byte and the check, in a buffer of \<open>maxlen\<close> bytes.\<close>

definition put_byte :: "nat \<Rightarrow> char \<Rightarrow> qp_state \<Rightarrow> qp_state option" where
  "put_byte maxlen c q =
     (let q' = chk_softlinebreak c q in
      if length (qp_out q) < maxlen \<and> length (qp_out q') \<le> maxlen then Some q' else None)"

fun put_bytes :: "nat \<Rightarrow> string \<Rightarrow> qp_state \<Rightarrow> qp_state option" where
  "put_bytes maxlen [] q = Some q"
| "put_bytes maxlen (c # cs) q =
     (case put_byte maxlen c q of None \<Rightarrow> None | Some q' \<Rightarrow> put_bytes maxlen cs q')"

definition plain_byte :: "char \<Rightarrow> bool" where
  "plain_byte c \<longleftrightarrow> 32 \<le> byte c \<and> byte c \<le> byte (CHR ''z'') \<and> c \<noteq> CHR ''=''"

text \<open>The loop over the text; the result has the return code -1 or 0.\<close>

fun qprint_loop :: "nat \<Rightarrow> string \<Rightarrow> qp_state \<Rightarrow> (string \<times> int) option" where
  "qprint_loop maxlen [] q = (if length (qp_out q) < maxlen then Some (qp_out q, 0) else None)"
| "qprint_loop maxlen (c # pin) q =
     (if qp_n q = 0 then Some (qp_out q, -1)
      else if plain_byte c then
        (case put_byte maxlen c q of None \<Rightarrow> None | Some q' \<Rightarrow> qprint_loop maxlen pin q')
      else if qp_n q < 3 then Some (qp_out q, -1)
      else (case put_bytes maxlen (CHR ''='' # hex2 c) q of None \<Rightarrow> None | Some q' \<Rightarrow> qprint_loop maxlen pin q'))"

definition qprint_encode :: "string \<Rightarrow> nat \<Rightarrow> (string \<times> int) option" where
  "qprint_encode s maxlen =
     (if maxlen < length s + 1 then Some ([], -1)
      else qprint_loop maxlen s \<lparr>qp_out = [], qp_n = word_of_nat maxlen, qp_w = 0\<rparr>)"

text \<open>
  The coding of a word for a header. \<open>n\<close> starts with the size of the buffer although the prefix has been
  written. A byte above 127 is coded together with the byte that follows it.
\<close>

definition word_prefix :: string where "word_prefix = ''=?utf8?Q?''"

function encode_word_loop :: "nat \<Rightarrow> string \<Rightarrow> string \<Rightarrow> nat \<Rightarrow> bool \<Rightarrow> (string \<times> nat \<times> bool \<times> int) option" where
  "encode_word_loop maxlen [] out n encoded = Some (out, n, encoded, 0)"
| "encode_word_loop maxlen (c # pin) out n encoded =
     (if n = 0 then Some (out, n, encoded, 0)
      else if c = LF \<or> c = CR then encode_word_loop maxlen pin out n encoded
      else if byte c = 32 then
        (if length out < maxlen then encode_word_loop maxlen pin (out @ ''_'') (n - 1) True else None)
      else if c = CHR ''_'' \<or> c = CHR ''='' \<or> c = CHR ''?'' \<or> byte c < 32 then
        (if n < 3 then Some (out, n, encoded, -1)
         else if length out + 3 \<le> maxlen then encode_word_loop maxlen pin (out @ ''='' @ hex2 c) (n - 3) True
         else None)
      else if byte c > 32 \<and> byte c \<le> byte (CHR ''z'') then
        (if length out < maxlen then encode_word_loop maxlen pin (out @ [c]) (n - 1) encoded else None)
      else if byte c > 127 then
        (if n < 6 then Some (out, n, encoded, -1)
         else if maxlen < length out + 3 then None
         else case pin of
           [] \<Rightarrow> Some (out @ ''='' @ hex2 c, n, encoded, -1)
         | c2 # pin2 \<Rightarrow>
             if length out + 6 \<le> maxlen
             then encode_word_loop maxlen pin2 (out @ ''='' @ hex2 c @ ''='' @ hex2 c2) (n - 6) True
             else None)
      else Some (out, n, encoded, -1))"
  by pat_completeness auto
termination
  by (relation "measure (\<lambda>(m, p, x, n, e). length p)") auto

definition qprint_encode_word :: "string \<Rightarrow> nat \<Rightarrow> (string \<times> int) option" where
  "qprint_encode_word s maxlen =
     (if maxlen < 11 then Some ([], -1)
      else case encode_word_loop maxlen s word_prefix maxlen False of
        None \<Rightarrow> None
      | Some (out, n, encoded, rc) \<Rightarrow>
          if rc \<noteq> 0 then Some (out, -1)
          else if n < 3 then Some (out, -1)
          else if maxlen < length out + 3 then None
          else if encoded then Some (out @ ''?='', 0)
          else if length s < maxlen then Some (s, 0) else None)"

section \<open>Decoders\<close>

text \<open>First the soft line breaks are taken out, then every \<^verbatim>\<open>=XX\<close> stands for a byte.\<close>

fun unfold_lines :: "string \<Rightarrow> string" where
  "unfold_lines (a # b # c # r) =
     (if a = CHR ''='' \<and> b = CR \<and> c = LF then unfold_lines r else a # unfold_lines (b # c # r))"
| "unfold_lines s = s"

definition hex_val :: "char \<Rightarrow> nat" where
  "hex_val c = (if byte c < 58 then byte c - 48 else byte c - 55)"

fun qp_decode :: "string \<Rightarrow> string" where
  "qp_decode [] = []"
| "qp_decode (c # r) =
     (if c = CHR ''='' then
        (case r of h # l # r' \<Rightarrow> char_of (16 * hex_val h + hex_val l) # qp_decode r' | _ \<Rightarrow> [])
      else c # qp_decode r)"

lemma unfold_lines_append:
  "ys = [] \<or> hd ys \<notin> {CR, LF} \<Longrightarrow> unfold_lines (xs @ ys) = unfold_lines xs @ unfold_lines ys"
proof (induction xs rule: unfold_lines.induct, goal_cases)
  case (3 v)
  then show ?case by (cases ys rule: unfold_lines.cases) auto
next
  case (4 v w)
  then show ?case by (cases ys rule: unfold_lines.cases) auto
qed auto

lemma hex_val_digit: "d < 16 \<Longrightarrow> hex_val (hex_digit d) = d"
  by (auto simp: hex_val_def hex_digit_def)

lemma hex_digit_plain: "d < 16 \<Longrightarrow> hex_digit d \<notin> {CR, LF, TAB, CHR '' '', CHR ''=''}"
proof -
  assume d: "d < 16"
  have "byte (hex_digit d) \<ge> 48 \<and> byte (hex_digit d) \<noteq> 61" using d by (auto simp: hex_digit_def)
  then show ?thesis by auto
qed

text \<open>The decoder reads a byte of the text from one byte or from three.\<close>

definition token :: "string \<Rightarrow> char \<Rightarrow> bool" where
  "token t c \<longleftrightarrow> (t = [c] \<and> c \<noteq> CHR ''='') \<or> t = CHR ''='' # hex2 c"

lemma decode_hex2: "qp_decode (CHR ''='' # hex2 c @ r) = c # qp_decode r"
proof -
  have "byte c div 16 < 16" using byte_less_256 [of c] by (simp add: less_mult_imp_div_less)
  then show ?thesis by (simp add: hex2_def hex_val_digit)
qed

lemma decode_tokens: "list_all2 token ts s \<Longrightarrow> qp_decode (concat ts) = s"
proof (induction rule: list_all2_induct)
  case (Cons t ts c s)
  then show ?case using decode_hex2 [of c "concat ts"] by (auto simp: token_def)
qed simp

section \<open>The output of the encoder\<close>

text \<open>
  After \<open>e\<close> bytes put and \<open>b\<close> line breaks: at most five more bytes than \<open>e\<close> are written, and subtracted
  from the room, for a break, and there are at least 74 bytes between two breaks.
\<close>

definition qp_inv :: "nat \<Rightarrow> nat \<Rightarrow> nat \<Rightarrow> qp_state \<Rightarrow> bool" where
  "qp_inv maxlen e b q \<longleftrightarrow>
     length (qp_out q) \<le> e + 5 * b \<and> maxlen \<le> unat (qp_n q) + e + 5 * b \<and> 74 * b + qp_w q \<le> e + 2 \<and> qp_w q < LINE_WIDTH"

lemma unat_minus: "k \<le> unat n \<Longrightarrow> unat (n - word_of_nat k) = unat n - k" for n :: "64 word"
proof -
  assume k: "k \<le> unat n"
  have "unat n < 2 ^ 64" by (rule order_less_le_trans [OF unsigned_less]) simp
  then have u: "unat (word_of_nat k :: 64 word) = k"
    using k by (simp add: unsigned_of_nat take_bit_nat_eq_self)
  then have "word_of_nat k \<le> n" using k by (simp add: word_le_nat_alt)
  then show ?thesis using u by (simp add: unat_sub)
qed

lemmas unat_sub_num = unat_minus [of 1, simplified] unat_minus [of 3, simplified] unat_minus [of 6, simplified]

lemma put_byte_ok:
  assumes "qp_inv maxlen e b q" and "e + 5 * b + 6 \<le> maxlen" and "c \<notin> {CR, LF, TAB}"
  shows "\<exists>q' b'. put_byte maxlen c q = Some q' \<and> qp_inv maxlen (Suc e) b' q' \<and>
    (\<exists>t. (t = [c] \<or> c = CHR '' '' \<and> t = CHR ''='' # hex2 c) \<and>
       unfold_lines (qp_out q') = unfold_lines (qp_out q) @ t)"
proof -
  have n: "6 \<le> unat (qp_n q)" using assms(1,2) by (simp add: qp_inv_def)
  then have ge: "\<not> qp_n q < 6" "\<not> qp_n q < 3" by (simp_all add: word_less_nat_alt)
  have sp: "hex2 (CHR '' '') = ''20''" by (simp add: hex2_def hex_digit_def char_of_def bit_0)
  have ap: "unfold_lines (qp_out q @ ys) = unfold_lines (qp_out q) @ unfold_lines ys" if "hd ys \<notin> {CR, LF}" for ys
    using that by (intro unfold_lines_append) simp
  show ?thesis
  proof (cases "qp_w q = 75")
    case False
    then show ?thesis
      using assms n ap [of "[c]"] unat_sub_num(1) [of "qp_n q"]
      by (intro exI [of _ "chk_softlinebreak c q"] exI [of _ b])
        (auto simp: put_byte_def chk_softlinebreak_def qp_inv_def Let_def LINE_WIDTH_def)
  next
    case True
    then show ?thesis
      using assms n ge sp ap [of "c # ''='' @ [CR, LF]"] ap [of "''=='' @ [CR, LF] @ ''20''"]
        unat_sub_num(2,3) [of "qp_n q"]
      by (intro exI [of _ "chk_softlinebreak c q"] exI [of _ "Suc b"])
        (auto simp: put_byte_def chk_softlinebreak_def qp_inv_def Let_def LINE_WIDTH_def)
  qed
qed

lemma put_bytes_ok:
  assumes "qp_inv maxlen e b q" and "e + length cs \<le> 3 * L" and "4 * L + 6 \<le> maxlen" and "set cs \<inter> {CR, LF, TAB, CHR '' ''} = {}"
  shows "\<exists>q' b'. put_bytes maxlen cs q = Some q' \<and> qp_inv maxlen (e + length cs) b' q' \<and>
    unfold_lines (qp_out q') = unfold_lines (qp_out q) @ cs"
  using assms
proof (induction cs arbitrary: e b q)
  case (Cons c cs)
  have "74 * b \<le> e + 2" using Cons.prems(1) by (simp add: qp_inv_def)
  then have "e + 5 * b + 6 \<le> maxlen" using Cons.prems(2,3) by simp
  then obtain q1 b1 where q1: "put_byte maxlen c q = Some q1" "qp_inv maxlen (Suc e) b1 q1"
    "unfold_lines (qp_out q1) = unfold_lines (qp_out q) @ [c]"
    using put_byte_ok [OF Cons.prems(1), of c] Cons.prems(4) by auto
  then show ?case using Cons.IH [OF q1(2)] Cons.prems by auto
qed auto

lemma plain_byte_spec: "plain_byte c \<Longrightarrow> c \<notin> {CR, LF, TAB, CHR ''=''}"
  by (auto simp: plain_byte_def)

text \<open>One byte of the text: the output grows by a token for it.\<close>

lemma qprint_step:
  assumes "qp_inv maxlen e b q" and "e + 3 \<le> 3 * L" and "4 * L + 6 \<le> maxlen"
  shows "\<exists>q' e' b' t. qprint_loop maxlen (c # pin) q = qprint_loop maxlen pin q' \<and> qp_inv maxlen e' b' q' \<and> e' \<le> e + 3 \<and>
    token t c \<and> unfold_lines (qp_out q') = unfold_lines (qp_out q) @ t"
proof -
  have b: "74 * b \<le> e + 2" using assms(1) by (simp add: qp_inv_def)
  then have room: "e + 5 * b + 6 \<le> maxlen" using assms(2,3) by simp
  then have n: "6 \<le> unat (qp_n q)" using assms(1) by (simp add: qp_inv_def)
  then have ge: "qp_n q \<noteq> 0" "\<not> qp_n q < 3" by (auto simp: word_less_nat_alt)
  show ?thesis
  proof (cases "plain_byte c")
    case True
    have c: "c \<notin> {CR, LF, TAB, CHR ''=''}" using True by (rule plain_byte_spec)
    then obtain q' b' t where q': "put_byte maxlen c q = Some q'" "qp_inv maxlen (Suc e) b' q'"
      "t = [c] \<or> t = CHR ''='' # hex2 c" "unfold_lines (qp_out q') = unfold_lines (qp_out q) @ t"
      using put_byte_ok [OF assms(1) room, of c] by auto
    then have "token t c" using c by (auto simp: token_def)
    with q' show ?thesis using ge True
      by (intro exI [of _ q'] exI [of _ "Suc e"] exI [of _ b'] exI [of _ t]) simp
  next
    case False
    have "byte c div 16 < 16" using byte_less_256 [of c] by (simp add: less_mult_imp_div_less)
    then have cs: "set (CHR ''='' # hex2 c) \<inter> {CR, LF, TAB, CHR '' ''} = {}"
      using hex_digit_plain [of "byte c div 16"] hex_digit_plain [of "byte c mod 16"] by (simp add: hex2_def)
    have "length (CHR ''='' # hex2 c) = 3" by (simp add: hex2_def)
    then obtain q' b' where "put_bytes maxlen (CHR ''='' # hex2 c) q = Some q'" "qp_inv maxlen (e + 3) b' q'"
      "unfold_lines (qp_out q') = unfold_lines (qp_out q) @ CHR ''='' # hex2 c"
      using put_bytes_ok [OF assms(1) _ assms(3) cs] assms(2) by auto
    then show ?thesis using False ge
      by (intro exI [of _ q'] exI [of _ "e + 3"] exI [of _ b'] exI [of _ "CHR ''='' # hex2 c"])
        (simp add: token_def del: put_bytes.simps)
  qed
qed

lemma qprint_loop_ok:
  assumes "qp_inv maxlen e b q" and "e + 3 * length pin \<le> 3 * L" and "4 * L + 6 \<le> maxlen"
  shows "\<exists>out ts. qprint_loop maxlen pin q = Some (out, 0) \<and> list_all2 token ts pin \<and>
    unfold_lines out = unfold_lines (qp_out q) @ concat ts"
  using assms
proof (induction pin arbitrary: e b q)
  case Nil
  have "74 * b \<le> e + 2" using Nil(1) by (simp add: qp_inv_def)
  then have "length (qp_out q) < maxlen" using Nil by (auto simp: qp_inv_def)
  then show ?case by (intro exI [of _ "qp_out q"] exI [of _ "[]"]) simp
next
  case (Cons c pin)
  obtain q' e' b' t where q': "qprint_loop maxlen (c # pin) q = qprint_loop maxlen pin q'" "qp_inv maxlen e' b' q'" "e' \<le> e + 3"
    "token t c" "unfold_lines (qp_out q') = unfold_lines (qp_out q) @ t"
    using qprint_step [OF Cons.prems(1) _ Cons.prems(3), of c pin] Cons.prems(2) by auto
  obtain out ts where "qprint_loop maxlen pin q' = Some (out, 0)" "list_all2 token ts pin"
    "unfold_lines out = unfold_lines (qp_out q') @ concat ts"
    using Cons.IH [OF q'(2)] q'(3) Cons.prems(2,3) by auto
  with q' show ?case by (intro exI [of _ out] exI [of _ "t # ts"]) simp
qed

section \<open>Words of a header\<close>

fun word_decode :: "string \<Rightarrow> string" where
  "word_decode [] = []"
| "word_decode (c # r) =
     (if c = CHR ''_'' then CHR '' '' # word_decode r
      else if c = CHR ''='' then
        (case r of h # l # r' \<Rightarrow> char_of (16 * hex_val h + hex_val l) # word_decode r' | _ \<Rightarrow> [])
      else c # word_decode r)"

definition decode_header :: "string \<Rightarrow> string" where
  "decode_header h =
     (if take 9 h = word_prefix then word_decode (take (length h - 11) (drop 9 h)) else h)"

definition wtoken :: "string \<Rightarrow> char \<Rightarrow> bool" where
  "wtoken t c \<longleftrightarrow> (t = [c] \<and> c \<notin> {CHR ''='', CHR ''_''}) \<or> (t = ''_'' \<and> c = CHR '' '') \<or> t = CHR ''='' # hex2 c"

lemma wtoken_hex2: "wtoken (CHR ''='' # hex2 c) c"
  by (simp add: wtoken_def)

lemma word_decode_hex2: "word_decode (CHR ''='' # hex2 c @ r) = c # word_decode r"
proof -
  have "byte c div 16 < 16" using byte_less_256 [of c] by (simp add: less_mult_imp_div_less)
  then show ?thesis by (simp add: hex2_def hex_val_digit)
qed

lemma decode_wtokens: "list_all2 wtoken ts s \<Longrightarrow> word_decode (concat ts) = s"
proof (induction rule: list_all2_induct)
  case (Cons t ts c s)
  then show ?case using word_decode_hex2 [of c "concat ts"] by (auto simp: wtoken_def)
qed simp

text \<open>What the loop adds to the output; nothing needed coding when \<open>encoded\<close> is still false.\<close>

lemma encode_word_loop_ok:
  assumes "encode_word_loop maxlen s out n encoded = Some (out', n', encoded', 0)" and "0 < n'" and "set s \<inter> {CR, LF} = {}"
  shows "\<exists>ts. out' = out @ concat ts \<and> list_all2 wtoken ts s \<and> (encoded \<longrightarrow> encoded') \<and>
    (\<not> encoded' \<longrightarrow> CHR ''='' \<notin> set s)"
  using assms
proof (induction s arbitrary: out n encoded rule: length_induct)
  case (1 s)
  have IH: "\<exists>ts. out' = (out @ t) @ concat ts \<and> list_all2 wtoken ts s' \<and> (e \<longrightarrow> encoded') \<and>
      (\<not> encoded' \<longrightarrow> CHR ''='' \<notin> set s')"
    if "encode_word_loop maxlen s' (out @ t) k e = Some (out', n', encoded', 0)" "length s' < length s" "set s' \<subseteq> set s" for s' t k e
  proof -
    have "set s' \<inter> {CR, LF} = {}" using 1(4) that(3) by blast
    then show ?thesis by (rule 1(1) [rule_format, OF that(2,1) 1(3)])
  qed
  show ?case
  proof (cases s)
    case Nil
    with 1(2) show ?thesis by (intro exI [of _ "[]"]) auto
  next
    case (Cons c pin)
    have one: ?thesis if "encode_word_loop maxlen pin (out @ t) k e = Some (out', n', encoded', 0)" "wtoken t c"
      "encoded \<longrightarrow> e" "e \<or> c \<noteq> CHR ''=''" for t k e
    proof -
      note h = that
      obtain ts where "out' = (out @ t) @ concat ts" "list_all2 wtoken ts pin" "e \<longrightarrow> encoded'"
        "\<not> encoded' \<longrightarrow> CHR ''='' \<notin> set pin" using IH [OF h(1)] Cons by auto
      then show ?thesis using h Cons by (intro exI [of _ "t # ts"]) auto
    qed
    have two: ?thesis if "pin = c2 # pin2"
      "encode_word_loop maxlen pin2 (out @ (CHR ''='' # hex2 c @ CHR ''='' # hex2 c2)) k True = Some (out', n', encoded', 0)" for c2 pin2 k
    proof -
      note h = that
      obtain ts where "out' = (out @ (CHR ''='' # hex2 c @ CHR ''='' # hex2 c2)) @ concat ts" "list_all2 wtoken ts pin2" "encoded'"
        using IH [OF h(2)] Cons h(1) by auto
      then show ?thesis using h(1) Cons
        by (intro exI [of _ "(CHR ''='' # hex2 c) # (CHR ''='' # hex2 c2) # ts"]) (auto simp: wtoken_hex2)
    qed
    have sp: "byte c = 32 \<Longrightarrow> c = CHR '' ''" using byte_inject [of c "CHR '' ''"] by auto
    note eq = 1(2) [unfolded Cons encode_word_loop.simps(2)]
    have nz: "n \<noteq> 0" "c \<noteq> LF" "c \<noteq> CR" using eq 1(3,4) Cons by (auto split: if_splits)
    consider "byte c = 32" | "byte c \<noteq> 32" "c = CHR ''_'' \<or> c = CHR ''='' \<or> c = CHR ''?'' \<or> byte c < 32"
      | "byte c > 32" "byte c \<le> byte (CHR ''z'')" "\<not> (c = CHR ''_'' \<or> c = CHR ''='' \<or> c = CHR ''?'' \<or> byte c < 32)"
      | "byte c > byte (CHR ''z'')" by linarith
    then show ?thesis
    proof cases
      case 1
      then have "encode_word_loop maxlen pin (out @ ''_'') (n - 1) True = Some (out', n', encoded', 0)"
        using eq nz by (simp split: if_splits)
      then show ?thesis by (rule one) (use sp 1 in \<open>auto simp: wtoken_def\<close>)
    next
      case 2
      then have "encode_word_loop maxlen pin (out @ CHR ''='' # hex2 c) (n - 3) True = Some (out', n', encoded', 0)"
        using eq nz by (auto split: if_splits)
      then show ?thesis by (rule one) (auto simp: wtoken_def)
    next
      case 3
      then have "encode_word_loop maxlen pin (out @ [c]) (n - 1) encoded = Some (out', n', encoded', 0)"
        using eq nz by (simp split: if_splits)
      then show ?thesis by (rule one) (use 3 in \<open>auto simp: wtoken_def\<close>)
    next
      case 4
      then have g: "byte c \<noteq> 32" "\<not> (c = CHR ''_'' \<or> c = CHR ''='' \<or> c = CHR ''?'' \<or> byte c < 32)"
        "\<not> (byte c > 32 \<and> byte c \<le> byte (CHR ''z''))" by auto
      obtain c2 pin2 where "pin = c2 # pin2"
        "encode_word_loop maxlen pin2 (out @ ''='' @ hex2 c @ ''='' @ hex2 c2) (n - 6) True = Some (out', n', encoded', 0)"
        using eq nz unfolding if_not_P [OF g(1)] if_not_P [OF g(2)] if_not_P [OF g(3)]
        by (auto split: if_splits list.splits)
      then show ?thesis by (intro two) auto
    qed
  qed
qed

section \<open>Properties\<close>

text \<open>
  The quoted-printable text decodes to the original. With four bytes of buffer for every byte of the
  text and six more, \<open>qprint_encode\<close> succeeds without leaving the buffer, and taking out the soft line
  breaks and then decoding gives back the text.
\<close>

theorem qprint_roundtrip:
  assumes "4 * length s + 6 \<le> maxlen" and "maxlen < 2 ^ 64"
  shows "\<exists>out. qprint_encode s maxlen = Some (out, 0) \<and> qp_decode (unfold_lines out) = s"
proof -
  have "unat (word_of_nat maxlen :: 64 word) = maxlen"
    using assms(2) by (simp add: unsigned_of_nat take_bit_nat_eq_self)
  then have inv: "qp_inv maxlen 0 0 \<lparr>qp_out = [], qp_n = word_of_nat maxlen, qp_w = 0\<rparr>"
    by (simp add: qp_inv_def LINE_WIDTH_def)
  obtain out ts where "qprint_encode s maxlen = Some (out, 0)" "list_all2 token ts s" "unfold_lines out = concat ts"
    using qprint_loop_ok [OF inv, of s "length s"] assms(1) by (auto simp: qprint_encode_def)
  then show ?thesis using decode_tokens by auto
qed

theorem qprint_roundtrip_witness:
  "\<exists>out. qprint_encode ''1 + 1 = 2'' 46 = Some (out, 0) \<and> qp_decode (unfold_lines out) = ''1 + 1 = 2''"
  by (rule qprint_roundtrip) simp_all

text \<open>
  A subject line decodes to the original. For a text without line ends, whenever \<open>qprint_encode_word\<close>
  reports success, the decoder of encoded words gives the text back from what it has written.
\<close>

theorem qprint_word_roundtrip:
  assumes "qprint_encode_word s maxlen = Some (out, 0)" and "set s \<inter> {CR, LF} = {}"
  shows "decode_header out = s"
proof -
  obtain w n encoded where l: "encode_word_loop maxlen s word_prefix maxlen False = Some (w, n, encoded, 0)" "3 \<le> n"
    and out: "out = (if encoded then w @ ''?='' else s)"
    using assms(1) by (auto simp: qprint_encode_word_def split: if_splits option.splits)
  obtain ts where w: "w = word_prefix @ concat ts" "list_all2 wtoken ts s" "\<not> encoded \<longrightarrow> CHR ''='' \<notin> set s"
    using encode_word_loop_ok [OF l(1) _ assms(2)] l(2) by auto
  show ?thesis
  proof (cases encoded)
    case True
    then show ?thesis using w out decode_wtokens by (simp add: decode_header_def word_prefix_def)
  next
    case False
    have "CHR ''='' \<in> set word_prefix" by (simp add: word_prefix_def)
    then have "take 9 s \<noteq> word_prefix" using w(3) False by (metis in_set_takeD)
    then show ?thesis using False out by (simp add: decode_header_def)
  qed
qed

theorem qprint_word_roundtrip_witness: "decode_header ''=?utf8?Q?a_b?='' = ''a b''"
proof (rule qprint_word_roundtrip [of _ 64])
  show "qprint_encode_word ''a b'' 64 = Some (''=?utf8?Q?a_b?='', 0)"
    by (simp add: qprint_encode_word_def word_prefix_def)
qed simp

text \<open>
  The room three times the length of the text, which the library allocates for an attachment, is not
  enough: a text of 26 bytes that all need coding overruns the buffer at the first soft line break.
\<close>

theorem qprint_overrun: "qprint_encode (replicate 26 (CHR ''='')) (3 * 26) = None"
  by code_simp

end
