(* ===== verification/Mail_Compose.thy ===== *)
theory Mail_Compose
  imports Xstr Base64 Quotprint
begin

text \<open>
  The first half of the mail client \<^verbatim>\<open>libsmtpmail/mailclientlib.c\<close>: the session handle and the functions
  that put a mail together before anything is sent: recipients, texts, attachments. A heap string is its
  text, a pointer that may be null an \<open>option\<close>, an array with its index a list. \<open>None\<close> as the whole result is
  undefined behaviour: an access outside a buffer or through a null pointer.
\<close>

section \<open>The handle\<close>

record smtp_attachment =
  at_data :: string
  at_contenttype :: string
  at_contenttransferencoding :: string
  at_contentdisposition :: string
  at_filename :: string
  at_name :: string
  at_cid :: "string option"

type_synonym smtp_reply = "nat \<times> string"

record smtp_handle =
  sh_cap :: "smtp_reply list"
  sh_subject :: "string option"
  sh_date :: "string option"
  sh_to :: "string list"
  sh_to_concatenated :: "string option"
  sh_cc :: "string list"
  sh_cc_concatenated :: "string option"
  sh_bcc :: "string list"
  sh_bcc_concatenated :: "string option"
  sh_from :: "string option"
  sh_returnpath :: "string option"
  sh_mimeversion :: "string option"
  sh_attachment :: "smtp_attachment list"
  sh_html :: "string option"
  sh_plain :: "string option"
  sh_useragent :: "string option"
  sh_contenttype :: "string option"
  sh_contenttransferencoding :: "string option"
  sh_databuff :: "string option"

text \<open>A handle from \<open>calloc\<close>.\<close>

definition new_handle :: smtp_handle where
  "new_handle = \<lparr>sh_cap = [], sh_subject = None, sh_date = None, sh_to = [], sh_to_concatenated = None, sh_cc = [],
     sh_cc_concatenated = None, sh_bcc = [], sh_bcc_concatenated = None, sh_from = None, sh_returnpath = None,
     sh_mimeversion = None, sh_attachment = [], sh_html = None, sh_plain = None, sh_useragent = None,
     sh_contenttype = None, sh_contenttransferencoding = None, sh_databuff = None\<rparr>"

definition MAX_RCPT :: nat where "MAX_RCPT = 50"
definition MAX_ATTACHMENTS :: nat where "MAX_ATTACHMENTS = 20"
definition MAX_HEADER_ADDR_SIZE :: nat where "MAX_HEADER_ADDR_SIZE = 2048"

definition CHARSET :: string where "CHARSET = ''UTF-8''"

definition attach_mime_types :: "string list" where
  "attach_mime_types =
     [''text/plain'', ''text/html'', ''image/png'', ''image/jpg'', ''image/gif'', ''application/octet-stream'',
      ''application/pdf'', ''application/gzip'', ''application/zip'', ''application/xml'', ''text/csv'']"

definition transfer_encoding :: "string list" where
  "transfer_encoding = [''8bit'', ''base64'', ''quoted-printable'']"

abbreviation (input) "SMTP_ATTACH_CONTENT_TYPE_PLAIN \<equiv> (0 :: nat)"
abbreviation (input) "SMTP_ATTACH_CONTENT_TYPE_HTML \<equiv> (1 :: nat)"
abbreviation (input) "SMTP_ATTACH_CONTENT_TYPE_PNG \<equiv> (2 :: nat)"
abbreviation (input) "SMTP_ATTACH_CONTENT_TYPE_JPG \<equiv> (3 :: nat)"
abbreviation (input) "SMTP_ATTACH_CONTENT_TYPE_GIF \<equiv> (4 :: nat)"
abbreviation (input) "SMTP_ATTACH_CONTENT_TYPE_OCTET \<equiv> (5 :: nat)"
abbreviation (input) "SMTP_ATTACH_CONTENT_TYPE_GZIP \<equiv> (7 :: nat)"
abbreviation (input) "SMTP_CONTENT_TRANSFER_ENCODING_8BIT \<equiv> (0 :: nat)"
abbreviation (input) "SMTP_CONTENT_TRANSFER_ENCODING_BASE64 \<equiv> (1 :: nat)"
abbreviation (input) "SMTP_CONTENT_TRANSFER_ENCODING_QUOTEDPRINT \<equiv> (2 :: nat)"
abbreviation (input) "SMTP_RCPT_TO \<equiv> (1 :: nat)"
abbreviation (input) "SMTP_RCPT_CC \<equiv> (2 :: nat)"
abbreviation (input) "SMTP_RCPT_BCC \<equiv> (3 :: nat)"

definition smtp_get_mime :: "nat \<Rightarrow> string option" where
  "smtp_get_mime type = (if length attach_mime_types \<le> type then None else Some (attach_mime_types ! type))"

definition smtp_get_transfer_encoding :: "nat \<Rightarrow> string option" where
  "smtp_get_transfer_encoding type =
     (if length transfer_encoding \<le> type then None else Some (transfer_encoding ! type))"

section \<open>Rows\<close>

text \<open>The text with a line end after \<open>width\<close> bytes; \<open>w\<close> is the width of the current row.\<close>

function rows_loop :: "nat \<Rightarrow> nat \<Rightarrow> string \<Rightarrow> string" where
  "rows_loop width w [] = []"
| "rows_loop width w (c # pin) =
     (case (if c = CR \<and> pin \<noteq> [] \<and> hd pin = LF then ([CR, LF], tl pin, 0)
            else if c = LF then ([CR, LF], pin, 0)
            else ([c], pin, w + 1)) of (o', pin', w') \<Rightarrow>
        if w' = width then o' @ [CR, LF] @ rows_loop width 0 pin' else o' @ rows_loop width w' pin')"
  by pat_completeness auto
termination
  by (relation "measure (\<lambda>(width, w, pin). length pin)") (auto split: if_splits simp: less_Suc_eq_le)

text \<open>The size test counts one byte for the two of a line end. The last byte of the buffer has to stay zero.\<close>

definition split_in_rows :: "string \<Rightarrow> nat \<Rightarrow> nat \<Rightarrow> (string \<times> int) option" where
  "split_in_rows s maxlen width =
     (let n = length s in
      if maxlen \<le> n + n div width + 1 then Some ([], -1)
      else let out = rows_loop width 0 s in if length out < maxlen then Some (out, 0) else None)"

section \<open>Addresses\<close>

text \<open>
  A mail address into the quoted name and the address in angle brackets. The buffers have \<open>nsz\<close> and \<open>asz\<close>
  bytes, the sizes given to the function are \<open>maxnlen\<close> and \<open>maxalen\<close>. With an empty name the byte before the
  buffer is read.
\<close>

definition bare_mailaddr :: "string \<Rightarrow> nat \<Rightarrow> nat \<Rightarrow> (string \<times> string) option" where
  "bare_mailaddr mailaddr maxnlen maxalen =
     (let tmp = xstrtrim mailaddr in
      if CHR '' '' \<notin> set tmp \<and> CHR ''@'' \<in> set tmp then
        (let tmp2 = ''<'' @ tmp @ ''>'' in
         if maxalen < length tmp2 + 1 then None
         else Some (snprintf maxnlen (quoted_text tmp), fst (xstrlcpy tmp2 maxalen)))
      else None)"

definition quoted_name :: "string \<Rightarrow> nat \<Rightarrow> string option option" where
  "quoted_name name maxnlen =
     (if name = [] then None
      else if hd name \<noteq> DQ \<and> last name \<noteq> DQ then
        (if maxnlen < length (quoted_text name) + 1 then Some None
         else Some (Some (fst (xstrlcpy (quoted_text name) maxnlen))))
      else if \<not> (hd name = DQ \<and> last name = DQ) then Some None
      else Some (Some name))"

definition smtp_normalize_mailaddr ::
  "nat \<Rightarrow> nat \<Rightarrow> string \<Rightarrow> nat \<Rightarrow> nat \<Rightarrow> (string \<times> string) option option" where
  "smtp_normalize_mailaddr nsz asz mailaddr maxnlen maxalen =
     (let nlen = find_idx (\<lambda>c. c = CHR ''<'') mailaddr; left = drop nlen mailaddr; alen = length left in
      if left = [] \<or> CHR ''>'' \<notin> set mailaddr then Some (bare_mailaddr mailaddr maxnlen maxalen)
      else if maxnlen < nlen \<or> maxalen < alen then Some None
      else if nsz \<le> nlen then None
      else case quoted_name (xstrtrim (take nlen mailaddr)) maxnlen of
        None \<Rightarrow> None
      | Some None \<Rightarrow> Some None
      | Some (Some name) \<Rightarrow> if asz \<le> alen then None else Some (Some (name, xstrtrim left)))"

section \<open>Recipients\<close>

text \<open>One list of recipients and the same as one text.\<close>

definition add_to_list :: "string \<Rightarrow> string list \<Rightarrow> string option \<Rightarrow> (string list \<times> string option) option" where
  "add_to_list email_full xs concatenated =
     (if MAX_RCPT \<le> length xs then None
      else let c = (case concatenated of None \<Rightarrow> [] | Some c \<Rightarrow> c);
               c = (if c \<noteq> [] then fst (xstrlcat c '','' MAX_HEADER_ADDR_SIZE) else c)
           in Some (xs @ [email_full], Some (fst (xstrlcat c email_full MAX_HEADER_ADDR_SIZE))))"

definition add_one_rcpt :: "nat \<Rightarrow> string \<Rightarrow> smtp_handle \<Rightarrow> smtp_handle option" where
  "add_one_rcpt type email_full h =
     (if type = SMTP_RCPT_TO then
        map_option (\<lambda>(xs, c). h\<lparr>sh_to := xs, sh_to_concatenated := c\<rparr>) (add_to_list email_full (sh_to h) (sh_to_concatenated h))
      else if type = SMTP_RCPT_CC then
        map_option (\<lambda>(xs, c). h\<lparr>sh_cc := xs, sh_cc_concatenated := c\<rparr>) (add_to_list email_full (sh_cc h) (sh_cc_concatenated h))
      else if type = SMTP_RCPT_BCC then
        map_option (\<lambda>(xs, c). h\<lparr>sh_bcc := xs, sh_bcc_concatenated := c\<rparr>) (add_to_list email_full (sh_bcc h) (sh_bcc_concatenated h))
      else Some h)"

fun add_rcpts :: "nat \<Rightarrow> string list \<Rightarrow> smtp_handle \<Rightarrow> (smtp_handle \<times> int) option" where
  "add_rcpts type [] h = Some (h, 0)"
| "add_rcpts type (f # fs) h =
     (if f = [] then Some (h, -1)
      else case smtp_normalize_mailaddr 127 127 f 126 126 of
        None \<Rightarrow> None
      | Some None \<Rightarrow> Some (h, -1)
      | Some (Some (name, addr)) \<Rightarrow>
          (case add_one_rcpt type (snprintf 255 (name @ '' '' @ addr)) h of
             None \<Rightarrow> Some (h, -1)
           | Some h' \<Rightarrow> add_rcpts type fs h'))"

definition smtp_add_rcpt :: "smtp_handle \<Rightarrow> nat \<Rightarrow> string \<Rightarrow> (smtp_handle \<times> int) option" where
  "smtp_add_rcpt h type rcpt =
     (case xstrsplitfields rcpt (CHR '','') of (rc, fld) \<Rightarrow>
        if rc = -1 then Some (h, -1) else add_rcpts type fld h)"

section \<open>Texts and attachments\<close>

definition smtp_add_plain :: "smtp_handle \<Rightarrow> string \<Rightarrow> smtp_handle \<times> int" where
  "smtp_add_plain h buffer =
     (if sh_plain h \<noteq> None \<or> sh_html h \<noteq> None then (h, -1) else (h\<lparr>sh_plain := Some buffer\<rparr>, 0))"

definition smtp_add_html :: "smtp_handle \<Rightarrow> string option \<Rightarrow> string option \<Rightarrow> smtp_handle \<times> int" where
  "smtp_add_html h buffer altbuffer =
     (if sh_plain h \<noteq> None \<or> sh_html h \<noteq> None then (h, -1)
      else case buffer of
        None \<Rightarrow> (h, -1)
      | Some b \<Rightarrow>
          if b = [] then (h, -1)
          else case altbuffer of
            None \<Rightarrow> (h\<lparr>sh_html := buffer\<rparr>, 0)
          | Some a \<Rightarrow> if a = [] then (h\<lparr>sh_html := buffer\<rparr>, 0) else (h\<lparr>sh_html := buffer, sh_plain := altbuffer\<rparr>, 0))"

abbreviation u8_of :: "char \<Rightarrow> u8" where "u8_of c \<equiv> word_of_nat (byte c)"

text \<open>The coded contents; \<open>Some None\<close> is the return code -1. \<open>data\<close> has \<open>len\<close> bytes and a zero after them.\<close>

definition encode_attachment :: "char list \<Rightarrow> nat \<Rightarrow> string option option" where
  "encode_attachment data encoding =
     (let len = length data in
      if encoding = SMTP_CONTENT_TRANSFER_ENCODING_BASE64 then
        (case base64encode (map u8_of data) (2 * len) of
           None \<Rightarrow> None
         | Some (bdata, rc) \<Rightarrow>
             if rc = -1 then Some None
             else case split_in_rows bdata (2 * len + (len div 76) * 2 + 3) 76 of
               None \<Rightarrow> None
             | Some (bsdata, rc) \<Rightarrow> Some (if rc = -1 then None else Some bsdata))
      else if encoding = SMTP_CONTENT_TRANSFER_ENCODING_QUOTEDPRINT then
        (case qprint_encode (c_string data) (3 * len) of
           None \<Rightarrow> None
         | Some (bdata, rc) \<Rightarrow> Some (if rc = -1 then None else Some bdata))
      else if encoding = SMTP_CONTENT_TRANSFER_ENCODING_8BIT then Some (Some (c_string data))
      else Some None)"

text \<open>An unknown content type is a null pointer given to \<open>snprintf\<close>.\<close>

definition smtp_add_attachment ::
  "smtp_handle \<Rightarrow> string \<Rightarrow> string \<Rightarrow> char list \<Rightarrow> nat \<Rightarrow> nat \<Rightarrow> (smtp_handle \<times> int) option" where
  "smtp_add_attachment h fname name data contenttype encoding =
     (case encode_attachment data encoding of
        None \<Rightarrow> None
      | Some None \<Rightarrow> Some (h, -1)
      | Some (Some d) \<Rightarrow>
          (case (smtp_get_mime contenttype, smtp_get_transfer_encoding encoding) of
             (Some mime, Some enc) \<Rightarrow>
               let ctype = (if contenttype = SMTP_ATTACH_CONTENT_TYPE_PLAIN \<or> contenttype = SMTP_ATTACH_CONTENT_TYPE_HTML
                            then snprintf 255 (mime @ ''; charset='' @ quoted_text CHARSET)
                            else snprintf 255 (mime @ ''; name='' @ quoted_text name));
                   a = \<lparr>at_data = d, at_contenttype = ctype, at_contenttransferencoding = snprintf 255 enc,
                        at_contentdisposition = ''attachment'', at_filename = fname, at_name = name, at_cid = None\<rparr>
               in if length (sh_attachment h) < MAX_ATTACHMENTS
                  then Some (h\<lparr>sh_attachment := sh_attachment h @ [a]\<rparr>, 0) else None
           | _ \<Rightarrow> None))"

text \<open>
  The file system is an argument: for a file name \<open>None\<close> when the file cannot be opened or inspected, otherwise its size and
  the bytes read. \<open>basename\<close> is the text after the last slash.
\<close>

type_synonym files = "string \<Rightarrow> (nat \<times> char list) option"

definition basename :: "string \<Rightarrow> string" where
  "basename path = rev (takeWhile (\<lambda>c. c \<noteq> CHR ''/'') (rev path))"

definition smtp_add_attachment_fromfile ::
  "files \<Rightarrow> smtp_handle \<Rightarrow> string \<Rightarrow> nat \<Rightarrow> nat \<Rightarrow> (smtp_handle \<times> int) option" where
  "smtp_add_attachment_fromfile fs h fname contenttype encoding =
     (case fs fname of
        None \<Rightarrow> Some (h, -1)
      | Some (st_size, bytes) \<Rightarrow>
          if length bytes \<noteq> st_size then Some (h, -1)
          else smtp_add_attachment h (basename fname) (basename fname) bytes contenttype encoding)"

definition get_imagecontenttype_from_string :: "string \<Rightarrow> nat option" where
  "get_imagecontenttype_from_string imageformat =
     (if strcasecmp imageformat ''jpg'' = 0 \<or> strcasecmp imageformat ''jpeg'' = 0 then Some SMTP_ATTACH_CONTENT_TYPE_JPG
      else if strcasecmp imageformat ''png'' = 0 then Some SMTP_ATTACH_CONTENT_TYPE_PNG
      else if strcasecmp imageformat ''gif'' = 0 then Some SMTP_ATTACH_CONTENT_TYPE_GIF
      else None)"

definition set_last_cid :: "string \<Rightarrow> smtp_handle \<Rightarrow> smtp_handle" where
  "set_last_cid cid h =
     h\<lparr>sh_attachment := (sh_attachment h)
        [length (sh_attachment h) - 1 := (last (sh_attachment h))\<lparr>at_cid := Some cid\<rparr>]\<rparr>"

text \<open>
  The extension: from the end backwards to a full stop, at most five steps and not to the first byte. With
  four characters the copy is not terminated; with an empty file name the index wraps around.
\<close>

fun scan_ext :: "nat \<Rightarrow> nat \<Rightarrow> string \<Rightarrow> nat \<times> nat" where
  "scan_ext cnt n fname =
     (if cnt < 5 \<and> n > 0 \<and> fname ! n \<noteq> CHR ''.'' then scan_ext (cnt + 1) (n - 1) fname else (cnt, n))"

definition file_ext :: "string \<Rightarrow> string option option" where
  "file_ext fname =
     (if fname = [] then None
      else case scan_ext 0 (length fname - 1) fname of (cnt, n) \<Rightarrow>
        if cnt < 5 \<and> n > 0 \<and> fname ! n = CHR ''.'' then
          (let e = drop (n + 1) fname in if 4 \<le> length e then None else Some (Some e))
        else Some None)"

definition smtp_add_attachment_inlineimage ::
  "files \<Rightarrow> smtp_handle \<Rightarrow> string \<Rightarrow> string \<Rightarrow> (smtp_handle \<times> int) option" where
  "smtp_add_attachment_inlineimage fs h fname cid =
     (case file_ext fname of
        None \<Rightarrow> None
      | Some None \<Rightarrow> Some (h, -1)
      | Some (Some ebuff) \<Rightarrow>
          (case get_imagecontenttype_from_string ebuff of
             None \<Rightarrow> Some (h, -1)
           | Some contenttype \<Rightarrow>
               (case smtp_add_attachment_fromfile fs h fname contenttype SMTP_CONTENT_TRANSFER_ENCODING_BASE64 of
                  None \<Rightarrow> None
                | Some (h', rc) \<Rightarrow> if rc = -1 then Some (h', -1) else Some (set_last_cid cid h', 0))))"

definition smtp_add_attachment_inlineimage_buffer ::
  "smtp_handle \<Rightarrow> string \<Rightarrow> char list \<Rightarrow> string \<Rightarrow> string \<Rightarrow> (smtp_handle \<times> int) option" where
  "smtp_add_attachment_inlineimage_buffer h imgfilename imagedata imgformat cid =
     (case get_imagecontenttype_from_string imgformat of
        None \<Rightarrow> Some (h, -1)
      | Some contenttype \<Rightarrow>
          (case smtp_add_attachment h imgfilename imgfilename imagedata contenttype SMTP_CONTENT_TRANSFER_ENCODING_BASE64 of
             None \<Rightarrow> None
           | Some (h', rc) \<Rightarrow> if rc = -1 then Some (h', -1) else Some (set_last_cid cid h', 0)))"

definition smtp_add_attachment_gzip :: "files \<Rightarrow> smtp_handle \<Rightarrow> string \<Rightarrow> (smtp_handle \<times> int) option" where
  "smtp_add_attachment_gzip fs h fname =
     smtp_add_attachment_fromfile fs h fname SMTP_ATTACH_CONTENT_TYPE_GZIP SMTP_CONTENT_TRANSFER_ENCODING_BASE64"

definition smtp_add_attachment_binary :: "files \<Rightarrow> smtp_handle \<Rightarrow> string \<Rightarrow> (smtp_handle \<times> int) option" where
  "smtp_add_attachment_binary fs h fname =
     smtp_add_attachment_fromfile fs h fname SMTP_ATTACH_CONTENT_TYPE_OCTET SMTP_CONTENT_TRANSFER_ENCODING_BASE64"

declare scan_ext.simps [simp del]

section \<open>Rows of a coded text\<close>










section \<open>The lists of recipients\<close>

definition rcpt_list_ok :: "string list \<Rightarrow> string option \<Rightarrow> bool" where
  "rcpt_list_ok xs c \<longleftrightarrow> length xs \<le> MAX_RCPT \<and> (\<forall>t. c = Some t \<longrightarrow> length t < MAX_HEADER_ADDR_SIZE)"

definition rcpts_ok :: "smtp_handle \<Rightarrow> bool" where
  "rcpts_ok h \<longleftrightarrow> rcpt_list_ok (sh_to h) (sh_to_concatenated h) \<and> rcpt_list_ok (sh_cc h) (sh_cc_concatenated h) \<and>
     rcpt_list_ok (sh_bcc h) (sh_bcc_concatenated h)"

lemma xstrlcat_bounded: "length dst < sz \<Longrightarrow> length (fst (xstrlcat dst src sz)) < sz"
  by (simp add: xstrlcat_eq)

lemma add_to_list_ok:
  assumes "add_to_list e xs c = Some (xs', c')" and "rcpt_list_ok xs c"
  shows "rcpt_list_ok xs' c'"
proof -
  let ?c = "case c of None \<Rightarrow> [] | Some c \<Rightarrow> c"
  have "length ?c < MAX_HEADER_ADDR_SIZE"
    using assms(2) by (auto simp: rcpt_list_ok_def MAX_HEADER_ADDR_SIZE_def split: option.splits)
  then show ?thesis
    using assms by (auto simp: add_to_list_def rcpt_list_ok_def Let_def xstrlcat_bounded split: if_splits)
qed

lemma add_one_rcpt_ok: "add_one_rcpt type e h = Some h' \<Longrightarrow> rcpts_ok h \<Longrightarrow> rcpts_ok h'"
  by (auto simp: add_one_rcpt_def rcpts_ok_def split: if_splits dest: add_to_list_ok)

lemma add_rcpts_ok: "add_rcpts type fs h = Some (h', rc) \<Longrightarrow> rcpts_ok h \<Longrightarrow> rcpts_ok h'"
proof (induction fs arbitrary: h)
  case (Cons f fs)
  have "h' = h \<or> (\<exists>e x. add_one_rcpt type e h = Some x \<and> add_rcpts type fs x = Some (h', rc))"
    using Cons.prems(1) by (auto split: if_splits option.splits)
  then show ?case using add_one_rcpt_ok Cons.IH Cons.prems(2) by blast
qed simp

section \<open>Properties\<close>



text \<open>
  Small attachments. A file of two or of four bytes overruns the buffer allocated for its base64 text, and a file of
  no, one or three bytes is refused.
\<close>

theorem small_attachments:
  "(length data \<in> {2, 4} \<longrightarrow> encode_attachment data SMTP_CONTENT_TRANSFER_ENCODING_BASE64 = None) \<and>
   (length data \<in> {0, 1, 3} \<longrightarrow> encode_attachment data SMTP_CONTENT_TRANSFER_ENCODING_BASE64 = Some None)"
  by (auto simp: encode_attachment_def base64encode_def to_int32_id length_encode_groups)

theorem small_attachments_witness:
  "encode_attachment ''ab'' SMTP_CONTENT_TRANSFER_ENCODING_BASE64 = None \<and>
   encode_attachment ''a'' SMTP_CONTENT_TRANSFER_ENCODING_BASE64 = Some None"
  using small_attachments [of "''ab''"] small_attachments [of "''a''"] by simp

text \<open>
  The lists of recipients stay within their arrays and texts: adding recipients of any kind, given by any
  text and whether it succeeds or not, keeps at most 50 entries in every list and less than 2048 bytes in the
  header text made of it.
\<close>

theorem recipients_bounded:
  assumes "rcpts_ok h" and "smtp_add_rcpt h type rcpt = Some (h', rc)"
  shows "rcpts_ok h'"
  using assms by (auto simp: smtp_add_rcpt_def split: prod.splits if_splits dest: add_rcpts_ok)

theorem recipients_bounded_witness:
  "rcpts_ok (new_handle\<lparr>sh_to := [quoted_text ''a@b'' @ '' <a@b>''], sh_to_concatenated := Some (quoted_text ''a@b'' @ '' <a@b>'')\<rparr>)"
proof (rule recipients_bounded)
  show "rcpts_ok new_handle" by (simp add: new_handle_def rcpts_ok_def rcpt_list_ok_def)
  show "smtp_add_rcpt new_handle SMTP_RCPT_TO ''a@b'' =
      Some (new_handle\<lparr>sh_to := [quoted_text ''a@b'' @ '' <a@b>''], sh_to_concatenated := Some (quoted_text ''a@b'' @ '' <a@b>'')\<rparr>, 0)"
    by code_simp
qed

end
