(* ===== verification/Smtp.thy ===== *)
theory Smtp
  imports Mail_Compose
begin

text \<open>
  The second half of the mail client \<^verbatim>\<open>libsmtpmail/mailclientlib.c\<close>: the replies of the server, the login and
  the dialogue that sends a mail. The server is an argument: for the list of all texts sent so far it
  gives whether the last one was written completely and what the next read returns. So a model run is
  determined by the server, and the result always carries the transcript of what was sent. Time, host name and
  random numbers are arguments too.
\<close>

section \<open>Replies\<close>

datatype recv = R_timeout | R_error | R_data "char list"

type_synonym server = "string list \<Rightarrow> bool \<times> recv"

text \<open>
  The buffer has 2048 bytes and is zeroed; a zero is written after what was received, outside of the buffer when
  it has been filled.
\<close>

definition read_sock_timeout :: "recv \<Rightarrow> (int \<times> char list) option" where
  "read_sock_timeout r =
     (case r of
        R_timeout \<Rightarrow> Some (-1, [])
      | R_error \<Rightarrow> Some (-2, [])
      | R_data d \<Rightarrow> if 2048 \<le> length d then None else Some (0, d @ replicate (2048 - length d) NUL))"

text \<open>
  The three digits of a status code, tested from left to right. In the results here and below \<open>None\<close> is a read
  outside the buffer and \<open>Some None\<close> the return code -1.
\<close>

fun read_status :: "char list \<Rightarrow> (nat \<times> char list) option option" where
  "read_status (c1 # c2 # c3 # p) =
     (if is_digit c1 \<and> is_digit c2 \<and> is_digit c3
      then Some (Some ((byte c1 - 48) * 100 + (byte c2 - 48) * 10 + (byte c3 - 48), p)) else Some None)"
| "read_status p = (if list_all is_digit p then None else Some None)"

text \<open>The text of a line up to the line end, in a buffer of \<open>n\<close> bytes.\<close>

fun scan_line :: "nat \<Rightarrow> char list \<Rightarrow> (string \<times> char list) option option" where
  "scan_line 0 p = Some None"
| "scan_line (Suc n) [] = None"
| "scan_line (Suc n) (c # p) =
     (if c = CR \<or> c = LF then Some (Some ([], c # p))
      else map_option (map_option (\<lambda>(t, r). (c # t, r))) (scan_line n p))"

definition line_end :: "char list \<Rightarrow> char list option option" where
  "line_end r =
     (case r of [] \<Rightarrow> None
      | c1 # r1 \<Rightarrow> if c1 \<noteq> CR then Some None else case r1 of [] \<Rightarrow> None | c2 # r2 \<Rightarrow> Some (if c2 = LF then Some r2 else None))"

text \<open>One line: status, whether it is the last one, text, and the rest.\<close>

definition reply_line :: "char list \<Rightarrow> (nat \<times> bool \<times> string \<times> char list) option option" where
  "reply_line p =
     (case read_status p of
        None \<Rightarrow> None
      | Some None \<Rightarrow> Some None
      | Some (Some (status, q)) \<Rightarrow>
          (case q of
             [] \<Rightarrow> None
           | sep # q' \<Rightarrow>
               (case scan_line 255 q' of
                  None \<Rightarrow> None
                | Some None \<Rightarrow> Some None
                | Some (Some (t, r)) \<Rightarrow>
                    map_option (map_option (\<lambda>r'. (status, sep = CHR '' '', c_string t, r'))) (line_end r))))"

fun smtp_split_reply :: "nat \<Rightarrow> char list \<Rightarrow> smtp_reply list option option" where
  "smtp_split_reply 0 p = Some None"
| "smtp_split_reply (Suc k) p =
     (case reply_line p of
        None \<Rightarrow> None
      | Some None \<Rightarrow> Some None
      | Some (Some (status, lastline, t, r)) \<Rightarrow>
          if lastline then Some (Some [(status, t)])
          else map_option (map_option (Cons (status, t))) (smtp_split_reply k r))"

section \<open>Commands\<close>

text \<open>The transcript and the reply, \<open>None\<close> for the return code -1.\<close>

definition smtp_send_command ::
  "server \<Rightarrow> string list \<Rightarrow> string \<Rightarrow> string \<Rightarrow> nat \<Rightarrow> (string list \<times> smtp_reply list option) option" where
  "smtp_send_command srv sent cmd arg n =
     (let sent = sent @ [snprintf 255 (cmd @ arg @ [CR, LF])] in
      case srv sent of (ok, r) \<Rightarrow>
        if \<not> ok then Some (sent, None)
        else case read_sock_timeout r of
          None \<Rightarrow> None
        | Some (rc, buffer) \<Rightarrow>
            if rc \<noteq> 0 then Some (sent, None)
            else case smtp_split_reply n buffer of
              None \<Rightarrow> None
            | Some None \<Rightarrow> Some (sent, None)
            | Some (Some rs) \<Rightarrow> Some (sent, if fst (hd rs) = 502 then None else Some rs))"

definition sendchk :: "server \<Rightarrow> string list \<Rightarrow> string \<Rightarrow> string \<Rightarrow> nat \<Rightarrow> (string list \<times> bool) option" where
  "sendchk srv sent cmd arg expected =
     (case smtp_send_command srv sent cmd arg 1 of
        None \<Rightarrow> None
      | Some (sent, None) \<Rightarrow> Some (sent, False)
      | Some (sent, Some rs) \<Rightarrow> Some (sent, fst (hd rs) = expected))"

definition senddata :: "server \<Rightarrow> string list \<Rightarrow> string option \<Rightarrow> string option \<Rightarrow> string list \<times> bool" where
  "senddata srv sent cmd arg =
     (case (cmd, arg) of
        (Some c, Some a) \<Rightarrow> let sent = sent @ [c @ a @ [CR, LF]] in (sent, fst (srv sent))
      | _ \<Rightarrow> (sent, False))"

definition smtp_features :: "string list" where
  "smtp_features =
     [''PIPELINING'', ''8BITMIME'', ''AUTH PLAIN LOGIN'', ''VRFY'', ''ETRN'', ''ENHANCEDSTATUSCODES'', ''DSN'']"

definition smtp_server_support :: "smtp_handle \<Rightarrow> nat \<Rightarrow> int" where
  "smtp_server_support h feature =
     (if length smtp_features \<le> feature then -1
      else let f = smtp_features ! feature in if list_ex (\<lambda>(_, s). take (length f) s = f) (sh_cap h) then 1 else 0)"

section \<open>The text of a mail\<close>

definition mail_boundary :: "string \<Rightarrow> string \<Rightarrow> string" where
  "mail_boundary rnd hname = snprintf 255 (''_'' @ rnd @ hname @ ''_'')"

abbreviation crlf :: string where "crlf \<equiv> [CR, LF]"

definition text_part :: "string \<Rightarrow> string \<Rightarrow> string \<Rightarrow> string" where
  "text_part bnd subtype txt =
     ''--'' @ bnd @ crlf @
     ''Content-Transfer-Encoding: 8bit'' @ crlf @
     ''Content-Type: text/'' @ subtype @ ''; charset='' @ quoted_text CHARSET @ crlf @ crlf @ txt @ crlf"

definition multipart_type :: "string \<Rightarrow> string \<Rightarrow> string" where
  "multipart_type kind bnd =
     snprintf 1024 (''Content-Type: multipart/'' @ kind @ ''; boundary='' @ quoted_text bnd)"

definition attachment_part :: "string \<Rightarrow> smtp_attachment \<Rightarrow> string" where
  "attachment_part bnd a =
     snprintf (length (at_data a) + 1024)
       (''--'' @ bnd @ crlf @
        ''Content-Transfer-Encoding: '' @ at_contenttransferencoding a @ crlf @
        ''Content-Type: '' @ at_contenttype a @ crlf @
        (case at_cid a of
           Some cid \<Rightarrow> ''Content-ID: <'' @ cid @ ''>'' @ crlf @ ''X-Attachment-Id: '' @ cid @ crlf
         | None \<Rightarrow> ''Content-Disposition: '' @ at_contentdisposition a @ ''; filename='' @ quoted_text (at_filename a) @ crlf) @
        crlf @ at_data a @ crlf)"

text \<open>
  A part that does not fit in the buffer is left out by \<open>xstrlcat\<close>. An image with an identifier makes the
  whole mail of type \<^verbatim>\<open>related\<close>.
\<close>

fun add_parts :: "string \<Rightarrow> nat \<Rightarrow> smtp_attachment list \<Rightarrow> string \<times> string \<Rightarrow> string \<times> string" where
  "add_parts bnd databufflen [] (ctype, buf) = (ctype, buf)"
| "add_parts bnd databufflen (a # as) (ctype, buf) =
     add_parts bnd databufflen as
       (if at_cid a \<noteq> None then multipart_type ''related'' bnd else ctype,
        fst (xstrlcat buf (attachment_part bnd a) databufflen))"

definition alternative_text :: "string \<Rightarrow> string \<Rightarrow> string \<Rightarrow> string" where
  "alternative_text bnd plain html =
     text_part bnd ''plain'' plain @ text_part bnd ''html'' html @ ''--'' @ bnd @ ''--'' @ crlf"

definition attachment_text :: "string \<Rightarrow> smtp_handle \<Rightarrow> string \<Rightarrow> nat \<Rightarrow> smtp_handle" where
  "attachment_text bnd h start databufflen =
     (case add_parts bnd databufflen (sh_attachment h)
             (multipart_type ''mixed'' bnd, snprintf databufflen start) of (ctype, buf) \<Rightarrow>
        h\<lparr>sh_contenttype := Some ctype,
          sh_databuff := Some (fst (xstrlcat buf (snprintf 512 (''--'' @ bnd @ ''--'' @ crlf)) databufflen))\<rparr>)"

text \<open>
  The handle with content type and text, and whether there is a text to send; \<open>None\<close> is the length of a null
  pointer.
\<close>

definition compose_text :: "string \<Rightarrow> string \<Rightarrow> smtp_handle \<Rightarrow> (smtp_handle \<times> bool) option" where
  "compose_text b1 b2 h =
     (if sh_attachment h = [] then
        (case (sh_html h, sh_plain h) of
           (None, None) \<Rightarrow> Some (h, False)
         | (None, Some plain) \<Rightarrow>
             if plain = [] then Some (h, False)
             else Some (h\<lparr>sh_contenttransferencoding := Some ''Content-Transfer-Encoding: 8bit'',
                    sh_contenttype := Some (snprintf 128 (''Content-Type: text/plain; charset='' @ quoted_text CHARSET)),
                    sh_databuff := Some (snprintf (length plain + 512) plain)\<rparr>, True)
         | (Some html, p) \<Rightarrow>
             if html = [] then Some (h, False)
             else case p of
               None \<Rightarrow> None
             | Some plain \<Rightarrow>
                 Some (h\<lparr>sh_contenttype := Some (multipart_type ''alternative'' b1),
                    sh_databuff := Some (snprintf (length html + length plain + 512) (alternative_text b1 plain html))\<rparr>, True))
      else
        let adbsize = sum_list (map (\<lambda>a. length (at_data a) + 256) (sh_attachment h)) in
        (case (sh_plain h, sh_html h) of
           (Some plain, None) \<Rightarrow>
             Some (attachment_text b1 h (text_part b1 ''plain'' plain) (length plain + adbsize + 512), True)
         | (Some plain, Some html) \<Rightarrow>
             Some (attachment_text b1 h
               (''--'' @ b1 @ crlf @ ''Content-Type: multipart/alternative; boundary='' @ quoted_text b2 @ crlf @ crlf @
                alternative_text b2 plain html)
               (length html + length plain + adbsize + 512), True)
         | (None, _) \<Rightarrow> Some (h\<lparr>sh_contenttype := Some (multipart_type ''mixed'' b1)\<rparr>, False)))"

section \<open>Sending\<close>

text \<open>
  The calls that send a mail, each with an early return when it fails: a command with a mail address,
  a command, a line of data.
\<close>

datatype mail_step =
  S_addr string string
| S_chk string nat
| S_data "string option" "string option"

definition run_step :: "server \<Rightarrow> string list \<Rightarrow> mail_step \<Rightarrow> (string list \<times> bool) option" where
  "run_step srv sent st =
     (case st of
        S_addr cmd mailaddr \<Rightarrow>
          (case smtp_normalize_mailaddr 256 256 mailaddr 256 256 of
             None \<Rightarrow> None
           | Some None \<Rightarrow> Some (sent, False)
           | Some (Some (_, addr)) \<Rightarrow> sendchk srv sent cmd addr 250)
      | S_chk cmd expected \<Rightarrow> sendchk srv sent cmd [] expected
      | S_data cmd arg \<Rightarrow> Some (senddata srv sent cmd arg))"

fun run_steps :: "server \<Rightarrow> string list \<Rightarrow> mail_step list \<Rightarrow> (string list \<times> bool) option" where
  "run_steps srv sent [] = Some (sent, True)"
| "run_steps srv sent (st # sts) =
     (case run_step srv sent st of
        None \<Rightarrow> None
      | Some (sent, ok) \<Rightarrow> if ok then run_steps srv sent sts else Some (sent, False))"

definition envelope_steps :: "smtp_handle \<Rightarrow> string \<Rightarrow> mail_step list" where
  "envelope_steps h from_addr =
     S_addr ''MAIL FROM: '' from_addr # map (S_addr ''RCPT TO: '') (sh_to h) @ map (S_addr ''RCPT TO: '') (sh_cc h) @
     map (S_addr ''RCPT TO: '') (sh_bcc h)"

definition data_steps :: "smtp_handle \<Rightarrow> mail_step list" where
  "data_steps h =
     [S_data (Some ''Date: '') (sh_date h), S_data (Some ''From: '') (sh_from h), S_data (Some ''To: '') (sh_to_concatenated h)] @
     (case sh_cc_concatenated h of Some cc \<Rightarrow> if cc \<noteq> [] then [S_data (Some ''Cc: '') (Some cc)] else [] | None \<Rightarrow> []) @
     [S_data (Some ''Subject: '') (sh_subject h), S_data (Some ''MIME-Version: '') (sh_mimeversion h),
      S_data (sh_contenttype h) (Some [])] @
     (if sh_contenttransferencoding h \<noteq> None then [S_data (sh_contenttransferencoding h) (Some [])] else []) @
     [S_data (Some crlf) (Some []), S_data (sh_databuff h) (Some [])]"

definition mail_steps :: "smtp_handle \<Rightarrow> string \<Rightarrow> mail_step list" where
  "mail_steps h from_addr =
     envelope_steps h from_addr @ S_chk ''DATA'' 354 # data_steps h @ [S_chk ''.'' 250, S_chk ''QUIT'' 221]"

record mail_env =
  me_date :: "string option"
  me_hname :: string
  me_rand1 :: string
  me_rand2 :: string

text \<open>The result of \<open>qprint_encode_word\<close> is not looked at.\<close>

definition smtp_sendmail ::
  "mail_env \<Rightarrow> server \<Rightarrow> string list \<Rightarrow> smtp_handle \<Rightarrow> string \<Rightarrow> string \<Rightarrow> (string list \<times> smtp_handle \<times> int) option" where
  "smtp_sendmail en srv sent h from_addr subject =
     (if sh_to_concatenated h = None \<or> sh_to_concatenated h = Some [] then Some (sent, h, -1)
      else let h = h\<lparr>sh_from := Some from_addr, sh_returnpath := Some from_addr, sh_date := me_date en\<rparr> in
        if me_date en = None then Some (sent, h, -1)
        else case qprint_encode_word subject 1024 of
          None \<Rightarrow> None
        | Some (buff, _) \<Rightarrow>
            (case compose_text (mail_boundary (me_rand1 en) (me_hname en)) (mail_boundary (me_rand2 en) (me_hname en))
                    (h\<lparr>sh_subject := Some buff\<rparr>) of
               None \<Rightarrow> None
             | Some (h, composed) \<Rightarrow>
                 if \<not> composed then Some (sent, h\<lparr>sh_subject := None\<rparr>, -1)
                 else map_option (\<lambda>(sent, ok). (sent, h, if ok then 0 else -1))
                        (run_steps srv sent (mail_steps h from_addr))))"

section \<open>Login\<close>

text \<open>
  \<open>greeting\<close> is what the first read gives, \<open>None\<close> when the name cannot be resolved or no connection is made. The inner
  \<open>None\<close> of the results is a null handle.
\<close>

definition smtp_connect :: "recv option \<Rightarrow> smtp_handle option option" where
  "smtp_connect greeting =
     (case greeting of
        None \<Rightarrow> Some None
      | Some r \<Rightarrow>
          (case read_sock_timeout r of
             None \<Rightarrow> None
           | Some (rc, buffer) \<Rightarrow>
               if rc \<noteq> 0 then Some None
               else case smtp_split_reply 128 buffer of
                 None \<Rightarrow> None
               | Some None \<Rightarrow> Some None
               | Some (Some rs) \<Rightarrow> Some (if length rs = 1 then Some (new_handle\<lparr>sh_cap := rs\<rparr>) else None)))"

definition strstr :: "string \<Rightarrow> string \<Rightarrow> bool" where
  "strstr hay needle = list_ex (\<lambda>i. take (length needle) (drop i hay) = needle) [0..<Suc (length hay)]"

text \<open>The last line with \<^verbatim>\<open>AUTH\<close> decides.\<close>

definition auth_methods :: "smtp_reply list \<Rightarrow> bool \<times> bool" where
  "auth_methods cap =
     fold (\<lambda>(_, s) m. if strstr s ''AUTH '' then (strstr s ''PLAIN'', strstr s ''LOGIN'') else m) cap (False, False)"

text \<open>
  A coded text that did not fit its buffer was not written, which \<open>base64encode\<close> reports and the caller does not
  look at: using it is undefined.
\<close>

definition coded :: "string \<Rightarrow> nat \<Rightarrow> string option option" where
  "coded s maxlen = map_option (\<lambda>(t, rc). if rc = 0 then Some t else None) (base64encode (map u8_of s) maxlen)"

text \<open>Sending one of the coded texts; the answer, or \<open>None\<close> when there is none.\<close>

definition send_coded :: "server \<Rightarrow> string list \<Rightarrow> string option \<Rightarrow> (string list \<times> smtp_reply list option) option" where
  "send_coded srv sent t = (case t of None \<Rightarrow> None | Some t \<Rightarrow> smtp_send_command srv sent t [] 1)"

definition answered :: "nat \<Rightarrow> smtp_reply list option \<Rightarrow> bool" where
  "answered status r = (case r of None \<Rightarrow> False | Some rs \<Rightarrow> fst (hd rs) = status)"

definition refused :: "nat \<Rightarrow> smtp_reply list option \<Rightarrow> bool" where
  "refused status r = (case r of None \<Rightarrow> False | Some rs \<Rightarrow> fst (hd rs) \<noteq> status)"

text \<open>The transcript, and whether the handle is kept.\<close>

definition auth_plain :: "server \<Rightarrow> string list \<Rightarrow> string option \<Rightarrow> (string list \<times> bool) option" where
  "auth_plain srv sent b64plain =
     (case smtp_send_command srv sent ''auth plain'' [] 1 of
        None \<Rightarrow> None
      | Some (sent, r) \<Rightarrow>
          if answered 334 r then map_option (\<lambda>(sent, r). (sent, \<not> refused 235 r)) (send_coded srv sent b64plain)
          else Some (sent, True))"

definition auth_login :: "server \<Rightarrow> string list \<Rightarrow> string option \<Rightarrow> string option \<Rightarrow> (string list \<times> bool) option" where
  "auth_login srv sent b64user b64pwd =
     (case smtp_send_command srv sent ''auth login'' [] 1 of
        None \<Rightarrow> None
      | Some (sent, r) \<Rightarrow>
          if answered 334 r then
            (case send_coded srv sent b64user of
               None \<Rightarrow> None
             | Some (sent, r) \<Rightarrow>
                 if answered 334 r then map_option (\<lambda>(sent, r). (sent, \<not> refused 235 r)) (send_coded srv sent b64pwd)
                 else Some (sent, True))
          else Some (sent, True))"

definition smtp_auth :: "server \<Rightarrow> string list \<Rightarrow> smtp_reply list \<Rightarrow> string \<Rightarrow> string \<Rightarrow> (string list \<times> bool) option" where
  "smtp_auth srv sent cap user pwd =
     (case (coded user 128, coded pwd 128) of
        (Some b64user, Some b64pwd) \<Rightarrow>
          if 255 < 2 * length user + length pwd + 3 then None
          else (case coded (user @ [NUL] @ user @ [NUL] @ pwd) 255 of
             None \<Rightarrow> None
           | Some b64plain \<Rightarrow>
               (case auth_methods cap of (capPlain, capLogin) \<Rightarrow>
                  if capPlain then auth_plain srv sent b64plain
                  else if capLogin then auth_login srv sent b64user b64pwd
                  else Some (sent, False)))
      | _ \<Rightarrow> None)"

definition smtp_setup ::
  "server \<Rightarrow> recv option \<Rightarrow> string option \<Rightarrow> string \<Rightarrow> string \<Rightarrow> int \<Rightarrow> (string list \<times> smtp_handle option) option" where
  "smtp_setup srv greeting hname user pwd port =
     (if 1023 < port then Some ([], None)
      else case smtp_connect greeting of
        None \<Rightarrow> None
      | Some None \<Rightarrow> Some ([], None)
      | Some (Some h) \<Rightarrow>
          (case hname of
             None \<Rightarrow> Some ([], None)
           | Some hname \<Rightarrow>
               (case smtp_send_command srv [] ''EHLO '' hname 63 of
                  None \<Rightarrow> None
                | Some (sent, None) \<Rightarrow> Some (sent, None)
                | Some (sent, Some rs) \<Rightarrow>
                    let h = h\<lparr>sh_cap := sh_cap h @ rs, sh_useragent := Some ''libsmtp mailer 1.0'', sh_mimeversion := Some ''1.0''\<rparr> in
                    if user \<noteq> [] \<and> pwd \<noteq> []
                    then map_option (\<lambda>(sent, ok). (sent, if ok then Some h else None)) (smtp_auth srv sent (sh_cap h) user pwd)
                    else Some (sent, Some h))))"

section \<open>A whole mail\<close>

text \<open>The return codes for the recipients and for the copies; the test of the second is inverted in the source.\<close>

definition add_all_rcpts :: "smtp_handle \<Rightarrow> string \<Rightarrow> string option \<Rightarrow> (smtp_handle \<times> int \<times> int) option" where
  "add_all_rcpts h to_addr cc =
     (case smtp_add_rcpt h SMTP_RCPT_TO to_addr of
        None \<Rightarrow> None
      | Some (h, rc) \<Rightarrow>
          if rc = -1 then Some (h, -1, 0)
          else if cc \<noteq> None \<and> cc \<noteq> Some []
          then map_option (\<lambda>(h, rc2). (h, 0, if rc2 \<noteq> -1 then -1 else 0)) (smtp_add_rcpt h SMTP_RCPT_CC (the cc))
          else Some (h, 0, 0))"

definition add_message :: "smtp_handle \<Rightarrow> string \<Rightarrow> bool \<Rightarrow> smtp_handle" where
  "add_message h msg isHTML =
     fst (if isHTML then smtp_add_html h (Some msg) None else smtp_add_plain h msg)"

definition smtp_simple_sendmail ::
  "mail_env \<Rightarrow> server \<Rightarrow> recv option \<Rightarrow> string \<Rightarrow> string \<Rightarrow> string \<Rightarrow> string \<Rightarrow> string \<Rightarrow> string option \<Rightarrow> string \<Rightarrow> bool
     \<Rightarrow> (string list \<times> int) option" where
  "smtp_simple_sendmail en srv greeting user pwd subject from_addr to_addr cc msg isHTML =
     (case smtp_setup srv greeting (Some (me_hname en)) user pwd (-1) of
        None \<Rightarrow> None
      | Some (sent, None) \<Rightarrow> Some (sent, -1)
      | Some (sent, Some h) \<Rightarrow>
          (case add_all_rcpts h to_addr cc of
             None \<Rightarrow> None
           | Some (h, rc, rc2) \<Rightarrow>
               if rc = -1 then Some (sent, 0)
               else if rc2 = -1 then Some (sent, -1)
               else map_option (\<lambda>(sent, _, _). (sent, 0)) (smtp_sendmail en srv sent (add_message h msg isHTML) from_addr subject)))"

definition smtp_simple_sendmail_with_fileattachment ::
  "mail_env \<Rightarrow> files \<Rightarrow> server \<Rightarrow> recv option \<Rightarrow> string \<Rightarrow> string \<Rightarrow> string \<Rightarrow> string \<Rightarrow> string \<Rightarrow> string option \<Rightarrow> string \<Rightarrow> bool
     \<Rightarrow> string \<Rightarrow> int \<Rightarrow> int \<Rightarrow> (string list \<times> int) option" where
  "smtp_simple_sendmail_with_fileattachment en fs srv greeting user pwd subject from_addr to_addr cc msg isHTML fname contenttype encoding =
     (case smtp_setup srv greeting (Some (me_hname en)) user pwd (-1) of
        None \<Rightarrow> None
      | Some (sent, None) \<Rightarrow> Some (sent, -1)
      | Some (sent, Some h) \<Rightarrow>
          (case add_all_rcpts h to_addr cc of
             None \<Rightarrow> None
           | Some (h, rc, rc2) \<Rightarrow>
               if rc = -1 then Some (sent, 0)
               else if rc2 = -1 then Some (sent, -1)
               else let ct = (if contenttype = -1 then SMTP_ATTACH_CONTENT_TYPE_PLAIN else to_uint32 contenttype);
                        te = (if encoding = -1 then SMTP_CONTENT_TRANSFER_ENCODING_QUOTEDPRINT else to_uint32 encoding)
                    in case smtp_add_attachment_fromfile fs (add_message h msg isHTML) fname ct te of
                      None \<Rightarrow> None
                    | Some (h, rc) \<Rightarrow>
                        if rc = -1 then Some (sent, -1)
                        else map_option (\<lambda>(sent, _, _). (sent, 0)) (smtp_sendmail en srv sent h from_addr subject)))"

section \<open>Replies as the server formats them\<close>

definition reply_ok :: "smtp_reply \<Rightarrow> bool" where
  "reply_ok r \<longleftrightarrow> fst r < 1000 \<and> length (snd r) < 255 \<and> set (snd r) \<inter> {CR, LF, NUL} = {}"

fun smtp_reply_text :: "smtp_reply list \<Rightarrow> string" where
  "smtp_reply_text [] = []"
| "smtp_reply_text (r # rs) =
     dec_pad 3 (fst r) @ (if rs = [] then '' '' else ''-'') @ snd r @ crlf @ smtp_reply_text rs"

lemma read_status_dec: "n < 1000 \<Longrightarrow> read_status (dec_pad 3 n @ p) = Some (Some (n, p))"
proof -
  assume n: "n < 1000"
  then have "length (dec_pad 3 n) = Suc (Suc (Suc 0))" using length_dec_pad [of 3 n] by simp
  then obtain c1 c2 c3 where d: "dec_pad 3 n = [c1, c2, c3]"
    by (cases "dec_pad 3 n"; cases "tl (dec_pad 3 n)"; cases "tl (tl (dec_pad 3 n))") auto
  then have "is_digit c1" "is_digit c2" "is_digit c3" using dec_pad_digits [of 3 n] by auto
  moreover have "(byte c1 - 48) * 100 + (byte c2 - 48) * 10 + (byte c3 - 48) = n"
    using dec_value_dec_pad [of 3 n] d by (simp add: dec_value_def)
  ultimately show ?thesis using d by simp
qed

lemma scan_line_text:
  "set t \<inter> {CR, LF} = {} \<Longrightarrow> length t < n \<Longrightarrow> scan_line n (t @ CR # p) = Some (Some (t, CR # p))"
proof (induction t arbitrary: n)
  case Nil
  then show ?case by (cases n) auto
next
  case (Cons c t)
  then show ?case by (cases n) auto
qed

lemma reply_line_text:
  "reply_ok (n, t) \<Longrightarrow> reply_line (dec_pad 3 n @ sep # t @ crlf @ p) = Some (Some (n, sep = CHR '' '', t, p))"
proof -
  assume r: "reply_ok (n, t)"
  then have "scan_line 255 (t @ CR # LF # p) = Some (Some (t, CR # LF # p))"
    by (intro scan_line_text) (auto simp: reply_ok_def)
  moreover have "c_string t = t" using r by (intro c_string_id) (auto simp: reply_ok_def cstr_def)
  ultimately show ?thesis
    using r by (simp add: reply_line_def read_status_dec line_end_def reply_ok_def)
qed

lemma split_reply_text:
  "rs \<noteq> [] \<Longrightarrow> list_all reply_ok rs \<Longrightarrow> length rs \<le> n \<Longrightarrow>
   smtp_split_reply n (smtp_reply_text rs @ z) = Some (Some rs)"
proof (induction rs arbitrary: n)
  case (Cons r rs)
  obtain s t where r: "r = (s, t)" by (cases r)
  obtain k where k: "n = Suc k" using Cons.prems(3) by (cases n) auto
  show ?case
  proof (cases rs)
    case Nil
    then show ?thesis using Cons.prems r k reply_line_text [of s t "CHR '' ''" z] by simp
  next
    case (Cons a list)
    then have "smtp_split_reply k (smtp_reply_text rs @ z) = Some (Some rs)" using Cons.IH [of k] Cons.prems k by simp
    then show ?thesis using Cons.prems r k Cons reply_line_text [of s t "CHR ''-''" "smtp_reply_text rs @ z"] by simp
  qed
qed simp

section \<open>The dialogue\<close>

text \<open>The code the server answers with after the texts \<open>sent\<close>, if it gives an answer of one line.\<close>

definition reply_code :: "server \<Rightarrow> string list \<Rightarrow> nat option" where
  "reply_code srv sent =
     (case srv sent of (ok, r) \<Rightarrow>
        if \<not> ok then None
        else case read_sock_timeout r of
          None \<Rightarrow> None
        | Some (rc, buffer) \<Rightarrow>
            if rc \<noteq> 0 then None
            else case smtp_split_reply 1 buffer of Some (Some rs) \<Rightarrow> Some (fst (hd rs)) | _ \<Rightarrow> None)"

text \<open>The text a step sends, none when its address or pointer is refused.\<close>

definition step_texts :: "mail_step \<Rightarrow> string list" where
  "step_texts st =
     (case st of
        S_addr cmd mailaddr \<Rightarrow>
          (case smtp_normalize_mailaddr 256 256 mailaddr 256 256 of
             Some (Some (_, addr)) \<Rightarrow> [snprintf 255 (cmd @ addr @ crlf)] | _ \<Rightarrow> [])
      | S_chk cmd expected \<Rightarrow> [snprintf 255 (cmd @ crlf)]
      | S_data cmd arg \<Rightarrow> (case (cmd, arg) of (Some c, Some a) \<Rightarrow> [c @ a @ crlf] | _ \<Rightarrow> []))"

abbreviation texts :: "mail_step list \<Rightarrow> string list" where
  "texts sts \<equiv> concat (map step_texts sts)"

text \<open>What a step expects of the server, given all texts sent including its own.\<close>

definition accepted :: "server \<Rightarrow> string list \<Rightarrow> mail_step \<Rightarrow> bool" where
  "accepted srv sent st \<longleftrightarrow> step_texts st \<noteq> [] \<and>
     (case st of
        S_addr _ _ \<Rightarrow> reply_code srv sent = Some 250
      | S_chk _ expected \<Rightarrow> reply_code srv sent = Some expected
      | S_data _ _ \<Rightarrow> fst (srv sent))"

lemma sendchk_result:
  assumes "sendchk srv sent cmd arg e = Some (sent', ok)" and "e \<noteq> 502"
  shows "sent' = sent @ [snprintf 255 (cmd @ arg @ crlf)] \<and> (ok \<longleftrightarrow> reply_code srv sent' = Some e)"
  using assms
  by (auto simp: sendchk_def smtp_send_command_def reply_code_def Let_def split: prod.splits option.splits if_splits)

lemma run_step_result:
  assumes "run_step srv sent st = Some (sent', ok)" and "\<And>c. st \<noteq> S_chk c 502"
  shows "sent' = sent @ step_texts st \<and> (ok \<longleftrightarrow> accepted srv sent' st)"
proof (cases st)
  case (S_addr cmd a)
  then show ?thesis
    using assms(1) by (auto simp: run_step_def step_texts_def accepted_def split: option.splits dest!: sendchk_result)
next
  case (S_chk cmd e)
  then show ?thesis
    using assms sendchk_result [of srv sent cmd "[]" e sent' ok] by (auto simp: run_step_def step_texts_def accepted_def)
next
  case (S_data cmd arg)
  then show ?thesis
    using assms(1) by (auto simp: run_step_def senddata_def step_texts_def accepted_def Let_def split: option.splits)
qed

text \<open>
  The steps are done in order up to the first that the server does not accept; \<open>k\<close> steps have been
  accepted.
\<close>

lemma run_steps_prefix:
  assumes "run_steps srv sent sts = Some (sent', ok)" and "\<And>c. S_chk c 502 \<notin> set sts"
  shows "\<exists>k \<le> length sts. (\<forall>i<k. accepted srv (sent @ texts (take (Suc i) sts)) (sts ! i)) \<and>
    (ok \<longleftrightarrow> k = length sts) \<and> sent' = sent @ texts (take (Suc k) sts)"
  using assms
proof (induction sts arbitrary: sent)
  case (Cons st sts)
  obtain sent1 ok1 where r: "run_step srv sent st = Some (sent1, ok1)"
    using Cons.prems(1) by (auto split: option.splits)
  have s1: "sent1 = sent @ step_texts st" "ok1 \<longleftrightarrow> accepted srv sent1 st"
    using run_step_result [OF r] Cons.prems(2) by (auto simp: eq_commute)
  show ?case
  proof (cases ok1)
    case False
    then show ?thesis using Cons.prems(1) r s1 by (intro exI [of _ 0]) auto
  next
    case True
    then have "run_steps srv sent1 sts = Some (sent', ok)" using Cons.prems(1) r by simp
    from Cons.IH [OF this] Cons.prems(2) obtain k where k: "k \<le> length sts"
      "\<forall>i<k. accepted srv (sent1 @ texts (take (Suc i) sts)) (sts ! i)" "ok \<longleftrightarrow> k = length sts"
      "sent' = sent1 @ texts (take (Suc k) sts)" by auto
    have "accepted srv (sent @ texts (take (Suc i) (st # sts))) ((st # sts) ! i)" if "i < Suc k" for i
      using that k(2) s1 True by (cases i) auto
    then show ?thesis using k s1 by (intro exI [of _ "Suc k"]) auto
  qed
qed (auto intro: exI [of _ 0])

text \<open>No step of a mail expects the code that means an unknown command.\<close>

lemma mail_steps_no_502: "S_chk c 502 \<notin> set (mail_steps h from_addr)"
  by (auto simp: mail_steps_def envelope_steps_def data_steps_def split: option.splits)

lemma sendmail_steps:
  assumes "smtp_sendmail en srv sent h from_addr subject = Some (sent', h', 0)"
  shows "run_steps srv sent (mail_steps h' from_addr) = Some (sent', True)"
  using assms by (auto simp: smtp_sendmail_def Let_def split: if_splits option.splits)

lemma compose_keeps: "compose_text b1 b2 h = Some (h', c) \<Longrightarrow>
    sh_to h' = sh_to h \<and> sh_cc h' = sh_cc h \<and> sh_bcc h' = sh_bcc h"
  by (auto simp: compose_text_def attachment_text_def Let_def split: if_splits option.splits prod.splits)

lemma sendmail_keeps: "smtp_sendmail en srv sent h from_addr subject = Some (sent', h', rc) \<Longrightarrow>
    sh_to h' = sh_to h \<and> sh_cc h' = sh_cc h \<and> sh_bcc h' = sh_bcc h"
  by (auto simp: smtp_sendmail_def Let_def split: if_splits option.splits prod.splits dest!: compose_keeps)

lemma envelope_keeps: "smtp_sendmail en srv sent h from_addr subject = Some (sent', h', rc) \<Longrightarrow>
    envelope_steps h' from_addr = envelope_steps h from_addr"
  using sendmail_keeps by (simp add: envelope_steps_def)

abbreviation with_bcc :: "string list \<Rightarrow> string option \<Rightarrow> smtp_handle \<Rightarrow> smtp_handle" where
  "with_bcc xs c h \<equiv> h\<lparr>sh_bcc := xs, sh_bcc_concatenated := c\<rparr>"

lemma compose_bcc:
  "compose_text b1 b2 (with_bcc xs c h) = map_option (\<lambda>(h', ok). (with_bcc xs c h', ok)) (compose_text b1 b2 h)"
  by (simp add: compose_text_def attachment_text_def Let_def split: option.splits prod.splits)

lemma data_steps_bcc: "data_steps (with_bcc xs c h) = data_steps h"
  by (simp add: data_steps_def)

text \<open>What is sent of a mail with a different list of blind copies.\<close>

lemma sendmail_bcc:
  assumes "smtp_sendmail en srv sent h from_addr subject = Some (sent', h', 0)"
    and "smtp_sendmail en srv2 sent (with_bcc xs c h) from_addr subject = Some (sent2, h2, 0)"
  shows "data_steps h2 = data_steps h'"
proof -
  let ?prep = "\<lambda>h. h\<lparr>sh_from := Some from_addr, sh_returnpath := Some from_addr, sh_date := me_date en\<rparr>"
  let ?b1 = "mail_boundary (me_rand1 en) (me_hname en)" and ?b2 = "mail_boundary (me_rand2 en) (me_hname en)"
  obtain buff where c1: "compose_text ?b1 ?b2 (?prep h\<lparr>sh_subject := Some buff\<rparr>) = Some (h', True)"
    and q: "\<exists>rc. qprint_encode_word subject 1024 = Some (buff, rc)"
    using assms(1) by (auto simp: smtp_sendmail_def Let_def split: if_splits option.splits)
  have "compose_text ?b1 ?b2 (?prep (with_bcc xs c h)\<lparr>sh_subject := Some buff\<rparr>) = Some (h2, True)"
    using assms(2) q by (auto simp: smtp_sendmail_def Let_def split: if_splits option.splits)
  moreover have "?prep (with_bcc xs c h)\<lparr>sh_subject := Some buff\<rparr> = with_bcc xs c (?prep h\<lparr>sh_subject := Some buff\<rparr>)"
    by (cases h) simp
  ultimately have "compose_text ?b1 ?b2 (with_bcc xs c (?prep h\<lparr>sh_subject := Some buff\<rparr>)) = Some (h2, True)"
    by (simp only:)
  with c1 have "h2 = with_bcc xs c h'" by (simp add: compose_bcc)
  then show ?thesis by (simp add: data_steps_bcc)
qed

section \<open>A server that accepts everything\<close>

definition expected_code :: "string \<Rightarrow> nat" where
  "expected_code t = (if t = ''DATA'' @ crlf then 354 else if t = ''QUIT'' @ crlf then 221 else 250)"

definition obliging :: server where
  "obliging sent = (True, R_data (smtp_reply_text [(expected_code (last sent), ''ok'')]))"

definition valid_addr :: "string \<Rightarrow> bool" where
  "valid_addr a \<longleftrightarrow> (case smtp_normalize_mailaddr 256 256 a 256 256 of Some (Some _) \<Rightarrow> True | _ \<Rightarrow> False)"

lemma obliging_reply:
  "read_sock_timeout (snd (obliging sent)) =
     Some (0, smtp_reply_text [(expected_code (last sent), ''ok'')] @ replicate (2048 - length (smtp_reply_text [(expected_code (last sent), ''ok'')])) NUL)"
  using length_dec_pad [of 3 "expected_code (last sent)"]
  by (simp add: obliging_def read_sock_timeout_def expected_code_def)

lemma obliging_sendchk:
  "sendchk obliging sent cmd arg e =
     (let t = snprintf 255 (cmd @ arg @ crlf) in Some (sent @ [t], expected_code t = e))"
proof -
  let ?t = "snprintf 255 (cmd @ arg @ crlf)"
  have ok: "reply_ok (expected_code ?t, ''ok'')" by (simp add: reply_ok_def expected_code_def)
  have ne: "expected_code ?t \<noteq> 502" by (simp add: expected_code_def)
  note sp = split_reply_text [of "[(expected_code ?t, ''ok'')]" 1, OF _ _ _]
  show ?thesis
    using obliging_reply [of "sent @ [?t]"] sp ok ne
    by (simp add: sendchk_def smtp_send_command_def obliging_def Let_def del: smtp_split_reply.simps smtp_reply_text.simps)
qed

definition obliged :: "mail_step \<Rightarrow> bool" where
  "obliged st \<longleftrightarrow>
     (case st of S_addr c a \<Rightarrow> valid_addr a \<and> (c = ''MAIL FROM: '' \<or> c = ''RCPT TO: '')
     | S_chk c e \<Rightarrow> expected_code (snprintf 255 (c @ crlf)) = e | S_data c a \<Rightarrow> c \<noteq> None \<and> a \<noteq> None)"

lemma obliging_step:
  assumes "obliged st"
  shows "run_step obliging sent st = Some (sent @ step_texts st, True)"
proof (cases st)
  case (S_addr c a)
  then obtain n d where n: "smtp_normalize_mailaddr 256 256 a 256 256 = Some (Some (n, d))"
    using assms by (auto simp: obliged_def valid_addr_def split: option.splits)
  have "expected_code (snprintf 255 (c @ d @ crlf)) = 250"
    using assms S_addr by (auto simp: obliged_def expected_code_def)
  with n S_addr show ?thesis by (simp add: run_step_def step_texts_def obliging_sendchk Let_def)
next
  case (S_chk c e)
  with assms show ?thesis by (simp add: obliged_def run_step_def step_texts_def obliging_sendchk Let_def)
next
  case (S_data c a)
  with assms show ?thesis by (auto simp: obliged_def run_step_def step_texts_def senddata_def obliging_def Let_def)
qed

lemma obliging_steps:
  "list_all obliged sts \<Longrightarrow> run_steps obliging sent sts = Some (sent @ texts sts, True)"
  by (induction sts arbitrary: sent) (simp_all add: obliging_step)

text \<open>A mail with a text: what \<open>compose_text\<close> leaves makes every line of the mail present.\<close>

lemma compose_ok:
  "sh_plain h = Some p \<Longrightarrow> p \<noteq> [] \<Longrightarrow> sh_html h \<noteq> Some [] \<Longrightarrow> \<exists>h'. compose_text b1 b2 h = Some (h', True)"
  by (cases "sh_html h") (auto simp: compose_text_def Let_def)

lemma compose_present: "compose_text b1 b2 h = Some (h', True) \<Longrightarrow>
    sh_contenttype h' \<noteq> None \<and> sh_databuff h' \<noteq> None \<and> sh_date h' = sh_date h \<and> sh_from h' = sh_from h \<and>
    sh_to_concatenated h' = sh_to_concatenated h \<and> sh_subject h' = sh_subject h \<and> sh_mimeversion h' = sh_mimeversion h"
  by (auto simp: compose_text_def attachment_text_def Let_def split: if_splits option.splits prod.splits)

lemma mail_steps_obliged:
  assumes "list_all valid_addr (from_addr # sh_to h @ sh_cc h @ sh_bcc h)"
    and "sh_date h \<noteq> None" "sh_from h \<noteq> None" "sh_to_concatenated h \<noteq> None" "sh_subject h \<noteq> None" "sh_mimeversion h \<noteq> None"
      "sh_contenttype h \<noteq> None" "sh_databuff h \<noteq> None"
  shows "run_steps obliging sent (mail_steps h from_addr) = Some (sent @ texts (mail_steps h from_addr), True)"
  by (rule obliging_steps, cases "sh_cc_concatenated h")
    (use assms in \<open>auto simp: mail_steps_def envelope_steps_def data_steps_def obliged_def expected_code_def list_all_iff\<close>)

lemma obliging_delivers:
  assumes "sh_to_concatenated h = Some t" and "t \<noteq> []" and "sh_plain h = Some p" and "p \<noteq> []" and "me_date en \<noteq> None"
    and "sh_mimeversion h \<noteq> None" and "qprint_encode_word subject 1024 \<noteq> None" and "sh_html h \<noteq> Some []"
    and "list_all valid_addr (from_addr # sh_to h @ sh_cc h @ sh_bcc h)"
  shows "\<exists>sent' h'. smtp_sendmail en obliging sent h from_addr subject = Some (sent', h', 0)"
proof -
  obtain buff rc where q: "qprint_encode_word subject 1024 = Some (buff, rc)" using assms(7) by auto
  let ?h = "h\<lparr>sh_from := Some from_addr, sh_returnpath := Some from_addr, sh_date := me_date en, sh_subject := Some buff\<rparr>"
  let ?b1 = "mail_boundary (me_rand1 en) (me_hname en)" and ?b2 = "mail_boundary (me_rand2 en) (me_hname en)"
  obtain h' where c: "compose_text ?b1 ?b2 ?h = Some (h', True)"
    using compose_ok [of ?h p ?b1 ?b2] assms(3,4,8) by auto
  have "run_steps obliging sent (mail_steps h' from_addr) = Some (sent @ texts (mail_steps h' from_addr), True)"
    using compose_present [OF c] compose_keeps [OF c] assms by (intro mail_steps_obliged) auto
  then show ?thesis using assms(1,2,5) q c by (simp add: smtp_sendmail_def Let_def)
qed

definition eg_mail :: smtp_handle where
  "eg_mail = new_handle\<lparr>sh_to := [''a@b <a@b>''], sh_to_concatenated := Some ''a@b <a@b>'',
     sh_plain := Some ''hello'', sh_mimeversion := Some ''1.0''\<rparr>"

definition eg_env :: mail_env where
  "eg_env = \<lparr>me_date = Some ''Mon, 1 Jan 2014 12:00:00 +0100'', me_hname = ''host'', me_rand1 = ''1a2b'', me_rand2 = ''3c4d''\<rparr>"

lemma eg_addr: "smtp_normalize_mailaddr 256 256 ''a@b <a@b>'' 256 256 = Some (Some (quoted_text ''a@b'', ''<a@b>''))"
  by code_simp

lemma eg_valid_addr: "valid_addr ''a@b <a@b>''"
  by (simp add: valid_addr_def eg_addr)

lemma eg_run_bcc:
  assumes "list_all valid_addr bs"
  obtains sent' h' where "smtp_sendmail eg_env obliging [] (with_bcc bs c eg_mail) ''a@b <a@b>'' ''Hi'' = Some (sent', h', 0)"
proof -
  have "qprint_encode_word ''Hi'' 1024 \<noteq> None" by (simp add: qprint_encode_word_def word_prefix_def)
  then show ?thesis
    using obliging_delivers [of "with_bcc bs c eg_mail" "''a@b <a@b>''" "''hello''" eg_env "''Hi''" "''a@b <a@b>''" "[]"] assms that
    by (auto simp: eg_mail_def eg_env_def new_handle_def eg_valid_addr)
qed

lemma eg_run:
  obtains sent' h' where "smtp_sendmail eg_env obliging [] eg_mail ''a@b <a@b>'' ''Hi'' = Some (sent', h', 0)"
    "2 < length sent'"
proof -
  have "with_bcc [] None eg_mail = eg_mail" by (simp add: eg_mail_def new_handle_def)
  then obtain sent' h' where r: "smtp_sendmail eg_env obliging [] eg_mail ''a@b <a@b>'' ''Hi'' = Some (sent', h', 0)"
    using eg_run_bcc [of "[]" None] by auto
  obtain k where "k = length (mail_steps h' ''a@b <a@b>'')" "sent' = texts (take (Suc k) (mail_steps h' ''a@b <a@b>''))"
    using run_steps_prefix [OF sendmail_steps [OF r] mail_steps_no_502] by auto
  then have "2 < length sent'"
    using envelope_keeps [OF r]
    by (simp add: mail_steps_def envelope_steps_def eg_mail_def new_handle_def step_texts_def eg_addr)
  with r that show ?thesis by blast
qed

section \<open>Properties\<close>

text \<open>
  The parser of server replies is the inverse of the format. A reply of any number of lines up to
  the size of the list, each with a status of three digits and a text of less than 255 bytes, is taken apart into exactly
  its lines, whatever follows it in the buffer.
\<close>

theorem smtp_reply_roundtrip:
  assumes "rs \<noteq> []" and "list_all reply_ok rs" and "length rs \<le> n"
  shows "smtp_split_reply n (smtp_reply_text rs @ z) = Some (Some rs)"
  by (rule split_reply_text [OF assms])

theorem smtp_reply_roundtrip_witness:
  "smtp_split_reply 63 (smtp_reply_text [(250, ''mail''), (250, ''AUTH PLAIN'')] @ [NUL]) = Some (Some [(250, ''mail''), (250, ''AUTH PLAIN'')])"
  by (rule smtp_reply_roundtrip) (simp_all add: reply_ok_def)

text \<open>
  C5: success means acceptance. For every server, when \<open>smtp_sendmail\<close> returns 0 the server has answered 250 to
  the sender and to every recipient, 354 to \<^verbatim>\<open>DATA\<close>, 250 to the end of the text and 221 to \<^verbatim>\<open>QUIT\<close>, every line of the mail was
  written, and the transcript is exactly these texts in this order.
\<close>

theorem mail_sent_was_accepted:
  assumes "smtp_sendmail en srv sent h from_addr subject = Some (sent', h', 0)"
  shows "sent' = sent @ texts (mail_steps h' from_addr) \<and>
    (\<forall>i < length (mail_steps h' from_addr).
       accepted srv (sent @ texts (take (Suc i) (mail_steps h' from_addr))) (mail_steps h' from_addr ! i))"
proof -
  obtain k where "\<forall>i<k. accepted srv (sent @ texts (take (Suc i) (mail_steps h' from_addr))) (mail_steps h' from_addr ! i)"
    "k = length (mail_steps h' from_addr)" "sent' = sent @ texts (take (Suc k) (mail_steps h' from_addr))"
    using run_steps_prefix [OF sendmail_steps [OF assms] mail_steps_no_502] by auto
  then show ?thesis by simp
qed

theorem mail_sent_was_accepted_witness:
  "\<exists>sent' h'. smtp_sendmail eg_env obliging [] eg_mail ''a@b <a@b>'' ''Hi'' = Some (sent', h', 0) \<and>
    sent' = texts (mail_steps h' ''a@b <a@b>'')"
proof -
  obtain sent' h' where r: "smtp_sendmail eg_env obliging [] eg_mail ''a@b <a@b>'' ''Hi'' = Some (sent', h', 0)" by (rule eg_run)
  then show ?thesis using mail_sent_was_accepted [OF r] by auto
qed

text \<open>
  C6: nothing of a mail is sent before every recipient is accepted. Whatever the server answers and however the call
  ends, when more than the envelope was sent, the server had answered 250 to the sender and to every recipient.
\<close>

theorem no_text_before_recipients:
  assumes "smtp_sendmail en srv sent h from_addr subject = Some (sent', h', rc)"
    and "length sent + length (envelope_steps h from_addr) < length sent'" and "i < length (envelope_steps h from_addr)"
  shows "reply_code srv (sent @ texts (take (Suc i) (envelope_steps h from_addr))) = Some 250"
proof -
  let ?e = "envelope_steps h from_addr" and ?m = "mail_steps h' from_addr"
  have pre: "take (Suc j) ?m = take (Suc j) ?e \<and> ?m ! j = ?e ! j" if "j < length ?e" for j
    using that envelope_keeps [OF assms(1)] by (simp add: mail_steps_def nth_append)
  have one: "length (texts sts) \<le> length sts" for sts
  proof (induction sts)
    case (Cons st sts)
    have "length (step_texts st) \<le> 1" by (auto simp: step_texts_def split: mail_step.splits option.splits)
    with Cons show ?case by simp
  qed simp
  have "sent' \<noteq> sent" using assms(2) by auto
  then obtain ok where r: "run_steps srv sent ?m = Some (sent', ok)"
    using assms(1) by (auto simp: smtp_sendmail_def Let_def split: if_splits option.splits)
  obtain k where k: "\<forall>j<k. accepted srv (sent @ texts (take (Suc j) ?m)) (?m ! j)"
    "sent' = sent @ texts (take (Suc k) ?m)" using run_steps_prefix [OF r mail_steps_no_502] by auto
  have "length sent' \<le> length sent + Suc k" using k(2) one [of "take (Suc k) ?m"] by simp
  then have "i < k" using assms(2,3) by linarith
  then have "accepted srv (sent @ texts (take (Suc i) ?m)) (?m ! i)" using k(1) by blast
  then have "accepted srv (sent @ texts (take (Suc i) ?e)) (?e ! i)" using pre [OF assms(3)] by simp
  moreover obtain c a where "?e ! i = S_addr c a"
    using assms(3) nth_mem [OF assms(3)] by (auto simp: envelope_steps_def)
  ultimately show ?thesis by (simp add: accepted_def)
qed

theorem no_text_before_recipients_witness:
  "\<exists>sent' h'. smtp_sendmail eg_env obliging [] eg_mail ''a@b <a@b>'' ''Hi'' = Some (sent', h', 0) \<and> 2 < length sent' \<and>
    reply_code obliging (texts (take 2 (envelope_steps eg_mail ''a@b <a@b>''))) = Some 250"
proof -
  obtain sent' h' where r: "smtp_sendmail eg_env obliging [] eg_mail ''a@b <a@b>'' ''Hi'' = Some (sent', h', 0)" "2 < length sent'"
    by (rule eg_run)
  have "length (envelope_steps eg_mail ''a@b <a@b>'') = 2" by (simp add: envelope_steps_def eg_mail_def new_handle_def)
  then show ?thesis
    using no_text_before_recipients [OF r(1), of 1] r by (auto simp: numeral_2_eq_2)
qed

text \<open>
  Blind copies stay blind. Two mails that differ only in the list of blind copies, sent with success to whatever
  servers, have the same text after the envelope: the receivers cannot tell them apart.
\<close>

theorem blind_copies_not_in_text:
  assumes "smtp_sendmail en srv sent h from_addr subject = Some (sent1, h1, 0)"
    and "smtp_sendmail en srv2 sent (with_bcc xs c h) from_addr subject = Some (sent2, h2, 0)"
  shows "\<exists>mail. sent1 = sent @ texts (envelope_steps h from_addr) @ mail \<and>
    sent2 = sent @ texts (envelope_steps (with_bcc xs c h) from_addr) @ mail"
proof -
  have t: "s' = sent @ texts (envelope_steps h from_addr) @ texts (S_chk ''DATA'' 354 # data_steps h' @ [S_chk ''.'' 250, S_chk ''QUIT'' 221])"
    if "smtp_sendmail en sv sent h from_addr subject = Some (s', h', 0)" for sv h s' h'
  proof -
    note m = that
    obtain k where "k = length (mail_steps h' from_addr)" "s' = sent @ texts (take (Suc k) (mail_steps h' from_addr))"
      using run_steps_prefix [OF sendmail_steps [OF m] mail_steps_no_502] by auto
    then show ?thesis using envelope_keeps [OF m] by (simp add: mail_steps_def)
  qed
  show ?thesis using t [OF assms(1)] t [OF assms(2)] sendmail_bcc [OF assms] by auto
qed

theorem blind_copies_not_in_text_witness:
  "\<exists>sent1 sent2 h1 h2 mail. smtp_sendmail eg_env obliging [] eg_mail ''a@b <a@b>'' ''Hi'' = Some (sent1, h1, 0) \<and>
    smtp_sendmail eg_env obliging [] (with_bcc [''a@b <a@b>''] None eg_mail) ''a@b <a@b>'' ''Hi'' = Some (sent2, h2, 0) \<and>
    sent1 = texts (envelope_steps eg_mail ''a@b <a@b>'') @ mail \<and>
    sent2 = texts (envelope_steps (with_bcc [''a@b <a@b>''] None eg_mail) ''a@b <a@b>'') @ mail"
proof -
  obtain sent1 h1 where r1: "smtp_sendmail eg_env obliging [] eg_mail ''a@b <a@b>'' ''Hi'' = Some (sent1, h1, 0)" by (rule eg_run)
  obtain sent2 h2 where r2: "smtp_sendmail eg_env obliging [] (with_bcc [''a@b <a@b>''] None eg_mail) ''a@b <a@b>'' ''Hi'' = Some (sent2, h2, 0)"
    using eg_run_bcc [of "[''a@b <a@b>'']" None] eg_valid_addr by auto
  show ?thesis using blind_copies_not_in_text [OF r1 r2] r1 r2 by auto
qed

text \<open>
  A mail that can be composed is delivered. When every address is well-formed, there is a recipient and a
  text, and the server accepts every command, \<open>smtp_sendmail\<close> returns 0.
\<close>

theorem mail_delivered:
  assumes "sh_to_concatenated h = Some t" and "t \<noteq> []" and "sh_plain h = Some p" and "p \<noteq> []" and "me_date en \<noteq> None"
    and "sh_mimeversion h \<noteq> None" and "qprint_encode_word subject 1024 \<noteq> None" and "sh_html h \<noteq> Some []"
    and "list_all valid_addr (from_addr # sh_to h @ sh_cc h @ sh_bcc h)"
  shows "\<exists>sent' h'. smtp_sendmail en obliging sent h from_addr subject = Some (sent', h', 0)"
  by (rule obliging_delivers [OF assms])

theorem mail_delivered_witness:
  "\<exists>sent' h'. smtp_sendmail eg_env obliging [] eg_mail ''a@b <a@b>'' ''Hi'' = Some (sent', h', 0)"
  by (rule mail_delivered [where t = "''a@b <a@b>''" and p = "''hello''"])
    (simp_all add: eg_mail_def eg_env_def eg_valid_addr new_handle_def qprint_encode_word_def word_prefix_def)

text \<open>
  With copies nothing is sent: when the copies can be added, \<open>smtp_simple_sendmail\<close> gives up and returns -1; what was
  sent is the login.
\<close>

theorem copies_prevent_sending:
  assumes "smtp_setup srv greeting (Some (me_hname en)) user pwd (-1) = Some (sent, Some h)"
    and "smtp_add_rcpt h SMTP_RCPT_TO to_addr = Some (h1, 0)" and "cc \<noteq> []"
    and "smtp_add_rcpt h1 SMTP_RCPT_CC cc = Some (h2, 0)"
  shows "smtp_simple_sendmail en srv greeting user pwd subject from_addr to_addr (Some cc) msg isHTML = Some (sent, -1)"
  using assms by (simp add: smtp_simple_sendmail_def add_all_rcpts_def)

text \<open>
  A lost answer to the login counts as success: when the server asks for the data of the \<^verbatim>\<open>PLAIN\<close> login and then gives no
  answer to them, the session is kept.
\<close>

theorem lost_login_reply_accepted:
  assumes "smtp_send_command srv sent ''auth plain'' [] 1 = Some (sent1, Some [(334, t)])"
    and "smtp_send_command srv sent1 b [] 1 = Some (sent2, None)"
  shows "auth_plain srv sent (Some b) = Some (sent2, True)"
  using assms by (simp add: auth_plain_def send_coded_def answered_def refused_def)

end
