(* ===== verification/Unitbl.thy ===== *)
theory Unitbl
  imports Xstr
begin

text \<open>
  The text tables of \<^verbatim>\<open>libunitbl/unicode_tbl.c\<close> with which the daemon answers its listing commands:
  the table and cell structures, the creation of a table and the operations that set texts, spans,
  alignment, padding, widths and call-backs. The cells are one array, indexed by \<open>TIDX\<close>; it has
  one row and one column more than the table, which make room for a title row. Drawing is in the
  theory \<open>Unitbl_Draw\<close>. Memory allocation is assumed to succeed and the log function is not
  modelled.
\<close>

section \<open>Data\<close>

datatype halign_t = LEFTALIGN | RIGHTALIGN | CENTERALIGN

datatype tblstyle_t =
    TSTYLE_SIMPLE_V1 | TSTYLE_SIMPLE_V2 | TSTYLE_SIMPLE_V3 | TSTYLE_SIMPLE_V4 | TSTYLE_SIMPLE_V5
  | TSTYLE_SIMPLE_V6 | TSTYLE_ASCII_V0 | TSTYLE_ASCII_V4 | TSTYLE_ASCII_V1 | TSTYLE_ASCII_V2
  | TSTYLE_ASCII_V3 | TSTYLE_DOUBLE_V1 | TSTYLE_DOUBLE_V2 | TSTYLE_DOUBLE_V3 | TSTYLE_DOUBLE_V4
  | TSTYLE_SINGLE_V1 | TSTYLE_SINGLE_V2 | TSTYLE_HEAVY_V1 | TSTYLE_HEAVY_V2 | TSTYLE_HEAVY_V3

datatype titlestyle_t = TITLESTYLE_LINE | TITLESTYLE_NOLINE

text \<open>
  A call-back gets the row, the column and the tag of the table (a pointer, here a number) and returns
  a text or \<open>NULL\<close>.
\<close>

type_synonym t_cell_cb = "int \<Rightarrow> int \<Rightarrow> nat \<Rightarrow> string option"

record tcell_t =
  cell_cb :: "t_cell_cb option"
  cell_t :: "string option"
  halign :: halign_t
  pRow :: int
  pCol :: int
  merged :: bool
  rspan :: nat
  cspan :: nat
  lpad :: nat
  rpad :: nat

record table_t =
  tag :: nat
  nRow :: nat
  nCol :: nat
  cells :: "tcell_t list"
  colwidth :: "nat list"
  mincolwidth :: "nat list"
  title :: "string option"
  titleCopied :: bool
  titleStyle :: titlestyle_t
  interior_v :: bool
  interior_h :: bool
  headerLine :: bool

text \<open>A cell of zeroed memory.\<close>

definition zero_cell :: tcell_t where
  "zero_cell = \<lparr> cell_cb = None, cell_t = None, halign = LEFTALIGN, pRow = 0, pCol = 0,
     merged = False, rspan = 0, cspan = 0, lpad = 0, rpad = 0 \<rparr>"

definition TIDX :: "table_t \<Rightarrow> nat \<Rightarrow> nat \<Rightarrow> nat" where
  "TIDX t r c = r * nCol t + c"

abbreviation cell :: "table_t \<Rightarrow> nat \<Rightarrow> nat \<Rightarrow> tcell_t" where
  "cell t r c \<equiv> cells t ! TIDX t r c"

abbreviation upd_cell :: "(tcell_t \<Rightarrow> tcell_t) \<Rightarrow> table_t \<Rightarrow> nat \<Rightarrow> nat \<Rightarrow> table_t" where
  "upd_cell f t r c \<equiv> t \<lparr> cells := (cells t)[TIDX t r c := f (cell t r c)] \<rparr>"

text \<open>The conversion of an \<open>int\<close> to \<open>size_t\<close>.\<close>

definition size_of_int :: "int \<Rightarrow> nat" where
  "size_of_int v = nat (v mod int SIZE_MOD)"

section \<open>Creation\<close>

definition utable_rc_chk :: "table_t \<Rightarrow> nat \<Rightarrow> nat \<Rightarrow> int" where
  "utable_rc_chk t row col = (if nRow t \<le> row \<or> nCol t \<le> col then -1 else 0)"

definition utable_init_cell :: "table_t \<Rightarrow> nat \<Rightarrow> nat \<Rightarrow> int \<times> table_t" where
  "utable_init_cell t row col =
     (0, upd_cell (\<lambda>c. c\<lparr> cell_t := None, halign := LEFTALIGN, pRow := to_int32 (int row),
                          pCol := to_int32 (int col), merged := False, cspan := 1, rspan := 1 \<rparr>)
           t row col)"

text \<open>
  The two nested loops over rows and columns, left with -1 as soon as the body \<open>f\<close> fails.
\<close>

fun loop_chk :: "('i \<Rightarrow> 's \<Rightarrow> int \<times> 's) \<Rightarrow> 'i list \<Rightarrow> 's \<Rightarrow> int \<times> 's" where
  "loop_chk f [] s = (0, s)"
| "loop_chk f (i # is) s = (let (rc, s') = f i s in if rc \<noteq> 0 then (-1, s') else loop_chk f is s')"

abbreviation row_col :: "nat \<Rightarrow> nat \<Rightarrow> (nat \<times> nat) list" where
  "row_col nr nc \<equiv> List.product [0..<nr] [0..<nc]"

definition utable_create :: "nat \<Rightarrow> nat \<Rightarrow> table_t" where
  "utable_create nr nc =
     (let t = \<lparr> tag = 0, nRow = nr, nCol = nc,
                cells = replicate (Suc nr * Suc nc) zero_cell,
                colwidth = replicate (Suc nc) 0, mincolwidth = replicate (Suc nc) 0,
                title = None, titleCopied = False, titleStyle = TITLESTYLE_LINE,
                interior_v = False, interior_h = False, headerLine = True \<rparr>
      in snd (loop_chk (\<lambda>(r, c) t. utable_init_cell t r c) (row_col (Suc nr) (Suc nc)) t))"

section \<open>Texts\<close>

definition utable_set_cell :: "table_t \<Rightarrow> nat \<Rightarrow> nat \<Rightarrow> string \<Rightarrow> int \<times> table_t" where
  "utable_set_cell t row col val =
     (if utable_rc_chk t row col \<noteq> 0 \<or> merged (cell t row col) then (-1, t)
      else (0, upd_cell (\<lambda>c. c\<lparr> cell_t := Some val \<rparr>) t row col))"

definition utable_set :: "table_t \<Rightarrow> string list \<Rightarrow> int \<times> table_t" where
  "utable_set t data =
     loop_chk (\<lambda>(r, c) t. utable_set_cell t r c (data ! TIDX t r c)) (row_col (nRow t) (nCol t)) t"

definition utable_create_set :: "nat \<Rightarrow> nat \<Rightarrow> string list \<Rightarrow> table_t option" where
  "utable_create_set nr nc data =
     (let t = utable_create nr nc; (rc, t') = utable_set t data
      in if rc = -1 then None else Some t')"

definition utable_set_coltitles :: "table_t \<Rightarrow> string list \<Rightarrow> int \<times> table_t" where
  "utable_set_coltitles t titles =
     (let row = (if titleCopied t then 1 else 0)
      in loop_chk (\<lambda>c t. utable_set_cell t row c (titles ! c)) [0..<nCol t] t)"

definition utable_set_title :: "table_t \<Rightarrow> string \<Rightarrow> titlestyle_t \<Rightarrow> table_t" where
  "utable_set_title t ti style = t\<lparr> title := Some ti, titleStyle := style \<rparr>"

definition utable_set_headerline :: "table_t \<Rightarrow> bool \<Rightarrow> table_t" where
  "utable_set_headerline t b = t\<lparr> headerLine := b \<rparr>"

text \<open>The result is the pointer to the text: \<open>None\<close> is \<open>NULL\<close>.\<close>

definition utable_get_cell :: "table_t \<Rightarrow> int \<Rightarrow> int \<Rightarrow> string option" where
  "utable_get_cell t row col =
     (let r = size_of_int row; c = size_of_int col
      in if utable_rc_chk t r c \<noteq> 0 then None else cell_t (cell t r c))"

section \<open>Spans, alignment, padding, call-backs, widths\<close>

text \<open>The arithmetic of \<open>size_t\<close> wraps around.\<close>

definition utable_set_cell_colspan :: "table_t \<Rightarrow> nat \<Rightarrow> nat \<Rightarrow> nat \<Rightarrow> int \<times> table_t" where
  "utable_set_cell_colspan t row col span =
     (if utable_rc_chk t row col \<noteq> 0 \<or> nCol t \<le> (col + span + (SIZE_MOD - 1)) mod SIZE_MOD
      then (-1, t)
      else let t1 = upd_cell (\<lambda>x. x\<lparr> cspan := span, merged := False, pRow := to_int32 (int row),
                                      pCol := to_int32 (int col) \<rparr>) t row col
           in (0, fold (\<lambda>c t. upd_cell (\<lambda>x. x\<lparr> merged := True, pRow := to_int32 (int row),
                                              pCol := to_int32 (int col) \<rparr>) t row c)
                    [col + 1..<(col + span) mod SIZE_MOD] t1))"

definition utable_set_cell_halign :: "table_t \<Rightarrow> int \<Rightarrow> int \<Rightarrow> halign_t \<Rightarrow> int \<times> table_t" where
  "utable_set_cell_halign t row col al =
     (let r = size_of_int row; c = size_of_int col
      in if utable_rc_chk t r c \<noteq> 0 then (-1, t) else (0, upd_cell (\<lambda>x. x\<lparr> halign := al \<rparr>) t r c))"

definition halign_code :: "halign_t \<Rightarrow> int" where
  "halign_code al = (case al of LEFTALIGN \<Rightarrow> 0 | RIGHTALIGN \<Rightarrow> 1 | CENTERALIGN \<Rightarrow> 2)"

definition utable_get_cell_halign :: "table_t \<Rightarrow> int \<Rightarrow> int \<Rightarrow> int" where
  "utable_get_cell_halign t row col =
     (let r = size_of_int row; c = size_of_int col
      in if utable_rc_chk t r c \<noteq> 0 then -1 else halign_code (halign (cell t r c)))"

definition utable_set_row_halign :: "table_t \<Rightarrow> int \<Rightarrow> halign_t \<Rightarrow> int \<times> table_t" where
  "utable_set_row_halign t row al =
     loop_chk (\<lambda>c t. utable_set_cell_halign t row (to_int32 (int c)) al) [0..<nCol t] t"

definition utable_set_table_halign :: "table_t \<Rightarrow> halign_t \<Rightarrow> int \<times> table_t" where
  "utable_set_table_halign t al =
     loop_chk (\<lambda>r t. utable_set_row_halign t (to_int32 (int r)) al) [0..<nRow t] t"

definition utable_set_col_halign :: "table_t \<Rightarrow> int \<Rightarrow> halign_t \<Rightarrow> int \<times> table_t" where
  "utable_set_col_halign t col al =
     loop_chk (\<lambda>r t. utable_set_cell_halign t (to_int32 (int r)) col al) [0..<nRow t] t"

definition utable_set_cellpadding :: "table_t \<Rightarrow> nat \<Rightarrow> nat \<Rightarrow> nat \<Rightarrow> nat \<Rightarrow> int \<times> table_t" where
  "utable_set_cellpadding t row col lp rp =
     (if utable_rc_chk t row col \<noteq> 0 \<or> merged (cell t row col) then (-1, t)
      else (0, upd_cell (\<lambda>x. x\<lparr> lpad := lp, rpad := rp \<rparr>) t row col))"

definition utable_set_table_cellpadding :: "table_t \<Rightarrow> nat \<Rightarrow> nat \<Rightarrow> table_t" where
  "utable_set_table_cellpadding t lp rp =
     fold (\<lambda>(r, c) t. snd (utable_set_cellpadding t r c lp rp)) (row_col (nRow t) (nCol t)) t"

definition utable_set_col_cellpadding :: "table_t \<Rightarrow> nat \<Rightarrow> nat \<Rightarrow> nat \<Rightarrow> table_t" where
  "utable_set_col_cellpadding t col lp rp =
     fold (\<lambda>r t. snd (utable_set_cellpadding t r col lp rp)) [0..<nRow t] t"

definition utable_set_cellcallback :: "table_t \<Rightarrow> int \<Rightarrow> int \<Rightarrow> t_cell_cb \<Rightarrow> int \<times> table_t" where
  "utable_set_cellcallback t row col cb =
     (let r = size_of_int row; c = size_of_int col
      in if utable_rc_chk t r c \<noteq> 0 \<or> merged (cell t r c) then (-1, t)
         else if cell_t (cell t r c) = None
         then (0, upd_cell (\<lambda>x. x\<lparr> cell_cb := Some cb \<rparr>) t r c)
         else (0, t))"

definition utable_set_table_cellcallback :: "table_t \<Rightarrow> t_cell_cb \<Rightarrow> table_t" where
  "utable_set_table_cellcallback t cb =
     fold (\<lambda>(r, c) t. snd (utable_set_cellcallback t (to_int32 (int r)) (to_int32 (int c)) cb))
       (row_col (nRow t) (nCol t)) t"

definition utable_set_colwidth :: "table_t \<Rightarrow> nat \<Rightarrow> nat \<Rightarrow> int \<times> table_t" where
  "utable_set_colwidth t col width =
     (if nCol t \<le> col then (-1, t) else (0, t\<lparr> colwidth := (colwidth t)[col := width] \<rparr>))"

definition utable_set_table_colwidth :: "table_t \<Rightarrow> nat \<Rightarrow> table_t" where
  "utable_set_table_colwidth t width =
     fold (\<lambda>c t. snd (utable_set_colwidth t c width)) [0..<nCol t] t"

definition utable_reset_table_colwidth :: "table_t \<Rightarrow> table_t" where
  "utable_reset_table_colwidth t = utable_set_table_colwidth t 0"

definition utable_set_mincolwidth :: "table_t \<Rightarrow> nat \<Rightarrow> nat \<Rightarrow> int \<times> table_t" where
  "utable_set_mincolwidth t col width =
     (if nCol t \<le> col then (-1, t) else (0, t\<lparr> mincolwidth := (mincolwidth t)[col := width] \<rparr>))"

definition utable_set_table_mincolwidth :: "table_t \<Rightarrow> nat \<Rightarrow> table_t" where
  "utable_set_table_mincolwidth t width =
     fold (\<lambda>c t. snd (utable_set_mincolwidth t c width)) [0..<nCol t] t"

definition utable_set_interior :: "table_t \<Rightarrow> bool \<Rightarrow> bool \<Rightarrow> table_t" where
  "utable_set_interior t v h = t\<lparr> interior_v := v, interior_h := h \<rparr>"

section \<open>The layout\<close>

lemma TIDX_inj:
  assumes "c < nCol t" and "c' < nCol t"
  shows "TIDX t r c = TIDX t r' c' \<longleftrightarrow> r = r' \<and> c = c'"
proof
  assume h: "TIDX t r c = TIDX t r' c'"
  have "TIDX t r c div nCol t = r" "TIDX t r' c' div nCol t = r'"
       "TIDX t r c mod nCol t = c" "TIDX t r' c' mod nCol t = c'"
    using assms by (simp_all add: TIDX_def)
  with h show "r = r' \<and> c = c'" by metis
qed simp

lemma TIDX_less: "r < k \<Longrightarrow> c < nCol t \<Longrightarrow> TIDX t r c < k * nCol t"
proof -
  assume "r < k" "c < nCol t"
  then have "r * nCol t + c < Suc r * nCol t" by simp
  also have "\<dots> \<le> k * nCol t" using \<open>r < k\<close> by (intro mult_le_mono1) simp
  finally show ?thesis by (simp add: TIDX_def)
qed

lemma TIDX_upd [simp]: "TIDX (t\<lparr> cells := x \<rparr>) = TIDX t"
  by (rule ext)+ (simp add: TIDX_def)

lemma size_of_int_id [simp]: "n < SIZE_MOD \<Longrightarrow> size_of_int (int n) = n"
  by (simp add: size_of_int_def)

lemma to_int32_nat [simp]: "n < 2 ^ 31 \<Longrightarrow> to_int32 (int n) = int n"
  by (rule to_int32_id) auto

text \<open>
  The fields on which the drawing loops depend, and the part of a table that only
  \<open>utable_set_cell_colspan\<close>, the title and the drawing change.
\<close>

definition shape :: "tcell_t \<Rightarrow> nat \<times> bool \<times> int \<times> int" where
  "shape x = (cspan x, merged x, pRow x, pCol x)"

definition tshape :: "table_t \<Rightarrow> nat \<times> nat \<times> (nat \<times> bool \<times> int \<times> int) list \<times> nat \<times> nat \<times> bool \<times> bool" where
  "tshape t = (nRow t, nCol t, map shape (cells t), length (colwidth t), length (mincolwidth t),
     titleCopied t, title t = None)"

text \<open>
  A table is well formed when its arrays have the sizes its dimensions need, every cell of a row spans
  at least itself and no more than the row has, merged cells point into the table, and the title row,
  once inserted, is one cell.
\<close>

definition cell_ok :: "nat \<Rightarrow> nat \<Rightarrow> nat \<Rightarrow> nat \<times> bool \<times> int \<times> int \<Rightarrow> bool" where
  "cell_ok nr nc c sh =
     (case sh of (sp, mg, pr, pc) \<Rightarrow>
        c + sp \<le> nc \<and> (mg \<longrightarrow> 0 \<le> pr \<and> pr < int nr \<and> 0 \<le> pc \<and> pc < int nc))"

definition tbl_ok :: "table_t \<Rightarrow> bool" where
  "tbl_ok t \<longleftrightarrow>
     (let extra = (if titleCopied t then 0 else 1); ss = map shape (cells t) in
      (titleCopied t \<longrightarrow> title t \<noteq> None) \<and> nRow t + extra < 2 ^ 31 \<and> nCol t < 2 ^ 31
      \<and> (nRow t + extra) * nCol t \<le> length ss
      \<and> length (colwidth t) = nCol t + 1 \<and> length (mincolwidth t) = nCol t + 1
      \<and> list_all (\<lambda>(r, c). cell_ok (nRow t) (nCol t) c (ss ! TIDX t r c)
            \<and> (if titleCopied t \<and> r = 0 then c = 0 \<longrightarrow> fst (ss ! TIDX t r c) = nCol t
               else 1 \<le> fst (ss ! TIDX t r c)))
          (row_col (nRow t) (nCol t)))"

lemma tbl_ok_cong: "tshape t' = tshape t \<Longrightarrow> tbl_ok t' = tbl_ok t"
proof -
  assume h: "tshape t' = tshape t"
  then have "TIDX t' = TIDX t"
    by (auto simp: fun_eq_iff TIDX_def tshape_def)
  with h show ?thesis
    unfolding tbl_ok_def Let_def tshape_def by (simp add: list_all_iff)
qed

lemma list_all_row_col: "list_all P (row_col m n) \<longleftrightarrow> (\<forall>r<m. \<forall>c<n. P (r, c))"
  by (auto simp: list_all_iff)

lemma tbl_ok_index:
  assumes "tbl_ok t" and "r < nRow t" and "c < nCol t"
  shows "TIDX t r c < length (cells t)"
proof -
  have "TIDX t r c < nRow t * nCol t" using TIDX_less assms(2,3) by blast
  also have "\<dots> \<le> length (cells t)"
    using assms(1) by (auto simp: tbl_ok_def Let_def split: if_splits)
  finally show ?thesis .
qed

lemma tbl_ok_cell:
  assumes "tbl_ok t" and "r < nRow t" and "c < nCol t"
  shows "c + cspan (cell t r c) \<le> nCol t"
    and "merged (cell t r c) \<Longrightarrow> 0 \<le> pRow (cell t r c) \<and> pRow (cell t r c) < int (nRow t)
           \<and> 0 \<le> pCol (cell t r c) \<and> pCol (cell t r c) < int (nCol t)"
    and "\<not> (titleCopied t \<and> r = 0) \<Longrightarrow> 1 \<le> cspan (cell t r c)"
    and "titleCopied t \<Longrightarrow> r = 0 \<Longrightarrow> c = 0 \<Longrightarrow> cspan (cell t r c) = nCol t"
proof -
  note i = tbl_ok_index [OF assms]
  have "cell_ok (nRow t) (nCol t) c (shape (cell t r c))
      \<and> (if titleCopied t \<and> r = 0 then c = 0 \<longrightarrow> cspan (cell t r c) = nCol t
         else 1 \<le> cspan (cell t r c))"
  proof -
    have "map shape (cells t) ! TIDX t r c = shape (cell t r c)" using i by simp
    moreover have "fst (shape (cell t r c)) = cspan (cell t r c)" by (simp add: shape_def)
    moreover have "(case (r, c) of (r, c) \<Rightarrow> cell_ok (nRow t) (nCol t) c (map shape (cells t) ! TIDX t r c)
            \<and> (if titleCopied t \<and> r = 0 then c = 0 \<longrightarrow> fst (map shape (cells t) ! TIDX t r c) = nCol t
               else 1 \<le> fst (map shape (cells t) ! TIDX t r c)))"
      using assms unfolding tbl_ok_def Let_def list_all_row_col by blast
    ultimately show ?thesis by (simp only: prod.case) blast
  qed
  then show "c + cspan (cell t r c) \<le> nCol t"
    and "merged (cell t r c) \<Longrightarrow> 0 \<le> pRow (cell t r c) \<and> pRow (cell t r c) < int (nRow t)
           \<and> 0 \<le> pCol (cell t r c) \<and> pCol (cell t r c) < int (nCol t)"
    and "\<not> (titleCopied t \<and> r = 0) \<Longrightarrow> 1 \<le> cspan (cell t r c)"
    and "titleCopied t \<Longrightarrow> r = 0 \<Longrightarrow> c = 0 \<Longrightarrow> cspan (cell t r c) = nCol t"
    by (auto simp: cell_ok_def shape_def split: if_splits)
qed

section \<open>Loops\<close>

lemma loop_chk_inv:
  assumes "\<And>i s. P s \<Longrightarrow> P (snd (f i s))" and "P s"
  shows "P (snd (loop_chk f is s))"
  using assms(2)
proof (induction "is" arbitrary: s)
  case (Cons i "is")
  have "P (snd (f i s))" using assms(1) Cons.prems by blast
  then show ?case using Cons.IH by (cases "f i s") (auto simp: Let_def)
qed simp

lemma fold_inv:
  assumes "\<And>i s. P s \<Longrightarrow> P (f i s)" and "P s"
  shows "P (fold f is s)"
  using assms(2) by (induction "is" arbitrary: s) (auto intro: assms(1))

lemma loop_chk_fold:
  assumes "\<And>i s. i \<in> set is \<Longrightarrow> P s \<Longrightarrow> f i s = (0, g i s) \<and> P (g i s)" and "P s"
  shows "loop_chk f is s = (0, fold g is s) \<and> P (fold g is s)"
  using assms
proof (induction "is" arbitrary: s)
  case (Cons i "is")
  have "f i s = (0, g i s)" "P (g i s)" using Cons.prems(1) [of i s] Cons.prems(2) by auto
  moreover have "loop_chk f is (g i s) = (0, fold g is (g i s)) \<and> P (fold g is (g i s))"
    by (rule Cons.IH) (use Cons.prems(1) \<open>P (g i s)\<close> in auto)
  ultimately show ?case by simp
qed simp

text \<open>Updating the entries of a list at different places, one after the other.\<close>

lemma fold_upd_length [simp]: "length (fold (\<lambda>p cs. cs[g p := h p (cs ! g p)]) ps cs) = length cs"
  by (induction ps arbitrary: cs) auto

lemma fold_upd_other:
  "i \<notin> g ` set ps \<Longrightarrow> fold (\<lambda>p cs. cs[g p := h p (cs ! g p)]) ps cs ! i = cs ! i"
  by (induction ps arbitrary: cs) (auto simp: nth_list_update)

lemma fold_upd_at:
  assumes "distinct (map g ps)" and "p \<in> set ps" and "g p < length cs"
  shows "fold (\<lambda>p cs. cs[g p := h p (cs ! g p)]) ps cs ! (g p) = h p (cs ! g p)"
  using assms
proof (induction ps arbitrary: cs)
  case (Cons q ps)
  show ?case
  proof (cases "p = q")
    case True
    then have "g p \<notin> g ` set ps" using Cons.prems(1) by auto
    with True Cons.prems(3) show ?thesis by (simp add: fold_upd_other)
  next
    case False
    with Cons.prems have p: "p \<in> set ps" "g p \<noteq> g q" by (auto simp: image_iff)
    with Cons.IH [of "cs[g q := h q (cs ! g q)]"] Cons.prems show ?thesis
      by (simp add: nth_list_update)
  qed
qed simp

section \<open>Operations keep the layout\<close>

lemma map_upd_same: "f (x) = f (xs ! i) \<Longrightarrow> map f (xs[i := x]) = map f xs"
  by (cases "i < length xs") (auto simp: map_update list_update_beyond list_update_same_conv)

lemma tshape_upd_cell:
  assumes "shape (f (cell t r c)) = shape (cell t r c)"
  shows "tshape (upd_cell f t r c) = tshape t"
  using assms by (auto simp: tshape_def intro!: map_upd_same)

named_theorems layout "operations that keep the layout of a table"

lemma tshape_set_cell [layout]: "tshape (snd (utable_set_cell t r c v)) = tshape t"
  by (auto simp: utable_set_cell_def shape_def intro!: tshape_upd_cell)

lemma tshape_cell_halign [layout]: "tshape (snd (utable_set_cell_halign t r c al)) = tshape t"
  by (auto simp: utable_set_cell_halign_def shape_def Let_def intro!: tshape_upd_cell)

lemma tshape_cellpadding [layout]: "tshape (snd (utable_set_cellpadding t r c lp rp)) = tshape t"
  by (auto simp: utable_set_cellpadding_def shape_def intro!: tshape_upd_cell)

lemma tshape_cellcallback [layout]: "tshape (snd (utable_set_cellcallback t r c cb)) = tshape t"
  by (auto simp: utable_set_cellcallback_def shape_def Let_def intro!: tshape_upd_cell)

lemma tshape_colwidth [layout]: "tshape (snd (utable_set_colwidth t c w)) = tshape t"
  by (auto simp: utable_set_colwidth_def tshape_def)

lemma tshape_mincolwidth [layout]: "tshape (snd (utable_set_mincolwidth t c w)) = tshape t"
  by (auto simp: utable_set_mincolwidth_def tshape_def)

lemma tshape_set [layout]: "tshape (snd (utable_set t d)) = tshape t"
  unfolding utable_set_def
  by (rule loop_chk_inv [where P = "\<lambda>u. tshape u = tshape t"]) (auto simp: layout)

lemma tshape_coltitles [layout]: "tshape (snd (utable_set_coltitles t d)) = tshape t"
  unfolding utable_set_coltitles_def Let_def
  by (rule loop_chk_inv [where P = "\<lambda>u. tshape u = tshape t"]) (auto simp: layout)

lemma tshape_row_halign [layout]: "tshape (snd (utable_set_row_halign t r al)) = tshape t"
  unfolding utable_set_row_halign_def
  by (rule loop_chk_inv [where P = "\<lambda>u. tshape u = tshape t"]) (auto simp: layout)

lemma tshape_table_halign [layout]: "tshape (snd (utable_set_table_halign t al)) = tshape t"
  unfolding utable_set_table_halign_def
  by (rule loop_chk_inv [where P = "\<lambda>u. tshape u = tshape t"]) (auto simp: layout)

lemma tshape_col_halign [layout]: "tshape (snd (utable_set_col_halign t c al)) = tshape t"
  unfolding utable_set_col_halign_def
  by (rule loop_chk_inv [where P = "\<lambda>u. tshape u = tshape t"]) (auto simp: layout)

lemma tshape_table_cellpadding [layout]: "tshape (utable_set_table_cellpadding t lp rp) = tshape t"
  unfolding utable_set_table_cellpadding_def
  by (rule fold_inv [where P = "\<lambda>u. tshape u = tshape t"]) (auto simp: layout)

lemma tshape_col_cellpadding [layout]: "tshape (utable_set_col_cellpadding t c lp rp) = tshape t"
  unfolding utable_set_col_cellpadding_def
  by (rule fold_inv [where P = "\<lambda>u. tshape u = tshape t"]) (auto simp: layout)

lemma tshape_table_cellcallback [layout]: "tshape (utable_set_table_cellcallback t cb) = tshape t"
  unfolding utable_set_table_cellcallback_def
  by (rule fold_inv [where P = "\<lambda>u. tshape u = tshape t"]) (auto simp: layout)

lemma tshape_table_colwidth [layout]: "tshape (utable_set_table_colwidth t w) = tshape t"
  unfolding utable_set_table_colwidth_def
  by (rule fold_inv [where P = "\<lambda>u. tshape u = tshape t"]) (auto simp: layout)

lemma tshape_table_mincolwidth [layout]: "tshape (utable_set_table_mincolwidth t w) = tshape t"
  unfolding utable_set_table_mincolwidth_def
  by (rule fold_inv [where P = "\<lambda>u. tshape u = tshape t"]) (auto simp: layout)

lemma tshape_simple [layout]:
  "tshape (utable_reset_table_colwidth t) = tshape t"
  "tshape (utable_set_headerline t b) = tshape t"
  "tshape (utable_set_interior t b b') = tshape t"
     apply (simp add: utable_reset_table_colwidth_def layout)
  by (simp_all add: utable_set_headerline_def utable_set_interior_def tshape_def)

lemma set_title_ok: "tbl_ok t \<Longrightarrow> tbl_ok (utable_set_title t ti ts)"
proof -
  assume ok: "tbl_ok t"
  let ?u = "utable_set_title t ti ts"
  have f: "TIDX ?u = TIDX t" "nRow ?u = nRow t" "nCol ?u = nCol t" "cells ?u = cells t"
    "colwidth ?u = colwidth t" "mincolwidth ?u = mincolwidth t" "titleCopied ?u = titleCopied t"
    "title ?u \<noteq> None"
    by (auto simp: fun_eq_iff TIDX_def utable_set_title_def)
  with ok show ?thesis unfolding tbl_ok_def Let_def f by blast
qed

lemma fold_upd_cell:
  "fold (\<lambda>p t. upd_cell (F p) t (fst p) (snd p)) ps t =
     t\<lparr> cells := fold (\<lambda>p cs. cs[TIDX t (fst p) (snd p) := F p (cs ! TIDX t (fst p) (snd p))])
                   ps (cells t) \<rparr>"
proof (induction ps arbitrary: t)
  case (Cons p ps)
  show ?case by (simp add: Cons.IH)
qed simp

lemma in_row_col: "p \<in> set (row_col m n) \<longleftrightarrow> fst p < m \<and> snd p < n"
  by (cases p) auto

lemma distinct_TIDX: "n \<le> nCol t \<Longrightarrow> distinct (map (\<lambda>p. TIDX t (fst p) (snd p)) (row_col m n))"
  by (subst distinct_map) (auto simp: inj_on_def distinct_product TIDX_inj)

section \<open>Creation\<close>

definition fresh_cell :: "tcell_t \<Rightarrow> bool" where
  "fresh_cell x \<longleftrightarrow> cell_cb x = None \<and> cell_t x = None \<and> halign x = LEFTALIGN \<and> \<not> merged x
     \<and> cspan x = 1 \<and> lpad x = 0 \<and> rpad x = 0"

lemma fold_upd_covers:
  assumes "\<And>p x. Q x \<Longrightarrow> Q (h p x) \<and> R (h p x)" and "\<forall>x\<in>set cs. Q x"
    and "i \<in> g ` set ps" and "i < length cs"
  shows "R (fold (\<lambda>p cs. cs[g p := h p (cs ! g p)]) ps cs ! i)"
  using assms(3)
proof (induction ps rule: rev_induct)
  case (snoc p ps)
  let ?cs = "fold (\<lambda>p cs. cs[g p := h p (cs ! g p)]) ps cs"
  have Q: "\<forall>x\<in>set ?cs. Q x"
  proof (rule fold_inv [where P = "\<lambda>cs. \<forall>x\<in>set cs. Q x"])
    fix p xs
    assume q: "\<forall>x\<in>set xs. Q x"
    show "\<forall>x\<in>set (xs[g p := h p (xs ! g p)]). Q x"
    proof (cases "g p < length xs")
      case True
      then have "Q (h p (xs ! g p))" using q assms(1) by auto
      then show ?thesis using q set_update_subset_insert [of xs "g p" "h p (xs ! g p)"] by auto
    qed (use q in \<open>simp add: list_update_beyond\<close>)
  qed (use assms(2) in simp)
  show ?case
  proof (cases "i = g p")
    case True
    then have "Q (?cs ! g p)" using Q assms(4) by simp
    with True assms(1,4) show ?thesis by simp
  next
    case False
    with snoc show ?thesis by (auto simp: nth_list_update)
  qed
qed simp

lemma utable_create_fields:
  "nRow (utable_create nr nc) = nr" "nCol (utable_create nr nc) = nc"
  "length (cells (utable_create nr nc)) = Suc nr * Suc nc"
  "colwidth (utable_create nr nc) = replicate (Suc nc) 0"
  "mincolwidth (utable_create nr nc) = replicate (Suc nc) 0"
  "title (utable_create nr nc) = None" "\<not> titleCopied (utable_create nr nc)"
  "interior_v (utable_create nr nc) = False" "interior_h (utable_create nr nc) = False"
  "headerLine (utable_create nr nc) = True"
  and utable_create_cells: "i < Suc nr * nc \<Longrightarrow> fresh_cell (cells (utable_create nr nc) ! i)"
proof -
  define t0 where "t0 = \<lparr> tag = 0, nRow = nr, nCol = nc,
                cells = replicate (Suc nr * Suc nc) zero_cell,
                colwidth = replicate (Suc nc) 0, mincolwidth = replicate (Suc nc) 0,
                title = None, titleCopied = False, titleStyle = TITLESTYLE_LINE,
                interior_v = False, interior_h = False, headerLine = True \<rparr>"
  define F where "F = (\<lambda>(p :: nat \<times> nat) (c :: tcell_t). c\<lparr> cell_t := None, halign := LEFTALIGN, pRow := to_int32 (int (fst p)),
                          pCol := to_int32 (int (snd p)), merged := False, cspan := 1, rspan := 1 \<rparr>)"
  define cs where "cs = fold (\<lambda>p cs. cs[TIDX t0 (fst p) (snd p) := F p (cs ! TIDX t0 (fst p) (snd p))])
      (row_col (Suc nr) (Suc nc)) (cells t0)"
  have "loop_chk (\<lambda>(r, c) t. utable_init_cell t r c) (row_col (Suc nr) (Suc nc)) t0
      = (0, fold (\<lambda>p t. upd_cell (F p) t (fst p) (snd p)) (row_col (Suc nr) (Suc nc)) t0) \<and> True"
    by (rule loop_chk_fold) (auto simp: utable_init_cell_def F_def simp del: upt_Suc)
  then have t: "utable_create nr nc = t0\<lparr> cells := cs \<rparr>"
    unfolding utable_create_def t0_def [symmetric] Let_def cs_def fold_upd_cell [symmetric]
    by (simp only: snd_conv)
  have lcs: "length cs = Suc nr * Suc nc" unfolding cs_def
    by (subst fold_upd_length [of "\<lambda>p. TIDX t0 (fst p) (snd p)" F]) (simp add: t0_def)
  show "nRow (utable_create nr nc) = nr" "nCol (utable_create nr nc) = nc"
    "length (cells (utable_create nr nc)) = Suc nr * Suc nc"
    "colwidth (utable_create nr nc) = replicate (Suc nc) 0"
    "mincolwidth (utable_create nr nc) = replicate (Suc nc) 0"
    "title (utable_create nr nc) = None" "\<not> titleCopied (utable_create nr nc)"
    "interior_v (utable_create nr nc) = False" "interior_h (utable_create nr nc) = False"
    "headerLine (utable_create nr nc) = True"
    by (simp_all add: t lcs del: mult_Suc mult_Suc_right) (simp_all add: t0_def)
  assume i: "i < Suc nr * nc"
  then have "nc \<noteq> 0" by (cases nc) auto
  have len: "length (cells t0) = Suc nr * Suc nc" by (simp add: t0_def)
  have "i div nc < Suc nr" "i mod nc < nc" "TIDX t0 (i div nc) (i mod nc) = i"
    using i \<open>nc \<noteq> 0\<close> by (simp_all add: less_mult_imp_div_less TIDX_def t0_def del: mult_Suc)
  then have "i \<in> (\<lambda>p. TIDX t0 (fst p) (snd p)) ` set (row_col (Suc nr) (Suc nc))"
    by (intro image_eqI [of _ _ "(i div nc, i mod nc)"]) (auto simp: in_row_col simp del: mult_Suc)
  moreover have "i < length (cells t0)"
    unfolding len by (rule less_le_trans [OF i]) simp
  ultimately have "fresh_cell (cs ! i)"
    unfolding cs_def
    by (rule fold_upd_covers [where Q = "\<lambda>x. cell_cb x = None \<and> lpad x = 0 \<and> rpad x = 0", rotated 2])
      (auto simp: F_def fresh_cell_def t0_def zero_cell_def)
  then show "fresh_cell (cells (utable_create nr nc) ! i)" by (simp add: t)
qed

lemma utable_create_ok:
  assumes "nr + 1 < 2 ^ 31" and "nc < 2 ^ 31"
  shows "tbl_ok (utable_create nr nc)"
proof -
  let ?t = "utable_create nr nc"
  have "cell_ok nr nc c (map shape (cells ?t) ! TIDX ?t r c) \<and> 1 \<le> fst (map shape (cells ?t) ! TIDX ?t r c)"
    if "r < nr" "c < nc" for r c
  proof -
    have i: "TIDX ?t r c < nr * nc"
      using TIDX_less [of r nr c ?t] that by (simp add: utable_create_fields)
    then have "fresh_cell (cell ?t r c)" by (intro utable_create_cells) simp
    moreover have "TIDX ?t r c < length (cells ?t)" using i by (simp add: utable_create_fields)
    ultimately show ?thesis using that by (auto simp: fresh_cell_def shape_def cell_ok_def)
  qed
  then show ?thesis
    using assms unfolding tbl_ok_def Let_def list_all_row_col
    by (simp add: utable_create_fields)
qed

section \<open>Texts\<close>

lemma utable_set_fold:
  assumes "tbl_ok t" and "\<forall>r<nRow t. \<forall>c<nCol t. \<not> merged (cell t r c)"
  shows "utable_set t data = (0, t\<lparr> cells :=
     fold (\<lambda>p cs. cs[TIDX t (fst p) (snd p) :=
                    (cs ! TIDX t (fst p) (snd p))\<lparr> cell_t := Some (data ! TIDX t (fst p) (snd p)) \<rparr>])
       (row_col (nRow t) (nCol t)) (cells t) \<rparr>)"
proof -
  let ?F = "\<lambda>p x. x\<lparr> cell_t := Some (data ! TIDX t (fst p) (snd p)) \<rparr>"
  let ?P = "\<lambda>u. TIDX u = TIDX t \<and> nRow u = nRow t \<and> nCol u = nCol t \<and> map merged (cells u) = map merged (cells t)"
  have "loop_chk (\<lambda>(r, c) t. utable_set_cell t r c (data ! TIDX t r c)) (row_col (nRow t) (nCol t)) t
      = (0, fold (\<lambda>p t. upd_cell (?F p) t (fst p) (snd p)) (row_col (nRow t) (nCol t)) t)
      \<and> ?P (fold (\<lambda>p t. upd_cell (?F p) t (fst p) (snd p)) (row_col (nRow t) (nCol t)) t)"
  proof (rule loop_chk_fold)
    fix p and u
    assume p: "p \<in> set (row_col (nRow t) (nCol t))" and u: "?P u"
    then have rc: "fst p < nRow t" "snd p < nCol t" by (auto simp: in_row_col)
    then have i: "TIDX t (fst p) (snd p) < length (cells t)"
      by (rule tbl_ok_index [OF assms(1)])
    have "length (cells u) = length (cells t)" using u by (metis length_map)
    then have "merged (cell u (fst p) (snd p)) = merged (cell t (fst p) (snd p))"
      using u i by (metis nth_map)
    then have m: "\<not> merged (cell u (fst p) (snd p))" using assms(2) rc by simp
    with u rc show "(case p of (r, c) \<Rightarrow> \<lambda>t. utable_set_cell t r c (data ! TIDX t r c)) u
        = (0, upd_cell (?F p) u (fst p) (snd p)) \<and> ?P (upd_cell (?F p) u (fst p) (snd p))"
      by (cases p) (auto simp: utable_set_cell_def utable_rc_chk_def map_upd_same)
  qed simp
  then show ?thesis
    unfolding utable_set_def fold_upd_cell [of ?F] by blast
qed

lemma utable_create_set_cells:
  assumes "nr + 1 < 2 ^ 31" and "nc < 2 ^ 31"
  shows "\<exists>t. utable_create_set nr nc data = Some t \<and> tbl_ok t \<and> nRow t = nr \<and> nCol t = nc
     \<and> colwidth t = replicate (Suc nc) 0 \<and> mincolwidth t = replicate (Suc nc) 0
     \<and> title t = None \<and> \<not> titleCopied t \<and> \<not> interior_v t \<and> \<not> interior_h t \<and> headerLine t
     \<and> (\<forall>r<nr. \<forall>c<nc. \<exists>x. fresh_cell x \<and> cell t r c = x\<lparr> cell_t := Some (data ! (r * nc + c)) \<rparr>)"
proof -
  let ?t = "utable_create nr nc"
  let ?g = "\<lambda>p. TIDX ?t (fst p) (snd p)"
  let ?F = "\<lambda>p x. x\<lparr> cell_t := Some (data ! TIDX ?t (fst p) (snd p)) \<rparr>"
  note ok = utable_create_ok [OF assms]
  note [simp] = utable_create_fields
  have fresh: "fresh_cell (cell ?t r c)" if "r < nr" "c < nc" for r c
  proof -
    have "TIDX ?t r c < Suc nr * nc" using TIDX_less [of r "Suc nr" c ?t] that by simp
    then show ?thesis by (rule utable_create_cells)
  qed
  then have unm: "\<forall>r<nRow ?t. \<forall>c<nCol ?t. \<not> merged (cell ?t r c)" by (simp add: fresh_cell_def)
  define t where "t = ?t\<lparr> cells := fold (\<lambda>p cs. cs[?g p := ?F p (cs ! ?g p)]) (row_col nr nc) (cells ?t) \<rparr>"
  have set: "utable_set ?t data = (0, t)"
    using utable_set_fold [OF ok unm, of data] by (simp add: t_def)
  have "tshape t = tshape ?t" using tshape_set [of ?t data] set by simp
  then have tok: "tbl_ok t" using ok tbl_ok_cong by blast
  have "\<exists>x. fresh_cell x \<and> cell t r c = x\<lparr> cell_t := Some (data ! (r * nc + c)) \<rparr>" if "r < nr" "c < nc" for r c
  proof -
    have "cell t r c = ?F (r, c) (cell ?t r c)"
      using fold_upd_at [of ?g "row_col nr nc" "(r, c)" "cells ?t" ?F] that distinct_TIDX [of nc ?t nr]
        tbl_ok_index [OF ok, of r c]
      by (simp add: t_def)
    then show ?thesis using fresh [OF that] by (auto simp: TIDX_def)
  qed
  moreover have "utable_create_set nr nc data = Some t" by (simp add: utable_create_set_def set)
  moreover have "colwidth t = replicate (Suc nc) 0" "mincolwidth t = replicate (Suc nc) 0" "title t = None"
    "\<not> titleCopied t" "\<not> interior_v t" "\<not> interior_h t" "headerLine t" "nRow t = nr" "nCol t = nc"
    by (simp_all add: t_def)
  ultimately show ?thesis using tok by blast
qed

section \<open>Spans\<close>

lemma fold_upd_cell_row:
  "fold (\<lambda>c t. upd_cell (F c) t row c) xs t =
     t\<lparr> cells := fold (\<lambda>c cs. cs[TIDX t row c := F c (cs ! TIDX t row c)]) xs (cells t) \<rparr>"
proof (induction xs arbitrary: t)
  case (Cons c xs)
  show ?case by (simp add: Cons.IH)
qed simp

lemma size_pred:
  assumes "0 < n" and "n < SIZE_MOD"
  shows "(n + (SIZE_MOD - 1)) mod SIZE_MOD = n - 1"
proof -
  have "n + (SIZE_MOD - 1) = (n - 1) + SIZE_MOD" using assms by (simp add: SIZE_MOD_def)
  then have "(n + (SIZE_MOD - 1)) mod SIZE_MOD = (n - 1) mod SIZE_MOD" by (simp only: mod_add_self2)
  also have "\<dots> = n - 1" using assms by simp
  finally show ?thesis .
qed

lemma colspan_accepted:
  assumes "utable_set_cell_colspan t row col span = (0, t')" and "nCol t < 2 ^ 31" and "span < 2 ^ 63"
    and "0 < span"
  shows "row < nRow t" and "col + span \<le> nCol t"
proof -
  have rc: "row < nRow t" "col < nCol t" and
    le: "(col + span + (SIZE_MOD - 1)) mod SIZE_MOD < nCol t"
    using assms(1) by (auto simp: utable_set_cell_colspan_def utable_rc_chk_def split: if_splits)
  have "col + span < SIZE_MOD"
    using rc(2) assms(2,3) by (simp add: SIZE_MOD_def)
  then have "(col + span + (SIZE_MOD - 1)) mod SIZE_MOD = col + span - 1"
    using assms(4) by (intro size_pred) simp_all
  with le assms(4) show "col + span \<le> nCol t" by simp
  show "row < nRow t" by (rule rc(1))
qed

lemma colspan_cells:
  assumes "tbl_ok t" and "row < nRow t" and "0 < span" and "col + span \<le> nCol t"
  shows "\<exists>t'. utable_set_cell_colspan t row col span = (0, t')
     \<and> (\<forall>r c. r < nRow t \<longrightarrow> c < nCol t \<longrightarrow> cell t' r c =
          (if r = row \<and> c = col
           then (cell t r c)\<lparr> cspan := span, merged := False, pRow := int row, pCol := int col \<rparr>
           else if r = row \<and> col < c \<and> c < col + span
           then (cell t r c)\<lparr> merged := True, pRow := int row, pCol := int col \<rparr>
           else cell t r c))
     \<and> nRow t' = nRow t \<and> nCol t' = nCol t \<and> length (cells t') = length (cells t)
     \<and> colwidth t' = colwidth t \<and> mincolwidth t' = mincolwidth t \<and> title t' = title t
     \<and> titleCopied t' = titleCopied t"
proof -
  have lim: "nRow t < 2 ^ 31" "nCol t < 2 ^ 31" using assms(1) by (auto simp: tbl_ok_def Let_def)
  have col: "col < nCol t" using assms(3,4) by simp
  have "col + span < SIZE_MOD"
    using assms(4) lim by (simp add: SIZE_MOD_def)
  then have arith: "(col + span + (SIZE_MOD - 1)) mod SIZE_MOD = col + span - 1"
    "(col + span) mod SIZE_MOD = col + span" using assms(3) size_pred [of "col + span"] by auto
  define F where "F = (\<lambda>(c::nat) (x :: tcell_t). x\<lparr> merged := True, pRow := int row, pCol := int col \<rparr>)"
  define t1 where "t1 = upd_cell (\<lambda>x. x\<lparr> cspan := span, merged := False, pRow := int row, pCol := int col \<rparr>) t row col"
  define t' where "t' = t1\<lparr> cells := fold (\<lambda>c cs. cs[TIDX t row c := F c (cs ! TIDX t row c)])
      [col + 1..<col + span] (cells t1) \<rparr>"
  have TIDX1: "TIDX t1 = TIDX t" by (simp add: t1_def)
  have "utable_set_cell_colspan t row col span
      = (0, fold (\<lambda>c t. upd_cell (F c) t row c) [col + 1..<col + span] t1)"
    unfolding utable_set_cell_colspan_def arith F_def t1_def
    using assms(2,3,4) col lim by (simp add: utable_rc_chk_def)
  then have eq: "utable_set_cell_colspan t row col span = (0, t')"
    unfolding fold_upd_cell_row [where F = F] t'_def TIDX1 .
  have dist: "distinct (map (TIDX t row) [col + 1..<col + span])"
    using assms(4) by (auto simp: distinct_map inj_on_def TIDX_inj)
  have cellv: "cell t' r c = (if r = row \<and> c = col
           then (cell t r c)\<lparr> cspan := span, merged := False, pRow := int row, pCol := int col \<rparr>
           else if r = row \<and> col < c \<and> c < col + span
           then (cell t r c)\<lparr> merged := True, pRow := int row, pCol := int col \<rparr>
           else cell t r c)" if "r < nRow t" "c < nCol t" for r c
  proof -
    have TI: "TIDX t' = TIDX t" by (simp add: t'_def t1_def)
    note idx = tbl_ok_index [OF assms(1) that]
    have c1: "cell t1 r c = (if r = row \<and> c = col
           then (cell t r c)\<lparr> cspan := span, merged := False, pRow := int row, pCol := int col \<rparr>
           else cell t r c)"
    proof (cases "r = row \<and> c = col")
      case True
      then show ?thesis using idx by (auto simp: t1_def)
    next
      case False
      then have "TIDX t row col \<noteq> TIDX t r c" using TIDX_inj [OF col that(2)] by auto
      with False show ?thesis by (auto simp: t1_def)
    qed
    show ?thesis
    proof (cases "r = row \<and> col < c \<and> c < col + span")
      case True
      have "cells t' ! TIDX t row c = F c (cells t1 ! TIDX t row c)"
        using fold_upd_at [OF dist, of c "cells t1" F] True idx by (simp add: t'_def t1_def)
      with True show ?thesis using c1 by (simp add: TI TIDX1 F_def)
    next
      case False
      have "TIDX t r c \<notin> TIDX t row ` set [col + 1..<col + span]"
        using False that assms(4) by (auto simp: TIDX_inj)
      then have "cells t' ! TIDX t r c = cells t1 ! TIDX t r c"
        using fold_upd_other [of _ "TIDX t row" _ F "cells t1"] by (simp add: t'_def)
      with False show ?thesis using c1 by (auto simp: TI TIDX1)
    qed
  qed
  show ?thesis
  proof (intro exI [of _ t'] conjI)
    show "\<forall>r c. r < nRow t \<longrightarrow> c < nCol t \<longrightarrow> cell t' r c =
          (if r = row \<and> c = col
           then (cell t r c)\<lparr> cspan := span, merged := False, pRow := int row, pCol := int col \<rparr>
           else if r = row \<and> col < c \<and> c < col + span
           then (cell t r c)\<lparr> merged := True, pRow := int row, pCol := int col \<rparr>
           else cell t r c)"
      using cellv by blast
  qed (use eq in \<open>simp_all add: t'_def t1_def\<close>)
qed

section \<open>Layout of spans\<close>

lemma tbl_okI:
  assumes "nRow t + (if titleCopied t then 0 else 1) < 2 ^ 31" and "nCol t < 2 ^ 31"
    and "(nRow t + (if titleCopied t then 0 else 1)) * nCol t \<le> length (cells t)"
    and "length (colwidth t) = nCol t + 1" and "length (mincolwidth t) = nCol t + 1"
    and "\<And>r c. r < nRow t \<Longrightarrow> c < nCol t \<Longrightarrow>
           cell_ok (nRow t) (nCol t) c (shape (cell t r c))
           \<and> (if titleCopied t \<and> r = 0 then c = 0 \<longrightarrow> cspan (cell t r c) = nCol t
              else 1 \<le> cspan (cell t r c))"
    and "titleCopied t \<longrightarrow> title t \<noteq> None"
  shows "tbl_ok t"
proof -
  have idx: "TIDX t r c < length (cells t)" if "r < nRow t" "c < nCol t" for r c
  proof -
    have "TIDX t r c < nRow t * nCol t" using TIDX_less that by blast
    also have "\<dots> \<le> length (cells t)" using assms(3) by (auto split: if_splits)
    finally show ?thesis .
  qed
  have "cell_ok (nRow t) (nCol t) c (map shape (cells t) ! TIDX t r c)
           \<and> (if titleCopied t \<and> r = 0 then c = 0 \<longrightarrow> fst (map shape (cells t) ! TIDX t r c) = nCol t
              else 1 \<le> fst (map shape (cells t) ! TIDX t r c))" if "r < nRow t" "c < nCol t" for r c
  proof -
    have "map shape (cells t) ! TIDX t r c = shape (cell t r c)" using idx [OF that] by simp
    moreover have "fst (shape (cell t r c)) = cspan (cell t r c)" by (simp add: shape_def)
    ultimately show ?thesis using assms(6) [OF that] by (simp only:) blast
  qed
  then show ?thesis
    using assms(1-5,7) unfolding tbl_ok_def Let_def list_all_row_col length_map prod.case by blast
qed

lemma colspan_keeps_ok:
  assumes "tbl_ok t" and "0 < span" and "span < 2 ^ 63" and "\<not> (titleCopied t \<and> row = 0)"
  shows "tbl_ok (snd (utable_set_cell_colspan t row col span))"
proof (cases "fst (utable_set_cell_colspan t row col span) = 0")
  case False
  then show ?thesis
    using assms(1) by (auto simp: utable_set_cell_colspan_def Let_def split: if_splits)
next
  case True
  obtain t' where eq: "utable_set_cell_colspan t row col span = (0, t')"
    using True by (metis prod.collapse)
  have lim: "nCol t < 2 ^ 31" using assms(1) by (simp add: tbl_ok_def Let_def)
  note acc = colspan_accepted [OF eq lim assms(3,2)]
  from colspan_cells [OF assms(1) acc(1) assms(2) acc(2)] obtain
    cellv: "\<And>r c. r < nRow t \<Longrightarrow> c < nCol t \<Longrightarrow> cell t' r c =
          (if r = row \<and> c = col
           then (cell t r c)\<lparr> cspan := span, merged := False, pRow := int row, pCol := int col \<rparr>
           else if r = row \<and> col < c \<and> c < col + span
           then (cell t r c)\<lparr> merged := True, pRow := int row, pCol := int col \<rparr>
           else cell t r c)"
    and f: "nRow t' = nRow t" "nCol t' = nCol t" "length (cells t') = length (cells t)"
      "colwidth t' = colwidth t" "mincolwidth t' = mincolwidth t" "title t' = title t"
      "titleCopied t' = titleCopied t"
    using eq by auto
  have "tbl_ok t'"
  proof (rule tbl_okI)
    fix r c assume rc: "r < nRow t'" "c < nCol t'"
    then have rc: "r < nRow t" "c < nCol t" by (simp_all add: f)
    note old = tbl_ok_cell [OF assms(1) rc]
    have col: "col < nCol t" using acc(2) assms(2) by simp
    show "cell_ok (nRow t') (nCol t') c (shape (cell t' r c)) \<and>
         (if titleCopied t' \<and> r = 0 then c = 0 \<longrightarrow> cspan (cell t' r c) = nCol t'
          else 1 \<le> cspan (cell t' r c))"
      unfolding cellv [OF rc] f
      using old acc assms(2,4) rc col by (auto simp: cell_ok_def shape_def)
  qed (use assms(1) f in \<open>simp_all add: tbl_ok_def Let_def\<close>)
  with eq show ?thesis by simp
qed

end
