(* ===== verification/Unitbl_Draw.thy ===== *)
theory Unitbl_Draw
  imports Unitbl
begin

text \<open>
  Drawing a table as text (\<^verbatim>\<open>libunitbl/unicode_tbl.c\<close>): the automatic column widths, the title row,
  the characters of the border styles, the border lines with their crossings, the rows with the
  aligned texts, and \<open>utable_strstroke\<close>, which writes all of it into a buffer. What the C code does
  outside its buffers or with missing texts is a value of \<open>stroke_fault\<close>. The loops that advance by
  the span of a cell carry the number of columns as fuel, which is enough when no span is 0; a cell of
  span 0 makes the loops of the C code run forever, the value \<open>NoEnd\<close>.
\<close>

section \<open>Outcomes\<close>

datatype stroke_fault =
    Overrun    \<comment> \<open>a write outside a buffer\<close>
  | NullText   \<comment> \<open>\<open>NULL\<close> given to a \<open>%s\<close> of \<open>snprintf\<close>\<close>
  | BadIndex   \<comment> \<open>an index outside the columns or the line map\<close>
  | BadText    \<comment> \<open>a read past the end of a text that ends inside a character\<close>
  | NoEnd      \<comment> \<open>a loop that does not end\<close>
  | Exits      \<comment> \<open>the program is stopped with \<open>exit\<close>\<close>

type_synonym 'a stroked = "stroke_fault + 'a"

definition and_then :: "'a stroked \<Rightarrow> ('a \<Rightarrow> 'b stroked) \<Rightarrow> 'b stroked" where
  "and_then m f = (case m of Inl e \<Rightarrow> Inl e | Inr x \<Rightarrow> f x)"

fun loop_ok :: "('i \<Rightarrow> 's \<Rightarrow> 's stroked) \<Rightarrow> 'i list \<Rightarrow> 's \<Rightarrow> 's stroked" where
  "loop_ok f [] s = Inr s"
| "loop_ok f (i # is) s = and_then (f i s) (\<lambda>s'. loop_ok f is s')"

section \<open>Characters\<close>

definition utf8len :: "string \<Rightarrow> nat" where
  "utf8len s = length (filter (\<lambda>c. byte c AND 0xC0 \<noteq> 0x80) s)"

abbreviation text_len :: "string option \<Rightarrow> nat" where
  "text_len s \<equiv> (case s of None \<Rightarrow> 0 | Some v \<Rightarrow> utf8len v)"

text \<open>The UTF-8 bytes of \<open>U+2500\<close> to \<open>U+257F\<close>, the box drawing characters.\<close>

definition box_char :: "nat \<Rightarrow> string" where
  "box_char n = [CHR 0xE2, char_of (0x94 + n div 64), char_of (0x80 + n mod 64)]"

section \<open>The output buffer\<close>

text \<open>
  The text written so far, the counter \<open>buffleft\<close> and the size of the buffer.
\<close>

record outbuf =
  ob_text :: string
  ob_left :: int
  ob_size :: nat

abbreviation (input) MAXPBUFF :: nat where "MAXPBUFF \<equiv> 10 * 1024"
abbreviation (input) MAXPADCHARS :: nat where "MAXPADCHARS \<equiv> 256"

text \<open>
  The three statements that write a piece of text: \<open>snprintf\<close> into \<open>pbuff\<close>, which returns the full
  length, \<open>xstrlcat\<close> with the room that is left as the size, and the subtraction.
\<close>

definition emit :: "string \<Rightarrow> outbuf \<Rightarrow> outbuf stroked" where
  "emit piece ob =
     (let pbuff = snprintf MAXPBUFF piece;
          b = fst (xstrlcat (ob_text ob) pbuff (size_of_int (ob_left ob)))
      in if ob_size ob \<le> length b then Inl Overrun
         else Inr (ob\<lparr> ob_text := b, ob_left := ob_left ob - int (length piece) \<rparr>))"

section \<open>Widths\<close>

definition utable_get_cp :: "table_t \<Rightarrow> nat \<Rightarrow> nat \<Rightarrow> nat \<times> nat" where
  "utable_get_cp t row col =
     (let x = cell t row col;
          y = (if merged x then cell t (size_of_int (pRow x)) (size_of_int (pCol x)) else x)
      in (lpad y, rpad y))"

definition auto_width_row :: "table_t \<Rightarrow> nat \<Rightarrow> nat \<Rightarrow> nat \<Rightarrow> nat" where
  "auto_width_row t c r width =
     (let (lp, rp) = utable_get_cp t r c; n = text_len (cell_t (cell t r c)) + lp + rp
      in if width < n then n else width)"

definition auto_width :: "table_t \<Rightarrow> nat \<Rightarrow> nat" where
  "auto_width t c =
     (let startrow = (if title t \<noteq> None \<and> titleCopied t then 1 else 0);
          w = fold (auto_width_row t c) [startrow..<nRow t] 0;
          w' = max w (mincolwidth t ! c)
      in if w' = 0 then 1 else w')"

definition utable_set_autocolwidth :: "table_t \<Rightarrow> table_t" where
  "utable_set_autocolwidth t =
     fold (\<lambda>c t. if colwidth t ! c = 0 then t\<lparr> colwidth := (colwidth t)[c := auto_width t c] \<rparr> else t)
       [0..<nCol t] t"

section \<open>One cell\<close>

text \<open>
  Calling the call-back of a cell: its text replaces the text of the cell.
\<close>

definition call_back :: "table_t \<Rightarrow> nat \<Rightarrow> nat \<Rightarrow> table_t" where
  "call_back t row c =
     (case cell_cb (cell t row c) of
        None \<Rightarrow> t
      | Some cb \<Rightarrow>
          (case cb (to_int32 (int row - (if title t \<noteq> None then 1 else 0))) (to_int32 (int c)) (tag t) of
             None \<Rightarrow> t
           | Some s \<Rightarrow> upd_cell (\<lambda>x. x\<lparr> cell_t := Some s \<rparr>) t row c))"

text \<open>The sum of the widths of the columns a cell spans, with the borders between them.\<close>

definition span_width :: "table_t \<Rightarrow> nat \<Rightarrow> nat \<Rightarrow> nat" where
  "span_width t row c = sum_list (map (\<lambda>cs. colwidth t ! (c + cs) + 1) [0..<cspan (cell t row c)])"

definition copy_to_txtbuff :: "string \<Rightarrow> nat \<Rightarrow> string stroked" where
  "copy_to_txtbuff s n =
     (let d = fst (xstrlcpy s n) in if 512 \<le> length d then Inl Overrun else Inr d)"

text \<open>
  The text of a cell with its padding, cut to the width \<open>w\<close>; the flag is the static variable
  \<open>cut_in_padding\<close>.
\<close>

definition padded_text :: "bool \<Rightarrow> nat \<Rightarrow> nat \<Rightarrow> int \<Rightarrow> string option \<Rightarrow> string stroked" where
  "padded_text cut_in_padding lp rp w txt =
     (if MAXPADCHARS \<le> lp \<or> MAXPADCHARS \<le> rp then Inl Overrun
      else case txt of None \<Rightarrow> Inl NullText
      | Some s \<Rightarrow>
        let lpadstr = replicate lp (CHR '' ''); rpadstr = replicate rp (CHR '' '') in
        if cut_in_padding then
          let txtbuff2 = snprintf 1024 (lpadstr @ s @ rpadstr) in
          case xmb_offset txtbuff2 w of
            None \<Rightarrow> Inl BadText
          | Some len \<Rightarrow> copy_to_txtbuff txtbuff2 (len + 1)
        else
          let txtbuff2 = snprintf 1024 (lpadstr @ s) in
          case xmb_offset txtbuff2 (to_int32 (w - int rp)) of
            None \<Rightarrow> Inl BadText
          | Some len \<Rightarrow>
              and_then (copy_to_txtbuff txtbuff2 (len + 1)) (\<lambda>txtbuff.
                let txtbuff2 = snprintf 1024 (txtbuff @ rpadstr) in
                case xmb_offset txtbuff2 w of
                  None \<Rightarrow> Inl BadText
                | Some len2 \<Rightarrow> copy_to_txtbuff txtbuff2 (len2 + 1 + 1)))"

text \<open>Division of an \<open>int\<close> by 2, and the blanks that \<open>%*s\<close> makes of a width and an empty text.\<close>

definition half :: "int \<Rightarrow> int" where
  "half w = (if w < 0 then - ((- w) div 2) else w div 2)"

definition blanks :: "int \<Rightarrow> string" where
  "blanks n = replicate (nat \<bar>n\<bar>) (CHR '' '')"

text \<open>
  The padded text in its column: \<open>mid\<close> is the border to its left.
\<close>

definition align_text :: "halign_t \<Rightarrow> int \<Rightarrow> string \<Rightarrow> string \<Rightarrow> string stroked" where
  "align_text al w mid txtbuff =
     (let n = utf8len txtbuff; fill = (if int n < w then nat (w - int n) else 0) in
      if MAXPADCHARS \<le> fill then Inl Overrun
      else case al of
        RIGHTALIGN \<Rightarrow> Inr (mid @ replicate fill (CHR '' '') @ txtbuff)
      | LEFTALIGN \<Rightarrow> Inr (mid @ txtbuff @ replicate fill (CHR '' ''))
      | CENTERALIGN \<Rightarrow>
          let w_half = half w; len_half = int (n div 2);
              padlen = nat (to_int32 (w - w_half + len_half - int n)) in
          if MAXPADCHARS \<le> padlen then Inl Overrun
          else Inr (mid @ blanks (w_half - len_half) @ txtbuff @ replicate padlen (CHR '' '')))"

section \<open>Rows and border lines\<close>

text \<open>
  One row of texts. The state of the loop is the table, whose texts the call-backs change, and the
  output.
\<close>

fun draw_cells :: "nat \<Rightarrow> bool \<Rightarrow> string \<Rightarrow> string \<Rightarrow> nat \<Rightarrow> nat \<Rightarrow> table_t \<times> outbuf \<Rightarrow> (table_t \<times> outbuf) stroked" where
  "draw_cells fuel cutpad midleft midvert row c (t, ob) =
     (if nCol t \<le> c then Inr (t, ob)
      else case fuel of 0 \<Rightarrow> Inl NoEnd
      | Suc n \<Rightarrow>
        let sp = cspan (cell t row c); (lp, rp) = utable_get_cp t row c in
        if length (colwidth t) < c + sp then Inl BadIndex
        else let w = to_int32 (int (span_width t row c) - 1);
                 al = halign (cell t row c);
                 t' = call_back t row c in
          and_then (padded_text cutpad lp rp w (cell_t (cell t' row c))) (\<lambda>txtbuff.
          and_then (align_text al w (if c = 0 then midleft else midvert) txtbuff) (\<lambda>piece.
          and_then (emit piece ob) (\<lambda>ob'.
          draw_cells n cutpad midleft midvert row (c + sp) (t', ob')))))"

declare draw_cells.simps [simp del]

definition utable_draw_cellcontent_row ::
    "bool \<Rightarrow> string \<Rightarrow> string \<Rightarrow> string \<Rightarrow> nat \<Rightarrow> table_t \<times> outbuf \<Rightarrow> (table_t \<times> outbuf) stroked" where
  "utable_draw_cellcontent_row cutpad midleft midright midvert row s =
     and_then (draw_cells (nCol (fst s)) cutpad midleft midvert row 0 s) (\<lambda>(t, ob).
     and_then (emit (midright @ [LF]) ob) (\<lambda>ob'. Inr (t, ob')))"

fun mark_loop :: "nat \<Rightarrow> table_t \<Rightarrow> nat \<Rightarrow> nat \<Rightarrow> nat \<Rightarrow> nat \<Rightarrow> nat list \<Rightarrow> nat list stroked" where
  "mark_loop fuel t mark row c absw eval =
     (if nCol t \<le> c then Inr eval
      else case fuel of 0 \<Rightarrow> Inl NoEnd
      | Suc n \<Rightarrow>
        let sp = cspan (cell t row c); absw' = absw + span_width t row c in
        if length (colwidth t) < c + sp \<or> absw' = 0 \<or> length eval < absw' then Inl BadIndex
        else mark_loop n t mark row (c + sp) absw' (eval[absw' - 1 := (eval ! (absw' - 1)) OR mark]))"

declare mark_loop.simps [simp del]

definition utable_mark_verticals :: "table_t \<Rightarrow> nat \<Rightarrow> nat \<Rightarrow> nat list \<Rightarrow> nat list stroked" where
  "utable_mark_verticals t mark row eval = mark_loop (nCol t) t mark row 0 0 eval"

definition vertical_char ::
    "string \<Rightarrow> string option \<Rightarrow> string option \<Rightarrow> string option \<Rightarrow> nat \<Rightarrow> string" where
  "vertical_char s0 s1 s2 s3 e =
     (if e = 0 then s0
      else case (if e = 1 then s1 else if e = 2 then s2 else s3) of None \<Rightarrow> ''#ERR#'' | Some s \<Rightarrow> s)"

definition utable_stroke_verticals ::
    "nat \<Rightarrow> nat list \<Rightarrow> string \<Rightarrow> string option \<Rightarrow> string option \<Rightarrow> string option \<Rightarrow> outbuf \<Rightarrow> outbuf stroked" where
  "utable_stroke_verticals totwidth eval s0 s1 s2 s3 ob =
     and_then (loop_ok (\<lambda>i. emit (vertical_char s0 s1 s2 s3 (eval ! i))) [0..<totwidth - 1] ob)
       (\<lambda>ob'. if ob_left ob' < 1 then Inl Exits else Inr ob')"

text \<open>
  A border line: its left end, the horizontal with its crossings and its right end, with the test of
  \<open>buffleft\<close> after each; \<open>extra\<close> is what the code subtracts from \<open>buffleft\<close> besides the lengths.
  The result tells whether the drawing goes on or returns -1.
\<close>

definition border_line ::
    "string \<Rightarrow> string \<Rightarrow> int \<Rightarrow> nat \<Rightarrow> nat list \<Rightarrow> string \<Rightarrow> string option \<Rightarrow> string option \<Rightarrow> string option \<Rightarrow> outbuf
     \<Rightarrow> (bool \<times> outbuf) stroked" where
  "border_line l r extra totwidth eval s0 s1 s2 s3 ob =
     and_then (emit l ob) (\<lambda>ob1.
     if ob_left ob1 < 1 then Inr (False, ob1) else
     and_then (utable_stroke_verticals totwidth eval s0 s1 s2 s3 ob1) (\<lambda>ob2.
     and_then (emit (r @ [LF]) ob2) (\<lambda>ob3.
     let ob4 = ob3\<lparr> ob_left := ob_left ob3 - extra \<rparr>
     in Inr (1 \<le> ob_left ob4, ob4))))"

section \<open>Styles\<close>

record borders =
  top_left :: string
  top_horizontal :: string
  top_down :: string
  top_right :: string
  top_middle_left :: string
  top_middle_right :: string
  top_middle_cross :: string
  top_middle_horizontal :: string
  middle_left :: string
  middle_horizontal :: string
  middle_right :: string
  middle_horizontal_up :: string
  middle_horizontal_down :: string
  middle_cross :: string
  middle_vertical :: string
  border_vertical :: string
  bottom_left :: string
  bottom_horizontal :: string
  bottom_right :: string
  bottom_up :: string
  have_bottom_border :: bool

definition blank_borders :: borders where
  "blank_borders = \<lparr> top_left = '' '', top_horizontal = '' '', top_down = '' '', top_right = '' '',
     top_middle_left = '' '', top_middle_right = '' '', top_middle_cross = '' '',
     top_middle_horizontal = '' '', middle_left = '' '', middle_horizontal = '' '',
     middle_right = '' '', middle_horizontal_up = '' '', middle_horizontal_down = '' '',
     middle_cross = '' '', middle_vertical = '' '', border_vertical = '' '', bottom_left = '' '',
     bottom_horizontal = '' '', bottom_right = '' '', bottom_up = '' '', have_bottom_border = True \<rparr>"

text \<open>The box drawing characters, with the names of the C code.\<close>

abbreviation (input) BDL_DR :: string where "BDL_DR \<equiv> box_char 0x0C"
abbreviation (input) BDL_DL :: string where "BDL_DL \<equiv> box_char 0x10"
abbreviation (input) BDL_UR :: string where "BDL_UR \<equiv> box_char 0x14"
abbreviation (input) BDL_UL :: string where "BDL_UL \<equiv> box_char 0x18"
abbreviation (input) BDL_VR :: string where "BDL_VR \<equiv> box_char 0x1C"
abbreviation (input) BDL_VL :: string where "BDL_VL \<equiv> box_char 0x24"
abbreviation (input) BDL_DH :: string where "BDL_DH \<equiv> box_char 0x2C"
abbreviation (input) BDL_UH :: string where "BDL_UH \<equiv> box_char 0x34"
abbreviation (input) BDL_V :: string where "BDL_V \<equiv> box_char 0x02"
abbreviation (input) BDL_H :: string where "BDL_H \<equiv> box_char 0x00"
abbreviation (input) BDL_X :: string where "BDL_X \<equiv> box_char 0x3C"
abbreviation (input) BDL_DL_H :: string where "BDL_DL_H \<equiv> box_char 0x50"
abbreviation (input) BDL_DL_V :: string where "BDL_DL_V \<equiv> box_char 0x51"
abbreviation (input) BDL_DL_DR :: string where "BDL_DL_DR \<equiv> box_char 0x54"
abbreviation (input) BDL_DL_DL :: string where "BDL_DL_DL \<equiv> box_char 0x57"
abbreviation (input) BDL_DL_UR :: string where "BDL_DL_UR \<equiv> box_char 0x5A"
abbreviation (input) BDL_DL_UL :: string where "BDL_DL_UL \<equiv> box_char 0x5D"
abbreviation (input) BDL_DL_VR :: string where "BDL_DL_VR \<equiv> box_char 0x60"
abbreviation (input) BDL_DL_VL :: string where "BDL_DL_VL \<equiv> box_char 0x63"
abbreviation (input) BDL_DH_H :: string where "BDL_DH_H \<equiv> BDL_DL_H"
abbreviation (input) BDL_DH_DR :: string where "BDL_DH_DR \<equiv> box_char 0x52"
abbreviation (input) BDL_DH_DL :: string where "BDL_DH_DL \<equiv> box_char 0x55"
abbreviation (input) BDL_DH_UR :: string where "BDL_DH_UR \<equiv> box_char 0x58"
abbreviation (input) BDL_DH_UL :: string where "BDL_DH_UL \<equiv> box_char 0x5B"
abbreviation (input) BDL_DH_VR :: string where "BDL_DH_VR \<equiv> box_char 0x5E"
abbreviation (input) BDL_DH_VL :: string where "BDL_DH_VL \<equiv> box_char 0x61"
abbreviation (input) BDL_DH_DH :: string where "BDL_DH_DH \<equiv> box_char 0x64"
abbreviation (input) BDL_DH_UH :: string where "BDL_DH_UH \<equiv> box_char 0x67"
abbreviation (input) BDL_DH_X :: string where "BDL_DH_X \<equiv> box_char 0x6A"
abbreviation (input) BDL_DV_VR :: string where "BDL_DV_VR \<equiv> box_char 0x5F"
abbreviation (input) BDL_DV_VL :: string where "BDL_DV_VL \<equiv> box_char 0x62"
abbreviation (input) BDL_HL_H :: string where "BDL_HL_H \<equiv> box_char 0x01"
abbreviation (input) BDL_HL_V :: string where "BDL_HL_V \<equiv> box_char 0x03"
abbreviation (input) BDL_HL_DR :: string where "BDL_HL_DR \<equiv> box_char 0x0F"
abbreviation (input) BDL_HL_DL :: string where "BDL_HL_DL \<equiv> box_char 0x13"
abbreviation (input) BDL_HL_UR :: string where "BDL_HL_UR \<equiv> box_char 0x17"
abbreviation (input) BDL_HL_UL :: string where "BDL_HL_UL \<equiv> box_char 0x1B"
abbreviation (input) BDL_HL_VR :: string where "BDL_HL_VR \<equiv> box_char 0x23"
abbreviation (input) BDL_HL_VL :: string where "BDL_HL_VL \<equiv> box_char 0x2B"
abbreviation (input) BDL_HB_H :: string where "BDL_HB_H \<equiv> BDL_HL_H"
abbreviation (input) BDL_HB_V :: string where "BDL_HB_V \<equiv> BDL_HL_V"
abbreviation (input) BDL_HB_DR :: string where "BDL_HB_DR \<equiv> BDL_HL_DR"
abbreviation (input) BDL_HB_DL :: string where "BDL_HB_DL \<equiv> BDL_HL_DL"
abbreviation (input) BDL_HB_UR :: string where "BDL_HB_UR \<equiv> BDL_HL_UR"
abbreviation (input) BDL_HB_UL :: string where "BDL_HB_UL \<equiv> BDL_HL_UL"
abbreviation (input) BDL_HB_VR :: string where "BDL_HB_VR \<equiv> box_char 0x20"
abbreviation (input) BDL_HB_VL :: string where "BDL_HB_VL \<equiv> box_char 0x28"
abbreviation (input) BDL_HB_DH :: string where "BDL_HB_DH \<equiv> box_char 0x2F"
abbreviation (input) BDL_HB_UH :: string where "BDL_HB_UH \<equiv> box_char 0x37"
abbreviation (input) BDL_HB_X :: string where "BDL_HB_X \<equiv> box_char 0x3F"

text \<open>
  The characters of each style, one definition per branch of the \<open>if\<close> of \<open>utable_strstroke\<close>.
\<close>

definition ascii_open_borders :: "tblstyle_t \<Rightarrow> borders" where
  "ascii_open_borders style = blank_borders\<lparr>
     top_middle_horizontal := ''='', top_middle_cross := ''+'', middle_vertical := ''|'',
     bottom_horizontal := ''-'', bottom_up := ''+'', bottom_left := ''-'', bottom_right := ''-'',
     top_middle_left := ''='', top_middle_right := ''='',
     have_bottom_border := style \<noteq> TSTYLE_ASCII_V0 \<rparr>"

definition ascii_borders :: "tblstyle_t \<Rightarrow> borders" where
  "ascii_borders style =
     (let th = (if style = TSTYLE_ASCII_V3 then ''-'' else ''='');
          corner = (if style = TSTYLE_ASCII_V2 then ''+'' else th);
          side = (if style = TSTYLE_ASCII_V2 then ''+'' else ''-'') in
      blank_borders\<lparr>
        top_horizontal := th, top_down := ''+'', bottom_horizontal := th, bottom_up := ''+'',
        top_left := corner, top_right := corner, bottom_left := corner, bottom_right := corner,
        top_middle_left := corner, top_middle_right := corner, top_middle_cross := ''+'',
        top_middle_horizontal := th, middle_horizontal := ''-'', middle_vertical := ''|'',
        border_vertical := (if style = TSTYLE_ASCII_V2 then ''|'' else '' ''),
        middle_left := side, middle_right := side,
        middle_horizontal_up := ''+'', middle_horizontal_down := ''+'', middle_cross := ''+'' \<rparr>)"

definition double_borders :: "tblstyle_t \<Rightarrow> borders" where
  "double_borders style =
     (let v24 = (style = TSTYLE_DOUBLE_V2 \<or> style = TSTYLE_DOUBLE_V4);
          v3 = (style = TSTYLE_DOUBLE_V3); v2 = (style = TSTYLE_DOUBLE_V2);
          th = BDL_DH_H;
          ml = (if v24 then BDL_DV_VR else if v3 then BDL_VR else BDL_H);
          mr = (if v24 then BDL_DV_VL else if v3 then BDL_VL else BDL_H);
          b = blank_borders\<lparr>
            top_horizontal := th, top_down := BDL_DH_DH,
            bottom_horizontal := BDL_DH_H, bottom_up := BDL_DH_UH,
            top_left := (if v24 then BDL_DL_DR else if v3 then BDL_DH_DR else th),
            top_right := (if v24 then BDL_DL_DL else if v3 then BDL_DH_DL else th),
            bottom_left := (if v24 then BDL_DL_UR else if v3 then BDL_DH_UR else BDL_DH_H),
            bottom_right := (if v24 then BDL_DL_UL else if v3 then BDL_DH_UL else BDL_DH_H),
            top_middle_left := (if v2 then BDL_DL_VR else if v3 then BDL_DH_VR else th),
            top_middle_right := (if v2 then BDL_DL_VL else if v3 then BDL_DH_VL else th),
            top_middle_cross := BDL_DH_X, top_middle_horizontal := th,
            border_vertical := (if v24 then BDL_DL_V else if v3 then BDL_V else '' ''),
            middle_horizontal := BDL_H, middle_vertical := BDL_V,
            middle_left := ml, middle_right := mr,
            middle_horizontal_up := BDL_UH, middle_horizontal_down := BDL_DH,
            middle_cross := BDL_X \<rparr>
      in if style = TSTYLE_DOUBLE_V4
         then b\<lparr> top_middle_left := ml, top_middle_right := mr, top_middle_cross := BDL_X,
                 top_middle_horizontal := BDL_H \<rparr>
         else b)"

definition single_borders :: "tblstyle_t \<Rightarrow> borders" where
  "single_borders style =
     (let v2 = (style = TSTYLE_SINGLE_V2); th = BDL_H in
      blank_borders\<lparr>
        top_horizontal := th, top_down := BDL_DH, bottom_horizontal := th, bottom_up := BDL_UH,
        top_left := (if v2 then BDL_DR else th), top_right := (if v2 then BDL_DL else th),
        bottom_left := (if v2 then BDL_UR else th), bottom_right := (if v2 then BDL_UL else th),
        top_middle_left := (if v2 then BDL_VR else th),
        top_middle_right := (if v2 then BDL_VL else th),
        top_middle_cross := BDL_X, top_middle_horizontal := th,
        border_vertical := (if v2 then BDL_V else '' ''),
        middle_horizontal := BDL_H, middle_vertical := BDL_V,
        middle_left := (if v2 then BDL_VR else BDL_H),
        middle_right := (if v2 then BDL_VL else BDL_H),
        middle_horizontal_up := BDL_UH, middle_horizontal_down := BDL_DH, middle_cross := BDL_X \<rparr>)"

definition heavy_borders :: "tblstyle_t \<Rightarrow> borders" where
  "heavy_borders style =
     (let v1 = (style = TSTYLE_HEAVY_V1); v2 = (style = TSTYLE_HEAVY_V2);
          v3 = (style = TSTYLE_HEAVY_V3); th = BDL_HB_H in
      blank_borders\<lparr>
        top_horizontal := th, top_down := BDL_HB_DH, bottom_horizontal := th,
        bottom_up := BDL_HB_UH,
        top_left := (if v1 then th else BDL_HB_DR), top_right := (if v1 then th else BDL_HB_DL),
        bottom_left := (if v1 then th else BDL_HB_UR),
        bottom_right := (if v1 then th else BDL_HB_UL),
        top_middle_left := (if v1 then th else if v2 then BDL_HL_VR else BDL_HB_VR),
        top_middle_right := (if v1 then th else if v2 then BDL_HL_VL else BDL_HB_VL),
        top_middle_cross := (if v3 then BDL_X else BDL_HB_X),
        top_middle_horizontal := (if v3 then BDL_H else th),
        border_vertical := (if v1 then '' '' else BDL_HB_V),
        middle_horizontal := BDL_H, middle_vertical := BDL_V,
        middle_left := (if v1 then BDL_H else BDL_HB_VR),
        middle_right := (if v1 then BDL_H else BDL_HB_VL),
        middle_horizontal_up := BDL_UH, middle_horizontal_down := BDL_DH, middle_cross := BDL_X \<rparr>)"

definition simple_borders :: "tblstyle_t \<Rightarrow> borders" where
  "simple_borders style =
     (let v25 = (style = TSTYLE_SIMPLE_V2 \<or> style = TSTYLE_SIMPLE_V5);
          v14 = (style = TSTYLE_SIMPLE_V1 \<or> style = TSTYLE_SIMPLE_V4);
          v123 = (style = TSTYLE_SIMPLE_V1 \<or> style = TSTYLE_SIMPLE_V2 \<or> style = TSTYLE_SIMPLE_V3) in
      blank_borders\<lparr>
        have_bottom_border := \<not> v123,
        top_middle_cross := (if v25 then BDL_HB_X else if v14 then BDL_X else BDL_DH_X),
        top_middle_horizontal := (if v25 then BDL_HB_H else if v14 then BDL_H else BDL_DL_H),
        middle_vertical := BDL_V,
        bottom_horizontal := (if \<not> v123 then BDL_H else '' ''),
        bottom_up := (if v123 then BDL_V else BDL_UH) \<rparr>)"

definition style_borders :: "tblstyle_t \<Rightarrow> borders" where
  "style_borders style =
     (if style \<in> {TSTYLE_ASCII_V0, TSTYLE_ASCII_V4} then ascii_open_borders style
      else if style \<in> {TSTYLE_ASCII_V2, TSTYLE_ASCII_V1, TSTYLE_ASCII_V3} then ascii_borders style
      else if style \<in> {TSTYLE_DOUBLE_V1, TSTYLE_DOUBLE_V2, TSTYLE_DOUBLE_V3, TSTYLE_DOUBLE_V4}
      then double_borders style
      else if style \<in> {TSTYLE_SINGLE_V1, TSTYLE_SINGLE_V2} then single_borders style
      else if style \<in> {TSTYLE_HEAVY_V1, TSTYLE_HEAVY_V2, TSTYLE_HEAVY_V3} then heavy_borders style
      else simple_borders style)"

definition drop_interior_v :: "borders \<Rightarrow> borders" where
  "drop_interior_v b = b\<lparr>
     top_down := top_horizontal b, top_middle_cross := top_middle_horizontal b,
     bottom_up := bottom_horizontal b, middle_vertical := '' '',
     middle_horizontal_up := middle_horizontal b, middle_horizontal_down := middle_horizontal b,
     middle_cross := middle_horizontal b \<rparr>"

definition table_borders :: "table_t \<Rightarrow> tblstyle_t \<Rightarrow> borders" where
  "table_borders t style =
     (if interior_v t then style_borders style else drop_interior_v (style_borders style))"

section \<open>Drawing\<close>

text \<open>The title row: the first time the rows are moved down by one, later its text is replaced.\<close>

definition insert_title :: "table_t \<Rightarrow> table_t" where
  "insert_title t =
     (case title t of
        None \<Rightarrow> t
      | Some ti \<Rightarrow>
          if \<not> titleCopied t then
            let n = nCol t; k = nRow t * n;
                t1 = t\<lparr> cells := replicate n zero_cell @ take k (cells t) @ drop (n + k) (cells t) \<rparr>;
                t2 = t1\<lparr> cells := (cells t1)[0 := (cells t1 ! 0)\<lparr> cell_t := Some ti,
                                                                 halign := CENTERALIGN \<rparr>] \<rparr>;
                t3 = snd (utable_set_cell_colspan t2 0 0 n)
            in t3\<lparr> nRow := nRow t3 + 1, titleCopied := True \<rparr>
          else t\<lparr> cells := (cells t)[0 := (cells t ! 0)\<lparr> cell_t := Some ti \<rparr>] \<rparr>)"

text \<open>
  The lines after row \<open>r\<close>: the header line, the line under the title, or a line between two rows.
\<close>

definition line_below ::
    "borders \<Rightarrow> table_t \<Rightarrow> nat \<Rightarrow> nat list \<Rightarrow> nat \<Rightarrow> outbuf \<Rightarrow> (bool \<times> outbuf) stroked" where
  "line_below b t totwidth eval r ob =
     (let middle_line = border_line (middle_left b) (middle_right b) 0 totwidth eval
            (middle_horizontal b) (Some (middle_horizontal_down b)) (Some (middle_horizontal_up b))
            (Some (middle_cross b)) in
      if headerLine t \<and> (r = 0 \<and> title t = None \<or> r = 1 \<and> title t \<noteq> None) then
        border_line (top_middle_left b) (top_middle_right b)
          (int (length (top_middle_right b)) + 1) totwidth eval
          (top_middle_horizontal b) None None (Some (top_middle_cross b)) ob
      else if r = 0 \<and> title t \<noteq> None then
        (if titleStyle t = TITLESTYLE_LINE then middle_line ob else Inr (True, ob))
      else if interior_h t then
        (if r < nRow t - 1 then middle_line ob else Inr (True, ob))
      else Inr (True, ob))"

fun draw_rows ::
    "bool \<Rightarrow> borders \<Rightarrow> nat \<Rightarrow> nat list \<Rightarrow> nat list \<Rightarrow> table_t \<times> outbuf
     \<Rightarrow> (bool \<times> nat list \<times> table_t \<times> outbuf) stroked" where
  "draw_rows cutpad b totwidth [] eval (t, ob) = Inr (True, eval, t, ob)"
| "draw_rows cutpad b totwidth (r # rs) eval (t, ob) =
     and_then (utable_draw_cellcontent_row cutpad (border_vertical b) (border_vertical b)
                 (middle_vertical b) r (t, ob)) (\<lambda>(t1, ob1).
     if ob_left ob1 < 1 then Inr (False, eval, t1, ob1) else
     and_then (utable_mark_verticals t1 2 r (replicate totwidth 0)) (\<lambda>eval1.
     and_then (if r < nRow t1 - 1 then utable_mark_verticals t1 1 (r + 1) eval1 else Inr eval1) (\<lambda>eval2.
     and_then (line_below b t1 totwidth eval2 r ob1) (\<lambda>(go, ob2).
     if \<not> go then Inr (False, eval2, t1, ob2)
     else draw_rows cutpad b totwidth rs eval2 (t1, ob2)))))"

definition table_width :: "table_t \<Rightarrow> nat" where
  "table_width t = sum_list (map (\<lambda>i. colwidth t ! i + 1) [0..<nCol t])"

text \<open>
  The whole drawing. The result is the returned code, the table, to which the drawing adds the
  column widths and the title row, and the text in the buffer.
\<close>

definition utable_strstroke ::
    "bool \<Rightarrow> table_t \<Rightarrow> nat \<Rightarrow> tblstyle_t \<Rightarrow> (int \<times> table_t \<times> string) stroked" where
  "utable_strstroke cutpad t bufflen style =
     (let t1 = insert_title (utable_set_autocolwidth t); totwidth = table_width t1 in
      if totwidth = 0 then Inr (-1, t1, [])
      else
        let b = table_borders t1 style;
            ob = \<lparr> ob_text = [], ob_left = to_int32 (int bufflen), ob_size = bufflen \<rparr>;
            eval0 = replicate totwidth 0 in
        and_then (if title t1 \<noteq> None then Inr eval0 else utable_mark_verticals t1 1 0 eval0) (\<lambda>eval1.
        and_then (border_line (top_left b) (top_right b) 0 totwidth eval1 (top_horizontal b)
                    (if title t1 \<noteq> None then None else Some (top_down b)) None None ob) (\<lambda>(go1, ob1).
        if \<not> go1 then Inr (-1, t1, ob_text ob1) else
        and_then (draw_rows cutpad b totwidth [0..<nRow t1] eval1 (t1, ob1)) (\<lambda>(go2, eval2, t2, ob2).
        if \<not> go2 then Inr (-1, t2, ob_text ob2)
        else if \<not> have_bottom_border b then Inr (0, t2, ob_text ob2)
        else and_then (border_line (bottom_left b) (bottom_right b) 1 totwidth eval2
                         (bottom_horizontal b) (Some (bottom_up b)) (Some (bottom_up b)) None ob2)
               (\<lambda>(go3, ob3). Inr (if go3 then 0 else -1, t2, ob_text ob3))))))"

text \<open>Drawing on a file descriptor: \<open>wr\<close> is what \<open>write\<close> returns for a text.\<close>

abbreviation (input) MAXSTROKEBUFF :: nat where "MAXSTROKEBUFF \<equiv> 1024 * 1024 * 10"

definition utable_stroke ::
    "(string \<Rightarrow> int) \<Rightarrow> bool \<Rightarrow> table_t \<Rightarrow> tblstyle_t \<Rightarrow> (int \<times> table_t \<times> string) stroked" where
  "utable_stroke wr cutpad t style =
     and_then (utable_strstroke cutpad t MAXSTROKEBUFF style) (\<lambda>(rc, t', buff).
       if rc = -1 then Inr (-1, t', []) else Inr (wr buff, t', buff))"

section \<open>UTF-8 text\<close>

lemma utf8len_Nil [simp]: "utf8len [] = 0" by (simp add: utf8len_def)

lemma utf8len_append [simp]: "utf8len (s @ u) = utf8len s + utf8len u" by (simp add: utf8len_def)

lemma utf8len_isutf: "utf8len s = length (filter isutf s)" by (simp add: utf8len_def isutf_def [abs_def])

lemma utf8len_le: "utf8len s \<le> length s" by (simp add: utf8len_def)

lemma isutf_blank [simp]: "isutf (CHR '' '')" by (simp add: isutf_iff)

lemma utf8len_blanks [simp]: "utf8len (replicate n (CHR '' '')) = n"
  by (simp add: utf8len_isutf)

text \<open>
  A character is a start byte with at most three continuation bytes, a text is a sequence of
  characters.
\<close>

definition mb_char :: "string \<Rightarrow> bool" where
  "mb_char u \<longleftrightarrow> u \<noteq> [] \<and> length u \<le> 4 \<and> isutf (hd u) \<and> list_all (\<lambda>c. \<not> isutf c) (tl u) \<and> cstr u"

function utf_chars :: "string \<Rightarrow> string list" where
  "utf_chars [] = []"
| "utf_chars (c # s) =
     (c # takeWhile (\<lambda>d. \<not> isutf d) s) # utf_chars (dropWhile (\<lambda>d. \<not> isutf d) s)"
  by pat_completeness auto
termination
  by (relation "measure length") (auto simp: le_imp_less_Suc length_dropWhile_le)

definition mb_text :: "string \<Rightarrow> bool" where
  "mb_text s \<longleftrightarrow> list_all mb_char (utf_chars s)"

lemma concat_utf_chars [simp]: "concat (utf_chars s) = s"
  by (induction s rule: utf_chars.induct) auto

lemma mb_charE:
  assumes "mb_char u"
  obtains c v where "u = c # v" "isutf c" "list_all (\<lambda>c. \<not> isutf c) v" "length v \<le> 3" "c \<noteq> NUL" "cstr v"
proof (cases u)
  case (Cons c v)
  with assms show ?thesis by (intro that [of c v]) (auto simp: mb_char_def)
qed (use assms in \<open>simp add: mb_char_def\<close>)

lemma utf_chars_concat: "list_all mb_char us \<Longrightarrow> utf_chars (concat us) = us"
proof (induction us)
  case (Cons u us)
  then obtain c v where u: "u = c # v" "list_all (\<lambda>c. \<not> isutf c) v" by (auto elim: mb_charE)
  have "takeWhile (\<lambda>d. \<not> isutf d) (v @ concat us) = v
      \<and> dropWhile (\<lambda>d. \<not> isutf d) (v @ concat us) = concat us"
  proof (cases us)
    case Nil
    then show ?thesis using u(2) by (auto simp: list_all_iff takeWhile_eq_all_conv dropWhile_eq_Nil_conv)
  next
    case (Cons u' us')
    then obtain c' v' where "u' = c' # v'" "isutf c'" using Cons.prems by (auto elim: mb_charE)
    then show ?thesis using u(2) Cons by (auto simp: list_all_iff)
  qed
  with u Cons show ?case by simp
qed simp

lemma mb_text_concat: "list_all mb_char us \<Longrightarrow> mb_text (concat us)"
  by (simp add: mb_text_def utf_chars_concat)

lemma mb_text_append: "mb_text s \<Longrightarrow> mb_text u \<Longrightarrow> mb_text (s @ u)"
  using mb_text_concat [of "utf_chars s @ utf_chars u"] by (simp add: mb_text_def)

lemma mb_text_blanks [simp]: "mb_text (replicate n (CHR '' ''))"
  using mb_text_concat [of "replicate n '' ''"] by (simp add: mb_char_def list_all_length concat_replicate_single)

lemma utf8len_concat: "list_all mb_char us \<Longrightarrow> utf8len (concat us) = length us"
proof (induction us)
  case (Cons u us)
  then obtain c v where "u = c # v" "isutf c" "list_all (\<lambda>c. \<not> isutf c) v" by (auto elim: mb_charE)
  with Cons show ?case by (auto simp: utf8len_isutf list_all_iff)
qed simp

lemma utf8len_mb_text: "mb_text s \<Longrightarrow> utf8len s = length (utf_chars s)"
  using utf8len_concat [of "utf_chars s"] by (simp add: mb_text_def)

lemma mb_text_ascii: "ascii s \<Longrightarrow> mb_text s"
  using mb_text_concat [of "map (\<lambda>c. [c]) s"]
  by (auto simp: ascii_def list_all_iff mb_char_def isutf_iff)

text \<open>The offset of the \<open>n\<close>-th character is where the first \<open>n\<close> characters end.\<close>

lemma xmb_inc_char:
  assumes "mb_char u" and "list_all mb_char us"
  shows "xmb_inc (pre @ u @ concat us) (length pre) = Some (length pre + length u)"
proof -
  obtain c v where u: "u = c # v" "list_all (\<lambda>c. \<not> isutf c) v" "length v \<le> 3"
    using assms(1) by (rule mb_charE)
  have start: "isutf_at (pre @ u @ concat us) (length pre + length u) = Some True"
  proof (cases us)
    case Nil
    then show ?thesis by (simp add: isutf_at_def c_at_def)
  next
    case (Cons u' us')
    then obtain c' v' where "u' = c' # v'" "isutf c'" using assms(2) by (auto elim: mb_charE)
    then show ?thesis using Cons by (simp add: isutf_at_def c_at_def nth_append)
  qed
  have cont: "isutf_at (pre @ u @ concat us) (length pre + k) = Some False" if "0 < k" "k < length u" for k
  proof -
    have "(pre @ u @ concat us) ! (length pre + k) = v ! (k - 1)"
      using that u(1) by (cases k) (auto simp: nth_append)
    moreover have "\<not> isutf (v ! (k - 1))" using u(1,2) that by (auto simp: list_all_length)
    ultimately show ?thesis using that by (simp add: isutf_at_def c_at_def)
  qed
  consider "length v = 0" | "length v = 1" | "length v = 2" | "length v = 3" using u(3) by linarith
  then show ?thesis
    using start cont [of 1] cont [of 2] cont [of 3] u(1) by cases (simp_all add: xmb_inc_def)
qed

lemma xmb_offset_loop_chars:
  "list_all mb_char us \<Longrightarrow>
   xmb_offset_loop (pre @ concat us) n (length pre) = Some (length pre + length (concat (take n us)))"
proof (induction n arbitrary: pre us)
  case (Suc n)
  show ?case
  proof (cases us)
    case Nil
    then show ?thesis by (simp add: c_at_def)
  next
    case (Cons u us')
    then have u: "mb_char u" "list_all mb_char us'" using Suc.prems by auto
    then obtain c v where cv: "u = c # v" "c \<noteq> NUL" by (auto elim: mb_charE)
    have at: "c_at (pre @ u @ concat us') (length pre) = Some c"
      using cv(1) by (simp add: c_at_def nth_append)
    have "xmb_offset_loop ((pre @ u) @ concat us') n (length (pre @ u))
        = Some (length (pre @ u) + length (concat (take n us')))"
      by (rule Suc.IH) (rule u(2))
    then show ?thesis using at cv(2) xmb_inc_char [OF u] Cons by (simp add: add.assoc)
  qed
qed simp

lemma xmb_offset_chars:
  assumes "mb_text s"
  shows "xmb_offset s w = Some (length (concat (take (nat w) (utf_chars s))))"
  using xmb_offset_loop_chars [of "utf_chars s" "[]" "nat w"] assms
  by (simp add: xmb_offset_def mb_text_def)

definition first_chars :: "nat \<Rightarrow> string \<Rightarrow> string" where
  "first_chars n s = concat (take n (utf_chars s))"

lemma take_first_chars: "take (length (first_chars n s)) s = first_chars n s"
proof -
  have "s = first_chars n s @ concat (drop n (utf_chars s))"
    unfolding first_chars_def by (metis append_take_drop_id concat_append concat_utf_chars)
  then show ?thesis by (metis append_eq_conv_conj)
qed

lemma mb_text_first_chars: "mb_text s \<Longrightarrow> mb_text (first_chars n s)"
  unfolding first_chars_def
  by (intro mb_text_concat) (auto simp: mb_text_def list_all_iff dest: in_set_takeD)

lemma utf8len_first_chars: "mb_text s \<Longrightarrow> utf8len (first_chars n s) = min n (utf8len s)"
proof -
  assume s: "mb_text s"
  then have "list_all mb_char (take n (utf_chars s))"
    by (auto simp: mb_text_def list_all_iff dest: in_set_takeD)
  then show ?thesis
    unfolding first_chars_def using utf8len_mb_text [OF s] by (simp add: utf8len_concat min_def)
qed

lemma first_chars_all: "mb_text s \<Longrightarrow> utf8len s \<le> n \<Longrightarrow> first_chars n s = s"
  unfolding first_chars_def by (simp add: utf8len_mb_text)

lemma first_chars_set: "set (first_chars n s) \<subseteq> set s"
  unfolding first_chars_def by (metis concat_append concat_utf_chars append_take_drop_id set_append sup_ge1)

lemma first_chars_length: "length (first_chars n s) \<le> length s"
  using take_first_chars [of n s] by (metis length_take min.cobounded1)

section \<open>Writing into a buffer with room\<close>

lemma and_then_simps [simp]: "and_then (Inr x) f = f x" "and_then (Inl e) f = Inl e"
  by (simp_all add: and_then_def)

text \<open>
  The room needed for \<open>n\<close> more bytes: \<open>xstrlcat\<close> compares the whole text with the room that is left,
  so the buffer must be more than twice as long as the text.
\<close>

definition fits :: "outbuf \<Rightarrow> int \<Rightarrow> bool" where
  "fits ob n \<longleftrightarrow> 0 \<le> n \<and> int (length (ob_text ob)) + 2 * n < ob_left ob
     \<and> ob_left ob \<le> int (ob_size ob) \<and> ob_left ob < 2 ^ 31"

definition adv :: "outbuf \<Rightarrow> string \<Rightarrow> int \<Rightarrow> outbuf" where
  "adv ob s e = ob\<lparr> ob_text := ob_text ob @ s, ob_left := ob_left ob - int (length s) - e \<rparr>"

lemma adv_adv [simp]: "adv (adv ob s e) u e' = adv ob (s @ u) (e + e')"
  by (simp add: adv_def)

lemma adv_Nil [simp]: "adv ob [] 0 = ob"
  by (simp add: adv_def)

lemma ob_text_adv [simp]: "ob_text (adv ob s e) = ob_text ob @ s"
  by (simp add: adv_def)

lemma fits_adv: "fits ob (int (length s) + e + n) \<Longrightarrow> 0 \<le> e \<Longrightarrow> 0 \<le> n \<Longrightarrow> fits (adv ob s e) n"
  by (simp add: fits_def adv_def)

lemma fits_mono: "fits ob n \<Longrightarrow> 0 \<le> m \<Longrightarrow> m \<le> n \<Longrightarrow> fits ob m"
  by (simp add: fits_def)

lemma fits_left: "fits (adv ob s e) n \<Longrightarrow> \<not> ob_left (adv ob s e) < 1"
  by (simp add: fits_def)

lemma emit_fits:
  assumes "fits ob (int (length s))" and "length s < MAXPBUFF"
  shows "emit s ob = Inr (adv ob s 0)"
proof -
  have pos: "0 \<le> ob_left ob" "ob_left ob < int SIZE_MOD"
    using assms(1) by (auto simp: fits_def SIZE_MOD_def)
  then have sz: "size_of_int (ob_left ob) = nat (ob_left ob)" by (simp add: size_of_int_def)
  have "length (ob_text ob) + length s < nat (ob_left ob)" using assms(1) by (auto simp: fits_def)
  then have "fst (xstrlcat (ob_text ob) s (nat (ob_left ob))) = ob_text ob @ s"
    by (simp add: xstrlcat_fits)
  moreover have "take (MAXPBUFF - 1) s = s" using assms(2) by simp
  moreover have "\<not> ob_size ob \<le> length (ob_text ob @ s)" using assms(1) by (auto simp: fits_def)
  ultimately show ?thesis by (simp add: emit_def sz adv_def Let_def)
qed

text \<open>A drawing step writes \<open>s\<close> and takes \<open>e\<close> more from the counter, whatever is in the buffer.\<close>

lemma loop_emit:
  assumes "\<And>i. i \<in> set is \<Longrightarrow> length (f i) < MAXPBUFF"
    and "fits ob (int (length (concat (map f is))))"
  shows "loop_ok (\<lambda>i. emit (f i)) is ob = Inr (adv ob (concat (map f is)) 0)"
  using assms
proof (induction "is" arbitrary: ob)
  case (Cons i "is")
  have "emit (f i) ob = Inr (adv ob (f i) 0)"
    using Cons.prems by (intro emit_fits) (auto elim: fits_mono)
  moreover have "fits (adv ob (f i) 0) (int (length (concat (map f is))))"
    using Cons.prems(2) by (intro fits_adv) auto
  then have "loop_ok (\<lambda>i. emit (f i)) is (adv ob (f i) 0) = Inr (adv (adv ob (f i) 0) (concat (map f is)) 0)"
    using Cons.prems(1) by (intro Cons.IH) auto
  ultimately show ?case by simp
qed simp

section \<open>Padding and alignment\<close>

lemma copy_first_chars:
  "length s < 512 \<Longrightarrow> copy_to_txtbuff s (length (first_chars n s) + 1) = Inr (first_chars n s)"
  using first_chars_length [of n s] by (simp add: copy_to_txtbuff_def take_first_chars)

lemma copy_all: "length s < 512 \<Longrightarrow> length s < n \<Longrightarrow> copy_to_txtbuff s n = Inr s"
  by (simp add: copy_to_txtbuff_def)

text \<open>The text with its padding, cut to the width.\<close>

definition shown :: "bool \<Rightarrow> nat \<Rightarrow> nat \<Rightarrow> nat \<Rightarrow> string \<Rightarrow> string" where
  "shown cutpad lp rp w s =
     (let l = replicate lp (CHR '' ''); r = replicate rp (CHR '' '')
      in if cutpad then first_chars w (l @ s @ r) else first_chars (w - rp) (l @ s) @ r)"

lemma padded_text_shown:
  assumes "mb_text s" and "lp + length s + rp < 512" and "lp < 256" and "rp < 256"
    and "cutpad \<or> rp \<le> w" and "w < 2 ^ 31"
  shows "padded_text cutpad lp rp (int w) (Some s) = Inr (shown cutpad lp rp w s)"
proof (cases cutpad)
  case True
  let ?u = "replicate lp (CHR '' '') @ s @ replicate rp (CHR '' '')"
  have u: "mb_text ?u" using assms(1) by (intro mb_text_append) simp_all
  have "take (1024 - 1) ?u = ?u" using assms(2) by simp
  moreover have "xmb_offset ?u (int w) = Some (length (first_chars w ?u))"
    using xmb_offset_chars [OF u, of "int w"] by (simp add: first_chars_def)
  moreover have "length ?u < 512" using assms(2) by simp
  ultimately show ?thesis
    using True assms(3,4) copy_first_chars [of ?u w]
    by (simp add: padded_text_def shown_def Let_def del: append_assoc)
next
  case False
  then have rp: "rp \<le> w" using assms(5) by simp
  let ?r = "replicate rp (CHR '' '')"
  let ?u = "replicate lp (CHR '' '') @ s"
  let ?v = "first_chars (w - rp) ?u"
  have u: "mb_text ?u" using assms(1) by (intro mb_text_append) simp_all
  have w: "to_int32 (int w - int rp) = int (w - rp)"
    using rp assms(6) to_int32_nat [of "w - rp"] by (simp add: of_nat_diff)
  have v: "mb_text (?v @ ?r)" using mb_text_first_chars [OF u] by (intro mb_text_append) simp_all
  have lens: "length ?u < 512" "length ?v + rp < 512"
    using assms(2) first_chars_length [of "w - rp" ?u] by simp_all
  have "utf8len (?v @ ?r) \<le> w" using utf8len_first_chars [OF u, of "w - rp"] rp by simp
  then have "first_chars w (?v @ ?r) = ?v @ ?r" using v by (intro first_chars_all)
  then have off2: "xmb_offset (?v @ ?r) (int w) = Some (length (?v @ ?r))"
    using xmb_offset_chars [OF v, of "int w"] unfolding first_chars_def by simp
  have off1: "xmb_offset ?u (int (w - rp)) = Some (length ?v)"
    using xmb_offset_chars [OF u, of "int (w - rp)"] unfolding first_chars_def nat_int .
  have t1: "take (1024 - 1) ?u = ?u" "take (1024 - 1) (?v @ ?r) = ?v @ ?r" using lens by simp_all
  have c1: "copy_to_txtbuff ?u (length ?v + 1) = Inr ?v" by (rule copy_first_chars) (rule lens)
  have c2: "copy_to_txtbuff (?v @ ?r) (length (?v @ ?r) + 1 + 1) = Inr (?v @ ?r)"
    using lens by (intro copy_all) simp_all
  have sh: "shown cutpad lp rp w s = ?v @ ?r" using False by (simp add: shown_def Let_def)
  show ?thesis
    unfolding padded_text_def Let_def sh
    using False assms(3,4) by (simp only: w off1 off2 t1 c1 c2 if_False option.case and_then_simps
        not_le [symmetric] simp_thms)
qed

lemma shown_props:
  assumes "mb_text s" and "cutpad \<or> rp \<le> w"
  shows "utf8len (shown cutpad lp rp w s) = min w (lp + utf8len s + rp)"
    and "length (shown cutpad lp rp w s) \<le> lp + length s + rp"
    and "set (shown cutpad lp rp w s) \<subseteq> set s \<union> {CHR '' ''}"
    and "lp + utf8len s + rp \<le> w \<Longrightarrow>
           shown cutpad lp rp w s = replicate lp (CHR '' '') @ s @ replicate rp (CHR '' '')"
proof -
  have u: "mb_text (replicate lp (CHR '' '') @ s @ replicate rp (CHR '' ''))"
     "mb_text (replicate lp (CHR '' '') @ s)"
    using assms(1) by (auto intro!: mb_text_append)
  note f1 = first_chars_length [of w "replicate lp (CHR '' '') @ s @ replicate rp (CHR '' '')"]
  note f2 = first_chars_length [of "w - rp" "replicate lp (CHR '' '') @ s"]
  note s1 = first_chars_set [of w "replicate lp (CHR '' '') @ s @ replicate rp (CHR '' '')"]
  note s2 = first_chars_set [of "w - rp" "replicate lp (CHR '' '') @ s"]
  show "utf8len (shown cutpad lp rp w s) = min w (lp + utf8len s + rp)"
    using assms(2) utf8len_first_chars [OF u(1), of w] utf8len_first_chars [OF u(2), of "w - rp"]
    by (auto simp: shown_def Let_def)
  show "length (shown cutpad lp rp w s) \<le> lp + length s + rp"
    using f1 f2 by (auto simp: shown_def Let_def)
  show "set (shown cutpad lp rp w s) \<subseteq> set s \<union> {CHR '' ''}"
    using s1 s2 by (auto simp: shown_def Let_def split: if_splits)
  show "shown cutpad lp rp w s = replicate lp (CHR '' '') @ s @ replicate rp (CHR '' '')"
    if "lp + utf8len s + rp \<le> w"
    using that u by (auto simp: shown_def Let_def first_chars_all)
qed

lemma align_text_width:
  assumes "utf8len p \<le> w" and "w < utf8len p + 256" and "w < 2 ^ 31"
  shows "\<exists>a b. align_text al (int w) mid p = Inr (mid @ replicate a (CHR '' '') @ p @ replicate b (CHR '' ''))
     \<and> a + utf8len p + b = w"
proof -
  let ?n = "utf8len p"
  have fill: "(if int ?n < int w then nat (int w - int ?n) else 0) = w - ?n" by auto
  have nf: "\<not> 256 \<le> w - ?n" using assms(2) by simp
  show ?thesis
  proof (cases al)
    case LEFTALIGN
    with nf assms(1) show ?thesis
      by - (rule exI [of _ 0], rule exI [of _ "w - ?n"], unfold align_text_def Let_def fill, simp)
  next
    case RIGHTALIGN
    with nf assms(1) show ?thesis
      by - (rule exI [of _ "w - ?n"], rule exI [of _ 0], unfold align_text_def Let_def fill, simp)
  next
    case CENTERALIGN
    let ?a = "w div 2 - ?n div 2" and ?b = "(w - w div 2) + ?n div 2 - ?n"
    have half: "half (int w) = int (w div 2)" by (simp add: half_def zdiv_int)
    have d: "?n div 2 \<le> w div 2" using assms(1) by (rule div_le_mono)
    have a: "blanks (int (w div 2) - int (?n div 2)) = replicate ?a (CHR '' '')"
      using d by (simp add: blanks_def of_nat_diff [symmetric] del: of_nat_diff)
    have "?n - ?n div 2 \<le> w - w div 2" using assms(1) by linarith
    then have "int w - int (w div 2) + int (?n div 2) - int ?n = int ?b" by linarith
    moreover have "?b < 2 ^ 31" using assms(3) by linarith
    ultimately have b: "nat (to_int32 (int w - int (w div 2) + int (?n div 2) - int ?n)) = ?b"
      by (simp only: to_int32_nat nat_int)
    have "?b \<le> w - ?n" using assms(1) by linarith
    then have nb: "\<not> 256 \<le> ?b" using nf by linarith
    have sum: "?a + ?n + ?b = w" using assms(1) by linarith
    show ?thesis
      using CENTERALIGN nf nb sum
      by - (rule exI [of _ ?a], rule exI [of _ ?b],
          simp only: align_text_def Let_def fill half a b if_False halign_t.case simp_thms)
  qed
qed

section \<open>Walking along a row\<close>

text \<open>The width of the first \<open>c\<close> columns with their borders.\<close>

definition prefix_width :: "table_t \<Rightarrow> nat \<Rightarrow> nat" where
  "prefix_width t c = sum_list (map (\<lambda>i. colwidth t ! i + 1) [0..<c])"

lemma table_width_prefix: "table_width t = prefix_width t (nCol t)"
  by (simp add: table_width_def prefix_width_def)

lemma prefix_width_0 [simp]: "prefix_width t 0 = 0"
  by (simp add: prefix_width_def)

lemma prefix_width_span: "prefix_width t (c + cspan (cell t r c)) = prefix_width t c + span_width t r c"
proof -
  let ?sp = "cspan (cell t r c)" and ?f = "\<lambda>i. colwidth t ! i + 1"
  have "[c..<c + ?sp] = map (\<lambda>cs. c + cs) [0..<?sp]"
    using map_add_upt [of c ?sp] by (simp add: add.commute)
  then have "map (\<lambda>cs. ?f (c + cs)) [0..<?sp] = map ?f [c..<c + ?sp]" by simp
  moreover have "[0..<c + ?sp] = [0..<c] @ [c..<c + ?sp]" by (rule upt_add_eq_append) simp
  ultimately show ?thesis by (simp add: prefix_width_def span_width_def)
qed

lemma prefix_width_mono: "c \<le> c' \<Longrightarrow> prefix_width t c \<le> prefix_width t c'"
proof -
  assume "c \<le> c'"
  then have "[0..<c'] = [0..<c] @ [c..<c']" using upt_add_eq_append [of 0 c "c' - c"] by simp
  then show ?thesis by (simp add: prefix_width_def)
qed

lemma prefix_width_ge: "c \<le> prefix_width t c"
  by (induction c) (simp_all add: prefix_width_def)

text \<open>A column at which a cell of the row starts, or the end of the row.\<close>

definition at_cell :: "table_t \<Rightarrow> nat \<Rightarrow> nat \<Rightarrow> bool" where
  "at_cell t r c \<longleftrightarrow> c \<le> nCol t \<and> (titleCopied t \<and> r = 0 \<longrightarrow> c = 0 \<or> c = nCol t)"

lemma at_cell_0 [simp]: "at_cell t r 0"
  by (simp add: at_cell_def)

lemma at_cell_next:
  assumes "tbl_ok t" and "r < nRow t" and "at_cell t r c" and "c < nCol t"
  shows "1 \<le> cspan (cell t r c)" and "c + cspan (cell t r c) \<le> nCol t"
    and "at_cell t r (c + cspan (cell t r c))"
proof -
  note k = tbl_ok_cell [OF assms(1,2,4)]
  have c0: "titleCopied t \<and> r = 0 \<Longrightarrow> c = 0" using assms(3,4) by (auto simp: at_cell_def)
  show "1 \<le> cspan (cell t r c)" 
  proof (cases "titleCopied t \<and> r = 0")
    case True
    with c0 have "c = 0" by simp
    with True k(4) assms(4) show ?thesis by simp
  qed (rule k(3))
  show "c + cspan (cell t r c) \<le> nCol t" by (rule k(1))
  show "at_cell t r (c + cspan (cell t r c))" using k(1,4) c0 by (auto simp: at_cell_def)
qed

text \<open>The columns at which the cells of a row start, and those after which they end.\<close>

fun row_starts :: "nat \<Rightarrow> table_t \<Rightarrow> nat \<Rightarrow> nat \<Rightarrow> nat list" where
  "row_starts 0 t r c = []"
| "row_starts (Suc n) t r c =
     (if nCol t \<le> c then [] else c # row_starts n t r (c + cspan (cell t r c)))"

definition drawn_cells :: "table_t \<Rightarrow> nat \<Rightarrow> nat list" where
  "drawn_cells t r = row_starts (nCol t) t r 0"

definition row_ends :: "table_t \<Rightarrow> nat \<Rightarrow> nat list" where
  "row_ends t r = map (\<lambda>c. c + cspan (cell t r c)) (drawn_cells t r)"

section \<open>The crossings\<close>

lemma mark_loop_ok:
  assumes "tbl_ok t" and "r < nRow t" and "at_cell t r c" and "nCol t - c \<le> n"
    and "absw = prefix_width t c" and "length eval = table_width t"
  shows "\<exists>eval'. mark_loop n t mark r c absw eval = Inr eval' \<and> length eval' = length eval
     \<and> (\<forall>i<length eval. eval' ! i =
          (if Suc i \<in> prefix_width t ` (\<lambda>c. c + cspan (cell t r c)) ` set (row_starts n t r c)
           then eval ! i OR mark else eval ! i))"
  using assms(3-6)
proof (induction n arbitrary: c absw eval)
  case 0
  then show ?case by (simp add: mark_loop.simps)
next
  case (Suc n)
  show ?case
  proof (cases "nCol t \<le> c")
    case True
    then show ?thesis by (simp add: mark_loop.simps)
  next
    case False
    let ?sp = "cspan (cell t r c)"
    let ?e = "prefix_width t (c + ?sp)"
    let ?ev = "eval[?e - 1 := (eval ! (?e - 1)) OR mark]"
    have c: "c < nCol t" using False by simp
    note nx = at_cell_next [OF assms(1,2) Suc.prems(1) c]
    have e: "absw + span_width t r c = ?e" using Suc.prems(3) by (simp add: prefix_width_span)
    have pos: "?e \<noteq> 0" "?e \<le> length eval"
      using nx prefix_width_ge [of "c + ?sp" t] prefix_width_mono [OF nx(2), of t] Suc.prems(4)
      by (auto simp: table_width_prefix)
    have cw: "length (colwidth t) = nCol t + 1" using assms(1) by (simp add: tbl_ok_def Let_def)
    have "mark_loop (Suc n) t mark r c absw eval = mark_loop n t mark r (c + ?sp) ?e ?ev"
      using False nx(2) cw pos e by (subst mark_loop.simps) (simp add: Let_def)
    moreover obtain eval' where ev': "mark_loop n t mark r (c + ?sp) ?e ?ev = Inr eval'"
      "length eval' = length eval"
      "\<And>i. i < length eval \<Longrightarrow> eval' ! i =
          (if Suc i \<in> prefix_width t ` (\<lambda>c. c + cspan (cell t r c)) ` set (row_starts n t r (c + ?sp))
           then ?ev ! i OR mark else ?ev ! i)"
    proof -
      have "nCol t - (c + ?sp) \<le> n" using Suc.prems(2) nx(1) by simp
      moreover have "length ?ev = table_width t" using Suc.prems(4) by simp
      ultimately have "\<exists>eval'. mark_loop n t mark r (c + ?sp) ?e ?ev = Inr eval' \<and> length eval' = length ?ev
        \<and> (\<forall>i<length ?ev. eval' ! i =
          (if Suc i \<in> prefix_width t ` (\<lambda>c. c + cspan (cell t r c)) ` set (row_starts n t r (c + ?sp))
           then ?ev ! i OR mark else ?ev ! i))"
        by (intro Suc.IH [OF nx(3)] refl)
      then show ?thesis using that by (auto simp del: One_nat_def)
    qed
    moreover have "eval' ! i =
          (if Suc i \<in> prefix_width t ` (\<lambda>c. c + cspan (cell t r c)) ` set (row_starts (Suc n) t r c)
           then eval ! i OR mark else eval ! i)" if "i < length eval" for i
      using ev'(3) [OF that] pos that False
      by (cases "i = ?e - 1") (auto simp: nth_list_update or.assoc)
    ultimately show ?thesis by auto
  qed
qed

lemma utable_mark_verticals_ok:
  assumes "tbl_ok t" and "r < nRow t" and "length eval = table_width t"
  shows "\<exists>eval'. utable_mark_verticals t mark r eval = Inr eval' \<and> length eval' = length eval
     \<and> (\<forall>i<length eval. eval' ! i =
          (if Suc i \<in> prefix_width t ` set (row_ends t r) then eval ! i OR mark else eval ! i))"
  using mark_loop_ok [OF assms(1,2) at_cell_0, of "nCol t" 0 eval mark] assms(3)
  by (simp add: utable_mark_verticals_def row_ends_def drawn_cells_def)

section \<open>A row of texts\<close>

definition cell_fits :: "bool \<Rightarrow> table_t \<Rightarrow> nat \<Rightarrow> nat \<Rightarrow> bool" where
  "cell_fits cutpad t r c \<longleftrightarrow>
     (let (lp, rp) = utable_get_cp t r c; w = span_width t r c - 1 in
      case cell_t (cell t r c) of
        None \<Rightarrow> False
      | Some s \<Rightarrow> cell_cb (cell t r c) = None \<and> mb_text s \<and> LF \<notin> set s
          \<and> lp + length s + rp < 512 \<and> lp < 256 \<and> rp < 256 \<and> (cutpad \<or> rp \<le> w)
          \<and> w < lp + utf8len s + rp + 256)"

text \<open>The text of a cell is in the line when its column is wide enough for it.\<close>

definition in_line :: "table_t \<Rightarrow> nat \<Rightarrow> nat \<Rightarrow> string \<Rightarrow> bool" where
  "in_line t r c l \<longleftrightarrow>
     (let (lp, rp) = utable_get_cp t r c; s = the (cell_t (cell t r c)) in
      lp + utf8len s + rp + 1 \<le> span_width t r c \<longrightarrow> (\<exists>u v. l = u @ s @ v))"

lemma in_line_append: "in_line t r c l \<Longrightarrow> in_line t r c (u @ l @ v)"
  unfolding in_line_def Let_def by (auto split: prod.splits) (metis append.assoc)

definition border_text :: "string \<Rightarrow> bool" where
  "border_text b \<longleftrightarrow> utf8len b = 1 \<and> length b \<le> 4 \<and> LF \<notin> set b"

lemma one_cell:
  assumes "cell_fits cutpad t r c" and "border_text mid" and "1 \<le> span_width t r c"
  shows "\<exists>piece. utf8len piece = span_width t r c \<and> length piece < 1024 \<and> LF \<notin> set piece
     \<and> in_line t r c piece \<and> call_back t r c = t
     \<and> (let (lp, rp) = utable_get_cp t r c; w = to_int32 (int (span_width t r c) - 1) in
        and_then (padded_text cutpad lp rp w (cell_t (cell t r c))) (\<lambda>p. align_text (halign (cell t r c)) w mid p)
          = Inr piece)"
proof -
  obtain lp rp where cp: "utable_get_cp t r c = (lp, rp)" by (rule prod.exhaust)
  obtain s where s: "cell_t (cell t r c) = Some s"
    using assms(1) by (auto simp: cell_fits_def cp Let_def split: option.splits)
  define w where "w = span_width t r c - 1"
  have f: "cell_cb (cell t r c) = None" "mb_text s" "LF \<notin> set s" "lp + length s + rp < 512" "lp < 256"
    "rp < 256" "cutpad \<or> rp \<le> w" "w < lp + utf8len s + rp + 256"
    using assms(1) unfolding cell_fits_def cp s w_def by (simp_all add: Let_def)
  have sw: "int (span_width t r c) - 1 = int w" using assms(3) by (simp add: w_def of_nat_diff)
  have w31: "w < 2 ^ 31" using f(4,8) utf8len_le [of s] by simp
  let ?p = "shown cutpad lp rp w s"
  note sh = shown_props [OF f(2,7), of lp]
  have p: "padded_text cutpad lp rp (int w) (Some s) = Inr ?p"
    by (rule padded_text_shown) (use f w31 in auto)
  have "utf8len ?p \<le> w" "w < utf8len ?p + 256" using sh(1) f(8) by auto
  from align_text_width [OF this w31, of "halign (cell t r c)" mid]
  obtain a b where ab: "align_text (halign (cell t r c)) (int w) mid ?p
      = Inr (mid @ replicate a (CHR '' '') @ ?p @ replicate b (CHR '' ''))" "a + utf8len ?p + b = w"
    by auto
  let ?piece = "mid @ replicate a (CHR '' '') @ ?p @ replicate b (CHR '' '')"
  have "utf8len ?piece = span_width t r c"
    using ab(2) assms(2,3) by (simp add: border_text_def w_def)
  moreover have "length ?piece < 1024"
    using ab(2) \<open>w < utf8len ?p + 256\<close> sh(2) f(4) assms(2) by (auto simp: border_text_def)
  moreover have "LF \<notin> set ?piece"
    using assms(2) sh(3) f(3) by (auto simp: border_text_def)
  moreover have "in_line t r c ?piece"
  proof (cases "lp + utf8len s + rp \<le> w")
    case True
    then have "?p = replicate lp (CHR '' '') @ s @ replicate rp (CHR '' '')" by (rule sh(4))
    then have "\<exists>u v. ?piece = u @ s @ v" by (metis append.assoc)
    then show ?thesis by (simp add: in_line_def cp s)
  next
    case False
    then show ?thesis by (auto simp: in_line_def cp s w_def)
  qed
  moreover have "call_back t r c = t" using f(1) by (simp add: call_back_def)
  moreover have "to_int32 (int (span_width t r c) - 1) = int w" using sw w31 by simp
  ultimately show ?thesis using p ab(1) by (intro exI [of _ ?piece]) (simp add: cp s)
qed

lemma draw_cells_ok:
  assumes "tbl_ok t" and "r < nRow t" and "at_cell t r c" and "nCol t - c \<le> n"
    and "\<forall>c\<in>set (row_starts n t r c). cell_fits cutpad t r c"
    and "border_text midleft" and "border_text midvert"
  shows "\<exists>s. utf8len s + prefix_width t c = table_width t \<and> LF \<notin> set s \<and> length s \<le> 1024 * (nCol t - c)
     \<and> (\<forall>c\<in>set (row_starts n t r c). in_line t r c s)
     \<and> (\<forall>ob. fits ob (int (length s)) \<longrightarrow>
          draw_cells n cutpad midleft midvert r c (t, ob) = Inr (t, adv ob s 0))"
  using assms(3-5)
proof (induction n arbitrary: c)
  case 0
  then have "c = nCol t" by (simp add: at_cell_def)
  then show ?case
    by (intro exI [of _ "[]"]) (simp add: draw_cells.simps table_width_prefix)
next
  case (Suc n)
  show ?case
  proof (cases "nCol t \<le> c")
    case True
    then have "c = nCol t" using Suc.prems(1) by (simp add: at_cell_def)
    then show ?thesis
      by (intro exI [of _ "[]"]) (simp add: draw_cells.simps table_width_prefix)
  next
    case False
    let ?sp = "cspan (cell t r c)"
    have c: "c < nCol t" using False by simp
    note nx = at_cell_next [OF assms(1,2) Suc.prems(1) c]
    have sw: "prefix_width t (c + ?sp) = prefix_width t c + span_width t r c" by (rule prefix_width_span)
    have sw1: "1 \<le> span_width t r c"
      using nx(1) by (cases ?sp) (simp_all add: span_width_def)
    have cw: "length (colwidth t) = nCol t + 1" using assms(1) by (simp add: tbl_ok_def Let_def)
    define mid where "mid = (if c = 0 then midleft else midvert)"
    have mid: "border_text mid" using assms(6,7) by (simp add: mid_def)
    have fit: "cell_fits cutpad t r c" using Suc.prems(3) False by simp
    obtain lp rp where cp: "utable_get_cp t r c = (lp, rp)" by (rule prod.exhaust)
    let ?w = "to_int32 (int (span_width t r c) - 1)"
    obtain piece where piece: "utf8len piece = span_width t r c" "length piece < 1024" "LF \<notin> set piece"
      "in_line t r c piece" "call_back t r c = t"
      "and_then (padded_text cutpad lp rp ?w (cell_t (cell t r c)))
         (\<lambda>p. align_text (halign (cell t r c)) ?w mid p) = Inr piece"
      using one_cell [OF fit mid sw1] by (auto simp: cp Let_def)
    obtain p where p: "padded_text cutpad lp rp ?w (cell_t (cell t r c)) = Inr p"
      "align_text (halign (cell t r c)) ?w mid p = Inr piece"
      using piece(6) by (cases "padded_text cutpad lp rp ?w (cell_t (cell t r c))") auto
    have le: "nCol t - (c + ?sp) \<le> n" using Suc.prems(2) nx(1) by simp
    obtain s where s: "utf8len s + prefix_width t (c + ?sp) = table_width t" "LF \<notin> set s"
      "length s \<le> 1024 * (nCol t - (c + ?sp))"
      "\<forall>c\<in>set (row_starts n t r (c + ?sp)). in_line t r c s"
      "\<forall>ob. fits ob (int (length s)) \<longrightarrow>
          draw_cells n cutpad midleft midvert r (c + ?sp) (t, ob) = Inr (t, adv ob s 0)"
      using Suc.IH [OF nx(3) le] Suc.prems(3) False by auto
    have "draw_cells (Suc n) cutpad midleft midvert r c (t, ob) = Inr (t, adv ob (piece @ s) 0)"
      if "fits ob (int (length (piece @ s)))" for ob
    proof -
      have e: "emit piece ob = Inr (adv ob piece 0)"
        using piece(2) that by (intro emit_fits) (auto elim: fits_mono)
      have "fits (adv ob piece 0) (int (length s))" using that by (intro fits_adv) auto
      then have "draw_cells n cutpad midleft midvert r (c + ?sp) (t, adv ob piece 0) = Inr (t, adv ob (piece @ s) 0)"
        using s(5) by simp
      then show ?thesis
        using False nx(2) cw p e piece(5)
        by (subst draw_cells.simps) (simp add: Let_def cp mid_def)
    qed
    moreover have "utf8len (piece @ s) + prefix_width t c = table_width t"
      using s(1) sw piece(1) by simp
    moreover have "\<forall>c\<in>set (row_starts (Suc n) t r c). in_line t r c (piece @ s)"
      using s(4) piece(4) False in_line_append [of t r _ s piece "[]"] in_line_append [of t r c piece "[]" s]
      by auto
    moreover have "length (piece @ s) \<le> 1024 * (nCol t - c)"
    proof -
      have "nCol t - (c + ?sp) + 1 \<le> nCol t - c" using nx(1) c by simp
      then have "1024 * (nCol t - (c + ?sp)) + 1024 \<le> 1024 * (nCol t - c)" by linarith
      then show ?thesis using s(3) piece(2) by simp
    qed
    ultimately show ?thesis using s(2) piece(3) by (intro exI [of _ "piece @ s"]) auto
  qed
qed

end
