(* ===== verification/Unitbl_Spec.thy ===== *)
theory Unitbl_Spec
  imports Unitbl_Draw
begin

text \<open>
  What the text tables promise: every line of a drawing has the same width, every text that fits its
  column is in it, all tables that a program can make are drawn in finitely many steps; and what goes
  wrong with a span of 0, with a buffer that is less than twice as long as the drawing and with a
  header that has no row below it.
\<close>

section \<open>The border characters\<close>

lemma border_text_box [simp]: "n < 128 \<Longrightarrow> border_text (box_char n)"
proof -
  assume n: "n < 128"
  have lf: "LF \<noteq> char_of k" if "128 \<le> k" "k < 256" for k :: nat
  proof
    assume "LF = char_of k"
    then have "byte LF = byte (char_of k)" by simp
    with that show False by simp
  qed
  have "n div 64 < 2" using n by simp
  then have a: "\<not> isutf (char_of (0x94 + n div 64))" and b: "\<not> isutf (char_of (0x80 + n mod 64))"
    by (simp_all add: isutf_iff)
  have c: "isutf (CHR 0xE2)" by (simp add: isutf_iff)
  show ?thesis
    using lf [of "0x94 + n div 64"] lf [of "0x80 + n mod 64"] \<open>n div 64 < 2\<close> a b c
    by (simp add: border_text_def box_char_def utf8len_isutf)
qed

lemma border_text_ascii [simp]:
  "border_text '' ''" "border_text ''=''" "border_text ''+''" "border_text ''|''" "border_text ''-''"
  by (simp_all add: border_text_def utf8len_isutf isutf_iff)

definition borders_text :: "borders \<Rightarrow> bool" where
  "borders_text b \<longleftrightarrow> list_all border_text
     [top_left b, top_horizontal b, top_down b, top_right b, top_middle_left b, top_middle_right b,
      top_middle_cross b, top_middle_horizontal b, middle_left b, middle_horizontal b,
      middle_right b, middle_horizontal_up b, middle_horizontal_down b, middle_cross b,
      middle_vertical b, border_vertical b, bottom_left b, bottom_horizontal b, bottom_right b,
      bottom_up b]"

lemma style_borders_text: "borders_text (style_borders style)"
  by (cases style)
    (simp_all add: style_borders_def ascii_open_borders_def ascii_borders_def double_borders_def
      single_borders_def heavy_borders_def simple_borders_def blank_borders_def borders_text_def Let_def)

lemma table_borders_text: "borders_text (table_borders t style)"
  using style_borders_text [of style]
  by (simp add: table_borders_def drop_interior_v_def borders_text_def)

section \<open>Lines\<close>

abbreviation lines_text :: "string list \<Rightarrow> string" where
  "lines_text ls \<equiv> concat (map (\<lambda>l. l @ [LF]) ls)"

text \<open>A line of the drawing: all have the same number of characters, and a bounded number of bytes.\<close>

definition full_line :: "table_t \<Rightarrow> string \<Rightarrow> bool" where
  "full_line t l \<longleftrightarrow> utf8len l = table_width t + 1 \<and> LF \<notin> set l
     \<and> length l \<le> 1024 * nCol t + 4 * (table_width t + 1)"

lemma row_line_ok:
  assumes "tbl_ok t" and "r < nRow t" and "\<forall>c\<in>set (drawn_cells t r). cell_fits cutpad t r c"
    and "border_text midleft" and "border_text midright" and "border_text midvert"
  shows "\<exists>l. full_line t l \<and> (\<forall>c\<in>set (drawn_cells t r). in_line t r c l)
     \<and> (\<forall>ob. fits ob (int (length l) + 1) \<longrightarrow>
          utable_draw_cellcontent_row cutpad midleft midright midvert r (t, ob) = Inr (t, adv ob (l @ [LF]) 0))"
proof -
  obtain s where s: "utf8len s = table_width t" "LF \<notin> set s" "length s \<le> 1024 * nCol t" "\<forall>c\<in>set (drawn_cells t r). in_line t r c s"
    "\<And>ob. fits ob (int (length s)) \<Longrightarrow>
          draw_cells (nCol t) cutpad midleft midvert r 0 (t, ob) = Inr (t, adv ob s 0)"
    using draw_cells_ok [OF assms(1,2) at_cell_0, of "nCol t" cutpad midleft midvert] assms(3,4,6)
    by (auto simp: drawn_cells_def)
  show ?thesis
  proof (intro exI [of _ "s @ midright"] conjI allI impI)
    show "full_line t (s @ midright)" using s(1,2,3) assms(5) by (simp add: full_line_def border_text_def)
    show "\<forall>c\<in>set (drawn_cells t r). in_line t r c (s @ midright)"
      using s(4) in_line_append [of t r _ s "[]" midright] by simp
    fix ob assume f: "fits ob (int (length (s @ midright)) + 1)"
    have "fits ob (int (length s))" using f by (auto elim: fits_mono)
    then have d: "draw_cells (nCol t) cutpad midleft midvert r 0 (t, ob) = Inr (t, adv ob s 0)" by (rule s(5))
    have "fits (adv ob s 0) (int (length (midright @ [LF])))"
      using f by (intro fits_adv) (auto simp: algebra_simps)
    then have "emit (midright @ [LF]) (adv ob s 0) = Inr (adv (adv ob s 0) (midright @ [LF]) 0)"
      using assms(5) by (intro emit_fits) (auto simp: border_text_def)
    then show "utable_draw_cellcontent_row cutpad midleft midright midvert r (t, ob)
        = Inr (t, adv ob ((s @ midright) @ [LF]) 0)"
      by (simp add: utable_draw_cellcontent_row_def d)
  qed
qed

lemma utf8len_verticals:
  "(\<And>i. i \<in> set is \<Longrightarrow> border_text (f i)) \<Longrightarrow>
   utf8len (concat (map f is)) = length is \<and> LF \<notin> set (concat (map f is))
   \<and> length (concat (map f is)) \<le> 4 * length is"
proof (induction "is")
  case (Cons i "is")
  have "border_text (f i)" using Cons.prems by simp
  moreover have "utf8len (concat (map f is)) = length is \<and> LF \<notin> set (concat (map f is))
   \<and> length (concat (map f is)) \<le> 4 * length is"
    using Cons.IH Cons.prems by simp
  ultimately show ?case unfolding border_text_def by (elim conjE) simp
qed simp

text \<open>What a border line consists of, whatever its characters are.\<close>

lemma border_line_text:
  assumes "length l < 10000" and "length r < 10000" and "0 \<le> e"
    and "\<And>i. i < w - 1 \<Longrightarrow> length (vertical_char s0 s1 s2 s3 (eval ! i)) < 10000"
    and f: "fits ob (int (length (l @ concat (map (\<lambda>i. vertical_char s0 s1 s2 s3 (eval ! i)) [0..<w - 1]) @ r)) + 1 + e)"
  shows "border_line l r e w eval s0 s1 s2 s3 ob
    = Inr (True, adv ob (l @ concat (map (\<lambda>i. vertical_char s0 s1 s2 s3 (eval ! i)) [0..<w - 1]) @ r @ [LF]) e)"
proof -
  let ?f = "\<lambda>i. vertical_char s0 s1 s2 s3 (eval ! i)"
  let ?is = "[0..<w - 1]"
  define v where "v = concat (map ?f ?is)"
  have f: "fits ob (int (length (l @ v @ r)) + 1 + e)" using f by (simp add: v_def)
  have e1: "emit l ob = Inr (adv ob l 0)"
    using assms(1,3) f by (intro emit_fits) (auto elim: fits_mono)
  have f1: "fits (adv ob l 0) (int (length v) + (int (length r) + 1 + e))"
    using f assms(3) by (intro fits_adv) (auto simp: algebra_simps)
  have "fits (adv ob l 0) (int (length v))" using f1 assms(3) by (auto elim: fits_mono)
  then have e2: "loop_ok (\<lambda>i. emit (?f i)) ?is (adv ob l 0) = Inr (adv ob (l @ v) 0)"
    using loop_emit [of ?is ?f "adv ob l 0"] assms(4) by (force simp: v_def)
  have f2: "fits (adv ob (l @ v) 0) (int (length (r @ [LF])) + e)"
    using fits_adv [of "adv ob l 0" v 0 "int (length r) + 1 + e"] f1 assms(3) by (simp add: algebra_simps)
  have "fits (adv ob (l @ v) 0) (int (length (r @ [LF])))" using f2 assms(3) by (auto elim: fits_mono)
  then have e3: "emit (r @ [LF]) (adv ob (l @ v) 0) = Inr (adv ob (l @ v @ r @ [LF]) 0)"
    using emit_fits [of "adv ob (l @ v) 0" "r @ [LF]"] assms(2) by simp
  have f3: "fits (adv ob (l @ v @ r @ [LF]) e) 0"
    using fits_adv [of "adv ob (l @ v) 0" "r @ [LF]" e 0] f2 assms(3) by simp
  have ext: "adv ob (l @ v @ r @ [LF]) 0 \<lparr> ob_left := ob_left (adv ob (l @ v @ r @ [LF]) 0) - e \<rparr>
      = adv ob (l @ v @ r @ [LF]) e"
    by (simp add: adv_def)
  have "utable_stroke_verticals w eval s0 s1 s2 s3 (adv ob l 0) = Inr (adv ob (l @ v) 0)"
    unfolding utable_stroke_verticals_def e2 and_then_simps using fits_left [OF f2] by simp
  moreover have "1 \<le> ob_left (adv ob (l @ v @ r @ [LF]) 0) - e"
    using fits_left [OF f3] by (simp add: adv_def)
  ultimately have "border_line l r e w eval s0 s1 s2 s3 ob = Inr (True, adv ob (l @ v @ r @ [LF]) e)"
    unfolding border_line_def e1 and_then_simps Let_def
    using fits_left [OF f1] e3 ext by simp
  then show ?thesis by (simp add: v_def)
qed

lemma border_line_ok:
  assumes "border_text l" and "border_text r" and "0 \<le> e" and "0 < table_width t"
    and "\<And>i. i < table_width t - 1 \<Longrightarrow> border_text (vertical_char s0 s1 s2 s3 (eval ! i))"
  shows "\<exists>line. full_line t line
     \<and> (\<forall>ob. fits ob (int (length line) + 1 + e) \<longrightarrow>
          border_line l r e (table_width t) eval s0 s1 s2 s3 ob = Inr (True, adv ob (line @ [LF]) e))"
proof -
  let ?f = "\<lambda>i. vertical_char s0 s1 s2 s3 (eval ! i)"
  let ?v = "concat (map ?f [0..<table_width t - 1])"
  have v: "utf8len ?v = table_width t - 1" "LF \<notin> set ?v" "length ?v \<le> 4 * (table_width t - 1)"
    using utf8len_verticals [of "[0..<table_width t - 1]" ?f] assms(5) by auto
  have len: "length (?f i) < 10000" if "i < table_width t - 1" for i
    using assms(5) [OF that] by (simp add: border_text_def)
  show ?thesis
  proof (intro exI [of _ "l @ ?v @ r"] conjI allI impI)
    show "full_line t (l @ ?v @ r)"
      using v assms(1,2,4) unfolding full_line_def border_text_def by (elim conjE) simp
    fix ob assume "fits ob (int (length (l @ ?v @ r)) + 1 + e)"
    from border_line_text [OF _ _ assms(3) len this] assms(1,2)
    show "border_line l r e (table_width t) eval s0 s1 s2 s3 ob = Inr (True, adv ob ((l @ ?v @ r) @ [LF]) e)"
      by (simp add: border_text_def)
  qed
qed

section \<open>All rows\<close>

text \<open>
  The header line has no character for a border that is only above or only below it: the cells of the
  header row and of the row after it must end at the same columns.
\<close>

definition inner_ends :: "table_t \<Rightarrow> nat \<Rightarrow> nat list" where
  "inner_ends t r = filter (\<lambda>e. e < nCol t) (row_ends t r)"

definition header_fits :: "table_t \<Rightarrow> bool" where
  "header_fits t \<longleftrightarrow>
     (let r = (if title t = None then 0 else 1) in
      headerLine t \<and> r < nRow t \<longrightarrow>
        inner_ends t r = (if r + 1 < nRow t then inner_ends t (r + 1) else []))"

definition drawable :: "bool \<Rightarrow> table_t \<Rightarrow> bool" where
  "drawable cutpad t \<longleftrightarrow> header_fits t
     \<and> list_all (\<lambda>r. list_all (cell_fits cutpad t r) (drawn_cells t r)) [0..<nRow t]"

lemma inner_end_iff:
  assumes "Suc i < table_width t"
  shows "Suc i \<in> prefix_width t ` set (row_ends t r) \<longleftrightarrow> Suc i \<in> prefix_width t ` set (inner_ends t r)"
proof -
  have "e < nCol t" if "Suc i = prefix_width t e" for e
  proof (rule ccontr)
    assume "\<not> e < nCol t"
    then have "table_width t \<le> prefix_width t e"
      unfolding table_width_prefix by (intro prefix_width_mono) simp
    with that assms show False by simp
  qed
  then show ?thesis by (auto simp: inner_ends_def)
qed

text \<open>The map of the crossings between row \<open>r\<close> and the next one.\<close>

lemma marks_between:
  assumes "tbl_ok t" and "r < nRow t"
  shows "\<exists>e1 e2. utable_mark_verticals t 2 r (replicate (table_width t) 0) = Inr e1
     \<and> (if r < nRow t - 1 then utable_mark_verticals t 1 (r + 1) e1 else Inr e1) = Inr e2
     \<and> length e2 = table_width t
     \<and> (\<forall>i<table_width t. e2 ! i =
          (if Suc i \<in> prefix_width t ` set (row_ends t r) then 2 else 0) +
          (if r < nRow t - 1 \<and> Suc i \<in> prefix_width t ` set (row_ends t (r + 1)) then 1 else 0))"
proof -
  obtain e1 where e1: "utable_mark_verticals t 2 r (replicate (table_width t) 0) = Inr e1"
    "length e1 = table_width t"
    "\<And>i. i < table_width t \<Longrightarrow> e1 ! i = (if Suc i \<in> prefix_width t ` set (row_ends t r) then 2 else 0)"
    using utable_mark_verticals_ok [OF assms, of "replicate (table_width t) 0" 2] by auto
  show ?thesis
  proof (cases "r < nRow t - 1")
    case True
    then have r1: "r + 1 < nRow t" by simp
    obtain e2 where e2: "utable_mark_verticals t 1 (r + 1) e1 = Inr e2" "length e2 = table_width t"
      "\<And>i. i < table_width t \<Longrightarrow>
         e2 ! i = (if Suc i \<in> prefix_width t ` set (row_ends t (r + 1)) then e1 ! i OR 1 else e1 ! i)"
      using utable_mark_verticals_ok [OF assms(1) r1 e1(2), of 1] e1(2) by auto
    show ?thesis
      by (rule exI [of _ e1], rule exI [of _ e2]) (use True e1 e2 in \<open>simp add: or_Suc_0_eq\<close>)
  next
    case False
    show ?thesis
      by (rule exI [of _ e1], rule exI [of _ e1]) (use False e1 in simp)
  qed
qed

lemma line_below_ok:
  assumes "borders_text b" and "header_fits t" and "r < nRow t" and "0 < table_width t"
    and ev: "\<And>i. i < table_width t \<Longrightarrow> e2 ! i =
          (if Suc i \<in> prefix_width t ` set (row_ends t r) then 2 else 0) +
          (if r < nRow t - 1 \<and> Suc i \<in> prefix_width t ` set (row_ends t (r + 1)) then 1 else 0)"
  shows "\<exists>ls e. 0 \<le> e \<and> e \<le> 5 \<and> length ls \<le> 1 \<and> (\<forall>l\<in>set ls. full_line t l)
     \<and> (\<forall>ob. fits ob (int (length (lines_text ls)) + e) \<longrightarrow>
          line_below b t (table_width t) e2 r ob = Inr (True, adv ob (lines_text ls) e))"
proof -
  let ?mid = "border_line (middle_left b) (middle_right b) 0 (table_width t) e2 (middle_horizontal b)
      (Some (middle_horizontal_down b)) (Some (middle_horizontal_up b)) (Some (middle_cross b))"
  let ?hdr = "headerLine t \<and> (r = 0 \<and> title t = None \<or> r = 1 \<and> title t \<noteq> None)"
  have none: ?thesis if "\<And>ob. line_below b t (table_width t) e2 r ob = Inr (True, ob)"
    by (rule exI [of _ "[]"], rule exI [of _ 0]) (simp add: that)
  have one: ?thesis if e: "0 \<le> e" "e \<le> 5"
    and ex: "\<exists>line. full_line t line \<and> (\<forall>ob. fits ob (int (length line) + 1 + e) \<longrightarrow> f ob = Inr (True, adv ob (line @ [LF]) e))"
    and f: "\<And>ob. line_below b t (table_width t) e2 r ob = f ob" for e f
  proof -
    obtain line where "full_line t line"
      "\<And>ob. fits ob (int (length line) + 1 + e) \<Longrightarrow> f ob = Inr (True, adv ob (line @ [LF]) e)"
      using ex by blast
    then show ?thesis
      by - (rule exI [of _ "[line]"], rule exI [of _ e], use e f in \<open>auto simp: algebra_simps\<close>)
  qed
  have mid: "\<exists>line. full_line t line \<and> (\<forall>ob. fits ob (int (length line) + 1 + 0) \<longrightarrow> ?mid ob = Inr (True, adv ob (line @ [LF]) 0))"
    by (rule border_line_ok) (use assms(1,4) in \<open>auto simp: borders_text_def vertical_char_def\<close>)
  show ?thesis
  proof (cases ?hdr)
    case True
    have "border_text (vertical_char (top_middle_horizontal b) None None (Some (top_middle_cross b)) (e2 ! i))"
      if i: "i < table_width t - 1" for i
    proof -
      have ie: "inner_ends t r = (if r + 1 < nRow t then inner_ends t (r + 1) else [])"
      proof -
        have r: "(if title t = None then 0 else 1) = r" using True by auto
        have "headerLine t" using True by simp
        with assms(2,3) show ?thesis unfolding header_fits_def Let_def r by blast
      qed
      have si: "Suc i < table_width t" using i by simp
      have "e2 ! i = (if Suc i \<in> prefix_width t ` set (inner_ends t r) then 2 else 0) +
          (if r < nRow t - 1 \<and> Suc i \<in> prefix_width t ` set (inner_ends t (r + 1)) then 1 else 0)"
        using ev [of i] si by (simp add: inner_end_iff)
      also have "\<dots> = (if Suc i \<in> prefix_width t ` set (inner_ends t r) then 3 else 0)"
      proof (cases "r + 1 < nRow t")
        case True
        with ie show ?thesis by simp
      next
        case False
        with ie have "inner_ends t r = []" by simp
        with False show ?thesis by simp
      qed
      finally show ?thesis using assms(1) by (simp add: vertical_char_def borders_text_def)
    qed
    then have "\<exists>line. full_line t line \<and> (\<forall>ob. fits ob (int (length line) + 1 + (int (length (top_middle_right b)) + 1))
        \<longrightarrow> border_line (top_middle_left b) (top_middle_right b) (int (length (top_middle_right b)) + 1)
              (table_width t) e2 (top_middle_horizontal b) None None (Some (top_middle_cross b)) ob
            = Inr (True, adv ob (line @ [LF]) (int (length (top_middle_right b)) + 1)))"
      using assms(1,4) by (intro border_line_ok) (auto simp: borders_text_def)
    then show ?thesis
      by (rule one [rotated 2])
        (use True assms(1) in \<open>auto simp: line_below_def Let_def borders_text_def border_text_def\<close>)
  next
    case nh: False
    show ?thesis
    proof (cases "r = 0 \<and> title t \<noteq> None")
      case True
      show ?thesis
      proof (cases "titleStyle t = TITLESTYLE_LINE")
        case True
        show ?thesis
          by (rule one [OF _ _ mid]) (use nh \<open>r = 0 \<and> title t \<noteq> None\<close> True in \<open>auto simp: line_below_def Let_def\<close>)
      next
        case False
        show ?thesis
          by (rule none) (use nh \<open>r = 0 \<and> title t \<noteq> None\<close> False in \<open>auto simp: line_below_def Let_def\<close>)
      qed
    next
      case nt: False
      show ?thesis
      proof (cases "interior_h t \<and> r < nRow t - 1")
        case True
        show ?thesis
          by (rule one [OF _ _ mid]) (use nh nt True in \<open>auto simp: line_below_def Let_def\<close>)
      next
        case False
        show ?thesis by (rule none) (use nh nt False in \<open>auto simp: line_below_def Let_def\<close>)
      qed
    qed
  qed
qed

text \<open>What the bottom line can draw: no crossing of a border above with a border below.\<close>

definition no_cross :: "nat \<Rightarrow> nat list \<Rightarrow> bool" where
  "no_cross w eval \<longleftrightarrow> length eval = w \<and> (\<forall>i<w. eval ! i \<in> {0, 1, 2})"

lemma draw_rows_ok:
  assumes "tbl_ok t" and "drawable cutpad t" and "borders_text b" and "0 < table_width t"
    and "k \<le> nRow t"
  shows "\<exists>ls e eval'. 0 \<le> e \<and> e \<le> 5 * int (nRow t - k) \<and> length ls \<le> 2 * (nRow t - k) \<and> (\<forall>l\<in>set ls. full_line t l)
     \<and> (\<forall>r. k \<le> r \<and> r < nRow t \<longrightarrow> (\<exists>l\<in>set ls. \<forall>c\<in>set (drawn_cells t r). in_line t r c l))
     \<and> (k < nRow t \<or> no_cross (table_width t) eval \<longrightarrow> no_cross (table_width t) eval')
     \<and> (\<forall>ob. fits ob (int (length (lines_text ls)) + e) \<longrightarrow>
          draw_rows cutpad b (table_width t) [k..<nRow t] eval (t, ob)
            = Inr (True, eval', t, adv ob (lines_text ls) e))"
  using assms(5)
proof (induction "nRow t - k" arbitrary: k eval)
  case 0
  then have "k = nRow t" by simp
  then show ?case
    by - (rule exI [of _ "[]"], rule exI [of _ 0], rule exI [of _ eval], auto)
next
  case (Suc m)
  then have k: "k < nRow t" "m = nRow t - Suc k" "Suc k \<le> nRow t" by auto
  have hf: "header_fits t" and cf: "\<forall>c\<in>set (drawn_cells t k). cell_fits cutpad t k c"
    using assms(2) k(1) by (auto simp: drawable_def list_all_iff)
  obtain l where l: "full_line t l" "\<forall>c\<in>set (drawn_cells t k). in_line t k c l"
    "\<And>ob. fits ob (int (length l) + 1) \<Longrightarrow>
       utable_draw_cellcontent_row cutpad (border_vertical b) (border_vertical b) (middle_vertical b) k (t, ob)
         = Inr (t, adv ob (l @ [LF]) 0)"
    using row_line_ok [OF assms(1) k(1) cf, of "border_vertical b" "border_vertical b" "middle_vertical b"] assms(3)
    by (auto simp: borders_text_def)
  obtain e1 e2 where e: "utable_mark_verticals t 2 k (replicate (table_width t) 0) = Inr e1"
     "(if k < nRow t - 1 then utable_mark_verticals t 1 (k + 1) e1 else Inr e1) = Inr e2"
     "length e2 = table_width t"
     "\<And>i. i < table_width t \<Longrightarrow> e2 ! i =
          (if Suc i \<in> prefix_width t ` set (row_ends t k) then 2 else 0) +
          (if k < nRow t - 1 \<and> Suc i \<in> prefix_width t ` set (row_ends t (k + 1)) then 1 else 0)"
    using marks_between [OF assms(1) k(1)] by blast
  obtain ls1 x1 where b: "0 \<le> x1" "x1 \<le> 5" "length ls1 \<le> 1" "\<forall>l\<in>set ls1. full_line t l"
     "\<And>ob. fits ob (int (length (lines_text ls1)) + x1) \<Longrightarrow>
          line_below b t (table_width t) e2 k ob = Inr (True, adv ob (lines_text ls1) x1)"
    using line_below_ok [OF assms(3) hf k(1) assms(4) e(4)] by blast
  obtain ls x eval' where r: "0 \<le> x" "x \<le> 5 * int (nRow t - Suc k)" "length ls \<le> 2 * (nRow t - Suc k)" "\<forall>l\<in>set ls. full_line t l"
     "\<forall>r. Suc k \<le> r \<and> r < nRow t \<longrightarrow> (\<exists>l\<in>set ls. \<forall>c\<in>set (drawn_cells t r). in_line t r c l)"
     "Suc k < nRow t \<or> no_cross (table_width t) e2 \<longrightarrow> no_cross (table_width t) eval'"
     "\<And>ob. fits ob (int (length (lines_text ls)) + x) \<Longrightarrow>
          draw_rows cutpad b (table_width t) [Suc k..<nRow t] e2 (t, ob)
            = Inr (True, eval', t, adv ob (lines_text ls) x)"
    using Suc.hyps(1) [OF k(2,3), of e2] by blast
  let ?ls = "l # ls1 @ ls"
  have nc: "no_cross (table_width t) eval'"
  proof (cases "Suc k < nRow t")
    case False
    then have "\<not> k < nRow t - 1" by simp
    then have "no_cross (table_width t) e2" using e(3,4) by (simp add: no_cross_def)
    then show ?thesis using r(6) by simp
  qed (use r(6) in simp)
  have run: "draw_rows cutpad b (table_width t) [k..<nRow t] eval (t, ob)
      = Inr (True, eval', t, adv ob (lines_text ?ls) (x1 + x))"
    if f: "fits ob (int (length (lines_text ?ls)) + (x1 + x))" for ob
  proof -
    have f1: "fits ob (int (length l) + 1)" using f b(1) r(1) by (auto elim: fits_mono)
    have f2: "fits (adv ob (l @ [LF]) 0) (int (length (lines_text ls1)) + x1 + (int (length (lines_text ls)) + x))"
      using f b(1) r(1) by (intro fits_adv) (auto simp: algebra_simps)
    then have f2': "fits (adv ob (l @ [LF]) 0) (int (length (lines_text ls1)) + x1)"
      using b(1) r(1) by (auto elim: fits_mono)
    have f3: "fits (adv ob (l @ [LF] @ lines_text ls1) x1) (int (length (lines_text ls)) + x)"
      using fits_adv [OF f2 b(1)] r(1) by simp
    have row: "utable_draw_cellcontent_row cutpad (border_vertical b) (border_vertical b) (middle_vertical b) k (t, ob)
         = Inr (t, adv ob (l @ [LF]) 0)" by (rule l(3) [OF f1])
    have below: "line_below b t (table_width t) e2 k (adv ob (l @ [LF]) 0)
        = Inr (True, adv ob (l @ [LF] @ lines_text ls1) x1)"
      using b(5) [OF f2'] by simp
    have rest: "draw_rows cutpad b (table_width t) [Suc k..<nRow t] e2 (t, adv ob (l @ [LF] @ lines_text ls1) x1)
        = Inr (True, eval', t, adv ob (lines_text ?ls) (x1 + x))"
      using r(7) [OF f3] by simp
    have up: "[k..<nRow t] = k # [Suc k..<nRow t]" using k(1) by (rule upt_conv_Cons)
    show ?thesis
      unfolding up draw_rows.simps row and_then_simps prod.case e(1,2)
      using fits_left [OF f2'] below rest by simp
  qed
  have il: "\<exists>l\<in>set ?ls. \<forall>c\<in>set (drawn_cells t r'). in_line t r' c l" if "k \<le> r'" "r' < nRow t" for r'
  proof (cases "r' = k")
    case True
    then show ?thesis using l(2) by auto
  next
    case False
    then have "Suc k \<le> r'" using that(1) by simp
    then have "\<exists>l\<in>set ls. \<forall>c\<in>set (drawn_cells t r'). in_line t r' c l" using r(5) that(2) by blast
    then show ?thesis by auto
  qed
  have "x1 + x \<le> 5 * int (nRow t - k)" using b(2) r(2) k(1) by simp
  moreover have "length ?ls \<le> 2 * (nRow t - k)" using b(3) r(3) k(1) by simp
  moreover have "0 \<le> x1 + x" using b(1) r(1) by simp
  moreover have "\<forall>l\<in>set ?ls. full_line t l" using l(1) b(4) r(4) by auto
  ultimately show ?case using il nc run by blast
qed

text \<open>The table that is drawn: with all widths set and the title row in place.\<close>

definition prepared :: "table_t \<Rightarrow> table_t" where
  "prepared t = insert_title (utable_set_autocolwidth t)"

lemma utable_strstroke_ok:
  assumes "tbl_ok (prepared t)" and "drawable cutpad (prepared t)"
    and "0 < nRow (prepared t)" and "0 < nCol (prepared t)"
  shows "\<exists>ls. (\<forall>l\<in>set ls. full_line (prepared t) l) \<and> length ls \<le> 2 * nRow (prepared t) + 2
     \<and> (\<forall>r<nRow (prepared t). \<exists>l\<in>set ls. \<forall>c\<in>set (drawn_cells (prepared t) r). in_line (prepared t) r c l)
     \<and> (\<forall>n. 2 * length (lines_text ls) + 10 * nRow (prepared t) + 2 < n \<and> n < 2 ^ 31 \<longrightarrow>
          utable_strstroke cutpad t n style = Inr (0, prepared t, lines_text ls))"
proof -
  let ?t = "prepared t"
  define b where "b = table_borders ?t style"
  define top2 where "top2 = (if title ?t \<noteq> None then None else Some (top_down b))"
  have b: "borders_text b" by (simp add: b_def table_borders_text)
  have w: "0 < table_width ?t"
    using prefix_width_ge [of "nCol ?t" ?t] assms(4) by (simp add: table_width_prefix)
  obtain eval1 where ev1: "(if title ?t \<noteq> None then Inr (replicate (table_width ?t) 0)
        else utable_mark_verticals ?t 1 0 (replicate (table_width ?t) 0)) = Inr eval1"
    "no_cross (table_width ?t) eval1"
    "\<And>i. i < table_width ?t \<Longrightarrow> eval1 ! i = 0 \<or> (eval1 ! i = 1 \<and> title ?t = None)"
  proof (cases "title ?t")
    case None
    obtain ev where "utable_mark_verticals ?t 1 0 (replicate (table_width ?t) 0) = Inr ev"
      "length ev = table_width ?t"
      "\<And>i. i < table_width ?t \<Longrightarrow> ev ! i = (if Suc i \<in> prefix_width ?t ` set (row_ends ?t 0) then 1 else 0)"
      using utable_mark_verticals_ok [OF assms(1,3), of "replicate (table_width ?t) 0" 1] by auto
    with None show ?thesis by (intro that [of ev]) (auto simp: no_cross_def)
  next
    case (Some ti)
    then show ?thesis by (intro that [of "replicate (table_width ?t) 0"]) (auto simp: no_cross_def)
  qed
  have "\<exists>line. full_line ?t line \<and> (\<forall>ob. fits ob (int (length line) + 1 + 0) \<longrightarrow>
      border_line (top_left b) (top_right b) 0 (table_width ?t) eval1 (top_horizontal b) top2 None None ob
        = Inr (True, adv ob (line @ [LF]) 0))"
  proof (rule border_line_ok)
    fix i assume "i < table_width ?t - 1"
    then have "i < table_width ?t" by simp
    then have "eval1 ! i = 0 \<or> (eval1 ! i = 1 \<and> title ?t = None)" by (rule ev1(3))
    then show "border_text (vertical_char (top_horizontal b) top2 None None (eval1 ! i))"
      using b by (auto simp: vertical_char_def top2_def borders_text_def)
  qed (use b w in \<open>auto simp: borders_text_def\<close>)
  then obtain tl where tl: "full_line ?t tl" "\<And>ob. fits ob (int (length tl) + 1) \<Longrightarrow>
      border_line (top_left b) (top_right b) 0 (table_width ?t) eval1 (top_horizontal b) top2 None None ob
        = Inr (True, adv ob (tl @ [LF]) 0)"
    by auto
  obtain ls x eval2 where r: "0 \<le> x" "x \<le> 5 * int (nRow ?t)" "length ls \<le> 2 * nRow ?t" "\<forall>l\<in>set ls. full_line ?t l"
     "\<forall>r<nRow ?t. \<exists>l\<in>set ls. \<forall>c\<in>set (drawn_cells ?t r). in_line ?t r c l"
     "no_cross (table_width ?t) eval2"
     "\<And>ob. fits ob (int (length (lines_text ls)) + x) \<Longrightarrow>
          draw_rows cutpad b (table_width ?t) [0..<nRow ?t] eval1 (?t, ob)
            = Inr (True, eval2, ?t, adv ob (lines_text ls) x)"
    using draw_rows_ok [OF assms(1,2) b w, of 0 eval1] ev1(2) by auto
  have "\<exists>line. full_line ?t line \<and> (\<forall>ob. fits ob (int (length line) + 1 + 1) \<longrightarrow>
      border_line (bottom_left b) (bottom_right b) 1 (table_width ?t) eval2 (bottom_horizontal b)
        (Some (bottom_up b)) (Some (bottom_up b)) None ob = Inr (True, adv ob (line @ [LF]) 1))"
  proof (rule border_line_ok)
    fix i assume "i < table_width ?t - 1"
    then have "i < table_width ?t" by simp
    then have "eval2 ! i \<in> {0, 1, 2}" using r(6) by (auto simp: no_cross_def)
    then show "border_text (vertical_char (bottom_horizontal b) (Some (bottom_up b)) (Some (bottom_up b)) None (eval2 ! i))"
      using b by (auto simp: vertical_char_def borders_text_def)
  qed (use b w in \<open>auto simp: borders_text_def\<close>)
  then obtain bl where bl: "full_line ?t bl" "\<And>ob. fits ob (int (length bl) + 1 + 1) \<Longrightarrow>
      border_line (bottom_left b) (bottom_right b) 1 (table_width ?t) eval2 (bottom_horizontal b)
        (Some (bottom_up b)) (Some (bottom_up b)) None ob = Inr (True, adv ob (bl @ [LF]) 1)"
    by blast
  define ls' where "ls' = tl # ls @ (if have_bottom_border b then [bl] else [])"
  have run: "utable_strstroke cutpad t n style = Inr (0, ?t, lines_text ls')"
    if n: "2 * length (lines_text ls') + 10 * nRow ?t + 2 < n" "n < 2 ^ 31" for n
  proof -
    define ob where "ob = \<lparr> ob_text = [], ob_left = int n, ob_size = n \<rparr>"
    have n32: "to_int32 (int n) = int n" using n(2) by simp
    have f0: "fits ob (int (length (lines_text ls')) + x + 1)"
      using n r(1,2) by (simp add: fits_def ob_def)
    have f0': "fits ob (int (length tl) + 1)"
      by (rule fits_mono [OF f0]) (use r(1) in \<open>simp_all add: ls'_def\<close>)
    have top: "border_line (top_left b) (top_right b) 0 (table_width ?t) eval1 (top_horizontal b) top2 None None ob
        = Inr (True, adv ob (tl @ [LF]) 0)" by (rule tl(2) [OF f0'])
    define m where "m = (if have_bottom_border b then int (length bl) + 2 else 0)"
    have m0: "0 \<le> m" by (simp add: m_def)
    have f1: "fits (adv ob (tl @ [LF]) 0) (int (length (lines_text ls)) + x + m)"
      by (rule fits_adv) (use f0 r(1) in \<open>auto simp: ls'_def m_def algebra_simps elim: fits_mono\<close>)
    have f1': "fits (adv ob (tl @ [LF]) 0) (int (length (lines_text ls)) + x)"
      by (rule fits_mono [OF f1]) (use r(1) m0 in auto)
    have rows: "draw_rows cutpad b (table_width ?t) [0..<nRow ?t] eval1 (?t, adv ob (tl @ [LF]) 0)
        = Inr (True, eval2, ?t, adv ob (tl @ [LF] @ lines_text ls) x)"
      using r(7) [OF f1'] by simp
    have f2: "fits (adv ob (tl @ [LF] @ lines_text ls) x) m"
      using fits_adv [OF f1 r(1) m0] by simp
    have bot: "border_line (bottom_left b) (bottom_right b) 1 (table_width ?t) eval2 (bottom_horizontal b)
        (Some (bottom_up b)) (Some (bottom_up b)) None (adv ob (tl @ [LF] @ lines_text ls) x)
        = Inr (True, adv ob (tl @ [LF] @ lines_text ls @ bl @ [LF]) (x + 1))" if "have_bottom_border b"
      using bl(2) [of "adv ob (tl @ [LF] @ lines_text ls) x"] f2 that by (simp add: m_def add.commute)
    show ?thesis
      unfolding utable_strstroke_def Let_def prepared_def [symmetric] n32 ob_def [symmetric]
        b_def [symmetric] top2_def [symmetric] ev1(1) and_then_simps top prod.case rows
      using w bot by (simp add: ls'_def ob_def)
  qed
  have "\<forall>l\<in>set ls'. full_line ?t l" using tl(1) bl(1) r(4) by (auto simp: ls'_def)
  moreover have "set ls \<subseteq> set ls'" by (auto simp: ls'_def)
  moreover have "length ls' \<le> 2 * nRow ?t + 2" using r(3) by (simp add: ls'_def)
  ultimately show ?thesis using r(5) run by blast
qed

section \<open>Preparing a table\<close>

lemma colspan_frame: "\<exists>cs. snd (utable_set_cell_colspan t row col span) = t\<lparr> cells := cs \<rparr>"
proof (cases "utable_rc_chk t row col \<noteq> 0 \<or> nCol t \<le> (col + span + (SIZE_MOD - 1)) mod SIZE_MOD")
  case True
  then show ?thesis by (intro exI [of _ "cells t"]) (simp add: utable_set_cell_colspan_def)
next
  case False
  define F where "F = (\<lambda>(c::nat) (x :: tcell_t). x\<lparr> merged := True, pRow := to_int32 (int row), pCol := to_int32 (int col) \<rparr>)"
  define t1 where "t1 = upd_cell (\<lambda>x. x\<lparr> cspan := span, merged := False, pRow := to_int32 (int row),
                                      pCol := to_int32 (int col) \<rparr>) t row col"
  have "snd (utable_set_cell_colspan t row col span)
      = fold (\<lambda>c t. upd_cell (F c) t row c) [col + 1..<(col + span) mod SIZE_MOD] t1"
    unfolding utable_set_cell_colspan_def F_def t1_def using False by (simp only: Let_def if_False snd_conv)
  then show ?thesis unfolding fold_upd_cell_row [where F = F] by (auto simp: t1_def)
qed

lemma autocolwidth_props:
  "tshape (utable_set_autocolwidth t) = tshape t \<and> cells (utable_set_autocolwidth t) = cells t
   \<and> title (utable_set_autocolwidth t) = title t \<and> mincolwidth (utable_set_autocolwidth t) = mincolwidth t
   \<and> headerLine (utable_set_autocolwidth t) = headerLine t"
  unfolding utable_set_autocolwidth_def
  by (rule fold_inv [where P = "\<lambda>u. tshape u = tshape t \<and> cells u = cells t \<and> title u = title t
        \<and> mincolwidth u = mincolwidth t \<and> headerLine u = headerLine t"])
    (auto simp: tshape_def)

lemma insert_title_ok:
  assumes "tbl_ok t" and "0 < nRow t" and "0 < nCol t"
  shows "tbl_ok (insert_title t)"
proof (cases "title t")
  case None
  then show ?thesis using assms(1) by (simp add: insert_title_def)
next
  case (Some ti)
  let ?n = "nCol t"
  let ?k = "nRow t * ?n"
  show ?thesis
  proof (cases "titleCopied t")
    case True
    have "TIDX t 0 0 < length (cells t)" using assms(1-3) by (rule tbl_ok_index)
    then have "tshape (insert_title t) = tshape t"
      using Some True by (auto simp: insert_title_def tshape_def shape_def TIDX_def intro!: map_upd_same)
    then show ?thesis using assms(1) tbl_ok_cong by blast
  next
    case False
    define cs where "cs = replicate ?n zero_cell @ take ?k (cells t) @ drop (?n + ?k) (cells t)"
    define c0 where "c0 = (cs ! 0)\<lparr> cell_t := Some ti, halign := CENTERALIGN \<rparr>"
    define t2 where "t2 = t\<lparr> cells := cs[0 := c0] \<rparr>"
    have ok: "nRow t + 1 < 2 ^ 31" "?n < 2 ^ 31" "(nRow t + 1) * ?n \<le> length (cells t)"
      "length (colwidth t) = ?n + 1" "length (mincolwidth t) = ?n + 1"
      using assms(1) False by (auto simp: tbl_ok_def Let_def)
    have len: "length cs = length (cells t)" using ok(3) by (simp add: cs_def)
    have TI2: "TIDX t2 = TIDX t" by (simp add: t2_def)
    define t3 where "t3 = snd (utable_set_cell_colspan t2 0 0 ?n)"
    have n64: "?n < SIZE_MOD" using ok(2) by (simp add: SIZE_MOD_def)
    have pred: "(0 + ?n + (SIZE_MOD - 1)) mod SIZE_MOD = ?n - 1"
      using size_pred [of ?n] assms(3) n64 by simp
    define F where "F = (\<lambda>(c::nat) (x :: tcell_t). x\<lparr> merged := True, pRow := 0, pCol := 0 \<rparr>)"
    define c1 where "c1 = c0\<lparr> cspan := ?n, merged := False, pRow := 0, pCol := 0 \<rparr>"
    have pos: "0 < length cs" using len ok(3) assms(3) by (cases "cells t") auto
    have t3: "t3 = t\<lparr> cells := fold (\<lambda>c cs. cs[c := F c (cs ! c)]) [1..<?n] (cs[0 := c1]) \<rparr>"
    proof -
      have "t3 = fold (\<lambda>c t. upd_cell (F c) t 0 c) [0 + 1..<(0 + ?n) mod SIZE_MOD] (t\<lparr> cells := cs[0 := c1] \<rparr>)"
        unfolding t3_def utable_set_cell_colspan_def
        using assms(2,3) pos pred
        by (simp add: utable_rc_chk_def t2_def TIDX_def c1_def F_def Let_def to_int32_def)
      then show ?thesis
        unfolding fold_upd_cell_row [where F = F] using n64 by (simp add: TIDX_def)
    qed
    define cs3 where "cs3 = fold (\<lambda>c cs. cs[c := F c (cs ! c)]) [1..<?n] (cs[0 := c1])"
    have it: "insert_title t = t3\<lparr> nRow := nRow t3 + 1, titleCopied := True \<rparr>"
      using Some False by (simp add: insert_title_def t3_def t2_def cs_def c0_def Let_def)
    have len3: "length cs3 = length cs"
      using fold_upd_length [where g = "\<lambda>c. c" and h = F and ps = "[1..<?n]" and cs = "cs[0 := c1]"]
      by (simp add: cs3_def)
    have first: "cs3 ! 0 = c1"
      using fold_upd_other [where g = "\<lambda>c. c" and i = 0 and ps = "[1..<?n]" and h = F and cs = "cs[0 := c1]"] pos
      by (simp add: cs3_def)
    have title_row: "cs3 ! c = F c zero_cell" if "0 < c" "c < ?n" for c
    proof -
      have "c < length cs" using that len ok(3) by (auto simp: add_mult_distrib)
      moreover have "(cs[0 := c1]) ! c = zero_cell" using that by (simp add: cs_def nth_append)
      ultimately show ?thesis
        using fold_upd_at [where g = "\<lambda>c. c" and p = c and ps = "[1..<?n]" and h = F and cs = "cs[0 := c1]"] that
        by (simp add: cs3_def)
    qed
    have below: "cs3 ! (?n + i) = cells t ! i" if "i < ?k" for i
    proof -
      have "cs3 ! (?n + i) = cs[0 := c1] ! (?n + i)"
        using fold_upd_other [where g = "\<lambda>c. c" and i = "?n + i" and ps = "[1..<?n]" and h = F and cs = "cs[0 := c1]"]
        by (simp add: cs3_def)
      also have "\<dots> = cells t ! i"
        using assms(3) that ok(3) by (simp add: cs_def nth_append add_mult_distrib)
      finally show ?thesis .
    qed
    let ?u = "insert_title t"
    have u: "nRow ?u = nRow t + 1" "nCol ?u = ?n" "cells ?u = cs3" "titleCopied ?u"
      "title ?u = Some ti" "colwidth ?u = colwidth t" "mincolwidth ?u = mincolwidth t"
      unfolding it t3 using Some by (simp_all add: cs3_def)
    show ?thesis
    proof (rule tbl_okI)
      fix r c assume rc: "r < nRow ?u" "c < nCol ?u"
      have ix: "TIDX ?u r c = r * ?n + c" by (simp add: TIDX_def u)
      show "cell_ok (nRow ?u) (nCol ?u) c (shape (cell ?u r c))
           \<and> (if titleCopied ?u \<and> r = 0 then c = 0 \<longrightarrow> cspan (cell ?u r c) = nCol ?u
              else 1 \<le> cspan (cell ?u r c))"
      proof (cases r)
        case 0
        show ?thesis
        proof (cases "c = 0")
          case True
          have "cell ?u r c = c1" using 0 True first ix by (simp add: u)
          with 0 True show ?thesis by (simp add: u c1_def cell_ok_def shape_def)
        next
          case False
          then have "cell ?u r c = F c zero_cell" using 0 title_row [of c] rc ix by (simp add: u)
          with 0 False rc show ?thesis
            using assms(2,3) by (simp add: u F_def zero_cell_def cell_ok_def shape_def)
        qed
      next
        case (Suc r')
        have r': "r' < nRow t" using Suc rc by (simp add: u)
        have c: "c < ?n" using rc by (simp add: u)
        have "TIDX t r' c < ?k" using TIDX_less [OF r' c] .
        then have "cs3 ! (?n + TIDX t r' c) = cell t r' c" by (rule below)
        then have ce: "cell ?u r c = cell t r' c" using ix Suc by (simp add: u TIDX_def add.assoc)
        show ?thesis
          unfolding ce unfolding u using tbl_ok_cell [OF assms(1) r' c] Suc False
          by (auto simp: cell_ok_def shape_def)
      qed
    qed (use ok len len3 in \<open>simp_all add: u\<close>)
  qed
qed

lemma prepared_ok:
  assumes "tbl_ok t" and "0 < nRow t" and "0 < nCol t"
  shows "tbl_ok (prepared t)" and "0 < nRow (prepared t)" and "nCol (prepared t) = nCol t"
proof -
  let ?a = "utable_set_autocolwidth t"
  note a = autocolwidth_props [of t]
  have ok: "tbl_ok ?a" using a assms(1) tbl_ok_cong by blast
  have f: "nRow ?a = nRow t" "nCol ?a = nCol t" "titleCopied ?a = titleCopied t" "title ?a = title t"
    using a by (auto simp: tshape_def)
  show "tbl_ok (prepared t)"
    unfolding prepared_def using ok assms f by (intro insert_title_ok) auto
  have g: "nCol (snd (utable_set_cell_colspan u r c s)) = nCol u
      \<and> nRow (snd (utable_set_cell_colspan u r c s)) = nRow u
      \<and> title (snd (utable_set_cell_colspan u r c s)) = title u" for u r c s
    using colspan_frame [of u r c s] by auto
  show "0 < nRow (prepared t)" "nCol (prepared t) = nCol t"
    using assms(2) f g by (auto simp: prepared_def insert_title_def Let_def split: option.splits)
qed

section \<open>The drawing ends\<close>

definition sane :: "('a \<Rightarrow> bool) \<Rightarrow> 'a stroked \<Rightarrow> bool" where
  "sane P m \<longleftrightarrow> (case m of Inl e \<Rightarrow> e \<noteq> NoEnd \<and> e \<noteq> BadIndex | Inr x \<Rightarrow> P x)"

lemma sane_simps [simp]: "sane P (Inr x) \<longleftrightarrow> P x" "sane P (Inl e) \<longleftrightarrow> e \<noteq> NoEnd \<and> e \<noteq> BadIndex"
  by (simp_all add: sane_def)

lemma sane_bind: "sane Q m \<Longrightarrow> (\<And>x. Q x \<Longrightarrow> sane P (f x)) \<Longrightarrow> sane P (and_then m f)"
  by (cases m) auto

lemma sane_mono: "sane Q m \<Longrightarrow> (\<And>x. Q x \<Longrightarrow> P x) \<Longrightarrow> sane P m"
  by (cases m) auto

abbreviation (input) anything :: "'a \<Rightarrow> bool" where "anything \<equiv> \<lambda>_. True"

lemma sane_emit: "sane anything (emit s ob)"
  by (simp add: emit_def Let_def)

lemma sane_loop: "(\<And>i s. sane anything (f i s)) \<Longrightarrow> sane anything (loop_ok f is s)"
  by (induction "is" arbitrary: s) (auto intro: sane_bind)

lemma sane_copy: "sane anything (copy_to_txtbuff s n)"
  by (simp add: copy_to_txtbuff_def)

lemma sane_padded: "sane anything (padded_text cutpad lp rp w txt)"
  by (auto simp: padded_text_def Let_def sane_copy split: option.splits
      intro!: sane_bind [OF sane_copy])

lemma sane_align: "sane anything (align_text al w mid p)"
  by (cases al) (simp_all add: align_text_def Let_def)

lemma sane_stroke: "sane anything (utable_stroke_verticals w ev s0 s1 s2 s3 ob)"
  unfolding utable_stroke_verticals_def
  by (rule sane_bind [OF sane_loop]) (auto simp: sane_emit)

lemma sane_border: "sane anything (border_line l r e w ev s0 s1 s2 s3 ob)"
  unfolding border_line_def Let_def
  by (rule sane_bind [OF sane_emit], simp, rule impI, rule sane_bind [OF sane_stroke],
      rule sane_bind [OF sane_emit], simp)

text \<open>Drawing changes only texts.\<close>

definition same_layout :: "table_t \<Rightarrow> table_t \<Rightarrow> bool" where
  "same_layout t t' \<longleftrightarrow> tshape t' = tshape t \<and> colwidth t' = colwidth t"

lemma same_layout_refl [simp]: "same_layout t t"
  by (simp add: same_layout_def)

lemma same_layout_trans: "same_layout t u \<Longrightarrow> same_layout u v \<Longrightarrow> same_layout t v"
  by (simp add: same_layout_def)

lemma same_layout_ok: "same_layout t u \<Longrightarrow> tbl_ok u = tbl_ok t"
  unfolding same_layout_def using tbl_ok_cong by blast

lemma same_layout_fields:
  "same_layout t u \<Longrightarrow> nRow u = nRow t \<and> nCol u = nCol t \<and> titleCopied u = titleCopied t
     \<and> at_cell u = at_cell t \<and> table_width u = table_width t"
  by (auto simp: same_layout_def tshape_def at_cell_def table_width_def fun_eq_iff)

lemma same_layout_call_back: "same_layout t (call_back t r c)"
  by (auto simp: call_back_def same_layout_def shape_def tshape_upd_cell split: option.splits)

lemma sane_draw_cells:
  assumes "tbl_ok t" and "r < nRow t" and "at_cell t r c" and "nCol t - c \<le> n"
  shows "sane (\<lambda>(t', ob'). same_layout t t') (draw_cells n cutpad ml mv r c (t, ob))"
  using assms
proof (induction n arbitrary: c t ob)
  case 0
  then show ?case by (simp add: draw_cells.simps at_cell_def)
next
  case (Suc n)
  show ?case
  proof (cases "nCol t \<le> c")
    case True
    then show ?thesis by (simp add: draw_cells.simps)
  next
    case False
    let ?sp = "cspan (cell t r c)" and ?u = "call_back t r c"
    have c: "c < nCol t" using False by simp
    note nx = at_cell_next [OF Suc.prems(1-3) c]
    have cw: "\<not> length (colwidth t) < c + ?sp" using Suc.prems(1) nx(2) by (simp add: tbl_ok_def Let_def)
    note u = same_layout_call_back [of t r c]
    note uf = same_layout_fields [OF u]
    have "nCol ?u - (c + ?sp) \<le> n" using uf Suc.prems(4) nx(1) by simp
    then have rec: "sane (\<lambda>(t', ob'). same_layout t t')
       (draw_cells n cutpad ml mv r (c + ?sp) (?u, ob'))" for ob'
      using Suc.IH [of ?u "c + ?sp" ob'] same_layout_ok [OF u] uf Suc.prems(1,2) nx(3) u
      by (auto elim!: sane_mono intro: same_layout_trans)
    obtain lp rp where cp: "utable_get_cp t r c = (lp, rp)" by (rule prod.exhaust)
    show ?thesis
      using False cw
      by (subst draw_cells.simps)
        (simp only: Let_def cp if_False nat.case prod.case,
          intro sane_bind [OF sane_padded] sane_bind [OF sane_align] sane_bind [OF sane_emit] rec)
  qed
qed

lemma sane_row:
  assumes "tbl_ok t" and "r < nRow t"
  shows "sane (\<lambda>(t', ob'). same_layout t t') (utable_draw_cellcontent_row cutpad ml mr mv r (t, ob))"
  unfolding utable_draw_cellcontent_row_def fst_conv
  by (rule sane_bind [OF sane_draw_cells [OF assms at_cell_0]])
    (auto intro!: sane_bind [OF sane_emit])

lemma sane_mark:
  assumes "tbl_ok t" and "r < nRow t" and "length eval = table_width t"
  shows "sane (\<lambda>ev. length ev = table_width t) (utable_mark_verticals t mark r eval)"
  using utable_mark_verticals_ok [OF assms, of mark] assms(3) by auto

lemma sane_line_below: "sane anything (line_below b t w ev r ob)"
  by (auto simp: line_below_def Let_def sane_border)

lemma sane_draw_rows:
  assumes "tbl_ok t" and "\<forall>r\<in>set rs. r < nRow t" and "w = table_width t" and "length eval = w"
  shows "sane (\<lambda>(go, ev, t', ob'). same_layout t t' \<and> length ev = w)
           (draw_rows cutpad b w rs eval (t, ob))"
  using assms
proof (induction rs arbitrary: t eval ob)
  case (Cons r rs)
  have r: "r < nRow t" using Cons.prems(2) by simp
  show ?case
    unfolding draw_rows.simps
  proof (rule sane_bind [OF sane_row [OF Cons.prems(1) r]])
    fix x :: "table_t \<times> outbuf"
    assume "case x of (t', ob') \<Rightarrow> same_layout t t'"
    then obtain u ob1 where x: "x = (u, ob1)" "same_layout t u" by (cases x) auto
    note uf = same_layout_fields [OF x(2)]
    have uok: "tbl_ok u" using same_layout_ok [OF x(2)] Cons.prems(1) by simp
    have ru: "r < nRow u" using r uf by simp
    have m1: "sane (\<lambda>ev. length ev = table_width u) (utable_mark_verticals u 2 r (replicate w 0))"
      by (rule sane_mark) (use uok ru uf Cons.prems(3) in auto)
    have m2: "sane (\<lambda>ev. length ev = w)
        (if r < nRow u - 1 then utable_mark_verticals u 1 (r + 1) ev else Inr ev)"
      if "length ev = table_width u" for ev
      using sane_mark [OF uok, of "r + 1" ev 1] that uf Cons.prems(3) by auto
    have rest: "sane (\<lambda>(go, ev, t', ob'). same_layout t t' \<and> length ev = w)
        (draw_rows cutpad b w rs ev (u, ob'))" if "length ev = w" for ev ob'
    proof (rule sane_mono [OF Cons.IH [of u ev ob']])
      show "\<forall>r\<in>set rs. r < nRow u" using Cons.prems(2) uf by simp
    qed (use uok uf Cons.prems(3) that x(2) in \<open>auto intro: same_layout_trans\<close>)
    have tail: "sane (\<lambda>(go, ev, t', ob'). same_layout t t' \<and> length ev = w)
        (and_then (line_below b u w ev2 r ob1) (\<lambda>(go, ob2).
            if \<not> go then Inr (False, ev2, u, ob2) else draw_rows cutpad b w rs ev2 (u, ob2)))"
      if "length ev2 = w" for ev2
      by (rule sane_bind [OF sane_line_below]) (use that x(2) rest in \<open>auto split: prod.splits\<close>)
    show "sane (\<lambda>(go, ev, t', ob'). same_layout t t' \<and> length ev = w)
        (case x of (t1, ob1) \<Rightarrow>
          if ob_left ob1 < 1 then Inr (False, eval, t1, ob1)
          else and_then (utable_mark_verticals t1 2 r (replicate w 0)) (\<lambda>eval1.
            and_then (if r < nRow t1 - 1 then utable_mark_verticals t1 1 (r + 1) eval1 else Inr eval1) (\<lambda>eval2.
            and_then (line_below b t1 w eval2 r ob1) (\<lambda>(go, ob2).
            if \<not> go then Inr (False, eval2, t1, ob2) else draw_rows cutpad b w rs eval2 (t1, ob2)))))"
      unfolding x(1) prod.case
    proof (cases "ob_left ob1 < 1", goal_cases)
      case 1
      then show ?case using Cons.prems(4) x(2) by simp
    next
      case 2
      show ?case
        unfolding if_not_P [OF 2] by (intro sane_bind [OF m1] sane_bind [OF m2] tail)
    qed
  qed
qed simp

lemma sane_strstroke:
  assumes "tbl_ok t" and "0 < nRow t" and "0 < nCol t"
  shows "sane (\<lambda>(rc, t', buff). tbl_ok t' \<and> 0 < nRow t' \<and> 0 < nCol t') (utable_strstroke cutpad t n style)"
proof -
  let ?t = "prepared t"
  note p = prepared_ok [OF assms]
  have w: "0 < table_width ?t"
    using prefix_width_ge [of "nCol ?t" ?t] assms(3) p(3) by (simp add: table_width_prefix)
  have fin: "tbl_ok u \<and> 0 < nRow u \<and> 0 < nCol u" if "same_layout ?t u" for u
    using same_layout_fields [OF that] same_layout_ok [OF that] p assms(3) by simp
  have m: "sane (\<lambda>ev. length ev = table_width ?t) (if title ?t \<noteq> None then Inr (replicate (table_width ?t) 0)
      else utable_mark_verticals ?t 1 0 (replicate (table_width ?t) 0))"
    using sane_mark [OF p(1,2), of "replicate (table_width ?t) 0" 1] by simp
  have rows: "sane (\<lambda>(go, ev, t', ob'). same_layout ?t t' \<and> length ev = table_width ?t)
      (draw_rows cutpad b (table_width ?t) [0..<nRow ?t] ev (?t, ob))" if "length ev = table_width ?t" for b ev ob
    by (rule sane_draw_rows) (use p that in auto)
  have "sane (\<lambda>(rc, t', buff). same_layout ?t t') (utable_strstroke cutpad t n style)"
    unfolding utable_strstroke_def Let_def prepared_def [symmetric] if_not_P [OF less_imp_neq [OF w, symmetric]]
  proof (rule sane_bind [OF m], rule sane_bind [OF sane_border], goal_cases)
    case (1 ev p)
    show ?case
    proof (cases p)
      case (Pair go1 ob1)
      then show ?thesis
        by (auto intro!: sane_bind [OF rows [OF 1(1)]] sane_bind [OF sane_border])
    qed
  qed
  then show ?thesis by (rule sane_mono) (use fin in auto)
qed

section \<open>The tables a program can make\<close>

datatype table_op =
    Op_set_cell nat nat string
  | Op_set "string list"
  | Op_coltitles "string list"
  | Op_title string titlestyle_t
  | Op_headerline bool
  | Op_interior bool bool
  | Op_colspan nat nat nat
  | Op_cell_halign int int halign_t
  | Op_row_halign int halign_t
  | Op_col_halign int halign_t
  | Op_table_halign halign_t
  | Op_cellpadding nat nat nat nat
  | Op_col_cellpadding nat nat nat
  | Op_table_cellpadding nat nat
  | Op_callback int int t_cell_cb
  | Op_table_callback t_cell_cb
  | Op_colwidth nat nat
  | Op_table_colwidth nat
  | Op_reset_colwidth
  | Op_mincolwidth nat nat
  | Op_table_mincolwidth nat
  | Op_strstroke bool nat tblstyle_t

fun run_op :: "table_op \<Rightarrow> table_t \<Rightarrow> table_t stroked" where
  "run_op (Op_set_cell r c v) t = Inr (snd (utable_set_cell t r c v))"
| "run_op (Op_set d) t = Inr (snd (utable_set t d))"
| "run_op (Op_coltitles d) t = Inr (snd (utable_set_coltitles t d))"
| "run_op (Op_title ti ts) t = Inr (utable_set_title t ti ts)"
| "run_op (Op_headerline b) t = Inr (utable_set_headerline t b)"
| "run_op (Op_interior v h) t = Inr (utable_set_interior t v h)"
| "run_op (Op_colspan r c n) t = Inr (snd (utable_set_cell_colspan t r c n))"
| "run_op (Op_cell_halign r c al) t = Inr (snd (utable_set_cell_halign t r c al))"
| "run_op (Op_row_halign r al) t = Inr (snd (utable_set_row_halign t r al))"
| "run_op (Op_col_halign c al) t = Inr (snd (utable_set_col_halign t c al))"
| "run_op (Op_table_halign al) t = Inr (snd (utable_set_table_halign t al))"
| "run_op (Op_cellpadding r c l p) t = Inr (snd (utable_set_cellpadding t r c l p))"
| "run_op (Op_col_cellpadding c l p) t = Inr (utable_set_col_cellpadding t c l p)"
| "run_op (Op_table_cellpadding l p) t = Inr (utable_set_table_cellpadding t l p)"
| "run_op (Op_callback r c cb) t = Inr (snd (utable_set_cellcallback t r c cb))"
| "run_op (Op_table_callback cb) t = Inr (utable_set_table_cellcallback t cb)"
| "run_op (Op_colwidth c w) t = Inr (snd (utable_set_colwidth t c w))"
| "run_op (Op_table_colwidth w) t = Inr (utable_set_table_colwidth t w)"
| "run_op Op_reset_colwidth t = Inr (utable_reset_table_colwidth t)"
| "run_op (Op_mincolwidth c w) t = Inr (snd (utable_set_mincolwidth t c w))"
| "run_op (Op_table_mincolwidth w) t = Inr (utable_set_table_mincolwidth t w)"
| "run_op (Op_strstroke cutpad n style) t =
     and_then (utable_strstroke cutpad t n style) (\<lambda>(rc, t', buff). Inr t')"

text \<open>
  The one thing a caller must not do: give a cell the span 0 (or one beyond \<open>2\<^sup>63\<close>), or change the
  span in the title row.
\<close>

definition legal_op :: "table_t \<Rightarrow> table_op \<Rightarrow> bool" where
  "legal_op t p \<longleftrightarrow>
     (case p of Op_colspan r c n \<Rightarrow> 0 < n \<and> n < 2 ^ 63 \<and> \<not> (titleCopied t \<and> r = 0) | _ \<Rightarrow> True)"

inductive table_reach :: "table_t \<Rightarrow> bool" where
  created: "0 < nr \<Longrightarrow> nr + 1 < 2 ^ 31 \<Longrightarrow> 0 < nc \<Longrightarrow> nc < 2 ^ 31 \<Longrightarrow> table_reach (utable_create nr nc)"
| changed: "table_reach t \<Longrightarrow> legal_op t p \<Longrightarrow> run_op p t = Inr t' \<Longrightarrow> table_reach t'"

definition good_table :: "table_t \<Rightarrow> bool" where
  "good_table t \<longleftrightarrow> tbl_ok t \<and> 0 < nRow t \<and> 0 < nCol t"

lemma tshape_good: "tshape t' = tshape t \<Longrightarrow> good_table t' = good_table t"
  unfolding good_table_def using tbl_ok_cong [of t' t] by (auto simp: tshape_def)

lemma run_op_good:
  assumes "good_table t" and "legal_op t p"
  shows "sane good_table (run_op p t)"
proof (cases p)
  case (Op_title ti ts)
  then show ?thesis
    using assms(1) by (auto simp: good_table_def set_title_ok) (simp_all add: utable_set_title_def)
next
  case (Op_colspan r c n)
  have "tbl_ok (snd (utable_set_cell_colspan t r c n))"
    using assms Op_colspan by (intro colspan_keeps_ok) (auto simp: legal_op_def good_table_def)
  then show ?thesis
    using assms(1) Op_colspan colspan_frame [of t r c n] by (auto simp: good_table_def)
next
  case (Op_strstroke cutpad n style)
  have "sane (\<lambda>(rc, t', buff). good_table t') (utable_strstroke cutpad t n style)"
    using sane_strstroke [of t cutpad n style] assms(1) by (auto simp: good_table_def)
  then show ?thesis
    unfolding Op_strstroke run_op.simps by (rule sane_bind) auto
qed (use assms(1) in \<open>simp_all add: tshape_good [OF tshape_set_cell] tshape_good [OF tshape_set]
    tshape_good [OF tshape_coltitles] tshape_good [OF tshape_simple(1)] tshape_good [OF tshape_simple(2)]
    tshape_good [OF tshape_simple(3)] tshape_good [OF tshape_cell_halign] tshape_good [OF tshape_row_halign]
    tshape_good [OF tshape_col_halign] tshape_good [OF tshape_table_halign] tshape_good [OF tshape_cellpadding]
    tshape_good [OF tshape_col_cellpadding] tshape_good [OF tshape_table_cellpadding]
    tshape_good [OF tshape_cellcallback] tshape_good [OF tshape_table_cellcallback]
    tshape_good [OF tshape_colwidth] tshape_good [OF tshape_table_colwidth]
    tshape_good [OF tshape_mincolwidth] tshape_good [OF tshape_table_mincolwidth]\<close>)

lemma reach_good: "table_reach t \<Longrightarrow> good_table t"
proof (induction rule: table_reach.induct)
  case (created nr nc)
  then show ?case by (simp add: good_table_def utable_create_ok utable_create_fields)
next
  case (changed t p t')
  then show ?case using run_op_good [of t p] by simp
qed

section \<open>Listings\<close>

definition short_text :: "string \<Rightarrow> bool" where
  "short_text s \<longleftrightarrow> mb_text s \<and> LF \<notin> set s \<and> length s \<le> 255"

definition plain_cell :: "tcell_t \<Rightarrow> bool" where
  "plain_cell x \<longleftrightarrow> cspan x = 1 \<and> \<not> merged x \<and> cell_cb x = None
     \<and> (case cell_t x of None \<Rightarrow> False | Some s \<Rightarrow> short_text s \<and> lpad x + length s + rpad x \<le> 255)"

text \<open>
  The tables of the listing commands: no title, no merged cells, widths left to the library, and a row
  below the header.
\<close>

definition plain_table :: "table_t \<Rightarrow> bool" where
  "plain_table t \<longleftrightarrow> good_table t \<and> title t = None
     \<and> (\<forall>c<nCol t. colwidth t ! c = 0 \<and> mincolwidth t ! c \<le> 255)
     \<and> (\<forall>r<nRow t. \<forall>c<nCol t. plain_cell (cell t r c))
     \<and> (2 \<le> nRow t \<or> \<not> headerLine t \<or> nCol t = 1)"

lemma plain_upd_cell:
  assumes "plain_table t" and "shape (f (cell t r c)) = shape (cell t r c)"
    and "\<And>x. plain_cell x \<Longrightarrow> plain_cell (f x)" and "r < nRow t" and "c < nCol t"
  shows "plain_table (upd_cell f t r c)"
proof -
  let ?u = "upd_cell f t r c"
  have "good_table ?u"
    using assms(1) tshape_good [OF tshape_upd_cell [of f t r c, OF assms(2)]] by (simp add: plain_table_def)
  moreover have "plain_cell (cell ?u r' c')" if "r' < nRow t" "c' < nCol t" for r' c'
  proof -
    have "TIDX t r c < length (cells t)"
      using assms(1,4,5) by (intro tbl_ok_index) (auto simp: plain_table_def good_table_def)
    then show ?thesis
      using assms(1,3-5) that by (auto simp: plain_table_def nth_list_update)
  qed
  ultimately show ?thesis using assms(1) by (simp add: plain_table_def)
qed

lemma plain_cell_halign: "plain_table t \<Longrightarrow> plain_table (snd (utable_set_cell_halign t r c al))"
  unfolding utable_set_cell_halign_def Let_def
  by (auto simp: utable_rc_chk_def shape_def plain_cell_def intro!: plain_upd_cell split: option.splits)

lemma plain_row_halign: "plain_table t \<Longrightarrow> plain_table (snd (utable_set_row_halign t r al))"
  unfolding utable_set_row_halign_def by (rule loop_chk_inv) (auto intro: plain_cell_halign)

lemma row_halign_texts:
  "nRow (snd (utable_set_row_halign t r al)) = nRow t \<and> nCol (snd (utable_set_row_halign t r al)) = nCol t
   \<and> TIDX (snd (utable_set_row_halign t r al)) = TIDX t
   \<and> (\<forall>i. cell_t (cells (snd (utable_set_row_halign t r al)) ! i) = cell_t (cells t ! i))"
proof -
  have keep: "cell_t (xs[j := (xs ! j)\<lparr> halign := al \<rparr>] ! i) = cell_t (xs ! i)" for xs :: "tcell_t list" and i j
    by (cases "j < length xs"; cases "i = j") (simp_all add: list_update_beyond)
  show ?thesis
    unfolding utable_set_row_halign_def
    by (rule loop_chk_inv [where P = "\<lambda>u. nRow u = nRow t \<and> nCol u = nCol t \<and> TIDX u = TIDX t
        \<and> (\<forall>i. cell_t (cells u ! i) = cell_t (cells t ! i))"])
      (auto simp: utable_set_cell_halign_def Let_def keep)
qed

text \<open>The widths the library chooses.\<close>

lemma auto_width_colwidth: "auto_width (t\<lparr> colwidth := x \<rparr>) c = auto_width t c"
proof -
  have "auto_width_row (t\<lparr> colwidth := x \<rparr>) c = auto_width_row t c"
    by (simp add: fun_eq_iff auto_width_row_def utable_get_cp_def TIDX_def Let_def)
  then show ?thesis by (simp add: auto_width_def)
qed

lemma autocolwidth_at:
  assumes "c < nCol t" and "nCol t < length (colwidth t)" and "colwidth t ! c = 0"
  shows "colwidth (utable_set_autocolwidth t) ! c = auto_width t c"
proof -
  let ?step = "\<lambda>c t. if colwidth t ! c = 0 then t\<lparr> colwidth := (colwidth t)[c := auto_width t c] \<rparr> else t"
  have "\<exists>x. fold ?step [0..<n] t = t\<lparr> colwidth := x \<rparr> \<and> length x = length (colwidth t)
      \<and> (\<forall>c<length x. x ! c = (if c < n \<and> colwidth t ! c = 0 then auto_width t c else colwidth t ! c))"
    if "n \<le> nCol t" for n
    using that
  proof (induction n)
    case 0
    then show ?case by (intro exI [of _ "colwidth t"]) simp
  next
    case (Suc n)
    then obtain x where x: "fold ?step [0..<n] t = t\<lparr> colwidth := x \<rparr>" "length x = length (colwidth t)"
      "\<And>c. c < length x \<Longrightarrow> x ! c = (if c < n \<and> colwidth t ! c = 0 then auto_width t c else colwidth t ! c)"
      by auto
    have n: "n < length x" using Suc.prems assms(2) x(2) by simp
    have xn: "x ! n = colwidth t ! n" using x(3) [OF n] by simp
    show ?case
    proof (cases "colwidth t ! n = 0")
      case True
      have "fold ?step [0..<Suc n] t = t\<lparr> colwidth := x[n := auto_width t n] \<rparr>"
        using x(1) xn True by (simp add: auto_width_colwidth)
      then show ?thesis
        by (intro exI [of _ "x[n := auto_width t n]"]) (use x True n in \<open>auto simp: nth_list_update\<close>)
    next
      case False
      have "fold ?step [0..<Suc n] t = t\<lparr> colwidth := x \<rparr>"
        using x(1) xn False by simp
      then show ?thesis
        by (intro exI [of _ x]) (use x False in \<open>auto simp: less_Suc_eq\<close>)
    qed
  qed
  from this [of "nCol t"] show ?thesis
    using assms by (auto simp: utable_set_autocolwidth_def)
qed

lemma auto_fold:
  assumes "\<And>r. r \<in> set rs \<Longrightarrow> text_len (cell_t (cell t r c)) + fst (utable_get_cp t r c) + snd (utable_get_cp t r c) \<le> b"
    and "w \<le> b"
  shows "fold (auto_width_row t c) rs w \<le> b \<and> w \<le> fold (auto_width_row t c) rs w
     \<and> (\<forall>r\<in>set rs. text_len (cell_t (cell t r c)) + fst (utable_get_cp t r c) + snd (utable_get_cp t r c)
                    \<le> fold (auto_width_row t c) rs w)"
  using assms
proof (induction rs arbitrary: w)
  case (Cons r rs)
  let ?n = "text_len (cell_t (cell t r c)) + fst (utable_get_cp t r c) + snd (utable_get_cp t r c)"
  have step: "auto_width_row t c r w = max w ?n"
    by (simp add: auto_width_row_def Let_def case_prod_beta max_def)
  have "fold (auto_width_row t c) rs (max w ?n) \<le> b
     \<and> max w ?n \<le> fold (auto_width_row t c) rs (max w ?n)
     \<and> (\<forall>r\<in>set rs. text_len (cell_t (cell t r c)) + fst (utable_get_cp t r c) + snd (utable_get_cp t r c)
                    \<le> fold (auto_width_row t c) rs (max w ?n))"
    using Cons.prems by (intro Cons.IH) auto
  then show ?case by (auto simp: step)
qed simp

lemma row_starts_single:
  assumes "\<forall>c<nCol t. cspan (cell t r c) = 1" and "nCol t - c \<le> n" and "c \<le> nCol t"
  shows "row_starts n t r c = [c..<nCol t]"
  using assms(2,3)
proof (induction n arbitrary: c)
  case (Suc n)
  show ?case
  proof (cases "c < nCol t")
    case True
    then have "row_starts n t r (c + 1) = [c + 1..<nCol t]" using Suc by (intro Suc.IH) auto
    then show ?thesis using assms(1) True by (simp add: upt_conv_Cons)
  qed (use Suc.prems in simp)
qed simp

lemma plain_table_drawable:
  assumes "plain_table t"
  shows "drawable cutpad (prepared t)" and "cells (prepared t) = cells t" and "nRow (prepared t) = nRow t"
    and "\<And>r c. r < nRow t \<Longrightarrow> c < nCol t \<Longrightarrow> c \<in> set (drawn_cells (prepared t) r)
          \<and> lpad (cell t r c) + text_len (cell_t (cell t r c)) + rpad (cell t r c) + 1
             \<le> span_width (prepared t) r c"
    and "table_width (prepared t) \<le> 256 * nCol t"
proof -
  let ?p = "prepared t"
  note a = autocolwidth_props [of t]
  have p: "?p = utable_set_autocolwidth t"
    using a assms by (simp add: prepared_def insert_title_def plain_table_def)
  have f: "nRow ?p = nRow t" "nCol ?p = nCol t" "cells ?p = cells t" "title ?p = None"
    "headerLine ?p = headerLine t"
    using a assms by (auto simp: p tshape_def plain_table_def)
  have TI: "TIDX ?p = TIDX t" by (simp add: fun_eq_iff TIDX_def f)
  have pc: "plain_cell (cell t r c)" if "r < nRow t" "c < nCol t" for r c
    using assms that by (simp add: plain_table_def)
  have cp: "utable_get_cp t r c = (lpad (cell t r c), rpad (cell t r c))"
       "utable_get_cp ?p r c = (lpad (cell t r c), rpad (cell t r c))" if "r < nRow t" "c < nCol t" for r c
    using pc [OF that] by (simp_all add: utable_get_cp_def Let_def plain_cell_def f TI)
  have tl: "lpad (cell t r c) + text_len (cell_t (cell t r c)) + rpad (cell t r c) \<le> 255"
    if "r < nRow t" "c < nCol t" for r c
    using pc [OF that] by (auto simp: plain_cell_def split: option.splits intro: le_trans [OF _ _])
      (use utf8len_le in \<open>meson add_le_mono le_refl le_trans\<close>)
  have w: "auto_width t c \<le> 255"
    "\<forall>r<nRow t. lpad (cell t r c) + text_len (cell_t (cell t r c)) + rpad (cell t r c) \<le> auto_width t c"
    if c: "c < nCol t" for c
  proof -
    have r0: "(if title t \<noteq> None \<and> titleCopied t then 1 else 0) = (0::nat)"
      using assms by (simp add: plain_table_def)
    define F where "F = fold (auto_width_row t c) [0..<nRow t] 0"
    have "F \<le> 255 \<and> 0 \<le> F \<and>
        (\<forall>r\<in>set [0..<nRow t]. text_len (cell_t (cell t r c)) + fst (utable_get_cp t r c) + snd (utable_get_cp t r c) \<le> F)"
      unfolding F_def by (rule auto_fold) (use tl c in \<open>auto simp: cp algebra_simps\<close>)
    then have F: "F \<le> 255" "\<And>r. r < nRow t \<Longrightarrow> lpad (cell t r c) + text_len (cell_t (cell t r c)) + rpad (cell t r c) \<le> F"
      using c by (auto simp: cp algebra_simps)
    have m: "mincolwidth t ! c \<le> 255" using assms c by (simp add: plain_table_def)
    have aw: "auto_width t c = (if max F (mincolwidth t ! c) = 0 then 1 else max F (mincolwidth t ! c))"
      unfolding auto_width_def r0 Let_def F_def by (rule refl)
    show "auto_width t c \<le> 255" using F(1) m by (simp add: aw)
    have "F \<le> auto_width t c" by (simp add: aw)
    then show "\<forall>r<nRow t. lpad (cell t r c) + text_len (cell_t (cell t r c)) + rpad (cell t r c) \<le> auto_width t c"
      using F(2) le_trans by blast
  qed
  have cw: "colwidth ?p ! c = auto_width t c" if "c < nCol t" for c
    unfolding p
    by (rule autocolwidth_at) (use that assms in \<open>auto simp: plain_table_def good_table_def tbl_ok_def Let_def\<close>)
  have cs1: "\<forall>c<nCol ?p. cspan (cell ?p r c) = 1" if "r < nRow t" for r
    using pc that by (simp add: f TI plain_cell_def)
  have dc: "drawn_cells ?p r = [0..<nCol t]" if "r < nRow t" for r
    unfolding drawn_cells_def using row_starts_single [OF cs1 [OF that], of 0 "nCol ?p"] by (simp add: f)
  have sw: "span_width ?p r c = auto_width t c + 1" if "r < nRow t" "c < nCol t" for r c
    using cs1 [OF that(1)] that cw by (simp add: span_width_def f)
  have ie: "inner_ends ?p r = filter (\<lambda>e. e < nCol t) (map Suc [0..<nCol t])" if "r < nRow t" for r
    using cs1 [OF that] by (auto simp: inner_ends_def row_ends_def dc [OF that] f intro!: arg_cong [of _ _ "filter _"])
  have hf: "header_fits ?p"
  proof (cases "1 < nRow t")
    case True
    then show ?thesis by (simp add: header_fits_def Let_def f ie)
  next
    case False
    then have "\<not> headerLine t \<or> nCol t = 1" using assms by (auto simp: plain_table_def)
    with False show ?thesis by (auto simp: header_fits_def Let_def f ie)
  qed
  have "cell_fits cutpad ?p r c" if rc: "r < nRow t" "c < nCol t" for r c
  proof -
    obtain s where s: "cell_t (cell t r c) = Some s" "short_text s" "lpad (cell t r c) + length s + rpad (cell t r c) \<le> 255"
      "cell_cb (cell t r c) = None"
      using pc [OF rc] by (auto simp: plain_cell_def split: option.splits)
    show ?thesis
      using s w [OF rc(2)] rc sw [OF rc] cp(2) [OF rc]
      by (auto simp: cell_fits_def Let_def f TI short_text_def)
  qed
  then show "drawable cutpad ?p"
    using hf by (auto simp: drawable_def list_all_iff dc f)
  show "cells ?p = cells t" "nRow ?p = nRow t" by (rule f)+
  have "sum_list (map (\<lambda>i. colwidth ?p ! i + 1) [0..<nCol t]) \<le> sum_list (map (\<lambda>i. 256) [0..<nCol t])"
    by (rule sum_list_mono) (use cw w(1) in auto)
  then show "table_width ?p \<le> 256 * nCol t" by (simp add: table_width_def f sum_list_triv)
  show "c \<in> set (drawn_cells ?p r) \<and> lpad (cell t r c) + text_len (cell_t (cell t r c)) + rpad (cell t r c) + 1
       \<le> span_width ?p r c" if "r < nRow t" "c < nCol t" for r c
    using that dc w(2) [OF that(2)] sw by simp
qed

lemma plain_table_shown:
  assumes "plain_table t"
  shows "\<exists>ls. (\<forall>l\<in>set ls. utf8len l = table_width (prepared t) + 1 \<and> LF \<notin> set l)
     \<and> length ls \<le> 2 * nRow t + 2
     \<and> (\<forall>l\<in>set ls. length l \<le> 1024 * nCol t + 4 * (table_width (prepared t) + 1))
     \<and> (\<forall>r<nRow t. \<exists>l\<in>set ls. \<forall>c<nCol t. \<exists>u v. l = u @ the (cell_t (cell t r c)) @ v)
     \<and> (\<forall>n. 2 * length (lines_text ls) + 10 * nRow t + 2 < n \<and> n < 2 ^ 31 \<longrightarrow>
          utable_strstroke cutpad t n style = Inr (0, prepared t, lines_text ls))"
proof -
  let ?p = "prepared t"
  note d = plain_table_drawable [OF assms]
  have g: "tbl_ok t" "0 < nRow t" "0 < nCol t" using assms by (auto simp: plain_table_def good_table_def)
  note p = prepared_ok [OF g]
  obtain ls where ls: "\<forall>l\<in>set ls. full_line ?p l" "length ls \<le> 2 * nRow ?p + 2"
     "\<forall>r<nRow ?p. \<exists>l\<in>set ls. \<forall>c\<in>set (drawn_cells ?p r). in_line ?p r c l"
     "\<forall>n. 2 * length (lines_text ls) + 10 * nRow ?p + 2 < n \<and> n < 2 ^ 31 \<longrightarrow>
          utable_strstroke cutpad t n style = Inr (0, ?p, lines_text ls)"
    using utable_strstroke_ok [OF p(1) d(1) [of cutpad] p(2), where style = style] p(3) g(3) by auto
  have TI: "TIDX ?p = TIDX t" by (simp add: fun_eq_iff TIDX_def p(3))
  have in_text: "\<exists>u v. l = u @ the (cell_t (cell t r c)) @ v"
    if "r < nRow t" "c < nCol t" "in_line ?p r c l" for r c l
  proof -
    have pc: "plain_cell (cell t r c)" using assms that(1,2) by (simp add: plain_table_def)
    then have cp: "utable_get_cp ?p r c = (lpad (cell t r c), rpad (cell t r c))"
      by (simp add: utable_get_cp_def Let_def plain_cell_def d(2) TI)
    obtain s where s: "cell_t (cell t r c) = Some s" using pc by (auto simp: plain_cell_def split: option.splits)
    show ?thesis using that(3) d(4) [OF that(1,2)] s by (auto simp: in_line_def cp d(2) TI)
  qed
  have "\<exists>l\<in>set ls. \<forall>c<nCol t. \<exists>u v. l = u @ the (cell_t (cell t r c)) @ v" if r: "r < nRow t" for r
  proof -
    obtain l where "l \<in> set ls" "\<forall>c\<in>set (drawn_cells ?p r). in_line ?p r c l" using ls(3) d(3) r by auto
    then show ?thesis using d(4) [OF r] in_text [OF r] by blast
  qed
  then show ?thesis using ls(1,2,4) d(3) p(3) by (intro exI [of _ ls]) (auto simp: full_line_def)
qed

lemma lines_text_bound: "\<forall>l\<in>set ls. length l + 1 \<le> B \<Longrightarrow> length (lines_text ls) \<le> length ls * B"
  by (induction ls) auto

text \<open>With not too many rows and columns the drawing fits the buffer of \<^verbatim>\<open>utable_stroke\<close>.\<close>

lemma plain_stroke:
  assumes "plain_table t" and "(4 * nRow t + 4) * (2048 * nCol t + 5) + 10 * nRow t + 2 < MAXSTROKEBUFF"
  shows "\<exists>ls w. (\<forall>l\<in>set ls. utf8len l = w \<and> LF \<notin> set l)
     \<and> (\<forall>r<nRow t. \<exists>l\<in>set ls. \<forall>c<nCol t. \<exists>u v. l = u @ the (cell_t (cell t r c)) @ v)
     \<and> utable_stroke wr cutpad t style = Inr (wr (lines_text ls), prepared t, lines_text ls)"
proof -
  obtain ls where ls: "\<forall>l\<in>set ls. utf8len l = table_width (prepared t) + 1 \<and> LF \<notin> set l"
     "length ls \<le> 2 * nRow t + 2"
     "\<forall>l\<in>set ls. length l \<le> 1024 * nCol t + 4 * (table_width (prepared t) + 1)"
     "\<forall>r<nRow t. \<exists>l\<in>set ls. \<forall>c<nCol t. \<exists>u v. l = u @ the (cell_t (cell t r c)) @ v"
     "\<forall>n. 2 * length (lines_text ls) + 10 * nRow t + 2 < n \<and> n < 2 ^ 31 \<longrightarrow>
          utable_strstroke cutpad t n style = Inr (0, prepared t, lines_text ls)"
    using plain_table_shown [OF assms(1), where cutpad = cutpad and style = style] by (elim exE conjE) (rule that)
  have "length l + 1 \<le> 2048 * nCol t + 5" if "l \<in> set ls" for l
  proof -
    have "4 * (table_width (prepared t) + 1) \<le> 4 * (256 * nCol t + 1)"
      using plain_table_drawable(5) [OF assms(1)] by simp
    then show ?thesis using bspec [OF ls(3) that] by simp
  qed
  then have "length (lines_text ls) \<le> length ls * (2048 * nCol t + 5)" by (intro lines_text_bound) blast
  also have "\<dots> \<le> (2 * nRow t + 2) * (2048 * nCol t + 5)" using ls(2) by (rule mult_right_mono) simp
  finally have "2 * length (lines_text ls) \<le> 2 * ((2 * nRow t + 2) * (2048 * nCol t + 5))" by simp
  also have "\<dots> = (4 * nRow t + 4) * (2048 * nCol t + 5)" by (simp add: algebra_simps)
  finally have "2 * length (lines_text ls) + 10 * nRow t + 2 < MAXSTROKEBUFF" using assms(2) by linarith
  then have "utable_strstroke cutpad t MAXSTROKEBUFF style = Inr (0, prepared t, lines_text ls)"
    using ls(5) by simp
  then have "utable_stroke wr cutpad t style = Inr (wr (lines_text ls), prepared t, lines_text ls)"
    by (simp add: utable_stroke_def)
  with ls(1,4) show ?thesis by blast
qed

lemma create_set_plain:
  assumes "2 \<le> nr" and "nr + 1 < 2 ^ 31" and "1 \<le> nc" and "nc < 2 ^ 31" and "length data = nr * nc"
    and "\<forall>s\<in>set data. short_text s"
  shows "\<exists>t. utable_create_set nr nc data = Some t \<and> plain_table t \<and> nRow t = nr \<and> nCol t = nc
     \<and> (\<forall>r<nr. \<forall>c<nc. cell_t (cell t r c) = Some (data ! (r * nc + c)))"
proof -
  obtain t where t: "utable_create_set nr nc data = Some t" "tbl_ok t" "nRow t = nr" "nCol t = nc"
    "colwidth t = replicate (Suc nc) 0" "mincolwidth t = replicate (Suc nc) 0" "title t = None"
    "\<And>r c. r < nr \<Longrightarrow> c < nc \<Longrightarrow> \<exists>x. fresh_cell x \<and> cell t r c = x\<lparr> cell_t := Some (data ! (r * nc + c)) \<rparr>"
    using utable_create_set_cells [OF assms(2,4), of data] by blast
  have idx: "r * nc + c < length data" if "r < nr" "c < nc" for r c
    using TIDX_less [of r nr c t] that t(4) assms(5) by (simp add: TIDX_def)
  have pc: "plain_cell (cell t r c) \<and> cell_t (cell t r c) = Some (data ! (r * nc + c))" if rc: "r < nr" "c < nc" for r c
  proof -
    obtain x where x: "fresh_cell x" "cell t r c = x\<lparr> cell_t := Some (data ! (r * nc + c)) \<rparr>" using t(8) [OF rc] by blast
    have "short_text (data ! (r * nc + c))" using assms(6) idx [OF rc] by simp
    with x show ?thesis by (auto simp: plain_cell_def fresh_cell_def short_text_def)
  qed
  have "plain_table t"
    using t assms pc by (auto simp: plain_table_def good_table_def simp del: replicate_Suc)
  then show ?thesis using t pc by blast
qed

section \<open>What goes wrong\<close>

text \<open>A cell of span 0 stops the walk along its row.\<close>

lemma mark_loop_stuck:
  assumes "cspan (cell t r c) = 0" and "c < nCol t" and "nCol t < length (colwidth t)" and "0 < absw"
    and "absw \<le> length eval"
  shows "mark_loop n t mark r c absw eval = Inl NoEnd"
  using assms(5)
proof (induction n arbitrary: eval)
  case 0
  then show ?case using assms(2) by (simp add: mark_loop.simps)
next
  case (Suc n)
  then show ?case
    using assms by (subst mark_loop.simps) (simp add: Let_def span_width_def)
qed

lemma mark_loop_reaches:
  assumes "\<forall>c<col. cspan (cell t r c) = 1" and "cspan (cell t r col) = 0" and "0 < col" and "col < nCol t"
    and "nCol t < length (colwidth t)" and "c \<le> col" and "absw = prefix_width t c"
    and "length eval = table_width t"
  shows "mark_loop n t mark r c absw eval = Inl NoEnd"
  using assms(6-8)
proof (induction n arbitrary: c absw eval)
  case 0
  then show ?case using assms(4) by (simp add: mark_loop.simps)
next
  case (Suc n)
  show ?case
  proof (cases "c = col")
    case True
    have "0 < prefix_width t col" using prefix_width_ge [of col t] assms(3) by simp
    moreover have "prefix_width t col \<le> table_width t"
      unfolding table_width_prefix using assms(4) by (intro prefix_width_mono) simp
    ultimately show ?thesis
      using mark_loop_stuck [of t r col absw eval] assms(2,4,5) True Suc.prems(2,3) by simp
  next
    case False
    then have c: "c < col" using Suc.prems(1) by simp
    have sp: "cspan (cell t r c) = 1" using assms(1) c by simp
    have e: "absw + span_width t r c = prefix_width t (c + 1)"
      using prefix_width_span [of t c r] sp Suc.prems(2) by simp
    have le: "prefix_width t (c + 1) \<le> table_width t"
      unfolding table_width_prefix using c assms(4) by (intro prefix_width_mono) simp
    have pos: "0 < prefix_width t (c + 1)" using prefix_width_ge [of "c + 1" t] by simp
    have "mark_loop n t mark r (c + 1) (prefix_width t (c + 1))
       (eval[prefix_width t (c + 1) - 1 := (eval ! (prefix_width t (c + 1) - 1)) OR mark]) = Inl NoEnd"
      using c Suc.prems(3) by (intro Suc.IH) auto
    then show ?thesis
      using c assms(4,5) sp e le pos Suc.prems(3) by (subst mark_loop.simps) (simp add: Let_def)
  qed
qed

lemma colspan_zero_stuck:
  assumes "plain_table t" and "0 < col" and "col < nCol t"
  shows "\<exists>t'. utable_set_cell_colspan t 0 col 0 = (0, t') \<and> utable_strstroke cutpad t' n style = Inl NoEnd"
proof -
  have ok: "tbl_ok t" "0 < nRow t" "title t = None"
    using assms(1) by (auto simp: plain_table_def good_table_def)
  have lim: "nCol t < 2 ^ 31" using ok(1) by (simp add: tbl_ok_def Let_def)
  define t' where "t' = upd_cell (\<lambda>x. x\<lparr> cspan := 0, merged := False, pRow := to_int32 (int 0),
                                      pCol := to_int32 (int col) \<rparr>) t 0 col"
  have c64: "col < SIZE_MOD" using assms(3) lim by (simp add: SIZE_MOD_def)
  have "(col + 0 + (SIZE_MOD - 1)) mod SIZE_MOD = col - 1"
    using size_pred [of col] assms(2) c64 by simp
  then have eq: "utable_set_cell_colspan t 0 col 0 = (0, t')"
    using assms(2,3) ok(2) c64
    unfolding utable_set_cell_colspan_def t'_def by (simp add: utable_rc_chk_def Let_def)
  let ?p = "prepared t'"
  note a = autocolwidth_props [of t']
  have t': "nCol t' = nCol t" "title t' = None" "colwidth t' = colwidth t" using ok(3) by (simp_all add: t'_def)
  have p: "?p = utable_set_autocolwidth t'"
    using a t'(2) by (simp add: prepared_def insert_title_def)
  have f: "cells ?p = cells t'" "nCol ?p = nCol t" "title ?p = None" "length (colwidth ?p) = length (colwidth t)"
    using a t' unfolding p tshape_def by simp_all
  have TI: "TIDX ?p = TIDX t" by (simp add: fun_eq_iff TIDX_def f)
  have idx: "TIDX t 0 c < length (cells t)" if "c < nCol t" for c
    using ok(1,2) that by (rule tbl_ok_index)
  have sp: "cspan (cell ?p 0 c) = (if c = col then 0 else 1)" if c: "c < nCol t" for c
  proof (cases "c = col")
    case True
    then show ?thesis unfolding f(1) TI using idx [OF c] by (simp add: t'_def)
  next
    case False
    then have "TIDX t 0 col \<noteq> TIDX t 0 c" using TIDX_inj [OF assms(3) c, of 0 0] by simp
    moreover have "cspan (cell t 0 c) = 1" using assms(1) ok(2) c by (simp add: plain_table_def plain_cell_def)
    ultimately show ?thesis unfolding f(1) TI using False by (simp add: t'_def)
  qed
  have cw: "nCol ?p < length (colwidth ?p)" using ok(1) by (simp add: f tbl_ok_def Let_def)
  have "utable_mark_verticals ?p 1 0 (replicate (table_width ?p) 0) = Inl NoEnd"
    unfolding utable_mark_verticals_def
    by (rule mark_loop_reaches [of col]) (use sp assms(2,3) cw in \<open>auto simp: f(2)\<close>)
  moreover have "table_width ?p \<noteq> 0"
    using prefix_width_ge [of "nCol ?p" ?p] assms(3) f(2) by (simp add: table_width_prefix)
  ultimately have "utable_strstroke cutpad t' n style = Inl NoEnd"
    unfolding utable_strstroke_def Let_def prepared_def [symmetric] by (simp add: f(3))
  with eq show ?thesis by blast
qed

text \<open>\<open>xstrlcat\<close> is given the room that is left as if it were the size of the whole buffer.\<close>

lemma emit_drops:
  assumes "int (length (ob_text ob)) < ob_left ob" and "ob_left ob \<le> int (length (ob_text ob) + length s)"
    and "length s < MAXPBUFF" and "ob_left ob \<le> int (ob_size ob)" and "ob_left ob < 2 ^ 31"
  shows "emit s ob = Inr (ob\<lparr> ob_left := ob_left ob - int (length s) \<rparr>)"
proof -
  have sz: "size_of_int (ob_left ob) = nat (ob_left ob)"
    using assms(1,5) by (simp add: size_of_int_def SIZE_MOD_def)
  have "length (ob_text ob) < nat (ob_left ob)" "\<not> length (ob_text ob) + length s < nat (ob_left ob)"
    using assms(1,2) by auto
  then have "fst (xstrlcat (ob_text ob) s (nat (ob_left ob))) = ob_text ob"
    by (subst xstrlcat_eq) simp_all
  moreover have "take (MAXPBUFF - 1) s = s" using assms(3) by simp
  moreover have "\<not> ob_size ob \<le> length (ob_text ob)" using assms(1,4) by auto
  ultimately show ?thesis by (simp add: emit_def sz Let_def)
qed

lemma emit_overruns:
  assumes "ob_left ob < 0" and "- (2 ^ 31) \<le> ob_left ob" and "length (ob_text ob) + length s < 2 ^ 31"
    and "length s < MAXPBUFF" and "ob_size ob \<le> length (ob_text ob) + length s"
  shows "emit s ob = Inl Overrun"
proof -
  have "ob_left ob mod int SIZE_MOD = ob_left ob + int SIZE_MOD"
    using assms(1,2) by (subst mod_add_self2 [symmetric], subst mod_pos_pos_trivial) (simp_all add: SIZE_MOD_def)
  then have sz: "int (size_of_int (ob_left ob)) = ob_left ob + int SIZE_MOD"
    using assms(2) by (simp add: size_of_int_def SIZE_MOD_def)
  have "2 ^ 31 \<le> int (size_of_int (ob_left ob))"
    unfolding sz using assms(2) by (simp add: SIZE_MOD_def)
  then have "length (ob_text ob) + length s < size_of_int (ob_left ob)" using assms(3) by simp
  then have "fst (xstrlcat (ob_text ob) s (size_of_int (ob_left ob))) = ob_text ob @ s"
    by (simp add: xstrlcat_fits)
  moreover have "take (MAXPBUFF - 1) s = s" using assms(4) by simp
  ultimately show ?thesis using assms(5) by (simp add: emit_def Let_def)
qed

text \<open>The header line of a table that has no row below the header.\<close>

lemma header_line_marks:
  assumes "tbl_ok t" and "nRow t = 1" and "title t = None" and "headerLine t"
    and "e \<in> set (row_ends t 0)" and "e < nCol t"
    and "borders_text b"
  shows "\<exists>eval line. utable_mark_verticals t 2 0 (replicate (table_width t) 0) = Inr eval
     \<and> (\<exists>u v. line = u @ ''#ERR#'' @ v)
     \<and> (\<forall>ob. fits ob (int (length line) + 10) \<longrightarrow>
          (\<exists>x. line_below b t (table_width t) eval 0 ob = Inr (True, adv ob (line @ [LF]) x)))"
proof -
  obtain eval where ev: "utable_mark_verticals t 2 0 (replicate (table_width t) 0) = Inr eval"
    "\<And>i. i < table_width t \<Longrightarrow> eval ! i = (if Suc i \<in> prefix_width t ` set (row_ends t 0) then 2 else 0)"
    using utable_mark_verticals_ok [OF assms(1), of 0 "replicate (table_width t) 0" 2] assms(2) by auto
  let ?f = "\<lambda>i. vertical_char (top_middle_horizontal b) None None (Some (top_middle_cross b)) (eval ! i)"
  define line where "line = top_middle_left b @ concat (map ?f [0..<table_width t - 1]) @ top_middle_right b"
  define i where "i = prefix_width t e - 1"
  have e0: "0 < e"
  proof -
    obtain c where "c \<in> set (drawn_cells t 0)" "e = c + cspan (cell t 0 c)"
      using assms(5) by (auto simp: row_ends_def)
    moreover have "at_cell t 0 c \<and> c < nCol t" if "c \<in> set (row_starts n t 0 c0)" "at_cell t 0 c0" for n c0
      using that
    proof (induction n arbitrary: c0)
      case (Suc n)
      then show ?case
        using at_cell_next(3) [OF assms(1), of 0 c0] assms(2) by (auto split: if_splits)
    qed simp
    ultimately show ?thesis
      using at_cell_next(1) [OF assms(1), of 0 c] assms(2) unfolding drawn_cells_def by force
  qed
  have pe: "0 < prefix_width t e" using prefix_width_ge [of e t] e0 by simp
  have "prefix_width t e + 1 \<le> prefix_width t (e + 1)" by (simp add: prefix_width_def)
  also have "\<dots> \<le> table_width t"
    unfolding table_width_prefix using assms(6) by (intro prefix_width_mono) simp
  finally have i: "i < table_width t - 1" using pe by (simp add: i_def)
  have "Suc i = prefix_width t e" using pe by (simp add: i_def)
  then have "eval ! i = 2" using ev(2) [of i] i assms(5) by auto
  then have fi: "?f i = ''#ERR#''" by (simp add: vertical_char_def)
  have split: "[0..<table_width t - 1] = [0..<i] @ i # [Suc i..<table_width t - 1]"
    using i by (metis upt_conv_Cons upt_add_eq_append le_add_diff_inverse less_imp_le_nat le0)
  have err: "\<exists>u v. line = u @ ''#ERR#'' @ v"
    unfolding line_def split map_append list.map concat_append concat.simps fi
    by (intro exI [of _ "top_middle_left b @ concat (map ?f [0..<i])"]
        exI [of _ "concat (map ?f [Suc i..<table_width t - 1]) @ top_middle_right b"]) simp
  let ?x = "int (length (top_middle_right b)) + 1"
  have len: "length (top_middle_left b) < 10000" "length (top_middle_right b) < 10000" "?x \<le> 5"
    "length (?f k) < 10000" for k
    using assms(7) by (auto simp: borders_text_def border_text_def vertical_char_def)
  have "line_below b t (table_width t) eval 0 ob = Inr (True, adv ob (line @ [LF]) ?x)"
    if "fits ob (int (length line) + 10)" for ob
  proof -
    have "fits ob (int (length line) + 1 + ?x)" using that len(3) by (auto elim: fits_mono)
    then show ?thesis
      using border_line_text [OF len(1,2) _ len(4), where e = ?x and w = "table_width t" and ob = ob] assms(3,4)
      by (simp add: line_below_def line_def)
  qed
  with ev(1) err show ?thesis by blast
qed

text \<open>The buffer is safe as long as the counter is not negative.\<close>

lemma emit_bounded:
  assumes "0 \<le> ob_left ob" and "ob_left ob \<le> int (ob_size ob)" and "length (ob_text ob) < ob_size ob"
    and "ob_size ob < 2 ^ 31"
  shows "\<exists>ob'. emit s ob = Inr ob' \<and> length (ob_text ob') < ob_size ob' \<and> ob_size ob' = ob_size ob
     \<and> ob_left ob' \<le> ob_left ob \<and> (ob_text ob' = ob_text ob \<or> ob_text ob' = ob_text ob @ take (MAXPBUFF - 1) s)"
proof -
  have sz: "size_of_int (ob_left ob) = nat (ob_left ob)"
    using assms by (simp add: size_of_int_def SIZE_MOD_def)
  let ?s = "take (MAXPBUFF - 1) s"
  let ?b = "fst (xstrlcat (ob_text ob) ?s (nat (ob_left ob)))"
  have "?b = ob_text ob \<or> (?b = ob_text ob @ ?s \<and> length (ob_text ob @ ?s) < nat (ob_left ob))"
  proof (cases "length (ob_text ob) < nat (ob_left ob)")
    case True
    then show ?thesis by (simp add: xstrlcat_eq)
  next
    case False
    then show ?thesis by (auto simp: xstrlcat_def strnlen_def Let_def min_def)
  qed
  moreover have "nat (ob_left ob) \<le> ob_size ob" using assms(2) by simp
  ultimately have "length ?b < ob_size ob" "?b = ob_text ob \<or> ?b = ob_text ob @ ?s"
    using assms(3) by auto
  then show ?thesis
    by (intro exI [of _ "ob\<lparr> ob_text := ?b, ob_left := ob_left ob - int (length s) \<rparr>"])
      (simp add: emit_def sz Let_def)
qed

lemma eg_listing_short: "\<forall>s\<in>set [''Id'', ''IP'', ''1'', ''10.0.0.7'']. short_text s"
  by (simp add: short_text_def mb_text_ascii ascii_def)

section \<open>Properties\<close>

text \<open>
  C30: a listing as the daemon's list commands make it (a table created from the texts, with the header
  row centred): all lines of the drawing have the same number of characters, the texts of each row of the
  listing are together in one of them, and in any style a buffer of more than twice the length of the drawing receives
  exactly these lines, with the result 0.
\<close>

theorem listing_shown:
  assumes "2 \<le> nr" and "nr + 1 < 2 ^ 31" and "1 \<le> nc" and "nc < 2 ^ 31" and "length data = nr * nc"
    and "\<forall>s\<in>set data. short_text s"
  shows "\<exists>t ls w. utable_create_set nr nc data = Some t
     \<and> (\<forall>l\<in>set ls. utf8len l = w \<and> LF \<notin> set l)
     \<and> (\<forall>r<nr. \<exists>l\<in>set ls. \<forall>c<nc. \<exists>u v. l = u @ data ! (r * nc + c) @ v)
     \<and> (\<forall>n. 2 * length (lines_text ls) + 10 * nr + 2 < n \<and> n < 2 ^ 31 \<longrightarrow>
          (\<exists>t'. utable_strstroke cutpad (snd (utable_set_row_halign t 0 CENTERALIGN)) n style
                  = Inr (0, t', lines_text ls)))"
proof -
  obtain t where t: "utable_create_set nr nc data = Some t" "plain_table t" "nRow t = nr" "nCol t = nc"
    "\<forall>r<nr. \<forall>c<nc. cell_t (cell t r c) = Some (data ! (r * nc + c))"
    using create_set_plain [OF assms] by blast
  let ?u = "snd (utable_set_row_halign t 0 CENTERALIGN)"
  have u: "plain_table ?u" "nRow ?u = nr" "nCol ?u = nc"
    "\<forall>r<nr. \<forall>c<nc. cell_t (cell ?u r c) = Some (data ! (r * nc + c))"
    using plain_row_halign [OF t(2)] row_halign_texts [of t 0 CENTERALIGN] t(3-5) by auto
  obtain ls where ls: "\<forall>l\<in>set ls. utf8len l = table_width (prepared ?u) + 1 \<and> LF \<notin> set l"
     "\<forall>r<nr. \<exists>l\<in>set ls. \<forall>c<nc. \<exists>x v. l = x @ the (cell_t (cell ?u r c)) @ v"
     "\<forall>n. 2 * length (lines_text ls) + 10 * nr + 2 < n \<and> n < 2 ^ 31 \<longrightarrow>
          utable_strstroke cutpad ?u n style = Inr (0, prepared ?u, lines_text ls)"
    using plain_table_shown [OF u(1), where cutpad = cutpad and style = style] unfolding u(2,3) by blast
  have "\<exists>l\<in>set ls. \<forall>c<nc. \<exists>x v. l = x @ data ! (r * nc + c) @ v" if r: "r < nr" for r
  proof -
    obtain l where "l \<in> set ls" "\<forall>c<nc. \<exists>x v. l = x @ the (cell_t (cell ?u r c)) @ v" using ls(2) r by blast
    then show ?thesis using u(4) r by (intro bexI [of _ l]) auto
  qed
  with t(1) ls(1,3) show ?thesis by blast
qed

theorem listing_shown_witness:
  "\<exists>t ls w. utable_create_set 2 2 [''Id'', ''IP'', ''1'', ''10.0.0.7''] = Some t
     \<and> (\<forall>l\<in>set ls. utf8len l = w \<and> LF \<notin> set l) \<and> (\<exists>l\<in>set ls. \<exists>u v. l = u @ ''10.0.0.7'' @ v)"
proof -
  have h: "(2::nat) \<le> 2" "(2::nat) + 1 < 2 ^ 31" "(1::nat) \<le> 2" "(2::nat) < 2 ^ 31"
    "length [''Id'', ''IP'', ''1'', ''10.0.0.7''] = 2 * 2" by simp_all
  from listing_shown [OF h eg_listing_short, of False TSTYLE_ASCII_V3] show ?thesis
  proof (elim exE conjE, goal_cases)
    case (1 t ls w)
    have "\<exists>l\<in>set ls. \<forall>c<2. \<exists>u v. l = u @ [''Id'', ''IP'', ''1'', ''10.0.0.7''] ! (1 * 2 + c) @ v"
      using 1(3) by (elim allE [of _ 1] impE) simp_all
    then obtain l where "l \<in> set ls" "\<exists>u v. l = u @ [''Id'', ''IP'', ''1'', ''10.0.0.7''] ! (1 * 2 + 1) @ v"
      by (elim bexE allE [of _ 1] impE) simp_all
    then have "\<exists>l\<in>set ls. \<exists>u v. l = u @ ''10.0.0.7'' @ v" by (intro bexI [of _ l]) simp_all
    with 1(1,2) show ?case by (intro exI [of _ t] exI [of _ ls] exI [of _ w] conjI)
  qed
qed

text \<open>
  C31: every table made with the operations of the library, in any order and with drawings in between, as long
  as no cell is given the span 0 (or one of 2^63 and more) and no span is set in the title row once there is one,
  stays well formed, and drawing it ends, without an index outside the table. The library itself accepts the
  excluded operations; after a span of 0 the drawing does not end.
\<close>

theorem table_drawing_ends:
  assumes "table_reach t"
  shows "good_table t \<and> utable_strstroke cutpad t n style \<noteq> Inl NoEnd
    \<and> utable_strstroke cutpad t n style \<noteq> Inl BadIndex"
  using reach_good [OF assms] sane_strstroke [of t cutpad n style] by (auto simp: good_table_def)

theorem table_drawing_ends_witness:
  "\<exists>t'. run_op (Op_colspan 0 0 2) (utable_create 2 3) = Inr t' \<and> good_table t'
     \<and> utable_strstroke True t' 100 TSTYLE_SINGLE_V2 \<noteq> Inl NoEnd"
proof -
  have "table_reach (utable_create 2 3)" by (rule table_reach.created) simp_all
  then have "table_reach (snd (utable_set_cell_colspan (utable_create 2 3) 0 0 2))"
    by (rule table_reach.changed [of _ "Op_colspan 0 0 2"])
      (simp_all add: legal_op_def utable_create_fields)
  from table_drawing_ends [OF this, of True 100 TSTYLE_SINGLE_V2] show ?thesis by simp
qed

text \<open>
  C40: a piece of text is written inside the output buffer, or not at all, as long as the counter of the
  free bytes is not negative.
\<close>

theorem emit_in_buffer:
  assumes "0 \<le> ob_left ob" and "ob_left ob \<le> int (ob_size ob)" and "length (ob_text ob) < ob_size ob"
    and "ob_size ob < 2 ^ 31"
  shows "\<exists>ob'. emit s ob = Inr ob' \<and> length (ob_text ob') < ob_size ob' \<and> ob_size ob' = ob_size ob
     \<and> ob_left ob' \<le> ob_left ob \<and> (ob_text ob' = ob_text ob \<or> ob_text ob' = ob_text ob @ take (MAXPBUFF - 1) s)"
  by (rule emit_bounded [OF assms])

theorem emit_in_buffer_witness:
  "\<exists>ob'. emit ''abc'' \<lparr> ob_text = ''x'', ob_left = 3, ob_size = 4 \<rparr> = Inr ob' \<and> length (ob_text ob') < 4"
  using emit_in_buffer [of "\<lparr> ob_text = ''x'', ob_left = 3, ob_size = 4 \<rparr>" "''abc''"] by auto

text \<open>
  The span 0 is accepted for every cell of the first row but the first one, and then drawing the
  table never ends.
\<close>

theorem colspan_zero_hangs:
  assumes "plain_table t" and "0 < col" and "col < nCol t"
  shows "\<exists>t'. utable_set_cell_colspan t 0 col 0 = (0, t') \<and> utable_strstroke cutpad t' n style = Inl NoEnd"
  by (rule colspan_zero_stuck [OF assms])

theorem colspan_zero_hangs_witness:
  "\<exists>t. utable_create_set 2 2 [''Id'', ''IP'', ''1'', ''10.0.0.7''] = Some t
     \<and> (\<exists>t'. utable_set_cell_colspan t 0 1 0 = (0, t')
            \<and> utable_strstroke False t' 1000 TSTYLE_ASCII_V3 = Inl NoEnd)"
proof -
  obtain t where t: "utable_create_set 2 2 [''Id'', ''IP'', ''1'', ''10.0.0.7''] = Some t"
    "plain_table t" "nCol t = 2"
    using create_set_plain [of 2 2 "[''Id'', ''IP'', ''1'', ''10.0.0.7'']"] eg_listing_short by auto
  from colspan_zero_hangs [OF t(2), of 1 False 1000 TSTYLE_ASCII_V3] t(1,3) show ?thesis by auto
qed

text \<open>
  A piece of text for which there is room is dropped without an error when the text is longer than half
  of the buffer, since \<open>xstrlcat\<close> takes the room that is left for the size of the buffer.
\<close>

theorem text_dropped_silently:
  assumes "int (length (ob_text ob)) < ob_left ob" and "ob_left ob \<le> int (length (ob_text ob) + length s)"
    and "length s < MAXPBUFF" and "ob_left ob \<le> int (ob_size ob)" and "ob_left ob < 2 ^ 31"
  shows "emit s ob = Inr (ob\<lparr> ob_left := ob_left ob - int (length s) \<rparr>)"
  by (rule emit_drops [OF assms])

text \<open>
  Once the counter is negative, \<open>xstrlcat\<close> reads it as a huge size and the next piece is written over the
  end of the buffer.
\<close>

theorem negative_room_overruns:
  assumes "ob_left ob < 0" and "- (2 ^ 31) \<le> ob_left ob" and "length (ob_text ob) + length s < 2 ^ 31"
    and "length s < MAXPBUFF" and "ob_size ob \<le> length (ob_text ob) + length s"
  shows "emit s ob = Inl Overrun"
  by (rule emit_overruns [OF assms])

text \<open>
  The header line of a table without a row below the header has the text \<open>#ERR#\<close> at every inner border.
\<close>

theorem header_alone_marked:
  assumes "tbl_ok t" and "nRow t = 1" and "title t = None" and "headerLine t"
    and "e \<in> set (row_ends t 0)" and "e < nCol t"
    and "borders_text b"
  shows "\<exists>eval line. utable_mark_verticals t 2 0 (replicate (table_width t) 0) = Inr eval
     \<and> (\<exists>u v. line = u @ ''#ERR#'' @ v)
     \<and> (\<forall>ob. fits ob (int (length line) + 10) \<longrightarrow>
          (\<exists>x. line_below b t (table_width t) eval 0 ob = Inr (True, adv ob (line @ [LF]) x)))"
  by (rule header_line_marks [OF assms])

text \<open>
  \<open>unicode_tbl.h\<close> describes the style \<open>TSTYLE_SIMPLE_V2\<close> by a double line under the header and
  \<open>TSTYLE_SIMPLE_V3\<close> by a bold one; the code draws them the other way round.
\<close>

theorem simple_styles_swapped:
  "top_middle_horizontal (style_borders TSTYLE_SIMPLE_V2) = BDL_HL_H
   \<and> top_middle_horizontal (style_borders TSTYLE_SIMPLE_V3) = BDL_DL_H"
  by (simp add: style_borders_def simple_borders_def)

end
