(* ===== verification/Utils.thy ===== *)
theory Utils
  imports Complex_Main Xstr
begin

unbundle bit_operations_syntax

text \<open>
  The utility functions of \<^verbatim>\<open>src/src/utils.c\<close>: URL and HTML encoding, the formatted write to a client,
  splitting of a date, conversion of a position to degrees, minutes and seconds, and the small helpers
  beside them. The results of system calls are arguments. Buffers the functions
  allocate are large enough by their own computation, so only buffers of the caller have a size.
\<close>

section \<open>URL encoding\<close>

definition is_alnum :: "char \<Rightarrow> bool" where
  "is_alnum c \<longleftrightarrow> is_digit c \<or> (65 \<le> byte c \<and> byte c \<le> 90) \<or> (97 \<le> byte c \<and> byte c \<le> 122)"

definition to_hex :: "nat \<Rightarrow> char" where
  "to_hex code = ''0123456789ABCDEF'' ! (code AND 0x0F)"

text \<open>The result is a \<open>char\<close>; the model has its eight bits.\<close>

definition from_hex :: "char \<Rightarrow> nat" where
  "from_hex ch = (if is_digit ch then byte ch - 48
                  else nat ((int (byte (tolower ch)) - 97 + 10) mod 256))"

definition url_safe :: "char \<Rightarrow> bool" where
  "url_safe c \<longleftrightarrow> is_alnum c \<or> c = CHR ''-'' \<or> c = CHR ''_'' \<or> c = CHR ''.'' \<or> c = CHR ''~''"

fun url_encode :: "string \<Rightarrow> string" where
  "url_encode [] = []"
| "url_encode (c # s) =
     (if url_safe c then c # url_encode s
      else if c = CHR '' '' then CHR ''+'' # url_encode s
      else CHR ''%'' # to_hex (byte c div 16) # to_hex (byte c) # url_encode s)"

text \<open>The character of two hexadecimal digits: \<open>from_hex(a) << 4 | from_hex(b)\<close>, stored in a \<open>char\<close>.\<close>

definition hex_char :: "char \<Rightarrow> char \<Rightarrow> char" where
  "hex_char a b = char_of ((16 * from_hex a mod 256) OR from_hex b)"

text \<open>What the loop writes; a percent sign that two characters do not follow is skipped.\<close>

fun url_decode_bytes :: "string \<Rightarrow> char list" where
  "url_decode_bytes [] = []"
| "url_decode_bytes (c # s) =
     (if c = CHR ''%'' then
        (case s of a # b # r \<Rightarrow> hex_char a b # url_decode_bytes r | _ \<Rightarrow> url_decode_bytes s)
      else if c = CHR ''+'' then CHR '' '' # url_decode_bytes s
      else c # url_decode_bytes s)"

definition url_decode :: "string option \<Rightarrow> string option" where
  "url_decode str = map_option (\<lambda>s. c_string (url_decode_bytes s)) str"

definition url_decode_inplace :: "string \<Rightarrow> nat \<Rightarrow> string option" where
  "url_decode_inplace str maxlen =
     (case url_decode (Some str) of None \<Rightarrow> None | Some p \<Rightarrow> xmb_strncpy p maxlen)"

text \<open>
  The loop of \<open>url_decode_buff\<close>: what is written before the terminator, the rest of the text and the
  room that is left.
\<close>

fun url_decode_loop :: "nat \<Rightarrow> string \<Rightarrow> char list \<times> string \<times> nat" where
  "url_decode_loop ml [] = ([], [], ml)"
| "url_decode_loop ml (c # s) =
     (if ml \<le> 1 then ([], c # s, ml)
      else if c = CHR ''%'' then
        (case s of
           a # b # r \<Rightarrow> (case url_decode_loop (ml - 1) r of (d, rest, l) \<Rightarrow> (hex_char a b # d, rest, l))
         | _ \<Rightarrow> url_decode_loop (ml - 1) s)
      else if c = CHR ''+'' then (case url_decode_loop (ml - 1) s of (d, rest, l) \<Rightarrow> (CHR '' '' # d, rest, l))
      else (case url_decode_loop (ml - 1) s of (d, rest, l) \<Rightarrow> (c # d, rest, l)))"

definition url_decode_buff :: "nat \<Rightarrow> string option \<Rightarrow> int \<times> char list option" where
  "url_decode_buff maxlen str =
     (case str of
        None \<Rightarrow> (-1, None)
      | Some s \<Rightarrow> (case url_decode_loop maxlen s of (d, rest, ml) \<Rightarrow>
          (if ml = 1 \<and> rest \<noteq> [] then -1 else 0, Some d)))"

section \<open>HTML encoding, percent signs\<close>

definition html_entity :: "char \<Rightarrow> string" where
  "html_entity c =
     (if c = CHR ''<'' then ''&lt;'' else if c = CHR ''>'' then ''&gt;''
      else if c = CHR ''&'' then ''&amp;'' else if c = DQ then ''&quot;'' else [c])"

definition html_encode :: "string option \<Rightarrow> string option" where
  "html_encode str = map_option (\<lambda>s. concat (map html_entity s)) str"

definition esc_percentsign :: "string option \<Rightarrow> string option" where
  "esc_percentsign str =
     map_option (\<lambda>s. concat (map (\<lambda>c. if c = CHR ''%'' then ''%%'' else [c]) s)) str"

section \<open>Writing to a client\<close>

abbreviation (input) SIZE_1MB :: nat where "SIZE_1MB \<equiv> 1000 * 1024"

text \<open>
  \<open>txt\<close> is what the format and its arguments print; the result is the returned value and what is given
  to \<open>write\<close>, whose result is \<open>wr\<close>.
\<close>

definition writef_text :: "bool \<Rightarrow> (string \<Rightarrow> int) \<Rightarrow> int \<Rightarrow> string \<Rightarrow> int \<times> string option" where
  "writef_text htmlencode_flag wr fd txt =
     (if fd < 0 then (-1, None)
      else if SIZE_1MB < length txt then (-1, Some ''Error: Output truncated.'')
      else let tmpbuff = snprintf SIZE_1MB txt;
               out = (if htmlencode_flag then the (html_encode (Some tmpbuff)) else tmpbuff)
           in (wr out, Some out))"

section \<open>Dates and positions\<close>

text \<open>
  A compact date \<open>YYYYMMDDhhmmss\<close> with separators. The first four bytes are copied with \<open>strncpy\<close>, the
  others read one by one: the result is \<open>None\<close> when this reads beyond the end of the text.
\<close>

definition splitdatetime :: "string \<Rightarrow> string option" where
  "splitdatetime datetime =
     (case read_range datetime 4 10 of
        None \<Rightarrow> None
      | Some p \<Rightarrow> Some (c_string (take 4 datetime @ ''-'' @ take 2 p @ ''-'' @ take 2 (drop 2 p) @ '' ''
          @ take 2 (drop 4 p) @ '':'' @ take 2 (drop 6 p) @ '':'' @ take 2 (drop 8 p))))"

text \<open>Rounding half away from zero, as \<open>lround\<close> does.\<close>

definition lround :: "rat \<Rightarrow> int" where
  "lround x = (if 0 \<le> x then \<lfloor>x + 1/2\<rfloor> else \<lceil>x - 1/2\<rceil>)"

text \<open>
  \<open>v\<close> is the number that \<open>xatof\<close> reads. The arithmetic is that of the rationals: the rounding of \<open>double\<close>
  is not modelled.
\<close>

definition convert_decgrad :: "rat \<Rightarrow> int \<times> string" where
  "convert_decgrad v =
     (if v = 0 then (-1, [])
      else let deg = \<lfloor>v\<rfloor>;
               mi = \<lfloor>(v - of_int deg) * 60\<rfloor>;
               sec = lround ((v - of_int deg - of_int mi / 60) * 3600)
           in (0, snprintf 12 (dec_int deg @ '' '' @ dec_int mi @ [CHR 0x27] @ '' '' @ dec_int sec @ [DQ])))"

section \<open>Small helpers\<close>

text \<open>With \<open>num = 0\<close> the terminator is written before the buffer.\<close>

definition rptchr_r :: "char \<Rightarrow> nat \<Rightarrow> string option" where
  "rptchr_r c num =
     (let n = min 255 num in if n = 0 then None else Some (replicate (n - 1) c))"

text \<open>The program stops (\<open>None\<close>) on a value out of range.\<close>

definition validate :: "int \<Rightarrow> int \<Rightarrow> int \<Rightarrow> int option" where
  "validate mn mx val = (if mn \<le> val \<and> val \<le> mx then Some val else None)"

text \<open>Milliseconds of a monotonic clock, from its seconds and nanoseconds.\<close>

definition mtime :: "(nat \<times> nat) option \<Rightarrow> int \<times> nat option" where
  "mtime ts =
     (case ts of None \<Rightarrow> (-1, None)
      | Some (sec, nsec) \<Rightarrow> (0, Some ((sec * 1000 + nsec div 1000000) mod SIZE_MOD)))"

text \<open>
  Renaming a log file that is too large: \<open>st\<close> is its size in bytes, \<open>None\<close> when \<open>stat\<close> fails, \<open>rn\<close> and
  \<open>gz\<close> what \<open>rename\<close> and the compression return for the new name.
\<close>

definition rotate_file ::
    "nat option \<Rightarrow> string \<Rightarrow> (string \<Rightarrow> int) \<Rightarrow> (string \<Rightarrow> int) \<Rightarrow> string \<Rightarrow> nat \<Rightarrow> int" where
  "rotate_file st tbuff rn gz fname max_size_kb =
     (case st of None \<Rightarrow> -1
      | Some sz \<Rightarrow>
          if to_uint32 (int (sz div 1024)) \<le> max_size_kb then -1
          else let nfname = snprintf 511 (fname @ ''-'' @ tbuff) in
            if rn nfname \<noteq> 0 then -1
            else if gz (snprintf 1023 (''/usr/bin/gzip -f '' @ nfname @ '' > /dev/null 2>&1'')) \<noteq> 0 then -1
            else 0)"

section \<open>Hexadecimal digits\<close>

lemma to_hex_mod: "to_hex n = to_hex (n mod 16)"
proof -
  have "n AND 15 = n mod 16" for n :: nat
    using take_bit_eq_mask [of 4 n] by (simp add: mask_eq_exp_minus_1 take_bit_eq_mod)
  then show ?thesis by (simp add: to_hex_def)
qed

lemma lt16: "(n::nat) < 16 \<Longrightarrow> n \<in> {0, 1, 2, 3, 4, 5, 6, 7, 8, 9, 10, 11, 12, 13, 14, 15}"
proof -
  assume "n < 16"
  then have "n \<in> set [0..<16]" by simp
  then show ?thesis by (simp add: upt_rec numeral_eq_Suc)
qed

lemma hex_digit:
  assumes "n < 16"
  shows "from_hex (to_hex n) = n" and "to_hex n \<noteq> NUL" and "to_hex n \<noteq> CHR ''%''"
proof -
  show "from_hex (to_hex n) = n" "to_hex n \<noteq> NUL" "to_hex n \<noteq> CHR ''%''"
    using lt16 [OF assms] by (auto simp: to_hex_def from_hex_def is_digit_def tolower_upper)
qed

lemma hex_char_to_hex: "hex_char (to_hex (byte c div 16)) (to_hex (byte c)) = c"
proof -
  have lt: "byte c div 16 < 16" "byte c mod 16 < 16" by (simp_all add: less_mult_imp_div_less)
  have h: "from_hex (to_hex (byte c div 16)) = byte c div 16" "from_hex (to_hex (byte c)) = byte c mod 16"
    using hex_digit(1) [OF lt(1)] hex_digit(1) [OF lt(2)] to_hex_mod [of "byte c"] by simp_all
  have "push_bit 4 (drop_bit 4 (byte c)) OR take_bit 4 (byte c) = byte c"
    by (rule bit_eqI) (auto simp: bit_simps)
  then have "(16 * (byte c div 16)) OR (byte c mod 16) = byte c"
    by (simp add: push_bit_eq_mult take_bit_eq_mod drop_bit_eq_div mult.commute)
  moreover have "16 * (byte c div 16) mod 256 = 16 * (byte c div 16)" using lt by simp
  ultimately show ?thesis unfolding hex_char_def h by simp
qed

lemma url_safe_plain: "url_safe c \<Longrightarrow> c \<noteq> CHR ''%'' \<and> c \<noteq> CHR ''+''"
  by (auto simp: url_safe_def is_alnum_def is_digit_def)

lemma url_roundtrip_bytes: "url_decode_bytes (url_encode s) = s"
proof (induction s)
  case (Cons c s)
  then show ?case using url_safe_plain [of c] by (auto simp: hex_char_to_hex)
qed simp

text \<open>The bounded decoder writes what the other one writes, as far as there is room.\<close>

definition decoded :: "nat \<Rightarrow> string \<Rightarrow> char list \<times> string \<times> nat \<Rightarrow> bool" where
  "decoded ml s x \<longleftrightarrow>
     (case x of (d, rest, l) \<Rightarrow>
        length d + l \<le> ml \<and> (rest = [] \<longrightarrow> d = url_decode_bytes s) \<and> (rest \<noteq> [] \<longrightarrow> l \<le> 1)
        \<and> (\<exists>u. url_decode_bytes s = d @ u))"

lemma decoded_cons:
  assumes "decoded (ml - 1) r x" and "\<not> ml \<le> 1" and "url_decode_bytes s = c # url_decode_bytes r"
  shows "decoded ml s (case x of (d, rest, l) \<Rightarrow> (c # d, rest, l))"
  using assms by (auto simp: decoded_def split: prod.splits)

lemma decoded_skip:
  assumes "decoded (ml - 1) r x" and "url_decode_bytes s = url_decode_bytes r"
  shows "decoded ml s x"
  using assms by (auto simp: decoded_def split: prod.splits)

lemma url_decode_loop_decoded: "decoded ml s (url_decode_loop ml s)"
proof (induction ml s rule: url_decode_loop.induct)
  case (2 ml c s)
  consider (full) "ml \<le> 1" | (hex) a b r where "\<not> ml \<le> 1" "c = CHR ''%''" "s = a # b # r"
    | (short) "\<not> ml \<le> 1" "c = CHR ''%''" "s = [] \<or> (\<exists>a. s = [a])"
    | (plus) "\<not> ml \<le> 1" "c \<noteq> CHR ''%''" "c = CHR ''+''"
    | (plain) "\<not> ml \<le> 1" "c \<noteq> CHR ''%''" "c \<noteq> CHR ''+''"
    by (metis neq_Nil_conv)
  then show ?case
  proof cases
    case full
    then show ?thesis by (auto simp: decoded_def)
  next
    case hex
    have "decoded (ml - 1) r (url_decode_loop (ml - 1) r)" using "2.IH" hex by blast
    from decoded_cons [OF this, of "c # s" "hex_char a b"] show ?thesis using hex by simp
  next
    case short
    have "decoded (ml - 1) s (url_decode_loop (ml - 1) s)" using "2.IH" short by blast
    from decoded_skip [OF this, of "c # s"] show ?thesis using short by auto
  next
    case plus
    have "decoded (ml - 1) s (url_decode_loop (ml - 1) s)" using "2.IH" plus by blast
    from decoded_cons [OF this, of "c # s" "CHR '' ''"] show ?thesis using plus by simp
  next
    case plain
    have "decoded (ml - 1) s (url_decode_loop (ml - 1) s)" using "2.IH" plain by blast
    from decoded_cons [OF this, of "c # s" c] show ?thesis using plain by simp
  qed
qed (simp add: decoded_def)

lemma url_decode_loop_room: "url_decode_loop ml s = (d, rest, l) \<Longrightarrow> 0 < ml \<Longrightarrow> 0 < l"
proof (induction ml s arbitrary: d rest l rule: url_decode_loop.induct)
  case (2 ml c s)
  then show ?case by (auto split: if_splits list.splits prod.splits)
qed simp

section \<open>What the encodings promise\<close>

lemma url_encode_chars:
  "c \<in> set (url_encode s) \<Longrightarrow> url_safe c \<or> c = CHR ''+'' \<or> c = CHR ''%''"
proof (induction s)
  case (Cons d s)
  have "url_safe (to_hex n)" for n
  proof -
    have "n mod 16 < 16" by simp
    then have "n mod 16 \<in> {0, 1, 2, 3, 4, 5, 6, 7, 8, 9, 10, 11, 12, 13, 14, 15}" by (rule lt16)
    then show ?thesis by (subst to_hex_mod) (auto simp: to_hex_def url_safe_def is_alnum_def is_digit_def)
  qed
  then show ?case using Cons by (auto split: if_splits)
qed simp

text \<open>
  Whatever text without NUL is put into a request with \<^verbatim>\<open>url_encode\<close>, the encoded text has only letters,
  digits and the six characters \<^verbatim>\<open>- _ . ~ + %\<close>, and \<^verbatim>\<open>url_decode\<close> gives the text back.
\<close>

theorem url_text_roundtrip:
  assumes "NUL \<notin> set s"
  shows "url_decode (Some (url_encode s)) = Some s
    \<and> (\<forall>c \<in> set (url_encode s). url_safe c \<or> c = CHR ''+'' \<or> c = CHR ''%'')"
  using assms url_encode_chars by (auto simp: url_decode_def url_roundtrip_bytes cstr_def)

theorem url_text_roundtrip_witness: "url_decode (Some (url_encode ''S:t Eriks 5%'')) = Some ''S:t Eriks 5%''"
  by (rule url_text_roundtrip [THEN conjunct1]) code_simp

text \<open>
  The function \<^verbatim>\<open>url_decode_buff\<close> never writes more than the buffer holds, with its terminator, what it writes is a
  beginning of the decoded text, and a result of 0 says that it is all of it.
\<close>

theorem url_decode_buff_bounded:
  assumes "0 < maxlen" and "url_decode_buff maxlen (Some s) = (rc, d)"
  shows "\<exists>p u. d = Some p \<and> length p < maxlen \<and> url_decode_bytes s = p @ u \<and> (rc = 0 \<longrightarrow> u = [])
    \<and> rc \<in> {0, -1}"
proof -
  obtain p rest l where e: "url_decode_loop maxlen s = (p, rest, l)" by (metis prod_cases3)
  have dec: "decoded maxlen s (p, rest, l)" using url_decode_loop_decoded [of maxlen s] e by simp
  have "1 \<le> l" using e assms(1) url_decode_loop_room by fastforce
  show ?thesis
  proof (cases "rest = []")
    case True
    then show ?thesis using dec assms e \<open>1 \<le> l\<close> by (auto simp: decoded_def url_decode_buff_def)
  next
    case False
    then show ?thesis using dec assms e \<open>1 \<le> l\<close> by (auto simp: decoded_def url_decode_buff_def)
  qed
qed

theorem url_decode_buff_bounded_witness:
  "\<exists>p u. Some ''ab c'' = Some p \<and> length p < 5 \<and> url_decode_bytes ''ab+c%21'' = p @ u \<and> ((-1::int) = 0 \<longrightarrow> u = [])
    \<and> (-1::int) \<in> {0, -1}"
  by (rule url_decode_buff_bounded) code_simp+

section \<open>HTML\<close>

text \<open>What a browser shows for the entities the daemon writes.\<close>

fun html_shown :: "string \<Rightarrow> string" where
  "html_shown [] = []"
| "html_shown (c # s) =
     (if c = CHR ''&'' then
        (if take 3 s = ''lt;'' then CHR ''<'' # html_shown (drop 3 s)
         else if take 3 s = ''gt;'' then CHR ''>'' # html_shown (drop 3 s)
         else if take 4 s = ''amp;'' then CHR ''&'' # html_shown (drop 4 s)
         else if take 5 s = ''quot;'' then DQ # html_shown (drop 5 s)
         else c # html_shown s)
      else c # html_shown s)"

lemma html_shown_entity: "html_shown (html_entity c @ s) = c # html_shown s"
  by (auto simp: html_entity_def)

text \<open>
  A text that is written to the browser is shown as it is and has no markup of its own: the encoding
  leaves no \<^verbatim>\<open><\<close>, \<^verbatim>\<open>>\<close> or double quote, and reading its entities gives the text back.
\<close>

theorem html_text_shown:
  "\<exists>h. html_encode (Some s) = Some h \<and> html_shown h = s \<and> set h \<inter> {CHR ''<'', CHR ''>'', DQ} = {}"
proof -
  have "html_shown (concat (map html_entity s)) = s" by (induction s) (simp_all add: html_shown_entity)
  moreover have "set (concat (map html_entity s)) \<inter> {CHR ''<'', CHR ''>'', DQ} = {}"
    by (auto simp: html_entity_def split: if_splits)
  ultimately show ?thesis by (simp add: html_encode_def)
qed

section \<open>Degrees, minutes and seconds\<close>

lemma lround_near: "\<bar>of_int (lround x) - x\<bar> \<le> 1 / 2"
proof (cases "0 \<le> x")
  case True
  then have "lround x = \<lfloor>x + 1 / 2\<rfloor>" by (simp add: lround_def)
  then show ?thesis by linarith
next
  case False
  then have "lround x = \<lceil>x - 1 / 2\<rceil>" by (simp add: lround_def)
  then show ?thesis by linarith
qed

lemma floor_rest: "0 \<le> (v::rat) - of_int \<lfloor>v\<rfloor> \<and> v - of_int \<lfloor>v\<rfloor> < 1"
  by linarith

text \<open>
  The degrees, minutes and seconds printed for a position differ from it by at most half a second; the
  minutes are below 60, and the seconds lie between 0 and 60, both included.
\<close>

theorem degrees_near:
  assumes "v \<noteq> 0"
  shows "\<exists>deg mi sec. convert_decgrad v =
           (0, snprintf 12 (dec_int deg @ '' '' @ dec_int mi @ [CHR 0x27] @ '' '' @ dec_int sec @ [DQ]))
       \<and> 0 \<le> mi \<and> mi < 60 \<and> 0 \<le> sec \<and> sec \<le> 60
       \<and> \<bar>of_int deg + of_int mi / 60 + of_int sec / 3600 - v\<bar> \<le> 1 / 7200"
proof -
  define deg where "deg = \<lfloor>v\<rfloor>"
  define mi where "mi = \<lfloor>(v - of_int deg) * 60\<rfloor>"
  define x where "x = (v - of_int deg - of_int mi / 60) * 3600"
  have m: "0 \<le> (v - of_int deg) * 60" "(v - of_int deg) * 60 < 60"
    using floor_rest [of v] by (simp_all add: deg_def)
  then have mi: "0 \<le> mi" "mi < 60" by (simp_all add: mi_def floor_less_iff)
  have x: "0 \<le> x" "x < 60" using floor_rest [of "(v - of_int deg) * 60"] unfolding x_def mi_def by (simp_all add: algebra_simps)
  have sec: "\<bar>of_int (lround x) - x\<bar> \<le> 1 / 2" by (rule lround_near)
  have s60: "0 \<le> lround x" "lround x \<le> 60" using x by (simp_all add: lround_def floor_le_iff)
  have "of_int deg + of_int mi / 60 + of_int (lround x) / 3600 - v = (of_int (lround x) - x) / 3600"
    by (simp add: x_def field_simps)
  then have "\<bar>of_int deg + of_int mi / 60 + of_int (lround x) / 3600 - v\<bar> \<le> 1 / 7200"
    using sec by (simp only:) (simp add: abs_divide)
  moreover have "convert_decgrad v =
      (0, snprintf 12 (dec_int deg @ '' '' @ dec_int mi @ [CHR 0x27] @ '' '' @ dec_int (lround x) @ [DQ]))"
    using assms by (simp add: convert_decgrad_def Let_def deg_def mi_def x_def)
  ultimately show ?thesis using mi s60 by blast
qed

text \<open>
  Sixty seconds are printed just below a full minute, a position south or west is rounded down, and the
  twelve bytes of the buffer are one too few for a longitude with a sign and three digits.
\<close>

theorem sixty_seconds_printed:
  "convert_decgrad (5799999 / 100000) = (0, ''57 59'' @ [CHR 0x27] @ '' 60'' @ [DQ])"
  "convert_decgrad (- (1 / 2)) = (0, ''-1 30'' @ [CHR 0x27] @ '' 0'' @ [DQ])"
  "convert_decgrad (- (1234567 / 10000)) = (0, ''-124 32'' @ [CHR 0x27] @ '' 36'')"
  by code_simp+

end
