(* ===== verification/Listing.thy ===== *)
theory Listing
  imports Unitbl_Spec
begin

text \<open>
  The listings of the daemon: \<open>list_usb_stat\<close> (\<^verbatim>\<open>connwatcher.c\<close>), \<open>_srv_cmd_lc\<close> and \<open>_srv_cache_stat\<close>
  (\<^verbatim>\<open>g7srvcmd.c\<close>) and \<open>db_loclist\<close> (\<^verbatim>\<open>dbcmd.c\<close>) all make a table of the texts of some rows, set its
  alignment and draw it. What they have in common is here, with what a reader of the listing can rely on.
\<close>

section \<open>Making and drawing a table\<close>

text \<open>
  \<open>rows\<close> are the rows of \<open>tdata\<close>, the header first, \<open>prep\<close> what is set on the table before it is drawn.
  \<open>None\<close>: no table was made.
\<close>

definition stroke_listing ::
    "(string \<Rightarrow> int) \<Rightarrow> bool \<Rightarrow> (table_t \<Rightarrow> table_t) \<Rightarrow> tblstyle_t \<Rightarrow> nat \<Rightarrow> string list list
     \<Rightarrow> (int \<times> table_t \<times> string) stroked option" where
  "stroke_listing wr cutpad prep style nCols rows =
     map_option (\<lambda>t. utable_stroke wr cutpad (prep t) style)
       (utable_create_set (length rows) nCols (concat rows))"

definition center_header :: "table_t \<Rightarrow> table_t" where
  "center_header t = snd (utable_set_row_halign t 0 CENTERALIGN)"

text \<open>The row that is shown when there is nothing to list.\<close>

definition or_empty_row :: "nat \<Rightarrow> string list list \<Rightarrow> string list list" where
  "or_empty_row nCols rows = (if rows = [] then [replicate nCols '' ''] else rows)"

text \<open>The time of a connection, with \<open>lt\<close> the local time (year, month, day, hour, minute, second).\<close>

type_synonym local_time = "int \<Rightarrow> nat \<times> nat \<times> nat \<times> nat \<times> nat \<times> nat"

definition conn_time :: "local_time \<Rightarrow> int \<Rightarrow> string" where
  "conn_time lt t =
     (case lt t of (y, m, d, h, mi, s) \<Rightarrow>
        snprintf 32 ('' '' @ dec_pad 4 y @ ''-'' @ dec_pad 2 m @ ''-'' @ dec_pad 2 d @ '' '' @
                     dec_pad 2 h @ '':'' @ dec_pad 2 mi @ '' ''))"

section \<open>Preparations that keep the texts\<close>

text \<open>What the settings of a listing leave alone.\<close>

definition keeps_texts :: "(table_t \<Rightarrow> table_t) \<Rightarrow> bool" where
  "keeps_texts f \<longleftrightarrow> (\<forall>t. plain_table t \<longrightarrow> plain_table (f t) \<and> nRow (f t) = nRow t \<and> nCol (f t) = nCol t
     \<and> (\<forall>r c. cell_t (cell (f t) r c) = cell_t (cell t r c)))"

lemma keeps_texts_center: "keeps_texts center_header"
  unfolding keeps_texts_def center_header_def
  using plain_row_halign row_halign_texts by auto

lemma keeps_texts_interior: "keeps_texts (\<lambda>t. utable_set_interior t v h)"
proof -
  have "plain_table (utable_set_interior t v h)" if t: "plain_table t" for t
  proof -
    have "tbl_ok t" using t by (simp add: plain_table_def good_table_def)
    moreover have "tshape (utable_set_interior t v h) = tshape t" by (simp add: utable_set_interior_def tshape_def)
    ultimately have "tbl_ok (utable_set_interior t v h)" using tbl_ok_cong by blast
    moreover have "TIDX (utable_set_interior t v h) = TIDX t"
      by (simp add: fun_eq_iff TIDX_def utable_set_interior_def)
    ultimately show ?thesis
      using t unfolding plain_table_def good_table_def by (simp add: utable_set_interior_def)
  qed
  then show ?thesis by (simp add: keeps_texts_def utable_set_interior_def TIDX_def)
qed

lemma keeps_texts_comp: "keeps_texts f \<Longrightarrow> keeps_texts g \<Longrightarrow> keeps_texts (\<lambda>t. f (g t))"
  by (simp add: keeps_texts_def)

lemma keeps_texts_table: "keeps_texts (\<lambda>t. snd (utable_set_table_halign t al))"
proof -
  have step: "plain_table (snd (utable_set_row_halign u r al)) \<and> nRow (snd (utable_set_row_halign u r al)) = nRow u
      \<and> nCol (snd (utable_set_row_halign u r al)) = nCol u
      \<and> (\<forall>r' c. cell_t (cell (snd (utable_set_row_halign u r al)) r' c) = cell_t (cell u r' c))"
    if "plain_table u" for u r
    using that plain_row_halign row_halign_texts by auto
  show ?thesis
    unfolding keeps_texts_def utable_set_table_halign_def
  proof (intro allI impI)
    fix t assume t: "plain_table t"
    let ?P = "\<lambda>u. plain_table u \<and> nRow u = nRow t \<and> nCol u = nCol t
        \<and> (\<forall>r c. cell_t (cell u r c) = cell_t (cell t r c))"
    show "?P (snd (loop_chk (\<lambda>r t. utable_set_row_halign t (to_int32 (int r)) al) [0..<nRow t] t))"
      by (rule loop_chk_inv [where P = ?P]) (use t step in auto)
  qed
qed

section \<open>What is shown\<close>

lemma concat_nth:
  "\<forall>r\<in>set rows. length r = nc \<Longrightarrow> i < length rows \<Longrightarrow> j < nc \<Longrightarrow> concat rows ! (i * nc + j) = rows ! i ! j"
proof (induction rows arbitrary: i)
  case (Cons r rows)
  then show ?case by (cases i) (auto simp: nth_append add.assoc)
qed simp

text \<open>
  The lines of a drawing: equally wide, and the texts of a row of the listing are together in one line.
\<close>

abbreviation has_text :: "string \<Rightarrow> string \<Rightarrow> bool" where
  "has_text l s \<equiv> \<exists>u v. l = u @ s @ v"

definition shows_rows :: "string list list \<Rightarrow> string list \<Rightarrow> bool" where
  "shows_rows rows ls \<longleftrightarrow>
     (\<exists>w. \<forall>l\<in>set ls. utf8len l = w \<and> LF \<notin> set l)
     \<and> (\<forall>row\<in>set rows. \<exists>l\<in>set ls. \<forall>s\<in>set row. has_text l s)"

lemma stroke_listing_shown:
  assumes "keeps_texts prep" and "2 \<le> length rows" and "\<forall>r\<in>set rows. length r = nc" and "1 \<le> nc" and "nc < 2 ^ 31"
    and "\<forall>r\<in>set rows. \<forall>s\<in>set r. short_text s"
    and fit: "(4 * length rows + 4) * (2048 * nc + 5) + 10 * length rows + 2 < MAXSTROKEBUFF"
  shows "\<exists>ls t. shows_rows rows ls \<and>
     stroke_listing wr cutpad prep style nc rows = Some (Inr (wr (lines_text ls), t, lines_text ls))"
proof -
  let ?nr = "length rows"
  have len: "length (concat rows) = ?nr * nc"
    using assms(3) by (induction rows) auto
  have "?nr + 1 < 2 ^ 31" using fit by simp
  then obtain t where t: "utable_create_set ?nr nc (concat rows) = Some t" "plain_table t" "nRow t = ?nr" "nCol t = nc"
    "\<forall>r<?nr. \<forall>c<nc. cell_t (cell t r c) = Some (concat rows ! (r * nc + c))"
    using create_set_plain [OF assms(2) _ assms(4,5) len] assms(6) by auto
  have p: "plain_table (prep t)" "nRow (prep t) = ?nr" "nCol (prep t) = nc"
    "\<And>r c. cell_t (cell (prep t) r c) = cell_t (cell t r c)"
    using assms(1) t(2-4) unfolding keeps_texts_def by auto
  obtain ls w where ls: "\<forall>l\<in>set ls. utf8len l = w \<and> LF \<notin> set l"
     "\<forall>r<?nr. \<exists>l\<in>set ls. \<forall>c<nc. \<exists>u v. l = u @ the (cell_t (cell (prep t) r c)) @ v"
     "utable_stroke wr cutpad (prep t) style = Inr (wr (lines_text ls), prepared (prep t), lines_text ls)"
    using plain_stroke [OF p(1), where wr = wr and cutpad = cutpad and style = style] fit unfolding p(2,3) by blast
  have "\<exists>l\<in>set ls. \<forall>s\<in>set row. \<exists>u v. l = u @ s @ v" if row: "row \<in> set rows" for row
  proof -
    obtain i where i: "i < ?nr" "row = rows ! i" using row by (metis in_set_conv_nth)
    obtain l where l: "l \<in> set ls" "\<forall>c<nc. \<exists>u v. l = u @ the (cell_t (cell (prep t) i c)) @ v"
      using ls(2) i(1) by blast
    have "the (cell_t (cell (prep t) i c)) = row ! c" if "c < nc" for c
      using t(5) i that concat_nth [OF assms(3) i(1) that] by (simp add: p(4))
    moreover have "length row = nc" using assms(3) row by blast
    ultimately show ?thesis using l by (metis in_set_conv_nth)
  qed
  then have "shows_rows rows ls" using ls(1) by (auto simp: shows_rows_def)
  then show ?thesis using t(1) ls(3) by (auto simp: stroke_listing_def)
qed

section \<open>Texts of seven-bit characters\<close>

definition plain_text :: "string \<Rightarrow> bool" where
  "plain_text s \<longleftrightarrow> list_all (\<lambda>c. c \<noteq> NUL \<and> c \<noteq> LF \<and> byte c < 128) s"

lemma plain_text_simps [simp]:
  "plain_text []"
  "plain_text (c # s) \<longleftrightarrow> c \<noteq> NUL \<and> c \<noteq> LF \<and> byte c < 128 \<and> plain_text s"
  "plain_text (s @ u) \<longleftrightarrow> plain_text s \<and> plain_text u"
  by (auto simp: plain_text_def)

lemma plain_text_digits: "list_all is_digit s \<Longrightarrow> plain_text s"
  by (auto simp: plain_text_def list_all_iff is_digit_def)

lemma plain_text_dec [simp]: "plain_text (dec n)" "plain_text (dec_pad k n)"
  by (rule plain_text_digits, simp)+

lemma plain_text_sub: "plain_text s \<Longrightarrow> set u \<subseteq> set s \<Longrightarrow> plain_text u"
  by (auto simp: plain_text_def list_all_iff)

lemma plain_text_take: "plain_text s \<Longrightarrow> plain_text (take n s)"
  by (rule plain_text_sub) (auto dest: in_set_takeD)

lemma plain_text_blanks [simp]: "plain_text (replicate n (CHR '' ''))"
  by (simp add: plain_text_def list_all_iff)

lemma short_plain: "plain_text s \<Longrightarrow> length s \<le> 255 \<Longrightarrow> short_text s"
  using mb_text_ascii [of s] by (auto simp: short_text_def plain_text_def ascii_def list_all_iff)

lemma short_take: "plain_text s \<Longrightarrow> n \<le> 255 \<Longrightarrow> short_text (take n s)"
  by (rule short_plain) (auto intro: plain_text_take)

lemma short_conn_time: "short_text (conn_time lt t)"
proof -
  obtain y m d h mi s where "lt t = (y, m, d, h, mi, s)" by (metis prod_cases6)
  then show ?thesis unfolding conn_time_def by (simp only: prod.case) (rule short_take; simp)
qed

end
