(* ===== verification/Usb.thy ===== *)
theory Usb
  imports Clients Listing
begin

text \<open>
  Devices at the USB ports: reading a line of a reply from the serial port (\<^verbatim>\<open>src/src/serial.c\<close>), and the
  table of ports with the thread that watches them and the threads that establish a connection
  (\<^verbatim>\<open>src/src/connwatcher.c\<close>). What \<open>poll\<close>, \<open>read\<close>, the clock and \<open>localtime\<close> return are arguments; the
  settings of the terminal line are not modelled.
\<close>

section \<open>The serial port\<close>

definition get_stty_device_name :: "nat \<Rightarrow> string option" where
  "get_stty_device_name idx = (if idx < 6 then Some (''/dev/ttyACM'' @ dec idx) else None)"

text \<open>What \<open>poll\<close> says, with the result of \<open>read\<close> when there is something to read.\<close>

datatype poll_result = Poll_timeout | Poll_error | Poll_other | Poll_in "char list option"

abbreviation (input) SERIALRD_TIMEOUT :: int where "SERIALRD_TIMEOUT \<equiv> -2"

definition serial_read_timeout :: "nat \<Rightarrow> poll_result \<Rightarrow> int \<times> char list" where
  "serial_read_timeout maxlen p =
     (case p of
        Poll_timeout \<Rightarrow> (SERIALRD_TIMEOUT, [])
      | Poll_error \<Rightarrow> (-1, [])
      | Poll_other \<Rightarrow> (0, [])
      | Poll_in None \<Rightarrow> (-1, [])
      | Poll_in (Some d) \<Rightarrow> (int (length (take maxlen d)), take maxlen d))"

definition ends_crlf :: "char list \<Rightarrow> bool" where
  "ends_crlf b \<longleftrightarrow> drop (length b - 2) b = [CR, LF]"

text \<open>
  The loop: \<open>n\<close> tries are left, \<open>b\<close> is what has been read and \<open>mr\<close> the room. The test for the end looks
  at the last two bytes also when fewer have been read: \<open>pre\<close> are the two bytes before the buffer.
  \<open>None\<close> is an error of \<open>poll\<close> or \<open>read\<close>.
\<close>

fun read_tries ::
    "char list \<Rightarrow> (nat \<Rightarrow> poll_result) \<Rightarrow> nat \<Rightarrow> nat \<Rightarrow> nat \<Rightarrow> char list \<Rightarrow> (bool \<times> char list \<times> nat) option" where
  "read_tries pre rds 0 tries mr b = Some (False, b, mr)"
| "read_tries pre rds (Suc n) tries mr b =
     (case serial_read_timeout mr (rds tries) of (rc, d) \<Rightarrow>
        if rc < 0 \<and> rc \<noteq> SERIALRD_TIMEOUT then None
        else let b' = b @ d; mr' = mr - length d; finished = ends_crlf (pre @ b') in
          if \<not> finished \<and> 0 < n \<and> 1 < mr' then read_tries pre rds n (Suc tries) mr' b'
          else Some (finished, b', mr'))"

abbreviation (input) MAX_READ :: nat where "MAX_READ \<equiv> 100 * 1024"
abbreviation (input) MAX_TRIES :: nat where "MAX_TRIES \<equiv> 5"

text \<open>The result, the reply, and whether the terminator is written after the end of the buffer.\<close>

definition serial_read_line :: "char list \<Rightarrow> (nat \<Rightarrow> poll_result) \<Rightarrow> int \<times> string option \<times> bool" where
  "serial_read_line pre rds =
     (case read_tries pre rds MAX_TRIES 0 MAX_READ [] of
        None \<Rightarrow> (-1, None, False)
      | Some (finished, b, mr) \<Rightarrow>
          if finished then (0, Some (c_string b), mr = 0) else (-1, None, mr = 0))"

section \<open>The table of ports\<close>

record usb_conn_status_t =
  is_attached :: bool
  is_connected :: bool
  usb_ts :: int
  stty_device_num :: int
  stty_device_name :: string
  device_id :: u32

abbreviation (input) MAX_USB_CONNECTIONS :: nat where "MAX_USB_CONNECTIONS \<equiv> 6"

record usb =
  usb_conn_status :: "usb_conn_status_t list"
  num_usb_connections :: nat

text \<open>\<open>None\<close>: a port has no device name, and the program stops.\<close>

definition init_usb_status :: "nat \<Rightarrow> usb option" where
  "init_usb_status stty_device_startidx =
     (if list_all (\<lambda>i. get_stty_device_name (i + stty_device_startidx) \<noteq> None) [0..<MAX_USB_CONNECTIONS]
      then Some \<lparr> usb_conn_status = map (\<lambda>i. \<lparr> is_attached = False, is_connected = False, usb_ts = 0,
                    stty_device_num = int (i + stty_device_startidx),
                    stty_device_name = take 127 (the (get_stty_device_name (i + stty_device_startidx))),
                    device_id = 0 \<rparr>) [0..<MAX_USB_CONNECTIONS],
                  num_usb_connections = 0 \<rparr>
      else None)"

abbreviation upd_port :: "nat \<Rightarrow> (usb_conn_status_t \<Rightarrow> usb_conn_status_t) \<Rightarrow> usb \<Rightarrow> usb" where
  "upd_port i f u \<equiv> u\<lparr> usb_conn_status := (usb_conn_status u)[i := f (usb_conn_status u ! i)] \<rparr>"

definition get_usb_devicename :: "usb \<Rightarrow> nat \<Rightarrow> int \<times> string option" where
  "get_usb_devicename u idx =
     (if idx < MAX_USB_CONNECTIONS then (0, Some (stty_device_name (usb_conn_status u ! idx))) else (-1, None))"

text \<open>The counter is a \<open>size_t\<close>.\<close>

definition update_usb_stat :: "int \<Rightarrow> nat \<Rightarrow> bool \<Rightarrow> usb \<Rightarrow> usb" where
  "update_usb_stat now idx conn u =
     (let p = usb_conn_status u ! idx in
      if conn then
        (if is_connected p then u
         else (upd_port idx (\<lambda>p. p\<lparr> is_connected := True, usb_ts := now \<rparr>) u)
                \<lparr> num_usb_connections := (num_usb_connections u + 1) mod SIZE_MOD \<rparr>)
      else
        (if is_connected p
         then (upd_port idx (\<lambda>p. p\<lparr> is_attached := False, is_connected := False, device_id := 0, usb_ts := 0 \<rparr>) u)
                \<lparr> num_usb_connections := (num_usb_connections u + (SIZE_MOD - 1)) mod SIZE_MOD \<rparr>
         else if is_attached p then upd_port idx (\<lambda>p. p\<lparr> is_attached := False \<rparr>) u
         else u))"

text \<open>The index of a client is signed; as a \<open>size_t\<close> a negative one is out of range.\<close>

definition is_usb_connected :: "usb \<Rightarrow> int \<Rightarrow> bool" where
  "is_usb_connected u idx \<longleftrightarrow>
     0 \<le> idx \<and> idx < int MAX_USB_CONNECTIONS \<and> 0 < num_usb_connections u
     \<and> is_connected (usb_conn_status u ! nat idx) \<and> device_id (usb_conn_status u ! nat idx) \<noteq> 0"

definition set_usb_device_target_by_index :: "usb \<Rightarrow> client_info \<Rightarrow> nat \<Rightarrow> client_info \<times> int \<times> string list" where
  "set_usb_device_target_by_index u cli idx =
     (let sockd = cli_socket cli in
      if MAX_USB_CONNECTIONS \<le> idx then
        (cli, -1, writef sockd (''Unknown USB index specified ('' @ dec idx @ '')''))
      else if num_usb_connections u = 0 \<or> \<not> is_connected (usb_conn_status u ! idx) then
        (cli, -1, writef sockd (''No device connected to USB index ('' @ dec idx @ '')''))
      else
        (cli\<lparr> target_socket := -1, target_deviceid := 0, target_cli_idx := -1, target_usb_idx := int idx \<rparr>, 0,
         writef sockd (''USB target set to index='' @ dec idx)))"

text \<open>The name without its directories.\<close>

definition dev_basename :: "string \<Rightarrow> string" where
  "dev_basename s = rev (takeWhile (\<lambda>c. c \<noteq> CHR ''/'') (rev s))"

definition star :: "bool \<Rightarrow> char" where
  "star b = (if b then CHR ''*'' else CHR '' '')"

text \<open>The row of a port, if it has one; the buffers of the columns have 32 bytes.\<close>

definition usb_row :: "local_time \<Rightarrow> client_info \<Rightarrow> nat \<Rightarrow> usb_conn_status_t \<Rightarrow> string list list" where
  "usb_row lt cli i p =
     (let buff1 = snprintf 32 ('' '' @ dec_pad 2 i @ '' '');
          nm = dev_basename (stty_device_name p);
          buff2 = snprintf 32 ('' '' @ [star (target_usb_idx cli = int i)] @ nm @ '' '')
      in if is_connected p then
           (if device_id p = 0 then [[buff1, buff2, '' connecting ... '', []]]
            else [[buff1, buff2, conn_time lt (usb_ts p), snprintf 32 ('' '' @ dec (unat (device_id p)) @ '' '')]])
         else if is_attached p then [[buff1, snprintf 32 ('' '' @ nm @ '' ''), '' connecting ... '', []]]
         else [])"

definition list_usb_rows :: "local_time \<Rightarrow> client_info \<Rightarrow> usb \<Rightarrow> string list list" where
  "list_usb_rows lt cli u =
     [['' # '', ''  USB  '', ''  Conn. Time  '', ''  Dev ID  '']] @
     or_empty_row 4 (concat (map (\<lambda>i. usb_row lt cli i (usb_conn_status u ! i)) [0..<MAX_USB_CONNECTIONS]))"

definition list_usb_stat ::
    "local_time \<Rightarrow> (string \<Rightarrow> int) \<Rightarrow> bool \<Rightarrow> usb \<Rightarrow> client_info \<Rightarrow> (int \<times> table_t \<times> string) stroked option" where
  "list_usb_stat lt wr cutpad u cli =
     (if use_unicode_table cli
      then stroke_listing wr cutpad (\<lambda>t. utable_set_interior (center_header t) True False) TSTYLE_DOUBLE_V2 4
             (list_usb_rows lt cli u)
      else stroke_listing wr cutpad center_header TSTYLE_ASCII_V3 4 (list_usb_rows lt cli u))"

section \<open>The watcher and the connecting threads\<close>

text \<open>
  A thread of \<open>establish_usb_thread\<close> for one port: not yet begun, waiting for the device with the number of
  queries that failed, with the answer stored and the port not yet marked as connected, and ended.
\<close>

datatype phase = T_new | T_wait nat | T_answered | T_ended

record usb_thread =
  t_port :: nat
  t_phase :: phase

text \<open>
  All threads ever created, and for each port the identifier of its last one (\<open>usb_conn_thread_id\<close>,
  cleared to 0, here \<open>None\<close>). \<open>w_stale\<close> notes a \<open>pthread_cancel\<close> of a thread that has ended: the threads are
  detached, and the identifier of one that has ended means nothing.
\<close>

record watcher =
  w_usb :: usb
  w_threads :: "usb_thread list"
  w_thread_id :: "nat option list"
  w_stale :: bool

definition init_watcher :: "usb \<Rightarrow> watcher" where
  "init_watcher u = \<lparr> w_usb = u, w_threads = [], w_thread_id = replicate MAX_USB_CONNECTIONS None, w_stale = False \<rparr>"

text \<open>The device file of port \<open>j\<close> appears: a thread is created.\<close>

definition usb_created :: "nat \<Rightarrow> watcher \<Rightarrow> watcher" where
  "usb_created j w = w\<lparr> w_threads := w_threads w @ [\<lparr> t_port = j, t_phase = T_new \<rparr>],
                       w_thread_id := (w_thread_id w)[j := Some (length (w_threads w))] \<rparr>"

text \<open>
  The device file disappears. The cancelled thread is taken to end at once; in the program it ends at
  its next cancellation point.
\<close>

definition usb_deleted :: "nat \<Rightarrow> watcher \<Rightarrow> watcher" where
  "usb_deleted j w =
     (let p = usb_conn_status (w_usb w) ! j;
          w1 = (if is_attached p \<and> \<not> is_connected p then
                  (case w_thread_id w ! j of
                     None \<Rightarrow> w\<lparr> w_stale := True \<rparr>
                   | Some k \<Rightarrow>
                       (if t_phase (w_threads w ! k) = T_ended then w\<lparr> w_stale := True \<rparr>
                        else w\<lparr> w_threads := (w_threads w)[k := (w_threads w ! k)\<lparr> t_phase := T_ended \<rparr>] \<rparr>)
                       \<lparr> w_thread_id := (w_thread_id w)[j := None] \<rparr>)
                else w)
      in w1\<lparr> w_usb := update_usb_stat 0 j False (w_usb w1) \<rparr>)"

text \<open>Changing the phase of thread \<open>k\<close> and the table.\<close>

definition thread_step :: "nat \<Rightarrow> phase \<Rightarrow> (nat \<Rightarrow> usb \<Rightarrow> usb) \<Rightarrow> watcher \<Rightarrow> watcher" where
  "thread_step k ph f w =
     w\<lparr> w_threads := (w_threads w)[k := (w_threads w ! k)\<lparr> t_phase := ph \<rparr>],
        w_usb := f (t_port (w_threads w ! k)) (w_usb w) \<rparr>"

text \<open>
  The steps of the watcher and of the threads, between which any other may come; each is atomic, although
  the code takes no lock for the table and its counter. A query of the device id
  either gives an id or fails; after the third failure the thread gives up.
\<close>

inductive usb_step :: "watcher \<Rightarrow> watcher \<Rightarrow> bool" where
  create: "j < MAX_USB_CONNECTIONS \<Longrightarrow> usb_step w (usb_created j w)"
| delete: "j < MAX_USB_CONNECTIONS \<Longrightarrow> usb_step w (usb_deleted j w)"
| begin_thread: "k < length (w_threads w) \<Longrightarrow> t_phase (w_threads w ! k) = T_new \<Longrightarrow>
    usb_step w (thread_step k (T_wait 0) (\<lambda>i. upd_port i (\<lambda>p. p\<lparr> is_attached := True \<rparr>)) w)"
| query_fails: "k < length (w_threads w) \<Longrightarrow> t_phase (w_threads w ! k) = T_wait n \<Longrightarrow>
    usb_step w (thread_step k (if n < 2 then T_wait (Suc n) else T_ended) (\<lambda>i u. u) w)"
| query_answers: "k < length (w_threads w) \<Longrightarrow> t_phase (w_threads w ! k) = T_wait n \<Longrightarrow>
    usb_step w (thread_step k T_answered (\<lambda>i. upd_port i (\<lambda>p. p\<lparr> device_id := dev \<rparr>)) w)"
| established: "k < length (w_threads w) \<Longrightarrow> t_phase (w_threads w ! k) = T_answered \<Longrightarrow>
    usb_step w (thread_step k T_ended (\<lambda>i. update_usb_stat now i True) w)"

inductive usb_reach :: "usb \<Rightarrow> watcher \<Rightarrow> bool" for u where
  start: "usb_reach u (init_watcher u)"
| step: "usb_reach u w \<Longrightarrow> usb_step w w' \<Longrightarrow> usb_reach u w'"

section \<open>Reading a line of the serial port\<close>

lemma serial_read_in: "length d \<le> mr \<Longrightarrow> serial_read_timeout mr (Poll_in (Some d)) = (int (length d), d)"
  by (simp add: serial_read_timeout_def)

lemma read_tries_pieces:
  assumes "ps \<noteq> []" and "length ps \<le> n" and "\<forall>i<length ps. rds (tries + i) = Poll_in (Some (ps ! i))"
    and "length (concat ps) + 1 < mr"
    and "\<forall>i<length ps. 0 < i \<longrightarrow> \<not> ends_crlf (pre @ b @ concat (take i ps))"
    and "ends_crlf (pre @ b @ concat ps)"
  shows "read_tries pre rds n tries mr b = Some (True, b @ concat ps, mr - length (concat ps))"
  using assms
proof (induction ps arbitrary: n tries mr b)
  case (Cons p ps)
  obtain m where n: "n = Suc m" using Cons.prems(2) by (cases n) auto
  have r0: "rds tries = Poll_in (Some p)" using Cons.prems(3) by auto
  have rd: "serial_read_timeout mr (rds tries) = (int (length p), p)"
    using Cons.prems(4) by (simp add: r0 serial_read_in)
  show ?case
  proof (cases "ps = []")
    case True
    then show ?thesis using Cons.prems(6) by (simp add: n rd)
  next
    case False
    have nf: "\<not> ends_crlf (pre @ b @ p)"
    proof -
      have "1 < length (p # ps)" using False by (cases ps) auto
      then show ?thesis using Cons.prems(5) [THEN spec, of 1] by simp
    qed
    have "read_tries pre rds m (Suc tries) (mr - length p) (b @ p)
        = Some (True, (b @ p) @ concat ps, mr - length p - length (concat ps))"
    proof (rule Cons.IH)
      show "ps \<noteq> []" by (rule False)
      show "length ps \<le> m" using Cons.prems(2) n by simp
      show "\<forall>i<length ps. rds (Suc tries + i) = Poll_in (Some (ps ! i))"
        using Cons.prems(3) by force
      show "length (concat ps) + 1 < mr - length p" using Cons.prems(4) by simp
      show "\<forall>i<length ps. 0 < i \<longrightarrow> \<not> ends_crlf (pre @ (b @ p) @ concat (take i ps))"
      proof (intro allI impI)
        fix i assume "i < length ps" "0 < i"
        then show "\<not> ends_crlf (pre @ (b @ p) @ concat (take i ps))"
          using Cons.prems(5) [THEN spec, of "Suc i"] by simp
      qed
      show "ends_crlf (pre @ (b @ p) @ concat ps)" using Cons.prems(6) by simp
    qed
    then show ?thesis using nf False Cons.prems(2,4) n by (cases ps) (auto simp: rd Let_def)
  qed
qed simp

lemma ends_crlf_pre: "2 \<le> length b \<Longrightarrow> ends_crlf (pre @ b) = ends_crlf b"
  by (simp add: ends_crlf_def)

text \<open>
  A reply of a device at a USB port is read whole, in however many pieces up to five it arrives, as long
  as no piece but the last ends in the two bytes that end a line.
\<close>

theorem serial_line_whole:
  assumes "ps \<noteq> []" and "length ps \<le> MAX_TRIES" and "\<forall>i<length ps. rds i = Poll_in (Some (ps ! i))"
    and "length (concat ps) + 1 < MAX_READ"
    and "\<forall>i<length ps. 0 < i \<longrightarrow> 2 \<le> length (concat (take i ps)) \<and> \<not> ends_crlf (concat (take i ps))"
    and "ends_crlf (concat ps)" and "NUL \<notin> set (concat ps)"
  shows "serial_read_line pre rds = (0, Some (concat ps), False)"
proof -
  have two: "2 \<le> length (concat ps)" using assms(6) by (cases "length (concat ps) < 2") (auto simp: ends_crlf_def)
  have "read_tries pre rds MAX_TRIES 0 MAX_READ [] = Some (True, [] @ concat ps, MAX_READ - length (concat ps))"
    by (rule read_tries_pieces) (use assms two in \<open>simp_all add: ends_crlf_pre\<close>)
  then show ?thesis using assms(4,7) unfolding serial_read_line_def by (simp add: cstr_def)
qed

theorem serial_line_whole_witness:
  "serial_read_line ''xx'' (\<lambda>i. Poll_in (Some ([''$OK:'', ''LED=1'' @ [CR, LF]] ! i)))
     = (0, Some (concat [''$OK:'', ''LED=1'' @ [CR, LF]]), False)"
proof (rule serial_line_whole)
  show "\<forall>i<length [''$OK:'', ''LED=1'' @ [CR, LF]]. 0 < i \<longrightarrow>
     2 \<le> length (concat (take i [''$OK:'', ''LED=1'' @ [CR, LF]])) \<and> \<not> ends_crlf (concat (take i [''$OK:'', ''LED=1'' @ [CR, LF]]))"
    by (auto simp: ends_crlf_def less_Suc_eq numeral_2_eq_2)
qed (simp_all add: ends_crlf_def)

lemma read_tries_timeouts:
  "1 < mr \<Longrightarrow> read_tries pre (\<lambda>_. Poll_timeout) (Suc n) tries mr [] = Some (ends_crlf pre, [], mr)"
proof (induction n arbitrary: tries)
  case (Suc n)
  show ?case
    using Suc.IH [OF Suc.prems, of "Suc tries"] Suc.prems
    by (subst read_tries.simps) (auto simp: serial_read_timeout_def Let_def simp del: read_tries.simps)
qed (simp add: serial_read_timeout_def Let_def)

text \<open>
  With a device that says nothing, the tests for the end read the two bytes before the buffer, and what is
  returned depends on them.
\<close>

theorem serial_line_outside:
  "serial_read_line [CR, LF] (\<lambda>_. Poll_timeout) = (0, Some [], False)"
  "\<not> ends_crlf pre \<Longrightarrow> serial_read_line pre (\<lambda>_. Poll_timeout) = (-1, None, False)"
proof -
  have "read_tries p (\<lambda>_. Poll_timeout) 5 0 MAX_READ [] = Some (ends_crlf p, [], MAX_READ)" for p
    using read_tries_timeouts [of MAX_READ p 4 0] by simp
  then show "serial_read_line [CR, LF] (\<lambda>_. Poll_timeout) = (0, Some [], False)"
    "\<not> ends_crlf pre \<Longrightarrow> serial_read_line pre (\<lambda>_. Poll_timeout) = (-1, None, False)"
    by (simp_all add: serial_read_line_def ends_crlf_def c_string_def)
qed

section \<open>Starting\<close>

lemma only_first_port_starts0: "init_usb_status k \<noteq> None \<longleftrightarrow> k = 0"
proof -
  have "list_all (\<lambda>i. get_stty_device_name (i + k) \<noteq> None) [0..<MAX_USB_CONNECTIONS] \<longleftrightarrow> (\<forall>i<6. i + k < 6)"
    by (auto simp: get_stty_device_name_def list_all_iff)
  also have "\<dots> \<longleftrightarrow> k = 0" by (auto dest: spec [of _ 5])
  finally show ?thesis by (simp add: init_usb_status_def)
qed

text \<open>The configuration allows a first port from 0 to 9; with any but 0 the program ends.\<close>

theorem only_first_port_starts: "init_usb_status k \<noteq> None \<longleftrightarrow> k = 0"
  by (rule only_first_port_starts0)

section \<open>The counter of connected ports\<close>

definition usb_ok :: "usb \<Rightarrow> bool" where
  "usb_ok u \<longleftrightarrow> length (usb_conn_status u) = MAX_USB_CONNECTIONS
     \<and> num_usb_connections u = length (filter is_connected (usb_conn_status u))
     \<and> (\<forall>p\<in>set (usb_conn_status u). plain_text (stty_device_name p))"

lemma usb_ok_bound: "usb_ok u \<Longrightarrow> num_usb_connections u \<le> MAX_USB_CONNECTIONS"
  unfolding usb_ok_def by (metis length_filter_le)

lemma filter_upd:
  assumes "i < length xs"
  shows "length (filter P (xs[i := x])) + (if P (xs ! i) then 1 else 0) = length (filter P xs) + (if P x then 1 else 0)"
  using assms
proof (induction xs arbitrary: i)
  case (Cons y xs)
  show ?case
  proof (cases i)
    case (Suc j)
    then have "j < length xs" using Cons.prems by simp
    from Cons.IH [OF this] show ?thesis using Suc by (cases "P y") simp_all
  qed simp
qed simp

lemma names_upd:
  assumes "usb_ok u" and "i < MAX_USB_CONNECTIONS" and "stty_device_name x = stty_device_name (usb_conn_status u ! i)"
  shows "\<forall>p\<in>set ((usb_conn_status u)[i := x]). plain_text (stty_device_name p)"
proof -
  have "usb_conn_status u ! i \<in> set (usb_conn_status u)" using assms(1,2) by (intro nth_mem) (simp add: usb_ok_def)
  then show ?thesis using assms unfolding usb_ok_def by (auto dest!: set_update_subset_insert [THEN subsetD])
qed

lemma usb_ok_upd:
  assumes "usb_ok u" and "i < MAX_USB_CONNECTIONS"
    and "\<And>p. is_connected (f p) = is_connected p" and "\<And>p. stty_device_name (f p) = stty_device_name p"
  shows "usb_ok (upd_port i f u)"
  using filter_upd [of i "usb_conn_status u" is_connected "f (usb_conn_status u ! i)"] assms
    names_upd [OF assms(1,2), of "f (usb_conn_status u ! i)"]
  unfolding usb_ok_def by (auto split: if_splits)

lemma usb_ok_update:
  assumes "usb_ok u" and "i < MAX_USB_CONNECTIONS"
  shows "usb_ok (update_usb_stat now i conn u)"
proof -
  let ?p = "usb_conn_status u ! i"
  have n: "num_usb_connections u \<le> 6" using usb_ok_bound [OF assms(1)] by simp
  have i: "i < length (usb_conn_status u)" using assms by (simp add: usb_ok_def)
  note f = filter_upd [OF i, of is_connected]
  consider (same) "update_usb_stat now i conn u = u"
    | (more) "\<not> is_connected ?p" "update_usb_stat now i conn u =
        (upd_port i (\<lambda>p. p\<lparr> is_connected := True, usb_ts := now \<rparr>) u)\<lparr> num_usb_connections := (num_usb_connections u + 1) mod SIZE_MOD \<rparr>"
    | (less) "is_connected ?p" "update_usb_stat now i conn u =
        (upd_port i (\<lambda>p. p\<lparr> is_attached := False, is_connected := False, device_id := 0, usb_ts := 0 \<rparr>) u)
          \<lparr> num_usb_connections := (num_usb_connections u + (SIZE_MOD - 1)) mod SIZE_MOD \<rparr>"
    | (detach) "update_usb_stat now i conn u = upd_port i (\<lambda>p. p\<lparr> is_attached := False \<rparr>) u"
    by (cases conn; cases "is_connected ?p"; cases "is_attached ?p") (auto simp only: update_usb_stat_def Let_def if_True if_False)
  then show ?thesis
  proof cases
    case same
    then show ?thesis using assms(1) by simp
  next
    case more
    have "(num_usb_connections u + 1) mod SIZE_MOD = num_usb_connections u + 1"
      using n by (intro mod_less) (simp add: SIZE_MOD_def)
    then show ?thesis
      using more f [of "?p\<lparr> is_connected := True, usb_ts := now \<rparr>"] assms(1)
        names_upd [OF assms, of "?p\<lparr> is_connected := True, usb_ts := now \<rparr>"] by (simp add: usb_ok_def)
  next
    case less
    have "filter is_connected (usb_conn_status u) \<noteq> []" using less(1) i by (auto simp: filter_empty_conv dest: nth_mem)
    then have pos: "0 < num_usb_connections u" using assms(1) by (simp add: usb_ok_def)
    have "(num_usb_connections u + (SIZE_MOD - 1)) mod SIZE_MOD = num_usb_connections u - 1"
      using size_pred [of "num_usb_connections u"] pos n by (simp add: SIZE_MOD_def)
    then show ?thesis
      using less f [of "?p\<lparr> is_attached := False, is_connected := False, device_id := 0, usb_ts := 0 \<rparr>"] assms(1)
        names_upd [OF assms, of "?p\<lparr> is_attached := False, is_connected := False, device_id := 0, usb_ts := 0 \<rparr>"]
      by (simp add: usb_ok_def)
  next
    case detach
    then show ?thesis using usb_ok_upd [OF assms, of "\<lambda>p. p\<lparr> is_attached := False \<rparr>"] by simp
  qed
qed

definition watcher_ok :: "watcher \<Rightarrow> bool" where
  "watcher_ok w \<longleftrightarrow> usb_ok (w_usb w) \<and> length (w_thread_id w) = MAX_USB_CONNECTIONS
     \<and> (\<forall>t\<in>set (w_threads w). t_port t < MAX_USB_CONNECTIONS \<and> (\<forall>n. t_phase t = T_wait n \<longrightarrow> n \<le> 2))
     \<and> (\<forall>k\<in>set (w_thread_id w). \<forall>i. k = Some i \<longrightarrow> i < length (w_threads w))"

lemma watcher_ok_thread_step:
  assumes "watcher_ok w" and "k < length (w_threads w)"
    and "\<And>i u. i < MAX_USB_CONNECTIONS \<Longrightarrow> usb_ok u \<Longrightarrow> usb_ok (f i u)" and "\<And>n. ph = T_wait n \<Longrightarrow> n \<le> 2"
  shows "watcher_ok (thread_step k ph f w)"
proof -
  have "t_port (w_threads w ! k) < MAX_USB_CONNECTIONS" using assms(1,2) by (simp add: watcher_ok_def)
  then show ?thesis
    using assms unfolding watcher_ok_def thread_step_def
    by (auto dest!: set_update_subset_insert [THEN subsetD])
qed

lemma watcher_ok_deleted:
  assumes "watcher_ok w" and "j < MAX_USB_CONNECTIONS"
  shows "watcher_ok (usb_deleted j w)"
proof -
  have ok: "watcher_ok (v\<lparr> w_usb := update_usb_stat 0 j False (w_usb v) \<rparr>)" if "watcher_ok v" for v
    using that usb_ok_update [OF _ assms(2)] by (simp add: watcher_ok_def)
  have ended: "watcher_ok (w\<lparr> w_threads := (w_threads w)[k := (w_threads w ! k)\<lparr> t_phase := T_ended \<rparr>] \<rparr>)"
    if "w_thread_id w ! j = Some k" for k
  proof -
    have "Some k \<in> set (w_thread_id w)" using assms that nth_mem [of j "w_thread_id w"] by (simp add: watcher_ok_def)
    then have "k < length (w_threads w)" using assms(1) by (auto simp: watcher_ok_def)
    from watcher_ok_thread_step [OF assms(1) this, of "\<lambda>i u. u" T_ended] show ?thesis by (simp add: thread_step_def)
  qed
  have cleared: "watcher_ok (v\<lparr> w_thread_id := (w_thread_id v)[j := None] \<rparr>)" if "watcher_ok v" for v
    using that unfolding watcher_ok_def by (auto dest!: set_update_subset_insert [THEN subsetD])
  have stale: "watcher_ok (w\<lparr> w_stale := True \<rparr>)" using assms(1) by (simp add: watcher_ok_def)
  let ?p = "usb_conn_status (w_usb w) ! j"
  define w1 where "w1 = (if is_attached ?p \<and> \<not> is_connected ?p then
      (case w_thread_id w ! j of
         None \<Rightarrow> w\<lparr> w_stale := True \<rparr>
       | Some k \<Rightarrow>
           (if t_phase (w_threads w ! k) = T_ended then w\<lparr> w_stale := True \<rparr>
            else w\<lparr> w_threads := (w_threads w)[k := (w_threads w ! k)\<lparr> t_phase := T_ended \<rparr>] \<rparr>)
           \<lparr> w_thread_id := (w_thread_id w)[j := None] \<rparr>)
    else w)"
  have "watcher_ok w1"
    unfolding w1_def using assms(1) cleared [OF ended] cleared [OF stale] stale by (auto split: option.splits)
  then show ?thesis unfolding usb_deleted_def Let_def w1_def [symmetric] by (rule ok)
qed

lemma usb_step_ok: "usb_step w w' \<Longrightarrow> watcher_ok w \<Longrightarrow> watcher_ok w'"
proof (induction rule: usb_step.induct)
  case (create j w)
  then show ?case
    unfolding watcher_ok_def usb_created_def by (auto dest!: set_update_subset_insert [THEN subsetD])
next
  case (delete j w)
  then show ?case by (rule watcher_ok_deleted [rotated])
next
  case (begin_thread k w)
  then show ?case by (intro watcher_ok_thread_step usb_ok_upd) auto
next
  case (query_fails k w n)
  then show ?case by (intro watcher_ok_thread_step) (auto split: if_splits)
next
  case (query_answers k w n dev)
  then show ?case by (intro watcher_ok_thread_step usb_ok_upd) auto
next
  case (established k w now)
  then show ?case by (intro watcher_ok_thread_step usb_ok_update) auto
qed

lemma init_usb_ports:
  "init_usb_status 0 = Some u \<Longrightarrow> \<forall>p\<in>set (usb_conn_status u). \<not> is_connected p \<and> plain_text (stty_device_name p)"
  by (auto simp: init_usb_status_def get_stty_device_name_def simp del: take_append take_Cons_numeral
     intro!: plain_text_take split: if_splits)

lemma init_usb_ok: "init_usb_status 0 = Some u \<Longrightarrow> usb_ok u"
  using init_usb_ports [of u]
  by (auto simp: init_usb_status_def usb_ok_def filter_empty_conv split: if_splits)

lemma usb_reach_ok:
  assumes "init_usb_status 0 = Some u" and "usb_reach u w"
  shows "watcher_ok w"
  using assms(2)
proof induction
  case start
  then show ?case using init_usb_ok [OF assms(1)] by (simp add: watcher_ok_def init_watcher_def)
next
  case (step w w')
  then show ?case using usb_step_ok by blast
qed

text \<open>
  When each update of the table with its counter is one step (the code takes no lock around it, so two updates may
  also overlap), in every interleaving of the watcher with the threads that establish a connection, in which ports
  appear, disappear, answer and do not answer, the counter is the number of connected ports, so it never
  wraps around, and no thread asks a device more than three times.
\<close>

theorem usb_counter_invariant:
  assumes "init_usb_status 0 = Some u" and "usb_reach u w"
  shows "num_usb_connections (w_usb w) = length (filter is_connected (usb_conn_status (w_usb w)))
    \<and> num_usb_connections (w_usb w) \<le> MAX_USB_CONNECTIONS
    \<and> (\<forall>t\<in>set (w_threads w). t_port t < MAX_USB_CONNECTIONS \<and> (\<forall>n. t_phase t = T_wait n \<longrightarrow> n \<le> 2))"
  using usb_reach_ok [OF assms] usb_ok_bound [of "w_usb w"] by (auto simp: watcher_ok_def usb_ok_def)

definition first_usb :: usb where "first_usb = the (init_usb_status 0)"

lemma first_usb: "init_usb_status 0 = Some first_usb"
  using only_first_port_starts0 by (auto simp: first_usb_def)

text \<open>A device is plugged in at port 0 and answers, as an example of a run.\<close>

definition plugged :: "u32 \<Rightarrow> watcher" where
  "plugged dev =
     thread_step 0 T_ended (\<lambda>i. update_usb_stat 1400000000 i True)
      (thread_step 0 T_answered (\<lambda>i. upd_port i (\<lambda>p. p\<lparr> device_id := dev \<rparr>))
        (thread_step 0 (T_wait 0) (\<lambda>i. upd_port i (\<lambda>p. p\<lparr> is_attached := True \<rparr>))
          (usb_created 0 (init_watcher first_usb))))"

lemma plugged_reach: "usb_reach first_usb (plugged dev)"
proof -
  let ?w1 = "usb_created 0 (init_watcher first_usb)"
  have t1: "w_threads ?w1 = [\<lparr> t_port = 0, t_phase = T_new \<rparr>]" by (simp add: usb_created_def init_watcher_def)
  have 1: "usb_reach first_usb ?w1" by (rule usb_reach.step [OF usb_reach.start usb_step.create]) simp
  let ?w2 = "thread_step 0 (T_wait 0) (\<lambda>i. upd_port i (\<lambda>p. p\<lparr> is_attached := True \<rparr>)) ?w1"
  have t2: "w_threads ?w2 = [\<lparr> t_port = 0, t_phase = T_wait 0 \<rparr>]" by (simp add: thread_step_def t1)
  have 2: "usb_reach first_usb ?w2" by (rule usb_reach.step [OF 1 usb_step.begin_thread]) (simp_all add: t1)
  let ?w3 = "thread_step 0 T_answered (\<lambda>i. upd_port i (\<lambda>p. p\<lparr> device_id := dev \<rparr>)) ?w2"
  have t3: "w_threads ?w3 = [\<lparr> t_port = 0, t_phase = T_answered \<rparr>]"
    unfolding thread_step_def [of 0 T_answered] by (simp add: t2)
  have 3: "usb_reach first_usb ?w3" by (rule usb_reach.step [OF 2 usb_step.query_answers]) (simp_all add: t2)
  show ?thesis unfolding plugged_def by (rule usb_reach.step [OF 3 usb_step.established]) (simp_all add: t3)
qed

theorem usb_counter_invariant_witness:
  "num_usb_connections (w_usb (plugged 3000000001))
     = length (filter is_connected (usb_conn_status (w_usb (plugged 3000000001))))"
  using usb_counter_invariant [OF first_usb plugged_reach] by blast

text \<open>A thread that gave up is cancelled: its identifier means nothing any more.\<close>

definition given_up :: watcher where
  "given_up =
     thread_step 0 T_ended (\<lambda>i u. u) (thread_step 0 (T_wait 2) (\<lambda>i u. u) (thread_step 0 (T_wait 1) (\<lambda>i u. u)
        (thread_step 0 (T_wait 0) (\<lambda>i. upd_port i (\<lambda>p. p\<lparr> is_attached := True \<rparr>))
          (usb_created 0 (init_watcher first_usb)))))"

lemma given_up_reach: "usb_reach first_usb given_up"
proof -
  let ?w1 = "usb_created 0 (init_watcher first_usb)"
  have t1: "w_threads ?w1 = [\<lparr> t_port = 0, t_phase = T_new \<rparr>]" by (simp add: usb_created_def init_watcher_def)
  have 1: "usb_reach first_usb ?w1" by (rule usb_reach.step [OF usb_reach.start usb_step.create]) simp
  let ?w2 = "thread_step 0 (T_wait 0) (\<lambda>i. upd_port i (\<lambda>p. p\<lparr> is_attached := True \<rparr>)) ?w1"
  have t2: "w_threads ?w2 = [\<lparr> t_port = 0, t_phase = T_wait 0 \<rparr>]" by (simp add: thread_step_def t1)
  have 2: "usb_reach first_usb ?w2" by (rule usb_reach.step [OF 1 usb_step.begin_thread]) (simp_all add: t1)
  have fail: "usb_reach first_usb (thread_step 0 (if n < 2 then T_wait (Suc n) else T_ended) (\<lambda>i u. u) w)
      \<and> w_threads (thread_step 0 (if n < 2 then T_wait (Suc n) else T_ended) (\<lambda>i u. u) w)
          = [\<lparr> t_port = 0, t_phase = if n < 2 then T_wait (Suc n) else T_ended \<rparr>]"
    if "usb_reach first_usb w" "w_threads w = [\<lparr> t_port = 0, t_phase = T_wait n \<rparr>]" for w n
    using usb_reach.step [OF that(1) usb_step.query_fails [of 0 w n]] that(2) by (simp add: thread_step_def)
  from fail [OF 2 t2] have 3: "usb_reach first_usb (thread_step 0 (T_wait 1) (\<lambda>i u. u) ?w2)"
    "w_threads (thread_step 0 (T_wait 1) (\<lambda>i u. u) ?w2) = [\<lparr> t_port = 0, t_phase = T_wait 1 \<rparr>]" by simp_all
  from fail [OF 3] have 4: "usb_reach first_usb (thread_step 0 (T_wait 2) (\<lambda>i u. u) (thread_step 0 (T_wait 1) (\<lambda>i u. u) ?w2))"
    "w_threads (thread_step 0 (T_wait 2) (\<lambda>i u. u) (thread_step 0 (T_wait 1) (\<lambda>i u. u) ?w2)) = [\<lparr> t_port = 0, t_phase = T_wait 2 \<rparr>]"
    by (simp_all add: numeral_2_eq_2)
  from fail [OF 4] show ?thesis by (simp add: given_up_def)
qed

theorem stale_thread_cancelled: "usb_reach first_usb (usb_deleted 0 given_up) \<and> w_stale (usb_deleted 0 given_up)"
proof
  show "usb_reach first_usb (usb_deleted 0 given_up)"
    by (rule usb_reach.step [OF given_up_reach usb_step.delete]) simp
  have "usb_ok first_usb" using init_usb_ok [OF first_usb] .
  then have len: "length (usb_conn_status first_usb) = 6" by (simp add: usb_ok_def)
  have "\<not> is_connected (usb_conn_status first_usb ! 0)"
  proof -
    have "\<forall>p\<in>set (usb_conn_status first_usb). \<not> is_connected p"
      using init_usb_ports [OF first_usb] by blast
    then show ?thesis using len nth_mem [of 0 "usb_conn_status first_usb"] by simp
  qed
  then show "w_stale (usb_deleted 0 given_up)"
    using len by (simp add: usb_deleted_def given_up_def thread_step_def usb_created_def init_watcher_def Let_def)
qed

section \<open>The listing of the ports\<close>

lemma plain_dev_basename: "plain_text s \<Longrightarrow> plain_text (dev_basename s)"
  unfolding dev_basename_def by (rule plain_text_sub) (auto dest: set_takeWhileD)

lemma usb_row_short:
  assumes "plain_text (stty_device_name p)" and "r \<in> set (usb_row lt cli i p)"
  shows "length r = 4 \<and> (\<forall>s\<in>set r. short_text s)"
proof -
  let ?nm = "dev_basename (stty_device_name p)"
  have s: "short_text (snprintf 32 ('' '' @ dec_pad 2 i @ '' ''))"
    "short_text (snprintf 32 ('' '' @ [star b] @ ?nm @ '' ''))" "short_text (snprintf 32 ('' '' @ ?nm @ '' ''))"
    "short_text (snprintf 32 ('' '' @ dec n @ '' ''))" "short_text '' connecting ... ''" "short_text []" for b n
    by (rule short_take; simp add: plain_dev_basename [OF assms(1)] star_def | rule short_plain; simp)+
  show ?thesis
    using assms(2) short_conn_time [of lt "usb_ts p"] s
    by (simp only: usb_row_def Let_def set_simps split: if_splits) (auto simp only: list.size ball_simps set_simps)
qed

lemma list_usb_rows_short:
  assumes "usb_ok u" and "r \<in> set (list_usb_rows lt cli u)"
  shows "length r = 4 \<and> (\<forall>s\<in>set r. short_text s)"
proof -
  have h: "length r = 4 \<and> (\<forall>s\<in>set r. short_text s)"
    if "r \<in> {['' # '', ''  USB  '', ''  Conn. Time  '', ''  Dev ID  ''], replicate 4 '' ''}" for r
    using that by (auto simp: numeral_eq_Suc intro!: short_plain)
  show ?thesis
  proof (cases "r \<in> {['' # '', ''  USB  '', ''  Conn. Time  '', ''  Dev ID  ''], replicate 4 '' ''}")
    case False
    then obtain i where i: "i < 6" "r \<in> set (usb_row lt cli i (usb_conn_status u ! i))"
      using assms(2) by (auto simp: list_usb_rows_def or_empty_row_def split: if_splits)
    have "usb_conn_status u ! i \<in> set (usb_conn_status u)" using assms(1) i(1) by (intro nth_mem) (simp add: usb_ok_def)
    then show ?thesis using usb_row_short [OF _ i(2)] assms(1) by (auto simp: usb_ok_def)
  qed (use h in blast)
qed

lemma list_usb_rows_length: "2 \<le> length (list_usb_rows lt cli u) \<and> length (list_usb_rows lt cli u) \<le> 7"
proof -
  have one: "length (usb_row lt cli i p) \<le> 1" for i p by (simp add: usb_row_def Let_def)
  have "length (concat (map (\<lambda>i. usb_row lt cli i (usb_conn_status u ! i)) xs)) \<le> length xs" for xs
  proof (induction xs)
    case (Cons i xs)
    then show ?case using one [of i "usb_conn_status u ! i"] by simp
  qed simp
  from this [of "[0..<6]"] show ?thesis
    by (cases "concat (map (\<lambda>i. usb_row lt cli i (usb_conn_status u ! i)) [0..<6])")
      (auto simp: list_usb_rows_def or_empty_row_def)
qed

text \<open>
  The command that lists the USB ports answers, in every state the program can reach, with lines of equal
  width; each port with an established connection has a line with its number, the time of the connection
  and the id of its device.
\<close>

theorem usb_ports_listed:
  assumes "init_usb_status 0 = Some u" and "usb_reach u w"
  shows "\<exists>ls t. list_usb_stat lt wr cutpad (w_usb w) cli = Some (Inr (wr (lines_text ls), t, lines_text ls))
     \<and> shows_rows (list_usb_rows lt cli (w_usb w)) ls
     \<and> (\<forall>i<MAX_USB_CONNECTIONS. let p = usb_conn_status (w_usb w) ! i in
          is_usb_connected (w_usb w) (int i) \<longrightarrow>
            (\<exists>l\<in>set ls. has_text l ('' '' @ dec_pad 2 i @ '' '') \<and> has_text l (conn_time lt (usb_ts p))
              \<and> has_text l ('' '' @ dec (unat (device_id p)) @ '' '')))"
proof -
  let ?u = "w_usb w" and ?rows = "list_usb_rows lt cli (w_usb w)"
  have ok: "usb_ok ?u" using usb_reach_ok [OF assms] by (simp add: watcher_ok_def)
  have len: "2 \<le> length ?rows" "length ?rows \<le> 7" using list_usb_rows_length by auto
  have fit: "(4 * length ?rows + 4) * (2048 * 4 + 5) + 10 * length ?rows + 2 < MAXSTROKEBUFF" using len(2) by simp
  have drawn: "\<exists>ls t. shows_rows ?rows ls \<and>
      stroke_listing wr cutpad prep style 4 ?rows = Some (Inr (wr (lines_text ls), t, lines_text ls))"
    if "keeps_texts prep" for prep style
    by (rule stroke_listing_shown [OF that len(1) _ _ _ _ fit]) (use list_usb_rows_short [OF ok] in auto)
  obtain ls t where ls: "shows_rows ?rows ls"
    "list_usb_stat lt wr cutpad ?u cli = Some (Inr (wr (lines_text ls), t, lines_text ls))"
    using drawn [OF keeps_texts_comp [OF keeps_texts_interior keeps_texts_center]] drawn [OF keeps_texts_center]
    by (cases "use_unicode_table cli") (fastforce simp: list_usb_stat_def)+
  have "\<exists>l\<in>set ls. has_text l ('' '' @ dec_pad 2 i @ '' '') \<and> has_text l (conn_time lt (usb_ts (usb_conn_status ?u ! i)))
      \<and> has_text l ('' '' @ dec (unat (device_id (usb_conn_status ?u ! i))) @ '' '')"
    if i: "i < 6" and c: "is_usb_connected ?u (int i)" for i
  proof -
    let ?p = "usb_conn_status ?u ! i"
    have p: "is_connected ?p" "device_id ?p \<noteq> 0" using c by (simp_all add: is_usb_connected_def)
    have l1: "snprintf 32 ('' '' @ dec_pad 2 i @ '' '') = '' '' @ dec_pad 2 i @ '' ''"
      using i length_dec_pad [of 2 i] by simp
    have "unat (device_id ?p) < 10 ^ 10" proof -
      have "unat (device_id ?p) < 2 ^ 32" using unsigned_less [of "device_id ?p"] by simp
      then show ?thesis by simp
    qed
    then have l2: "snprintf 32 ('' '' @ dec (unat (device_id ?p)) @ '' '') = '' '' @ dec (unat (device_id ?p)) @ '' ''"
      using length_dec_less [of 10 "unat (device_id ?p)"] by simp
    obtain b where "['' '' @ dec_pad 2 i @ '' '', b, conn_time lt (usb_ts ?p), '' '' @ dec (unat (device_id ?p)) @ '' '']
        \<in> set (usb_row lt cli i ?p)"
      using p unfolding usb_row_def Let_def l1 l2 by simp
    moreover have "set (usb_row lt cli i ?p) \<subseteq> set ?rows"
      using i by (auto simp: list_usb_rows_def or_empty_row_def)
    ultimately show ?thesis using ls(1) unfolding shows_rows_def by (meson list.set_intros subsetD)
  qed
  with ls show ?thesis unfolding Let_def by blast
qed

lemma plugged_connected: "is_usb_connected (w_usb (plugged 3000000001)) 0"
proof -
  have len: "length (usb_conn_status first_usb) = 6" and
    n: "num_usb_connections first_usb = length (filter is_connected (usb_conn_status first_usb))"
    using init_usb_ok [OF first_usb] by (simp_all add: usb_ok_def)
  have none: "\<forall>p\<in>set (usb_conn_status first_usb). \<not> is_connected p" using init_usb_ports [OF first_usb] by blast
  then have "\<not> is_connected (usb_conn_status first_usb ! 0)" using len by simp
  moreover have "num_usb_connections first_usb = 0" using n none by simp
  ultimately show ?thesis
    using len by (simp add: plugged_def thread_step_def usb_created_def init_watcher_def update_usb_stat_def
        is_usb_connected_def Let_def SIZE_MOD_def)
qed

theorem usb_ports_listed_witness:
  "\<exists>ls t. list_usb_stat (\<lambda>_. (2014, 5, 13, 16, 53, 20)) (\<lambda>s. int (length s)) False (w_usb (plugged 3000000001)) sample_client
       = Some (Inr (int (length (lines_text ls)), t, lines_text ls))
     \<and> (\<exists>l\<in>set ls. has_text l ('' '' @ dec_pad 2 0 @ '' ''))"
proof -
  have i: "(0::nat) < 6" by (rule zero_less_numeral)
  have c: "is_usb_connected (w_usb (plugged 3000000001)) (int 0)" using plugged_connected by simp
  from usb_ports_listed [OF first_usb plugged_reach, of "\<lambda>_. (2014, 5, 13, 16, 53, 20)" "\<lambda>s. int (length s)" False
      3000000001 sample_client, unfolded Let_def] i c
  show ?thesis by blast
qed

end
