(* ===== verification/Nicks.thy ===== *)
theory Nicks
  imports Clients Listing
begin

text \<open>
  Nick names of devices (\<^verbatim>\<open>src/src/nicks.c\<close>), kept in a table of the SQLite data base. The data base is a
  parameter: \<open>exec\<close> takes its state and the text of a statement and gives the success of the statement, the
  rows of its result and the new state. The columns are \<^verbatim>\<open>NOT NULL\<close> in the schema, so a row is a list of
  texts. \<open>opened\<close> is the success of \<open>db_setup\<close>.
\<close>

section \<open>Rows\<close>

record nick_res_t =
  r_nick :: string
  r_devid :: string
  r_imei :: string
  r_sim :: string
  r_phone :: string
  r_fwver :: string
  r_regdate :: string
  r_upddate :: string

type_synonym 'd sql_exec = "'d \<Rightarrow> string \<Rightarrow> bool \<times> string list list \<times> 'd"

abbreviation (input) MAX_NICK_RES_SET :: nat where "MAX_NICK_RES_SET \<equiv> 100"
abbreviation (input) DB_TABLE_NICK :: string where "DB_TABLE_NICK \<equiv> ''tbl_device_nick''"

definition nick_of_row :: "string list \<Rightarrow> nick_res_t option" where
  "nick_of_row vals =
     (case map (\<lambda>(i, n). xmb_strncpy (vals ! i) n) [(0, 15), (1, 15), (2, 23), (3, 23), (4, 23), (5, 47), (6, 23), (7, 23)] of
        [Some a, Some b, Some c, Some d, Some e, Some f, Some g, Some h] \<Rightarrow>
          Some \<lparr> r_nick = a, r_devid = b, r_imei = c, r_sim = d, r_phone = e, r_fwver = f, r_regdate = g, r_upddate = h \<rparr>
      | _ \<Rightarrow> None)"

text \<open>
  The call-back for the rows of a result, in their order: what is in \<open>nick_res_set\<close> afterwards, and whether
  all rows were taken. SQLite stops with an error when the call-back does not return 0. The outer
  \<open>None\<close> is a text that \<open>xmb_strncpy\<close> reads outside of.
\<close>

fun update_nick_callback :: "nick_res_t list \<Rightarrow> string list list \<Rightarrow> (bool \<times> nick_res_t list) option" where
  "update_nick_callback rs [] = Some (True, rs)"
| "update_nick_callback rs (vals # rest) =
     (if MAX_NICK_RES_SET \<le> length rs then Some (False, rs)
      else case nick_of_row vals of None \<Rightarrow> None | Some r \<Rightarrow> update_nick_callback (rs @ [r]) rest)"

text \<open>A statement whose rows are read: its success, the rows, the new state.\<close>

definition nick_query :: "'d sql_exec \<Rightarrow> 'd \<Rightarrow> string \<Rightarrow> (bool \<times> nick_res_t list \<times> 'd) option" where
  "nick_query exec d q =
     (case exec d q of (sql_ok, rows, d') \<Rightarrow>
        if \<not> sql_ok then Some (False, [], d')
        else case update_nick_callback [] rows of
          None \<Rightarrow> None
        | Some (taken, rs) \<Rightarrow> Some (taken, rs, d'))"

section \<open>Statements\<close>

definition select_where :: "string \<Rightarrow> string" where
  "select_where cond = ''SELECT * FROM '' @ DB_TABLE_NICK @ '' WHERE '' @ cond"

definition sql_text :: "string \<Rightarrow> string" where
  "sql_text s = [CHR 0x27] @ s @ [CHR 0x27]"

definition by_imei :: "string \<Rightarrow> string" where "by_imei imei = select_where (''fld_imei='' @ imei @ '';'')"
definition by_devid :: "string \<Rightarrow> string" where "by_devid devid = select_where (''fld_devid='' @ devid)"
definition by_nick :: "string \<Rightarrow> string" where "by_nick nick = select_where (''fld_nick='' @ sql_text nick)"

definition nick_update_stmt ::
    "string \<Rightarrow> string \<Rightarrow> string \<Rightarrow> string \<Rightarrow> string \<Rightarrow> string \<Rightarrow> string \<Rightarrow> string" where
  "nick_update_stmt nick devid sim phone fwver currTime imei =
     ''UPDATE '' @ DB_TABLE_NICK @ '' SET fld_nick='' @ sql_text nick @ '',fld_devid='' @ devid @
     '',fld_sim='' @ sql_text sim @ '',fld_phone='' @ sql_text phone @ '',fld_fwver='' @ sql_text fwver @
     '',fld_upddate='' @ sql_text currTime @ '' WHERE fld_imei='' @ imei @ '';''"

definition nick_insert_stmt ::
    "string \<Rightarrow> string \<Rightarrow> string \<Rightarrow> string \<Rightarrow> string \<Rightarrow> string \<Rightarrow> string \<Rightarrow> string" where
  "nick_insert_stmt nick devid imei sim phone fwver currTime =
     ''INSERT INTO '' @ DB_TABLE_NICK @
     '' (fld_nick,fld_devid,fld_imei,fld_sim,fld_phone,fld_fwver,fld_regdate,fld_upddate) VALUES ('' @
     sql_text nick @ '','' @ devid @ '','' @ imei @ '','' @ sql_text sim @ '','' @ sql_text phone @ '','' @
     sql_text fwver @ '','' @ sql_text currTime @ '','' @ sql_text currTime @ '');''"

section \<open>Operations\<close>

text \<open>\<open>now\<close> is the local time as text, \<open>None\<close> when it cannot be found.\<close>

definition db_update_nick ::
    "'d sql_exec \<Rightarrow> bool \<Rightarrow> string option \<Rightarrow> 'd \<Rightarrow> string \<Rightarrow> string \<Rightarrow> string \<Rightarrow> string \<Rightarrow> string \<Rightarrow> string
     \<Rightarrow> (int \<times> 'd) option" where
  "db_update_nick exec opened now d nick devid imei sim phone fwver =
     (if \<not> opened then Some (-1, d)
      else if imei = [] then Some (-1, d)
      else case nick_query exec d (snprintf 2048 (by_imei imei)) of
        None \<Rightarrow> None
      | Some (sql_ok, rs, d1) \<Rightarrow>
          if \<not> sql_ok then Some (-1, d1)
          else case now of None \<Rightarrow> Some (-1, d1) | Some currTime \<Rightarrow>
            if rs \<noteq> [] then
              (if length rs = 1 then
                 let r = hd rs;
                     q = snprintf 2048 (nick_update_stmt (if nick \<noteq> [] then nick else r_nick r)
                           (if devid \<noteq> [] then devid else r_devid r) (if sim \<noteq> [] then sim else r_sim r)
                           (if phone \<noteq> [] then phone else r_phone r) (if fwver \<noteq> [] then fwver else r_fwver r)
                           currTime imei)
                 in (case exec d1 q of (sql_ok, _, d2) \<Rightarrow> Some (if sql_ok then 0 else -1, d2))
               else Some (0, d1))
            else if nick \<noteq> [] \<and> devid \<noteq> [] \<and> sim \<noteq> [] \<and> fwver \<noteq> [] then
              (case exec d1 (snprintf 2048 (nick_insert_stmt nick devid imei sim phone fwver currTime)) of
                 (sql_ok, _, d2) \<Rightarrow> Some (if sql_ok then 0 else -1, d2))
            else Some (-1, d1))"

text \<open>The single row of a query, cut to the buffer of the caller with \<open>f\<close> and \<open>n\<close>.\<close>

definition one_nick ::
    "(nick_res_t \<Rightarrow> string) \<Rightarrow> nat \<Rightarrow> (bool \<times> nick_res_t list \<times> 'd) option \<Rightarrow> (int \<times> string) option" where
  "one_nick f n res =
     (case res of None \<Rightarrow> None
      | Some (sql_ok, rs, _) \<Rightarrow>
          if \<not> sql_ok then Some (-1, [])
          else if length rs = 1 then map_option (\<lambda>s. (0, s)) (xmb_strncpy (f (hd rs)) n)
          else Some (-1, []))"

definition db_get_nick_from_devid :: "'d sql_exec \<Rightarrow> bool \<Rightarrow> 'd \<Rightarrow> string \<Rightarrow> (int \<times> string) option" where
  "db_get_nick_from_devid exec opened d devid =
     (if \<not> opened then Some (-1, []) else one_nick r_nick 12 (nick_query exec d (snprintf 512 (by_devid devid))))"

definition db_get_devid_from_nick :: "'d sql_exec \<Rightarrow> bool \<Rightarrow> 'd \<Rightarrow> string \<Rightarrow> (int \<times> string) option" where
  "db_get_devid_from_nick exec opened d nick =
     (if \<not> opened then Some (-1, []) else one_nick r_devid 10 (nick_query exec d (snprintf 512 (by_nick nick))))"

text \<open>The look-up of \<open>set_gprs_device_target_by_nickname\<close>.\<close>

definition nick_devid :: "'d sql_exec \<Rightarrow> bool \<Rightarrow> 'd \<Rightarrow> string \<Rightarrow> string option" where
  "nick_devid exec opened d nickname =
     (case db_get_devid_from_nick exec opened d nickname of
        None \<Rightarrow> None
      | Some (rc, devid) \<Rightarrow> if rc \<noteq> 0 then None else Some devid)"

text \<open>\<open>changes\<close> is \<open>sqlite3_changes\<close> after the statement.\<close>

definition db_delete_nick :: "'d sql_exec \<Rightarrow> ('d \<Rightarrow> int) \<Rightarrow> bool \<Rightarrow> 'd \<Rightarrow> string \<Rightarrow> (int \<times> 'd) option" where
  "db_delete_nick exec changes opened d nick =
     (if \<not> opened then Some (-1, d)
      else case nick_query exec d
             (snprintf 512 (''DELETE FROM '' @ DB_TABLE_NICK @ '' WHERE fld_nick='' @ sql_text nick @ '';'')) of
        None \<Rightarrow> None
      | Some (sql_ok, _, d') \<Rightarrow> Some (if \<not> sql_ok \<or> changes d' \<noteq> 1 then -1 else 0, d'))"

section \<open>The list\<close>

definition ljust :: "nat \<Rightarrow> string \<Rightarrow> string" where
  "ljust n s = s @ replicate (n - length s) (CHR '' '')"

definition hl1 :: string where "hl1 = replicate 130 (CHR ''-'') @ [LF]"
definition hl3 :: string where "hl3 = replicate 43 (CHR ''-'') @ [LF]"

definition nick_line0 :: "string \<Rightarrow> string list \<Rightarrow> string" where
  "nick_line0 nbr fs = ljust 3 nbr @ concat (map (\<lambda>(n, s). ljust n s) (zip [12, 11, 17, 21, 15, 21, 16, 16] fs)) @ [LF]"

definition nick_fields :: "nick_res_t \<Rightarrow> string list" where
  "nick_fields r = [r_nick r, r_devid r, r_imei r, r_sim r, r_phone r, r_fwver r, r_regdate r, r_upddate r]"

definition nick_post1 :: "nat \<Rightarrow> nick_res_t \<Rightarrow> string list" where
  "nick_post1 i r =
     [ljust 4 ''#'' @ ljust 12 ''NICK'' @ ljust 21 ''DEV.ID'' @ ljust 18 ''IMEI'' @ ljust 21 ''SIM'' @ [LF],
      dec_pad 2 (i + 1) @ ''  '' @ ljust 12 (r_nick r) @ ljust 21 (r_devid r) @ ljust 18 (r_imei r) @ ljust 21 (r_sim r) @ [LF, LF],
      ljust 16 ''PHONE'' @ ljust 21 ''FW.VER'' @ ljust 18 ''REG.DATE'' @ ljust 16 ''UPD.DATE'' @ [LF],
      ljust 16 (r_phone r) @ ljust 21 (r_fwver r) @ ljust 18 (r_regdate r) @ ljust 16 (r_upddate r) @ [LF]]"

definition nick_post2 :: "nat \<Rightarrow> nick_res_t \<Rightarrow> string" where
  "nick_post2 i r =
     hl3 @ ljust 10 ''#:'' @ dec_pad 2 (i + 1) @ [LF] @
     concat (map (\<lambda>(k, s). ljust 10 k @ s @ [LF])
       (zip [''NICK:'', ''DEV.ID:'', ''IMEI:'', ''SIM:'', ''PHONE:'', ''FW.VER:'', ''REG.DATE:'', ''UPD.DATE:''] (nick_fields r)))"

definition nick_post3 :: "nat \<Rightarrow> nick_res_t \<Rightarrow> string" where
  "nick_post3 i r = dec_pad 2 (i + 1) @ ''  '' @ ljust 12 (r_nick r) @ ljust 12 (r_devid r) @ ljust 18 (r_imei r) @ [LF]"

definition nick_list_texts :: "int \<Rightarrow> nick_res_t list \<Rightarrow> (string list) option" where
  "nick_list_texts listformat rs =
     (let rows = zip [0..<length rs] rs in
      if listformat = 0 then
        Some ((hl1 @ nick_line0 ''#'' [''NICK'', ''DEV.ID'', ''IMEI'', ''SIM'', ''PHONE'', ''FW.VER'', ''REG.DATE'', ''UPD.DATE''] @ hl1)
              # map (\<lambda>(i, r). nick_line0 (dec (i + 1)) (nick_fields r)) rows)
      else if listformat = 1 then Some (concat (map (\<lambda>(i, r). nick_post1 i r) rows))
      else if listformat = 2 then Some (map (\<lambda>(i, r). nick_post2 i r) rows)
      else if listformat = 3 then
        Some ((hl3 @ ljust 4 ''#'' @ ljust 12 ''NICK'' @ ljust 12 ''DEV.ID'' @ ljust 18 ''IMEI'' @ [LF] @ hl3)
              # map (\<lambda>(i, r). nick_post3 i r) rows)
      else None)"

definition db_get_nick_list ::
    "'d sql_exec \<Rightarrow> bool \<Rightarrow> 'd \<Rightarrow> int \<Rightarrow> string option \<Rightarrow> int \<Rightarrow> (int \<times> string list) option" where
  "db_get_nick_list exec opened d sockd imei listformat =
     (if \<not> opened then Some (-1, [])
      else case nick_query exec d (snprintf 512
                  (case imei of Some (c # i) \<Rightarrow> by_imei (c # i)
                   | _ \<Rightarrow> ''SELECT * FROM '' @ DB_TABLE_NICK @ '';'')) of
        None \<Rightarrow> None
      | Some (sql_ok, rs, _) \<Rightarrow>
          if \<not> sql_ok then Some (-1, [])
          else if rs = [] then Some (0, writef sockd ''[ERR] No nick names defined yet'')
          else case nick_list_texts listformat rs of
            Some texts \<Rightarrow> Some (0, concat (map (writef sockd) texts))
          | None \<Rightarrow> Some (-1, writef sockd (''[ERR] Unknown list format '' @ quoted_text (dec_int listformat))))"

section \<open>Rows that are read\<close>

definition row_text :: "string list \<Rightarrow> bool" where
  "row_text vals \<longleftrightarrow> length vals = 8 \<and> list_all ascii vals"

definition cut_row :: "string list \<Rightarrow> nick_res_t" where
  "cut_row v = \<lparr> r_nick = take 14 (v ! 0), r_devid = take 14 (v ! 1), r_imei = take 22 (v ! 2), r_sim = take 22 (v ! 3),
     r_phone = take 22 (v ! 4), r_fwver = take 46 (v ! 5), r_regdate = take 22 (v ! 6), r_upddate = take 22 (v ! 7) \<rparr>"

lemma nick_of_row_text: "row_text v \<Longrightarrow> nick_of_row v = Some (cut_row v)"
proof -
  assume v: "row_text v"
  then have "xmb_strncpy (v ! i) n = Some (take (n - 1) (v ! i))" if "i < 8" "0 < n" for i n
    using that by (intro xmb_strncpy_ascii) (auto simp: row_text_def list_all_length)
  then show ?thesis by (simp add: nick_of_row_def cut_row_def)
qed

lemma callback_rows:
  assumes "\<forall>v\<in>set rows. row_text v" and "length rs + length rows \<le> MAX_NICK_RES_SET"
  shows "update_nick_callback rs rows = Some (True, rs @ map cut_row rows)"
  using assms by (induction rows arbitrary: rs) (auto simp: nick_of_row_text)

lemma callback_full:
  assumes "\<forall>v\<in>set rows. row_text v" and "length rs \<le> MAX_NICK_RES_SET" and "MAX_NICK_RES_SET < length rs + length rows"
  shows "\<exists>rs'. update_nick_callback rs rows = Some (False, rs')"
  using assms by (induction rows arbitrary: rs) (auto simp: nick_of_row_text)

lemma nick_query_rows:
  assumes "exec d q = (True, rows, d')" and "\<forall>v\<in>set rows. row_text v" and "length rows \<le> MAX_NICK_RES_SET"
  shows "nick_query exec d q = Some (True, map cut_row rows, d')"
  using callback_rows [OF assms(2), of "[]"] assms(1,3) by (simp add: nick_query_def)

section \<open>Registering a nick name\<close>

lemma sql_stmt_length:
  "length (by_imei imei) = length imei + 46"
  "length (by_nick nick) = length nick + 47"
  by (simp_all add: by_imei_def by_nick_def select_where_def sql_text_def)

text \<open>
  Registering a nick name issues exactly one statement that changes the data base: for a device that is
  not in the table an \<^verbatim>\<open>INSERT\<close> with all values, provided that nick name, device id, SIM and firmware version
  are given; for a known device an \<^verbatim>\<open>UPDATE\<close> with the values that are given and the stored ones for those
  that are not. Its success is the result.
\<close>

theorem nick_registered:
  assumes "exec d (by_imei imei) = (True, rows, d1)" and "imei \<noteq> []" and "length imei < 100"
    and "rows = [] \<or> rows = [v] \<and> row_text v"
  shows "db_update_nick exec True (Some now) d nick devid imei sim phone fwver =
     (let given = (\<lambda>s old. if s = [] then old else s);
          stmt = (if rows = [] then nick_insert_stmt nick devid imei sim phone fwver now
                  else nick_update_stmt (given nick (take 14 (v ! 0))) (given devid (take 14 (v ! 1)))
                         (given sim (take 22 (v ! 3))) (given phone (take 22 (v ! 4))) (given fwver (take 46 (v ! 5)))
                         now imei)
      in if rows = [] \<and> (nick = [] \<or> devid = [] \<or> sim = [] \<or> fwver = []) then Some (-1, d1)
         else case exec d1 (snprintf 2048 stmt) of (sql_ok, _, d2) \<Rightarrow> Some (if sql_ok then 0 else -1, d2))"
proof -
  have q: "snprintf 2048 (by_imei imei) = by_imei imei" using assms(3) by (simp add: sql_stmt_length)
  have rows: "\<forall>v\<in>set rows. row_text v" "length rows \<le> MAX_NICK_RES_SET" using assms(4) by auto
  have nq: "nick_query exec d (snprintf 2048 (by_imei imei)) = Some (True, map cut_row rows, d1)"
    unfolding q by (rule nick_query_rows [where d' = d1]) (use assms(1) rows in auto)
  show ?thesis
  proof (cases "rows = []")
    case True
    then show ?thesis using assms(2) unfolding db_update_nick_def nq Let_def by (auto split: prod.splits)
  next
    case False
    then have r: "rows = [v]" using assms(4) by blast
    have cr: "r_nick (cut_row v) = take 14 (v ! 0)" "r_devid (cut_row v) = take 14 (v ! 1)"
      "r_sim (cut_row v) = take 22 (v ! 3)" "r_phone (cut_row v) = take 22 (v ! 4)" "r_fwver (cut_row v) = take 46 (v ! 5)"
      by (simp_all add: cut_row_def)
    show ?thesis
      using assms(2) unfolding db_update_nick_def nq Let_def r
      by (simp only: list.map list.distinct list.size if_True if_False not_Cons_self2 simp_thms option.case prod.case list.sel cr
          if_not_P if_P length_Cons list.size One_nat_def add_0 if_cancel if_distrib)
        (auto split: prod.splits)
  qed
qed

definition eg_row :: "string list" where
  "eg_row = [''bike'', ''3000000001'', ''352964052600039'', ''8946084400'', [], ''M7 2.005'', ''20140117 10:12'', ''20140117 10:12'']"

lemma eg_row_text: "row_text eg_row"
  by (simp add: row_text_def eg_row_def ascii_def)

text \<open>A data base that only logs the statements, with one device in it.\<close>

definition eg_exec :: "string list sql_exec" where
  "eg_exec d q = (True, if take 6 q = ''SELECT'' then [eg_row] else [], d @ [q])"

theorem nick_registered_witness:
  "\<exists>d. db_update_nick eg_exec True (Some ''20150101 08:00'') [] ''moped'' [] ''352964052600039'' [] ''070-1'' [] = Some (0, d)"
proof -
  have e: "eg_exec [] (by_imei ''352964052600039'') = (True, [eg_row], [by_imei ''352964052600039''])"
    by (simp add: eg_exec_def by_imei_def select_where_def)
  have r: "eg_exec d q \<noteq> (False, a, b)" for d q a b by (simp add: eg_exec_def)
  show ?thesis
    by (subst nick_registered [where exec = eg_exec and d = "[]" and imei = "''352964052600039''" and rows = "[eg_row]" and v = eg_row, OF e]) (use r in \<open>auto simp: eg_row_text Let_def split: prod.splits\<close>)
qed

section \<open>What the table cannot do\<close>

lemma dec_value_bound: "list_all is_digit s \<Longrightarrow> dec_value s < 10 ^ length s"
proof (induction s rule: rev_induct)
  case (snoc c s)
  then have "dec_value s < 10 ^ length s" "byte c - 48 < 10" by (auto simp: is_digit_def)
  then show ?case by simp
qed simp

lemma dec_value_pos: "list_all is_digit s \<Longrightarrow> s \<noteq> [] \<Longrightarrow> hd s \<noteq> CHR ''0'' \<Longrightarrow> 0 < dec_value s"
proof (induction s rule: rev_induct)
  case (snoc c s)
  show ?case
  proof (cases "s = []")
    case True
    then have "byte c \<noteq> byte (CHR ''0'')" using snoc.prems(3) by (simp only: byte_inject) simp
    then show ?thesis using True snoc.prems(1) by (simp add: is_digit_def dec_value_snoc [of "[]", simplified])
  next
    case False
    then show ?thesis using snoc by simp
  qed
qed simp

text \<open>
  A nick name never leads to its device: the id of a device has ten digits, \<^verbatim>\<open>db_get_devid_from_nick\<close>
  returns the first nine, and no connected device has this id. So \<^verbatim>\<open>.target nick-name\<close> says that the device is
  not yet connected, whatever devices are connected.
\<close>

theorem nick_device_not_found:
  assumes "exec d (by_nick nick) = (True, [v], d1)" and "row_text v" and "length nick < 400"
    and "list_all is_digit (v ! 1)" and "length (v ! 1) = 10" and "hd (v ! 1) \<noteq> CHR ''0''"
    and "\<forall>c\<in>set clients. cli_devid c = 0 \<or> 10 ^ 9 \<le> unat (cli_devid c)"
  shows "set_gprs_device_target_by_nickname (nick_devid exec True d) clients cli nick =
     (cli, -1, writef (cli_socket cli) (''[ERR] Device with nick '' @ nick @ '' (ID='' @ take 9 (v ! 1) @ '') is not yet connected''))"
proof -
  let ?id = "take 9 (v ! 1)"
  have q: "snprintf 512 (by_nick nick) = by_nick nick" using assms(3) by (simp add: sql_stmt_length)
  have nq: "nick_query exec d (snprintf 512 (by_nick nick)) = Some (True, map cut_row [v], d1)"
    unfolding q by (rule nick_query_rows [where d' = d1]) (use assms(1,2) in auto)
  have "ascii (v ! 1)" using assms(4) by (rule ascii_digits)
  then have x: "xmb_strncpy (v ! 1) 10 = Some ?id" by (simp add: xmb_strncpy_ascii)
  have "r_devid (cut_row v) = v ! 1" using assms(5) by (simp add: cut_row_def)
  then have id: "nick_devid exec True d nick = Some ?id"
    unfolding nick_devid_def db_get_devid_from_nick_def nq one_nick_def using x by simp
  have dg: "list_all is_digit ?id" "length ?id = 9"
    using assms(4,5) by (auto simp: list_all_iff dest: in_set_takeD)
  then have "?id \<noteq> []" by auto
  have pos: "0 < dec_value ?id"
    by (rule dec_value_pos [OF dg(1) \<open>?id \<noteq> []\<close>]) (use assms(5,6) in \<open>cases "v ! 1"; simp\<close>)
  have lt: "dec_value ?id < 10 ^ 9" using dec_value_bound [OF dg(1)] dg(2) by simp
  have xa: "xatol ?id = int (dec_value ?id)"
    using dg(1) \<open>?id \<noteq> []\<close> lt by (simp add: xatol_def strtol_all_digits LONG_MAX_def LONG_MIN_def)
  have u: "unat (word_of_int (xatol ?id) :: u32) = dec_value ?id"
  proof -
    have "dec_value ?id < 2 ^ 32" using lt by simp
    then show ?thesis unfolding xa by (simp add: unsigned_of_nat take_bit_eq_mod)
  qed
  have "\<not> (word_of_int (xatol ?id) :: u32) = cli_devid c" if "c \<in> set clients" for c
  proof
    assume "(word_of_int (xatol ?id) :: u32) = cli_devid c"
    then have "unat (cli_devid c) = dec_value ?id" using u by simp
    with bspec [OF assms(7) that] pos lt show False by auto
  qed
  then have "length clients \<le> find_idx (\<lambda>c. (word_of_int (xatol ?id) :: u32) = cli_devid c) clients"
    by (simp only: find_idx_ge_iff) blast
  then show ?thesis
    unfolding set_gprs_device_target_by_nickname_def Let_def id by simp
qed

theorem nick_device_not_found_witness:
  "set_gprs_device_target_by_nickname (nick_devid eg_exec True []) [sample_client, sample_device] sample_client ''bike'' =
     (sample_client, -1, writef (cli_socket sample_client)
        (''[ERR] Device with nick '' @ ''bike'' @ '' (ID='' @ take 9 (eg_row ! 1) @ '') is not yet connected''))"
  by (rule nick_device_not_found [where exec = eg_exec and d = "[]", OF _ eg_row_text])
    (simp_all add: eg_exec_def by_nick_def select_where_def eg_row_def is_digit_def sample_client_def sample_device_def)

text \<open>With more than a hundred nick names nothing is listed: the call-back stops SQLite with an error.\<close>

theorem many_nicks_not_listed:
  assumes "exec d (''SELECT * FROM '' @ DB_TABLE_NICK @ '';'') = (True, rows, d1)" and "\<forall>v\<in>set rows. row_text v"
    and "MAX_NICK_RES_SET < length rows"
  shows "db_get_nick_list exec True d sockd None listformat = Some (-1, [])"
proof -
  obtain rs where "update_nick_callback [] rows = Some (False, rs)"
    using callback_full [OF assms(2), of "[]"] assms(3) by auto
  then have "nick_query exec d (''SELECT * FROM '' @ DB_TABLE_NICK @ '';'') = Some (False, rs, d1)"
    using assms(1) by (simp add: nick_query_def)
  then show ?thesis by (simp add: db_get_nick_list_def)
qed

text \<open>
  The texts are put between quotes as they are. The firmware version comes from the device; with a quote in
  it the device can end the statement and add one of its own.
\<close>

theorem device_text_ends_statement:
  "\<exists>u w. nick_insert_stmt nick devid imei sim phone (''M7'' @ [CHR 0x27] @ '',0,0); DROP TABLE tbl_track;--'') now =
     u @ sql_text ''M7'' @ '',0,0); DROP TABLE tbl_track;--'' @ w"
proof (rule exI, rule exI)
  show "nick_insert_stmt nick devid imei sim phone (''M7'' @ [CHR 0x27] @ '',0,0); DROP TABLE tbl_track;--'') now =
     (''INSERT INTO '' @ DB_TABLE_NICK @
     '' (fld_nick,fld_devid,fld_imei,fld_sim,fld_phone,fld_fwver,fld_regdate,fld_upddate) VALUES ('' @
     sql_text nick @ '','' @ devid @ '','' @ imei @ '','' @ sql_text sim @ '','' @ sql_text phone @ '','') @
     sql_text ''M7'' @ '',0,0); DROP TABLE tbl_track;--'' @
     ([CHR 0x27] @ '','' @ sql_text now @ '','' @ sql_text now @ '');'')"
    by (simp only: nick_insert_stmt_def sql_text_def append_assoc append_Cons append_Nil)
qed

end
