(* ===== verification/Srvcmd.thy ===== *)
theory Srvcmd
  imports Usb Nicks Geoloc
begin

text \<open>
  The commands to the server itself, which begin with a dot (\<^verbatim>\<open>src/src/g7srvcmd.c\<close>): the lists of
  connections, choosing a target, nick names, the statistics of the caches, switches, help and the choice of
  the command by regular expression. PCRE, SQLite, the local time, the report writer and the texts of the
  build are arguments.
\<close>

section \<open>Help\<close>

text \<open>Command, description, synopsis, arguments, examples.\<close>

type_synonym srvcmd_help_t = "string \<times> string \<times> string \<times> string \<times> string"

definition srvcmd_help_list :: "srvcmd_help_t list" where
  "srvcmd_help_list = [
     (''lookup'',
      ''Toggle reverse lookup lookup from location before storing in database'',
      [],
      [],
      []),
     (''cachestat'',
      ''Print information about Geo location cache usage'',
      [],
      [],
      []),
     (''target'',
      ''Specify which target device to use to send commands to.'' @ [LF] @
       ''The target is specified as either the client number (as listed by '' @ [DQ] @ ''.lc'' @ [DQ] @ '' command)'' @ [LF] @
       ''or the nick name for the device. For this command to work the device must have an'' @ [LF] @
       ''established contact over GPRS'',
      ''[nnn|nick-name]'',
      ''nnn         - Client number (as listed by '' @ [DQ] @ ''.lc'' @ [DQ] @ [LF] @
       ''nick-name   - Nick name (must be defined)'',
      [DQ] @ ''.target 1'' @ [DQ] @ ''     - Use connected client 1 as recipient'' @ [LF] @
       [DQ] @ ''.target mycar'' @ [DQ] @ '' - Communicate to device with nick '' @ [DQ] @ ''mycar'' @ [DQ]),
     (''usb'',
      ''Specify which USB connected device to send commands to or list'' @ [LF] @
       ''or list the status of the defined USB ports.'' @ [LF] @
       ''The target is specified as the USB index (as listed by '' @ [DQ] @ ''.lc'' @ [DQ] @ '' command)'',
      ''[n]'',
      ''n         - USB index (as listed by '' @ [DQ] @ ''.lc'' @ [DQ],
      [DQ] @ ''.usb 1'' @ [DQ] @ ''     - Use connected client to USB 1 as recipient of commands'' @ [LF] @
       [DQ] @ ''.usb'' @ [DQ] @ ''       - List all USB ports''),
     (''ver'',
      ''Return daemon version'',
      [],
      [],
      []),
     (''lc'',
      ''List all connected command clients with their IP and connection time'',
      [],
      [],
      []),
     (''ld'',
      ''List all connected USB devices to the daemon both USB connections and GPRS connections'',
      [],
      [],
      []),
     (''dn'',
      ''Delete existing nick'',
      ''nick-name'',
      ''nick-name   - The name of the nick to delete'',
      []),
     (''nick'',
      ''Register a new nick name. The device to register must be connected to the USB port'',
      ''nick-name [phone-number]'',
      ''nick-name    - The nick name of the new device'' @ [LF] @
       ''phone-number - Optional. Registered phone number'',
      ''.nick MyCar 070-123 45 67''),
     (''ln'',
      ''List all registered nick names using the specified format. Defaults to format 2.'',
      ''[n]'',
      ''0   - Compressed. One record per line'' @ [LF] @
       ''1   - Semi-compressed. Four lines per record'' @ [LF] @
       ''2   - One field in record per line'',
      ''.nl 2''),
     (''ratereset'',
      ''Reset the 24h suspension on Google API calls due to excess usage'',
      [],
      [],
      ''.ratereset''),
     (''report'',
      ''Generate a PDF and JSON report for the current attached device'',
      ''filename [title]'',
      ''filename - Filename of the generated report (without the .pdf suffix)'' @ [LF] @
       ''[title] - The title as printed in the report header'',
      ''.report dev01 Motorcycle''),
     (''breport'',
      ''Generate a PDF and JSON basic report for the current attached device.'' @ [LF] @
       ''A basic report differs from the full report by excluding the geo-fence events'' @ [LF] @
       ''thus making the report much faster and requiring less data traffic.'',
      ''filename [title]'',
      ''filename - Filename of the generated report (without the .pdf suffix)'' @ [LF] @
       ''[title] - The title as printed in the report header'',
      ''.report dev01 Motorcycle''),
     (''freport'',
      ''Generate a report from the data in a file.'' @ [LF] @
       ''Same as the normal report but instead of reading the data from a device directly'' @ [LF] @
       ''the data is fetched from a JSON file. The file is read from <PDFREPORT_DIR>/export.json'' @ [LF] @
       ''where the report directory is specified in the configuration file.'',
      ''title'',
      ''[title] - The title as printed in the report header'',
      ''.report dev01 Motorcycle''),
     (''date'',
      ''Print server date and time'',
      [],
      [],
      ''.date''),
     (''table'',
      ''Switch between ASCII and Unicode box drawing characters for output tables'',
      [],
      [],
      ''.table'')]"

abbreviation (input) SIZE_10KB :: nat where "SIZE_10KB \<equiv> 10 * 1024"

definition writef_reply :: "int \<Rightarrow> string \<Rightarrow> string list" where
  "writef_reply fd txt = (if 0 \<le> fd then [snprintf SIZE_10KB txt] else [])"

definition writef_reply_err :: "int \<Rightarrow> int \<Rightarrow> string \<Rightarrow> string list" where
  "writef_reply_err fd errnum txt =
     (if 0 \<le> fd then [''[ERR='' @ dec_int errnum @ ''] '' @ snprintf SIZE_10KB txt] else [])"

definition help_text :: "srvcmd_help_t \<Rightarrow> string" where
  "help_text h =
     (case h of (cmd, desc, syn, arg, examples) \<Rightarrow>
        fold (\<lambda>txt b. fst (xvstrncat b SIZE_10KB txt))
          ([''.'' @ cmd @ '' - '' @ desc @ [LF, LF] @ ''SYNOPSIS:'' @ [LF] @ ''.'' @ cmd @ '' '' @ syn @ [LF, LF]] @
           (if arg \<noteq> [] then [''ARGUMENTS:'' @ [LF] @ arg @ [LF, LF]] else []) @
           [''EXAMPLES:'' @ [LF] @ examples @ [LF, LF]])
          [])"

definition srvcmd_help :: "client_info \<Rightarrow> string list \<Rightarrow> string list" where
  "srvcmd_help cli field =
     (case find (\<lambda>h. strcmp (fst h) (field ! 1) = 0) srvcmd_help_list of
        Some h \<Rightarrow> writef_reply (cli_socket cli) (help_text h)
      | None \<Rightarrow> writef_reply_err (cli_socket cli) (-1) (quoted_text (field ! 1) @ '' is not a valid server command.'' @ [LF]))"

section \<open>Lists of connections\<close>

abbreviation (input) FILTER_CMD_CONNECTIONS :: int where "FILTER_CMD_CONNECTIONS \<equiv> 1"
abbreviation (input) FILTER_DEV_CONNECTIONS :: int where "FILTER_DEV_CONNECTIONS \<equiv> 2"
abbreviation (input) FILTER_GPRS_CONNECTIONS :: int where "FILTER_GPRS_CONNECTIONS \<equiv> 3"

definition listed :: "int \<Rightarrow> client_info \<Rightarrow> bool" where
  "listed filt c \<longleftrightarrow> cli_thread c \<noteq> 0 \<and>
     (filt = FILTER_CMD_CONNECTIONS \<and> cli_is_cmdconn c
      \<or> (filt = FILTER_DEV_CONNECTIONS \<or> filt = FILTER_GPRS_CONNECTIONS) \<and> \<not> cli_is_cmdconn c)"

definition conn_row :: "local_time \<Rightarrow> client_info \<Rightarrow> nat \<Rightarrow> client_info \<Rightarrow> string list" where
  "conn_row lt cli rows c =
     (let buff1 = snprintf 8 ('' '' @ dec_pad 2 rows @ '' '');
          buff3 = conn_time lt (cli_ts c)
      in if cli_is_cmdconn c then
           [buff1, snprintf 32 ('' '' @ [star (cli_socket c = cli_socket cli)] @ cli_ipadr c @ '' ''), buff3, []]
         else
           [buff1, snprintf 32 ('' '' @ [star (cli_devid c = target_deviceid cli)] @ cli_ipadr c @ '' ''), buff3,
            snprintf 32 ('' '' @ dec (unat (cli_devid c)) @ '' '')])"

fun conn_rows :: "local_time \<Rightarrow> client_info \<Rightarrow> int \<Rightarrow> nat \<Rightarrow> client_info list \<Rightarrow> string list list" where
  "conn_rows lt cli filt rows [] = []"
| "conn_rows lt cli filt rows (c # cs) =
     (if listed filt c then conn_row lt cli rows c # conn_rows lt cli filt (rows + 1) cs
      else conn_rows lt cli filt rows cs)"

definition lc_rows :: "local_time \<Rightarrow> client_info list \<Rightarrow> client_info \<Rightarrow> int \<Rightarrow> string list list" where
  "lc_rows lt clients cli filt =
     [['' # '', ''  IP  '', ''  Conn. Time  '', ''  Dev ID  '']] @ or_empty_row 4 (conn_rows lt cli filt 1 clients)"

definition srv_cmd_lc ::
    "local_time \<Rightarrow> (string \<Rightarrow> int) \<Rightarrow> bool \<Rightarrow> client_info list \<Rightarrow> client_info \<Rightarrow> int \<Rightarrow> (int \<times> table_t \<times> string) stroked option" where
  "srv_cmd_lc lt wr cutpad clients cli filt =
     stroke_listing wr cutpad center_header (if use_unicode_table cli then TSTYLE_DOUBLE_V2 else TSTYLE_ASCII_V3) 4
       (lc_rows lt clients cli filt)"

section \<open>Statistics of the caches\<close>

text \<open>
  The row of a cache: its name, size, look-ups, entries, fill and hit rate, memory in bytes. \<open>pct\<close> prints a
  rate in percent without decimals.
\<close>

definition cache_row :: "(rat \<Rightarrow> string) \<Rightarrow> string \<Rightarrow> nat \<Rightarrow> 'e geocache \<Rightarrow> string list" where
  "cache_row pct nm musage c =
     (case get_cache_stat c of (tot_calls, hitrate, cache_fill) \<Rightarrow>
      case get_cache_num c of (num, mx) \<Rightarrow>
        [nm, snprintf 32 (dec mx @ '' ''), snprintf 32 (dec (unat tot_calls) @ '' ''), snprintf 32 (dec num @ '' ''),
         snprintf 32 (pct cache_fill @ '' % ''), snprintf 32 (pct hitrate @ '' % ''),
         snprintf 32 ('' '' @ dec (musage div 1024) @ '' kB '')])"

definition cache_stat_rows :: "(rat \<Rightarrow> string) \<Rightarrow> nat \<Rightarrow> nat \<Rightarrow> geoloc \<Rightarrow> string list list" where
  "cache_stat_rows pct addr_musage minimap_musage g =
     [[''  Cache '', ''  Size '', ''  Lookups '', ''  Fill '', ''  Fill (%) '', ''  Hits (%)'', ''  Mem (kB)''],
      cache_row pct '' Address '' addr_musage (gl_addr g),
      cache_row pct '' Minimap '' minimap_musage (gl_maps g)]"

definition srv_cache_stat ::
    "(string \<Rightarrow> int) \<Rightarrow> bool \<Rightarrow> (rat \<Rightarrow> string) \<Rightarrow> nat \<Rightarrow> nat \<Rightarrow> geoloc \<Rightarrow> client_info \<Rightarrow> (int \<times> table_t \<times> string) stroked option" where
  "srv_cache_stat wr cutpad pct addr_musage minimap_musage g cli =
     stroke_listing wr cutpad
       (\<lambda>t. utable_set_interior (center_header (snd (utable_set_table_halign t RIGHTALIGN))) True False)
       (if use_unicode_table cli then TSTYLE_DOUBLE_V4 else TSTYLE_ASCII_V2) 7
       (cache_stat_rows pct addr_musage minimap_musage g)"

section \<open>State and surroundings\<close>

text \<open>
  The session of the client, the USB ports, the data base, the switch for the look-up of addresses. The writer of
  the PDF report, \<open>ev_report\<close>, sends some two dozen commands to the device: it may change all of the state, and
  \<open>None\<close> stands for undefined behaviour in it.
\<close>

record 'd srv =
  sv_ss :: session
  sv_usb :: usb
  sv_db :: 'd
  sv_lookup :: bool

record 'd srv_env =
  ev_pcre :: "string \<Rightarrow> string \<Rightarrow> string list option"
  ev_translate :: bool
  ev_io :: "string \<Rightarrow> sysio"
  ev_lt :: local_time
  ev_write :: "string \<Rightarrow> int"
  ev_cutpad :: bool
  ev_pct :: "rat \<Rightarrow> string"
  ev_addr_musage :: nat
  ev_minimap_musage :: nat
  ev_exec :: "'d sql_exec"
  ev_changes :: "'d \<Rightarrow> int"
  ev_db_opens :: bool
  ev_now :: "string option"
  ev_ctime :: string
  ev_version :: string
  ev_report :: "string \<Rightarrow> string option \<Rightarrow> bool \<Rightarrow> bool \<Rightarrow> 'd srv \<Rightarrow> (int \<times> string \<times> 'd srv) option"

text \<open>
  What a command leads to: the program is aborted, something undefined happens (an access outside a buffer,
  a table that cannot be drawn), or the state afterwards.
\<close>

datatype 'd srv_result = Srv_aborts | Srv_undefined | Srv_done "'d srv"

definition upd_ss :: "(session \<Rightarrow> session) \<Rightarrow> 'd srv \<Rightarrow> 'd srv" where
  "upd_ss f s = s\<lparr> sv_ss := f (sv_ss s) \<rparr>"

definition send_texts :: "string list \<Rightarrow> 'd srv \<Rightarrow> 'd srv" where
  "send_texts txts = upd_ss (\<lambda>ss. ss\<lparr> ss_out := ss_out ss @ txts \<rparr>)"

definition set_cli :: "client_info \<Rightarrow> 'd srv \<Rightarrow> 'd srv" where
  "set_cli c = upd_ss (\<lambda>ss. ss\<lparr> ss_cli := c \<rparr>)"

abbreviation sv_cli :: "'d srv \<Rightarrow> client_info" where "sv_cli s \<equiv> ss_cli (sv_ss s)"
abbreviation sv_clients :: "'d srv \<Rightarrow> client_info list" where "sv_clients s \<equiv> d_clients (ss_d (sv_ss s))"

definition send_table :: "(int \<times> table_t \<times> string) stroked option \<Rightarrow> 'd srv \<Rightarrow> 'd srv_result" where
  "send_table res s =
     (case res of
        Some (Inr (rc, t, txt)) \<Rightarrow> Srv_done (send_texts (if txt = [] then [] else [txt]) s)
      | _ \<Rightarrow> Srv_undefined)"

section \<open>Registering a nick name\<close>

text \<open>One query of the device, with the progress shown before it: the first field of the reply.\<close>

definition nick_query_step ::
    "'d srv_env \<Rightarrow> string \<Rightarrow> nat \<Rightarrow> string \<Rightarrow> 'd srv \<Rightarrow> (('d srv \<times> string option)) option" where
  "nick_query_step en cmd maxreply progress s =
     (let s1 = send_texts (writef_reply (cli_socket (sv_cli s)) progress) s in
      case send_cmdquery_reply (ev_translate en) (ev_io en cmd) (ss_d (sv_ss s1)) (sv_cli s1) cmd [] maxreply of
        None \<Rightarrow> None
      | Some (d, cli, rc, reply) \<Rightarrow>
          let s2 = set_cli cli (upd_ss (\<lambda>ss. ss\<lparr> ss_d := d \<rparr>) s1) in
          if rc = -1 then Some (s2, None)
          else case extract_devcmd_reply_first_field reply 32 of
            None \<Rightarrow> None
          | Some (_, fld) \<Rightarrow> Some (s2, Some fld))"

definition srvcmd_nick :: "'d srv_env \<Rightarrow> string \<Rightarrow> string \<Rightarrow> 'd srv \<Rightarrow> 'd srv_result" where
  "srvcmd_nick en nick phone s =
     (let sockd = cli_socket (sv_cli s);
          s0 = send_texts (writef_reply sockd (''Gathering information from device. Please wait ...'' @ [LF])) s
      in case nick_query_step en ''CONFIG'' 48 ''[0%]..'' s0 of
        None \<Rightarrow> Srv_undefined | Some (s1, None) \<Rightarrow> Srv_done s1 | Some (s1, Some devid) \<Rightarrow>
      case nick_query_step en ''IMEI'' 48 ''[25%]..'' s1 of
        None \<Rightarrow> Srv_undefined | Some (s2, None) \<Rightarrow> Srv_done s2 | Some (s2, Some imei) \<Rightarrow>
      case nick_query_step en ''SIM'' 48 ''[50%]..'' s2 of
        None \<Rightarrow> Srv_undefined | Some (s3, None) \<Rightarrow> Srv_done s3 | Some (s3, Some sim) \<Rightarrow>
      case nick_query_step en ''VER'' 32 ''[75%]..'' s3 of
        None \<Rightarrow> Srv_undefined | Some (s4, None) \<Rightarrow> Srv_done s4 | Some (s4, Some fwver) \<Rightarrow>
      let s5 = send_texts (writef_reply sockd (''[100%]'' @ [LF])) s4
      in case db_update_nick (ev_exec en) (ev_db_opens en) (ev_now en) (sv_db s5) nick devid imei sim phone fwver of
        None \<Rightarrow> Srv_undefined
      | Some (rc, db) \<Rightarrow>
          let s6 = s5\<lparr> sv_db := db \<rparr> in
          if rc = -1 then
            Srv_done (send_texts (writef_reply_err sockd (-1)
              (''Failed to update/create nick for device. Check supplied arguments.'' @ [LF])) s6)
          else case db_get_nick_list (ev_exec en) (ev_db_opens en) db sockd (Some imei) 2 of
            None \<Rightarrow> Srv_undefined
          | Some (_, txts) \<Rightarrow> Srv_done (send_texts txts s6))"

section \<open>Other commands\<close>

definition srv_cmd_debug_info :: "'d srv_env \<Rightarrow> 'd srv \<Rightarrow> 'd srv_result" where
  "srv_cmd_debug_info en s =
     (let c = sv_cli s in
      send_table (list_usb_stat (ev_lt en) (ev_write en) (ev_cutpad en) (sv_usb s) c)
        (send_texts (writef (cli_socket c)
          (''Devid: '' @ dec (unat (cli_devid c)) @ [LF] @ ''IP: '' @ cli_ipadr c @ [LF] @
           ''IsCMD: '' @ (if cli_is_cmdconn c then ''1'' else ''0'') @ [LF] @
           ''ts: '' @ dec (nat (cli_ts c mod 2 ^ 32)) @ [LF] @
           ''targ_dev_id: '' @ dec (unat (target_deviceid c)) @ [LF] @
           ''targ_cli_idx: '' @ dec_int (target_cli_idx c) @ [LF] @
           ''targ_sock: '' @ dec_int (target_socket c) @ [LF] @
           ''targ_usb_idx: '' @ dec_int (target_usb_idx c) @ [LF])) s))"

definition srv_device_report :: "'d srv_env \<Rightarrow> string \<Rightarrow> string option \<Rightarrow> bool \<Rightarrow> bool \<Rightarrow> 'd srv \<Rightarrow> 'd srv_result" where
  "srv_device_report en filename report_title read_from_file include_geofevt s =
     (let c = sv_cli s; sockd = cli_socket c in
      if \<not> read_from_file \<and> 0 \<le> sockd \<and> \<not> is_usb_connected (sv_usb s) (target_usb_idx c) \<and> target_socket c < 0 then
        Srv_done (send_texts (writef sockd ''[ERR] Command not possible. Device not connected on USB.'') s)
      else
        let s1 = send_texts (writef sockd (''Gathering information from device, please wait ... '' @ [LF])) s
        in case ev_report en (fst (xstrlcpy filename 1024)) report_title read_from_file include_geofevt s1 of
             None \<Rightarrow> Srv_undefined
           | Some (stat, full_path, s2) \<Rightarrow>
               Srv_done (send_texts (writef sockd
                 (if stat = 0 then ''Wrote device report to '' @ quoted_text full_path
                  else ''[ERR] Failed to create device report.'')) s2))"

section \<open>Choosing the command\<close>

definition PR_N1 :: string where "PR_N1 = ''(['' @ bs ''p{N}])''"
definition PR_AAN :: string where "PR_AAN = ''(['' @ bs ''p{L}]['' @ bs ''p{L}'' @ bs ''p{N}'' @ bs ''_'' @ bs ''-]*)''"
definition PR_NDS :: string where "PR_NDS = ''([ '' @ bs ''p{N}]{1,3}['' @ bs ''-]?['' @ bs ''p{N} ]+)''"

definition PR_FILEPATH :: string where
  "PR_FILEPATH = ''(['' @ bs ''p{L}'' @ bs ''p{N}'' @ bs ''/'' @ bs ''.'' @ bs ''_'' @ bs ''-]+)''"

definition PR_ANPS :: string where
  "PR_ANPS = ''(['' @ bs ''p{L}'' @ bs ''p{N}'' @ bs ''p{P} '' @ pr_punct @ '']+)''"

datatype srv_action =
    V_kill | V_date | V_cachestat | V_report string "string option" bool bool | V_usb_target int
  | V_target int | V_nick_target string | V_version | V_usb_list | V_lc int | V_ratereset | V_lookup | V_table
  | V_dbg | V_nick string string | V_ln int | V_dn string

text \<open>The patterns in the order of the tests; the test mail is only in special builds.\<close>

definition srv_patterns :: "(string \<times> (string list \<Rightarrow> srv_action)) list" where
  "srv_patterns =
     [(''^_kill'' @ PR_E, \<lambda>_. V_kill),
      (''^date'' @ PR_E, \<lambda>_. V_date),
      (''^cachestat'' @ PR_E, \<lambda>_. V_cachestat),
      (''^report'' @ PR_S @ PR_FILEPATH @ PR_E, \<lambda>f. V_report (f ! 1) None False True),
      (''^report'' @ PR_S @ PR_FILEPATH @ PR_S @ PR_ANPS @ PR_E, \<lambda>f. V_report (f ! 1) (Some (f ! 2)) False True),
      (''^breport'' @ PR_S @ PR_FILEPATH @ PR_E, \<lambda>f. V_report (f ! 1) None False False),
      (''^breport'' @ PR_S @ PR_FILEPATH @ PR_S @ PR_ANPS @ PR_E, \<lambda>f. V_report (f ! 1) (Some (f ! 2)) False False),
      (''^freport'' @ PR_S @ PR_FILEPATH @ PR_E, \<lambda>f. V_report (f ! 1) None True True),
      (''^freport'' @ PR_S @ PR_FILEPATH @ PR_S @ PR_ANPS @ PR_E, \<lambda>f. V_report (f ! 1) (Some (f ! 2)) True True),
      (''^usb'' @ PR_S @ PR_N1 @ PR_E, \<lambda>f. V_usb_target (xatoi (f ! 1))),
      (''^target'' @ PR_S @ PR_N1 @ PR_E, \<lambda>f. V_target (xatoi (f ! 1))),
      (''^target'' @ PR_S @ PR_AN @ PR_E, \<lambda>f. V_nick_target (f ! 1)),
      (''^ver'' @ PR_E, \<lambda>_. V_version),
      (''^usb'' @ PR_E, \<lambda>_. V_usb_list),
      (''^lc'' @ PR_E, \<lambda>_. V_lc FILTER_CMD_CONNECTIONS),
      (''^ratereset'' @ PR_E, \<lambda>_. V_ratereset),
      (''^lookup'' @ PR_E, \<lambda>_. V_lookup),
      (''^ld'' @ PR_E, \<lambda>_. V_lc FILTER_DEV_CONNECTIONS),
      (''^table'' @ PR_E, \<lambda>_. V_table),
      (''^target'' @ PR_E, \<lambda>_. V_lc FILTER_GPRS_CONNECTIONS),
      (''^dbg'' @ PR_E, \<lambda>_. V_dbg),
      (''^nick'' @ PR_S @ PR_AAN @ PR_S @ PR_NDS @ PR_E, \<lambda>f. V_nick (f ! 1) (f ! 2)),
      (''^nick'' @ PR_S @ PR_AAN @ PR_E, \<lambda>f. V_nick (f ! 1) []),
      (''^ln'' @ PR_E, \<lambda>_. V_ln 3),
      (''^ln'' @ PR_S @ PR_N @ PR_E, \<lambda>f. V_ln (xatoi (f ! 1))),
      (''^dn'' @ PR_S @ PR_AAN @ PR_E, \<lambda>f. V_dn (f ! 1))]"

fun first_pattern ::
    "(string \<Rightarrow> string \<Rightarrow> string list option) \<Rightarrow> string \<Rightarrow> (string \<times> (string list \<Rightarrow> 'a)) list \<Rightarrow> 'a option" where
  "first_pattern pcre cmd [] = None"
| "first_pattern pcre cmd ((pat, act) # ps) =
     (case pcre pat cmd of Some field \<Rightarrow> Some (act field) | None \<Rightarrow> first_pattern pcre cmd ps)"

definition answer :: "client_info \<times> int \<times> string list \<Rightarrow> 'd srv \<Rightarrow> 'd srv_result" where
  "answer r s = (case r of (cli, rc, txts) \<Rightarrow> Srv_done (send_texts txts (set_cli cli s)))"

definition run_srv_action :: "'d srv_env \<Rightarrow> srv_action \<Rightarrow> 'd srv \<Rightarrow> 'd srv_result" where
  "run_srv_action en act s =
     (let c = sv_cli s; sockd = cli_socket c in
      case act of
        V_kill \<Rightarrow> Srv_aborts
      | V_date \<Rightarrow> Srv_done (send_texts (writef sockd (butlast (ev_ctime en))) s)
      | V_cachestat \<Rightarrow> send_table (srv_cache_stat (ev_write en) (ev_cutpad en) (ev_pct en) (ev_addr_musage en)
                          (ev_minimap_musage en) (ss_geo (sv_ss s)) c) s
      | V_report filename report_title from_file geofevt \<Rightarrow> srv_device_report en filename report_title from_file geofevt s
      | V_usb_target n \<Rightarrow> answer (set_usb_device_target_by_index (sv_usb s) c (nat (n mod int SIZE_MOD))) s
      | V_target n \<Rightarrow> answer (set_gprs_device_target_by_index (sv_clients s) c n) s
      | V_nick_target nick \<Rightarrow>
          answer (set_gprs_device_target_by_nickname (nick_devid (ev_exec en) (ev_db_opens en) (sv_db s)) (sv_clients s) c nick) s
      | V_version \<Rightarrow> Srv_done (send_texts (writef_reply sockd (''GM7 Server version '' @ ev_version en)) s)
      | V_usb_list \<Rightarrow> send_table (list_usb_stat (ev_lt en) (ev_write en) (ev_cutpad en) (sv_usb s) c) s
      | V_lc filt \<Rightarrow> send_table (srv_cmd_lc (ev_lt en) (ev_write en) (ev_cutpad en) (sv_clients s) c filt) s
      | V_ratereset \<Rightarrow>
          Srv_done (send_texts (writef sockd ''Google API rate limit reset'')
            (upd_ss (\<lambda>ss. ss\<lparr> ss_geo := staticmap_rate_limit_reset (geocode_rate_limit_reset (ss_geo ss)) \<rparr>) s))
      | V_lookup \<Rightarrow>
          Srv_done (send_texts (writef sockd (''Address lookup : '' @ (if \<not> sv_lookup s then ''on'' else ''off'')))
            (s\<lparr> sv_lookup := \<not> sv_lookup s \<rparr>))
      | V_table \<Rightarrow>
          Srv_done (send_texts (writef_reply sockd (''Table drawing : '' @ (if \<not> use_unicode_table c then ''On'' else ''Off'')))
            (set_cli (c\<lparr> use_unicode_table := \<not> use_unicode_table c \<rparr>) s))
      | V_dbg \<Rightarrow> srv_cmd_debug_info en s
      | V_nick nick phone \<Rightarrow> srvcmd_nick en nick phone s
      | V_ln listformat \<Rightarrow>
          (case db_get_nick_list (ev_exec en) (ev_db_opens en) (sv_db s) sockd None listformat of
             None \<Rightarrow> Srv_undefined | Some (_, txts) \<Rightarrow> Srv_done (send_texts txts s))
      | V_dn nick \<Rightarrow>
          (case db_delete_nick (ev_exec en) (ev_changes en) (ev_db_opens en) (sv_db s) nick of
             None \<Rightarrow> Srv_undefined
           | Some (rc, db) \<Rightarrow>
               Srv_done (send_texts
                 (if rc = 0 then writef_reply sockd (''Deleted nick '' @ quoted_text nick)
                  else writef_reply_err sockd (-1) (''Nick '' @ quoted_text nick @ '' doe not exist''))
                 (s\<lparr> sv_db := db \<rparr>))))"

definition exec_srv_command :: "'d srv_env \<Rightarrow> string \<Rightarrow> 'd srv \<Rightarrow> 'd srv_result" where
  "exec_srv_command en rcmdstr s =
     (case first_pattern (ev_pcre en) (drop 1 rcmdstr) srv_patterns of
        Some act \<Rightarrow> run_srv_action en act s
      | None \<Rightarrow> Srv_done (send_texts (writef_reply_err (cli_socket (sv_cli s)) (-1) ''Incorrect command.'') s))"

section \<open>The list of devices and the choice of a target\<close>

lemma conn_rows_eq:
  "conn_rows lt cli filt k cs =
     map (\<lambda>(i, c). conn_row lt cli i c) (zip [k..<k + length (filter (listed filt) cs)] (filter (listed filt) cs))"
proof (induction cs arbitrary: k)
  case (Cons c cs)
  show ?case
  proof (cases "listed filt c")
    case True
    have "[k..<k + Suc (length (filter (listed filt) cs))] = k # [Suc k..<Suc k + length (filter (listed filt) cs)]"
      by (subst upt_conv_Cons) simp_all
    with True Cons.IH [of "Suc k"] show ?thesis by simp
  qed (use Cons.IH in simp)
qed simp

lemma listed_devices: "filter (listed FILTER_DEV_CONNECTIONS) cs = map ((!) cs) (device_indices cs)"
proof -
  have "listed FILTER_DEV_CONNECTIONS = is_device" by (simp add: fun_eq_iff listed_def is_device_def)
  moreover have "filter P cs = map ((!) cs) (filter (\<lambda>i. P (cs ! i)) [0..<length cs])" for P
  proof -
    have "filter P (map ((!) cs) [0..<length cs]) = map ((!) cs) (filter (\<lambda>i. P (cs ! i)) [0..<length cs])"
      by (simp add: filter_map o_def)
    then show ?thesis by (simp add: map_nth)
  qed
  ultimately show ?thesis by (simp add: device_indices_def)
qed

text \<open>Entries whose texts fit their columns; \<open>accept_connection\<close> cuts the address to 15 bytes.\<close>

definition listable :: "client_info list \<Rightarrow> bool" where
  "listable cs \<longleftrightarrow> length cs \<le> 300 \<and> (\<forall>c\<in>set cs. plain_text (cli_ipadr c) \<and> length (cli_ipadr c) \<le> 15)"

lemma conn_row_texts:
  assumes "length (cli_ipadr c) \<le> 15" and "k < 10 ^ 5"
  shows "conn_row lt cli k c =
     ['' '' @ dec_pad 2 k @ '' '',
      '' '' @ [star (if cli_is_cmdconn c then cli_socket c = cli_socket cli else cli_devid c = target_deviceid cli)]
        @ cli_ipadr c @ '' '',
      conn_time lt (cli_ts c),
      if cli_is_cmdconn c then [] else '' '' @ dec (unat (cli_devid c)) @ '' '']"
proof -
  have "length (dec k) \<le> 5" using length_dec_less [of 5 k] assms(2) by simp
  then have l1: "snprintf 8 ('' '' @ dec_pad 2 k @ '' '') = '' '' @ dec_pad 2 k @ '' ''"
    by (simp add: dec_pad_def)
  have "unat (cli_devid c) < 2 ^ 32" using unsigned_less [of "cli_devid c"] by simp
  then have "length (dec (unat (cli_devid c))) \<le> 10" by (intro length_dec_less) simp_all
  then have l4: "snprintf 32 ('' '' @ dec (unat (cli_devid c)) @ '' '') = '' '' @ dec (unat (cli_devid c)) @ '' ''" by simp
  have l2: "snprintf 32 ('' '' @ [star b] @ cli_ipadr c @ '' '') = '' '' @ [star b] @ cli_ipadr c @ '' ''" for b
    using assms(1) by simp
  show ?thesis unfolding conn_row_def Let_def l1 l2 l4 by simp
qed

lemma lc_rows_short:
  assumes "listable clients" and "r \<in> set (lc_rows lt clients cli filt)"
  shows "length r = 4 \<and> (\<forall>s\<in>set r. short_text s)"
proof -
  consider (head) "r = ['' # '', ''  IP  '', ''  Conn. Time  '', ''  Dev ID  '']" | (none) "r = replicate 4 '' ''"
    | (row) k c where "r = conn_row lt cli k c" "c \<in> set clients" "k < 10 ^ 5"
  proof -
    have "length (filter (listed filt) clients) \<le> 300"
      using assms(1) le_trans [OF length_filter_le] unfolding listable_def by blast
    then have "\<exists>k c. r = conn_row lt cli k c \<and> c \<in> set clients \<and> k < 10 ^ 5"
      if rs: "r \<in> set (conn_rows lt cli filt 1 clients)"
    proof -
      obtain k c where z: "r = conn_row lt cli k c"
        "(k, c) \<in> set (zip [1..<1 + length (filter (listed filt) clients)] (filter (listed filt) clients))"
        using rs unfolding conn_rows_eq set_map by (elim imageE) (auto simp del: upt_Suc set_upt)
      have "k < 1 + length (filter (listed filt) clients)" using set_zip_leftD [OF z(2)] by (simp only: set_upt atLeastLessThan_iff)
      with \<open>length (filter (listed filt) clients) \<le> 300\<close> have "k < 10 ^ 5" by simp
      moreover have "c \<in> set clients" using set_zip_rightD [OF z(2)] by simp
      ultimately show ?thesis using z(1) by blast
    qed
    then show ?thesis
      using assms(2) that by (auto simp: lc_rows_def or_empty_row_def split: if_splits)
  qed
  then show ?thesis
  proof cases
    case (row k c)
    then have ip: "plain_text (cli_ipadr c)" using assms(1) by (auto simp: listable_def)
    have "short_text (snprintf 8 ('' '' @ dec_pad 2 k @ '' ''))"
      "short_text (snprintf 32 ('' '' @ [star b] @ cli_ipadr c @ '' ''))"
      "short_text (snprintf 32 ('' '' @ dec n @ '' ''))" "short_text []" for b n
      by (rule short_take; simp add: ip star_def | rule short_plain; simp)+
    note texts = this short_conn_time [of lt "cli_ts c"]
    show ?thesis
      unfolding row(1) conn_row_def Let_def
      by (rule if_split [THEN iffD2], intro conjI impI) (use texts in \<open>simp_all only: list.size set_simps ball_simps\<close>, simp_all)
  qed (auto simp: numeral_eq_Suc intro!: short_plain)
qed

lemma lc_rows_length:
  assumes "listable clients"
  shows "2 \<le> length (lc_rows lt clients cli filt) \<and> length (lc_rows lt clients cli filt) \<le> 301"
proof -
  have "length (filter (listed filt) clients) \<le> 300"
    using assms le_trans [OF length_filter_le] unfolding listable_def by blast
  then have "length (conn_rows lt cli filt 1 clients) \<le> 300" by (simp add: conn_rows_eq)
  then show ?thesis
    by (cases "conn_rows lt cli filt 1 clients") (simp_all add: lc_rows_def or_empty_row_def)
qed

lemma lc_drawn:
  assumes "listable clients"
  shows "\<exists>ls t. shows_rows (lc_rows lt clients cli filt) ls \<and>
     srv_cmd_lc lt wr cutpad clients cli filt = Some (Inr (wr (lines_text ls), t, lines_text ls))"
proof -
  let ?rows = "lc_rows lt clients cli filt"
  have len: "2 \<le> length ?rows" "length ?rows \<le> 301" using lc_rows_length [OF assms] by auto
  have fit: "(4 * length ?rows + 4) * (2048 * 4 + 5) + 10 * length ?rows + 2 < MAXSTROKEBUFF" using len(2) by simp
  show ?thesis
    unfolding srv_cmd_lc_def
    by (rule stroke_listing_shown [OF keeps_texts_center len(1) _ _ _ _ fit]) (use lc_rows_short [OF assms] in auto)
qed

text \<open>
  The device that is listed under number \<open>n\<close>, with its address and id in one line, is the one that
  \<open>set_gprs_device_target_by_index\<close> selects for \<open>n\<close>, and the commands of the client then go to it over GPRS.
\<close>

lemma listed_device_selected:
  assumes "listable clients" and "1 \<le> n" and "n \<le> length (device_indices clients)"
  shows "let c = clients ! (device_indices clients ! (n - 1)) in
     (\<exists>ls t. srv_cmd_lc lt wr cutpad clients cli FILTER_DEV_CONNECTIONS = Some (Inr (wr (lines_text ls), t, lines_text ls))
        \<and> (\<exists>l\<in>set ls. has_text l ('' '' @ dec_pad 2 n @ '' '') \<and> has_text l (cli_ipadr c)
              \<and> has_text l ('' '' @ dec (unat (cli_devid c)) @ '' '')))
     \<and> (case set_gprs_device_target_by_index clients cli (int n) of (cli', rc, _) \<Rightarrow>
          rc = 0 \<and> target_deviceid cli' = cli_devid c \<and> target_socket cli' = cli_socket c
          \<and> (0 < cli_socket c \<longrightarrow> (\<forall>tr io d cmd tag m.
                send_rawcmd_reply tr io d cli' cmd tag m = send_rawcmd_reply_over_gprs tr io d cli' cmd tag m)))"
proof -
  let ?i = "device_indices clients ! (n - 1)"
  let ?c = "clients ! ?i" and ?fs = "filter (listed FILTER_DEV_CONNECTIONS) clients"
  have i: "?i \<in> set (device_indices clients)" using assms(2,3) by (intro nth_mem) simp
  then have c: "?i < length clients" "is_device ?c" by (auto simp: device_indices_def)
  then have ip: "length (cli_ipadr ?c) \<le> 15" using assms(1) nth_mem by (auto simp: listable_def)
  have fs: "?fs = map ((!) clients) (device_indices clients)" by (rule listed_devices)
  have "length ?fs \<le> 300"
    using assms(1) le_trans [OF length_filter_le] unfolding listable_def by blast
  then have n5: "n < 10 ^ 5" using assms(3) fs by simp
  have row: "conn_row lt cli n ?c \<in> set (conn_rows lt cli FILTER_DEV_CONNECTIONS 1 clients)"
  proof -
    have "zip [1..<1 + length ?fs] ?fs ! (n - 1) = (n, ?c)"
      using assms(2,3) by (simp add: fs del: upt_Suc)
    moreover have "n - 1 < length (zip [1..<1 + length ?fs] ?fs)" using assms(2,3) by (simp add: fs del: upt_Suc)
    ultimately have "(n, ?c) \<in> set (zip [1..<1 + length ?fs] ?fs)" using nth_mem by metis
    then show ?thesis unfolding conn_rows_eq set_map by (rule image_eqI [rotated]) simp
  qed
  then have row': "conn_row lt cli n ?c \<in> set (lc_rows lt clients cli FILTER_DEV_CONNECTIONS)"
    by (auto simp: lc_rows_def or_empty_row_def)
  obtain ls t where ls: "shows_rows (lc_rows lt clients cli FILTER_DEV_CONNECTIONS) ls"
     "srv_cmd_lc lt wr cutpad clients cli FILTER_DEV_CONNECTIONS = Some (Inr (wr (lines_text ls), t, lines_text ls))"
    using lc_drawn [OF assms(1)] by blast
  obtain l where l: "l \<in> set ls" "\<forall>s\<in>set (conn_row lt cli n ?c). has_text l s"
    using ls(1) row' unfolding shows_rows_def by blast
  have nc: "\<not> cli_is_cmdconn ?c" using c(2) by (simp add: is_device_def)
  have "has_text l ('' '' @ dec_pad 2 n @ '' '')" "has_text l ('' '' @ dec (unat (cli_devid ?c)) @ '' '')"
    using l(2) conn_row_texts [OF ip n5, of lt cli] nc by simp_all
  moreover have "has_text l (cli_ipadr ?c)"
  proof -
    have "has_text l ('' '' @ [star (cli_devid ?c = target_deviceid cli)] @ cli_ipadr ?c @ '' '')"
      using l(2) conn_row_texts [OF ip n5, of lt cli] nc by simp
    then obtain u v where "l = u @ ('' '' @ [star (cli_devid ?c = target_deviceid cli)] @ cli_ipadr ?c @ '' '') @ v" by blast
    then have "l = (u @ '' '' @ [star (cli_devid ?c = target_deviceid cli)]) @ cli_ipadr ?c @ ('' '' @ v)" by simp
    then show ?thesis by blast
  qed
  moreover have "case set_gprs_device_target_by_index clients cli (int n) of (cli', rc, _) \<Rightarrow>
          rc = 0 \<and> target_deviceid cli' = cli_devid ?c \<and> target_socket cli' = cli_socket ?c
          \<and> (0 < cli_socket ?c \<longrightarrow> (\<forall>tr io d cmd tag m.
                send_rawcmd_reply tr io d cli' cmd tag m = send_rawcmd_reply_over_gprs tr io d cli' cmd tag m))"
  proof -
    have "nat (int n - 1) = n - 1" using assms(2) by simp
    then show ?thesis
      using target_by_index_spec [of clients cli "int n"] assms(2,3) by (auto simp: Let_def send_rawcmd_reply_def)
  qed
  ultimately show ?thesis using l(1) ls(2) unfolding Let_def by blast
qed

text \<open>What PCRE answers for a command: \<open>pat\<close> is the first of the patterns that matches, with these groups.\<close>

definition matched_first :: "(string \<Rightarrow> string \<Rightarrow> string list option) \<Rightarrow> string \<Rightarrow> string \<Rightarrow> string list \<Rightarrow> bool" where
  "matched_first pcre cmd pat field \<longleftrightarrow>
     pcre pat cmd = Some field \<and> list_all (\<lambda>p. pcre p cmd = None) (takeWhile (\<lambda>p. p \<noteq> pat) (map fst srv_patterns))"

abbreviation PAT_LD :: string where "PAT_LD \<equiv> ''^ld'' @ PR_E"
abbreviation PAT_TARGET :: string where "PAT_TARGET \<equiv> ''^target'' @ PR_S @ PR_N1 @ PR_E"

lemma first_pattern_map_of:
  "pcre pat cmd = Some field \<Longrightarrow> list_all (\<lambda>p. pcre p cmd = None) (takeWhile (\<lambda>p. p \<noteq> pat) (map fst ps)) \<Longrightarrow>
   map_of ps pat = Some act \<Longrightarrow> first_pattern pcre cmd ps = Some (act field)"
  by (induction ps) (auto split: if_splits)

lemmas pr_defs = PR_E_def PR_S_def PR_N1_def PR_AN_def PR_AAN_def PR_NDS_def PR_FILEPATH_def PR_ANPS_def PR_N_def
  bs_def pr_punct_def

lemma target_patterns:
  "map_of srv_patterns PAT_LD = Some (\<lambda>_. V_lc FILTER_DEV_CONNECTIONS)"
  "map_of srv_patterns PAT_TARGET = Some (\<lambda>f. V_target (xatoi (f ! 1)))"
  by (simp_all add: srv_patterns_def pr_defs)

lemma exec_first_match:
  assumes "matched_first (ev_pcre en) cmd pat field" and "map_of srv_patterns pat = Some act"
  shows "exec_srv_command en (CHR ''.'' # cmd) s = run_srv_action en (act field) s"
  using assms first_pattern_map_of by (fastforce simp: exec_srv_command_def matched_first_def)

text \<open>
  C15: The list of connected devices and the choice of a target agree, for the numbers 1 to 9 that the pattern of
  the command admits: after \<^verbatim>\<open>.ld\<close> has shown a device under number \<open>n\<close>, with its address and id in one line,
  \<^verbatim>\<open>.target n\<close> makes that device the target of the client, and its commands then go to it over GPRS.
\<close>

theorem listed_device_is_target:
  assumes "listable (sv_clients s)" and "1 \<le> n" and "n \<le> 9" and "n \<le> length (device_indices (sv_clients s))"
    and "c = sv_clients s ! (device_indices (sv_clients s) ! (n - 1))"
    and "matched_first (ev_pcre en) ''ld'' PAT_LD fld1"
    and "matched_first (ev_pcre en) (''target '' @ dec n) PAT_TARGET [fld2, dec n]"
  shows "\<exists>ls s1 s2. exec_srv_command en ''.ld'' s = Srv_done s1
     \<and> ss_out (sv_ss s1) = ss_out (sv_ss s) @ [lines_text ls]
     \<and> (\<exists>l\<in>set ls. has_text l ('' '' @ dec_pad 2 n @ '' '') \<and> has_text l (cli_ipadr c)
              \<and> has_text l ('' '' @ dec (unat (cli_devid c)) @ '' ''))
     \<and> exec_srv_command en (''.target '' @ dec n) s1 = Srv_done s2
     \<and> target_deviceid (sv_cli s2) = cli_devid c \<and> target_socket (sv_cli s2) = cli_socket c
     \<and> (0 < cli_socket c \<longrightarrow> (\<forall>tr io d cmd tag m.
          send_rawcmd_reply tr io d (sv_cli s2) cmd tag m = send_rawcmd_reply_over_gprs tr io d (sv_cli s2) cmd tag m))"
proof -
  note sel = listed_device_selected [OF assms(1,2,4), of "ev_lt en" "ev_write en" "ev_cutpad en" "sv_cli s",
      unfolded Let_def, folded assms(5)]
  obtain ls t where ls: "srv_cmd_lc (ev_lt en) (ev_write en) (ev_cutpad en) (sv_clients s) (sv_cli s) FILTER_DEV_CONNECTIONS
        = Some (Inr (ev_write en (lines_text ls), t, lines_text ls))"
      "\<exists>l\<in>set ls. has_text l ('' '' @ dec_pad 2 n @ '' '') \<and> has_text l (cli_ipadr c)
          \<and> has_text l ('' '' @ dec (unat (cli_devid c)) @ '' '')"
    using conjunct1 [OF sel] by blast
  obtain cli' txts where t: "set_gprs_device_target_by_index (sv_clients s) (sv_cli s) (int n) = (cli', 0, txts)"
      "target_deviceid cli' = cli_devid c" "target_socket cli' = cli_socket c"
      "0 < cli_socket c \<longrightarrow> (\<forall>tr io d cmd tag m.
          send_rawcmd_reply tr io d cli' cmd tag m = send_rawcmd_reply_over_gprs tr io d cli' cmd tag m)"
    using conjunct2 [OF sel] by (cases "set_gprs_device_target_by_index (sv_clients s) (sv_cli s) (int n)") auto
  have "ls \<noteq> []" using ls(2) by auto
  then have ne: "lines_text ls \<noteq> []" by simp
  let ?s1 = "send_texts [lines_text ls] s"
  have 1: "exec_srv_command en ''.ld'' s = Srv_done ?s1"
    using exec_first_match [OF assms(6) target_patterns(1), of s] ls(1) ne
    by (simp add: run_srv_action_def Let_def send_table_def)
  have n: "xatoi (dec n) = int n" using assms(3) by simp
  have s1: "ss_cli (sv_ss ?s1) = sv_cli s" "sv_clients ?s1 = sv_clients s" "ss_out (sv_ss ?s1) = ss_out (sv_ss s) @ [lines_text ls]"
    by (simp_all add: send_texts_def upd_ss_def)
  have "exec_srv_command en (''.target '' @ dec n) ?s1 = Srv_done (send_texts txts (set_cli cli' ?s1))"
    using exec_first_match [OF assms(7) target_patterns(2), of ?s1]
    by (simp add: run_srv_action_def Let_def n s1 t(1) answer_def)
  moreover have "ss_cli (sv_ss (send_texts txts (set_cli cli' ?s1))) = cli'"
    by (simp add: send_texts_def set_cli_def upd_ss_def)
  ultimately show ?thesis using 1 s1(3) ls(2) t(2-4) by metis
qed

lemma sample_listable: "listable [sample_client, sample_device]"
  by (simp add: listable_def sample_client_def sample_device_def)

lemma sample_devices: "device_indices [sample_client, sample_device] = [1]"
  by (simp add: device_indices_def is_device_def sample_client_def sample_device_def)

text \<open>An example: a matcher that knows the two commands.\<close>

definition sample_pcre :: "string \<Rightarrow> string \<Rightarrow> string list option" where
  "sample_pcre pat cmd =
     (if pat = PAT_LD \<and> cmd = ''ld'' then Some [cmd]
      else if pat = PAT_TARGET \<and> take 7 cmd = ''target '' \<and> length cmd = 8 then Some [cmd, drop 7 cmd]
      else None)"

definition sample_srv :: "unit srv" where
  "sample_srv = \<lparr> sv_ss = \<lparr> ss_d = \<lparr> d_cmdq = cmdqueue_init, d_tagnbr = 0, d_clients = [sample_client, sample_device] \<rparr>,
                             ss_cli = sample_client, ss_geo = eg_geoloc, ss_in = [], ss_out = [] \<rparr>,
     sv_usb = first_usb, sv_db = (), sv_lookup = False \<rparr>"

definition sample_srv_env :: "unit srv_env" where
  "sample_srv_env =
    \<lparr> ev_pcre = sample_pcre, ev_translate = False,
      ev_io = \<lambda>_. sample_usb, ev_lt = \<lambda>_. (2014, 5, 13, 16, 53, 20), ev_write = \<lambda>s. int (length s), ev_cutpad = False,
      ev_pct = \<lambda>_. ''0.0'', ev_addr_musage = 0, ev_minimap_musage = 0, ev_exec = \<lambda>d _. (True, [], d),
      ev_changes = \<lambda>_. 0, ev_db_opens = True, ev_now = None, ev_ctime = [], ev_version = ''1'',
      ev_report = \<lambda>_ _ _ _ _. None \<rparr>"

lemma sample_matches:
  "matched_first sample_pcre ''ld'' PAT_LD [''ld'']"
  "matched_first sample_pcre ''target 1'' PAT_TARGET [''target 1'', ''1'']"
  by (simp_all add: matched_first_def sample_pcre_def srv_patterns_def pr_defs)

theorem listed_device_is_target_witness:
  "\<exists>s1 s2. exec_srv_command sample_srv_env ''.ld'' sample_srv = Srv_done s1
     \<and> exec_srv_command sample_srv_env ''.target 1'' s1 = Srv_done s2 \<and> target_deviceid (sv_cli s2) = 3000000001"
proof -
  have c: "sv_clients sample_srv = [sample_client, sample_device]" by (simp add: sample_srv_def)
  have d: "dec 1 = ''1''" by code_simp
  have p: "ev_pcre sample_srv_env = sample_pcre" by (simp add: sample_srv_env_def)
  have l: "1 \<le> length (device_indices (sv_clients sample_srv))" by (simp add: c sample_devices)
  have i: "sv_clients sample_srv ! (device_indices (sv_clients sample_srv) ! (1 - 1)) = sample_device"
    by (simp add: c sample_devices)
  have "cli_devid sample_device = 3000000001" by (simp add: sample_device_def)
  moreover have "matched_first (ev_pcre sample_srv_env) ''ld'' PAT_LD [''ld'']"
      "matched_first (ev_pcre sample_srv_env) (''target '' @ dec 1) PAT_TARGET [''target 1'', dec 1]"
    unfolding p d using sample_matches by simp_all
  moreover have "(1 :: nat) \<le> 9" by simp
  moreover note listed_device_is_target [OF sample_listable [folded c] order_refl _ l i [symmetric]]
  ultimately show ?thesis unfolding d by fastforce
qed

section \<open>Help\<close>

lemma help_names: "distinct (map fst srvcmd_help_list)"
  by code_simp

lemma help_short: "\<forall>h\<in>set srvcmd_help_list. case h of (cmd, desc, syn, arg, ex) \<Rightarrow>
    2 * length cmd + length desc + length syn + length arg + length ex < 1000"
  by code_simp

lemma find_distinct: "distinct (map f xs) \<Longrightarrow> x \<in> set xs \<Longrightarrow> find (\<lambda>y. f y = f x) xs = Some x"
  by (induction xs) (auto simp: image_iff)

text \<open>The whole of a help text is built and sent.\<close>

lemma fold_xvstrncat:
  "length b + length (concat ts) < 5000 \<Longrightarrow> fold (\<lambda>u b. fst (xvstrncat b SIZE_10KB u)) ts b = b @ concat ts"
  by (induction ts arbitrary: b) (simp_all add: xvstrncat_def xstrlcat_eq)

definition help_parts :: "srvcmd_help_t \<Rightarrow> string list" where
  "help_parts h =
     (case h of (cmd, desc, syn, arg, examples) \<Rightarrow>
        [''.'' @ cmd @ '' - '' @ desc @ [LF, LF] @ ''SYNOPSIS:'' @ [LF] @ ''.'' @ cmd @ '' '' @ syn @ [LF, LF]] @
        (if arg \<noteq> [] then [''ARGUMENTS:'' @ [LF] @ arg @ [LF, LF]] else []) @
        [''EXAMPLES:'' @ [LF] @ examples @ [LF, LF]])"

lemma help_text_parts:
  assumes "case h of (cmd, desc, syn, arg, ex) \<Rightarrow>
    2 * length cmd + length desc + length syn + length arg + length ex < 1000"
  shows "help_text h = concat (help_parts h) \<and> length (help_text h) < 5000"
proof -
  have len: "length (concat (help_parts h)) < 5000" using assms by (cases h) (simp add: help_parts_def)
  have "help_text h = fold (\<lambda>u b. fst (xvstrncat b SIZE_10KB u)) (help_parts h) []"
    unfolding help_text_def help_parts_def by (cases h) (simp only: prod.case)
  then show ?thesis using fold_xvstrncat [of "[]" "help_parts h"] len by simp
qed

lemma minus_one_text: "dec_int (- 1) = ''-1''"
  by code_simp

text \<open>
  Every server command of the table is explained by \<^verbatim>\<open>help .name\<close> with the whole of its own text: name, description,
  synopsis, arguments where there are any, examples. For a name that is not in the table it reports an error.
\<close>

theorem every_server_command_explained:
  assumes "0 \<le> cli_socket cli"
  shows "(\<forall>h\<in>set srvcmd_help_list. srvcmd_help cli [f0, fst h] = [concat (help_parts h)])
    \<and> (\<forall>nm. nm \<notin> fst ` set srvcmd_help_list \<longrightarrow> srvcmd_help cli [f0, nm] =
          [''[ERR=-1] '' @ snprintf SIZE_10KB (quoted_text nm @ '' is not a valid server command.'' @ [LF])])"
proof (intro conjI ballI allI impI)
  fix h assume h: "h \<in> set srvcmd_help_list"
  have f: "find (\<lambda>x. strcmp (fst x) (fst h) = 0) srvcmd_help_list = Some h"
    unfolding strcmp_eq_0 by (rule find_distinct [OF help_names h])
  have t: "help_text h = concat (help_parts h) \<and> length (help_text h) < 5000"
    by (rule help_text_parts) (rule bspec [OF help_short h])
  from conjunct2 [OF t] have l: "length (help_text h) \<le> SIZE_10KB - 1" by simp
  have "snprintf SIZE_10KB (help_text h) = concat (help_parts h)"
    unfolding take_all [OF l] using t by (rule conjunct1)
  then show "srvcmd_help cli [f0, fst h] = [concat (help_parts h)]"
    unfolding srvcmd_help_def writef_reply_def by (simp only: nth_Cons_Suc nth_Cons_0 One_nat_def f option.case assms if_True)
next
  fix nm assume "nm \<notin> fst ` set srvcmd_help_list"
  then have "find (\<lambda>x. strcmp (fst x) nm = 0) srvcmd_help_list = None"
    unfolding find_None_iff strcmp_eq_0 by blast
  then show "srvcmd_help cli [f0, nm] =
          [''[ERR=-1] '' @ snprintf SIZE_10KB (quoted_text nm @ '' is not a valid server command.'' @ [LF])]"
    using assms by (simp add: srvcmd_help_def writef_reply_err_def minus_one_text)
qed

theorem every_server_command_explained_witness:
  "srvcmd_help sample_client [''help .ver'', ''ver''] =
     [''.ver - Return daemon version'' @ [LF, LF] @ ''SYNOPSIS:'' @ [LF] @ ''.ver '' @ [LF, LF] @ ''EXAMPLES:'' @ [LF] @ [LF, LF]]"
proof -
  let ?h = "(''ver'', ''Return daemon version'', [], [], []) :: srvcmd_help_t"
  have "?h \<in> set srvcmd_help_list" by code_simp
  moreover have "0 \<le> cli_socket sample_client" by (simp add: sample_client_def)
  ultimately have "srvcmd_help sample_client [''help .ver'', fst ?h] = [concat (help_parts ?h)]"
    using every_server_command_explained by blast
  then show ?thesis by (simp add: help_parts_def)
qed

end
