(* ===== verification/Locations.thy ===== *)
theory Locations
  imports Nicks Tracker "HOL-Library.Sublist"
begin

text \<open>
  Storing locations in the data base (\<^verbatim>\<open>src/src/dbcmd.c\<close>): opening the data base, and \<open>db_store_locations\<close>, which
  takes the location package of a device apart and inserts a row for each position in one transaction.
  SQLite is an argument: the type \<open>'d\<close> is its state, with what executing a statement, inserting a row and
  closing the data base make of it. Waiting before an insertion is tried again is not modelled.
\<close>

section \<open>Opening the data base\<close>

abbreviation (input) DB_VERSION :: nat where "DB_VERSION \<equiv> 2"
abbreviation (input) DB_TABLE_LOC :: string where "DB_TABLE_LOC \<equiv> ''tbl_track''"

definition DB_SCHEMA_LOC :: string where
  "DB_SCHEMA_LOC =
     ''CREATE TABLE tbl_track  ('fld_key' INTEGER PRIMARY KEY AUTOINCREMENT NOT NULL, 'fld_timestamp' INTEGER NOT NULL, 'fld_deviceid' INTEGER NOT NULL,'' @
     '' 'fld_datetime' INTEGER NOT NULL, 'fld_lat' TEXT NOT NULL, 'fld_lon' TEXT NOT NULL,'' @
     '' 'fld_approxaddr' TEXT NOT NULL, 'fld_speed' TEXT NOT NULL, 'fld_heading' INTEGER NOT NULL,'' @
     '' 'fld_altitude' INTEGER NOT NULL, 'fld_satellite' INTEGER NOT NULL, 'fld_event' INTEGER NOT NULL,'' @
     '' 'fld_voltage' TEXT NOT NULL, 'fld_detachstat' INTEGER NOT NULL);''"

definition DB_SCHEMA_INFO :: string where
  "DB_SCHEMA_INFO =
     ''CREATE TABLE tbl_info ('fld_key' INTEGER PRIMARY KEY AUTOINCREMENT NOT NULL,'' @
     '' 'fld_created' TEXT NOT NULL, 'fld_dbversion' INTEGER NOT NULL);''"

definition DB_SCHEMA_NICK :: string where
  "DB_SCHEMA_NICK =
     ''CREATE TABLE tbl_device_nick ( 'fld_nick' TEXT NOT NULL,'fld_devid' INTEGER NOT NULL,'fld_imei' INTEGER PRIMARY KEY NOT NULL'' @
     '','fld_sim' TEXT NOT NULL,'fld_phone' TEXT NOT NULL,'fld_fwver' TEXT NOT NULL,'fld_regdate' TEXT NOT NULL,'fld_upddate' TEXT NOT NULL);''"

definition SQL_SELECT_DBVERSION :: string where "SQL_SELECT_DBVERSION = ''SELECT fld_dbversion FROM tbl_info;''"
definition SQL_SELECT_COUNT :: string where "SQL_SELECT_COUNT = ''SELECT count(*) FROM tbl_track;''"

definition SQL_PRAGMA :: string where
  "SQL_PRAGMA = ''PRAGMA synchronous=OFF;PRAGMA journal_mode=MEMORY;PRAGMA temp_store=MEMORY;''"

definition SQL_INFO_INSERT :: "string \<Rightarrow> string" where
  "SQL_INFO_INSERT currTime =
     ''INSERT INTO tbl_info (fld_created,fld_dbversion) VALUES ('' @ sql_text currTime @ '','' @ dec DB_VERSION @ '');''"

text \<open>
  What the operations need of the data base and its surroundings: executing a statement, closing, whether the
  file exists and can be opened, the directory and the local time as text.
\<close>

record 'd db_conf =
  dc_exec :: "'d sql_exec"
  dc_close :: "'d \<Rightarrow> 'd"
  dc_exists :: "'d \<Rightarrow> bool"
  dc_open_ok :: bool
  dc_dir :: string
  dc_now :: "string option"

text \<open>The version that is read, -1 when there is none: 0 when it is the one of the program.\<close>

definition chk_db_version :: "'d db_conf \<Rightarrow> 'd \<Rightarrow> int \<times> 'd" where
  "chk_db_version c d =
     (case dc_exec c d SQL_SELECT_DBVERSION of (sql_ok, rows, d') \<Rightarrow>
        if \<not> sql_ok then (-1, dc_close c d')
        else if (if rows = [] then -1 else xatoi (hd (last rows))) = int DB_VERSION then (0, d')
        else (-1, d'))"

definition create_schema :: "'d db_conf \<Rightarrow> 'd \<Rightarrow> bool \<times> 'd" where
  "create_schema c d =
     (case dc_exec c d (DB_SCHEMA_INFO @ DB_SCHEMA_LOC @ DB_SCHEMA_NICK) of (sql_ok, _, d1) \<Rightarrow>
        if \<not> sql_ok then (False, dc_close c d1)
        else case dc_now c of
          None \<Rightarrow> (False, dc_close c d1)
        | Some currTime \<Rightarrow>
            (case dc_exec c d1 (snprintf 512 (SQL_INFO_INSERT currTime)) of (sql_ok, _, d2) \<Rightarrow>
               if sql_ok then (True, d2) else (False, dc_close c d2)))"

definition db_setup :: "'d db_conf \<Rightarrow> 'd \<Rightarrow> int \<times> 'd" where
  "db_setup c d =
     (if dc_dir c = [] then (-1, d)
      else if \<not> dc_open_ok c then (-1, dc_close c d)
      else case (if dc_exists c d then (True, d) else create_schema c d) of (ready, d1) \<Rightarrow>
        if \<not> ready then (-1, d1)
        else case chk_db_version c d1 of (rc, d2) \<Rightarrow>
          if rc \<noteq> 0 then (-1, dc_close c d2)
          else case dc_exec c d2 SQL_PRAGMA of (sql_ok, _, d3) \<Rightarrow> if sql_ok then (0, d3) else (-1, d3))"

definition db_exec_sql :: "'d db_conf \<Rightarrow> ('d \<Rightarrow> int) \<Rightarrow> string \<Rightarrow> 'd \<Rightarrow> int \<times> int option \<times> 'd" where
  "db_exec_sql c changes sql d =
     (case db_setup c d of (rc, d1) \<Rightarrow>
        if rc \<noteq> 0 then (-1, None, d1)
        else case dc_exec c d1 sql of (sql_ok, _, d2) \<Rightarrow>
          if sql_ok then (0, Some (changes d2), dc_close c d2) else (-1, None, dc_close c d2))"

text \<open>The number of rows: the last row of the answer counts, there is one.\<close>

definition db_get_size :: "'d db_conf \<Rightarrow> 'd \<Rightarrow> int \<times> int option \<times> 'd" where
  "db_get_size c d =
     (case db_setup c d of (rc, d1) \<Rightarrow>
        if rc \<noteq> 0 then (-1, None, d1)
        else case dc_exec c d1 SQL_SELECT_COUNT of (sql_ok, rows, d2) \<Rightarrow>
          if sql_ok then (0, if rows = [] then None else Some (xatoi (hd (last rows))), dc_close c d2)
          else (-1, None, dc_close c d2))"

text \<open>The number is not set when the answer has no row.\<close>

definition db_get_numevents :: "'d db_conf \<Rightarrow> client_info \<Rightarrow> 'd \<Rightarrow> (int \<times> string list \<times> 'd) option" where
  "db_get_numevents c cli d =
     (case db_get_size c d of (rc, num, d') \<Rightarrow>
        if rc \<noteq> 0 then Some (-1, writef (cli_socket cli) ''[ERR] Can not read number of events in DB.'', d')
        else case num of None \<Rightarrow> None | Some n \<Rightarrow> Some (0, writef (cli_socket cli) (dec_int n), d'))"

definition delete_all_stmt :: string where
  "delete_all_stmt = ''DROP TABLE '' @ DB_TABLE_LOC @ ''; VACUUM; '' @ DB_SCHEMA_LOC"

definition db_empty_loc :: "'d db_conf \<Rightarrow> client_info \<Rightarrow> 'd \<Rightarrow> int \<times> string list \<times> 'd" where
  "db_empty_loc c cli d =
     (case db_setup c d of (rc, d1) \<Rightarrow>
        if rc \<noteq> 0 then (-1, [], d1)
        else case dc_exec c d1 (snprintf 512 delete_all_stmt) of (sql_ok, _, d2) \<Rightarrow>
          if sql_ok then (0, writef (cli_socket cli) ''ALL stored locations deleted.'', dc_close c d2)
          else (-1, [], dc_close c d2))"

section \<open>Taking a package apart\<close>

abbreviation (input) LOC_DELIM :: char where "LOC_DELIM \<equiv> CHR '',''"
abbreviation GM7_LOC_SPEED :: nat where "GM7_LOC_SPEED \<equiv> 4"
abbreviation GM7_LOC_HEADING :: nat where "GM7_LOC_HEADING \<equiv> 5"
abbreviation GM7_LOC_ALT :: nat where "GM7_LOC_ALT \<equiv> 6"
abbreviation GM7_LOC_SAT :: nat where "GM7_LOC_SAT \<equiv> 7"
abbreviation GM7_LOC_VOLT :: nat where "GM7_LOC_VOLT \<equiv> 9"
abbreviation GM7_LOC_DETACH :: nat where "GM7_LOC_DETACH \<equiv> 10"

text \<open>The end of a row: the end of the text, of the line, or the closing bracket.\<close>

definition at_row_end :: "string \<Rightarrow> bool" where
  "at_row_end s \<longleftrightarrow> s = [] \<or> take 2 s = [CR, LF] \<or> hd s = CHR '']''"

text \<open>The inner loop: what was copied, the number of fields counted, the rest.\<close>

fun read_row :: "nat \<Rightarrow> string \<Rightarrow> string \<times> nat \<times> string" where
  "read_row numFields [] = ([], numFields, [])"
| "read_row numFields (c # s) =
     (if at_row_end (c # s) then ([], numFields, c # s)
      else let n = (if s \<noteq> [] \<and> hd s = LOC_DELIM then numFields + 1 else numFields) in
        if 12 \<le> n then ([c], n, s)
        else case read_row n s of (l, m, r) \<Rightarrow> (c # l, m, r))"

text \<open>The checks of a row and its fields, the voltage without its last character.\<close>

definition check_row :: "nat \<Rightarrow> string \<Rightarrow> splitfields option" where
  "check_row numFields locBuff =
     (if 12 \<le> numFields then None
      else if length locBuff < 50 then None
      else case xstrsplitfields locBuff LOC_DELIM of (rc, fld) \<Rightarrow>
        if rc = -1 then None
        else if length fld \<noteq> 11 then None
        else if length (fld ! GM7_LOC_DEVID) \<noteq> 10 \<or> hd (fld ! GM7_LOC_DEVID) \<noteq> CHR ''3'' then None
        else Some (fld[GM7_LOC_VOLT := butlast (fld ! GM7_LOC_VOLT)]))"

record loc_row =
  l_timestamp :: int
  l_deviceid :: int
  l_datetime :: int
  l_lon :: string
  l_lat :: string
  l_approxaddr :: string
  l_speed :: int
  l_heading :: int
  l_altitude :: int
  l_satellite :: int
  l_event :: int
  l_voltage :: string
  l_detachstat :: int

definition bind_row :: "int \<Rightarrow> string \<Rightarrow> splitfields \<Rightarrow> loc_row" where
  "bind_row now address fld =
     \<lparr> l_timestamp = now, l_deviceid = xatol (fld ! GM7_LOC_DEVID), l_datetime = xatol (fld ! GM7_LOC_DATE),
       l_lon = fld ! GM7_LOC_LON, l_lat = fld ! GM7_LOC_LAT, l_approxaddr = address,
       l_speed = to_int32 (xatol (fld ! GM7_LOC_SPEED)), l_heading = to_int32 (xatol (fld ! GM7_LOC_HEADING)),
       l_altitude = to_int32 (xatol (fld ! GM7_LOC_ALT)), l_satellite = to_int32 (xatol (fld ! GM7_LOC_SAT)),
       l_event = to_int32 (xatol (fld ! GM7_LOC_EVENTID)), l_voltage = fld ! GM7_LOC_VOLT,
       l_detachstat = to_int32 (xatol (fld ! GM7_LOC_DETACH)) \<rparr>"

section \<open>Storing\<close>

datatype step_res = Step_done | Step_locked | Step_other

text \<open>
  \<open>'w\<close> is the state of what is called for a row: the look-up of addresses, when it is switched on, and the
  call-back, which is given the fields. The latter is the identity where the code gives none.
\<close>

record ('d, 'w) store_env =
  st_db :: "'d db_conf"
  st_prepare :: bool
  st_step :: "'d \<Rightarrow> loc_row \<Rightarrow> step_res \<times> 'd"
  st_time :: "nat \<Rightarrow> int"
  st_use_lookup :: bool
  st_lookup :: "'w \<Rightarrow> string \<Rightarrow> string \<Rightarrow> 'w \<times> string"
  st_cb :: "'w \<Rightarrow> splitfields \<Rightarrow> 'w"

text \<open>A table that is locked is tried three times; the result is not used.\<close>

definition insert_row :: "('d, 'w) store_env \<Rightarrow> 'd \<Rightarrow> loc_row \<Rightarrow> step_res \<times> 'd" where
  "insert_row en d r =
     (case st_step en d r of
        (Step_locked, d1) \<Rightarrow>
          (case st_step en d1 r of
             (Step_locked, d2) \<Rightarrow> st_step en d2 r
           | res \<Rightarrow> res)
      | res \<Rightarrow> res)"

definition row_address :: "('d, 'w) store_env \<Rightarrow> 'w \<Rightarrow> splitfields \<Rightarrow> 'w \<times> string" where
  "row_address en w fld =
     (if st_use_lookup en then st_lookup en w (fld ! GM7_LOC_LAT) (fld ! GM7_LOC_LON)
      else (w, ''---''))"

definition store_row :: "('d, 'w) store_env \<Rightarrow> nat \<Rightarrow> splitfields \<Rightarrow> 'd \<Rightarrow> 'w \<Rightarrow> 'd \<times> 'w" where
  "store_row en cnt fld d w =
     (case row_address en w fld of (w1, address) \<Rightarrow>
        (snd (insert_row en d (bind_row (st_time en cnt) address fld)), st_cb en w1 fld))"

text \<open>
  The loop over the rows: the rows stored, the rest of the text, the states, the progress reported; \<open>Inl\<close> for a
  row that is refused. The outer \<open>None\<close>: the row does not fit in the 512 bytes of \<open>locBuff\<close>.
\<close>

type_synonym ('d, 'w) store_state = "'d \<times> 'w \<times> string list"

function store_loop ::
    "('d, 'w) store_env \<Rightarrow> int \<Rightarrow> nat \<Rightarrow> string \<Rightarrow> nat \<Rightarrow> nat \<Rightarrow> nat \<Rightarrow> ('d, 'w) store_state
     \<Rightarrow> (('d, 'w) store_state + nat \<times> string \<times> ('d, 'w) store_state) option" where
  "store_loop en sockd num_loc bptr pcnt progress cnt st =
     (case read_row 1 bptr of (locBuff, numFields, rest) \<Rightarrow>
        if 512 \<le> length locBuff then None
        else case check_row numFields locBuff of
          None \<Rightarrow> Some (Inl st)
        | Some fld \<Rightarrow>
            (case st of (d, w, outs) \<Rightarrow>
              let bptr' = (if take 2 rest = [CR, LF] then drop 2 rest else rest);
                  (d', w') = store_row en cnt fld d w;
                  report = 100 < num_loc \<and> num_loc div 10 < pcnt + 1;
                  progress' = (if report then progress + 10 else progress);
                  outs' = (if report then outs @ writef sockd (''['' @ dec progress' @ ''%].'') else outs);
                  pcnt' = (if report then 0 else pcnt + 1)
              in if bptr' \<noteq> [] \<and> hd bptr' \<noteq> CHR '']''
                 then store_loop en sockd num_loc bptr' pcnt' progress' (cnt + 1) (d', w', outs')
                 else Some (Inr (cnt + 1, bptr', (d', w', outs')))))"
  by pat_completeness auto

lemma read_row_length: "read_row n s = (l, m, r) \<Longrightarrow> length l + length r = length s"
  by (induction n s arbitrary: l m r rule: read_row.induct) (auto simp: Let_def split: if_splits prod.splits)

lemma check_row_length: "check_row n l = Some fld \<Longrightarrow> 50 \<le> length l"
  by (auto simp: check_row_def split: if_splits)

termination store_loop
  by (relation "measure (\<lambda>(en, sockd, num_loc, bptr, pcnt, progress, cnt, st). length bptr)")
    (auto dest!: check_row_length simp: read_row_length [OF sym] split: if_splits dest: read_row_length [OF sym])

declare store_loop.simps [simp del]

definition db_store_locations ::
    "('d, 'w) store_env \<Rightarrow> int \<Rightarrow> nat \<Rightarrow> string \<Rightarrow> 'd \<Rightarrow> 'w \<Rightarrow> (int \<times> ('d, 'w) store_state) option" where
  "db_store_locations en sockd num_loc recvBuff d w =
     (let c = st_db en in
      case db_setup c d of (rc, d1) \<Rightarrow>
        if rc \<noteq> 0 then Some (-1, d1, w, [])
        else if \<not> st_prepare en then Some (-1, dc_close c d1, w, [])
        else let bptr = (if recvBuff \<noteq> [] \<and> hd recvBuff = CHR ''['' then tl recvBuff else recvBuff) in
          case dc_exec c d1 ''BEGIN TRANSACTION'' of (sql_ok, _, d2) \<Rightarrow>
            if \<not> sql_ok then Some (-1, dc_close c d2, w, [])
            else case store_loop en sockd num_loc bptr 0 0 0
                   (d2, w, if 100 < num_loc then writef sockd ''[0%].'' else []) of
              None \<Rightarrow> None
            | Some (Inl (d3, w', outs)) \<Rightarrow> Some (-1, dc_close c d3, w', outs)
            | Some (Inr (cnt, rest, d3, w', outs)) \<Rightarrow>
                (let outs' = outs @ (if 100 < num_loc then writef sockd (''[100%]'' @ [LF]) else []) in
                 case dc_exec c d3 ''COMMIT TRANSACTION'' of (sql_ok, _, d4) \<Rightarrow>
                   Some (if sql_ok then int cnt else -1, dc_close c d4, w', outs')))"

section \<open>The rows of a package\<close>

text \<open>The reference: the accepted fields of all rows of a text and what is left of it.\<close>

function package_rows :: "string \<Rightarrow> (splitfields list \<times> string) option" where
  "package_rows s =
     (case read_row 1 s of (l, n, rest) \<Rightarrow>
        if 512 \<le> length l then None
        else case check_row n l of
          None \<Rightarrow> None
        | Some fld \<Rightarrow>
            let s' = (if take 2 rest = [CR, LF] then drop 2 rest else rest) in
            if s' \<noteq> [] \<and> hd s' \<noteq> CHR '']'' then map_option (\<lambda>(fs, r). (fld # fs, r)) (package_rows s')
            else Some ([fld], s'))"
  by pat_completeness auto

termination package_rows
  by (relation "measure length")
    (auto dest!: check_row_length simp: read_row_length [OF sym] split: if_splits dest: read_row_length [OF sym])

declare package_rows.simps [simp del]

fun store_all :: "('d, 'w) store_env \<Rightarrow> nat \<Rightarrow> splitfields list \<Rightarrow> 'd \<times> 'w \<Rightarrow> 'd \<times> 'w" where
  "store_all en cnt [] st = st"
| "store_all en cnt (fld # flds) (d, w) = store_all en (cnt + 1) flds (store_row en cnt fld d w)"

text \<open>The loop stores the rows of the reference one after the other.\<close>

lemma store_loop_done:
  "store_loop en sockd num_loc s pcnt progress cnt (d, w, outs) = Some (Inr (cnt', rest, d', w', outs')) \<Longrightarrow>
     \<exists>flds. package_rows s = Some (flds, rest) \<and> cnt' = cnt + length flds \<and> (d', w') = store_all en cnt flds (d, w)"
proof (induction "length s" arbitrary: s pcnt progress cnt d w outs rule: less_induct)
  case less
  obtain l n r where rr: "read_row 1 s = (l, n, r)" using prod_cases3 by blast
  then have rr': "read_row (Suc 0) s = (l, n, r)" by simp
  from less.prems have l: "\<not> 512 \<le> length l" by (subst (asm) store_loop.simps) (auto simp: rr' split: if_splits)
  from less.prems l obtain fld where fld: "check_row n l = Some fld"
    by (subst (asm) store_loop.simps) (auto simp: rr' split: option.splits)
  let ?s = "if take 2 r = [CR, LF] then drop 2 r else r"
  obtain d1 w1 where sr: "store_row en cnt fld d w = (d1, w1)" by fastforce
  have "length ?s < length s"
    using read_row_length [OF rr] check_row_length [OF fld] by auto
  note IH = less.hyps [OF this]
  note pr = package_rows.simps [of s, unfolded rr prod.case fld option.case if_not_P [OF l] Let_def]
  note sl = store_loop.simps [of en sockd num_loc s pcnt progress cnt "(d, w, outs)",
      unfolded rr prod.case fld option.case if_not_P [OF l] sr Let_def]
  show ?case
  proof (cases "?s \<noteq> [] \<and> hd ?s \<noteq> CHR '']''")
    case True
    from less.prems [unfolded sl if_P [OF True]] IH obtain flds where
      "package_rows ?s = Some (flds, rest)" "cnt' = cnt + 1 + length flds" "(d', w') = store_all en (cnt + 1) flds (d1, w1)"
      by blast
    then show ?thesis using sr unfolding pr if_P [OF True] by (intro exI [of _ "fld # flds"]) simp
  next
    case False
    from less.prems [unfolded sl if_not_P [OF False]] show ?thesis
      unfolding pr if_not_P [OF False] by (intro exI [of _ "[fld]"]) (use sr in auto)
  qed
qed

lemma store_loop_total:
  "package_rows s = Some (flds, rest) \<Longrightarrow>
     \<exists>outs'. store_loop en sockd num_loc s pcnt progress cnt (d, w, outs)
       = Some (Inr (cnt + length flds, rest, fst (store_all en cnt flds (d, w)), snd (store_all en cnt flds (d, w)), outs'))"
proof (induction "length s" arbitrary: s pcnt progress cnt d w outs flds rule: less_induct)
  case less
  obtain l n r where rr: "read_row 1 s = (l, n, r)" using prod_cases3 by blast
  then have rr': "read_row (Suc 0) s = (l, n, r)" by simp
  from less.prems have l: "\<not> 512 \<le> length l" by (subst (asm) package_rows.simps) (auto simp: rr' split: if_splits)
  from less.prems l obtain fld where fld: "check_row n l = Some fld"
    by (subst (asm) package_rows.simps) (auto simp: rr' split: option.splits)
  let ?s = "if take 2 r = [CR, LF] then drop 2 r else r"
  obtain d1 w1 where sr: "store_row en cnt fld d w = (d1, w1)" by fastforce
  have "length ?s < length s"
    using read_row_length [OF rr] check_row_length [OF fld] by auto
  note IH = less.hyps [OF this]
  note pr = package_rows.simps [of s, unfolded rr prod.case fld option.case if_not_P [OF l] Let_def]
  note sl = store_loop.simps [of en sockd num_loc s pcnt progress cnt "(d, w, outs)",
      unfolded rr prod.case fld option.case if_not_P [OF l] sr Let_def]
  show ?case
  proof (cases "?s \<noteq> [] \<and> hd ?s \<noteq> CHR '']''")
    case True
    from less.prems [unfolded pr if_P [OF True]] obtain fs where
      fs: "package_rows ?s = Some (fs, rest)" "flds = fld # fs" by auto
    have all: "store_all en (cnt + 1) fs (d1, w1) = store_all en cnt flds (d, w)"
      and len: "cnt + 1 + length fs = cnt + length flds" unfolding fs(2) by (simp_all add: sr)
    show ?thesis
      unfolding sl if_P [OF True] by (rule IH [OF fs(1), where cnt = "cnt + 1" and d = d1 and w = w1, unfolded all len])
  next
    case False
    from less.prems [unfolded pr if_not_P [OF False]] show ?thesis
      unfolding sl if_not_P [OF False] by (auto simp: sr)
  qed
qed

section \<open>What a device sends\<close>

text \<open>
  The eleven fields of a position, as \<^verbatim>\<open>3000000001,20131211002222,17.959445,59.366545,0,0,0,0,2,3.88V,0\<close>, and the
  text of some positions.
\<close>

definition loc_line :: "string list \<Rightarrow> string" where
  "loc_line fs = join_with LOC_DELIM fs"

definition device_fields :: "string list \<Rightarrow> bool" where
  "device_fields fs \<longleftrightarrow> length fs = 11
     \<and> (\<forall>f\<in>set fs. length f < MAX_FIELD_SIZE \<and> (\<forall>c\<in>set f. c \<noteq> LOC_DELIM \<and> c \<noteq> CR \<and> c \<noteq> CHR '']''))
     \<and> length (fs ! GM7_LOC_DEVID) = 10 \<and> hd (fs ! GM7_LOC_DEVID) = CHR ''3''
     \<and> 50 \<le> length (loc_line fs) \<and> length (loc_line fs) < 512"

fun loc_package :: "string list list \<Rightarrow> string" where
  "loc_package [] = []"
| "loc_package [fs] = loc_line fs"
| "loc_package (fs # gs # ps) = loc_line fs @ [CR, LF] @ loc_package (gs # ps)"

definition stored_fields :: "string list \<Rightarrow> splitfields" where
  "stored_fields fs = fs[GM7_LOC_VOLT := butlast (fs ! GM7_LOC_VOLT)]"

abbreviation commas :: "string \<Rightarrow> nat" where
  "commas s \<equiv> length (filter (\<lambda>c. c = LOC_DELIM) s)"

lemma commas_join:
  "list_all (\<lambda>f. LOC_DELIM \<notin> set f) fs \<Longrightarrow> commas (join_with LOC_DELIM fs) = length fs - 1"
  by (induction fs rule: join_with.induct) (auto simp: filter_empty_conv)

lemma at_row_end_hd: "at_row_end t \<Longrightarrow> t = [] \<or> hd t \<noteq> LOC_DELIM"
  by (cases t) (auto simp: at_row_end_def)

lemma read_row_plain:
  "\<forall>c\<in>set s. c \<noteq> CR \<and> c \<noteq> CHR '']'' \<Longrightarrow> at_row_end t \<Longrightarrow> n + commas (tl s) < 12 \<Longrightarrow>
     read_row n (s @ t) = (s, n + commas (tl s), t)"
proof (induction s arbitrary: n)
  case Nil
  then show ?case by (cases t) auto
next
  case (Cons c s)
  have "\<not> at_row_end (c # s @ t)" using Cons.prems(1) by (simp add: at_row_end_def)
  moreover have "\<exists>m. (if s @ t \<noteq> [] \<and> hd (s @ t) = LOC_DELIM then n + 1 else n) = m \<and> m < 12 \<and> read_row m (s @ t) = (s, n + commas s, t)"
  proof (cases s)
    case Nil
    then have "read_row n t = ([], n, t)" using Cons.IH [of n] Cons.prems by simp
    then show ?thesis using Nil at_row_end_hd [OF Cons.prems(2)] Cons.prems(3) by auto
  next
    case (Cons e s')
    define m where "m = (if e = LOC_DELIM then n + 1 else n)"
    have m: "m + commas s' = n + commas s" unfolding Cons m_def by simp
    then have "m + commas (tl s) < 12" using Cons.prems(3) by (simp add: Cons)
    from Cons.IH [OF _ Cons.prems(2) this] Cons.prems(1) have "read_row m (s @ t) = (s, n + commas s, t)"
      unfolding m [symmetric] by (simp add: Cons)
    moreover have "(if s @ t \<noteq> [] \<and> hd (s @ t) = LOC_DELIM then n + 1 else n) = m" by (simp add: Cons m_def)
    moreover have "m < 12" using m Cons.prems(3) by simp
    ultimately show ?thesis by blast
  qed
  ultimately show ?case by (auto simp: Let_def)
qed

lemma device_line:
  assumes "device_fields fs" and "at_row_end t"
  shows "read_row 1 (loc_line fs @ t) = (loc_line fs, 11, t)" and "check_row 11 (loc_line fs) = Some (stored_fields fs)"
    and "hd (loc_line fs) = CHR ''3''" and "loc_line fs \<noteq> []"
proof -
  have d: "length fs = 11" "list_all (\<lambda>f. LOC_DELIM \<notin> set f) fs" using assms(1) by (auto simp: device_fields_def list_all_iff)
  obtain f fs' where fs: "fs = f # fs'" using d(1) by (cases fs) auto
  then have f: "length f = 10" "hd f = CHR ''3''" using assms(1) by (simp_all add: device_fields_def)
  then obtain f' where f': "f = CHR ''3'' # f'" by (cases f) auto
  obtain r where r: "loc_line fs = CHR ''3'' # r"
    unfolding loc_line_def fs f' using d(1) fs by (cases fs') auto
  then show "hd (loc_line fs) = CHR ''3''" "loc_line fs \<noteq> []" by simp_all
  have "\<forall>c\<in>set (join_with d gs). c = d \<or> (\<exists>g\<in>set gs. c \<in> set g)" for d and gs :: "string list"
    by (induction gs rule: join_with.induct) auto
  then have plain: "\<forall>c\<in>set (loc_line fs). c \<noteq> CR \<and> c \<noteq> CHR '']''"
  proof (intro ballI)
    fix c assume "c \<in> set (loc_line fs)"
    with \<open>\<And>gs d. \<forall>c\<in>set (join_with d gs). c = d \<or> (\<exists>g\<in>set gs. c \<in> set g)\<close>
    consider "c = LOC_DELIM" | g where "g \<in> set fs" "c \<in> set g" unfolding loc_line_def by blast
    then show "c \<noteq> CR \<and> c \<noteq> CHR '']''" using assms(1) by cases (simp, auto simp: device_fields_def)
  qed
  have "commas (loc_line fs) = 10" using commas_join [OF d(2)] d(1) by (simp add: loc_line_def)
  then have "commas (tl (loc_line fs)) = 10" using r by simp
  then show "read_row 1 (loc_line fs @ t) = (loc_line fs, 11, t)"
    using read_row_plain [OF plain assms(2), of 1] by simp
  have size: "50 \<le> length (loc_line fs)" "length (loc_line fs) < 512" "\<forall>f\<in>set fs. length f < MAX_FIELD_SIZE"
    and dev: "length (fs ! GM7_LOC_DEVID) = 10" "hd (fs ! GM7_LOC_DEVID) = CHR ''3''"
    using assms(1) unfolding device_fields_def by blast+
  have "list_all (\<lambda>f. LOC_DELIM \<notin> set f \<and> length f < MAX_FIELD_SIZE) fs"
    using d(2) size(3) unfolding list_all_iff by blast
  then have "xstrsplitfields (loc_line fs) LOC_DELIM = (0, fs)"
    unfolding loc_line_def
  proof (rule xstrsplitfields_join [rotated])
    show "0 < length (join_with LOC_DELIM fs)" "length (join_with LOC_DELIM fs) < 1024"
      using size(1,2) unfolding loc_line_def by linarith+
    show "length fs < MAX_SPLIT_FIELDS" "fs \<noteq> []" using d(1) by (auto simp: MAX_SPLIT_FIELDS_def)
  qed
  then show "check_row 11 (loc_line fs) = Some (stored_fields fs)"
    using size(1) dev d(1) unfolding check_row_def stored_fields_def by simp
qed

text \<open>What may follow the rows: nothing, the end of the last line, or the closing bracket.\<close>

definition package_end :: "string \<Rightarrow> bool" where
  "package_end t \<longleftrightarrow> t = [] \<or> t = [CR, LF] \<or> hd t = CHR '']''"

lemma package_rows_package:
  "ps \<noteq> [] \<Longrightarrow> \<forall>fs\<in>set ps. device_fields fs \<Longrightarrow> package_end t \<Longrightarrow>
     \<exists>rest. package_rows (loc_package ps @ t) = Some (map stored_fields ps, rest)"
proof (induction ps rule: loc_package.induct)
  case (2 fs)
  have t: "at_row_end t" using 2 by (auto simp: package_end_def at_row_end_def)
  have d: "device_fields fs" using 2 by simp
  note l = device_line [OF d t]
  have len: "\<not> 512 \<le> length (loc_line fs)" using d by (simp add: device_fields_def)
  have "\<not> ((if take 2 t = [CR, LF] then drop 2 t else t) \<noteq> [] \<and> hd (if take 2 t = [CR, LF] then drop 2 t else t) \<noteq> CHR '']'')"
    using 2(3) by (cases t) (auto simp: package_end_def)
  then show ?case
    by (subst package_rows.simps) (simp only: loc_package.simps l prod.case option.case len if_False Let_def, simp)
next
  case (3 fs gs ps)
  let ?t = "[CR, LF] @ loc_package (gs # ps) @ t"
  have t: "at_row_end ?t" by (simp add: at_row_end_def)
  have d: "device_fields fs" "device_fields gs" using 3 by simp_all
  note l = device_line [OF d(1) t]
  have len: "\<not> 512 \<le> length (loc_line fs)" using d(1) by (simp add: device_fields_def)
  obtain r where "loc_line gs = CHR ''3'' # r" using device_line(3,4) [OF d(2) t] by (cases "loc_line gs") auto
  then obtain r' where r': "loc_package (gs # ps) @ t = CHR ''3'' # r'" by (cases ps) auto
  from 3 obtain rest where "package_rows (loc_package (gs # ps) @ t) = Some (map stored_fields (gs # ps), rest)" by auto
  then show ?case
    by (subst package_rows.simps)
      (simp only: loc_package.simps append_assoc l prod.case option.case len if_False Let_def, simp add: r')
qed simp

section \<open>The laws of the data base\<close>

text \<open>
  The documented behaviour of SQLite that the code relies on. \<open>committed\<close> are the rows of the location table
  that another connection sees, \<open>pending\<close> those of the open transaction, and \<open>begun\<close> says whether a transaction
  is open. The statements of \<open>db_setup\<close> leave the rows alone, a transaction starts with the rows there are, in a
  transaction an insertion that is done adds one row and a locked table none, a commit makes them visible, and
  closing rolls an open transaction back. Nothing is said of an insertion that ends with another error: after
  some of these errors (a full disk, a busy file) SQLite itself rolls the transaction back, and each later
  insertion is committed on its own.
\<close>

definition setup_stmt :: "'d db_conf \<Rightarrow> string \<Rightarrow> bool" where
  "setup_stmt c q \<longleftrightarrow> q \<in> {SQL_SELECT_DBVERSION, SQL_PRAGMA, DB_SCHEMA_INFO @ DB_SCHEMA_LOC @ DB_SCHEMA_NICK}
     \<or> (\<exists>t. q = snprintf 512 (SQL_INFO_INSERT t))"

definition sqlite_laws ::
    "('d, 'w) store_env \<Rightarrow> ('d \<Rightarrow> loc_row list) \<Rightarrow> ('d \<Rightarrow> loc_row list) \<Rightarrow> ('d \<Rightarrow> bool) \<Rightarrow> bool" where
  "sqlite_laws en committed pending begun \<longleftrightarrow>
     (\<forall>d q. setup_stmt (st_db en) q \<longrightarrow> committed (snd (snd (dc_exec (st_db en) d q))) = committed d)
     \<and> (\<forall>d. case dc_exec (st_db en) d ''BEGIN TRANSACTION'' of (sql_ok, _, d') \<Rightarrow>
           committed d' = committed d \<and> (sql_ok \<longrightarrow> begun d' \<and> pending d' = committed d))
     \<and> (\<forall>d r. begun d \<longrightarrow> (case st_step en d r of (res, d') \<Rightarrow> res \<noteq> Step_other \<longrightarrow>
           begun d' \<and> committed d' = committed d \<and> pending d' = pending d @ (if res = Step_done then [r] else [])))
     \<and> (\<forall>d. begun d \<longrightarrow> (case dc_exec (st_db en) d ''COMMIT TRANSACTION'' of (sql_ok, _, d') \<Rightarrow>
           committed d' = (if sql_ok then pending d else committed d)))
     \<and> (\<forall>d. committed (dc_close (st_db en) d) = committed d)"

text \<open>The rows of some positions, with the addresses found for them.\<close>

fun bound_rows :: "('d, 'w) store_env \<Rightarrow> nat \<Rightarrow> splitfields list \<Rightarrow> 'w \<Rightarrow> loc_row list" where
  "bound_rows en cnt [] w = []"
| "bound_rows en cnt (fld # flds) w =
     (case row_address en w fld of (w1, address) \<Rightarrow>
        bind_row (st_time en cnt) address fld # bound_rows en (cnt + 1) flds (st_cb en w1 fld))"

lemma length_bound_rows [simp]: "length (bound_rows en cnt flds w) = length flds"
  by (induction flds arbitrary: cnt w) (auto split: prod.splits)

lemma exec_keeps:
  "sqlite_laws en committed pending begun \<Longrightarrow> setup_stmt (st_db en) q \<Longrightarrow> dc_exec (st_db en) d q = (sql_ok, rows, d') \<Longrightarrow>
     committed d' = committed d"
  unfolding sqlite_laws_def by (metis snd_conv)

lemma close_keeps: "sqlite_laws en committed pending begun \<Longrightarrow> committed (dc_close (st_db en) d) = committed d"
  by (simp add: sqlite_laws_def)

lemma setup_stmts:
  "setup_stmt c SQL_SELECT_DBVERSION" "setup_stmt c SQL_PRAGMA"
  "setup_stmt c (DB_SCHEMA_INFO @ DB_SCHEMA_LOC @ DB_SCHEMA_NICK)" "setup_stmt c (snprintf 512 (SQL_INFO_INSERT t))"
  unfolding setup_stmt_def by blast+

lemma setup_keeps:
  assumes laws: "sqlite_laws en committed pending begun"
  shows "committed (snd (db_setup (st_db en) d)) = committed d"
proof -
  let ?c = "st_db en"
  note keep = exec_keeps [OF laws] and cl = close_keeps [OF laws]
  have create: "committed (snd (create_schema ?c e)) = committed e" for e
  proof -
    obtain k1 r1 d1 where e1: "dc_exec ?c e (DB_SCHEMA_INFO @ DB_SCHEMA_LOC @ DB_SCHEMA_NICK) = (k1, r1, d1)" using prod_cases3 by blast
    note c1 = keep [OF setup_stmts(3) e1]
    show ?thesis
    proof (cases "dc_now ?c")
      case None
      then show ?thesis by (simp add: create_schema_def e1 c1 cl)
    next
      case (Some t)
      obtain k2 r2 d2 where e2: "dc_exec ?c d1 (snprintf 512 (SQL_INFO_INSERT t)) = (k2, r2, d2)" using prod_cases3 by blast
      note c2 = keep [OF setup_stmts(4) e2]
      have "create_schema ?c e = (if \<not> k1 then (False, dc_close ?c d1) else if k2 then (True, d2) else (False, dc_close ?c d2))"
        unfolding create_schema_def e1 Some by (simp only: prod.case option.case e2)
      then show ?thesis by (simp add: c1 c2 cl)
    qed
  qed
  have version: "committed (snd (chk_db_version ?c e)) = committed e" for e
  proof -
    obtain k1 r1 d1 where e1: "dc_exec ?c e SQL_SELECT_DBVERSION = (k1, r1, d1)" using prod_cases3 by blast
    show ?thesis using keep [OF setup_stmts(1) e1] by (simp add: chk_db_version_def e1 cl)
  qed
  obtain ready d1 where 1: "(if dc_exists ?c d then (True, d) else create_schema ?c d) = (ready, d1)" by fastforce
  then have c1: "committed d1 = committed d" using create [of d] by (auto split: if_splits)
  obtain rc d2 where 2: "chk_db_version ?c d1 = (rc, d2)" by fastforce
  then have c2: "committed d2 = committed d" using version [of d1] c1 by simp
  obtain k r d3 where 3: "dc_exec ?c d2 SQL_PRAGMA = (k, r, d3)" using prod_cases3 by blast
  have c3: "committed d3 = committed d" using keep [OF setup_stmts(2) 3] c2 by simp
  show ?thesis unfolding db_setup_def 1 by (simp add: 2 3 c1 c2 c3 cl)
qed

lemma step_adds:
  assumes "sqlite_laws en committed pending begun" and "st_step en d r = (res, d')" and "begun d" and "res \<noteq> Step_other"
  shows "begun d' \<and> committed d' = committed d \<and> pending d' = pending d @ (if res = Step_done then [r] else [])"
  using assms unfolding sqlite_laws_def by (fastforce split: prod.splits)

lemma insert_adds:
  assumes "sqlite_laws en committed pending begun" and "insert_row en d r = (Step_done, d')" and "begun d"
  shows "begun d' \<and> committed d' = committed d \<and> pending d' = pending d @ [r]"
proof -
  note step = step_adds [OF assms(1)]
  obtain r1 d1 where 1: "st_step en d r = (r1, d1)" by fastforce
  obtain r2 d2 where 2: "st_step en d1 r = (r2, d2)" by fastforce
  obtain r3 d3 where 3: "st_step en d2 r = (r3, d3)" by fastforce
  show ?thesis
    using assms(2,3) step [OF 1] step [OF 2] step [OF 3] unfolding insert_row_def 1 prod.case
    by (auto simp: 2 3 split: step_res.splits)
qed

lemma store_all_rows:
  assumes "sqlite_laws en committed pending begun" and "\<forall>d r. fst (insert_row en d r) = Step_done"
    and "store_all en cnt flds (d, w) = (d', w')" and "begun d"
  shows "begun d' \<and> committed d' = committed d \<and> pending d' = pending d @ bound_rows en cnt flds w"
  using assms(3,4)
proof (induction flds arbitrary: cnt d w)
  case (Cons fld flds)
  obtain w1 a where a: "row_address en w fld = (w1, a)" by fastforce
  let ?r = "bind_row (st_time en cnt) a fld"
  obtain d1 where i: "insert_row en d ?r = (Step_done, d1)" using assms(2) by (metis prod.collapse)
  note add = insert_adds [OF assms(1) i Cons.prems(2)]
  have "store_all en (cnt + 1) flds (d1, st_cb en w1 fld) = (d', w')"
    using Cons.prems by (simp add: store_row_def a i)
  from Cons.IH [OF this] add show ?case by (simp add: a)
qed simp

lemma store_loop_keeps:
  assumes "sqlite_laws en committed pending begun" and "\<forall>d r. fst (insert_row en d r) = Step_done"
  shows "store_loop en sockd num_loc s pcnt progress cnt (d, w, outs) = Some (Inl (d', w', outs')) \<Longrightarrow> begun d
    \<Longrightarrow> committed d' = committed d"
proof (induction "length s" arbitrary: s pcnt progress cnt d w outs rule: less_induct)
  case less
  obtain l n r where rr: "read_row 1 s = (l, n, r)" using prod_cases3 by blast
  then have rr': "read_row (Suc 0) s = (l, n, r)" by simp
  from less.prems have l: "\<not> 512 \<le> length l" by (subst (asm) store_loop.simps) (auto simp: rr' split: if_splits)
  show ?case
  proof (cases "check_row n l")
    case None
    then show ?thesis using less.prems l by (subst (asm) store_loop.simps) (auto simp: rr')
  next
    case fld: (Some fld)
    let ?s = "if take 2 r = [CR, LF] then drop 2 r else r"
    obtain w1 a where a: "row_address en w fld = (w1, a)" by fastforce
    obtain d1 where i: "insert_row en d (bind_row (st_time en cnt) a fld) = (Step_done, d1)"
      using assms(2) by (metis prod.collapse)
    have sr: "store_row en cnt fld d w = (d1, st_cb en w1 fld)" by (simp add: store_row_def a i)
    have "length ?s < length s"
      using read_row_length [OF rr] check_row_length [OF fld] by auto
    note IH = less.hyps [OF this]
    note sl = store_loop.simps [of en sockd num_loc s pcnt progress cnt "(d, w, outs)",
        unfolded rr prod.case fld option.case if_not_P [OF l] sr Let_def]
    have True: "?s \<noteq> [] \<and> hd ?s \<noteq> CHR '']''"
    proof (rule ccontr)
      assume F: "\<not> ?thesis"
      from less.prems [unfolded sl if_not_P [OF F]] show False by simp
    qed
    note add = insert_adds [OF assms(1) i less.prems(2)]
    from less.prems(1) [unfolded sl if_P [OF True]] have "committed d' = committed d1"
      by (rule IH) (use add in simp)
    then show ?thesis using add by simp
  qed
qed

section \<open>Properties\<close>

lemma bracket_package:
  assumes "ps \<noteq> []" and "\<forall>fs\<in>set ps. device_fields fs"
  shows "hd (loc_package ps) = CHR ''3''" and "loc_package ps \<noteq> []"
proof -
  obtain fs ps' where ps: "ps = fs # ps'" using assms(1) by (cases ps) auto
  then have "hd (loc_line fs) = CHR ''3''" "loc_line fs \<noteq> []"
    using device_line(3,4) [of fs "[]"] assms(2) by (simp_all add: at_row_end_def)
  then show "hd (loc_package ps) = CHR ''3''" "loc_package ps \<noteq> []" by (cases ps'; simp add: ps)+
qed

text \<open>
  C9: The package of a device, in any of its forms (plain, with a last line end, or the stale positions in
  brackets), is stored whole and in order: when the data base opens and takes every statement, each position
  becomes one row with the fields of its line, the call-back is called for each, and the number of the
  positions is returned.
\<close>

theorem locations_stored:
  assumes "sqlite_laws en committed pending begun" and "fst (db_setup (st_db en) d) = 0" and "st_prepare en"
    and "\<forall>d. fst (dc_exec (st_db en) d ''BEGIN TRANSACTION'') \<and> (begun d \<longrightarrow> fst (dc_exec (st_db en) d ''COMMIT TRANSACTION''))"
    and "\<forall>d r. fst (insert_row en d r) = Step_done"
    and "ps \<noteq> []" and "\<forall>fs\<in>set ps. device_fields fs"
    and "pkg \<in> {loc_package ps, loc_package ps @ [CR, LF], ''['' @ loc_package ps @ '']''}"
  shows "\<exists>d' w' outs. db_store_locations en sockd num_loc pkg d w = Some (int (length ps), d', w', outs)
     \<and> committed d' = committed d @ bound_rows en 0 (map stored_fields ps) w
     \<and> w' = fold (\<lambda>fld w. st_cb en (fst (row_address en w fld)) fld) (map stored_fields ps) w"
proof -
  let ?c = "st_db en" and ?flds = "map stored_fields ps"
  obtain t where t: "package_end t" "(if pkg \<noteq> [] \<and> hd pkg = CHR ''['' then tl pkg else pkg) = loc_package ps @ t"
  proof -
    obtain r where r: "loc_package ps = CHR ''3'' # r" using bracket_package [OF assms(6,7)] by (cases "loc_package ps") auto
    consider "pkg = loc_package ps @ []" | "pkg = loc_package ps @ [CR, LF]" | "pkg = ''['' @ loc_package ps @ '']''"
      using assms(8) by auto
    then show thesis
    proof cases
      case 1
      show thesis by (rule that [of "[]"]) (unfold 1 r, simp_all add: package_end_def)
    next
      case 2
      show thesis by (rule that [of "[CR, LF]"]) (unfold 2 r, simp_all add: package_end_def)
    next
      case 3
      show thesis by (rule that [of "'']''"]) (unfold 3 r, simp_all add: package_end_def)
    qed
  qed
  obtain rest where rows: "package_rows (loc_package ps @ t) = Some (?flds, rest)"
    using package_rows_package [OF assms(6,7) t(1)] by blast
  obtain d1 where 1: "db_setup ?c d = (0, d1)" using assms(2) by (cases "db_setup ?c d") simp
  obtain r2 d2 where 2: "dc_exec ?c d1 ''BEGIN TRANSACTION'' = (True, r2, d2)"
    using conjunct1 [OF spec [OF assms(4), of d1]] by (cases "dc_exec ?c d1 ''BEGIN TRANSACTION''") simp
  obtain d3 w' where 3: "store_all en 0 ?flds (d2, w) = (d3, w')" by fastforce
  obtain outs where loop: "store_loop en sockd num_loc (loc_package ps @ t) 0 0 0 (d2, w, if 100 < num_loc then writef sockd ''[0%].'' else [])
      = Some (Inr (0 + length ?flds, rest, d3, w', outs))"
    using store_loop_total [OF rows, of en sockd num_loc 0 0 0 d2 w] unfolding 3 fst_conv snd_conv by blast
  have "committed d1 = committed d" using setup_keeps [OF assms(1), of d] 1 by simp
  then have c2: "committed d2 = committed d" "pending d2 = committed d" "begun d2"
    using assms(1) 2 unfolding sqlite_laws_def by (fastforce split: prod.splits)+
  have p3: "pending d3 = committed d @ bound_rows en 0 ?flds w"
    and t3: "begun d3" using store_all_rows [OF assms(1,5) 3 c2(3)] c2(2) by simp_all
  obtain r4 d4 where 4: "dc_exec ?c d3 ''COMMIT TRANSACTION'' = (True, r4, d4)"
    using assms(4) t3 by (cases "dc_exec ?c d3 ''COMMIT TRANSACTION''") force
  have c4: "committed d4 = pending d3" using assms(1) 4 t3 unfolding sqlite_laws_def by (fastforce split: prod.splits)
  have "snd (store_all en cnt flds (d, w)) = fold (\<lambda>fld w. st_cb en (fst (row_address en w fld)) fld) flds w" for cnt flds d w
    by (induction flds arbitrary: cnt d w) (auto simp: store_row_def split: prod.splits)
  from this [of 0 ?flds d2 w] have w': "w' = fold (\<lambda>fld w. st_cb en (fst (row_address en w fld)) fld) ?flds w" by (simp only: 3 snd_conv)
  show ?thesis
    unfolding db_store_locations_def Let_def 1 prod.case t(2) 2 loop option.case sum.case 4
    using assms(3) c4 p3 w' close_keeps [OF assms(1)] by simp
qed

text \<open>
  C10: Storing is all or nothing as long as no insertion fails for good: when a row of the package is refused, or
  the data base does not open, begin or commit, -1 is returned and the table is as before; otherwise every row of
  the package was accepted, their number is returned, and what the table gained are exactly these rows, in order.
\<close>

theorem locations_all_or_nothing:
  assumes "sqlite_laws en committed pending begun" and "\<forall>d r. fst (insert_row en d r) = Step_done"
    and "db_store_locations en sockd num_loc pkg d w = Some (rc, d', w', outs)"
  shows "rc = -1 \<and> committed d' = committed d
     \<or> (\<exists>flds rest. package_rows (if pkg \<noteq> [] \<and> hd pkg = CHR ''['' then tl pkg else pkg) = Some (flds, rest) \<and> rc = int (length flds)
          \<and> committed d' = committed d @ bound_rows en 0 flds w)"
proof -
  let ?c = "st_db en" and ?s = "if pkg \<noteq> [] \<and> hd pkg = CHR ''['' then tl pkg else pkg"
  let ?o = "if 100 < num_loc then writef sockd ''[0%].'' else []"
  note close = close_keeps [OF assms(1)]
  obtain rc1 d1 where 1: "db_setup ?c d = (rc1, d1)" by fastforce
  obtain k2 r2 d2 where 2: "dc_exec ?c d1 ''BEGIN TRANSACTION'' = (k2, r2, d2)" using prod_cases3 by blast
  have c1: "committed d1 = committed d" using setup_keeps [OF assms(1), of d] 1 by simp
  have c2: "committed d2 = committed d" "k2 \<Longrightarrow> pending d2 = committed d" "k2 \<Longrightarrow> begun d2"
    using assms(1) 2 c1 unfolding sqlite_laws_def by (fastforce split: prod.splits)+
  note run = assms(3) [unfolded db_store_locations_def Let_def 1 prod.case 2]
  show ?thesis
  proof (cases "rc1 = 0 \<and> st_prepare en \<and> k2")
    case False
    then show ?thesis using run c1 c2(1) close by (auto split: if_splits)
  next
    case True
    obtain res where loop: "store_loop en sockd num_loc ?s 0 0 0 (d2, w, ?o) = Some res"
      using run True by (auto split: option.splits)
    show ?thesis
    proof (cases res)
      case (Inl st)
      obtain d3 w3 o3 where st: "st = (d3, w3, o3)" using prod_cases3 by blast
      have "committed d3 = committed d2" using store_loop_keeps [OF assms(1,2) loop [unfolded Inl st]] c2(3) True by blast
      moreover have "rc = -1 \<and> d' = dc_close ?c d3" using run by (simp add: loop [unfolded Inl st] True)
      ultimately show ?thesis using c2(1) close by simp
    next
      case (Inr x)
      obtain cnt rest d3 w3 o3 where x: "x = (cnt, rest, d3, w3, o3)" using prod_cases5 by blast
      obtain flds where f: "package_rows ?s = Some (flds, rest)" "cnt = 0 + length flds" "(d3, w3) = store_all en 0 flds (d2, w)"
        using store_loop_done [OF loop [unfolded Inr x]] by blast
      obtain k4 r4 d4 where 4: "dc_exec ?c d3 ''COMMIT TRANSACTION'' = (k4, r4, d4)" using prod_cases3 by blast
      have d3: "begun d3" "committed d3 = committed d2" "pending d3 = pending d2 @ bound_rows en 0 flds w"
        using store_all_rows [OF assms(1,2) f(3) [symmetric]] c2(3) True by simp_all
      have c4: "committed d4 = (if k4 then pending d3 else committed d3)"
        using assms(1) 4 d3(1) unfolding sqlite_laws_def by (fastforce split: prod.splits)
      have res: "rc = (if k4 then int cnt else -1)" "d' = dc_close ?c d4"
        using run by (simp_all add: loop [unfolded Inr x] True 4)
      show ?thesis
        using f(1,2) d3 c2 c4 True close unfolding res by (cases k4) auto
    qed
  qed
qed

text \<open>
  A data base kept as two lists, the committed rows and, in a transaction, the pending ones, as an example. The
  first insertion of a transaction ends as given, and the error of a full disk rolls the transaction back; outside
  a transaction an insertion is committed on its own.
\<close>

type_synonym list_db = "loc_row list \<times> loc_row list option"

definition list_exec :: "list_db sql_exec" where
  "list_exec d q =
     (if q = ''BEGIN TRANSACTION'' then (True, [], (fst d, Some (fst d)))
      else if q = ''COMMIT TRANSACTION'' then
        (case snd d of None \<Rightarrow> (False, [], d) | Some p \<Rightarrow> (True, [], (p, None)))
      else (True, if q = SQL_SELECT_DBVERSION then [[''2'']] else [], d))"

definition list_step :: "step_res \<Rightarrow> list_db \<Rightarrow> loc_row \<Rightarrow> step_res \<times> list_db" where
  "list_step res d r =
     (case snd d of
        None \<Rightarrow> (Step_done, (fst d @ [r], None))
      | Some p \<Rightarrow>
          (case res of
             Step_done \<Rightarrow> (Step_done, (fst d, Some (p @ [r])))
           | Step_locked \<Rightarrow> (Step_locked, d)
           | Step_other \<Rightarrow> (Step_other, (fst d, None))))"

definition list_env :: "step_res \<Rightarrow> (list_db, splitfields list) store_env" where
  "list_env res = \<lparr> st_db = \<lparr> dc_exec = list_exec, dc_close = \<lambda>d. (fst d, None), dc_exists = \<lambda>_. True, dc_open_ok = True,
                              dc_dir = ''/var/lib/g7ctrl'', dc_now = Some ''2014-05-13 16:53'' \<rparr>,
     st_prepare = True, st_step = list_step res,
     st_time = \<lambda>_. 1400000000, st_use_lookup = False, st_lookup = \<lambda>w _ _. (w, []), st_cb = \<lambda>w fld. w @ [fld] \<rparr>"

lemma list_laws: "sqlite_laws (list_env res) fst (the \<circ> snd) (\<lambda>d. snd d \<noteq> None)"
proof -
  have "q \<noteq> ''BEGIN TRANSACTION'' \<and> q \<noteq> ''COMMIT TRANSACTION''" if "setup_stmt c q" for c :: "'d db_conf" and q
    using that by (auto simp: setup_stmt_def SQL_SELECT_DBVERSION_def SQL_PRAGMA_def DB_SCHEMA_INFO_def SQL_INFO_INSERT_def)
  then show ?thesis
    unfolding sqlite_laws_def
    by (auto simp: list_env_def list_exec_def list_step_def split: if_splits option.splits step_res.splits)
qed

lemma list_done: "\<forall>d r. fst (insert_row (list_env Step_done) d r) = Step_done"
  by (simp add: insert_row_def list_env_def list_step_def split: option.split)

lemma list_setup: "db_setup (st_db (list_env res)) d = (0, d)"
proof -
  have "xatoi ''2'' = 2" by code_simp
  then show ?thesis
    by (simp add: db_setup_def chk_db_version_def list_env_def list_exec_def SQL_SELECT_DBVERSION_def SQL_PRAGMA_def)
qed

definition eg_device_fields :: "string list" where
  "eg_device_fields = [''3000000001'', ''20131211002222'', ''17.959445'', ''59.366545'', ''0'', ''0'', ''0'', ''0'', ''2'', ''3.88V'', ''0'']"

lemma eg_device_fields: "device_fields eg_device_fields"
  by code_simp

text \<open>Storing some positions in the example.\<close>

lemma list_store:
  assumes "ps \<noteq> []" and "\<forall>fs\<in>set ps. device_fields fs"
    and "store_all (list_env res) 0 (map stored_fields ps) (([], Some []), []) = (d3, w3)"
  shows "\<exists>outs. db_store_locations (list_env res) 5 1 (loc_package ps) ([], None) []
    = Some (if snd d3 = None then -1 else int (length ps), (case snd d3 of None \<Rightarrow> fst d3 | Some p \<Rightarrow> p, None), w3, outs)"
proof -
  obtain rest where r: "package_rows (loc_package ps) = Some (map stored_fields ps, rest)"
    using package_rows_package [OF assms(1,2), of "[]"] by (auto simp: package_end_def)
  have h: "hd (loc_package ps) \<noteq> CHR ''[''" "loc_package ps \<noteq> []"
    using bracket_package [OF assms(1,2)] by simp_all
  obtain outs where l: "store_loop (list_env res) 5 1 (loc_package ps) 0 0 0 (([], Some []), [], [])
      = Some (Inr (length ps, rest, d3, w3, outs))"
    using store_loop_total [OF r, of "list_env res" 5 1 0 0 0 "([], Some [])" "[]" "[]"] by (auto simp: assms(3) simp del: store_all.simps)
  have conf: "st_prepare (list_env res)" "dc_exec (st_db (list_env res)) = list_exec"
      "dc_close (st_db (list_env res)) d = (fst d, None)" for d
    by (simp_all add: list_env_def)
  have b: "list_exec ([], None) ''BEGIN TRANSACTION'' = (True, [], ([], Some []))"
    and c: "list_exec d ''COMMIT TRANSACTION'' = (case snd d of None \<Rightarrow> (False, [], d) | Some p \<Rightarrow> (True, [], (p, None)))" for d
    by (simp_all add: list_exec_def)
  show ?thesis
    using h l unfolding db_store_locations_def Let_def list_setup prod.case conf(2,3) b c
    by (simp add: conf(1) split: option.split)
qed

lemmas list_rows = store_row_def row_address_def insert_row_def list_step_def

lemma list_store_done:
  "\<exists>w' outs. db_store_locations (list_env Step_done) 5 1 (loc_package [eg_device_fields]) ([], None) []
     = Some (1, (bound_rows (list_env Step_done) 0 [stored_fields eg_device_fields] [], None), w', outs)"
proof -
  obtain d3 w3 where 3: "store_all (list_env Step_done) 0 (map stored_fields [eg_device_fields]) (([], Some []), []) = (d3, w3)"
    by fastforce
  then have "snd d3 = Some (bound_rows (list_env Step_done) 0 [stored_fields eg_device_fields] [])"
    by (auto simp: list_rows list_env_def)
  then show ?thesis using list_store [OF _ _ 3] eg_device_fields by auto
qed

theorem locations_stored_witness:
  "\<exists>d' w' outs. db_store_locations (list_env Step_done) 5 1 (loc_package [eg_device_fields] @ [CR, LF]) ([], None) [] = Some (1, d', w', outs)
     \<and> fst d' = bound_rows (list_env Step_done) 0 [stored_fields eg_device_fields] []"
proof -
  have e: "\<forall>d. fst (dc_exec (st_db (list_env Step_done)) d ''BEGIN TRANSACTION'') \<and>
      (snd d \<noteq> None \<longrightarrow> fst (dc_exec (st_db (list_env Step_done)) d ''COMMIT TRANSACTION''))"
    by (auto simp: list_env_def list_exec_def split: option.split)
  have p: "st_prepare (list_env Step_done)" by (simp add: list_env_def)
  have s: "fst (db_setup (st_db (list_env Step_done)) ([], None)) = 0" by (simp add: list_setup)
  have f: "\<forall>fs\<in>set [eg_device_fields]. device_fields fs" using eg_device_fields by simp
  from locations_stored [OF list_laws s p e list_done list.distinct(2) f insertI2 [OF insertI1], of 5 1 "[]"]
  obtain d' w' outs where
    "db_store_locations (list_env Step_done) 5 1 (loc_package [eg_device_fields] @ [CR, LF]) ([], None) [] = Some (int (length [eg_device_fields]), d', w', outs)"
    "fst d' = fst ([] :: loc_row list, None :: loc_row list option) @ bound_rows (list_env Step_done) 0 (map stored_fields [eg_device_fields]) []"
    by (elim exE conjE) (rule that)
  then show ?thesis by (intro exI [of _ d'] exI [of _ w'] exI [of _ outs]) simp
qed

theorem locations_all_or_nothing_witness:
  "\<exists>d' w' outs flds rest. db_store_locations (list_env Step_done) 5 1 (loc_package [eg_device_fields]) ([], None) [] = Some (1, d', w', outs)
     \<and> package_rows (loc_package [eg_device_fields]) = Some (flds, rest) \<and> length flds = 1
     \<and> fst d' = bound_rows (list_env Step_done) 0 flds []"
proof -
  obtain d' w' outs where s: "db_store_locations (list_env Step_done) 5 1 (loc_package [eg_device_fields]) ([], None) [] = Some (1, d', w', outs)"
    using list_store_done by blast
  have h: "\<not> (loc_package [eg_device_fields] \<noteq> [] \<and> hd (loc_package [eg_device_fields]) = CHR ''['')"
    using bracket_package [of "[eg_device_fields]"] eg_device_fields by simp
  from locations_all_or_nothing [OF list_laws list_done s] obtain flds rest where
    "package_rows (loc_package [eg_device_fields]) = Some (flds, rest)" "1 = int (length flds)"
    "fst d' = fst ([] :: loc_row list, None :: loc_row list option) @ bound_rows (list_env Step_done) 0 flds []"
    unfolding if_not_P [OF h] by auto
  with s show ?thesis by (intro exI [of _ d'] exI [of _ w'] exI [of _ outs] exI [of _ flds] exI [of _ rest]) simp
qed

text \<open>An insertion that fails, here because the table stays locked, is not noticed: the position is counted as stored although it is lost.\<close>

theorem failed_insertion_counted:
  "\<exists>d' w' outs. db_store_locations (list_env Step_locked) 5 1 (loc_package [eg_device_fields]) ([], None) [] = Some (1, d', w', outs)
     \<and> fst d' = []"
proof -
  obtain d3 w3 where 3: "store_all (list_env Step_locked) 0 (map stored_fields [eg_device_fields]) (([], Some []), []) = (d3, w3)"
    by fastforce
  then have "snd d3 = Some []" by (auto simp: list_rows list_env_def)
  then show ?thesis using list_store [OF _ _ 3] eg_device_fields by auto
qed

text \<open>
  When the error of the first insertion rolls the transaction back, the second position is committed on its own:
  the package is stored in part although -1 is returned.
\<close>

theorem rolled_back_package_stored_in_part:
  "\<exists>d' w' outs. db_store_locations (list_env Step_other) 5 1 (loc_package [eg_device_fields, eg_device_fields]) ([], None) []
     = Some (-1, d', w', outs) \<and> length (fst d') = 1"
proof -
  let ?ps = "[eg_device_fields, eg_device_fields]"
  obtain d3 w3 where 3: "store_all (list_env Step_other) 0 (map stored_fields ?ps) (([], Some []), []) = (d3, w3)"
    by fastforce
  then have "snd d3 = None" "length (fst d3) = 1" by (auto simp: list_rows list_env_def)
  then show ?thesis using list_store [OF _ _ 3] eg_device_fields by auto
qed

text \<open>A row of 512 bytes or more, without a line end and with few commas, is copied beyond the end of \<open>locBuff\<close>.\<close>

theorem long_row_overruns:
  assumes "fst (db_setup (st_db en) d) = 0" and "st_prepare en"
    and "\<forall>d. fst (dc_exec (st_db en) d ''BEGIN TRANSACTION'')"
    and "512 \<le> length s" and "\<forall>c\<in>set s. c \<noteq> CR \<and> c \<noteq> CHR '']''" and "commas s < 11" and "hd s \<noteq> CHR ''[''"
  shows "db_store_locations en sockd num_loc s d w = None"
proof -
  let ?c = "st_db en"
  obtain d1 where 1: "db_setup ?c d = (0, d1)" using assms(1) by (cases "db_setup ?c d") simp
  obtain r2 d2 where 2: "dc_exec ?c d1 ''BEGIN TRANSACTION'' = (True, r2, d2)"
    using spec [OF assms(3), of d1] by (cases "dc_exec ?c d1 ''BEGIN TRANSACTION''") simp
  have "commas (tl s) < 11" using assms(6) by (cases s) (auto split: if_splits)
  then have "read_row 1 (s @ []) = (s, 1 + commas (tl s), [])"
    by (intro read_row_plain [OF assms(5)]) (simp_all add: at_row_end_def)
  then have "store_loop en sockd num_loc s 0 0 0 st = None" for st
    using assms(4) by (subst store_loop.simps) simp
  then show ?thesis unfolding db_store_locations_def Let_def 1 2 prod.case using assms(2,7) by simp
qed

text \<open>
  The statement that empties the table has 511 bytes, all that the buffer of 512 takes: one more, and the table
  would be dropped and not made again.
\<close>

theorem delete_statement_just_fits: "length delete_all_stmt = 511 \<and> snprintf 512 delete_all_stmt = delete_all_stmt"
proof -
  have "length delete_all_stmt = 511" by (simp add: delete_all_stmt_def DB_SCHEMA_LOC_def)
  then show ?thesis by simp
qed

end
