(* ===== verification/Loclist.thy ===== *)
theory Loclist
  imports Locations Utils "HOL-Library.Multiset"
begin

text \<open>
  Listing the stored locations, the conditions of a selection and the help of the data base commands
  (\<^verbatim>\<open>src/src/dbcmd.c\<close>). SQLite is an argument, as in the theory \<open>Locations\<close>.
\<close>

section \<open>Reading the list\<close>

datatype sort_order_t = SORT_DEVICETIME | SORT_ARRIVALTIME

definition db_get_sortorder_string :: "sort_order_t \<Rightarrow> string" where
  "db_get_sortorder_string order =
     (case order of SORT_DEVICETIME \<Rightarrow> ''By device time'' | SORT_ARRIVALTIME \<Rightarrow> ''By arrival time'')"

abbreviation (input) DB_GETLOCLIST_COLS :: nat where "DB_GETLOCLIST_COLS \<equiv> 7"

text \<open>The call-back for the rows: whether all were taken, and those taken.\<close>

fun sql_reslist_callback :: "nat \<Rightarrow> nat \<Rightarrow> string list list \<Rightarrow> string list list \<Rightarrow> bool \<times> string list list" where
  "sql_reslist_callback max_num_cb num_cb_cols res [] = (True, res)"
| "sql_reslist_callback max_num_cb num_cb_cols res (vals # rest) =
     (if length vals = 0 \<or> max_num_cb \<le> length res \<or> length vals \<noteq> num_cb_cols then (False, res)
      else sql_reslist_callback max_num_cb num_cb_cols (res @ [vals]) rest)"

definition loclist_stmt :: "sort_order_t \<Rightarrow> nat \<Rightarrow> bool \<Rightarrow> string" where
  "loclist_stmt order maxrows head =
     ''SELECT fld_datetime, fld_deviceid, fld_lat, fld_lon, fld_speed, fld_approxaddr, fld_voltage FROM tbl_track ORDER BY '' @
     (case order of SORT_ARRIVALTIME \<Rightarrow> ''fld_timestamp'' | SORT_DEVICETIME \<Rightarrow> ''fld_datetime'') @ '' '' @
     (if head then ''DESC'' else ''ASC'') @ '' LIMIT '' @ dec maxrows @ '';''"

definition db_getloclist ::
    "'d db_conf \<Rightarrow> sort_order_t \<Rightarrow> nat \<Rightarrow> bool \<Rightarrow> 'd \<Rightarrow> int \<times> string list list \<times> 'd" where
  "db_getloclist c order maxrows head d =
     (case db_setup c d of (rc, d1) \<Rightarrow>
        if rc \<noteq> 0 then (-1, [], d1)
        else case dc_exec c d1 (snprintf 256 (loclist_stmt order maxrows head)) of (sql_ok, rows, d2) \<Rightarrow>
          if \<not> sql_ok then (-1, [], dc_close c d2)
          else case sql_reslist_callback maxrows DB_GETLOCLIST_COLS [] rows of (taken, res) \<Rightarrow>
            (if \<not> taken then -1 else if res = [] then -2 else 0, res, dc_close c d2))"

section \<open>The table\<close>

text \<open>The text of \<^verbatim>\<open>%04d\<close>.\<close>

definition dec4 :: "int \<Rightarrow> string" where
  "dec4 v = (if v < 0 then CHR ''-'' # dec_pad 3 (nat (- v)) else dec_pad 4 (nat v))"

text \<open>The row for one location; \<open>None\<close> when its time is too short to be taken apart.\<close>

definition loc_cells :: "int \<Rightarrow> string list \<Rightarrow> string list option" where
  "loc_cells nbr res = map_option (\<lambda>tm. [snprintf 64 (dec4 nbr), tm] @ take 5 (drop 1 res)) (splitdatetime (res ! 0))"

definition loclist_header :: "string list" where
  "loclist_header = [''#'', ''Date'', ''Dev.ID'', ''Lat'', ''Lon'', ''Speed'', ''Address'']"

text \<open>The newest ones are numbered downwards from the size of the table, the oldest ones from their number.\<close>

definition loclist_rows :: "bool \<Rightarrow> int \<Rightarrow> string list list \<Rightarrow> string list list option" where
  "loclist_rows head tsize res =
     (let num_cb = length res;
          rows = map (\<lambda>i. if head then loc_cells (tsize - int i) (res ! i)
                          else loc_cells (int (num_cb - i)) (res ! (num_cb - i - 1))) [0..<num_cb]
      in if None \<in> set rows then None else Some (loclist_header # map the rows))"

definition loclist_settings :: "client_info \<Rightarrow> table_t \<Rightarrow> table_t" where
  "loclist_settings cli t =
     (let t1 = snd (utable_set_cellpadding (utable_set_col_cellpadding
                 (snd (utable_set_col_halign (center_header t) 5 RIGHTALIGN)) 5 0 1) 0 5 0 0)
      in if use_unicode_table cli then utable_set_interior t1 True False else t1)"

text \<open>
  The list. \<open>None\<close>: the array of no rows, the size of the table not found for the newest ones, or a time that
  cannot be taken apart.
\<close>

definition db_loclist ::
    "'d db_conf \<Rightarrow> sort_order_t \<Rightarrow> (string \<Rightarrow> int) \<Rightarrow> bool \<Rightarrow> client_info \<Rightarrow> bool \<Rightarrow> nat \<Rightarrow> 'd
     \<Rightarrow> (int \<times> string list \<times> 'd) option" where
  "db_loclist c order wr cutpad cli head numrows d =
     (let sockd = cli_socket cli in
      if 1000 < numrows then Some (-1, writef sockd (''[ERR] Too many rows specified.'' @ [LF]), d)
      else if numrows = 0 then None
      else case db_getloclist c order numrows head d of (rc, res, d1) \<Rightarrow>
        case db_get_size c d1 of (_, tsize, d2) \<Rightarrow>
          if rc \<noteq> 0 then Some (rc, writef sockd ''[ERR] Could not retrieve the last stored location.'', d2)
          else if head \<and> tsize = None then None
          else case loclist_rows head (case tsize of Some n \<Rightarrow> n | None \<Rightarrow> 0) res of
            None \<Rightarrow> None
          | Some rows \<Rightarrow>
              (case stroke_listing wr cutpad (loclist_settings cli)
                      (if use_unicode_table cli then TSTYLE_DOUBLE_V2 else TSTYLE_ASCII_V3) DB_GETLOCLIST_COLS rows of
                 Some (Inr (_, _, txt)) \<Rightarrow> Some (rc, if txt = [] then [] else [txt], d2)
               | _ \<Rightarrow> None))"

definition db_lastloc where "db_lastloc c order wr cutpad cli d = db_loclist c order wr cutpad cli True 1 d"

text \<open>The number of rows is given as \<open>unsigned\<close>.\<close>

definition db_head where "db_head c order wr cutpad cli tsize d = db_loclist c order wr cutpad cli True (to_uint32 tsize) d"
definition db_tail where "db_tail c order wr cutpad cli tsize d = db_loclist c order wr cutpad cli False (to_uint32 tsize) d"

section \<open>Conditions of a selection\<close>

definition db_add_wcond :: "string \<Rightarrow> nat \<Rightarrow> string \<Rightarrow> string \<Rightarrow> string \<Rightarrow> string" where
  "db_add_wcond w maxlen col op val =
     (let v = xstrtrim val; cond = col @ '' '' @ op @ '' '' @ v @ '' '' in
      if v = [] then w
      else if w \<noteq> [] then fst (xstrlcat w (snprintf 255 ('' AND '' @ cond)) maxlen)
      else snprintf maxlen (''WHERE '' @ cond))"

section \<open>Help\<close>

type_synonym db_help_t = "string \<times> string \<times> string \<times> string \<times> string"

definition db_help_list :: "db_help_t list" where
  "db_help_list = [
     (''deletelocations'',
      ''Delete all stored locations. This action CAN NOT BE UNDONE and hence the command name is long intentionally!'',
      [],
      [],
      [DQ] @ ''db deletelocations'' @ [DQ]),
     (''dist'',
      ''Calculate the distance traveled using the Haversine and Vincenity methods'',
      ''[dev=nnn] [ev=nnn] [from to]'',
      ''dev=nnn            Optional. Filter on device id'' @ [LF] @
       ''ev=nnn             Optional. Filter on eventid'' @ [LF] @
       ''[from to]          Optional. Date interval to calculate distance in format '' @ [DQ] @ ''yyyy-mm-dd'' @
       [DQ] @ [LF],
      [DQ] @ ''db dist'' @ [DQ] @ '' - Calculate the total distance using all locations in the database'' @
       [LF] @ [DQ] @ ''db dist 2013-05-01 2013-05-31'' @ [DQ] @
       '' - Calculate the total distance traveled in may'' @ [LF] @ [DQ] @ ''db dist dev=3000000002'' @ [DQ] @
       '' - Calculate the total length for device=3000000002''),
     (''export'',
      ''Export entire or filtered portion of the existing DB to other formats'',
      ''[dev=nnn] [ev=nnn] [from to] (gpx|kml|xml|csv|json) [filename]'',
      ''dev=nnn            Optional. Filter on device id'' @ [LF] @
       ''ev=nnn             Optional. Filter on eventid'' @ [LF] @
       ''[from to]          Optional. Date interval to export in format '' @ [DQ] @ ''yyyy-mm-dd'' @ [DQ] @
       [LF] @ ''(gpx|kml|xml|csv|json)  Mandatory. Which format used for exporting the DB'' @ [LF] @
       ''                    gpx = Exchange format or GPS devices. WIdely used.'' @ [LF] @
       ''                    kml = Format used to display tracks on Google earth and Google maps'' @ [LF] @
       ''                    xml = Export all fields in DB in a XML format. See separate schema docs.'' @ [LF] @
       ''                    csv = Export in comma separated format. Useful for importing into spreadsheets'' @
       [LF] @ ''                    json= Export in JSON format'' @ [LF] @
       ''filename           Optional. Filename of exported file.'' @ [LF],
      [DQ] @ ''db export gpx'' @ [DQ] @ '' - Export entire DB to in GPX format'' @ [LF] @ [DQ] @
       ''db export 2013-01-01 2013-01-31 csv /tmp/jan.xml'' @ [DQ] @ '' - Export all january entries to '' @
       [DQ] @ ''jan.xml'' @ [DQ] @ '' in CSV format'' @ [LF] @ [DQ] @
       ''db export dev=3000000002 kml /tmp/export.xml'' @ [DQ] @
       '' - Export all entries for device=3000000002 to '' @ [DQ] @ ''export.xml'' @ [DQ] @ '' in KML format''),
     (''head'',
      ''Return the n newest locations in the database.'',
      ''[n]'',
      [],
      [DQ] @ ''db head'' @ [DQ] @ '' - Display the newest 10 locations'' @ [LF] @ [DQ] @ ''db head 20'' @
       [DQ] @ '' - Display the newest 20 locations''),
     (''lastloc'',
      ''Display the latest recorded position in DB'',
      [],
      [],
      [DQ] @ ''db lastloc'' @ [DQ]),
     (''mailpos'',
      ''Mail the last recorded position to the predefined mail address in the configuration file'',
      [],
      [],
      [DQ] @ ''db mailpos'' @ [DQ]),
     (''mailcsv'',
      ''Mail a compressed version of a CSV export file of the entire DB as an attachment to the predefined mail address in the configuration file'',
      [],
      [],
      [DQ] @ ''db mailcsv'' @ [DQ]),
     (''mailgpx'',
      ''Mail a compressed version of a GPX export file of the entire DB as an attachment to the predefined mail address in the configuration file'',
      [],
      [],
      [DQ] @ ''db mailgpx'' @ [DQ]),
     (''size'',
      ''Return number of locations stored in the database'',
      [],
      [],
      [DQ] @ ''db size'' @ [DQ]),
     (''sort'',
      ''Set the sort order for the head and tail commands.'',
      ''[arrival|device]'',
      ''arival = Base the sorting on the order the locations was received by the serverdevice = Base the sorting on the order the timestamp on the location updates. This is the default.'',
      [DQ] @ ''db sort device'' @ [DQ] @ '' - Display the oldest 10 locations'' @ [LF]),
     (''tail'',
      ''Return the n oldest locations in the database.'',
      ''[n]'',
      [],
      [DQ] @ ''db tail'' @ [DQ] @ '' - Display the oldest 10 locations'' @ [LF] @ [DQ] @ ''db tail 20'' @
       [DQ] @ '' - Display the oldest 20 locations'')]"

definition db_help :: "client_info \<Rightarrow> string list \<Rightarrow> string list" where
  "db_help cli field =
     (let sockd = cli_socket cli in
      case find (\<lambda>h. strcmp (fst h) (field ! 1) = 0) db_help_list of
        Some (_, desc, syn, arg, examples) \<Rightarrow>
          writef sockd (''db '' @ (field ! 1) @ '' - '' @ desc @ [LF, LF]) @
          writef sockd (''SYNOPSIS:'' @ [LF]) @
          writef sockd (''db '' @ (field ! 1) @ '' '' @ syn @ [LF, LF]) @
          (if arg \<noteq> [] then writef sockd (''ARGUMENTS:'' @ [LF]) @ writef sockd (arg @ [LF, LF]) else []) @
          writef sockd (''EXAMPLES:'' @ [LF]) @
          writef sockd (examples @ [LF, LF])
      | None \<Rightarrow>
          writef sockd (quoted_text (''db '' @ (field ! 1)) @ '' is not a valid database command.'' @ [LF] @ ''Valid commands are:'' @ [LF]) @
          concat (map (\<lambda>h. writef sockd (''db '' @ fst h @ [LF])) db_help_list))"

section \<open>The numbers of the list\<close>

lemma reslist_all:
  "fst (sql_reslist_callback mx cols res rows) \<Longrightarrow> snd (sql_reslist_callback mx cols res rows) = res @ rows
     \<and> (\<forall>r\<in>set rows. length r = cols)"
  by (induction mx cols res rows rule: sql_reslist_callback.induct) (auto split: if_splits)

lemma loclist_rows_nth:
  fixes head tsize res
  defines "item \<equiv> \<lambda>i. if head then loc_cells (tsize - int i) (res ! i) else loc_cells (int (length res - i)) (res ! (length res - i - 1))"
  assumes "loclist_rows head tsize res = Some rows" and "i < length res"
  shows "rows ! Suc i = the (item i)" and "item i \<noteq> None"
proof -
  have e: "loclist_rows head tsize res = (if None \<in> set (map item [0..<length res]) then None
      else Some (loclist_header # map the (map item [0..<length res])))"
    by (simp only: loclist_rows_def Let_def item_def)
  have r: "None \<notin> set (map item [0..<length res])" "rows = loclist_header # map the (map item [0..<length res])"
    using assms(2) unfolding e by (cases "None \<in> set (map item [0..<length res])"; simp)+
  have "item i \<in> set (map item [0..<length res])" using assms(3) by simp
  then show "item i \<noteq> None" using r(1) by metis
  show "rows ! Suc i = the (item i)" unfolding r(2) using assms(3) by simp
qed

text \<open>The place of an element in a sorted list lies between the number of smaller keys and that of keys not greater.\<close>

lemma sorted_rank:
  fixes M :: "('k :: linorder \<times> 'r) list"
  assumes "sorted (map fst M)" and "p < length M"
  shows "length (filter (\<lambda>r. fst r < fst (M ! p)) M) \<le> p" and "p < length (filter (\<lambda>r. fst r \<le> fst (M ! p)) M)"
proof -
  have nth: "fst (M ! a) \<le> fst (M ! b)" if "a \<le> b" "b < length M" for a b
    using sorted_nth_mono [OF assms(1) that(1)] that by simp
  have split: "filter P M = filter P (take n M) @ filter P (drop n M)" for P n
    by (metis append_take_drop_id filter_append)
  have "filter (\<lambda>r. fst r < fst (M ! p)) (drop p M) = []"
  proof -
    have "\<not> fst r < fst (M ! p)" if "r \<in> set (drop p M)" for r
    proof -
      obtain j where j: "j < length M - p" "r = M ! (p + j)" using \<open>r \<in> set (drop p M)\<close> by (auto simp: in_set_conv_nth)
      have "fst (M ! p) \<le> fst (M ! (p + j))" by (rule nth) (use j(1) in simp_all)
      then show ?thesis by (simp add: j(2) not_less)
    qed
    then show ?thesis by (simp add: filter_empty_conv)
  qed
  then have "length (filter (\<lambda>r. fst r < fst (M ! p)) M) \<le> length (take p M)"
    unfolding split [of _ p] by (simp only: append_Nil2 length_filter_le)
  then show "length (filter (\<lambda>r. fst r < fst (M ! p)) M) \<le> p" by simp
  have "filter (\<lambda>r. fst r \<le> fst (M ! p)) (take (Suc p) M) = take (Suc p) M"
  proof -
    have "fst r \<le> fst (M ! p)" if "r \<in> set (take (Suc p) M)" for r
    proof -
      obtain j where j: "j < Suc p" "r = M ! j" using \<open>r \<in> set (take (Suc p) M)\<close> by (auto simp: in_set_conv_nth)
      have "fst (M ! j) \<le> fst (M ! p)" by (rule nth) (use j(1) assms(2) in simp_all)
      then show ?thesis by (simp add: j(2))
    qed
    then show ?thesis by (simp add: filter_id_conv)
  qed
  then have "Suc p \<le> length (filter (\<lambda>r. fst r \<le> fst (M ! p)) M)"
    unfolding split [of _ "Suc p"] using assms(2) by simp
  then show "p < length (filter (\<lambda>r. fst r \<le> fst (M ! p)) M)" by simp
qed

lemma length_filter_mset: "mset xs = mset ys \<Longrightarrow> length (filter P xs) = length (filter P ys)"
  by (metis mset_filter size_mset)

text \<open>
  C37: The number of a location is its rank. The table is a list of rows, each with its key (the time it is sorted
  by); the data base answers with the first \<open>n\<close> rows of any arrangement of it that is ordered by the keys, falling
  for \<^verbatim>\<open>head\<close> and rising for \<^verbatim>\<open>tail\<close>, rows with equal keys in any order. Then a line with number \<open>k\<close> shows a row of the
  table for which fewer than \<open>k\<close> rows are older and at least \<open>k\<close> rows are not newer.
\<close>

theorem listed_number_is_rank:
  fixes table :: "('k :: linorder \<times> string list) list"
  assumes "mset answered = mset table"
    and "sorted_wrt (\<lambda>a b. if head then fst b \<le> fst a else fst a \<le> fst b) answered"
    and "res = map snd (take n answered)" and "loclist_rows head (int (length table)) res = Some rows" and "i < length res"
  shows "\<exists>k key row tm. k = (if head then length table - i else length res - i) \<and> (key, row) \<in> set table
     \<and> length (filter (\<lambda>r. fst r < key) table) < k \<and> k \<le> length (filter (\<lambda>r. fst r \<le> key) table)
     \<and> splitdatetime (row ! 0) = Some tm \<and> rows ! Suc i = [snprintf 64 (dec_pad 4 k), tm] @ take 5 (drop 1 row)"
proof -
  let ?M = "if head then rev answered else answered"
  have len: "length answered = length table" by (rule mset_eq_length [OF assms(1)])
  have sorted: "sorted (map fst ?M)"
    using assms(2) by (cases head) (simp_all add: sorted_wrt_map sorted_wrt_rev)
  have ms: "mset ?M = mset table" using assms(1) by simp
  have i: "i < length table" "i < n" "length res \<le> length table" "length res = min n (length table)"
    using assms(3,5) len by auto
  define p where "p = (if head then length table - Suc i else length res - Suc i)"
  have p: "p < length ?M" using i assms(5) len by (auto simp: p_def)
  obtain key row where kr: "?M ! p = (key, row)" by fastforce
  have "(key, row) \<in> set ?M" using nth_mem [OF p] kr by simp
  then have mem: "(key, row) \<in> set table" using mset_eq_setD [OF ms] by simp
  have k: "Suc p = (if head then length table - i else length res - i)" using i assms(5) by (auto simp: p_def)
  have item: "(if head then loc_cells (int (length table) - int i) (res ! i) else loc_cells (int (length res - i)) (res ! (length res - i - 1)))
      = loc_cells (int (Suc p)) row"
  proof (cases head)
    case True
    then have "answered ! i = (key, row)" using kr i len by (simp add: p_def rev_nth)
    then show ?thesis using True i len by (simp add: assms(3) p_def of_nat_diff)
  next
    case False
    let ?j = "length res - i - 1"
    have a: "answered ! ?j = (key, row)" using False kr by (simp add: p_def)
    have j: "?j < n" "?j < length answered" using i assms(5) len by auto
    then have "res ! ?j = snd (answered ! ?j)" unfolding assms(3) by (subst nth_map) simp_all
    then have "res ! ?j = row" by (simp only: a snd_conv)
    moreover have "length res - i = Suc p" using k False by simp
    ultimately show ?thesis using False by simp
  qed
  have dec4: "dec4 (int m) = dec_pad 4 m" for m by (simp add: dec4_def)
  from loclist_rows_nth(2) [OF assms(4,5), unfolded item] obtain tm where
    tm: "splitdatetime (row ! 0) = Some tm" unfolding loc_cells_def by auto
  have "rows ! Suc i = [snprintf 64 (dec_pad 4 (Suc p)), tm] @ take 5 (drop 1 row)"
    unfolding loclist_rows_nth(1) [OF assms(4,5), unfolded item] loc_cells_def tm by (simp only: dec4 option.map option.sel)
  moreover have "length (filter (\<lambda>r. fst r < key) table) < Suc p" "Suc p \<le> length (filter (\<lambda>r. fst r \<le> key) table)"
    using sorted_rank [OF sorted p] kr unfolding length_filter_mset [OF ms] by simp_all
  ultimately show ?thesis using mem tm k by blast
qed

text \<open>Three locations, two of them stored in the same second, and the two newest as the data base may list them.\<close>

definition eg_table :: "(int \<times> string list) list" where
  "eg_table =
     [(1400000000, [''20140513165320'', ''3000000001'', ''59.3'', ''17.9'', ''0'', ''Stockholm'', ''3.88'']),
      (1400000240, [''20140513165720'', ''3000000001'', ''59.4'', ''17.9'', ''5'', ''Solna'', ''3.87'']),
      (1400000240, [''20140513165721'', ''3000000002'', ''59.5'', ''17.8'', ''0'', ''Kista'', ''3.90''])]"

theorem listed_number_is_rank_witness:
  "\<exists>rows key row tm. loclist_rows True 3 (map snd (take 2 (rev eg_table))) = Some rows \<and> (key, row) \<in> set eg_table
     \<and> length (filter (\<lambda>r. fst r < key) eg_table) < 2 \<and> 2 \<le> length (filter (\<lambda>r. fst r \<le> key) eg_table)
     \<and> rows ! 2 = [snprintf 64 (dec_pad 4 2), tm] @ take 5 (drop 1 row)"
proof -
  have "loclist_rows True (int (length eg_table)) (map snd (take 2 (rev eg_table))) \<noteq> None" by code_simp
  then obtain rows where r: "loclist_rows True (int (length eg_table)) (map snd (take 2 (rev eg_table))) = Some rows" by blast
  have m: "mset (rev eg_table) = mset eg_table" by simp
  have o: "sorted_wrt (\<lambda>a b. if True then fst b \<le> fst a else fst a \<le> fst b) (rev eg_table)" by (simp add: eg_table_def)
  have l: "1 < length (map snd (take 2 (rev eg_table)))" "length eg_table = 3" by (simp_all add: eg_table_def)
  from listed_number_is_rank [OF m o refl r l(1)] r show ?thesis
    by (auto simp: l(2) numeral_2_eq_2)
qed

text \<open>A condition is added for every value that is given, and an empty one adds none.\<close>

lemma db_add_wcond_empty [simp]: "db_add_wcond w n col op [] = w"
  by (simp add: db_add_wcond_def xstrtrim_def Let_def)

end
