(* ===== verification/Export.thy ===== *)
theory Export
  imports Loclist Geoloc
begin

text \<open>
  Exporting the stored locations (\<^verbatim>\<open>src/src/export.c\<close>) and the distance of a selection (\<open>db_calc_distance\<close> of
  \<^verbatim>\<open>dbcmd.c\<close>): the copy of the selected rows in memory, with its growth and its bounding box, the five file
  formats and the command. SQLite, reading a time with \<open>strptime\<close> and \<open>mktime\<close>, opening a file, and the arithmetic
  and printing of \<open>double\<close> are arguments.
\<close>

section \<open>The rows in memory\<close>

record g7loc_t =
  g_deviceid :: string
  g_lat :: string
  g_lon :: string
  g_approxaddr :: string
  g_date :: string
  g_date_timestamp :: u64
  g_altitude :: string
  g_speed :: string
  g_voltage :: string
  g_satellite :: string
  g_event :: string
  g_heading :: string

text \<open>
  The size of \<open>struct g7loc_t\<close> with 64-bit longs, the number by which the list grows, and the state: the rows
  (\<open>resSetLength\<close> is their number), \<open>g7locListSize\<close>, the bytes of the block, and the bounding box.
\<close>

abbreviation (input) G7LOC_SIZE :: nat where "G7LOC_SIZE \<equiv> 280"
abbreviation (input) INTERNAL_LIST_CHUNKSIZE :: nat where "INTERNAL_LIST_CHUNKSIZE \<equiv> 50000"

record internal_set =
  g7loc_list :: "g7loc_t list"
  g7locListSize :: nat
  g7loc_bytes :: nat
  minlat :: string
  maxlat :: string
  minlon :: string
  maxlon :: string

definition empty_set :: internal_set where
  "empty_set = \<lparr> g7loc_list = [], g7locListSize = INTERNAL_LIST_CHUNKSIZE, g7loc_bytes = INTERNAL_LIST_CHUNKSIZE * G7LOC_SIZE,
                 minlat = [], maxlat = [], minlon = [], maxlon = [] \<rparr>"

text \<open>
  \<^verbatim>\<open>20131201093042\<close> becomes \<^verbatim>\<open>2013-12-01T09:30:42Z\<close>; \<open>None\<close> when this reads beyond the end of the text.
\<close>

definition convert_to_utc :: "string \<Rightarrow> string option" where
  "convert_to_utc datetime =
     (case read_range datetime 4 10 of
        None \<Rightarrow> None
      | Some p \<Rightarrow> Some (c_string (take 4 datetime @ ''-'' @ take 2 p @ ''-'' @ take 2 (drop 2 p) @ ''T''
          @ take 2 (drop 4 p) @ '':'' @ take 2 (drop 6 p) @ '':'' @ take 2 (drop 8 p) @ ''Z'')))"

definition lower_of :: "string \<Rightarrow> string \<Rightarrow> string" where
  "lower_of v old = (if strcmp v old < 0 then fst (xstrlcpy v 32) else old)"

definition upper_of :: "string \<Rightarrow> string \<Rightarrow> string" where
  "upper_of v old = (if 0 < strcmp v old then fst (xstrlcpy v 32) else old)"

text \<open>
  The row of an answer, with \<open>mk\<close> the time that \<open>strptime\<close> and \<open>mktime\<close> make of a text. They are given column 2, the
  address, and not column 3, the time of the position.
\<close>

definition g7loc_of_row :: "(string \<Rightarrow> u64) \<Rightarrow> string list \<Rightarrow> g7loc_t option" where
  "g7loc_of_row mk vals =
     map_option (\<lambda>date. \<lparr> g_deviceid = take 15 (vals ! 9), g_lat = take 15 (vals ! 0), g_lon = take 15 (vals ! 1),
         g_approxaddr = take 127 (vals ! 2), g_date = take 31 date, g_date_timestamp = mk (vals ! 2),
         g_altitude = take 7 (vals ! 4), g_speed = take 7 (vals ! 5), g_voltage = take 7 (vals ! 6),
         g_satellite = take 7 (vals ! 10), g_event = take 7 (vals ! 7), g_heading = take 7 (vals ! 8) \<rparr>)
       (convert_to_utc (vals ! 3))"

text \<open>
  The call-back for a row. When the list is full it is reallocated, with its new length taken for a number of
  bytes. \<open>None\<close>: the row is written outside the block, or the time of the row is too short. The flag is whether
  the row was taken.
\<close>

definition export_row :: "(string \<Rightarrow> u64) \<Rightarrow> string list \<Rightarrow> internal_set \<Rightarrow> (bool \<times> internal_set) option" where
  "export_row mk vals s =
     (if length vals \<noteq> 11 then Some (False, s)
      else
        let full = g7locListSize s \<le> length (g7loc_list s);
            s = (if full then s\<lparr> g7loc_bytes := g7locListSize s + INTERNAL_LIST_CHUNKSIZE,
                                 g7locListSize := g7locListSize s + INTERNAL_LIST_CHUNKSIZE \<rparr> else s)
        in if g7loc_bytes s < (length (g7loc_list s) + 1) * G7LOC_SIZE then None
           else case g7loc_of_row mk vals of
             None \<Rightarrow> None
           | Some p \<Rightarrow>
               let first = g7loc_list s = []
               in Some (True, s\<lparr> g7loc_list := g7loc_list s @ [p],
                     minlat := if first then fst (xstrlcpy (g_lat p) 32) else lower_of (g_lat p) (minlat s),
                     maxlat := if first then fst (xstrlcpy (g_lat p) 32) else upper_of (g_lat p) (maxlat s),
                     minlon := if first then fst (xstrlcpy (g_lon p) 32) else lower_of (g_lon p) (minlon s),
                     maxlon := if first then fst (xstrlcpy (g_lon p) 32) else upper_of (g_lon p) (maxlon s) \<rparr>))"

fun sqres_export_callback :: "(string \<Rightarrow> u64) \<Rightarrow> string list list \<Rightarrow> internal_set \<Rightarrow> (bool \<times> internal_set) option" where
  "sqres_export_callback mk [] s = Some (True, s)"
| "sqres_export_callback mk (vals # rest) s =
     (case export_row mk vals s of
        None \<Rightarrow> None
      | Some (taken, s') \<Rightarrow> if taken then sqres_export_callback mk rest s' else Some (False, s'))"

definition export_where :: "string \<Rightarrow> string \<Rightarrow> string \<Rightarrow> string \<Rightarrow> string" where
  "export_where fromDate toDate deviceId eventId =
     db_add_wcond (db_add_wcond (db_add_wcond (db_add_wcond [] 512 ''fld_datetime'' ''>='' fromDate)
        512 ''fld_datetime'' ''<='' toDate) 512 ''fld_deviceid'' ''='' deviceId) 512 ''fld_event'' ''='' eventId"

definition export_select :: string where
  "export_select = ''select fld_lat, fld_lon, fld_approxaddr, fld_datetime, fld_altitude, fld_speed,'' @
     ''fld_voltage, fld_event, fld_heading, fld_deviceid, fld_satellite '' @ ''from '' @ DB_TABLE_LOC @ '' ''"

definition export_stmt :: "string \<Rightarrow> string \<Rightarrow> string \<Rightarrow> string \<Rightarrow> string" where
  "export_stmt fromDate toDate deviceId eventId =
     fst (xstrlcat (fst (xstrlcat (snprintf 1024 export_select) (export_where fromDate toDate deviceId eventId) 1024)) '';'' 1024)"

definition export_to_internal_set ::
    "'d sql_exec \<Rightarrow> (string \<Rightarrow> u64) \<Rightarrow> string \<Rightarrow> string \<Rightarrow> string \<Rightarrow> string \<Rightarrow> internal_set \<Rightarrow> 'd
     \<Rightarrow> (int \<times> internal_set \<times> 'd) option" where
  "export_to_internal_set exec mk fromDate toDate deviceId eventId s d =
     (if 0 < strcmp fromDate toDate then Some (-2, s, d)
      else case exec d (export_stmt fromDate toDate deviceId eventId) of (sql_ok, rows, d') \<Rightarrow>
        if \<not> sql_ok then Some (-1, empty_set, d')
        else map_option (\<lambda>(taken, s'). (if taken then 0 else -1, s', d')) (sqres_export_callback mk rows empty_set))"

section \<open>The file\<close>

text \<open>The path that is opened, \<open>None\<close> for a relative one.\<close>

definition export_path :: "string \<Rightarrow> string \<Rightarrow> string option" where
  "export_path data_dir fileName =
     (if 512 < length fileName then None
      else let w = xstrtrim (fst (xstrlcpy fileName 512));
               isAbsPath = (w \<noteq> [] \<and> hd w = CHR ''/'');
               i = (if w = [] then 1 else Suc (find_idx (\<lambda>c. c = CHR ''/'') (tl w)));
               isRelPath = (i < length w \<and> \<not> isAbsPath)
           in if isRelPath then None
              else Some (if isAbsPath then take 1023 w else snprintf 1024 (data_dir @ ''/'' @ w)))"

definition utc_text :: "nat \<times> nat \<times> nat \<times> nat \<times> nat \<times> nat \<Rightarrow> string" where
  "utc_text t = (case t of (y, m, d, h, mi, s) \<Rightarrow>
     dec y @ ''-'' @ dec_pad 2 m @ ''-'' @ dec_pad 2 d @ ''T'' @ dec_pad 2 h @ '':'' @ dec_pad 2 mi @ '':'' @ dec_pad 2 s @ ''Z'')"

definition xml_attr :: "string \<Rightarrow> string \<Rightarrow> string" where
  "xml_attr nm v = nm @ ''='' @ [DQ] @ v @ [DQ]"

definition xml_elem :: "string \<Rightarrow> string \<Rightarrow> string" where
  "xml_elem nm v = ''<'' @ nm @ ''>'' @ v @ ''</'' @ nm @ ''>''"

definition XML_DECL :: string where
  "XML_DECL = ''<?xml '' @ xml_attr ''version'' ''1.0'' @ '' '' @ xml_attr ''encoding'' ''UTF-8'' @ ''?>'' @ [LF]"

definition bounds_elem :: "internal_set \<Rightarrow> string" where
  "bounds_elem s = ''<bounds '' @ xml_attr ''minlat'' (minlat s) @ '' '' @ xml_attr ''minlon'' (minlon s) @ '' '' @
     xml_attr ''maxlat'' (maxlat s) @ '' '' @ xml_attr ''maxlon'' (maxlon s) @ '' />'' @ [LF]"

abbreviation (input) CREATOR :: string where "CREATOR \<equiv> ''g7ctrl http://www.sourceforge.com/p/g7ctrl''"
abbreviation (input) XSI :: string where "XSI \<equiv> ''http://www.w3.org/2001/XMLSchema-instance''"

subsection \<open>XML\<close>

definition prop_xml_header :: "string \<Rightarrow> string" where
  "prop_xml_header exportdate =
     XML_DECL @ ''<g7ctr '' @ xml_attr ''version'' ''1.0'' @ '' '' @ [LF] @ xml_attr ''exportdate'' exportdate @ '' '' @ [LF] @
     xml_attr ''creator'' CREATOR @ '' '' @ [LF] @ xml_attr ''xmlns:xsi'' XSI @ [LF] @
     xml_attr ''xmlns'' ''http://www.aditus.nu/G7CTRLDB/1.0'' @ [LF] @
     xml_attr ''xsi:schemaLocation'' ''http://www.aditus.nu/G7CTRLDB/1.0 http://www.aditus.nu/G7CTRLDB/1.0/g7ctrl.rng'' @ ''>'' @ [LF]"

definition prop_xml_event :: "g7loc_t \<Rightarrow> string" where
  "prop_xml_event p =
     ''  <event '' @ xml_attr ''eventid'' (g_event p) @ '' '' @ xml_attr ''devid'' (g_deviceid p) @ '' '' @
       xml_attr ''lat'' (g_lat p) @ '' '' @ xml_attr ''lon'' (g_lon p) @ '' '' @ xml_attr ''alt'' (g_altitude p) @ ''>'' @ [LF] @
     ''    '' @ xml_elem ''address'' (g_approxaddr p) @ [LF] @
     ''    '' @ xml_elem ''datetime'' (g_date p) @ [LF] @
     ''    '' @ xml_elem ''speed'' (g_speed p) @ [LF] @
     ''    '' @ xml_elem ''voltage'' (g_voltage p) @ [LF] @
     ''    '' @ xml_elem ''heading'' (g_heading p) @ [LF] @
     ''    '' @ xml_elem ''sat'' (g_satellite p) @ [LF] @
     ''  </event>'' @ [LF]"

definition export_to_prop_xml :: "nat \<times> nat \<times> nat \<times> nat \<times> nat \<times> nat \<Rightarrow> internal_set \<Rightarrow> string" where
  "export_to_prop_xml now s =
     prop_xml_header (utc_text now) @ bounds_elem s @ concat (map prop_xml_event (g7loc_list s)) @ ''</g7ctrl>'' @ [LF]"

subsection \<open>GPX\<close>

definition gpx_header :: string where
  "gpx_header =
     XML_DECL @ ''<gpx '' @ xml_attr ''version'' ''1.1'' @ '' '' @ [LF] @ xml_attr ''creator'' CREATOR @ '' '' @ [LF] @
     xml_attr ''xmlns:xsi'' XSI @ [LF] @ xml_attr ''xmlns'' ''http://www.topografix.com/GPX/1/1'' @ [LF] @
     xml_attr ''xsi:schemaLocation'' ''http://www.topografix.com/GPX/1/0 http://www.topografix.com/GPX/1/0/gpx.xsd'' @ ''>'' @ [LF]"

definition gpx_track_begin :: "nat \<Rightarrow> string" where
  "gpx_track_begin numTrack =
     ''<trk>'' @ [LF] @ ''  <name>Track '' @ dec_pad 2 numTrack @ '': GM7 Xtreme GPS tracker</name>'' @ [LF] @ ''  <trkseg>'' @ [LF]"

definition gpx_point :: "g7loc_t \<Rightarrow> string" where
  "gpx_point p =
     ''    <trkpt '' @ xml_attr ''lat'' (g_lat p) @ '' '' @ xml_attr ''lon'' (g_lon p) @ ''>'' @ [LF] @
     ''      '' @ xml_elem ''ele'' (g_altitude p) @ [LF] @
     ''      '' @ xml_elem ''time'' (g_date p) @ '' '' @ xml_elem ''timestamp'' (dec (unat (g_date_timestamp p))) @ [LF] @
     ''      '' @ xml_elem ''course'' (g_heading p) @ [LF] @
     ''      '' @ xml_elem ''speed'' (g_speed p) @ [LF] @
     ''      '' @ xml_elem ''sat'' (g_satellite p) @ [LF] @
     ''    </trkpt>'' @ [LF]"

text \<open>The points, with the splits into tracks and segments at pauses; the minutes are of type \<open>int\<close>.\<close>

fun gpx_points :: "int \<Rightarrow> int \<Rightarrow> nat \<Rightarrow> u64 \<Rightarrow> g7loc_t list \<Rightarrow> string" where
  "gpx_points track_split_time trackseg_split_time numTrack prevDateTime [] = []"
| "gpx_points track_split_time trackseg_split_time numTrack prevDateTime (p # ps) =
     (let diff = g_date_timestamp p - prevDateTime in
      if 0 < track_split_time \<and> (word_of_int track_split_time :: u64) * 60 < diff then
        ''  </trkseg>'' @ [LF] @ ''</trk>'' @ [LF] @ gpx_track_begin numTrack @ gpx_point p @
        gpx_points track_split_time trackseg_split_time (numTrack + 1) (g_date_timestamp p) ps
      else if 0 < trackseg_split_time \<and> (word_of_int trackseg_split_time :: u64) * 60 < diff then
        ''  </trkseg>'' @ [LF] @ ''  <trkseg>'' @ [LF] @ gpx_point p @
        gpx_points track_split_time trackseg_split_time numTrack (g_date_timestamp p) ps
      else gpx_point p @ gpx_points track_split_time trackseg_split_time numTrack (g_date_timestamp p) ps)"

definition export_to_gpx :: "int \<Rightarrow> int \<Rightarrow> nat \<times> nat \<times> nat \<times> nat \<times> nat \<times> nat \<Rightarrow> internal_set \<Rightarrow> string" where
  "export_to_gpx track_split_time trackseg_split_time now s =
     gpx_header @ ''<metadata>'' @ [LF] @ ''  '' @ xml_elem ''time'' (utc_text now) @ [LF] @ ''</metadata>'' @ [LF] @
     bounds_elem s @ gpx_track_begin 1 @
     gpx_points track_split_time trackseg_split_time 2
       (if g7loc_list s = [] then 0 else g_date_timestamp (hd (g7loc_list s))) (g7loc_list s) @
     ''  </trkseg>'' @ [LF] @ ''</trk>'' @ [LF] @ ''</gpx>'' @ [LF]"

subsection \<open>KML\<close>

definition kml_header :: string where
  "kml_header = XML_DECL @ ''<kml '' @ xml_attr ''xmlns'' ''http://www.opengis.net/kml/2.2'' @ [LF] @ xml_attr ''creator'' CREATOR @ ''>'' @ [LF]"

definition kml_placemark :: "nat \<Rightarrow> g7loc_t \<Rightarrow> string" where
  "kml_placemark i p =
     ''<placemark>'' @ [LF] @ ''  '' @ xml_elem ''name'' (''#'' @ dec i) @ [LF] @ ''  '' @ xml_elem ''description'' (g_date p) @ [LF] @
     ''  <point>'' @ [LF] @ ''    '' @ xml_elem ''coordinates'' (g_lat p @ '','' @ g_lon p) @ [LF] @ ''  </point>'' @ [LF] @
     ''</placemark>'' @ [LF]"

definition export_to_kml :: "internal_set \<Rightarrow> string" where
  "export_to_kml s =
     kml_header @ concat (map (\<lambda>(i, p). kml_placemark i p) (zip [0..<length (g7loc_list s)] (g7loc_list s))) @ ''</kml>'' @ [LF]"

subsection \<open>CSV\<close>

definition csv_header :: string where
  "csv_header = ''date,device,latitude,longitude,address,elevation,speed,heading,satellite,event,voltage'' @ [LF]"

definition csv_line :: "g7loc_t \<Rightarrow> string" where
  "csv_line p =
     quoted_text (g_date p) @ '','' @ quoted_text (g_deviceid p) @ '','' @ quoted_text (g_lat p) @ '','' @ quoted_text (g_lon p) @
     '','' @ quoted_text (g_approxaddr p) @ '','' @ g_altitude p @ '','' @ g_speed p @ '','' @ g_heading p @ '','' @
     g_satellite p @ '','' @ g_event p @ '','' @ quoted_text (g_voltage p) @ [LF]"

definition export_to_csv :: "internal_set \<Rightarrow> string" where
  "export_to_csv s = csv_header @ concat (map csv_line (g7loc_list s)) @ [LF]"

subsection \<open>JSON\<close>

definition json_position :: "g7loc_t \<Rightarrow> string" where
  "json_position p =
     ''['' @ quoted_text (g_date p) @ '','' @ g_deviceid p @ '','' @ g_lat p @ '','' @ g_lon p @ '','' @
     quoted_text (g_approxaddr p) @ '','' @ g_altitude p @ '','' @ g_speed p @ '','' @ g_heading p @ '','' @
     g_satellite p @ '','' @ g_event p @ '','' @ g_voltage p @ '']''"

definition json_file_header :: "string \<Rightarrow> internal_set \<Rightarrow> string" where
  "json_file_header exportdate s =
     ''{'' @ quoted_text ''ver'' @ '':'' @ quoted_text ''1.0'' @ '','' @ [LF] @
     quoted_text ''exportdate'' @ '':'' @ quoted_text exportdate @ '','' @ [LF] @
     quoted_text ''creator'' @ '':'' @ quoted_text CREATOR @ '','' @ [LF] @
     quoted_text ''bbox'' @ '': { '' @ quoted_text ''minlat'' @ '' : '' @ minlat s @ '', '' @ quoted_text ''minlon'' @ '' : '' @ minlon s @
     '', '' @ quoted_text ''maxlat'' @ '' : '' @ maxlat s @ '', '' @ quoted_text ''maxlon'' @ '' : '' @ maxlon s @ '' },'' @ [LF] @
     quoted_text ''positions'' @ '' : [''"

fun json_positions :: "g7loc_t list \<Rightarrow> string" where
  "json_positions [] = []"
| "json_positions [p] = json_position p"
| "json_positions (p # q # ps) = json_position p @ '','' @ [LF] @ json_positions (q # ps)"

definition export_to_json :: "nat \<times> nat \<times> nat \<times> nat \<times> nat \<times> nat \<Rightarrow> internal_set \<Rightarrow> string" where
  "export_to_json now s = json_file_header (utc_text now) s @ json_positions (g7loc_list s) @ '']}'' @ [LF]"

section \<open>The commands\<close>

text \<open>
  What the commands need besides the data base: reading a time, opening a file for writing, the directory of
  exported files, the local time, the pauses that split a track.
\<close>

record export_env =
  ex_mk :: "string \<Rightarrow> u64"
  ex_open :: "string \<Rightarrow> bool"
  ex_data_dir :: string
  ex_now :: "nat \<times> nat \<times> nat \<times> nat \<times> nat \<times> nat"
  ex_track_split_time :: int
  ex_trackseg_split_time :: int

text \<open>An unmatched group of the pattern is an empty field.\<close>

definition or_text :: "string \<Rightarrow> string \<Rightarrow> string" where
  "or_text f dflt = (if f = [] then dflt else f)"

definition from_time :: "string list \<Rightarrow> string" where
  "from_time f = snprintf 16 (f ! 6 @ f ! 7 @ f ! 8 @ or_text (f ! 10) ''00'' @ or_text (f ! 11) ''00'' @ ''00'')"

definition to_time :: "nat \<Rightarrow> string list \<Rightarrow> string" where
  "to_time nf f =
     (if 18 \<le> nf then snprintf 16 (f ! 12 @ f ! 13 @ f ! 14 @ or_text (f ! 16) ''23'' @ or_text (f ! 17) ''59'' @ ''59'')
      else snprintf 16 (f ! 12 @ f ! 13 @ f ! 14 @ ''235959''))"

text \<open>File name, format, device, event, the two times. A time without a date is six digits long and is dropped.\<close>

definition export_args :: "string \<Rightarrow> nat \<Rightarrow> string list \<Rightarrow> string \<times> string \<times> string \<times> string \<times> string \<times> string" where
  "export_args db_dir nf f =
     (let filename = snprintf 256 (db_dir @ ''/'' @ ''g7db_export'') in
      if nf < 8 then (filename, ''csv'', [], [], [], [])
      else
        let no6 = (\<lambda>t. if length t = 6 then [] else t);
            devid = snprintf 16 (f ! 2); eventid = snprintf 8 (f ! 4)
        in if nf < 15 then (filename, ''csv'', devid, eventid, no6 (snprintf 16 (f ! 6 @ f ! 7 @ f ! 8 @ ''000000'')), [])
           else (if 21 \<le> nf then snprintf 256 (f ! 20) else filename, snprintf 8 (f ! 18), devid, eventid,
                 no6 (from_time f), no6 (to_time nf f)))"

text \<open>The extension and the text for a format.\<close>

definition export_format :: "export_env \<Rightarrow> string \<Rightarrow> (string \<times> (internal_set \<Rightarrow> string)) option" where
  "export_format e fmt =
     (if strcmp fmt ''gpx'' = 0 then Some (''.gpx'', export_to_gpx (ex_track_split_time e) (ex_trackseg_split_time e) (ex_now e))
      else if xstricmp fmt ''csv'' = 0 then Some (''.csv'', export_to_csv)
      else if xstricmp fmt ''kml'' = 0 then Some (''.kml'', export_to_kml)
      else if xstricmp fmt ''xml'' = 0 then Some (''.xml'', export_to_prop_xml (ex_now e))
      else if xstricmp fmt ''json'' = 0 then Some (''.json'', export_to_json (ex_now e))
      else None)"

text \<open>The result, the texts for the client, the file with its contents, the data base.\<close>

definition exportdb_to_external_format ::
    "'d db_conf \<Rightarrow> export_env \<Rightarrow> client_info \<Rightarrow> nat \<Rightarrow> string list \<Rightarrow> internal_set \<Rightarrow> 'd
     \<Rightarrow> (int \<times> string list \<times> (string \<times> string) option \<times> 'd) option" where
  "exportdb_to_external_format c e cli nf f s d =
     (let sockd = cli_socket cli in
      case db_setup c d of (rc, d1) \<Rightarrow>
        if rc \<noteq> 0 then Some (-1, writef sockd (''Cannot connect to DB'' @ [LF, LF]), None, d1)
        else case export_args (dc_dir c) nf f of (filename, fmt, devid, eventid, from_date, to_date) \<Rightarrow>
          (case export_to_internal_set (dc_exec c) (ex_mk e) from_date to_date devid eventid s d1 of
             None \<Rightarrow> None
           | Some (rc, s', d2) \<Rightarrow>
               let d3 = dc_close c d2 in
               if rc < 0 then
                 Some (-1, writef sockd (if rc = -2 then quoted_text ''From Date'' @ '' can not be larger than '' @ quoted_text ''To Date'' @ [LF]
                                         else ''Problem reading DB'' @ [LF]), None, d3)
               else case export_format e fmt of
                 None \<Rightarrow> Some (-1, writef sockd (''Unknown export format. Must be one of (GPX/KML/XML/CSV/JSON)'' @ [LF, LF]), None, d3)
               | Some (ext, text_of) \<Rightarrow>
                   let fname = (if fst (xstrfext filename) = 0 then filename else fst (xstrlcat filename ext 256));
                       failed = Some (-1, writef sockd (''Failed to export in '' @ fmt @ '' format to '' @ quoted_text fname @ [LF]), None, d3)
                   in (case export_path (ex_data_dir e) fname of
                         None \<Rightarrow> failed
                       | Some path \<Rightarrow>
                           if \<not> ex_open e path then failed
                           else Some (0, writef sockd (''Exported '' @ dec (length (g7loc_list s')) @ '' records in '' @ fmt @
                                   '' format to '' @ quoted_text fname @ [LF]), Some (path, text_of s'), d3))))"

text \<open>
  The distance along the selected locations. \<open>km\<close> and \<open>metres\<close> are the two formulas, \<open>num\<close> reads a number, \<open>fmt1\<close>
  and \<open>fmt0\<close> print one with one and with no decimal, \<open>rnd\<close> rounds.
\<close>

record distance_env =
  di_num :: "string \<Rightarrow> rat"
  di_km :: "rat \<Rightarrow> rat \<Rightarrow> rat \<Rightarrow> rat \<Rightarrow> rat"
  di_metres :: "rat \<Rightarrow> rat \<Rightarrow> rat \<Rightarrow> rat \<Rightarrow> rat"
  di_fmt1 :: "rat \<Rightarrow> string"
  di_fmt0 :: "rat \<Rightarrow> string"

fun path_length :: "(string \<Rightarrow> rat) \<Rightarrow> (rat \<Rightarrow> rat \<Rightarrow> rat \<Rightarrow> rat \<Rightarrow> rat) \<Rightarrow> g7loc_t list \<Rightarrow> rat" where
  "path_length num len1 (p # q # ps) = len1 (num (g_lat p)) (num (g_lon p)) (num (g_lat q)) (num (g_lon q)) + path_length num len1 (q # ps)"
| "path_length num len1 ps = 0"

definition distance_text :: "distance_env \<Rightarrow> g7loc_t list \<Rightarrow> string" where
  "distance_text di ps =
     (let len1 = path_length (di_num di) (di_km di) ps; len2 = path_length (di_num di) (di_metres di) ps in
      if 1 < len1
      then di_fmt1 di (of_int (lround (len1 * 10)) / 10) @ '' km (alt. '' @ di_fmt1 di (of_int (lround (len2 * 10)) / 10) @ '' m)''
      else di_fmt0 di (of_int (lround (len1 * 1000))) @ '' m'')"

definition distance_args :: "nat \<Rightarrow> string list \<Rightarrow> string \<times> string \<times> string \<times> string" where
  "distance_args nf f =
     (if 2 < nf then snprintf 16 (f ! 2) else [], if 4 < nf then snprintf 8 (f ! 4) else [],
      if 15 \<le> nf then from_time f else if 11 < nf then snprintf 16 (f ! 6 @ f ! 7 @ f ! 8 @ ''000000'') else [],
      if 15 \<le> nf then to_time nf f else [])"

definition db_calc_distance ::
    "'d db_conf \<Rightarrow> (string \<Rightarrow> u64) \<Rightarrow> distance_env \<Rightarrow> client_info \<Rightarrow> nat \<Rightarrow> string list \<Rightarrow> internal_set \<Rightarrow> 'd
     \<Rightarrow> (int \<times> string list \<times> 'd) option" where
  "db_calc_distance c mk di cli nf f s d =
     (let sockd = cli_socket cli in
      case db_setup c d of (rc, d1) \<Rightarrow>
        if rc \<noteq> 0 then Some (-1, writef sockd ''[ERR] Cannot connect to DB'', d1)
        else case distance_args nf f of (devid, eventid, from_date, to_date) \<Rightarrow>
          (case export_to_internal_set (dc_exec c) mk from_date to_date devid eventid s d1 of
             None \<Rightarrow> None
           | Some (rc, s', d2) \<Rightarrow>
               let n = length (g7loc_list s'); d3 = dc_close c d2 in
               if rc = 0 then
                 Some (rc, if 1 < n then writef sockd (''Calculating approximate distance using '' @ dec n @ '' points.'' @ [LF]) @
                                         writef sockd (distance_text di (g7loc_list s'))
                           else writef sockd ''[ERR] Selection must have at least two points.'', d3)
               else Some (rc, writef sockd (if rc = -2
                   then ''[ERR] '' @ quoted_text ''From Date'' @ '' can not be larger than '' @ quoted_text ''To Date''
                   else ''[ERR] Problem reading DB''), d3)))"

section \<open>The copy in memory\<close>

text \<open>Rows as the statement answers them: eleven columns, with a time of at least 13 characters.\<close>

definition answer_row :: "string list \<Rightarrow> bool" where
  "answer_row vals \<longleftrightarrow> length vals = 11 \<and> 13 \<le> length (vals ! 3)"

definition row_g7loc :: "(string \<Rightarrow> u64) \<Rightarrow> string list \<Rightarrow> g7loc_t" where
  "row_g7loc mk vals = the (g7loc_of_row mk vals)"

lemma read_range_some: "f + n \<le> Suc (length str) \<Longrightarrow> \<exists>p. read_range str f n = Some p"
  by (induction str f n rule: read_range.induct) (auto simp: c_at_def)

lemma g7loc_of_row_some: "answer_row vals \<Longrightarrow> g7loc_of_row mk vals = Some (row_g7loc mk vals)"
proof -
  assume "answer_row vals"
  then have "4 + 10 \<le> Suc (length (vals ! 3))" by (simp add: answer_row_def)
  from read_range_some [OF this] obtain p where "read_range (vals ! 3) 4 10 = Some p" by blast
  then show ?thesis by (simp add: row_g7loc_def g7loc_of_row_def convert_to_utc_def)
qed

text \<open>Least and greatest texts, in the order of \<open>strcmp\<close>.\<close>

definition box_ok :: "internal_set \<Rightarrow> bool" where
  "box_ok s \<longleftrightarrow> g7loc_list s \<noteq> [] \<longrightarrow>
     minlat s = Min (g_lat ` set (g7loc_list s)) \<and> maxlat s = Max (g_lat ` set (g7loc_list s))
     \<and> minlon s = Min (g_lon ` set (g7loc_list s)) \<and> maxlon s = Max (g_lon ` set (g7loc_list s))"

lemma g7loc_short:
  "g7loc_of_row mk vals = Some p \<Longrightarrow> length (g_lat p) \<le> 15 \<and> length (g_lon p) \<le> 15"
  by (auto simp: g7loc_of_row_def)

lemma lower_of_eq: "length v \<le> 15 \<Longrightarrow> lower_of v m = min v m"
  by (cases v m rule: linorder_cases) (auto simp: lower_of_def strcmp_def min_def dest: less_imp_le)

lemma upper_of_eq: "length v \<le> 15 \<Longrightarrow> upper_of v m = max v m"
  by (cases v m rule: linorder_cases) (auto simp: upper_of_def strcmp_def max_def dest: less_imp_le)

lemma lower_min: "finite A \<Longrightarrow> A \<noteq> {} \<Longrightarrow> length v \<le> 15 \<Longrightarrow> lower_of v (Min A) = Min (insert v A)"
  by (subst lower_of_eq, assumption) (rule Min_insert [symmetric])

lemma upper_max: "finite A \<Longrightarrow> A \<noteq> {} \<Longrightarrow> length v \<le> 15 \<Longrightarrow> upper_of v (Max A) = Max (insert v A)"
  by (subst upper_of_eq, assumption) (rule Max_insert [symmetric])

lemma export_row_step:
  assumes "answer_row vals" and "g7locListSize s = INTERNAL_LIST_CHUNKSIZE" and "g7loc_bytes s = INTERNAL_LIST_CHUNKSIZE * G7LOC_SIZE"
    and "length (g7loc_list s) < INTERNAL_LIST_CHUNKSIZE" and "box_ok s"
  shows "\<exists>s'. export_row mk vals s = Some (True, s') \<and> g7loc_list s' = g7loc_list s @ [row_g7loc mk vals]
     \<and> g7locListSize s' = INTERNAL_LIST_CHUNKSIZE \<and> g7loc_bytes s' = INTERNAL_LIST_CHUNKSIZE * G7LOC_SIZE \<and> box_ok s'"
proof -
  let ?p = "row_g7loc mk vals"
  note p = g7loc_of_row_some [OF assms(1), of mk]
  note short = g7loc_short [OF p]
  have len: "length vals = 11" using assms(1) by (simp add: answer_row_def)
  let ?s' = "s\<lparr> g7loc_list := g7loc_list s @ [?p],
       minlat := if g7loc_list s = [] then fst (xstrlcpy (g_lat ?p) 32) else lower_of (g_lat ?p) (minlat s),
       maxlat := if g7loc_list s = [] then fst (xstrlcpy (g_lat ?p) 32) else upper_of (g_lat ?p) (maxlat s),
       minlon := if g7loc_list s = [] then fst (xstrlcpy (g_lon ?p) 32) else lower_of (g_lon ?p) (minlon s),
       maxlon := if g7loc_list s = [] then fst (xstrlcpy (g_lon ?p) 32) else upper_of (g_lon ?p) (maxlon s) \<rparr>"
  have "export_row mk vals s = Some (True, ?s')"
    using assms(2-4) len p by (simp add: export_row_def Let_def)
  moreover have "box_ok ?s'"
  proof (cases "g7loc_list s = []")
    case True
    then show ?thesis using short by (simp add: box_ok_def)
  next
    case False
    then have "set (g7loc_list s) \<noteq> {}" by simp
    with False assms(5) short show ?thesis unfolding box_ok_def by (simp add: lower_min upper_max)
  qed
  ultimately show ?thesis using assms(2,3) by (intro exI [of _ ?s'] conjI) simp_all
qed

lemma export_callback_all:
  "\<forall>vals\<in>set rows. answer_row vals \<Longrightarrow> g7locListSize s = INTERNAL_LIST_CHUNKSIZE \<Longrightarrow>
   g7loc_bytes s = INTERNAL_LIST_CHUNKSIZE * G7LOC_SIZE \<Longrightarrow>
   length (g7loc_list s) + length rows \<le> INTERNAL_LIST_CHUNKSIZE \<Longrightarrow> box_ok s \<Longrightarrow>
   \<exists>s'. sqres_export_callback mk rows s = Some (True, s') \<and> g7loc_list s' = g7loc_list s @ map (row_g7loc mk) rows
     \<and> g7locListSize s' = INTERNAL_LIST_CHUNKSIZE \<and> g7loc_bytes s' = INTERNAL_LIST_CHUNKSIZE * G7LOC_SIZE \<and> box_ok s'"
proof (induction rows arbitrary: s)
  case (Cons vals rows)
  then have a: "answer_row vals" "length (g7loc_list s) < INTERNAL_LIST_CHUNKSIZE" by simp_all
  obtain s1 where s1: "export_row mk vals s = Some (True, s1)" "g7loc_list s1 = g7loc_list s @ [row_g7loc mk vals]"
    "g7locListSize s1 = INTERNAL_LIST_CHUNKSIZE" "g7loc_bytes s1 = INTERNAL_LIST_CHUNKSIZE * G7LOC_SIZE" "box_ok s1"
    using export_row_step [OF a(1) Cons.prems(2,3) a(2) Cons.prems(5)] by blast
  have "length (g7loc_list s1) + length rows \<le> INTERNAL_LIST_CHUNKSIZE" using Cons.prems(4) by (simp add: s1(2))
  moreover have "\<forall>vals\<in>set rows. answer_row vals" using Cons.prems(1) by simp
  ultimately show ?case using Cons.IH [OF _ s1(3,4) _ s1(5)] by (auto simp: s1(1,2))
qed simp

lemma export_callback_empty_set:
  assumes "\<forall>vals\<in>set rows. answer_row vals" and "length rows \<le> INTERNAL_LIST_CHUNKSIZE"
  shows "\<exists>s. sqres_export_callback mk rows empty_set = Some (True, s) \<and> g7loc_list s = map (row_g7loc mk) rows \<and> box_ok s"
proof -
  have e: "g7locListSize empty_set = INTERNAL_LIST_CHUNKSIZE" "g7loc_bytes empty_set = INTERNAL_LIST_CHUNKSIZE * G7LOC_SIZE"
    "length (g7loc_list empty_set) + length rows \<le> INTERNAL_LIST_CHUNKSIZE" "box_ok empty_set"
    using assms(2) by (simp_all add: empty_set_def box_ok_def)
  show ?thesis using export_callback_all [OF assms(1) e, of mk] by (auto simp: empty_set_def)
qed












text \<open>
  The bounding box holds the least and the greatest of the coordinates in the order of texts, not of numbers: of the
  latitudes 9.5 and 59.3 the text \<^verbatim>\<open>9.5\<close> is the greater one.
\<close>

definition eg_answer :: "string \<Rightarrow> string list" where
  "eg_answer lat = [lat, ''17.959445'', ''Norrlandsgatan 1, Stockholm'', ''20140513165320'', ''12'', ''0'', ''3.88'', ''2'', ''0'', ''3000000001'', ''7'']"

lemma box_in_order_of_texts:
  "\<exists>s. sqres_export_callback (\<lambda>_. 0) [eg_answer ''9.5'', eg_answer ''59.3''] empty_set = Some (True, s) \<and> maxlat s = ''9.5'' \<and> minlat s = ''59.3''"
proof -
  let ?rows = "[eg_answer ''9.5'', eg_answer ''59.3'']"
  have a: "\<forall>vals\<in>set ?rows. answer_row vals" "length ?rows \<le> INTERNAL_LIST_CHUNKSIZE"
    by (simp_all add: answer_row_def eg_answer_def)
  have "g_lat (row_g7loc (\<lambda>_. 0) (eg_answer ''9.5'')) = ''9.5''" "g_lat (row_g7loc (\<lambda>_. 0) (eg_answer ''59.3'')) = ''59.3''"
    by code_simp+
  moreover have "''59.3'' < (''9.5'' :: string)" by (simp add: less_list_code)
  ultimately show ?thesis using export_callback_empty_set [OF a, of "\<lambda>_. 0"] by (auto simp: min_def max_def box_ok_def)
qed

text \<open>One location more, and the block, reallocated to 100000 bytes, is written outside.\<close>

theorem export_overruns:
  assumes "\<forall>vals\<in>set rows. answer_row vals" and "INTERNAL_LIST_CHUNKSIZE < length rows"
  shows "sqres_export_callback mk rows empty_set = None"
proof -
  obtain rs v vs where r: "rows = rs @ v # vs" "length rs = INTERNAL_LIST_CHUNKSIZE"
    using id_take_nth_drop [OF assms(2)] assms(2) by (metis length_take min.absorb4)
  have e: "g7locListSize empty_set = INTERNAL_LIST_CHUNKSIZE" "g7loc_bytes empty_set = INTERNAL_LIST_CHUNKSIZE * G7LOC_SIZE"
    "length (g7loc_list empty_set) + length rs \<le> INTERNAL_LIST_CHUNKSIZE" "box_ok empty_set"
    using r(2) by (simp_all add: empty_set_def box_ok_def)
  have a: "\<forall>vals\<in>set rs. answer_row vals" "answer_row v" using assms(1) r(1) by simp_all
  obtain s where s: "sqres_export_callback mk rs empty_set = Some (True, s)"
    "g7loc_list s = g7loc_list empty_set @ map (row_g7loc mk) rs" "g7locListSize s = INTERNAL_LIST_CHUNKSIZE"
    using export_callback_all [OF a(1) e] by blast
  have "export_row mk v s = None"
    using s(2,3) r(2) a(2) by (simp add: export_row_def Let_def answer_row_def empty_set_def)
  moreover have "sqres_export_callback mk (xs @ ys) t = (case sqres_export_callback mk xs t of None \<Rightarrow> None
      | Some (taken, t') \<Rightarrow> if taken then sqres_export_callback mk ys t' else Some (False, t'))" for xs ys t
    by (induction xs arbitrary: t) (auto split: option.splits prod.splits)
  ultimately show ?thesis by (simp add: r(1) s(1))
qed

end
