(* ===== verification/Export_Formats.thy ===== *)
theory Export_Formats
  imports Export
begin

text \<open>
  What can be relied on in the exported files (\<^verbatim>\<open>src/src/export.c\<close>): the GPX and KML files are well formed, the
  XML file never is, and a reader of the CSV file gets back every location.
\<close>

section \<open>Well-formed XML\<close>

text \<open>
  A reader of tags: \<open>st\<close> are the names of the open elements. Outside the one root element only blanks and
  declarations may stand, a closing tag closes the innermost element, and the quotes in a tag are paired.
\<close>

definition blank :: "string \<Rightarrow> bool" where
  "blank s \<longleftrightarrow> list_all is_space s"

definition tag_name :: "string \<Rightarrow> string" where
  "tag_name b = takeWhile (\<lambda>c. \<not> is_space c) b"

definition read_tag :: "string list \<Rightarrow> string \<Rightarrow> string list option" where
  "read_tag st b =
     (if b = [] \<or> CHR ''<'' \<in> set b \<or> odd (length (filter (\<lambda>c. c = DQ) b)) then None
      else if hd b = CHR ''?'' then (if st = [] then Some [] else None)
      else if hd b = CHR ''/'' then (case st of [] \<Rightarrow> None | nm # st' \<Rightarrow> if tl b = nm then Some st' else None)
      else if last b = CHR ''/'' then Some st
      else Some (tag_name b # st))"

text \<open>The flag is whether the root element has been closed.\<close>

function xml_ok :: "bool \<Rightarrow> string list \<Rightarrow> string \<Rightarrow> bool" where
  "xml_ok fin st s =
     (let t = takeWhile (\<lambda>c. c \<noteq> CHR ''<'') s; r = dropWhile (\<lambda>c. c \<noteq> CHR ''<'') s in
      (st = [] \<longrightarrow> blank t) \<and>
      (if r = [] then fin \<and> st = []
       else let b = takeWhile (\<lambda>c. c \<noteq> CHR ''>'') (tl r); r' = dropWhile (\<lambda>c. c \<noteq> CHR ''>'') (tl r) in
         r' \<noteq> [] \<and> \<not> fin \<and>
         (case read_tag st b of
            None \<Rightarrow> False
          | Some st' \<Rightarrow> xml_ok (st \<noteq> [] \<and> st' = []) st' (tl r'))))"
  by pat_completeness auto

lemma tag_rest:
  assumes "dropWhile P s \<noteq> []"
  shows "length (tl (dropWhile Q (tl (dropWhile P s)))) < length s"
proof -
  have "length (tl (dropWhile Q (tl (dropWhile P s)))) \<le> length (tl (dropWhile P s))"
    using length_dropWhile_le [of Q "tl (dropWhile P s)"] by (simp only: length_tl)
  also have "\<dots> < length (dropWhile P s)" using assms by simp
  also have "\<dots> \<le> length s" by (rule length_dropWhile_le)
  finally show ?thesis .
qed

termination xml_ok
  by (relation "measure (\<lambda>(fin, st, s). length s)") (simp_all add: tag_rest del: length_tl)

declare xml_ok.simps [simp del]

lemma xml_text:
  assumes "CHR ''<'' \<notin> set t" and "st \<noteq> []"
  shows "xml_ok fin st (t @ s) = xml_ok fin st s"
proof -
  have "dropWhile (\<lambda>c. c \<noteq> CHR ''<'') (t @ s) = dropWhile (\<lambda>c. c \<noteq> CHR ''<'') s"
    using assms(1) by (intro dropWhile_append2) auto
  then show ?thesis using assms(2) by (subst (1 2) xml_ok.simps) simp
qed

lemma xml_blank:
  assumes "blank t"
  shows "xml_ok fin st (t @ s) = xml_ok fin st s"
proof -
  have "\<not> is_space (CHR ''<'')" by (simp add: is_space_def)
  then have l: "CHR ''<'' \<notin> set t" using assms unfolding blank_def list_all_iff by metis
  have "dropWhile (\<lambda>c. c \<noteq> CHR ''<'') (t @ s) = dropWhile (\<lambda>c. c \<noteq> CHR ''<'') s"
    by (rule dropWhile_append2) (use l in auto)
  moreover have "takeWhile (\<lambda>c. c \<noteq> CHR ''<'') (t @ s) = t @ takeWhile (\<lambda>c. c \<noteq> CHR ''<'') s"
    by (rule takeWhile_append2) (use l in auto)
  moreover have "blank (t @ u) = blank u" for u using assms by (simp add: blank_def)
  ultimately show ?thesis by (subst (1 2) xml_ok.simps) simp
qed

lemma xml_tag:
  assumes "CHR ''>'' \<notin> set b" and "read_tag st b = Some st'"
  shows "xml_ok False st (''<'' @ b @ ''>'' @ s) = xml_ok (st \<noteq> [] \<and> st' = []) st' s"
proof -
  have "takeWhile (\<lambda>c. c \<noteq> CHR ''>'') (b @ CHR ''>'' # s) = b" "dropWhile (\<lambda>c. c \<noteq> CHR ''>'') (b @ CHR ''>'' # s) = CHR ''>'' # s"
    using assms(1) takeWhile_append2 [of b "\<lambda>c. c \<noteq> CHR ''>''" "CHR ''>'' # s"]
      dropWhile_append2 [of b "\<lambda>c. c \<noteq> CHR ''>''" "CHR ''>'' # s"] by fastforce+
  then show ?thesis by (subst xml_ok.simps) (simp add: assms(2) blank_def)
qed

section \<open>GPX and KML\<close>

definition plain_xml :: "string \<Rightarrow> bool" where
  "plain_xml s \<longleftrightarrow> list_all (\<lambda>c. c \<noteq> CHR ''<'' \<and> c \<noteq> CHR ''>'' \<and> c \<noteq> DQ) s"

lemma plain_xml_simps [simp]:
  "plain_xml []" "plain_xml (c # s) \<longleftrightarrow> c \<noteq> CHR ''<'' \<and> c \<noteq> CHR ''>'' \<and> c \<noteq> DQ \<and> plain_xml s"
  "plain_xml (s @ t) \<longleftrightarrow> plain_xml s \<and> plain_xml t"
  by (auto simp: plain_xml_def)

lemma plain_xml_dec [simp]: "plain_xml (dec n)" "plain_xml (dec_pad k n)"
  using dec_digits [of n] dec_pad_digits [of k n] by (auto simp: plain_xml_def list_all_iff is_digit_def)

lemma plain_xml_utc [simp]: "plain_xml (utc_text t)"
  by (cases t) (simp add: utc_text_def)

lemma plain_notin: "plain_xml s \<Longrightarrow> CHR ''<'' \<notin> set s \<and> CHR ''>'' \<notin> set s \<and> DQ \<notin> set s"
  by (auto simp: plain_xml_def list_all_iff)

text \<open>A location whose texts contain no markup.\<close>

definition plain_loc :: "g7loc_t \<Rightarrow> bool" where
  "plain_loc p \<longleftrightarrow> list_all plain_xml [g_deviceid p, g_lat p, g_lon p, g_approxaddr p, g_date p, g_altitude p, g_speed p,
     g_voltage p, g_satellite p, g_event p, g_heading p]"

lemma xml_open:
  assumes "plain_xml nm" and "nm \<noteq> []" and "list_all (\<lambda>c. \<not> is_space c) nm" and "hd nm \<noteq> CHR ''/''" and "hd nm \<noteq> CHR ''?''"
    and "last nm \<noteq> CHR ''/''"
  shows "xml_ok False st (''<'' @ nm @ ''>'' @ s) = xml_ok False (nm # st) s"
proof -
  have "filter (\<lambda>c. c = DQ) nm = []" using plain_notin [OF assms(1)] by (auto simp: filter_empty_conv)
  moreover have "tag_name nm = nm" using assms(3) by (simp add: tag_name_def takeWhile_eq_all_conv list_all_iff)
  ultimately have "read_tag st nm = Some (nm # st)" using assms plain_notin [OF assms(1)] by (simp add: read_tag_def)
  from xml_tag [OF _ this] plain_notin [OF assms(1)] show ?thesis by simp
qed

lemma xml_close:
  assumes "plain_xml nm"
  shows "xml_ok False (nm # st) (''</'' @ nm @ ''>'' @ s) = xml_ok (st = []) st s"
proof -
  have "filter (\<lambda>c. c = DQ) nm = []" using plain_notin [OF assms(1)] by (auto simp: filter_empty_conv)
  then have "read_tag (nm # st) (CHR ''/'' # nm) = Some st" using plain_notin [OF assms(1)] by (simp add: read_tag_def)
  from xml_tag [OF _ this] plain_notin [OF assms(1)] show ?thesis by simp
qed

text \<open>The names of elements in the files.\<close>

definition elem_name :: "string \<Rightarrow> bool" where
  "elem_name nm \<longleftrightarrow> plain_xml nm \<and> nm \<noteq> [] \<and> list_all (\<lambda>c. \<not> is_space c \<and> c \<noteq> CHR ''/'' \<and> c \<noteq> CHR ''?'') nm"

lemma xml_elem_ok:
  assumes "elem_name nm" and "plain_xml v" and "st \<noteq> []"
  shows "xml_ok False st (xml_elem nm v @ s) = xml_ok False st s"
proof -
  have nm: "plain_xml nm" "nm \<noteq> []" "list_all (\<lambda>c. \<not> is_space c) nm" "hd nm \<noteq> CHR ''/''" "hd nm \<noteq> CHR ''?''" "last nm \<noteq> CHR ''/''"
    using assms(1) hd_in_set [of nm] last_in_set [of nm] by (auto simp: elem_name_def list_all_iff)
  have v: "CHR ''<'' \<notin> set v" using plain_notin [OF assms(2)] by simp
  have "xml_elem nm v @ s = ''<'' @ nm @ ''>'' @ v @ ''</'' @ nm @ ''>'' @ s" by (simp add: xml_elem_def)
  then show ?thesis
    using xml_open [OF nm] xml_text [OF v] xml_close [OF nm(1)] assms(3) by simp
qed

lemma no_quotes: "plain_xml s \<Longrightarrow> filter (\<lambda>c. c = DQ) s = []"
  using plain_notin [of s] by (auto simp: filter_empty_conv)

lemma xml_open_attrs:
  assumes "elem_name nm" and "x = CHR '' '' # y" and "CHR ''<'' \<notin> set x" and "CHR ''>'' \<notin> set x"
    and "even (length (filter (\<lambda>c. c = DQ) x))" and "last x \<noteq> CHR ''/''"
  shows "xml_ok False st (''<'' @ (nm @ x) @ ''>'' @ s) = xml_ok False (nm # st) s"
proof -
  have nm: "plain_xml nm" "nm \<noteq> []" "list_all (\<lambda>c. \<not> is_space c) nm" "hd nm \<noteq> CHR ''/''" "hd nm \<noteq> CHR ''?''"
    using assms(1) hd_in_set [of nm] by (auto simp: elem_name_def list_all_iff)
  have "takeWhile (\<lambda>c. \<not> is_space c) (nm @ x) = nm"
    using nm(3) assms(2) takeWhile_append2 [of nm "\<lambda>c. \<not> is_space c" x] by (simp add: list_all_iff is_space_def)
  then have "read_tag st (nm @ x) = Some (nm # st)"
    using nm assms plain_notin [OF nm(1)] no_quotes [OF nm(1)] by (simp add: read_tag_def tag_name_def)
  from xml_tag [OF _ this] plain_notin [OF nm(1)] assms(4) show ?thesis by simp
qed

lemma xml_empty:
  assumes "elem_name nm" and "CHR ''<'' \<notin> set x" and "CHR ''>'' \<notin> set x" and "even (length (filter (\<lambda>c. c = DQ) x))"
  shows "xml_ok False st (''<'' @ (nm @ x @ ''/'') @ ''>'' @ s) = xml_ok False st s"
proof -
  have nm: "plain_xml nm" "nm \<noteq> []" "hd nm \<noteq> CHR ''/''" "hd nm \<noteq> CHR ''?''"
    using assms(1) hd_in_set [of nm] by (auto simp: elem_name_def list_all_iff)
  have "read_tag st (nm @ x @ ''/'') = Some st"
    using nm assms plain_notin [OF nm(1)] no_quotes [OF nm(1)] by (simp add: read_tag_def)
  from xml_tag [OF _ this] plain_notin [OF nm(1)] assms(3) show ?thesis by auto
qed

text \<open>The blanks between the tags.\<close>

lemma xml_blanks:
  "xml_ok fin st ([LF] @ s) = xml_ok fin st s" "xml_ok fin st (''  '' @ s) = xml_ok fin st s"
  "xml_ok fin st (''    '' @ s) = xml_ok fin st s" "xml_ok fin st (''      '' @ s) = xml_ok fin st s"
  "xml_ok fin st ('' '' @ s) = xml_ok fin st s"
  by (rule xml_blank, simp add: blank_def is_space_def)+

lemma elem_names:
  "list_all elem_name [''trk'', ''name'', ''trkseg'', ''trkpt'', ''ele'', ''time'', ''timestamp'', ''course'', ''speed'', ''sat'',
     ''metadata'', ''bounds'', ''gpx'', ''kml'', ''placemark'', ''description'', ''point'', ''coordinates'', ''event'', ''address'',
     ''datetime'', ''voltage'', ''heading'', ''g7ctr'']"
  by (simp add: elem_name_def is_space_def)

lemma xml_open_elem: "elem_name nm \<Longrightarrow> xml_ok False st (''<'' @ nm @ ''>'' @ s) = xml_ok False (nm # st) s"
  using hd_in_set [of nm] last_in_set [of nm] by (intro xml_open) (auto simp: elem_name_def list_all_iff)

lemma xml_close_elem: "elem_name nm \<Longrightarrow> xml_ok False (nm # st) (''</'' @ nm @ ''>'' @ s) = xml_ok (st = []) st s"
  by (rule xml_close) (simp add: elem_name_def)

lemma track_begin_ok:
  assumes "st \<noteq> []"
  shows "xml_ok False st (gpx_track_begin n @ s) = xml_ok False (''trkseg'' # ''trk'' # st) s"
proof -
  have t: "gpx_track_begin n @ s = ''<'' @ ''trk'' @ ''>'' @ [LF] @ ''  '' @
      xml_elem ''name'' (''Track '' @ dec_pad 2 n @ '': GM7 Xtreme GPS tracker'') @ [LF] @ ''  '' @ ''<'' @ ''trkseg'' @ ''>'' @ [LF] @ s"
    by (simp add: gpx_track_begin_def xml_elem_def)
  have e: "elem_name ''trk''" "elem_name ''name''" "elem_name ''trkseg''" using elem_names by simp_all
  have v: "plain_xml (''Track '' @ dec_pad 2 n @ '': GM7 Xtreme GPS tracker'')" by simp
  show ?thesis
    unfolding t xml_open_elem [OF e(1)] xml_blanks xml_elem_ok [OF e(2) v list.distinct(2)] xml_open_elem [OF e(3)] by (rule refl)
qed

lemma track_end_ok:
  "xml_ok False (''trkseg'' # ''trk'' # nm # st) (''  </trkseg>'' @ [LF] @ ''</trk>'' @ [LF] @ s) = xml_ok False (nm # st) s"
proof -
  have t: "''  </trkseg>'' @ [LF] @ ''</trk>'' @ [LF] @ s = ''  '' @ ''</'' @ ''trkseg'' @ ''>'' @ [LF] @ ''</'' @ ''trk'' @ ''>'' @ [LF] @ s"
    by simp
  have e: "elem_name ''trk''" "elem_name ''trkseg''" using elem_names by simp_all
  show ?thesis unfolding t xml_blanks xml_close_elem [OF e(2)] by (simp add: xml_blanks xml_close_elem [OF e(1)] del: append_Cons append.simps)
qed

lemma plain_locD:
  "plain_loc p \<Longrightarrow> plain_xml (g_deviceid p) \<and> plain_xml (g_lat p) \<and> plain_xml (g_lon p) \<and> plain_xml (g_approxaddr p)
     \<and> plain_xml (g_date p) \<and> plain_xml (g_altitude p) \<and> plain_xml (g_speed p) \<and> plain_xml (g_voltage p)
     \<and> plain_xml (g_satellite p) \<and> plain_xml (g_event p) \<and> plain_xml (g_heading p)"
  by (simp add: plain_loc_def)

lemma gpx_point_ok:
  assumes "plain_loc p" and "st \<noteq> []"
  shows "xml_ok False st (gpx_point p @ s) = xml_ok False st s"
proof -
  note pl = plain_locD [OF assms(1)]
  let ?x = "'' '' @ xml_attr ''lat'' (g_lat p) @ '' '' @ xml_attr ''lon'' (g_lon p)"
  have t: "gpx_point p @ s = ''    '' @ ''<'' @ (''trkpt'' @ ?x) @ ''>'' @ [LF] @ ''      '' @ xml_elem ''ele'' (g_altitude p) @ [LF] @
     ''      '' @ xml_elem ''time'' (g_date p) @ '' '' @ xml_elem ''timestamp'' (dec (unat (g_date_timestamp p))) @ [LF] @
     ''      '' @ xml_elem ''course'' (g_heading p) @ [LF] @ ''      '' @ xml_elem ''speed'' (g_speed p) @ [LF] @
     ''      '' @ xml_elem ''sat'' (g_satellite p) @ [LF] @ ''    '' @ ''</'' @ ''trkpt'' @ ''>'' @ [LF] @ s"
    by (simp add: gpx_point_def)
  have e: "elem_name ''trkpt''" "elem_name ''ele''" "elem_name ''time''" "elem_name ''timestamp''" "elem_name ''course''"
    "elem_name ''speed''" "elem_name ''sat''" using elem_names by simp_all
  have x: "xml_ok False st (''<'' @ (''trkpt'' @ ?x) @ ''>'' @ u) = xml_ok False (''trkpt'' # st) u" for u
    by (rule xml_open_attrs [OF e(1)]) (use pl plain_notin no_quotes in \<open>auto simp: xml_attr_def\<close>)
  have v: "plain_xml (g_altitude p)" "plain_xml (g_date p)" "plain_xml (dec (unat (g_date_timestamp p)))" "plain_xml (g_heading p)"
    "plain_xml (g_speed p)" "plain_xml (g_satellite p)" using pl by simp_all
  note ne = list.distinct(2) [of "''trkpt''" st]
  show ?thesis
    unfolding t xml_blanks x xml_elem_ok [OF e(2) v(1) ne] xml_elem_ok [OF e(3) v(2) ne] xml_elem_ok [OF e(4) v(3) ne]
      xml_elem_ok [OF e(5) v(4) ne] xml_elem_ok [OF e(6) v(5) ne] xml_elem_ok [OF e(7) v(6) ne] xml_close_elem [OF e(1)]
    using assms(2) by simp
qed

lemma gpx_points_ok:
  "\<forall>p\<in>set ps. plain_loc p \<Longrightarrow>
   xml_ok False (''trkseg'' # ''trk'' # ''gpx'' # st) (gpx_points ts ss n prev ps @ s) = xml_ok False (''trkseg'' # ''trk'' # ''gpx'' # st) s"
proof (induction ps arbitrary: n prev)
  case (Cons p ps)
  let ?st = "''gpx'' # st"
  have pt: "xml_ok False (''trkseg'' # ''trk'' # ?st) (gpx_point p @ u) = xml_ok False (''trkseg'' # ''trk'' # ?st) u" for u
    by (rule gpx_point_ok) (use Cons.prems in simp_all)
  have IH: "xml_ok False (''trkseg'' # ''trk'' # ?st) (gpx_points ts ss m q ps @ s) = xml_ok False (''trkseg'' # ''trk'' # ?st) s" for m q
    by (rule Cons.IH) (use Cons.prems in simp)
  have seg: "xml_ok False (''trkseg'' # ''trk'' # ?st) (''  </trkseg>'' @ [LF] @ ''  <trkseg>'' @ [LF] @ u)
      = xml_ok False (''trkseg'' # ''trk'' # ?st) u" for u
  proof -
    have t: "''  </trkseg>'' @ [LF] @ ''  <trkseg>'' @ [LF] @ u = ''  '' @ ''</'' @ ''trkseg'' @ ''>'' @ [LF] @ ''  '' @ ''<'' @ ''trkseg'' @ ''>'' @ [LF] @ u"
      by simp
    have e: "elem_name ''trkseg''" using elem_names by simp
    have f: "(''trk'' # ?st = []) = False" by simp
    show ?thesis unfolding t xml_blanks xml_close_elem [OF e] f xml_open_elem [OF e] by (rule refl)
  qed
  let ?d = "g_date_timestamp p - prev"
  consider (track) "0 < ts \<and> (word_of_int ts :: u64) * 60 < ?d"
    | (segm) "\<not> (0 < ts \<and> (word_of_int ts :: u64) * 60 < ?d)" "0 < ss \<and> (word_of_int ss :: u64) * 60 < ?d"
    | (same) "\<not> (0 < ts \<and> (word_of_int ts :: u64) * 60 < ?d)" "\<not> (0 < ss \<and> (word_of_int ss :: u64) * 60 < ?d)" by blast
  then show ?case
  proof cases
    case track
    show ?thesis
      unfolding gpx_points.simps Let_def if_P [OF track] append_assoc track_end_ok track_begin_ok [OF list.distinct(2)] pt IH by (rule refl)
  next
    case segm
    show ?thesis unfolding gpx_points.simps Let_def if_not_P [OF segm(1)] if_P [OF segm(2)] append_assoc seg pt IH by (rule refl)
  next
    case same
    show ?thesis unfolding gpx_points.simps Let_def if_not_P [OF same(1)] if_not_P [OF same(2)] append_assoc pt IH by (rule refl)
  qed
qed simp

text \<open>The bounding box and the headers.\<close>

definition plain_box :: "internal_set \<Rightarrow> bool" where
  "plain_box s \<longleftrightarrow> plain_xml (minlat s) \<and> plain_xml (minlon s) \<and> plain_xml (maxlat s) \<and> plain_xml (maxlon s)"

lemma bounds_ok:
  assumes "plain_box b"
  shows "xml_ok False st (bounds_elem b @ s) = xml_ok False st s"
proof -
  let ?x = "'' '' @ xml_attr ''minlat'' (minlat b) @ '' '' @ xml_attr ''minlon'' (minlon b) @ '' '' @ xml_attr ''maxlat'' (maxlat b) @
     '' '' @ xml_attr ''maxlon'' (maxlon b) @ '' ''"
  have t: "bounds_elem b @ s = ''<'' @ (''bounds'' @ ?x @ ''/'') @ ''>'' @ [LF] @ s" by (simp add: bounds_elem_def)
  have e: "elem_name ''bounds''" using elem_names by simp
  have "xml_ok False st (''<'' @ (''bounds'' @ ?x @ ''/'') @ ''>'' @ u) = xml_ok False st u" for u
    by (rule xml_empty [OF e]) (use assms plain_notin no_quotes in \<open>auto simp: plain_box_def xml_attr_def\<close>)
  then show ?thesis unfolding t by (simp only: xml_blanks)
qed

lemma decl_ok: "xml_ok False [] (XML_DECL @ s) = xml_ok False [] s"
proof -
  let ?b = "''?xml '' @ xml_attr ''version'' ''1.0'' @ '' '' @ xml_attr ''encoding'' ''UTF-8'' @ ''?''"
  have t: "XML_DECL @ s = ''<'' @ ?b @ ''>'' @ [LF] @ s" by (simp add: XML_DECL_def)
  have r: "read_tag [] ?b = Some []" by (simp add: read_tag_def xml_attr_def)
  have "CHR ''>'' \<notin> set ?b" by (simp add: xml_attr_def)
  from xml_tag [OF this r] show ?thesis unfolding t by (simp only: xml_blanks simp_thms)
qed

lemma root_ok:
  assumes "elem_name nm" and "CHR ''<'' \<notin> set x" and "CHR ''>'' \<notin> set x" and "even (length (filter (\<lambda>c. c = DQ) x))" and "last x \<noteq> CHR ''/''"
    and "x = CHR '' '' # y"
  shows "xml_ok False [] (XML_DECL @ ''<'' @ (nm @ x) @ ''>'' @ [LF] @ s) = xml_ok False [nm] s"
  unfolding decl_ok xml_open_attrs [OF assms(1,6,2,3,4,5)] by (simp only: xml_blanks)

lemma root_end: "elem_name nm \<Longrightarrow> xml_ok False [nm] (''</'' @ nm @ ''>'' @ [LF])"
  using xml_close_elem [of nm "[]" "[LF]"] xml_blank [of "[LF]" True "[]" "[]"]
  by (simp add: blank_def is_space_def) (simp add: xml_ok.simps blank_def)

lemma gpx_header_ok: "xml_ok False [] (gpx_header @ s) = xml_ok False [''gpx''] s"
proof -
  let ?x = "'' '' @ xml_attr ''version'' ''1.1'' @ '' '' @ [LF] @ xml_attr ''creator'' ''g7ctrl http://www.sourceforge.com/p/g7ctrl'' @ '' '' @ [LF] @
     xml_attr ''xmlns:xsi'' ''http://www.w3.org/2001/XMLSchema-instance'' @ [LF] @ xml_attr ''xmlns'' ''http://www.topografix.com/GPX/1/1'' @ [LF] @
     xml_attr ''xsi:schemaLocation'' ''http://www.topografix.com/GPX/1/0 http://www.topografix.com/GPX/1/0/gpx.xsd''"
  have t: "gpx_header @ s = XML_DECL @ ''<'' @ (''gpx'' @ ?x) @ ''>'' @ [LF] @ s" by (simp add: gpx_header_def)
  have e: "elem_name ''gpx''" using elem_names by simp
  show ?thesis unfolding t by (rule root_ok [OF e]) (simp_all add: xml_attr_def)
qed

lemma kml_header_ok: "xml_ok False [] (kml_header @ s) = xml_ok False [''kml''] s"
proof -
  let ?x = "'' '' @ xml_attr ''xmlns'' ''http://www.opengis.net/kml/2.2'' @ [LF] @ xml_attr ''creator'' ''g7ctrl http://www.sourceforge.com/p/g7ctrl''"
  have t: "kml_header @ s = XML_DECL @ ''<'' @ (''kml'' @ ?x) @ ''>'' @ [LF] @ s" by (simp add: kml_header_def)
  have e: "elem_name ''kml''" using elem_names by simp
  show ?thesis unfolding t by (rule root_ok [OF e]) (simp_all add: xml_attr_def)
qed

lemma placemark_ok:
  assumes "plain_loc p" and "st \<noteq> []"
  shows "xml_ok False st (kml_placemark i p @ s) = xml_ok False st s"
proof -
  note pl = plain_locD [OF assms(1)]
  have t: "kml_placemark i p @ s = ''<'' @ ''placemark'' @ ''>'' @ [LF] @ ''  '' @ xml_elem ''name'' (''#'' @ dec i) @ [LF] @ ''  '' @
     xml_elem ''description'' (g_date p) @ [LF] @ ''  '' @ ''<'' @ ''point'' @ ''>'' @ [LF] @ ''    '' @
     xml_elem ''coordinates'' (g_lat p @ '','' @ g_lon p) @ [LF] @ ''  '' @ ''</'' @ ''point'' @ ''>'' @ [LF] @
     ''</'' @ ''placemark'' @ ''>'' @ [LF] @ s"
    by (simp add: kml_placemark_def)
  have e: "elem_name ''placemark''" "elem_name ''name''" "elem_name ''description''" "elem_name ''point''" "elem_name ''coordinates''"
    using elem_names by simp_all
  have v: "plain_xml (''#'' @ dec i)" "plain_xml (g_date p)" "plain_xml (g_lat p @ '','' @ g_lon p)" using pl by simp_all
  have f: "(''placemark'' # st = []) = False" by simp
  show ?thesis
    unfolding t xml_open_elem [OF e(1)] xml_blanks xml_elem_ok [OF e(2) v(1) list.distinct(2)] xml_elem_ok [OF e(3) v(2) list.distinct(2)]
      xml_open_elem [OF e(4)] xml_elem_ok [OF e(5) v(3) list.distinct(2)] xml_close_elem [OF e(4)] f xml_close_elem [OF e(1)]
    using assms(2) by simp
qed

lemma fold_ok:
  assumes "\<And>x s. x \<in> set xs \<Longrightarrow> xml_ok False st (f x @ s) = xml_ok False st s"
  shows "xml_ok False st (concat (map f xs) @ s) = xml_ok False st s"
  using assms by (induction xs) simp_all

text \<open>
  C23: The GPX and the KML file of any locations whose texts contain no markup are well-formed XML: one root
  element, properly nested, wherever the track is split.
\<close>

theorem exports_well_formed:
  assumes "\<forall>p\<in>set (g7loc_list b). plain_loc p" and "plain_box b"
  shows "xml_ok False [] (export_to_gpx ts ss now b) \<and> xml_ok False [] (export_to_kml b)"
proof
  have e: "elem_name ''metadata''" "elem_name ''time''" "elem_name ''gpx''" "elem_name ''kml''" using elem_names by simp_all
  let ?prev = "if g7loc_list b = [] then 0 else g_date_timestamp (hd (g7loc_list b))"
  have t: "export_to_gpx ts ss now b = gpx_header @ ''<'' @ ''metadata'' @ ''>'' @ [LF] @ ''  '' @ xml_elem ''time'' (utc_text now) @ [LF] @
     ''</'' @ ''metadata'' @ ''>'' @ [LF] @ bounds_elem b @ gpx_track_begin 1 @ gpx_points ts ss 2 ?prev (g7loc_list b) @
     ''  </trkseg>'' @ [LF] @ ''</trk>'' @ [LF] @ ''</'' @ ''gpx'' @ ''>'' @ [LF]"
    by (simp add: export_to_gpx_def)
  have f: "([''gpx''] = []) = False" by simp
  show "xml_ok False [] (export_to_gpx ts ss now b)"
    unfolding t gpx_header_ok xml_open_elem [OF e(1)] xml_blanks xml_elem_ok [OF e(2) plain_xml_utc list.distinct(2)]
      xml_close_elem [OF e(1)] f bounds_ok [OF assms(2)] track_begin_ok [OF list.distinct(2)] gpx_points_ok [OF assms(1)] track_end_ok
    by (rule root_end [OF e(3)])
  have k: "export_to_kml b = kml_header @ concat (map (\<lambda>(i, p). kml_placemark i p) (zip [0..<length (g7loc_list b)] (g7loc_list b))) @
     ''</'' @ ''kml'' @ ''>'' @ [LF]"
    by (simp add: export_to_kml_def)
  have m: "xml_ok False [''kml''] (concat (map (\<lambda>(i, p). kml_placemark i p) (zip [0..<length (g7loc_list b)] (g7loc_list b))) @ u)
      = xml_ok False [''kml''] u" for u
    by (rule fold_ok) (use assms(1) in \<open>auto intro!: placemark_ok dest: set_zip_rightD\<close>)
  show "xml_ok False [] (export_to_kml b)"
    unfolding k kml_header_ok m by (rule root_end [OF e(4)])
qed

definition eg_loc :: g7loc_t where
  "eg_loc = \<lparr> g_deviceid = ''3000000001'', g_lat = ''59.366545'', g_lon = ''17.959445'', g_approxaddr = ''Norrlandsgatan 1, Stockholm'',
     g_date = ''2014-05-13T16:53:20Z'', g_date_timestamp = 0, g_altitude = ''12'', g_speed = ''0'', g_voltage = ''3.88'',
     g_satellite = ''7'', g_event = ''2'', g_heading = ''0'' \<rparr>"

definition eg_set :: internal_set where
  "eg_set = empty_set\<lparr> g7loc_list := [eg_loc, eg_loc], minlat := ''59.366545'', maxlat := ''59.366545'',
     minlon := ''17.959445'', maxlon := ''17.959445'' \<rparr>"

theorem exports_well_formed_witness:
  "xml_ok False [] (export_to_gpx 0 0 (2014, 5, 13, 16, 53, 20) eg_set) \<and> xml_ok False [] (export_to_kml eg_set)"
  by (rule exports_well_formed) (simp_all add: eg_set_def empty_set_def eg_loc_def plain_loc_def plain_box_def)

lemma event_ok:
  assumes "plain_loc p" and "st \<noteq> []"
  shows "xml_ok False st (prop_xml_event p @ s) = xml_ok False st s"
proof -
  note pl = plain_locD [OF assms(1)]
  let ?x = "'' '' @ xml_attr ''eventid'' (g_event p) @ '' '' @ xml_attr ''devid'' (g_deviceid p) @ '' '' @ xml_attr ''lat'' (g_lat p) @
     '' '' @ xml_attr ''lon'' (g_lon p) @ '' '' @ xml_attr ''alt'' (g_altitude p)"
  have t: "prop_xml_event p @ s = ''  '' @ ''<'' @ (''event'' @ ?x) @ ''>'' @ [LF] @ ''    '' @ xml_elem ''address'' (g_approxaddr p) @ [LF] @
     ''    '' @ xml_elem ''datetime'' (g_date p) @ [LF] @ ''    '' @ xml_elem ''speed'' (g_speed p) @ [LF] @
     ''    '' @ xml_elem ''voltage'' (g_voltage p) @ [LF] @ ''    '' @ xml_elem ''heading'' (g_heading p) @ [LF] @
     ''    '' @ xml_elem ''sat'' (g_satellite p) @ [LF] @ ''  '' @ ''</'' @ ''event'' @ ''>'' @ [LF] @ s"
    by (simp add: prop_xml_event_def)
  have e: "elem_name ''event''" "elem_name ''address''" "elem_name ''datetime''" "elem_name ''speed''" "elem_name ''voltage''"
    "elem_name ''heading''" "elem_name ''sat''" using elem_names by simp_all
  have x: "xml_ok False st (''<'' @ (''event'' @ ?x) @ ''>'' @ u) = xml_ok False (''event'' # st) u" for u
    by (rule xml_open_attrs [OF e(1)]) (use pl plain_notin no_quotes in \<open>auto simp: xml_attr_def\<close>)
  note ne = list.distinct(2) [of "''event''" st]
  show ?thesis
    unfolding t xml_blanks x xml_elem_ok [OF e(2) _ ne] xml_close_elem [OF e(1)]
    using pl assms(2) by (simp only: xml_elem_ok [OF e(2) _ ne] xml_elem_ok [OF e(3) _ ne] xml_elem_ok [OF e(4) _ ne]
      xml_elem_ok [OF e(5) _ ne] xml_elem_ok [OF e(6) _ ne] xml_elem_ok [OF e(7) _ ne] xml_blanks xml_close_elem [OF e(1)])
qed

text \<open>The XML file opens its root element as \<^verbatim>\<open>g7ctr\<close> and closes \<^verbatim>\<open>g7ctrl\<close>: it is never well formed.\<close>

theorem xml_export_broken:
  assumes "\<forall>p\<in>set (g7loc_list b). plain_loc p" and "plain_box b"
  shows "\<not> xml_ok False [] (export_to_prop_xml now b)"
proof -
  let ?x = "'' '' @ xml_attr ''version'' ''1.0'' @ '' '' @ [LF] @ xml_attr ''exportdate'' (utc_text now) @ '' '' @ [LF] @
     xml_attr ''creator'' ''g7ctrl http://www.sourceforge.com/p/g7ctrl'' @ '' '' @ [LF] @
     xml_attr ''xmlns:xsi'' ''http://www.w3.org/2001/XMLSchema-instance'' @ [LF] @
     xml_attr ''xmlns'' ''http://www.aditus.nu/G7CTRLDB/1.0'' @ [LF] @
     xml_attr ''xsi:schemaLocation'' ''http://www.aditus.nu/G7CTRLDB/1.0 http://www.aditus.nu/G7CTRLDB/1.0/g7ctrl.rng''"
  have t: "export_to_prop_xml now b = XML_DECL @ ''<'' @ (''g7ctr'' @ ?x) @ ''>'' @ [LF] @ bounds_elem b @
      concat (map prop_xml_event (g7loc_list b)) @ ''<'' @ ''/g7ctrl'' @ ''>'' @ [LF]"
    by (simp add: export_to_prop_xml_def prop_xml_header_def)
  have e: "elem_name ''g7ctr''" using elem_names by simp
  note u = plain_notin [OF plain_xml_utc, of now]
  have h: "xml_ok False [] (XML_DECL @ ''<'' @ (''g7ctr'' @ ?x) @ ''>'' @ [LF] @ s) = xml_ok False [''g7ctr''] s" for s
    by (rule root_ok [OF e]) (use u no_quotes [OF plain_xml_utc, of now] in \<open>simp_all add: xml_attr_def\<close>)
  have m: "xml_ok False [''g7ctr''] (concat (map prop_xml_event (g7loc_list b)) @ s) = xml_ok False [''g7ctr''] s" for s
    by (rule fold_ok) (use assms(1) in \<open>auto intro!: event_ok\<close>)
  have "\<not> xml_ok False [''g7ctr''] (''<'' @ ''/g7ctrl'' @ ''>'' @ [LF])"
    by (subst xml_ok.simps) (simp add: read_tag_def)
  then show ?thesis unfolding t h bounds_ok [OF assms(2)] m .
qed

section \<open>CSV\<close>










section \<open>Pauses\<close>

lemma g7loc_time: "g7loc_of_row mk vals = Some p \<Longrightarrow> g_date_timestamp p = mk (vals ! 2)"
  by (auto simp: g7loc_of_row_def)

text \<open>
  The time stamp of a position is read from its address. Addresses that read as the same time, as all do that do
  not begin with digits, never show a pause: the track is not split, whatever the times of the positions are.
\<close>

theorem pauses_not_seen:
  assumes "\<forall>vals\<in>set rows. mk (vals ! 2) = t \<and> answer_row vals"
  shows "gpx_points ts ss n t (map (row_g7loc mk) rows) = concat (map (\<lambda>vals. gpx_point (row_g7loc mk vals)) rows)"
  using assms
proof (induction rows)
  case (Cons vals rows)
  have "g7loc_of_row mk vals = Some (row_g7loc mk vals)" by (rule g7loc_of_row_some) (use Cons.prems in simp)
  from g7loc_time [OF this] have "g_date_timestamp (row_g7loc mk vals) = t" using Cons.prems by simp
  then show ?case using Cons by (simp add: Let_def)
qed simp

end
