(* ===== verification/Futils.thy ===== *)
theory Futils
  imports Geocache Utils Mail_Compose
begin

text \<open>
  File utilities (\<^verbatim>\<open>src/src/futils.c\<close>): moving a file without overwriting another, the end of a file name, the
  tail of the log, going through the files of a directory, removing a directory. The file system is a map from
  paths to contents together with the paths to which access is denied; \<open>..\<close>, links and different names of one file
  are not distinguished.
\<close>

section \<open>Names\<close>

text \<open>
  The result, the name without its end, and the end, when there is one; \<open>None\<close> for the empty name, where the loop
  starts before the buffer.
\<close>

definition strip_filesuffix :: "nat \<Rightarrow> string \<Rightarrow> (int \<times> string \<times> string option) option" where
  "strip_filesuffix slen filename =
     (if 256 \<le> length filename then Some (-1, filename, None)
      else if filename = [] then None
      else let j = find_idx (\<lambda>c. c = CHR ''.'') (rev filename); k = length filename - 1 - j in
        if j < length filename - 1 then Some (0, take k filename, Some (take (slen - 1) (drop (k + 1) filename)))
        else Some (0, filename, None))"

definition dirname :: "string \<Rightarrow> string" where
  "dirname path =
     (if CHR ''/'' \<notin> set path then ''.''
      else let d = butlast (rev (dropWhile (\<lambda>c. c \<noteq> CHR ''/'') (rev path))) in if d = [] then ''/'' else d)"

section \<open>Moving a file\<close>

record file_system =
  fs_files :: "string \<Rightarrow> (char list) option"
  fs_denied :: "string \<Rightarrow> bool"

datatype stat_res = S_exists | S_noent | S_error

definition stat_path :: "file_system \<Rightarrow> string \<Rightarrow> stat_res" where
  "stat_path fs p = (if fs_denied fs p then S_error else if fs_files fs p = None then S_noent else S_exists)"

definition rename_path :: "file_system \<Rightarrow> string \<Rightarrow> string \<Rightarrow> int \<times> file_system" where
  "rename_path fs old new =
     (if fs_denied fs old \<or> fs_denied fs new \<or> fs_files fs old = None then (-1, fs)
      else (0, fs\<lparr>fs_files := (fs_files fs)(old := None, new := fs_files fs old)\<rparr>))"

text \<open>The name for number \<open>i\<close>, and the loop for the first one that is not found.\<close>

definition dup_name :: "string \<Rightarrow> string \<Rightarrow> string \<Rightarrow> nat \<Rightarrow> string" where
  "dup_name to_directory short_filename suffix i =
     snprintf 512 (to_directory @ ''/'' @ short_filename @ ''_'' @ dec_pad 3 i @ suffix)"

function dup_loop :: "file_system \<Rightarrow> (nat \<Rightarrow> string) \<Rightarrow> nat \<Rightarrow> nat" where
  "dup_loop fs nm i = (let i = i + 1 in if i < 999 \<and> stat_path fs (nm i) = S_exists then dup_loop fs nm i else i)"
  by pat_completeness auto

termination dup_loop
  by (relation "measure (\<lambda>(fs, nm, i). 999 - i)") auto

declare dup_loop.simps [simp del]

text \<open>The short name of the target and its end with the dot; the inner \<open>None\<close> where there is none.\<close>

definition split_short :: "string \<Rightarrow> (string \<times> string) option option" where
  "split_short short_filename =
     (if short_filename = [] then None
      else let j = find_idx (\<lambda>c. c = CHR ''.'') (rev short_filename); k = length short_filename - 1 - j in
        if length short_filename \<le> j then Some None
        else if 7 < length short_filename - k then Some None
        else Some (Some (take k short_filename, drop k short_filename)))"

text \<open>
  The path to move to, the inner \<open>None\<close> for the failures. The outer \<open>None\<close>: \<open>strncpy(buff1, to, 255)\<close> leaves the
  buffer without an end, or the name is empty.
\<close>

definition new_path :: "file_system \<Rightarrow> string \<Rightarrow> string option option" where
  "new_path fs to_file =
     (case stat_path fs to_file of
        S_exists \<Rightarrow>
          if 255 \<le> length to_file then None
          else (case split_short (take 127 (basename to_file)) of
                  None \<Rightarrow> None
                | Some None \<Rightarrow> Some None
                | Some (Some (short_filename, suffix)) \<Rightarrow>
                    let nm = dup_name (take 255 (dirname to_file)) short_filename suffix; i = dup_loop fs nm 0
                    in Some (if 999 \<le> i then None else Some (nm i)))
      | S_noent \<Rightarrow> Some (Some (take 255 to_file))
      | S_error \<Rightarrow> Some None)"

definition mv_and_rename ::
    "file_system \<Rightarrow> string \<Rightarrow> string \<Rightarrow> nat \<Rightarrow> (int \<times> string option \<times> file_system) option" where
  "mv_and_rename fs from_file to_file maxlen =
     (if stat_path fs from_file \<noteq> S_exists then Some (-1, None, fs)
      else case new_path fs to_file of
        None \<Rightarrow> None
      | Some None \<Rightarrow> Some (-1, None, fs)
      | Some (Some p) \<Rightarrow> (case rename_path fs from_file p of (rc, fs') \<Rightarrow> Some (rc, Some (take (maxlen - 1) p), fs')))"

section \<open>Directories\<close>

text \<open>Whether the directory is there afterwards, and the one that was made.\<close>

definition chkcreatedir :: "(string \<Rightarrow> bool) \<Rightarrow> (string \<Rightarrow> bool) \<Rightarrow> string \<Rightarrow> string option \<Rightarrow> int \<times> string option" where
  "chkcreatedir dir_exists may_make basedir dir =
     (let bdirbuff = (case dir of
          None \<Rightarrow> snprintf 511 basedir
        | Some d \<Rightarrow> if d = [] then snprintf 511 basedir else snprintf 511 (basedir @ ''/'' @ d))
      in if dir_exists bdirbuff then (0, None)
         else if may_make bdirbuff then (0, Some bdirbuff) else (-1, None))"

text \<open>The entries of a directory in the order of \<open>readdir\<close>, without \<^verbatim>\<open>.\<close> and \<^verbatim>\<open>..\<close>; regular files and links are plain.\<close>

datatype node = N_plain | N_special | N_dir entries
  and entries = E_nil | E_cons string node entries

text \<open>
  The result, whether the directory is gone, and what is left in it. \<open>may\<close> tells for which paths \<open>opendir\<close>,
  \<open>remove\<close> and \<open>rmdir\<close> are permitted. When the directory cannot be opened the result is \<open>errno\<close>, a positive number
  (13 is \<open>EACCES\<close>). \<open>None\<close>: the path does not fit in its buffer.
\<close>

fun removedir :: "(string \<Rightarrow> bool) \<Rightarrow> string \<Rightarrow> entries \<Rightarrow> (int \<times> bool \<times> entries) option"
  and remove_entries :: "(string \<Rightarrow> bool) \<Rightarrow> string \<Rightarrow> entries \<Rightarrow> (bool \<times> entries) option" where
  "removedir may dir es =
     (if \<not> may dir then Some (13, False, es)
      else case remove_entries may dir es of
        None \<Rightarrow> None
      | Some (all_done, es') \<Rightarrow> if all_done \<and> es' = E_nil then Some (0, True, E_nil) else Some (-1, False, es'))"
| "remove_entries may dir E_nil = Some (True, E_nil)"
| "remove_entries may dir (E_cons d_name nd rest) =
     (let tmpbuff = dir @ ''/'' @ d_name in
      if 512 \<le> length tmpbuff then None
      else case nd of
        N_special \<Rightarrow> Some (False, E_cons d_name nd rest)
      | N_plain \<Rightarrow> if may tmpbuff then remove_entries may dir rest else Some (False, E_cons d_name nd rest)
      | N_dir es \<Rightarrow>
          (case removedir may tmpbuff es of
             None \<Rightarrow> None
           | Some (rc, gone, es') \<Rightarrow>
               if rc < 0 then Some (False, E_cons d_name (N_dir es') rest)
               else if gone then remove_entries may dir rest
               else map_option (\<lambda>(all_done, r). (all_done, E_cons d_name (N_dir es') r)) (remove_entries may dir rest)))"

text \<open>The files of a directory whose names end as asked; the call-back is given the path and a number.\<close>

definition has_suffix :: "string option \<Rightarrow> string \<Rightarrow> bool" where
  "has_suffix suffix d_name =
     (case suffix of
        None \<Rightarrow> True
      | Some sfx \<Rightarrow> if 1 < length sfx
          then length sfx < length d_name \<and> take 9 sfx = take 9 (drop (length d_name - length sfx) d_name) else True)"

fun process_loop ::
    "('s \<Rightarrow> string \<Rightarrow> nat \<Rightarrow> 's option) \<Rightarrow> string \<Rightarrow> string option \<Rightarrow> nat \<Rightarrow> (string \<times> bool) list \<Rightarrow> nat \<Rightarrow> 's
     \<Rightarrow> (int \<times> nat \<times> 's) option" where
  "process_loop callback dirbuff suffix maxfiles [] numfiles s = Some (0, numfiles, s)"
| "process_loop callback dirbuff suffix maxfiles ((d_name, is_file) # ds) numfiles s =
     (if has_suffix suffix d_name \<and> is_file then
        (if maxfiles \<le> numfiles then Some (-1, numfiles, s)
         else case callback s (snprintf 510 (dirbuff @ ''/'' @ d_name)) numfiles of
           None \<Rightarrow> None
         | Some s' \<Rightarrow> process_loop callback dirbuff suffix maxfiles ds (numfiles + 1) s')
      else process_loop callback dirbuff suffix maxfiles ds numfiles s)"

text \<open>The directory with its entries, each with whether it is a file or a link; \<open>None\<close> when it cannot be opened.\<close>

definition process_files ::
    "('s \<Rightarrow> string \<Rightarrow> nat \<Rightarrow> 's option) \<Rightarrow> string \<Rightarrow> string option \<Rightarrow> nat \<Rightarrow> (string \<times> bool) list option \<Rightarrow> 's
     \<Rightarrow> (int \<times> nat \<times> 's) option" where
  "process_files callback dirbuff suffix maxfiles dir s =
     (case dir of None \<Rightarrow> Some (-1, 0, s) | Some ds \<Rightarrow> process_loop callback dirbuff suffix maxfiles ds 0 s)"

section \<open>Reading\<close>

text \<open>The size that the system gives for the file and what can be read of it.\<close>

definition read_file_buffer :: "(nat \<times> char list) option \<Rightarrow> int \<times> char list" where
  "read_file_buffer f =
     (case f of None \<Rightarrow> (-1, []) | Some (st_size, bytes) \<Rightarrow> if length bytes = st_size then (0, bytes) else (-1, []))"

text \<open>
  The lines of the log. The room is counted down and the text so far is subtracted from it as well, in \<open>size_t\<close>.
\<close>

definition strncat_max :: "nat \<Rightarrow> string \<Rightarrow> nat" where
  "strncat_max room buffer = (room + SIZE_MOD - 1 - length buffer) mod SIZE_MOD"

function tail_loop :: "char list \<Rightarrow> string \<Rightarrow> nat \<Rightarrow> string \<times> nat" where
  "tail_loop out buffer maxlen =
     (if 512 < maxlen then
        case fgets 512 out of
          None \<Rightarrow> (buffer, maxlen)
        | Some (linebuffer, rest) \<Rightarrow>
            tail_loop rest (buffer @ take (strncat_max maxlen buffer) (c_string linebuffer))
              (maxlen - length (c_string linebuffer))
      else (buffer, maxlen))"
  by pat_completeness auto

termination tail_loop
  by (relation "measure (\<lambda>(out, buffer, maxlen). length out)") (auto simp: fgets_def Let_def split: if_splits)

declare tail_loop.simps [simp del]

text \<open>
  The command, \<open>None\<close> where no file can be shown, and the text: the result and the text, \<open>None\<close> when it is longer
  than the buffer. \<open>out\<close> is what the command printed, \<open>None\<close> when it could not be run.
\<close>

definition tail_cmd :: "string \<Rightarrow> nat \<Rightarrow> string option" where
  "tail_cmd logfile_name n =
     (if 999 < n then None
      else if logfile_name = ''stdout'' \<or> logfile_name = ''syslog'' then None
      else Some (snprintf 512 (if 0 < n then ''tail -n '' @ dec n @ '' '' @ logfile_name else ''cat '' @ logfile_name)))"

definition tail_logfile :: "string \<Rightarrow> nat \<Rightarrow> nat \<Rightarrow> char list option \<Rightarrow> (int \<times> string) option" where
  "tail_logfile logfile_name n maxlen out =
     (case tail_cmd logfile_name n of
        None \<Rightarrow> Some (-1, [])
      | Some cmd \<Rightarrow>
          (case out of
             None \<Rightarrow> Some (-1, [])
           | Some txt \<Rightarrow>
               (case tail_loop txt [] maxlen of (buffer, room) \<Rightarrow>
                  let buffer' = (if room \<le> 512 then buffer @ take (strncat_max 512 buffer) ([LF] @ ''(..logfile truncated)'' @ [LF]) else buffer)
                  in if maxlen \<le> length buffer' then None else Some (if room \<le> 512 then -1 else 0, buffer'))))"

section \<open>Nothing is overwritten\<close>

lemma dup_loop_free: "dup_loop fs nm i < 999 \<Longrightarrow> stat_path fs (nm (dup_loop fs nm i)) \<noteq> S_exists"
  by (induction fs nm i rule: dup_loop.induct) (subst (asm) (2) dup_loop.simps, subst dup_loop.simps, auto simp: Let_def split: if_splits)

lemma dup_loop_ge: "Suc i \<le> dup_loop fs nm i"
  by (induction fs nm i rule: dup_loop.induct) (subst dup_loop.simps, auto simp: Let_def)

lemma new_path_free:
  "new_path fs to_file = Some (Some p) \<Longrightarrow> length to_file \<le> 255 \<Longrightarrow> stat_path fs p \<noteq> S_exists"
  by (auto simp: new_path_def Let_def dup_loop_free split: stat_res.splits option.splits if_splits)

text \<open>
  Moving a file with a target of at most 255 characters overwrites no file: every other file is unchanged, and
  when the move succeeds the contents are found under a path that was free.
\<close>

lemma mv_overwrites_nothing:
  assumes "mv_and_rename fs from_file to_file maxlen = Some (rc, newname, fs')" and "length to_file \<le> 255"
  shows "(\<forall>p. p \<noteq> from_file \<and> fs_files fs p \<noteq> None \<longrightarrow> fs_files fs' p = fs_files fs p)
    \<and> (rc = 0 \<longrightarrow> (\<exists>p. fs_files fs p = None \<and> fs_files fs' = (fs_files fs)(from_file := None, p := fs_files fs from_file)))
    \<and> (rc \<noteq> 0 \<longrightarrow> fs' = fs)"
proof (cases "\<exists>p. stat_path fs from_file = S_exists \<and> new_path fs to_file = Some (Some p) \<and> rename_path fs from_file p = (rc, fs')")
  case True
  then obtain p where p: "new_path fs to_file = Some (Some p)" "rename_path fs from_file p = (rc, fs')" by blast
  from new_path_free [OF p(1) assms(2)] p(2) show ?thesis
    by (auto simp: rename_path_def stat_path_def split: if_splits)
next
  case False
  with assms(1) have "fs' = fs" "rc = -1" by (auto simp: mv_and_rename_def split: if_splits option.splits prod.splits)
  then show ?thesis by simp
qed

definition eg_files :: file_system where
  "eg_files = \<lparr>fs_files = [''/c/a.txt'' \<mapsto> ''new'', ''/c/b.txt'' \<mapsto> ''old''], fs_denied = (\<lambda>_. False)\<rparr>"

lemma eg_new_path: "new_path eg_files ''/c/b.txt'' = Some (Some ''/c/b_001.txt'')"
proof -
  have "dec_pad 3 1 = ''001''" by code_simp
  then show ?thesis
    by (simp add: new_path_def stat_path_def eg_files_def basename_def dirname_def split_short_def dup_loop.simps [of _ _ 0] dup_name_def Let_def)
qed

section \<open>Further facts\<close>

lemma find_idx_absent: "x \<notin> set xs \<Longrightarrow> find_idx (\<lambda>c. c = x) (rev xs @ ys) = length xs + find_idx (\<lambda>c. c = x) ys"
proof -
  assume "x \<notin> set xs"
  then have "length (rev xs) \<le> find_idx (\<lambda>c. c = x) (rev xs)" by (simp only: find_idx_ge_iff) auto
  then show ?thesis by (simp add: find_idx_append)
qed

lemma strip_filesuffix_join:
  assumes "CHR ''.'' \<notin> set sfx" and "base \<noteq> []" and "length base + length sfx < 255"
  shows "strip_filesuffix slen (base @ ''.'' @ sfx) = Some (0, base, Some (take (slen - 1) sfx))"
proof -
  have "find_idx (\<lambda>c. c = CHR ''.'') (rev sfx @ CHR ''.'' # rev base) = length sfx"
    using find_idx_absent [OF assms(1), of "CHR ''.'' # rev base"] by simp
  then show ?thesis using assms(2,3) by (simp add: strip_filesuffix_def Let_def)
qed

text \<open>The number 999 is never used: with 998 duplicates the move fails, although the last name is free.\<close>

lemma dup_loop_998:
  "\<forall>j<999. stat_path fs (nm j) = S_exists \<Longrightarrow> i \<le> 998 \<Longrightarrow> dup_loop fs nm i = 999"
proof (induction fs nm i rule: dup_loop.induct)
  case (1 fs nm i)
  then show ?case by (subst dup_loop.simps, cases "i = 998") (auto simp: Let_def)
qed

lemma last_number_unused:
  assumes "stat_path fs from_file = S_exists" and "stat_path fs to_file = S_exists" and "length to_file < 255"
    and "split_short (take 127 (basename to_file)) = Some (Some (s, e))"
    and "\<forall>j<999. stat_path fs (dup_name (take 255 (dirname to_file)) s e j) = S_exists"
  shows "mv_and_rename fs from_file to_file maxlen = Some (-1, None, fs)"
proof -
  have "dup_loop fs (dup_name (take 255 (dirname to_file)) s e) 0 = 999" by (rule dup_loop_998) (use assms(5) in auto)
  then show ?thesis using assms by (simp add: mv_and_rename_def new_path_def)
qed

text \<open>The removal of a tree, when everything is permitted.\<close>

fun plain_tree :: "nat \<Rightarrow> entries \<Rightarrow> bool" where
  "plain_tree n E_nil = True"
| "plain_tree n (E_cons d_name nd rest) =
     (n + 1 + length d_name < 512 \<and> plain_tree n rest \<and>
      (case nd of N_plain \<Rightarrow> True | N_special \<Rightarrow> False | N_dir es \<Rightarrow> plain_tree (n + 1 + length d_name) es))"

lemma remove_all:
  shows "plain_tree (length dir) es \<Longrightarrow> removedir (\<lambda>_. True) dir es = Some (0, True, E_nil)"
    and "plain_tree (length dir) es \<Longrightarrow> remove_entries (\<lambda>_. True) dir es = Some (True, E_nil)"
proof (induction "\<lambda>_ :: string. True" dir es and "\<lambda>_ :: string. True" dir es rule: removedir_remove_entries.induct)
  case (3 dir d_name nd rest)
  then show ?case by (cases nd) (auto simp: Let_def)
qed auto

text \<open>A directory inside that cannot be opened is skipped: its \<open>errno\<close> is positive.\<close>

lemma unreadable_directory_skipped:
  "removedir (\<lambda>p. p \<noteq> ''/a/b'') ''/a'' (E_cons ''b'' (N_dir E_nil) (E_cons ''c'' N_plain E_nil))
     = Some (-1, False, E_cons ''b'' (N_dir E_nil) E_nil)"
  by simp

text \<open>A line of the log is cut when the text so far takes up more than half of the room, although it would fit.\<close>

lemma log_line_cut:
  "length buffer = 700 \<Longrightarrow> LF \<notin> set l \<Longrightarrow> NUL \<notin> set l \<Longrightarrow> length l = 500 \<Longrightarrow>
     tail_loop (l @ [LF]) buffer 900 = (buffer @ take 199 l, 399)"
proof -
  assume a: "length buffer = 700" "LF \<notin> set l" "NUL \<notin> set l" "length l = 500"
  have f: "find_idx (\<lambda>c. c = LF) (l @ [LF]) = 500"
    using find_idx_absent [of LF "rev l" "[LF]"] a(2,4) by simp
  have g: "fgets 512 (l @ [LF]) = Some (l @ [LF], [])" unfolding fgets_def Let_def f using a(4) by simp
  have c: "c_string (l @ [LF]) = l @ [LF]"
    using a(3) unfolding c_string_def by (subst takeWhile_eq_all_conv) auto
  have r: "strncat_max 900 buffer = 199" by (simp add: strncat_max_def a(1) SIZE_MOD_def)
  have e: "tail_loop [] b m = (b, m)" for b m by (subst tail_loop.simps) (simp add: fgets_def)
  show ?thesis by (subst tail_loop.simps) (simp add: g c r e a(4))
qed

section \<open>The backup of a cache index\<close>

datatype geo_cache_t = GEOCACHE_ADDR | GEOCACHE_MINIMAP

definition cache_files :: "geo_cache_t \<Rightarrow> string \<times> string" where
  "cache_files geo_cache =
     (case geo_cache of
        GEOCACHE_ADDR \<Rightarrow> (''geoloc_addrcache.txt'', ''geoloc_addrcache_backup.txt'')
      | GEOCACHE_MINIMAP \<Rightarrow> (''geoloc_minimapcache.txt'', ''geoloc_minimapcache_backup.txt''))"

definition create_cache_backup :: "string \<Rightarrow> geo_cache_t \<Rightarrow> file_system \<Rightarrow> (int \<times> file_system) option" where
  "create_cache_backup db_dir geo_cache fs =
     (case cache_files geo_cache of (file, backupFile) \<Rightarrow>
        let fullPath = snprintf 256 (db_dir @ ''/'' @ file); fullBackupPath = snprintf 256 (db_dir @ ''/'' @ backupFile) in
        case mv_and_rename fs fullBackupPath fullBackupPath 0 of
          None \<Rightarrow> None
        | Some (_, _, fs1) \<Rightarrow> map_option (\<lambda>(rc, _, fs2). (rc, fs2)) (mv_and_rename fs1 fullPath fullBackupPath 0))"

text \<open>Two moves one after the other, each to a free path or not done.\<close>

definition moved :: "string \<Rightarrow> (string \<rightharpoonup> string) \<Rightarrow> (string \<rightharpoonup> string) \<Rightarrow> bool" where
  "moved a m m' \<longleftrightarrow> m' = m \<or> (\<exists>p. m p = None \<and> m' = m(a := None, p := m a))"

lemma mv_moved:
  assumes "mv_and_rename fs from_file to_file maxlen = Some (rc, newname, fs')" and "length to_file \<le> 255"
  shows "moved from_file (fs_files fs) (fs_files fs')"
  using mv_overwrites_nothing [OF assms] unfolding moved_def by metis

lemma moved_keeps: "moved a m m' \<Longrightarrow> m p = Some x \<Longrightarrow> p \<noteq> a \<Longrightarrow> m' p = Some x"
  by (auto simp: moved_def)

lemma moved_somewhere:
  assumes "moved a m m'" and "m a = Some x"
  obtains p where "m' p = Some x" and "p = a \<or> m p = None"
proof -
  from assms consider "m' = m" | q where "m q = None" "m' = m(a := None, q \<mapsto> x)" by (auto simp: moved_def)
  then show thesis
  proof cases
    case 1
    then show thesis using that [of a] assms(2) by simp
  next
    case 2
    then show thesis using that [of q] by simp
  qed
qed

lemma two_moves:
  assumes "moved b m m1" and "moved a m1 m2" and "a \<noteq> b" and "m b = Some y"
  shows "\<exists>q. m2 q = Some y \<and> (m a = Some x \<longrightarrow> (\<exists>p. p \<noteq> q \<and> m2 p = Some x))"
proof -
  obtain r where r: "m1 r = Some y" "r = b \<or> m r = None" by (rule moved_somewhere [OF assms(1,4)])
  show ?thesis
  proof (cases "r = a")
    case True
    then have "m a = None" using r(2) assms(3) by simp
    moreover obtain q where "m2 q = Some y" by (rule moved_somewhere [OF assms(2) r(1) [unfolded True]])
    ultimately show ?thesis by auto
  next
    case False
    have q: "m2 r = Some y" by (rule moved_keeps [OF assms(2) r(1) False])
    have "\<exists>p. p \<noteq> r \<and> m2 p = Some x" if a: "m a = Some x"
    proof -
      have "m1 a = Some x" by (rule moved_keeps [OF assms(1) a assms(3)])
      then obtain p where p: "m2 p = Some x" "p = a \<or> m1 p = None" by (rule moved_somewhere [OF assms(2)])
      have "p \<noteq> r" using p(2) False r(1) by auto
      with p(1) show ?thesis by blast
    qed
    with q show ?thesis by blast
  qed
qed

text \<open>
  C26: Making the backup of a cache index loses nothing, whether it succeeds or not: every other file stays as it is,
  and the old contents of the index and of the backup that there was are both found afterwards, under two paths. After
  a success there was an index, and its path is free for the new one.
\<close>

theorem backup_keeps_contents:
  assumes "create_cache_backup db_dir geo_cache fs = Some (rc, fs')"
    and "length db_dir < 220" and "cache_files geo_cache = (file, backupFile)"
    and "index = db_dir @ ''/'' @ file" and "backup = db_dir @ ''/'' @ backupFile"
  shows "(\<forall>p. p \<noteq> index \<and> p \<noteq> backup \<and> fs_files fs p \<noteq> None \<longrightarrow> fs_files fs' p = fs_files fs p)
    \<and> (\<forall>x. fs_files fs index = Some x \<longrightarrow> (\<exists>p. fs_files fs' p = Some x))
    \<and> (\<forall>y. fs_files fs backup = Some y \<longrightarrow> (\<exists>q. fs_files fs' q = Some y
          \<and> (\<forall>x. fs_files fs index = Some x \<longrightarrow> (\<exists>p. p \<noteq> q \<and> fs_files fs' p = Some x))))
    \<and> (rc = 0 \<longrightarrow> fs_files fs' index = None)"
proof -
  have lens: "length backup \<le> 255" "index \<noteq> backup" "snprintf 256 index = index" "snprintf 256 backup = backup"
    using assms(2-5) by (auto simp: cache_files_def split: geo_cache_t.splits)
  obtain rc1 n1 fs1 n2 where 1: "mv_and_rename fs backup backup 0 = Some (rc1, n1, fs1)"
    and 2: "mv_and_rename fs1 index backup 0 = Some (rc, n2, fs')"
    using assms(1) unfolding create_cache_backup_def assms(3) prod.case Let_def assms(4,5) [symmetric] lens
    by (auto split: option.splits)
  note m1 = mv_moved [OF 1 lens(1)] and m2 = mv_moved [OF 2 lens(1)]
  have A: "fs_files fs' p = fs_files fs p" if p: "p \<noteq> index \<and> p \<noteq> backup \<and> fs_files fs p \<noteq> None" for p
  proof -
    obtain x where x: "fs_files fs p = Some x" using p by blast
    then have "fs_files fs' p = Some x" using moved_keeps [OF m2 moved_keeps [OF m1 x]] p by blast
    with x show ?thesis by simp
  qed
  have B: "\<exists>p. fs_files fs' p = Some x" if "fs_files fs index = Some x" for x
    using moved_somewhere [OF m2 moved_keeps [OF m1 that lens(2)]] by blast
  have D: "fs_files fs' index = None" if rc: "rc = 0"
  proof -
    have ne: "fs_files fs1 index \<noteq> None" using 2 rc by (auto simp: mv_and_rename_def stat_path_def split: if_splits)
    obtain q where q: "fs_files fs1 q = None" "fs_files fs' = (fs_files fs1)(index := None, q := fs_files fs1 index)"
      using mp [OF conjunct1 [OF conjunct2 [OF mv_overwrites_nothing [OF 2 lens(1)]]] rc] by (elim exE conjE)
    have "q \<noteq> index" using q(1) ne by metis
    then show ?thesis unfolding q(2) by simp
  qed
  have C: "\<exists>q. fs_files fs' q = Some y \<and> (\<forall>x. fs_files fs index = Some x \<longrightarrow> (\<exists>p. p \<noteq> q \<and> fs_files fs' p = Some x))"
    if "fs_files fs backup = Some y" for y
    using two_moves [OF m1 m2 lens(2) that, of "the (fs_files fs index)"] by (metis option.sel)
  show ?thesis
  proof (intro conjI)
    show "\<forall>p. p \<noteq> index \<and> p \<noteq> backup \<and> fs_files fs p \<noteq> None \<longrightarrow> fs_files fs' p = fs_files fs p" using A by blast
    show "\<forall>x. fs_files fs index = Some x \<longrightarrow> (\<exists>p. fs_files fs' p = Some x)" using B by blast
    show "\<forall>y. fs_files fs backup = Some y \<longrightarrow> (\<exists>q. fs_files fs' q = Some y
        \<and> (\<forall>x. fs_files fs index = Some x \<longrightarrow> (\<exists>p. p \<noteq> q \<and> fs_files fs' p = Some x)))" using C by blast
    show "rc = 0 \<longrightarrow> fs_files fs' index = None" using D by blast
  qed
qed

definition eg_caches :: file_system where
  "eg_caches = \<lparr>fs_files = [''/c/geoloc_addrcache.txt'' \<mapsto> ''new'', ''/c/geoloc_addrcache_backup.txt'' \<mapsto> ''old''], fs_denied = (\<lambda>_. False)\<rparr>"

lemma eg_paths:
  "new_path eg_caches ''/c/geoloc_addrcache_backup.txt'' = Some (Some ''/c/geoloc_addrcache_backup_001.txt'')"
proof -
  have "dec_pad 3 1 = ''001''" by code_simp
  then show ?thesis
    by (simp add: new_path_def stat_path_def eg_caches_def basename_def dirname_def split_short_def dup_loop.simps [of _ _ 0] dup_name_def Let_def)
qed

lemma eg_backup:
  "create_cache_backup ''/c'' GEOCACHE_ADDR eg_caches =
     Some (0, eg_caches\<lparr>fs_files := [''/c/geoloc_addrcache_backup.txt'' \<mapsto> ''new'', ''/c/geoloc_addrcache_backup_001.txt'' \<mapsto> ''old'']\<rparr>)"
proof -
  let ?i = "''/c/geoloc_addrcache.txt''" and ?b = "''/c/geoloc_addrcache_backup.txt''" and ?o = "''/c/geoloc_addrcache_backup_001.txt''"
  let ?fs1 = "eg_caches\<lparr>fs_files := (fs_files eg_caches)(?b := None, ?o := Some ''old'')\<rparr>"
  have 1: "mv_and_rename eg_caches ?b ?b 0 = Some (0, Some [], ?fs1)"
    unfolding mv_and_rename_def eg_paths by (simp add: stat_path_def rename_path_def eg_caches_def)
  have 2: "new_path ?fs1 ?b = Some (Some ?b)" by (simp add: new_path_def stat_path_def eg_caches_def)
  have 3: "mv_and_rename ?fs1 ?i ?b 0 = Some (0, Some [], eg_caches\<lparr>fs_files := [?b \<mapsto> ''new'', ?o \<mapsto> ''old'']\<rparr>)"
    unfolding mv_and_rename_def 2 by (simp add: stat_path_def rename_path_def eg_caches_def fun_eq_iff)
  show ?thesis by (simp add: create_cache_backup_def cache_files_def 1 3)
qed

theorem backup_keeps_contents_witness:
  "\<exists>fs' p q. create_cache_backup ''/c'' GEOCACHE_ADDR eg_caches = Some (0, fs')
     \<and> p \<noteq> q \<and> fs_files fs' p = Some ''new'' \<and> fs_files fs' q = Some ''old''"
proof -
  let ?i = "''geoloc_addrcache.txt''" and ?b = "''geoloc_addrcache_backup.txt''"
  have c: "cache_files GEOCACHE_ADDR = (?i, ?b)" "length ''/c'' < 220" by (simp_all add: cache_files_def)
  have o: "fs_files eg_caches (''/c'' @ ''/'' @ ?b) = Some ''old''" and n: "fs_files eg_caches (''/c'' @ ''/'' @ ?i) = Some ''new''"
    by (simp_all add: eg_caches_def)
  note t = backup_keeps_contents [OF eg_backup c(2,1) refl refl, THEN conjunct2, THEN conjunct2, THEN conjunct1, THEN spec, THEN mp, OF o]
  then show ?thesis using n eg_backup by blast
qed

end
