(* ===== verification/Mailutil.thy ===== *)
theory Mailutil
  imports Futils Smtp Dict
begin

text \<open>
  Mails of the daemon (\<^verbatim>\<open>src/src/mailutil.c\<close>): the command line of the system mailer with its quoting, mails made
  from a template with the keywords of a dictionary, and their sending through the mail server. \<open>system\<close>, the files
  and the mail server are arguments.
\<close>

section \<open>The mail command\<close>

text \<open>\<open>bound\<close> is \<open>maxlen - 1\<close> in \<open>size_t\<close>; \<open>i\<close> counts the bytes written.\<close>

fun escape_loop :: "nat \<Rightarrow> bool \<Rightarrow> nat \<Rightarrow> string \<Rightarrow> string" where
  "escape_loop bound remove_nr i [] = []"
| "escape_loop bound remove_nr i (c # from) =
     (if \<not> i < bound then []
      else if c = DQ then [BSLASH, DQ] @ escape_loop bound remove_nr (i + 2) from
      else if remove_nr \<and> (c = LF \<or> c = CR) then CHR '' '' # escape_loop bound remove_nr (i + 1) from
      else c # escape_loop bound remove_nr (i + 1) from)"

text \<open>\<open>None\<close> when the text and its NUL do not fit in \<open>maxlen\<close> bytes.\<close>

definition escape_quotes :: "string \<Rightarrow> nat \<Rightarrow> bool \<Rightarrow> string option" where
  "escape_quotes fromstr maxlen remove_nr =
     (let tostr = escape_loop ((maxlen + SIZE_MOD - 1) mod SIZE_MOD) remove_nr 0 fromstr
      in if maxlen \<le> length tostr then None else Some tostr)"

definition mail_cmd :: "string \<Rightarrow> string \<Rightarrow> string \<Rightarrow> string \<Rightarrow> string" where
  "mail_cmd qmessage from_addr qsubject to_addr =
     snprintf (20 * 1024 - 1) (''echo '' @ quoted_text qmessage @ '' | /usr/bin/mail '' @
       (if from_addr = [] then [] else ''-r '' @ quoted_text from_addr @ '' '') @
       ''-s '' @ quoted_text qsubject @ '' '' @ quoted_text to_addr)"

text \<open>The result of \<open>system\<close> and the command.\<close>

definition send_mail :: "(string \<Rightarrow> int) \<Rightarrow> string \<Rightarrow> string \<Rightarrow> string \<Rightarrow> string \<Rightarrow> (int \<times> string) option" where
  "send_mail system_rc subject from_addr to_addr message =
     (case escape_quotes message (2 * length message) False of
        None \<Rightarrow> None
      | Some qmessage \<Rightarrow>
          (case escape_quotes subject (2 * length subject) True of
             None \<Rightarrow> None
           | Some qsubject \<Rightarrow>
               let buffer = mail_cmd qmessage from_addr qsubject to_addr in Some (system_rc buffer, buffer)))"

section \<open>Images\<close>

record inlineimage_t =
  im_data :: "char list"
  im_format :: string
  im_filename :: string

text \<open>\<open>None\<close>: a name without an end leaves the format unset.\<close>

definition setup_inlineimg :: "string \<Rightarrow> char list \<Rightarrow> inlineimage_t option" where
  "setup_inlineimg filename imgdata =
     (let bfilename = basename filename in
      case strip_filesuffix 8 bfilename of
        Some (_, _, Some suffix) \<Rightarrow> Some \<lparr>im_data = imgdata, im_format = fst (xstrtolower suffix), im_filename = bfilename\<rparr>
      | _ \<Rightarrow> None)"

definition read_inlineimg_from_file :: "files \<Rightarrow> string \<Rightarrow> (int \<times> inlineimage_t option) option" where
  "read_inlineimg_from_file fs filename =
     (case read_file_buffer (fs filename) of (rc, buffer) \<Rightarrow>
        if rc = -1 then Some (-1, None) else map_option (\<lambda>im. (0, Some im)) (setup_inlineimg filename buffer))"

section \<open>Mails from templates\<close>

text \<open>The configuration, and what is used: the files, \<open>system\<close> and the mail server.\<close>

record mail_conf =
  enable_mail :: bool
  smtp_use :: bool
  use_html_mail :: bool
  mc_data_dir :: string
  smtp_user :: string
  smtp_pwd :: string
  smtp_port :: int
  daemon_email_from :: string
  send_mailaddress :: string

record mail_world =
  mw_files :: files
  mw_system :: "string \<Rightarrow> int"
  mw_server :: server
  mw_greeting :: "recv option"
  mw_env :: mail_env

text \<open>What left the daemon: nothing, a command, or what was sent to the mail server.\<close>

datatype mail_sent = M_none | M_command string | M_smtp "string list"

definition template_file :: "mail_conf \<Rightarrow> string \<Rightarrow> string \<Rightarrow> string" where
  "template_file cf templatename ext =
     snprintf 256 (mc_data_dir cf @ ''/'' @ ''mail_templates'' @ ''/'' @ templatename @ ext)"

definition cid_val :: "nat \<Rightarrow> string" where
  "cid_val i = ''img_cid'' @ dec_pad 2 i"

fun add_cids :: "nat \<Rightarrow> nat \<Rightarrow> dict \<Rightarrow> dict option" where
  "add_cids i 0 d = Some d"
| "add_cids i (Suc n) d =
     (case add_dict d (''CID'' @ dec_pad 2 (i + 1)) (cid_val i) of None \<Rightarrow> None | Some (d', _) \<Rightarrow> add_cids (i + 1) n d')"

fun add_images :: "nat \<Rightarrow> inlineimage_t list \<Rightarrow> smtp_handle \<Rightarrow> smtp_handle option" where
  "add_images i [] h = Some h"
| "add_images i (im # ims) h =
     (case smtp_add_attachment_inlineimage_buffer h (im_filename im) (im_data im) (im_format im) (cid_val i) of
        None \<Rightarrow> None | Some (h', _) \<Rightarrow> add_images (i + 1) ims h')"

definition connect_server :: "mail_conf \<Rightarrow> mail_world \<Rightarrow> (string list \<times> smtp_handle option) option" where
  "connect_server cf w =
     smtp_setup (mw_server w) (mw_greeting w) (Some (me_hname (mw_env w))) (smtp_user cf) (smtp_pwd cf) (smtp_port cf)"

definition attach_file :: "mail_world \<Rightarrow> string option \<Rightarrow> smtp_handle \<Rightarrow> smtp_handle option" where
  "attach_file w attFileName h =
     (case attFileName of
        None \<Rightarrow> Some h
      | Some f \<Rightarrow> if f = [] then Some h else map_option fst (smtp_add_attachment_binary (mw_files w) h f))"

text \<open>The mail with its body, attachment and images, through the server.\<close>

definition smtp_template ::
    "mail_conf \<Rightarrow> mail_world \<Rightarrow> string \<Rightarrow> string \<Rightarrow> string \<Rightarrow> string option \<Rightarrow> string option \<Rightarrow> string option
     \<Rightarrow> inlineimage_t list \<Rightarrow> (int \<times> mail_sent) option" where
  "smtp_template cf w subject from_addr to_addr buffer buffer2 attFileName images =
     (case connect_server cf w of
        None \<Rightarrow> None
      | Some (sent, None) \<Rightarrow> Some (-1, M_smtp sent)
      | Some (sent, Some h) \<Rightarrow>
          (case smtp_add_rcpt h SMTP_RCPT_TO to_addr of
             None \<Rightarrow> None
           | Some (h, rc) \<Rightarrow>
               if rc = -1 then Some (-1, M_smtp sent)
               else let h = (if use_html_mail cf then fst (smtp_add_html h buffer buffer2)
                             else case buffer of None \<Rightarrow> h | Some b \<Rightarrow> fst (smtp_add_plain h b)) in
                 case attach_file w attFileName h of
                   None \<Rightarrow> None
                 | Some h \<Rightarrow>
                     (case add_images 0 images h of
                        None \<Rightarrow> None
                      | Some h \<Rightarrow> map_option (\<lambda>(sent, _, rc). (rc, M_smtp sent))
                          (smtp_sendmail (mw_env w) (mw_server w) sent h from_addr subject))))"

text \<open>The result, what was sent and the dictionary, to which the names of the images are added.\<close>

definition send_mail_template ::
    "mail_conf \<Rightarrow> mail_world \<Rightarrow> string \<Rightarrow> string \<Rightarrow> string \<Rightarrow> string \<Rightarrow> dict \<Rightarrow> string option \<Rightarrow> inlineimage_t list
     \<Rightarrow> (int \<times> mail_sent \<times> dict) option" where
  "send_mail_template cf w subject from_addr to_addr templatename keyword_dict attFileName images =
     (if \<not> enable_mail cf then Some (-99, M_none, keyword_dict)
      else case add_cids 0 (length images) keyword_dict of
        None \<Rightarrow> None
      | Some d \<Rightarrow>
          (case replace_dict_in_file d (mw_files w (template_file cf templatename
                  (if use_html_mail cf \<and> smtp_use cf then ''.html'' else ''.txt''))) of
             None \<Rightarrow> None
           | Some (buffer, rc) \<Rightarrow>
               if rc = -1 then Some (-1, M_none, d)
               else if \<not> smtp_use cf \<or> \<not> use_html_mail cf then
                 map_option (\<lambda>(rc, cmd). (rc, M_command cmd, d)) (send_mail (mw_system w) subject from_addr to_addr (the buffer))
               else case replace_dict_in_file d (mw_files w (template_file cf templatename ''.txt'')) of
                 None \<Rightarrow> None
               | Some (buffer2, _) \<Rightarrow>
                   map_option (\<lambda>(rc, sent). (rc, sent, d))
                     (smtp_template cf w subject from_addr to_addr buffer buffer2 attFileName images)))"

section \<open>Mails from two texts\<close>

definition smtp_two_texts ::
    "mail_conf \<Rightarrow> mail_world \<Rightarrow> string \<Rightarrow> string \<Rightarrow> string \<Rightarrow> string \<Rightarrow> string option \<Rightarrow> (int \<times> mail_sent) option" where
  "smtp_two_texts cf w to_addr subject buffer_plain buffer_html binaryFile =
     (case connect_server cf w of
        None \<Rightarrow> None
      | Some (sent, None) \<Rightarrow> Some (-1, M_smtp sent)
      | Some (sent, Some h) \<Rightarrow>
          (case smtp_add_html h (Some buffer_html) (Some buffer_plain) of (h, rc) \<Rightarrow>
             if rc = -1 then Some (-1, M_smtp sent)
             else case smtp_add_rcpt h SMTP_RCPT_TO to_addr of
               None \<Rightarrow> None
             | Some (h, rc) \<Rightarrow>
                 if rc = -1 then Some (-1, M_smtp sent)
                 else case (case binaryFile of None \<Rightarrow> Some (h, 0) | Some f \<Rightarrow> smtp_add_attachment_binary (mw_files w) h f) of
                   None \<Rightarrow> None
                 | Some (h, rc) \<Rightarrow>
                     if rc = -1 then Some (-1, M_smtp sent)
                     else map_option (\<lambda>(sent, _, rc). (rc, M_smtp sent))
                            (smtp_sendmail (mw_env w) (mw_server w) sent h (daemon_email_from cf) subject)))"

definition command_mail :: "mail_conf \<Rightarrow> mail_world \<Rightarrow> string \<Rightarrow> string \<Rightarrow> (int \<times> mail_sent) option" where
  "command_mail cf w subject buffer_plain =
     map_option (\<lambda>(rc, cmd). (rc, M_command cmd))
       (send_mail (mw_system w) subject (daemon_email_from cf) (send_mailaddress cf) buffer_plain)"

definition sendmail_helper :: "mail_conf \<Rightarrow> mail_world \<Rightarrow> string \<Rightarrow> string \<Rightarrow> string \<Rightarrow> (int \<times> mail_sent) option" where
  "sendmail_helper cf w subject buffer_plain buffer_html =
     (if \<not> smtp_use cf \<or> \<not> use_html_mail cf then command_mail cf w subject buffer_plain
      else smtp_two_texts cf w (send_mailaddress cf) subject buffer_plain buffer_html None)"

text \<open>Through the system mailer neither \<open>to_addr\<close> nor the file is used.\<close>

definition sendmail_binattach_helper ::
    "mail_conf \<Rightarrow> mail_world \<Rightarrow> string \<Rightarrow> string \<Rightarrow> string \<Rightarrow> string \<Rightarrow> string \<Rightarrow> (int \<times> mail_sent) option" where
  "sendmail_binattach_helper cf w to_addr subject buffer_plain buffer_html binaryFile =
     (if \<not> smtp_use cf \<or> \<not> use_html_mail cf then command_mail cf w subject buffer_plain
      else smtp_two_texts cf w to_addr subject buffer_plain buffer_html (Some binaryFile))"

section \<open>The words the shell sees\<close>

text \<open>
  How a shell takes a line apart: words end at blanks, a backslash takes the next character, within double quotes only
  before \<^verbatim>\<open>" \ $ `\<close>. \<open>None\<close> for expansions and for an open quote.
\<close>

abbreviation (input) dollar :: char where "dollar \<equiv> CHR ''$''"
abbreviation (input) backtick :: char where "backtick \<equiv> CHR 0x60"

definition word_so_far :: "string option \<Rightarrow> string" where
  "word_so_far w = (case w of None \<Rightarrow> [] | Some x \<Rightarrow> x)"

fun shell_scan :: "bool \<Rightarrow> string option \<Rightarrow> string \<Rightarrow> string list option" where
  "shell_scan quoted w [] = (if quoted then None else Some (case w of None \<Rightarrow> [] | Some x \<Rightarrow> [x]))"
| "shell_scan quoted w [c] =
     (if quoted then (if c = DQ then Some [word_so_far w] else None)
      else if c = CHR '' '' then Some (case w of None \<Rightarrow> [] | Some x \<Rightarrow> [x])
      else if c = DQ \<or> c = BSLASH \<or> c = dollar \<or> c = backtick then None
      else Some [word_so_far w @ [c]])"
| "shell_scan quoted w (c # d # s) =
     (if c = dollar \<or> c = backtick then None
      else if quoted then
        (if c = DQ then shell_scan False (Some (word_so_far w)) (d # s)
         else if c = BSLASH
         then shell_scan True (Some (word_so_far w @ (if d = DQ \<or> d = BSLASH \<or> d = dollar \<or> d = backtick then [d] else [c, d]))) s
         else shell_scan True (Some (word_so_far w @ [c])) (d # s))
      else if c = CHR '' '' then
        (case w of None \<Rightarrow> shell_scan False None (d # s) | Some x \<Rightarrow> map_option ((#) x) (shell_scan False None (d # s)))
      else if c = DQ then shell_scan True (Some (word_so_far w)) (d # s)
      else if c = BSLASH then shell_scan False (Some (word_so_far w @ [d])) s
      else shell_scan False (Some (word_so_far w @ [c])) (d # s))"

definition shell_words :: "string \<Rightarrow> string list option" where
  "shell_words cmd = shell_scan False None cmd"

text \<open>Escaping without a bound, and the text that is meant.\<close>

definition esc_char :: "bool \<Rightarrow> char \<Rightarrow> string" where
  "esc_char remove_nr c = (if c = DQ then [BSLASH, DQ] else if remove_nr \<and> (c = LF \<or> c = CR) then '' '' else [c])"

definition esc_text :: "bool \<Rightarrow> string \<Rightarrow> string" where
  "esc_text remove_nr s = concat (map (esc_char remove_nr) s)"

definition meant :: "bool \<Rightarrow> string \<Rightarrow> string" where
  "meant remove_nr s = map (\<lambda>c. if remove_nr \<and> (c = LF \<or> c = CR) then CHR '' '' else c) s"

definition shell_safe :: "string \<Rightarrow> bool" where
  "shell_safe s \<longleftrightarrow> list_all (\<lambda>c. c \<noteq> BSLASH \<and> c \<noteq> dollar \<and> c \<noteq> backtick) s"

lemma esc_text_simps [simp]:
  "esc_text nr [] = []" "esc_text nr (c # s) = esc_char nr c @ esc_text nr s"
  by (simp_all add: esc_text_def)

lemma escape_loop_all: "i + 2 * length s \<le> bound + 1 \<Longrightarrow> escape_loop bound nr i s = esc_text nr s"
  by (induction bound nr i s rule: escape_loop.induct) (auto simp: esc_char_def)

lemma esc_text_length:
  "length s \<le> length (esc_text nr s)" "length (esc_text nr s) + length (filter (\<lambda>c. c \<noteq> DQ) s) = 2 * length s"
  by (induction s) (auto simp: esc_char_def)

text \<open>A text of quotes only, also the empty one, overruns the buffer by one byte.\<close>

lemma escape_quotes_eq:
  assumes "2 * length s < SIZE_MOD"
  shows "escape_quotes s (2 * length s) nr = (if list_ex (\<lambda>c. c \<noteq> DQ) s then Some (esc_text nr s) else None)"
proof (cases "s = []")
  case True
  then show ?thesis by (simp add: escape_quotes_def)
next
  case False
  then have "(2 * length s + SIZE_MOD - 1) mod SIZE_MOD = 2 * length s - 1"
    using assms by (cases "length s") (simp_all add: mod_if)
  then have "escape_loop ((2 * length s + SIZE_MOD - 1) mod SIZE_MOD) nr 0 s = esc_text nr s"
    using False by (simp add: escape_loop_all)
  moreover have "2 * length s \<le> length (esc_text nr s) \<longleftrightarrow> \<not> list_ex (\<lambda>c. c \<noteq> DQ) s"
  proof -
    have "2 * length s \<le> length (esc_text nr s) \<longleftrightarrow> filter (\<lambda>c. c \<noteq> DQ) s = []"
      using esc_text_length(2) [where nr = nr and s = s] by (simp flip: length_0_conv) linarith
    then show ?thesis by (simp add: list_ex_iff filter_empty_conv)
  qed
  ultimately show ?thesis by (simp add: escape_quotes_def)
qed

lemma send_mail_total:
  assumes "list_ex (\<lambda>c. c \<noteq> DQ) message" and "list_ex (\<lambda>c. c \<noteq> DQ) subject" and "length message < 10000" and "length subject < 10000"
  shows "\<exists>cmd. send_mail system_rc subject from_addr to_addr message = Some (system_rc cmd, cmd)"
  using assms by (simp add: send_mail_def escape_quotes_eq SIZE_MOD_def Let_def)

lemma shell_scan_quoted:
  "shell_safe s \<Longrightarrow> rest \<noteq> [] \<Longrightarrow>
     shell_scan True (Some x) (esc_text nr s @ DQ # rest) = shell_scan False (Some (x @ meant nr s)) rest"
proof (induction s arbitrary: x)
  case Nil
  then show ?case by (cases rest) (simp_all add: meant_def word_so_far_def)
next
  case (Cons c s)
  have "\<exists>d t. esc_text nr s @ DQ # rest = d # t" by (cases "esc_text nr s") auto
  then obtain d t where dt: "esc_text nr s @ DQ # rest = d # t" by blast
  have IH: "shell_scan True (Some (x @ [e])) (d # t) = shell_scan False (Some (x @ e # meant nr s)) rest" for e
    using Cons by (simp add: dt [symmetric] shell_safe_def)
  have c: "c \<noteq> BSLASH" "c \<noteq> dollar" "c \<noteq> backtick" using Cons.prems by (simp_all add: shell_safe_def)
  show ?case
    using c by (auto simp: esc_char_def dt IH word_so_far_def meant_def)
qed

lemma shell_scan_quoted_end:
  "shell_safe s \<Longrightarrow> shell_scan True (Some x) (esc_text nr s @ [DQ]) = Some [x @ meant nr s]"
proof (induction s arbitrary: x)
  case Nil
  then show ?case by (simp add: meant_def word_so_far_def)
next
  case (Cons c s)
  have "\<exists>d t. esc_text nr s @ [DQ] = d # t" by (cases "esc_text nr s") auto
  then obtain d t where dt: "esc_text nr s @ [DQ] = d # t" by blast
  have IH: "shell_scan True (Some (x @ [e])) (d # t) = Some [x @ e # meant nr s]" for e
    using Cons by (simp add: dt [symmetric] shell_safe_def)
  have c: "c \<noteq> BSLASH" "c \<noteq> dollar" "c \<noteq> backtick" using Cons.prems by (simp_all add: shell_safe_def)
  show ?case
    using c by (auto simp: esc_char_def dt IH word_so_far_def meant_def)
qed

lemma shell_scan_open: "t \<noteq> [] \<Longrightarrow> shell_scan False w (DQ # t) = shell_scan True (Some (word_so_far w)) t"
  by (cases t) simp_all

lemma esc_text_plain: "DQ \<notin> set s \<Longrightarrow> esc_text False s = s" "meant False s = s"
  by (induction s) (auto simp: esc_char_def meant_def)

lemma shell_scan_text:
  "shell_safe s \<Longrightarrow> rest \<noteq> [] \<Longrightarrow>
     shell_scan False None (DQ # esc_text nr s @ DQ # rest) = shell_scan False (Some (meant nr s)) rest"
  by (subst shell_scan_open) (simp_all add: shell_scan_quoted word_so_far_def)

lemma shell_scan_text_end: "shell_safe s \<Longrightarrow> shell_scan False None (DQ # esc_text nr s @ [DQ]) = Some [meant nr s]"
  by (subst shell_scan_open) (simp_all add: shell_scan_quoted_end word_so_far_def)

lemma shell_scan_space: "s \<noteq> [] \<Longrightarrow> shell_scan False (Some x) (CHR '' '' # s) = map_option ((#) x) (shell_scan False None s)"
  by (cases s) simp_all

lemma shell_words_mail:
  assumes "shell_safe m" and "shell_safe s" and "shell_safe f" and "DQ \<notin> set f" and "shell_safe t" and "DQ \<notin> set t"
  shows "shell_words (''echo '' @ quoted_text (esc_text False m) @ '' | /usr/bin/mail '' @
      (if f = [] then [] else ''-r '' @ quoted_text f @ '' '') @ ''-s '' @ quoted_text (esc_text True s) @ '' '' @ quoted_text t)
    = Some ([''echo'', m, ''|'', ''/usr/bin/mail''] @ (if f = [] then [] else [''-r'', f]) @ [''-s'', meant True s, t])"
proof -
  have t: "shell_scan False None (DQ # t @ [DQ]) = Some [t]"
    using shell_scan_text_end [OF assms(5), of False] by (simp add: esc_text_plain assms(6))
  have s: "shell_scan False None (DQ # esc_text True s @ DQ # CHR '' '' # DQ # t @ [DQ]) = Some [meant True s, t]"
    by (simp add: shell_scan_text [OF assms(2)] shell_scan_space t)
  have f: "shell_scan False None (DQ # f @ DQ # CHR '' '' # r) = map_option ((#) f) (shell_scan False None r)" if "r \<noteq> []" for r
    using shell_scan_text [OF assms(3), of "CHR '' '' # r" False] that by (simp add: esc_text_plain assms(4) shell_scan_space)
  have m: "shell_scan False None (DQ # esc_text False m @ DQ # CHR '' '' # r) = map_option ((#) m) (shell_scan False None r)" if "r \<noteq> []" for r
    using shell_scan_text [OF assms(1), of "CHR '' '' # r" False] that by (simp add: esc_text_plain shell_scan_space)
  show ?thesis by (simp add: shell_words_def word_so_far_def m f s)
qed

text \<open>
  C16: The shell takes the command of the mailer apart as intended: message, sender, subject (with line ends made
  blanks) and receiver each arrive as one word, unchanged, for texts without backslash, dollar and backtick.
\<close>

theorem mail_command_words:
  assumes "shell_safe message" and "shell_safe subject" and "shell_safe from_addr" and "shell_safe to_addr"
    and "DQ \<notin> set from_addr" and "DQ \<notin> set to_addr"
    and "list_ex (\<lambda>c. c \<noteq> DQ) message" and "list_ex (\<lambda>c. c \<noteq> DQ) subject"
    and "2 * length message + 2 * length subject + length from_addr + length to_addr < 20000"
  shows "\<exists>cmd. send_mail system_rc subject from_addr to_addr message = Some (system_rc cmd, cmd)
    \<and> shell_words cmd = Some ([''echo'', message, ''|'', ''/usr/bin/mail''] @
        (if from_addr = [] then [] else [''-r'', from_addr]) @ [''-s'', meant True subject, to_addr])"
proof -
  have m: "escape_quotes message (2 * length message) False = Some (esc_text False message)"
    and s: "escape_quotes subject (2 * length subject) True = Some (esc_text True subject)"
    using assms(7-9) by (simp_all add: escape_quotes_eq SIZE_MOD_def)
  have "length (esc_text False message) \<le> 2 * length message" "length (esc_text True subject) \<le> 2 * length subject"
    using esc_text_length(2) [where nr = False and s = message] esc_text_length(2) [where nr = True and s = subject] by linarith+
  then have e: "mail_cmd (esc_text False message) from_addr (esc_text True subject) to_addr =
      ''echo '' @ quoted_text (esc_text False message) @ '' | /usr/bin/mail '' @
      (if from_addr = [] then [] else ''-r '' @ quoted_text from_addr @ '' '') @ ''-s '' @ quoted_text (esc_text True subject) @ '' '' @ quoted_text to_addr"
    (is "_ = ?cmd") using assms(9) unfolding mail_cmd_def by (intro take_all) simp
  have "send_mail system_rc subject from_addr to_addr message = Some (system_rc ?cmd, ?cmd)" for system_rc
    unfolding send_mail_def m s option.case Let_def e ..
  then show ?thesis using shell_words_mail [OF assms(1-3,5,4,6)] by (intro exI [of _ ?cmd] conjI)
qed

theorem mail_command_words_witness:
  "\<exists>cmd. send_mail (\<lambda>_. 0) ''Low battery'' [] ''me@home'' (''The '' @ quoted_text ''car'') = Some (0, cmd)
    \<and> shell_words cmd = Some [''echo'', ''The '' @ quoted_text ''car'', ''|'', ''/usr/bin/mail'', ''-s'', ''Low battery'', ''me@home'']"
  using mail_command_words [of "''The '' @ quoted_text ''car''" "''Low battery''" "[]" "''me@home''" "\<lambda>_. 0"]
  by (simp add: shell_safe_def meant_def)

text \<open>A backslash before a quote ends the word: what follows it in the message is a command of its own.\<close>

lemma backslash_ends_word:
  "shell_words (snd (the (send_mail (\<lambda>_. 0) ''s'' [] ''t'' (''a'' @ [BSLASH, DQ] @ ''; reboot; '' @ [BSLASH, DQ]))))
     = Some [''echo'', ''a'' @ [BSLASH] @ '';'', ''reboot;'', [BSLASH], ''|'', ''/usr/bin/mail'', ''-s'', ''s'', ''t'']"
  by (simp add: send_mail_def escape_quotes_def SIZE_MOD_def mail_cmd_def shell_words_def word_so_far_def)

lemma empty_subject_overruns: "send_mail system_rc [] from_addr to_addr message = None"
  by (simp add: send_mail_def escape_quotes_def split: option.split)

section \<open>The text of a template mail\<close>

definition same_texts :: "smtp_handle \<Rightarrow> smtp_handle \<Rightarrow> bool" where
  "same_texts h h' \<longleftrightarrow> sh_html h' = sh_html h \<and> sh_plain h' = sh_plain h"

lemma same_texts_trans: "same_texts a b \<Longrightarrow> same_texts b c \<Longrightarrow> same_texts a c"
  by (simp add: same_texts_def)

lemma one_rcpt_keeps_texts: "add_one_rcpt type e h = Some h' \<Longrightarrow> same_texts h h'"
  by (auto simp: same_texts_def add_one_rcpt_def split: if_splits)

lemma rcpts_keep_texts: "add_rcpts type fs h = Some (h', rc) \<Longrightarrow> same_texts h h'"
proof (induction fs arbitrary: h)
  case Nil
  then show ?case by (simp add: same_texts_def)
next
  case (Cons f fs)
  have "h' = h \<or> (\<exists>e x. add_one_rcpt type e h = Some x \<and> add_rcpts type fs x = Some (h', rc))"
    using Cons.prems by (auto split: if_splits option.splits)
  then show ?case
  proof
    assume "h' = h"
    then show ?case by (simp add: same_texts_def)
  next
    assume "\<exists>e x. add_one_rcpt type e h = Some x \<and> add_rcpts type fs x = Some (h', rc)"
    then show ?case by (elim exE conjE) (rule same_texts_trans [OF one_rcpt_keeps_texts Cons.IH])
  qed
qed

lemma rcpt_keeps_texts: "smtp_add_rcpt h type r = Some (h', rc) \<Longrightarrow> same_texts h h'"
  by (auto simp: smtp_add_rcpt_def same_texts_def dest!: rcpts_keep_texts split: prod.splits if_splits)

lemma attachment_keeps_texts: "smtp_add_attachment h f n d ct enc = Some (h', rc) \<Longrightarrow> same_texts h h'"
  by (auto simp: smtp_add_attachment_def same_texts_def Let_def split: option.splits if_splits)

lemma attach_file_keeps_texts: "attach_file w f h = Some h' \<Longrightarrow> same_texts h h'"
  by (auto simp: attach_file_def smtp_add_attachment_binary_def smtp_add_attachment_fromfile_def same_texts_def
      dest!: attachment_keeps_texts [unfolded same_texts_def] split: option.splits if_splits)

lemma images_keep_texts: "add_images i ims h = Some h' \<Longrightarrow> same_texts h h'"
proof (induction i ims h rule: add_images.induct)
  case (1 i h)
  then show ?case by (simp add: same_texts_def)
next
  case (2 i im ims h)
  then obtain h1 rc where 1: "smtp_add_attachment_inlineimage_buffer h (im_filename im) (im_data im) (im_format im) (cid_val i) = Some (h1, rc)"
    and 3: "add_images (i + 1) ims h1 = Some h'" by (auto split: option.splits)
  have "same_texts h h1"
    using 1 by (auto simp: smtp_add_attachment_inlineimage_buffer_def set_last_cid_def same_texts_def
      dest!: attachment_keeps_texts [unfolded same_texts_def] split: option.splits if_splits)
  then show ?case using 2(1) [OF 1 refl 3] by (rule same_texts_trans)
qed

lemma connected_without_text: "connect_server cf w = Some (sent, Some h) \<Longrightarrow> sh_html h = None \<and> sh_plain h = None"
  by (auto simp: connect_server_def smtp_setup_def smtp_connect_def new_handle_def Let_def
      split: if_splits option.splits prod.splits)

lemma smtp_template_text:
  assumes "smtp_template cf w subject from_addr to_addr (Some b) buffer2 att images = Some (0, M_smtp sent)"
    and "use_html_mail cf" and "b \<noteq> []"
  shows "\<exists>sent0 h h'. smtp_sendmail (mw_env w) (mw_server w) sent0 h from_addr subject = Some (sent, h', 0)
     \<and> sh_html h = Some b \<and> sh_plain h = (if buffer2 = Some [] then None else buffer2)"
proof -
  obtain s0 h0 where c: "connect_server cf w = Some (s0, Some h0)"
    using assms(1) by (auto simp: smtp_template_def split: option.splits)
  obtain h1 rc1 where r: "smtp_add_rcpt h0 SMTP_RCPT_TO to_addr = Some (h1, rc1)" "rc1 \<noteq> -1"
    using assms(1) c by (auto simp: smtp_template_def split: option.splits if_splits)
  obtain h2 where f: "attach_file w att (fst (smtp_add_html h1 (Some b) buffer2)) = Some h2"
    using assms(1,2) c r by (auto simp: smtp_template_def split: option.splits)
  obtain h3 where i: "add_images 0 images h2 = Some h3"
    using assms(1,2) c r f by (auto simp: smtp_template_def split: option.splits)
  obtain h4 where m: "smtp_sendmail (mw_env w) (mw_server w) s0 h3 from_addr subject = Some (sent, h4, 0)"
    using assms(1,2) c r f i by (auto simp: smtp_template_def split: option.splits)
  have h1: "sh_html h1 = None" "sh_plain h1 = None"
    using connected_without_text [OF c] rcpt_keeps_texts [OF r(1)] by (simp_all add: same_texts_def)
  have "same_texts (fst (smtp_add_html h1 (Some b) buffer2)) h3"
    using attach_file_keeps_texts [OF f] images_keep_texts [OF i] by (rule same_texts_trans)
  then have "sh_html h3 = Some b \<and> sh_plain h3 = (if buffer2 = Some [] then None else buffer2)"
    using h1 assms(3) by (auto simp: same_texts_def smtp_add_html_def split: option.splits if_splits)
  then show ?thesis using m by blast
qed

lemma file_expanded:
  assumes "replace_dict_in_file d f = Some (b, rc)" and "rc \<noteq> -1"
  shows "\<exists>n bytes. f = Some (n, bytes) \<and> b = Some (expand (dict_entries d) (c_string bytes))"
  using assms by (auto simp: replace_dict_in_file_def replace_dict_eq Let_def split: option.splits if_splits)

text \<open>
  C25: A mail made from a template and sent with success has as its HTML text the template with the keywords of the
  dictionary put in, the names of the images among them.
\<close>

theorem template_mail_text:
  assumes "send_mail_template cf w subject from_addr to_addr templatename d att images = Some (0, M_smtp sent, d')"
    and "mw_files w (template_file cf templatename ''.html'') = Some (n, html)"
    and "expand (dict_entries d') (c_string html) \<noteq> []"
  shows "add_cids 0 (length images) d = Some d' \<and>
    (\<exists>sent0 h h'. smtp_sendmail (mw_env w) (mw_server w) sent0 h from_addr subject = Some (sent, h', 0)
       \<and> sh_html h = Some (expand (dict_entries d') (c_string html)))"
proof -
  have en: "enable_mail cf" using assms(1) by (auto simp: send_mail_template_def split: if_splits)
  obtain d1 where cids: "add_cids 0 (length images) d = Some d1"
    using assms(1) en by (auto simp: send_mail_template_def split: option.splits)
  have smtp: "use_html_mail cf" "smtp_use cf"
    using assms(1) en cids by (auto simp: send_mail_template_def split: option.splits if_splits)
  obtain b rc where b: "replace_dict_in_file d1 (mw_files w (template_file cf templatename ''.html'')) = Some (b, rc)" "rc \<noteq> -1"
    using assms(1) en cids smtp by (auto simp: send_mail_template_def split: option.splits if_splits)
  obtain b2 rc2 where b2: "replace_dict_in_file d1 (mw_files w (template_file cf templatename ''.txt'')) = Some (b2, rc2)"
    using assms(1) en cids smtp b by (auto simp: send_mail_template_def split: option.splits if_splits)
  have t: "smtp_template cf w subject from_addr to_addr b b2 att images = Some (0, M_smtp sent)" and d: "d' = d1"
    using assms(1) en cids smtp b b2 by (auto simp: send_mail_template_def)
  have e: "b = Some (expand (dict_entries d') (c_string html))" using file_expanded [OF b] assms(2) d by auto
  show ?thesis using smtp_template_text [OF t [unfolded e] smtp(1) assms(3)] cids d by auto
qed

definition eg_mail_conf :: mail_conf where
  "eg_mail_conf = \<lparr>enable_mail = True, smtp_use = True, use_html_mail = True, mc_data_dir = ''/d'', smtp_user = [], smtp_pwd = [],
     smtp_port = 25, daemon_email_from = ''a@b <a@b>'', send_mailaddress = ''a@b <a@b>''\<rparr>"

definition eg_world :: mail_world where
  "eg_world = \<lparr>mw_files = (\<lambda>f. Some (10, ''On [date].'')), mw_system = (\<lambda>_. 0), mw_server = obliging,
     mw_greeting = Some (R_data (smtp_reply_text [(220, ''hi'')])), mw_env = eg_env\<rparr>"

definition eg_connected :: smtp_handle where
  "eg_connected = new_handle\<lparr>sh_cap := [(220, ''hi''), (250, ''ok'')], sh_useragent := Some ''libsmtp mailer 1.0'', sh_mimeversion := Some ''1.0''\<rparr>"

lemma eg_connects: "\<exists>sent. connect_server eg_mail_conf eg_world = Some (sent, Some eg_connected)"
proof -
  let ?r = "smtp_reply_text [(220, ''hi'')]"
  have r: "?r = ''220 hi'' @ [CR, LF]" by code_simp
  have t: "read_sock_timeout (R_data ?r) = Some (0, ?r @ replicate (2048 - length ?r) NUL)" unfolding r by (simp add: read_sock_timeout_def)
  have "smtp_split_reply 128 (?r @ z) = Some (Some [(220, ''hi'')])" for z
    by (rule split_reply_text) (simp_all add: reply_ok_def)
  then have c: "smtp_connect (Some (R_data ?r)) = Some (Some (new_handle\<lparr>sh_cap := [(220, ''hi'')]\<rparr>))"
    by (simp add: smtp_connect_def t del: smtp_reply_text.simps)
  let ?t = "snprintf 255 (''EHLO '' @ ''host'' @ crlf)"
  have e: "expected_code ?t = 250" by (simp add: expected_code_def)
  note sp = split_reply_text [of "[(250, ''ok'')]" 63, OF _ _ _]
  have "\<exists>sent. smtp_send_command obliging [] ''EHLO '' ''host'' 63 = Some (sent, Some [(250, ''ok'')])"
    using obliging_reply [of "[] @ [?t]"] sp e
    by (simp add: smtp_send_command_def obliging_def Let_def reply_ok_def del: smtp_split_reply.simps smtp_reply_text.simps)
  then show ?thesis
    by (auto simp: connect_server_def smtp_setup_def eg_mail_conf_def eg_world_def c eg_env_def eg_connected_def Let_def
        simp del: smtp_reply_text.simps)
qed

lemma eg_rcpt:
  "smtp_add_rcpt eg_connected SMTP_RCPT_TO ''a@b <a@b>'' =
     Some (eg_connected\<lparr>sh_to := [quoted_text ''a@b'' @ '' <a@b>''], sh_to_concatenated := Some (quoted_text ''a@b'' @ '' <a@b>'')\<rparr>, 0)"
  by code_simp

lemma eg_mail_valid: "valid_addr (quoted_text ''a@b'' @ '' <a@b>'')" by code_simp

lemma eg_expanded: "replace_dict_in_file (eg_dict ''today'') (Some (10, ''On [date].'')) = Some (Some ''On today.'', 0)"
  and eg_expand: "expand (dict_entries (eg_dict ''today'')) ''On [date].'' = ''On today.''"
  using key_at_date [of "''today''" "''.''"]
  by (simp_all add: replace_dict_in_file_def replace_dict_eq eg_dict_entries expand.simps(2) c_string_def MAX_DICTIONARY_VAL_SIZE_def Let_def)

theorem template_mail_text_witness:
  "\<exists>sent d' sent0 h h'. send_mail_template eg_mail_conf eg_world ''Hi'' ''a@b <a@b>'' ''a@b <a@b>'' ''m'' (eg_dict ''today'') None [] = Some (0, M_smtp sent, d')
     \<and> smtp_sendmail eg_env obliging sent0 h ''a@b <a@b>'' ''Hi'' = Some (sent, h', 0) \<and> sh_html h = Some ''On today.''"
proof -
  obtain s0 where c: "connect_server eg_mail_conf eg_world = Some (s0, Some eg_connected)" using eg_connects by blast
  let ?a = "quoted_text ''a@b'' @ '' <a@b>''"
  let ?h = "eg_connected\<lparr>sh_to := [?a], sh_to_concatenated := Some ?a, sh_html := Some ''On today.'', sh_plain := Some ''On today.''\<rparr>"
  have "qprint_encode_word ''Hi'' 1024 \<noteq> None" by (simp add: qprint_encode_word_def word_prefix_def)
  then obtain sent h' where m: "smtp_sendmail eg_env obliging s0 ?h ''a@b <a@b>'' ''Hi'' = Some (sent, h', 0)"
    using obliging_delivers [of ?h ?a "''On today.''" eg_env "''Hi''" "''a@b <a@b>''" s0] eg_mail_valid eg_valid_addr
    by (auto simp: eg_connected_def eg_env_def new_handle_def)
  have a: "fst (smtp_add_html (eg_connected\<lparr>sh_to := [?a], sh_to_concatenated := Some ?a\<rparr>) (Some ''On today.'') (Some ''On today.'')) = ?h"
    by (simp add: smtp_add_html_def eg_connected_def new_handle_def)
  have w: "use_html_mail eg_mail_conf" "smtp_use eg_mail_conf" "enable_mail eg_mail_conf" "mw_env eg_world = eg_env" "mw_server eg_world = obliging"
    "mw_files eg_world f = Some (10, ''On [date].'')" for f by (simp_all add: eg_mail_conf_def eg_world_def)
  have t: "smtp_template eg_mail_conf eg_world ''Hi'' ''a@b <a@b>'' ''a@b <a@b>'' (Some ''On today.'') (Some ''On today.'') None [] = Some (0, M_smtp sent)"
    unfolding smtp_template_def c option.case prod.case eg_rcpt Let_def w(2-) attach_file_def if_P [OF w(1)] a using m by simp
  have r: "send_mail_template eg_mail_conf eg_world ''Hi'' ''a@b <a@b>'' ''a@b <a@b>'' ''m'' (eg_dict ''today'') None [] = Some (0, M_smtp sent, eg_dict ''today'')"
    unfolding send_mail_template_def w(4-) by (simp add: eg_expanded t w(1-3))
  have n: "expand (dict_entries (eg_dict ''today'')) (c_string ''On [date].'') = ''On today.''" using eg_expand by (simp add: c_string_def)
  then have ne: "expand (dict_entries (eg_dict ''today'')) (c_string ''On [date].'') \<noteq> []" by simp
  from template_mail_text [OF r w(6) ne, unfolded n w] r show ?thesis by blast
qed

end
