(* ===== verification/Notify.thy ===== *)
theory Notify
  imports Locations Mailutil Geoloc
begin

text \<open>
  What follows a location (\<^verbatim>\<open>src/src/tracker.c\<close>): the mail for an event, with the dictionary of its template and the
  maps, the script for an event, the mail and the script for a new connection, and the call-back that
  \<open>db_store_locations\<close> makes for each row. The time, the host, \<^verbatim>\<open>df\<close>, the load, printing percentages and the files are
  arguments; the nick names are read through SQLite as in \<open>Nicks\<close>.
\<close>

section \<open>Surroundings\<close>

record 'd notify_env =
  ne_cf :: mail_conf
  ne_world :: mail_world
  ne_ctime :: string
  ne_hostname :: string
  ne_version :: string
  ne_prefix :: string
  ne_df :: "(char list \<times> bool) option"
  ne_loadavg :: "string option"
  use_short_devid :: bool
  include_minimap :: bool
  minimap_width :: u32
  minimap_height :: u32
  ne_geo :: geo_conf
  ne_now :: int
  ne_env1 :: call_env
  ne_env2 :: call_env
  ne_env3 :: call_env
  ne_env4 :: call_env
  ne_lookup :: bool
  ne_rand :: int
  ne_percent :: "rat \<Rightarrow> string"
  ne_addr_mem :: nat
  ne_map_mem :: nat
  ne_exec :: "'d sql_exec"
  ne_opened :: bool
  ne_db :: 'd
  ne_readable :: "string \<Rightarrow> bool"
  ne_thread :: bool
  force_mail_on_all_events :: bool
  enable_gfen_tracking :: bool
  gfen_tracking_interval :: nat
  script_on_tracker_conn :: bool
  mail_on_tracker_conn :: bool

text \<open>What the daemon did: a mail, a script, a command written to the device; and the state of the geolocation.\<close>

datatype notice = Mailed mail_sent | Script string | To_device string

record notified =
  nf_geo :: geoloc
  nf_done :: "notice list"

section \<open>The dictionary of a mail\<close>

text \<open>Adding keys in order; that a key is there already is not noticed.\<close>

fun add_keys :: "(string \<times> string) list \<Rightarrow> dict \<Rightarrow> dict option" where
  "add_keys [] d = Some d"
| "add_keys ((k, v) # kvs) d = (case add_dict d k v of None \<Rightarrow> None | Some (d', _) \<Rightarrow> add_keys kvs d')"

text \<open>A conversion of \<open>sscanf\<close>: a word of at most \<open>n\<close> characters, and a number.\<close>

definition scan_word :: "nat \<Rightarrow> string \<Rightarrow> (string \<times> string) option" where
  "scan_word n s =
     (let t = dropWhile is_space s; w = take n (takeWhile (\<lambda>c. \<not> is_space c) t)
      in if w = [] then None else Some (w, drop (length w) t))"

definition scan_int :: "string \<Rightarrow> int option" where
  "scan_int s = (let t = dropWhile is_space s; u = (if t \<noteq> [] \<and> hd t \<in> {CHR ''-'', CHR ''+''} then tl t else t) in
     if u \<noteq> [] \<and> is_digit (hd u) then strtol t else None)"

text \<open>
  Size, used, available and per cent of a file system; the inner \<open>None\<close> for a failure. The outer \<open>None\<close>: the name of
  the file system, of at most 64 characters, does not fit in the \<open>room\<close> of the caller (255 bytes in \<open>Notify\<close>, but 64 in
  \<^verbatim>\<open>dbcmd.c\<close> and \<^verbatim>\<open>export.c\<close>), or the line is empty.
\<close>

definition get_diskspace :: "nat \<Rightarrow> (char list \<times> bool) option \<Rightarrow> (string \<times> string \<times> string \<times> int) option option" where
  "get_diskspace room df =
     (case df of
        None \<Rightarrow> Some None
      | Some (out, closed_ok) \<Rightarrow>
          (case fgets 511 out of
             None \<Rightarrow> Some None
           | Some (_, rest) \<Rightarrow>
               (case fgets 511 rest of
                  None \<Rightarrow> Some None
                | Some (line, _) \<Rightarrow>
                    if c_string line = [] then None
                    else if \<not> closed_ok then Some None
                    else let buffer = butlast (c_string line) in
                      case scan_word 64 buffer of None \<Rightarrow> Some None | Some (fs, r1) \<Rightarrow>
                      if room \<le> length fs then None else
                      (case scan_word 8 r1 of None \<Rightarrow> Some None | Some (sz, r2) \<Rightarrow>
                      (case scan_word 8 r2 of None \<Rightarrow> Some None | Some (usd, r3) \<Rightarrow>
                      (case scan_word 8 r3 of None \<Rightarrow> Some None | Some (avail, r4) \<Rightarrow>
                       Some (map_option (\<lambda>fill. (sz, usd, avail, fill)) (scan_int r4))))))))"

definition disk_keys :: "nat \<Rightarrow> (char list \<times> bool) option \<Rightarrow> (string \<times> string) list option" where
  "disk_keys room df =
     (case get_diskspace room df of
        None \<Rightarrow> None
      | Some None \<Rightarrow> Some []
      | Some (Some (sz, usd, _, fill)) \<Rightarrow>
          Some [(''DISK_SIZE'', sz), (''DISK_USED'', usd), (''DISK_PERCENT_USED'', dec_int fill)])"

definition add_diskspace2dict :: "nat \<Rightarrow> (char list \<times> bool) option \<Rightarrow> dict \<Rightarrow> dict option" where
  "add_diskspace2dict room df d = (case disk_keys room df of None \<Rightarrow> None | Some kvs \<Rightarrow> add_keys kvs d)"

definition serverinfo_keys :: "'d notify_env \<Rightarrow> nat \<Rightarrow> (string \<times> string) list" where
  "serverinfo_keys ne sz =
     [(''SERVERTIME'', butlast (ne_ctime ne)), (''SERVERNAME'', take (sz - 1) (ne_hostname ne))]"

definition add_serverinfo2dict :: "'d notify_env \<Rightarrow> dict \<Rightarrow> dict option" where
  "add_serverinfo2dict ne d = add_keys (serverinfo_keys ne 1024) d"

definition add_avgload2dict :: "'d notify_env \<Rightarrow> dict \<Rightarrow> dict option" where
  "add_avgload2dict ne d =
     (case ne_loadavg ne of None \<Rightarrow> Some d | Some l \<Rightarrow> add_keys [(''SYSTEM_LOADAVG'', snprintf 64 l)] d)"

definition server_dict :: "'d notify_env \<Rightarrow> dict \<Rightarrow> dict option" where
  "server_dict ne d =
     (case add_serverinfo2dict ne d of None \<Rightarrow> None | Some d1 \<Rightarrow>
      case add_diskspace2dict 255 (ne_df ne) d1 of None \<Rightarrow> None | Some d2 \<Rightarrow> add_avgload2dict ne d2)"

text \<open>The last four characters of a device id; \<open>None\<close> for a shorter one.\<close>

definition short_devid :: "string \<Rightarrow> string option" where
  "short_devid devid = (if length devid < 4 then None else Some (drop (length devid - 4) devid))"

definition shown_devid :: "'d notify_env \<Rightarrow> string \<Rightarrow> string option" where
  "shown_devid ne devid = (if use_short_devid ne then short_devid devid else Some devid)"

text \<open>The nick name, and nick name with id, of a device; \<open>sz\<close> is the size of the second buffer.\<close>

definition nick_names :: "'d notify_env \<Rightarrow> nat \<Rightarrow> string \<Rightarrow> (string \<times> string) option" where
  "nick_names ne sz devid =
     (case db_get_nick_from_devid (ne_exec ne) (ne_opened ne) (ne_db ne) devid of
        None \<Rightarrow> None
      | Some (rc, nick) \<Rightarrow>
          if rc \<noteq> 0 then
            (case (xmb_strncpy devid 15, xmb_strncpy devid (sz - 1)) of
               (Some n, Some nd) \<Rightarrow> Some (n, nd)
             | _ \<Rightarrow> None)
          else Some (nick, snprintf sz (nick @ '' ('' @ devid @ '')'')))"

definition cache_keys :: "'d notify_env \<Rightarrow> string \<Rightarrow> string \<Rightarrow> nat \<Rightarrow> 'e geocache \<Rightarrow> (string \<times> string) list" where
  "cache_keys ne nm pre musage c =
     (case get_cache_stat c of (tot_calls, hitrate, cache_fill) \<Rightarrow>
        [(nm @ ''_CACHE_MAXSIZE'', dec (length (gc_entries c))),
         (nm @ ''_CACHE_FILL'', snprintf 32 (ne_percent ne cache_fill @ '' %'')),
         (nm @ ''_CACHE_HITRATE'', snprintf 32 (ne_percent ne hitrate @ '' % '')),
         (nm @ ''_CACHE_MEM'', snprintf 32 (pre @ dec (musage div 1024) @ '' kB '')),
         (nm @ ''_CACHE_TOTCALLS'', dec (unat tot_calls))])"

definition location_keys :: "splitfields \<Rightarrow> (string \<times> string) list" where
  "location_keys flds =
     [(''LON'', flds ! GM7_LOC_LON), (''LAT'', flds ! GM7_LOC_LAT), (''VOLTAGE'', flds ! GM7_LOC_VOLT),
      (''SPEED'', flds ! GM7_LOC_SPEED), (''SAT'', flds ! GM7_LOC_SAT), (''HEADING'', flds ! GM7_LOC_HEADING)]"

definition event_address :: "'d notify_env \<Rightarrow> splitfields \<Rightarrow> geoloc \<Rightarrow> (geoloc \<times> string) option" where
  "event_address ne flds g =
     (if ne_lookup ne
      then map_option (\<lambda>(g', _, address). (g', address))
        (get_address_from_latlon (ne_geo ne) (ne_now ne) (ne_env1 ne) (ne_env2 ne) (flds ! GM7_LOC_LAT) (flds ! GM7_LOC_LON) 512 g)
      else Some (g, ''(disabled)''))"

text \<open>All keys of the mail for an event, in the order of the code.\<close>

definition event_dict ::
    "'d notify_env \<Rightarrow> splitfields \<Rightarrow> string \<Rightarrow> string \<Rightarrow> geoloc \<Rightarrow> (dict \<times> string \<times> geoloc) option" where
  "event_dict ne flds eventCmd eventDesc g =
     (let devid = flds ! GM7_LOC_DEVID in
      if length (flds ! GM7_LOC_DATE) < 14 then None
      else case server_dict ne new_dict of None \<Rightarrow> None | Some d1 \<Rightarrow>
           case nick_names ne 512 devid of None \<Rightarrow> None | Some (nick, nick_id) \<Rightarrow>
           case shown_devid ne devid of None \<Rightarrow> None | Some idtext \<Rightarrow>
           case event_address ne flds g of None \<Rightarrow> None | Some (g', address) \<Rightarrow>
             map_option (\<lambda>d2. (d2, idtext, g'))
               (add_keys ([(''DEVICEID'', idtext), (''NICK_DEVID'', nick_id), (''EVENTCMD'', eventCmd), (''EVENTDESC'', eventDesc),
                   (''DAEMONVERSION'', ne_version ne), (''NICK'', nick), (''DATETIME'', mail_datetime (flds ! GM7_LOC_DATE))] @
                 cache_keys ne ''ADDRESS'' [] (ne_addr_mem ne) (gl_addr g) @
                 cache_keys ne ''MINIMAP'' '' '' (ne_map_mem ne) (gl_maps g) @
                 location_keys flds @ [(''RANDOM'', dec_int (ne_rand ne)), (''APPROX_ADDRESS'', address)]) d1))"

section \<open>The maps of a mail\<close>

definition map_keys :: "'d notify_env \<Rightarrow> (string \<times> string) list" where
  "map_keys ne = [(''IMG_WIDTH'', dec_int (to_int32 (uint (minimap_width ne)))),
                  (''ZOOM_OVERVIEW'', dec (minimap_overview_zoom (ne_geo ne))), (''ZOOM_DETAILED'', dec (minimap_detailed_zoom (ne_geo ne)))]"

text \<open>
  The two maps. After the first result other than 0 nothing is fetched; only -1 counts as failure. What is not fetched
  has size 0 (its pointer is never set, and freed all the same
  after the mail).
\<close>

definition get_maps ::
    "'d notify_env \<Rightarrow> string \<Rightarrow> string \<Rightarrow> geoloc \<Rightarrow> (geoloc \<times> int \<times> char list \<times> char list) option" where
  "get_maps ne lat lon g =
     (let ask = (\<lambda>env zoom g. get_minimap_from_latlon (ne_geo ne) (ne_now ne) env lat lon (of_nat zoom) (minimap_width ne) (minimap_height ne) g);
          data = (\<lambda>img. case img of None \<Rightarrow> [] | Some b \<Rightarrow> b)
      in case ask (ne_env3 ne) (minimap_overview_zoom (ne_geo ne)) g of
        None \<Rightarrow> None
      | Some (g1, rc1, overview) \<Rightarrow>
          if rc1 \<noteq> 0 then Some (g1, rc1, data overview, [])
          else map_option (\<lambda>(g2, rc1, detailed). (g2, rc1, data overview, data detailed))
                 (ask (ne_env4 ne) (minimap_detailed_zoom (ne_geo ne)) g1))"

definition daemon_mail ::
    "'d notify_env \<Rightarrow> string \<Rightarrow> string \<Rightarrow> dict \<Rightarrow> string option \<Rightarrow> inlineimage_t list \<Rightarrow> (int \<times> mail_sent) option" where
  "daemon_mail ne subject templatename d att images =
     map_option (\<lambda>(rc, sent, _). (rc, sent))
       (send_mail_template (ne_cf ne) (ne_world ne) subject (daemon_email_from (ne_cf ne)) (send_mailaddress (ne_cf ne))
          templatename d att images)"

text \<open>The mail, with the maps when they are wanted and available.\<close>

definition position_mail ::
    "'d notify_env \<Rightarrow> string \<Rightarrow> string \<Rightarrow> string \<Rightarrow> string \<Rightarrow> dict \<Rightarrow> geoloc \<Rightarrow> (int \<times> mail_sent \<times> geoloc) option" where
  "position_mail ne subject templatename lat lon d g =
     (if \<not> include_minimap ne then map_option (\<lambda>(rc, sent). (rc, sent, g)) (daemon_mail ne subject templatename d None [])
      else case add_keys (map_keys ne) d of None \<Rightarrow> None | Some d \<Rightarrow>
           case get_maps ne lat lon g of
             None \<Rightarrow> None
           | Some (g', rc1, overview, detailed) \<Rightarrow>
               if rc1 = -1 then map_option (\<lambda>(rc, sent). (rc, sent, g')) (daemon_mail ne subject templatename d None [])
               else case (setup_inlineimg ''overview_map.png'' overview, setup_inlineimg ''detailed_map.png'' detailed) of
                 (Some im1, Some im2) \<Rightarrow>
                   map_option (\<lambda>(rc, sent). (rc, sent, g')) (daemon_mail ne subject (templatename @ ''_img'') d None [im1, im2])
               | _ \<Rightarrow> None)"

section \<open>Events\<close>

definition chk_sendmail :: "'d notify_env \<Rightarrow> splitfields \<Rightarrow> notified \<Rightarrow> notified option" where
  "chk_sendmail ne flds s =
     (case chk_sendmail_event (force_mail_on_all_events ne) flds of
        None \<Rightarrow> Some s
      | Some (eventCmd, eventDesc) \<Rightarrow>
          (case event_dict ne flds eventCmd eventDesc (nf_geo s) of
             None \<Rightarrow> None
           | Some (d, idtext, g) \<Rightarrow>
               let subject = snprintf 1024 (ne_prefix ne @ ''[ID:'' @ idtext @ ''] Event: '' @ quoted_text eventDesc) in
               map_option (\<lambda>(rc, sent, g'). s\<lparr>nf_geo := g', nf_done := nf_done s @ [Mailed sent]\<rparr>)
                 (position_mail ne subject ''mail_event'' (flds ! GM7_LOC_LAT) (flds ! GM7_LOC_LON) d g)))"

definition run_script :: "'d notify_env \<Rightarrow> string \<Rightarrow> notified \<Rightarrow> notified" where
  "run_script ne cmd s = (if ne_thread ne then s\<lparr>nf_done := nf_done s @ [Script cmd]\<rparr> else s)"

definition chk_actionscript :: "'d notify_env \<Rightarrow> splitfields \<Rightarrow> notified \<Rightarrow> notified option" where
  "chk_actionscript ne flds s =
     (let eventid = to_uint32 (xatoi (flds ! GM7_LOC_EVENTID)) in
      if 100 < eventid then Some s
      else let scriptName = snprintf 256 (mc_data_dir (ne_cf ne) @ ''/event_scripts/'' @ dec eventid @ ''_action.sh'') in
        if \<not> ne_readable ne scriptName then Some s
        else map_option (\<lambda>(nick, _).
            run_script ne (snprintf 2048 (''sh '' @ scriptName @ '' -t '' @ flds ! GM7_LOC_DATE @ '' -d '' @ flds ! GM7_LOC_DEVID @
              '' -l '' @ quoted_text (flds ! GM7_LOC_LAT) @ '' -n '' @ quoted_text (flds ! GM7_LOC_LON) @ '' -m '' @ quoted_text nick)) s)
          (nick_names ne 16 (flds ! GM7_LOC_DEVID)))"

text \<open>The call-back for a row that was stored; once something is undefined it stays so.\<close>

definition store_loc_callback :: "'d notify_env \<Rightarrow> notified option \<Rightarrow> splitfields \<Rightarrow> notified option" where
  "store_loc_callback ne st flds =
     (case st of
        None \<Rightarrow> None
      | Some s \<Rightarrow>
          (case chk_sendmail ne flds s of
             None \<Rightarrow> None
           | Some s1 \<Rightarrow>
               (case chk_actionscript ne flds s1 of
                  None \<Rightarrow> None
                | Some s2 \<Rightarrow> Some
                    (case chk_specialhandling (enable_gfen_tracking ne) (gfen_tracking_interval ne) flds of
                       None \<Rightarrow> s2
                     | Some cmd \<Rightarrow> s2\<lparr>nf_done := nf_done s2 @ [To_device cmd]\<rparr>))))"

definition handleLocPackage ::
    "('d, notified option) store_env \<Rightarrow> 'd notify_env \<Rightarrow> client_info \<Rightarrow> string \<Rightarrow> 'd \<Rightarrow> notified option
     \<Rightarrow> (int \<times> ('d, notified option) store_state) option" where
  "handleLocPackage en ne cli buffer d w =
     db_store_locations (en\<lparr>st_cb := store_loc_callback ne\<rparr>) (cli_socket cli) 1 buffer d w"

section \<open>New connections\<close>

definition conn_script :: "'d notify_env \<Rightarrow> string \<Rightarrow> string \<Rightarrow> notified \<Rightarrow> notified" where
  "conn_script ne devid nick s =
     (let scriptName = snprintf 512 (mc_data_dir (ne_cf ne) @ ''/event_scripts/tracker_conn.sh'') in
      if script_on_tracker_conn ne \<and> ne_readable ne scriptName
      then run_script ne (snprintf 1024 (''sh '' @ scriptName @ '' -d '' @ devid @ '' -n '' @ quoted_text nick)) s else s)"

definition conn_mail :: "'d notify_env \<Rightarrow> client_info \<Rightarrow> string \<Rightarrow> string \<Rightarrow> string \<Rightarrow> notified \<Rightarrow> notified option" where
  "conn_mail ne cli devid nick nick_id s =
     (case shown_devid ne devid of None \<Rightarrow> None | Some idtext \<Rightarrow>
      case add_keys [(''DEVICEID'', idtext)] new_dict of None \<Rightarrow> None | Some d1 \<Rightarrow>
      case server_dict ne d1 of None \<Rightarrow> None | Some d2 \<Rightarrow>
      case add_keys [(''NICK'', nick), (''NICK_DEVID'', nick_id), (''DAEMONVERSION'', ne_version ne), (''CLIENT_IP'', cli_ipadr cli)] d2 of
        None \<Rightarrow> None
      | Some d3 \<Rightarrow>
          let subject = snprintf 255 (ne_prefix ne @ ''[ID:'' @ idtext @ ''] New connection'') in
          map_option (\<lambda>(rc, sent). s\<lparr>nf_done := nf_done s @ [Mailed sent]\<rparr>) (daemon_mail ne subject ''mail_tracker_conn'' d3 None []))"

definition chk_connection_notification :: "'d notify_env \<Rightarrow> client_info \<Rightarrow> string \<Rightarrow> notified \<Rightarrow> notified option" where
  "chk_connection_notification ne cli devid s =
     (if \<not> script_on_tracker_conn ne \<and> \<not> mail_on_tracker_conn ne then Some s
      else case nick_names ne 32 devid of
        None \<Rightarrow> None
      | Some (nick, nick_id) \<Rightarrow>
          let s1 = conn_script ne devid nick s in
          if mail_on_tracker_conn ne then conn_mail ne cli devid nick nick_id s1 else Some s1)"

section \<open>What a mail tells\<close>

lemma dict_wf_length: "dict_wf d \<Longrightarrow> length (dict_entries d) = dc_idx d"
  by (simp add: dict_wf_def dict_entries_def)

text \<open>Adding keys never fails; what is there already stays, of the new ones the first counts.\<close>

lemma add_keys_ok:
  assumes "dict_wf d"
  shows "\<exists>d'. add_keys kvs d = Some d' \<and> dict_wf d' \<and> getval_dict d' = map_of kvs ++ getval_dict d
    \<and> dc_idx d' \<le> dc_idx d + length kvs"
  using assms
proof (induction kvs arbitrary: d)
  case Nil
  then show ?case by simp
next
  case (Cons kv kvs)
  obtain k v where kv: "kv = (k, v)" by fastforce
  obtain d1 rc where 1: "add_dict d k v = Some (d1, rc)" "dict_wf d1"
    "dict_entries d1 = (if getval_dict d k = None then dict_entries d @ [(k, v)] else dict_entries d)"
    using add_dict_wf [OF Cons.prems, of k v] by blast
  have n: "dc_idx d1 \<le> dc_idx d + 1" using dict_wf_length [OF 1(2)] dict_wf_length [OF Cons.prems] by (auto simp: 1(3) split: if_splits)
  have "getval_dict d1 = [k \<mapsto> v] ++ getval_dict d"
    by (auto simp: getval_dict_map_of 1(3) map_add_def fun_eq_iff map_of_eq_None_iff split: option.splits)
  then have g: "map_of kvs ++ getval_dict d1 = map_of (kv # kvs) ++ getval_dict d"
    by (auto simp: kv map_add_def fun_eq_iff split: option.splits)
  from Cons.IH [OF 1(2)] obtain d' where "add_keys kvs d1 = Some d'" "dict_wf d'" "getval_dict d' = map_of kvs ++ getval_dict d1"
    "dc_idx d' \<le> dc_idx d1 + length kvs" by blast
  with 1(1) g n show ?case by (intro exI [of _ d']) (simp add: kv fun_upd_def)
qed

lemma add_keys_some:
  assumes "add_keys kvs d = Some d'" and "dict_wf d"
  shows "dict_wf d' \<and> getval_dict d' = map_of kvs ++ getval_dict d \<and> dc_idx d' \<le> dc_idx d + length kvs"
  using add_keys_ok [OF assms(2), of kvs] assms(1) by auto

definition server_keys :: "string list" where
  "server_keys = [''SERVERTIME'', ''SERVERNAME'', ''DISK_SIZE'', ''DISK_USED'', ''DISK_PERCENT_USED'', ''SYSTEM_LOADAVG'']"

lemma server_dict_some:
  assumes "server_dict ne d = Some d'" and "dict_wf d" and "k \<notin> set server_keys"
  shows "dict_wf d' \<and> getval_dict d' k = getval_dict d k \<and> dc_idx d' \<le> dc_idx d + 6"
proof -
  obtain d1 d2 where 1: "add_keys (serverinfo_keys ne 1024) d = Some d1" and 2: "add_diskspace2dict 255 (ne_df ne) d1 = Some d2"
    and 3: "add_avgload2dict ne d2 = Some d'"
    using assms(1) by (auto simp: server_dict_def add_serverinfo2dict_def split: option.splits)
  obtain kvs where kvs: "disk_keys 255 (ne_df ne) = Some kvs" "add_keys kvs d1 = Some d2"
    using 2 by (auto simp: add_diskspace2dict_def split: option.splits)
  have k: "map_of kvs k = None" "length kvs \<le> 3"
    using kvs(1) assms(3) by (auto simp: disk_keys_def server_keys_def split: option.splits)
  note f1 = add_keys_some [OF 1 assms(2)]
  note f2 = add_keys_some [OF kvs(2)]
  have f3: "dict_wf d' \<and> getval_dict d' k = getval_dict d2 k \<and> dc_idx d' \<le> dc_idx d2 + 1" if "dict_wf d2"
  proof (cases "ne_loadavg ne")
    case None
    then show ?thesis using 3 that by (simp add: add_avgload2dict_def)
  next
    case (Some l)
    then have "add_keys [(''SYSTEM_LOADAVG'', snprintf 64 l)] d2 = Some d'" using 3 by (simp add: add_avgload2dict_def)
    from add_keys_some [OF this that] show ?thesis using assms(3) by (auto simp: server_keys_def map_add_def split: option.split)
  qed
  have g: "getval_dict d1 k = getval_dict d k" "length (serverinfo_keys ne 1024) = 2"
    using f1 assms(3) by (simp_all add: serverinfo_keys_def server_keys_def map_add_def split: option.split)
  have h: "getval_dict d2 k = getval_dict d1 k" using f2 f1 k(1) by (auto simp: map_add_def split: option.splits)
  have w2: "dict_wf d2" using f1 f2 by blast
  have "dc_idx d' \<le> dc_idx d2 + 1" "dc_idx d2 \<le> dc_idx d1 + length kvs" "dc_idx d1 \<le> dc_idx d + 2"
    using f3 [OF w2] f2 f1 g(2) by auto
  then show ?thesis using f3 [OF w2] g h k(2) by simp
qed

lemma server_dict_total:
  assumes "dict_wf d" and "disk_keys 255 (ne_df ne) \<noteq> None"
  shows "\<exists>d'. server_dict ne d = Some d'"
proof -
  obtain d1 where 1: "add_keys (serverinfo_keys ne 1024) d = Some d1" "dict_wf d1" using add_keys_ok [OF assms(1)] by blast
  obtain kvs where k: "disk_keys 255 (ne_df ne) = Some kvs" using assms(2) by blast
  obtain d2 where 2: "add_keys kvs d1 = Some d2" "dict_wf d2" using add_keys_ok [OF 1(2)] by blast
  obtain d3 where 3: "add_avgload2dict ne d2 = Some d3"
    using add_keys_ok [OF 2(2)] by (cases "ne_loadavg ne") (auto simp: add_avgload2dict_def simp del: add_keys.simps)
  show ?thesis using 1(1) 2(1) 3 k by (simp add: server_dict_def add_serverinfo2dict_def add_diskspace2dict_def del: add_keys.simps)
qed

lemma position_mail_some:
  assumes "position_mail ne subject tn lat lon d g = Some (rc, ml, g')" and "dict_wf d"
  shows "\<exists>tn' att images d1 d2. (tn' = tn \<or> tn' = tn @ ''_img'') \<and> dict_wf d1 \<and> (\<forall>k v. getval_dict d k = Some v \<longrightarrow> getval_dict d1 k = Some v)
    \<and> send_mail_template (ne_cf ne) (ne_world ne) subject (daemon_email_from (ne_cf ne)) (send_mailaddress (ne_cf ne)) tn' d1 att images
        = Some (rc, ml, d2)"
proof (cases "include_minimap ne")
  case False
  then show ?thesis using assms by (fastforce simp: position_mail_def daemon_mail_def)
next
  case True
  obtain d1 where 1: "add_keys (map_keys ne) d = Some d1"
    using assms(1) True by (auto simp: position_mail_def simp del: add_keys.simps split: option.splits)
  have d1: "dict_wf d1" "getval_dict d k = Some v \<Longrightarrow> getval_dict d1 k = Some v" for k v
    using add_keys_some [OF 1 assms(2)] by (auto simp: map_add_def)
  obtain g1 rc1 ov de where m: "get_maps ne lat lon g = Some (g1, rc1, ov, de)"
    using assms(1) True 1 by (auto simp: position_mail_def simp del: add_keys.simps split: option.splits)
  let ?im = "(setup_inlineimg ''overview_map.png'' ov, setup_inlineimg ''detailed_map.png'' de)"
  have pm: "(if rc1 = -1 then map_option (\<lambda>(rc, ml). (rc, ml, g1)) (daemon_mail ne subject tn d1 None [])
      else case ?im of (Some im1, Some im2) \<Rightarrow> map_option (\<lambda>(rc, ml). (rc, ml, g1)) (daemon_mail ne subject (tn @ ''_img'') d1 None [im1, im2])
         | _ \<Rightarrow> None) = Some (rc, ml, g')"
    using assms(1) True 1 m by (simp add: position_mail_def del: add_keys.simps)
  have "\<exists>tn' images. (tn' = tn \<or> tn' = tn @ ''_img'') \<and> daemon_mail ne subject tn' d1 None images = Some (rc, ml)"
  proof (cases "rc1 = -1")
    case True
    then show ?thesis using pm by (intro exI [of _ tn] exI [of _ "[]"]) auto
  next
    case False
    obtain im1 im2 where im: "?im = (Some im1, Some im2)"
      using pm [unfolded if_not_P [OF False]] by (cases "setup_inlineimg ''overview_map.png'' ov"; cases "setup_inlineimg ''detailed_map.png'' de") simp_all
    show ?thesis
      using pm [unfolded if_not_P [OF False] im] by (intro exI [of _ "tn @ ''_img''"] exI [of _ "[im1, im2]"]) auto
  qed
  then obtain tn' images where t: "tn' = tn \<or> tn' = tn @ ''_img''" "daemon_mail ne subject tn' d1 None images = Some (rc, ml)" by blast
  obtain d2 where "send_mail_template (ne_cf ne) (ne_world ne) subject (daemon_email_from (ne_cf ne)) (send_mailaddress (ne_cf ne)) tn' d1 None images
      = Some (rc, ml, d2)" using t(2) by (auto simp: daemon_mail_def)
  then show ?thesis using d1 t(1) by blast
qed

text \<open>
  C24: The mail for an event is made from a dictionary that tells the position, time, speed, heading, battery and device
  of exactly this location, together with the event; the other keys of the server and the caches do not hide them.
\<close>

theorem event_mail_tells_location:
  assumes "chk_sendmail_event (force_mail_on_all_events ne) flds = Some (eventCmd, eventDesc)"
    and "chk_sendmail ne flds s = Some s'"
  shows "\<exists>subject templatename d att images rc ml d'.
      send_mail_template (ne_cf ne) (ne_world ne) subject (daemon_email_from (ne_cf ne)) (send_mailaddress (ne_cf ne)) templatename d att images
        = Some (rc, ml, d')
    \<and> nf_done s' = nf_done s @ [Mailed ml]
    \<and> map (getval_dict d) [''LAT'', ''LON'', ''SPEED'', ''HEADING'', ''VOLTAGE'', ''SAT'', ''DATETIME'', ''EVENTCMD'', ''EVENTDESC'', ''DEVICEID''] =
        map Some [flds ! GM7_LOC_LAT, flds ! GM7_LOC_LON, flds ! GM7_LOC_SPEED, flds ! GM7_LOC_HEADING, flds ! GM7_LOC_VOLT, flds ! GM7_LOC_SAT,
          mail_datetime (flds ! GM7_LOC_DATE), eventCmd, eventDesc, the (shown_devid ne (flds ! GM7_LOC_DEVID))]"
proof -
  obtain d sh g where ed: "event_dict ne flds eventCmd eventDesc (nf_geo s) = Some (d, sh, g)"
    using assms by (auto simp: chk_sendmail_def split: option.splits)
  let ?subject = "snprintf 1024 (ne_prefix ne @ ''[ID:'' @ sh @ ''] Event: '' @ quoted_text eventDesc)"
  obtain rc ml g' where pm: "position_mail ne ?subject ''mail_event'' (flds ! GM7_LOC_LAT) (flds ! GM7_LOC_LON) d g = Some (rc, ml, g')"
    and s': "nf_done s' = nf_done s @ [Mailed ml]"
    using assms ed by (auto simp: chk_sendmail_def Let_def)
  obtain d1 nick nick_id address where 1: "server_dict ne new_dict = Some d1" and sh: "shown_devid ne (flds ! GM7_LOC_DEVID) = Some sh"
    and 2: "add_keys ([(''DEVICEID'', sh), (''NICK_DEVID'', nick_id), (''EVENTCMD'', eventCmd), (''EVENTDESC'', eventDesc),
                   (''DAEMONVERSION'', ne_version ne), (''NICK'', nick), (''DATETIME'', mail_datetime (flds ! GM7_LOC_DATE))] @
                 cache_keys ne ''ADDRESS'' [] (ne_addr_mem ne) (gl_addr (nf_geo s)) @
                 cache_keys ne ''MINIMAP'' '' '' (ne_map_mem ne) (gl_maps (nf_geo s)) @
                 location_keys flds @ [(''RANDOM'', dec_int (ne_rand ne)), (''APPROX_ADDRESS'', address)]) d1 = Some d"
    using ed by (auto simp: event_dict_def Let_def simp del: add_keys.simps append.simps split: option.splits if_splits)
  have none: "getval_dict d1 k = None" "dict_wf d1" if "k \<notin> set server_keys" for k
    using server_dict_some [OF 1 new_dict_wf that] by (auto simp: getval_dict_map_of new_dict_def dict_entries_def)
  have "dict_wf d1" using none [of "''LAT''"] by (simp add: server_keys_def)
  note d = add_keys_some [OF 2 this]
  obtain tn' att images d2 d3 where m: "dict_wf d2" "\<And>k v. getval_dict d k = Some v \<Longrightarrow> getval_dict d2 k = Some v"
    "send_mail_template (ne_cf ne) (ne_world ne) ?subject (daemon_email_from (ne_cf ne)) (send_mailaddress (ne_cf ne)) tn' d2 att images = Some (rc, ml, d3)"
    using position_mail_some [OF pm] d by blast
  have look: "getval_dict d2 k = Some v" if "k \<notin> set server_keys"
    "map_of ([(''DEVICEID'', sh), (''NICK_DEVID'', nick_id), (''EVENTCMD'', eventCmd), (''EVENTDESC'', eventDesc),
                   (''DAEMONVERSION'', ne_version ne), (''NICK'', nick), (''DATETIME'', mail_datetime (flds ! GM7_LOC_DATE))] @
                 cache_keys ne ''ADDRESS'' [] (ne_addr_mem ne) (gl_addr (nf_geo s)) @
                 cache_keys ne ''MINIMAP'' '' '' (ne_map_mem ne) (gl_maps (nf_geo s)) @
                 location_keys flds @ [(''RANDOM'', dec_int (ne_rand ne)), (''APPROX_ADDRESS'', address)]) k = Some v" for k v
    using d that none(1) [OF that(1)] by (intro m(2)) (simp only: map_add_def option.case)
  have "map (getval_dict d2) [''LAT'', ''LON'', ''SPEED'', ''HEADING'', ''VOLTAGE'', ''SAT'', ''DATETIME'', ''EVENTCMD'', ''EVENTDESC'', ''DEVICEID''] =
        map Some [flds ! GM7_LOC_LAT, flds ! GM7_LOC_LON, flds ! GM7_LOC_SPEED, flds ! GM7_LOC_HEADING, flds ! GM7_LOC_VOLT, flds ! GM7_LOC_SAT,
          mail_datetime (flds ! GM7_LOC_DATE), eventCmd, eventDesc, the (shown_devid ne (flds ! GM7_LOC_DEVID))]"
    unfolding list.map list.inject
    by (intro conjI look) (simp_all add: sh server_keys_def cache_keys_def location_keys_def split: prod.split)
  then show ?thesis using m(3) s' by blast
qed

lemma replace_plain:
  assumes "CHR ''['' \<notin> set t" and "NUL \<notin> set t" and "length t < 1000" and "0 < dc_idx d" and "dc_idx d \<le> 100"
  shows "replace_dict_in_file d (Some (length t, t)) = Some (Some t, 0)"
proof -
  have e: "expand es t = t" for es using assms(1) by (induction t) (auto simp: expand.simps(2))
  have c: "c_string t = t" using assms(2) by (simp add: c_string_def takeWhile_eq_all_conv) (metis)
  show ?thesis using assms(3-5) by (simp add: replace_dict_in_file_def replace_dict_eq e c MAX_DICTIONARY_VAL_SIZE_def Let_def)
qed

text \<open>A daemon that sends its mails with the system mailer.\<close>

definition eg_notify :: "unit notify_env" where
  "eg_notify = \<lparr>ne_cf = eg_mail_conf\<lparr>smtp_use := False\<rparr>, ne_world = eg_world\<lparr>mw_files := (\<lambda>f. Some (5, ''Alarm''))\<rparr>,
     ne_ctime = ''Mon Jan  6 12:00:00 2014'' @ [LF], ne_hostname = ''host'', ne_version = ''4.0'', ne_prefix = ''g7: '', ne_df = None, ne_loadavg = None,
     use_short_devid = False, include_minimap = False, minimap_width = 200, minimap_height = 200, ne_geo = eg_conf, ne_now = 0,
     ne_env1 = Geoloc.eg_env ''OK'', ne_env2 = Geoloc.eg_env ''OK'', ne_env3 = Geoloc.eg_env ''OK'', ne_env4 = Geoloc.eg_env ''OK'', ne_lookup = False, ne_rand = 7, ne_percent = (\<lambda>_. ''0''),
     ne_addr_mem = 0, ne_map_mem = 0, ne_exec = (\<lambda>d q. (True, [], d)), ne_opened = False, ne_db = (), ne_readable = (\<lambda>_. False), ne_thread = True,
     force_mail_on_all_events = False, enable_gfen_tracking = False, gfen_tracking_interval = 60,
     script_on_tracker_conn = False, mail_on_tracker_conn = True\<rparr>"

definition eg_alarm :: splitfields where
  "eg_alarm = [''3000000001'', ''20140107232526'', ''17.961028'', ''59.366470'', ''0'', ''0'', ''0'', ''7'', ''40'', ''3.88'', ''0'']"

lemma eg_alarm_event: "chk_sendmail_event False eg_alarm = Some (''LOWBATT'', ''Internal Battery Low Alert'')"
proof -
  have "xatoi ''40'' = 40"
    by (simp add: xatoi_def is_digit_def strtol_all_digits dec_value_def LONG_MAX_def LONG_MIN_def to_int32_id)
  then show ?thesis by (simp add: chk_sendmail_event_def eg_alarm_def get_event_cmd_def g7event_list_def)
qed

lemma eg_alarm_mail: "\<exists>s' cmd. chk_sendmail eg_notify eg_alarm \<lparr>nf_geo = eg_geoloc, nf_done = []\<rparr> = Some s' \<and> nf_done s' = [Mailed (M_command cmd)]"
proof -
  have v: "eg_alarm ! GM7_LOC_DEVID = ''3000000001''" "eg_alarm ! GM7_LOC_DATE = ''20140107232526''" by (simp_all add: eg_alarm_def)
  obtain d1 where 1: "server_dict eg_notify new_dict = Some d1"
    using server_dict_total [OF new_dict_wf, of eg_notify] by (auto simp: eg_notify_def disk_keys_def get_diskspace_def)
  have w1: "dict_wf d1" "dc_idx d1 \<le> 6"
    using server_dict_some [OF 1 new_dict_wf, of "''LAT''"] by (simp_all add: server_keys_def new_dict_def)
  have n: "nick_names eg_notify 512 ''3000000001'' = Some (''3000000001'', ''3000000001'')"
    by (simp add: nick_names_def db_get_nick_from_devid_def eg_notify_def xmb_strncpy_ascii ascii_def)
  have h: "shown_devid eg_notify ''3000000001'' = Some ''3000000001''" by (simp add: shown_devid_def eg_notify_def)
  have a: "event_address eg_notify eg_alarm eg_geoloc = Some (eg_geoloc, ''(disabled)'')" by (simp add: event_address_def eg_notify_def)
  let ?kvs = "[(''DEVICEID'', ''3000000001''), (''NICK_DEVID'', ''3000000001''), (''EVENTCMD'', ''LOWBATT''), (''EVENTDESC'', ''Internal Battery Low Alert''),
        (''DAEMONVERSION'', ne_version eg_notify), (''NICK'', ''3000000001''), (''DATETIME'', mail_datetime ''20140107232526'')] @
      cache_keys eg_notify ''ADDRESS'' [] (ne_addr_mem eg_notify) (gl_addr eg_geoloc) @
      cache_keys eg_notify ''MINIMAP'' '' '' (ne_map_mem eg_notify) (gl_maps eg_geoloc) @
      location_keys eg_alarm @ [(''RANDOM'', dec_int (ne_rand eg_notify)), (''APPROX_ADDRESS'', ''(disabled)'')]"
  have len: "length ?kvs \<le> 60" by (simp add: cache_keys_def location_keys_def split: prod.split)
  obtain d where d: "add_keys ?kvs d1 = Some d" "dict_wf d" "getval_dict d = map_of ?kvs ++ getval_dict d1" "dc_idx d \<le> dc_idx d1 + length ?kvs"
    using add_keys_ok [OF w1(1)] by blast
  have ed: "event_dict eg_notify eg_alarm ''LOWBATT'' ''Internal Battery Low Alert'' eg_geoloc = Some (d, ''3000000001'', eg_geoloc)"
    unfolding event_dict_def Let_def v 1 n h a option.case prod.case d(1) by simp
  have "getval_dict d ''DEVICEID'' \<noteq> None" by (simp add: d(3) map_add_def split: option.split)
  then have "dict_entries d \<noteq> []" by (auto simp: getval_dict_map_of)
  then have "0 < dc_idx d" using dict_wf_length [OF d(2)] by (cases "dict_entries d") auto
  moreover have "dc_idx d \<le> 100" using d(4) len w1(2) by simp
  ultimately have r: "replace_dict_in_file d (Some (5, ''Alarm'')) = Some (Some ''Alarm'', 0)" using replace_plain [of "''Alarm''" d] by (simp add: eval_nat_numeral)
  have m: "\<exists>cmd. send_mail sys (snprintf 1024 (ne_prefix eg_notify @ ''[ID:3000000001] Event: '' @ quoted_text ''Internal Battery Low Alert'')) f t ''Alarm'' = Some (sys cmd, cmd)" for sys f t
    by (rule send_mail_total) (simp_all add: eg_notify_def)
  have "\<exists>rc cmd. daemon_mail eg_notify (snprintf 1024 (ne_prefix eg_notify @ ''[ID:3000000001] Event: '' @ quoted_text ''Internal Battery Low Alert'')) tn d None [] = Some (rc, M_command cmd)" for tn
    using m by (fastforce simp: daemon_mail_def send_mail_template_def eg_notify_def eg_mail_conf_def r)
  then obtain rc cmd where dm: "daemon_mail eg_notify (snprintf 1024 (ne_prefix eg_notify @ ''[ID:3000000001] Event: '' @ quoted_text ''Internal Battery Low Alert'')) ''mail_event'' d None [] = Some (rc, M_command cmd)" by blast
  have i: "\<not> include_minimap eg_notify" "force_mail_on_all_events eg_notify = False" by (simp_all add: eg_notify_def)
  have "chk_sendmail eg_notify eg_alarm \<lparr>nf_geo = eg_geoloc, nf_done = []\<rparr> = Some \<lparr>nf_geo = eg_geoloc, nf_done = [Mailed (M_command cmd)]\<rparr>"
    using dm by (simp add: chk_sendmail_def i eg_alarm_event ed position_mail_def)
  then show ?thesis by simp
qed

theorem event_mail_tells_location_witness:
  "\<exists>subject templatename d att images rc cmd d'.
      send_mail_template (ne_cf eg_notify) (ne_world eg_notify) subject ''a@b <a@b>'' ''a@b <a@b>'' templatename d att images = Some (rc, M_command cmd, d')
    \<and> map (getval_dict d) [''LAT'', ''LON'', ''EVENTDESC''] = [Some ''59.366470'', Some ''17.961028'', Some ''Internal Battery Low Alert'']"
proof -
  obtain s' cmd where r: "chk_sendmail eg_notify eg_alarm \<lparr>nf_geo = eg_geoloc, nf_done = []\<rparr> = Some s'" "nf_done s' = [Mailed (M_command cmd)]"
    using eg_alarm_mail by blast
  have e: "chk_sendmail_event (force_mail_on_all_events eg_notify) eg_alarm = Some (''LOWBATT'', ''Internal Battery Low Alert'')"
    using eg_alarm_event by (simp add: eg_notify_def)
  have c: "daemon_email_from (ne_cf eg_notify) = ''a@b <a@b>''" "send_mailaddress (ne_cf eg_notify) = ''a@b <a@b>''"
    by (simp_all add: eg_notify_def eg_mail_conf_def)
  obtain subject templatename d att images rc ml d' where
    m: "send_mail_template (ne_cf eg_notify) (ne_world eg_notify) subject ''a@b <a@b>'' ''a@b <a@b>'' templatename d att images = Some (rc, ml, d')"
    and n: "nf_done s' = nf_done \<lparr>nf_geo = eg_geoloc, nf_done = []\<rparr> @ [Mailed ml]"
    and k: "getval_dict d ''LAT'' = Some (eg_alarm ! GM7_LOC_LAT)" "getval_dict d ''LON'' = Some (eg_alarm ! GM7_LOC_LON)"
      "getval_dict d ''EVENTDESC'' = Some ''Internal Battery Low Alert''"
    using event_mail_tells_location [OF e r(1)] unfolding c list.map list.inject by (elim exE conjE) (rule that)
  have "ml = M_command cmd" using n r(2) by simp
  moreover have "map (getval_dict d) [''LAT'', ''LON'', ''EVENTDESC''] = [Some ''59.366470'', Some ''17.961028'', Some ''Internal Battery Low Alert'']"
    using k by (simp add: eg_alarm_def)
  ultimately show ?thesis using m by (intro exI conjI) (simp, assumption)
qed

end
