(* ===== verification/Mail_Commands.thy ===== *)
theory Mail_Commands
  imports Notify Export
begin

text \<open>
  The commands that mail: the last location (\<open>mail_lastloc\<close> of \<^verbatim>\<open>src/src/dbcmd.c\<close>) and the compressed export
  (\<open>mail_as_attachment\<close> of \<^verbatim>\<open>src/src/export.c\<close>). Compressing is a call of \<open>system\<close>; whether files can be read and
  removed is an argument.
\<close>

section \<open>The last location\<close>

text \<open>Nick name, nick name with id, and the short id of the device of the location.\<close>

definition lastloc_names :: "'d notify_env \<Rightarrow> 'd db_conf \<Rightarrow> 'd \<Rightarrow> string \<Rightarrow> (string \<times> string \<times> string) option" where
  "lastloc_names ne c d devid =
     (case short_devid devid of None \<Rightarrow> None | Some short \<Rightarrow>
      case db_get_nick_from_devid (dc_exec c) (ne_opened ne) d devid of
        None \<Rightarrow> None
      | Some (rc, nick) \<Rightarrow>
          Some (if rc \<noteq> 0 then (fst (xstrlcpy devid 15), fst (xstrlcpy devid 31), short)
                else (nick, snprintf 32 (nick @ '' ('' @ (if use_short_devid ne then short else devid) @ '')''), short)))"

text \<open>The keys that do not depend on the location.\<close>

definition command_dict :: "'d notify_env \<Rightarrow> string \<Rightarrow> dict option" where
  "command_dict ne fmt =
     (case add_keys (serverinfo_keys ne 256 @ [(''DAEMONVERSION'', ne_version ne), (''FORMAT'', fmt)]) new_dict of
        None \<Rightarrow> None
      | Some d \<Rightarrow> add_diskspace2dict 64 (ne_df ne) d)"

definition lastloc_keys :: "string list \<Rightarrow> string \<Rightarrow> string \<Rightarrow> string \<Rightarrow> (string \<times> string) list" where
  "lastloc_keys res nick nick_id datetime =
     [(''NICK'', nick), (''NICK_DEVID'', nick_id), (''DATETIME'', datetime), (''DEVICEID'', res ! 1), (''LAT'', res ! 2),
      (''LON'', res ! 3), (''SPEED'', res ! 4), (''APPROX_ADDRESS'', res ! 5), (''VOLTAGE'', res ! 6)]"

text \<open>The mail for the row that was read: the result of sending.\<close>

definition lastloc_mail ::
    "'d notify_env \<Rightarrow> 'd db_conf \<Rightarrow> dict \<Rightarrow> string list \<Rightarrow> geoloc \<Rightarrow> 'd \<Rightarrow> (int \<times> mail_sent \<times> geoloc) option" where
  "lastloc_mail ne c keys res g d =
     (case lastloc_names ne c d (res ! 1) of None \<Rightarrow> None | Some (nick, nick_id, short) \<Rightarrow>
      case splitdatetime (res ! 0) of None \<Rightarrow> None | Some datetime \<Rightarrow>
      case add_keys (lastloc_keys res nick nick_id datetime) keys of None \<Rightarrow> None | Some keys' \<Rightarrow>
        position_mail ne (snprintf 256 (ne_prefix ne @ ''[ID:'' @ (if use_short_devid ne then short else nick_id) @ ''] Last location in DB''))
          ''mail_lastloc'' (res ! 2) (res ! 3) keys' g)"

text \<open>
  The result, the texts for the client, what was mailed, the geolocation and the data base. Only -1 and -99 are
  failures of the mail.
\<close>

definition mail_lastloc ::
    "'d notify_env \<Rightarrow> 'd db_conf \<Rightarrow> sort_order_t \<Rightarrow> client_info \<Rightarrow> geoloc \<Rightarrow> 'd
     \<Rightarrow> (int \<times> string list \<times> mail_sent \<times> geoloc \<times> 'd) option" where
  "mail_lastloc ne c order cli g d =
     (let sockd = cli_socket cli in
      case command_dict ne ''GPX'' of None \<Rightarrow> None | Some keys \<Rightarrow>
      case db_getloclist c order 1 True d of (rc, rows, d1) \<Rightarrow>
        if rc \<noteq> 0 then Some (-1, writef sockd ''[ERR] Cannot retrieve location from DB.'', M_none, g, d1)
        else case lastloc_mail ne c keys (hd rows) g d1 of
          None \<Rightarrow> None
        | Some (rc, ml, g') \<Rightarrow>
            Some (if rc = -1 then (-1, writef sockd ''[ERR] Could not send mail.'', ml, g', d1)
                  else if rc = -99 then (-1, [], ml, g', d1)
                  else (0, writef sockd (''Mail with location sent to '' @ quoted_text (send_mailaddress (ne_cf ne))), ml, g', d1)))"

section \<open>The export as attachment\<close>

record attach_env =
  attachment_compression :: string
  ae_readable :: "string \<Rightarrow> bool"
  ae_packed :: "string \<Rightarrow> bool"
  ae_errno :: int
  ae_unlink :: "string \<Rightarrow> bool"

definition wexitstatus :: "int \<Rightarrow> int" where
  "wexitstatus rc = (rc div 256) mod 256"

text \<open>The fields of an export command for everything: 21 of them.\<close>

definition export_fields :: "string \<Rightarrow> string \<Rightarrow> string list" where
  "export_fields fmt fname = replicate 18 [] @ [fmt, [], fname]"

definition compress_cmd :: "string \<Rightarrow> string \<Rightarrow> string \<Rightarrow> string" where
  "compress_cmd bindir compression fname = snprintf 1024 (bindir @ ''/'' @ compression @ '' -f '' @ fname @ '' > /dev/null 2>&1'')"

text \<open>The program is looked for in three directories; 127 says that it was not found.\<close>

fun compress_loop :: "(string \<Rightarrow> int) \<Rightarrow> string \<Rightarrow> string \<Rightarrow> string list \<Rightarrow> int" where
  "compress_loop system_rc compression fname [] = 0"
| "compress_loop system_rc compression fname (dir # dirs) =
     (let rc = system_rc (compress_cmd dir compression fname) in
      if dirs \<noteq> [] \<and> wexitstatus rc = 127 then compress_loop system_rc compression fname dirs else rc)"

definition bindirs :: "string list" where
  "bindirs = [''/usr/bin'', ''/bin'', ''/usr/local/bin'']"

definition packed_name :: "string \<Rightarrow> string \<Rightarrow> string option" where
  "packed_name compression fname =
     (if compression = [] then None
      else if hd compression = CHR ''g'' then Some (fst (xstrlcat fname ''.gz'' 256))
      else if hd compression = CHR ''x'' then Some (fst (xstrlcat fname ''.xz'' 256))
      else if hd compression = CHR ''b'' then Some (fst (xstrlcat fname ''.bz2'' 256))
      else None)"

definition mail_packed ::
    "'d notify_env \<Rightarrow> attach_env \<Rightarrow> client_info \<Rightarrow> string \<Rightarrow> string \<Rightarrow> (int \<times> string list \<times> mail_sent) option" where
  "mail_packed ne ae cli exportFormat fname =
     (case command_dict ne exportFormat of None \<Rightarrow> None | Some keys \<Rightarrow>
        let to_addr = fst (xstrlcpy (send_mailaddress (ne_cf ne)) 128) in
        case send_mail_template (ne_cf ne) (ne_world ne) (snprintf 256 (ne_prefix ne @ ''Exported database'')) (daemon_email_from (ne_cf ne)) to_addr
               ''mail_with_export_attachment'' keys (Some fname) [] of
          None \<Rightarrow> None
        | Some (rc, ml, _) \<Rightarrow>
            Some (if rc = -1 \<or> rc = -99 then (-1, [], ml)
                  else if \<not> ae_unlink ae fname then (-1, [], ml)
                  else (0, writef (cli_socket cli) (''Mail with attachment sent to '' @ quoted_text to_addr), ml)))"

definition mail_as_attachment ::
    "'d notify_env \<Rightarrow> attach_env \<Rightarrow> 'd db_conf \<Rightarrow> export_env \<Rightarrow> client_info \<Rightarrow> string \<Rightarrow> internal_set \<Rightarrow> 'd
     \<Rightarrow> (int \<times> string list \<times> mail_sent \<times> 'd) option" where
  "mail_as_attachment ne ae c e cli exportFormat s d =
     (let tmpExportFile = snprintf 256 (''/tmp/g7db_export.'' @ exportFormat) in
      case exportdb_to_external_format c e cli 21 (export_fields (take 5 exportFormat) tmpExportFile) s d of
        None \<Rightarrow> None
      | Some (_, told, _, d1) \<Rightarrow>
          if \<not> ae_readable ae tmpExportFile then Some (-1, told, M_none, d1)
          else if wexitstatus (compress_loop (mw_system (ne_world ne)) (attachment_compression ae) tmpExportFile bindirs) \<noteq> 0 \<or> ae_errno ae \<noteq> 0
          then Some (-1, told, M_none, d1)
          else case packed_name (attachment_compression ae) tmpExportFile of
            None \<Rightarrow> Some (-1, told, M_none, d1)
          | Some fname \<Rightarrow>
              if \<not> ae_packed ae fname then Some (-1, told, M_none, d1)
              else map_option (\<lambda>(rc, outs, ml). (rc, told @ outs, ml, d1)) (mail_packed ne ae cli exportFormat fname))"

definition mail_export_attachment ::
    "string \<Rightarrow> 'd notify_env \<Rightarrow> attach_env \<Rightarrow> 'd db_conf \<Rightarrow> export_env \<Rightarrow> client_info \<Rightarrow> internal_set \<Rightarrow> 'd
     \<Rightarrow> (int \<times> string list \<times> mail_sent \<times> 'd) option" where
  "mail_export_attachment fmt ne ae c e cli s d =
     map_option (\<lambda>(rc, told, ml, d'). (rc, if rc \<noteq> 0 then told @ writef (cli_socket cli) ''[ERR] Failed to send compressed DB export.'' else told, ml, d'))
       (mail_as_attachment ne ae c e cli fmt s d)"

definition mail_gpx_attachment where "mail_gpx_attachment = mail_export_attachment ''gpx''"
definition mail_csv_attachment where "mail_csv_attachment = mail_export_attachment ''csv''"

section \<open>What is mailed\<close>

lemma command_dict_some:
  assumes "command_dict ne fmt = Some d" and "k \<notin> set server_keys" and "k \<noteq> ''DAEMONVERSION''" and "k \<noteq> ''FORMAT''"
  shows "dict_wf d \<and> getval_dict d k = None"
proof -
  obtain d1 where 1: "add_keys (serverinfo_keys ne 256 @ [(''DAEMONVERSION'', ne_version ne), (''FORMAT'', fmt)]) new_dict = Some d1"
    and 2: "add_diskspace2dict 64 (ne_df ne) d1 = Some d"
    using assms(1) by (auto simp: command_dict_def simp del: add_keys.simps split: option.splits)
  obtain kvs where kvs: "disk_keys 64 (ne_df ne) = Some kvs" "add_keys kvs d1 = Some d"
    using 2 by (auto simp: add_diskspace2dict_def split: option.splits)
  have k: "map_of kvs k = None" using kvs(1) assms(2) by (auto simp: disk_keys_def server_keys_def split: option.splits)
  have n: "getval_dict new_dict k = None" by (simp add: getval_dict_map_of new_dict_def dict_entries_def)
  note f1 = add_keys_some [OF 1 new_dict_wf]
  have "getval_dict d1 k = None" using f1 n assms(2-4) by (auto simp: serverinfo_keys_def server_keys_def map_add_def)
  moreover have "dict_wf d1" using f1 by blast
  note add_keys_some [OF kvs(2) this]
  ultimately show ?thesis using k by (auto simp: map_add_def)
qed

text \<open>The mail with the last location tells the position, speed, address and battery of the row that was read.\<close>

lemma lastloc_mail_tells_row:
  assumes "command_dict ne ''GPX'' = Some keys" and "lastloc_mail ne c keys res g d = Some (rc, ml, g')"
  shows "\<exists>subject templatename att images d1 d2.
      send_mail_template (ne_cf ne) (ne_world ne) subject (daemon_email_from (ne_cf ne)) (send_mailaddress (ne_cf ne)) templatename d1 att images
        = Some (rc, ml, d2)
    \<and> map (getval_dict d1) [''DEVICEID'', ''LAT'', ''LON'', ''SPEED'', ''APPROX_ADDRESS'', ''VOLTAGE''] =
        map Some [res ! 1, res ! 2, res ! 3, res ! 4, res ! 5, res ! 6]"
proof -
  obtain nick nick_id datetime keys' subject where
    k: "add_keys (lastloc_keys res nick nick_id datetime) keys = Some keys'"
    and pm: "position_mail ne subject ''mail_lastloc'' (res ! 2) (res ! 3) keys' g = Some (rc, ml, g')"
    using assms(2) by (auto simp: lastloc_mail_def simp del: add_keys.simps split: option.splits)
  have w: "dict_wf keys" using command_dict_some [OF assms(1), of "''LAT''"] by (simp add: server_keys_def)
  note f = add_keys_some [OF k w]
  obtain tn' att images d1 d2 where m: "\<And>k v. getval_dict keys' k = Some v \<Longrightarrow> getval_dict d1 k = Some v"
    "send_mail_template (ne_cf ne) (ne_world ne) subject (daemon_email_from (ne_cf ne)) (send_mailaddress (ne_cf ne)) tn' d1 att images = Some (rc, ml, d2)"
    using position_mail_some [OF pm] f by blast
  have look: "getval_dict d1 k = Some v"
    if "k \<notin> set server_keys" "k \<noteq> ''DAEMONVERSION''" "k \<noteq> ''FORMAT''" "map_of (lastloc_keys res nick nick_id datetime) k = Some v" for k v
    using f that(4) command_dict_some [OF assms(1) that(1-3)] by (intro m(1)) (auto simp: map_add_def)
  have "map (getval_dict d1) [''DEVICEID'', ''LAT'', ''LON'', ''SPEED'', ''APPROX_ADDRESS'', ''VOLTAGE''] =
        map Some [res ! 1, res ! 2, res ! 3, res ! 4, res ! 5, res ! 6]"
    unfolding list.map list.inject by (intro conjI look) (simp_all add: server_keys_def lastloc_keys_def)
  then show ?thesis using m(2) by blast
qed

text \<open>A file system with a name of 64 characters overruns the buffer of these commands.\<close>

lemma long_file_system_name_overruns:
  assumes "\<forall>c\<in>set nm. \<not> is_space c \<and> c \<noteq> NUL" and "length nm = 64" and "LF \<notin> set hdr" and "length hdr < 500"
  shows "get_diskspace 64 (Some (hdr @ [LF] @ nm @ '' 1T 1G 1T 5% /'' @ [LF], True)) = None"
proof -
  have sp: "is_space LF" "is_space (CHR '' '')" by (simp_all add: is_space_def)
  have lf: "LF \<notin> set nm" using assms(1) sp(1) by blast
  have h: "fgets 511 (hdr @ [LF] @ r) = Some (hdr @ [LF], r)" for r
  proof -
    have "find_idx (\<lambda>c. c = LF) (hdr @ LF # r) = length hdr"
      using find_idx_absent [of LF "rev hdr" "LF # r"] assms(3) by simp
    then show ?thesis using assms(4) by (simp add: fgets_def Let_def)
  qed
  have n: "fgets 511 (nm @ '' 1T 1G 1T 5% /'' @ [LF]) = Some (nm @ '' 1T 1G 1T 5% /'' @ [LF], [])"
  proof -
    have "find_idx (\<lambda>c. c = LF) (nm @ '' 1T 1G 1T 5% /'' @ [LF]) = 78"
      using find_idx_absent [of LF "rev nm" "'' 1T 1G 1T 5% /'' @ [LF]"] lf assms(2) by simp
    then show ?thesis using assms(2) by (simp add: fgets_def Let_def)
  qed
  have c: "c_string (nm @ '' 1T 1G 1T 5% /'' @ [LF]) = nm @ '' 1T 1G 1T 5% /'' @ [LF]"
    using assms(1) unfolding c_string_def by (subst takeWhile_eq_all_conv) auto
  obtain x xs where nx: "nm = x # xs" using assms(2) by (cases nm) auto
  have d: "dropWhile is_space (nm @ r) = nm @ r" for r using assms(1) by (simp add: nx)
  have t: "takeWhile (\<lambda>c. \<not> is_space c) (nm @ CHR '' '' # r) = nm" for r
    using assms(1) sp(2) by (subst takeWhile_append2) simp_all
  have n0: "nm \<noteq> []" using nx by simp
  have w1: "scan_word 64 (nm @ '' 1T 1G 1T 5% /'') = Some (nm, '' 1T 1G 1T 5% /'')"
    using assms(2) n0 by (simp add: scan_word_def Let_def d t)
  have ne: "nm @ '' 1T 1G 1T 5% /'' @ [LF] \<noteq> []" by simp
  have b: "butlast (nm @ '' 1T 1G 1T 5% /'' @ [LF]) = nm @ '' 1T 1G 1T 5% /''"
    using butlast_snoc [of "nm @ '' 1T 1G 1T 5% /''" LF] by simp
  show ?thesis
    unfolding get_diskspace_def option.case h prod.case n c Let_def if_not_P [OF ne] b w1 using assms(2) by simp
qed

text \<open>Another failure of the system mailer is reported as success.\<close>

lemma failed_mailer_reported_sent:
  assumes "command_dict ne ''GPX'' = Some keys" and "db_getloclist c order 1 True d = (0, rows, d1)"
    and "lastloc_mail ne c keys (hd rows) g d1 = Some (256, ml, g')"
  shows "mail_lastloc ne c order cli g d =
    Some (0, writef (cli_socket cli) (''Mail with location sent to '' @ quoted_text (send_mailaddress (ne_cf ne))), ml, g', d1)"
  using assms by (simp add: mail_lastloc_def)

end
