(* ===== verification/Spec2Isabelle.thy ===== *)
theory Spec2Isabelle
  imports Assocarray Reply_Routing Clients Dict Smtp Unitbl_Spec Utils Srvcmd Export_Formats Mail_Commands Loclist Usb
begin

text \<open>
  \<^bold>\<open>A verification development for g7ctrl.\<close>

  g7ctrl is a daemon, written in C, for GPS trackers of the type GM7. Devices connect to it over GPRS
  (or USB) and report locations and answers; users connect to a command port and give commands
  (\<^verbatim>\<open>get ver\<close>, \<^verbatim>\<open>set led\<close>, \<^verbatim>\<open>.ld\<close>, \<^verbatim>\<open>db size\<close>, \<^verbatim>\<open>@preset\<close>). Each connection has a thread. The threads share
  the list of connections and the queue of commands that wait for a device's answer.

  \<^bold>\<open>How the program works.\<close> \<^verbatim>\<open>socklistener.c\<close> accepts a connection and gives it an entry of the client
  list; the thread of a command client runs the interpreter of \<^verbatim>\<open>g7cmd.c\<close>, the thread of a device runs
  \<^verbatim>\<open>tracker.c\<close>. A device command is looked up in the command table, its arguments are asked for one by one
  and checked, the text \<^verbatim>\<open>$WP+CMD+TAG=pin,args\<close> is sent over USB or GPRS (\<^verbatim>\<open>g7sendcmd.c\<close>), and an entry
  of the command queue waits for the reply with this tag. The tracker thread of the device cuts its input
  into packages; it stores a reply in the queue, where the waiting thread finds it, and a location package
  in the data base, may ask a service for the street address (\<^verbatim>\<open>geoloc.c\<close>, \<^verbatim>\<open>geoloc_cache.c\<close>) and may send a
  mail (\<^verbatim>\<open>dict.c\<close>, \<^verbatim>\<open>libsmtpmail\<close>). Listings are drawn with \<^verbatim>\<open>libunitbl\<close>.

  \<^bold>\<open>Conventions.\<close> A C string is a \<open>char list\<close> without the terminator (\<open>cstr\<close>: no NUL inside); a buffer
  is its contents with its size as a number. A function that writes to a buffer returns the new contents
  and, where it can go wrong, \<open>None\<close> or an explicit result for an access outside. \<open>int\<close> results of the
  code are \<open>int\<close>, with the codes of the source; fields whose wrap-around matters are words (\<open>16 word\<close> for
  the tag, \<open>32 word\<close> where the source has \<^verbatim>\<open>unsigned\<close>), \<open>size_t\<close> subtraction is written modulo \<open>SIZE_MOD\<close>.
  Results of system calls, of the clocks, of SQLite, PCRE, libcurl and libxml2, of the file system and of
  the remote server are arguments of the functions that use them. Logging is left out.

  \<^bold>\<open>Theories.\<close> Each theory starts with a text that says what it models.

    \<^item> \<^verbatim>\<open>G7_Prelude\<close>: bytes, C strings, number printing and reading, lists and maps.
    \<^item> \<^verbatim>\<open>Xstr\<close>: \<^verbatim>\<open>libxstr/xstr.c\<close>. \<^verbatim>\<open>Utils\<close>: URL and HTML coding and the helpers of \<^verbatim>\<open>utils.c\<close>.
    \<^item> \<^verbatim>\<open>Name_Store\<close> (interface), \<^verbatim>\<open>Assocarray\<close> (\<^verbatim>\<open>libxstr/assocarray.c\<close>), \<^verbatim>\<open>Dict\<close> (\<^verbatim>\<open>dict.c\<close>).
    \<^item> \<^verbatim>\<open>Slot_Table\<close> (interface), \<^verbatim>\<open>Cmdqueue\<close> (the queue of \<^verbatim>\<open>g7sendcmd.c\<close>), \<^verbatim>\<open>Clients\<close> (\<^verbatim>\<open>socklistener.c\<close>).
    \<^item> \<^verbatim>\<open>Cmdtable\<close>: the command and argument tables of \<^verbatim>\<open>g7cmd.c\<close>, with all their rows and texts.
    \<^item> \<^verbatim>\<open>Sendcmd\<close>: the rest of \<^verbatim>\<open>g7sendcmd.c\<close>: reply parser, both transports, target selection, queries.
    \<^item> \<^verbatim>\<open>Tracker\<close>: \<^verbatim>\<open>tracker.c\<close>. \<^verbatim>\<open>Reply_Routing\<close>: queue operations of several threads as a step relation.
    \<^item> \<^verbatim>\<open>Userinput\<close>, \<^verbatim>\<open>Cmdinterp\<close>: the dialogue with a client and the interpreter of \<^verbatim>\<open>g7cmd.c\<close>.
    \<^item> \<^verbatim>\<open>Position_Cache\<close> (interface), \<^verbatim>\<open>Geocache\<close> (\<^verbatim>\<open>geoloc_cache.c\<close>), \<^verbatim>\<open>Geoloc\<close> (\<^verbatim>\<open>geoloc.c\<close>).
    \<^item> \<^verbatim>\<open>Base64\<close>, \<^verbatim>\<open>Quotprint\<close>, \<^verbatim>\<open>Mail_Compose\<close>, \<^verbatim>\<open>Smtp\<close>: \<^verbatim>\<open>libsmtpmail\<close>.
    \<^item> \<^verbatim>\<open>Unitbl\<close>, \<^verbatim>\<open>Unitbl_Draw\<close>, \<^verbatim>\<open>Unitbl_Spec\<close>: the text tables of \<^verbatim>\<open>libunitbl\<close>.
\<close>

end
